(* ===== verification/Prelude.thy ===== *)
theory Prelude
  imports Main "HOL-Library.Word" "HOL-Library.Monad_Syntax"
begin

unbundle bit_operations_syntax

text \<open>
  The shared prelude of the development: the machine types of the C sources, the error
  numbers they return, little- and big-endian loads from a byte-addressed memory, and the
  generic facts on words, lists and options that the component theories use.
  An invalid memory access is the value \<open>None\<close> of the option monad, so a definition
  that reads outside the memory it was given is visibly undefined.
\<close>

section \<open>Machine types\<close>

type_synonym u8 = "8 word"
type_synonym u16 = "16 word"
type_synonym u32 = "32 word"
type_synonym u64 = "64 word"

text \<open>A byte-addressed memory with 64-bit addresses; \<open>None\<close> is an unmapped address.\<close>

type_synonym memory = "u64 \<Rightarrow> u8 option"

section \<open>Error numbers of the host (asm-generic/errno-base.h values)\<close>

abbreviation (input) EPERM :: int where "EPERM \<equiv> 1"
abbreviation (input) ENOENT :: int where "ENOENT \<equiv> 2"
abbreviation (input) EINTR :: int where "EINTR \<equiv> 4"
abbreviation (input) E2BIG :: int where "E2BIG \<equiv> 7"
abbreviation (input) EAGAIN :: int where "EAGAIN \<equiv> 11"
abbreviation (input) ENOMEM :: int where "ENOMEM \<equiv> 12"
abbreviation (input) EEXIST :: int where "EEXIST \<equiv> 17"
abbreviation (input) EINVAL :: int where "EINVAL \<equiv> 22"
abbreviation (input) ENOSPC :: int where "ENOSPC \<equiv> 28"
abbreviation (input) ERANGE :: int where "ERANGE \<equiv> 34"
abbreviation (input) ENOTSUP :: int where "ENOTSUP \<equiv> 95"
abbreviation (input) EOPNOTSUPP :: int where "EOPNOTSUPP \<equiv> 95"

section \<open>Collections of facts\<close>

named_theorems byte_simps "loads of multi-byte fields, byte swaps"
named_theorems split_simps "case splits shared by the component proofs"

lemmas [split_simps] = option.splits if_splits prod.splits

section \<open>Loads\<close>

text \<open>
  \<open>le\<close> is true on a little-endian host (\<open>__BYTE_ORDER__ == __ORDER_LITTLE_ENDIAN__\<close>).
\<close>

definition join16 :: "bool \<Rightarrow> u8 \<Rightarrow> u8 \<Rightarrow> u16" where
  "join16 le b0 b1 =
     (if le then ucast b0 OR push_bit 8 (ucast b1)
      else ucast b1 OR push_bit 8 (ucast b0))"

definition join32 :: "bool \<Rightarrow> u8 \<Rightarrow> u8 \<Rightarrow> u8 \<Rightarrow> u8 \<Rightarrow> u32" where
  "join32 le b0 b1 b2 b3 =
     (if le then ucast b0 OR push_bit 8 (ucast b1) OR push_bit 16 (ucast b2) OR push_bit 24 (ucast b3)
      else ucast b3 OR push_bit 8 (ucast b2) OR push_bit 16 (ucast b1) OR push_bit 24 (ucast b0))"

definition load16 :: "bool \<Rightarrow> memory \<Rightarrow> u64 \<Rightarrow> u16 option" where
  "load16 le mem a = do { b0 \<leftarrow> mem a; b1 \<leftarrow> mem (a + 1); Some (join16 le b0 b1) }"

definition load32 :: "bool \<Rightarrow> memory \<Rightarrow> u64 \<Rightarrow> u32 option" where
  "load32 le mem a =
     do { b0 \<leftarrow> mem a; b1 \<leftarrow> mem (a + 1); b2 \<leftarrow> mem (a + 2); b3 \<leftarrow> mem (a + 3);
          Some (join32 le b0 b1 b2 b3) }"

text \<open>The byte swaps of \<open>bpf_endian.h\<close>.\<close>

definition bpf_swab16 :: "u16 \<Rightarrow> u16" where
  "bpf_swab16 x = push_bit 8 x OR drop_bit 8 x"

definition bpf_swab32 :: "u32 \<Rightarrow> u32" where
  "bpf_swab32 x =
     push_bit 24 x OR
     push_bit 16 (drop_bit 24 (push_bit 16 x)) OR
     push_bit 8 (drop_bit 24 (push_bit 8 x)) OR
     drop_bit 24 x"

definition bpf_htons :: "bool \<Rightarrow> u16 \<Rightarrow> u16" where
  "bpf_htons le x = (if le then bpf_swab16 x else x)"

definition bpf_ntohl :: "bool \<Rightarrow> u32 \<Rightarrow> u32" where
  "bpf_ntohl le x = (if le then bpf_swab32 x else x)"

lemma bit_join16 [byte_simps]:
  "bit (join16 le b0 b1) n \<longleftrightarrow>
     (if le then (n < 8 \<and> bit b0 n) \<or> (8 \<le> n \<and> n < 16 \<and> bit b1 (n - 8))
      else (n < 8 \<and> bit b1 n) \<or> (8 \<le> n \<and> n < 16 \<and> bit b0 (n - 8)))"
  by (auto simp: join16_def bit_simps dest: bit_imp_le_length)

lemma join16_False_ETH_P_IP: "join16 False b0 b1 = 0x0800 \<longleftrightarrow> b0 = 8 \<and> b1 = 0"
proof
  assume *: "join16 False b0 b1 = 0x0800"
  have "b0 = ucast (drop_bit 8 (join16 False b0 b1))"
    by (rule bit_word_eqI) (auto simp: bit_simps bit_join16)
  then have "b0 = 8" by (simp add: *)
  have "b1 = ucast (join16 False b0 b1)"
    by (rule bit_word_eqI) (auto simp: bit_simps bit_join16)
  then have "b1 = ucast (0x0800 :: u16)" by (simp only: *)
  with \<open>b0 = 8\<close> show "b0 = 8 \<and> b1 = 0" by simp
qed (simp add: join16_def)

lemma bpf_swab16_join16 [byte_simps]: "bpf_swab16 (join16 True b0 b1) = join16 False b0 b1"
  by (rule bit_word_eqI) (auto simp: bpf_swab16_def bit_join16 bit_simps dest: bit_imp_le_length)

lemma bpf_swab16_involutive [simp]: "bpf_swab16 (bpf_swab16 x) = x"
  by (rule bit_word_eqI) (auto simp: bpf_swab16_def bit_simps)

lemma bpf_htons_join16 [byte_simps]: "bpf_htons le (join16 le b0 b1) = join16 False b0 b1"
  by (simp add: bpf_htons_def byte_simps)

lemma bpf_htons_involutive [simp]: "bpf_htons le (bpf_htons le x) = x"
  by (simp add: bpf_htons_def)

text \<open>A 16-bit field compared with a constant in network byte order, on either host.\<close>

lemma join16_eq_htons:
  "join16 le b0 b1 = bpf_htons le c \<longleftrightarrow> join16 False b0 b1 = c"
  by (metis bpf_htons_involutive bpf_htons_join16)

lemma bit_join32 [byte_simps]:
  "bit (join32 False b0 b1 b2 b3) n \<longleftrightarrow>
     (n < 8 \<and> bit b3 n) \<or> (8 \<le> n \<and> n < 16 \<and> bit b2 (n - 8)) \<or>
     (16 \<le> n \<and> n < 24 \<and> bit b1 (n - 16)) \<or> (24 \<le> n \<and> n < 32 \<and> bit b0 (n - 24))"
  by (auto simp: join32_def bit_simps dest: bit_imp_le_length)

lemma join32_True: "join32 True b0 b1 b2 b3 = join32 False b3 b2 b1 b0"
  by (simp add: join32_def)

lemma bit_bpf_swab32:
  "bit (bpf_swab32 x) n \<longleftrightarrow>
     (n < 8 \<and> bit x (n + 24)) \<or> (8 \<le> n \<and> n < 16 \<and> bit x (n + 8)) \<or>
     (16 \<le> n \<and> n < 24 \<and> bit x (n - 8)) \<or> (24 \<le> n \<and> n < 32 \<and> bit x (n - 24))"
proof -
  have "bit (push_bit 24 x) n \<longleftrightarrow> 24 \<le> n \<and> n < 32 \<and> bit x (n - 24)"
    by (auto simp: bit_simps)
  moreover have "bit (push_bit 16 (drop_bit 24 (push_bit 16 x))) n \<longleftrightarrow>
      16 \<le> n \<and> n < 24 \<and> bit x (n - 8)"
    by (auto simp: bit_simps)
  moreover have "bit (push_bit 8 (drop_bit 24 (push_bit 8 x))) n \<longleftrightarrow>
      8 \<le> n \<and> n < 16 \<and> bit x (n + 8)"
    by (auto simp: bit_simps add.commute)
  moreover have "bit (drop_bit 24 x) n \<longleftrightarrow> n < 8 \<and> bit x (n + 24)"
    by (auto simp: bit_simps add.commute dest: bit_imp_le_length)
  ultimately show ?thesis
    by (simp only: bpf_swab32_def bit_or_iff) blast
qed

lemma bpf_swab32_join32 [byte_simps]:
  "bpf_swab32 (join32 True b0 b1 b2 b3) = join32 False b0 b1 b2 b3"
proof (rule bit_word_eqI)
  fix n :: nat
  consider "n < 8" | "8 \<le> n" "n < 16" | "16 \<le> n" "n < 24" | "24 \<le> n" by linarith
  then show "bit (bpf_swab32 (join32 True b0 b1 b2 b3)) n = bit (join32 False b0 b1 b2 b3) n"
    by cases (auto simp: bit_bpf_swab32 join32_True bit_join32)
qed

lemma bpf_ntohl_join32 [byte_simps]:
  "bpf_ntohl le (join32 le b0 b1 b2 b3) = join32 False b0 b1 b2 b3"
  by (simp add: bpf_ntohl_def byte_simps)

lemma bpf_swab32_involutive [simp]: "bpf_swab32 (bpf_swab32 x) = x"
proof (rule bit_word_eqI)
  fix n :: nat
  assume "n < LENGTH(32)"
  then consider "n < 8" | "8 \<le> n" "n < 16" | "16 \<le> n" "n < 24" | "24 \<le> n" "n < 32"
    by fastforce
  then show "bit (bpf_swab32 (bpf_swab32 x)) n = bit x n"
    by cases (auto simp: bit_bpf_swab32)
qed

lemma bpf_ntohl_involutive [simp]: "bpf_ntohl le (bpf_ntohl le x) = x"
  by (simp add: bpf_ntohl_def)

section \<open>Words read as numbers\<close>

lemma unat_u32_less: "unat (w :: u32) < 4294967296"
  using unsigned_less [of w] by simp

lemma unat_u64_less: "unat (w :: u64) < 18446744073709551616"
  using unsigned_less [of w] by simp

lemma unat_ucast_u32_u64 [simp]: "unat (ucast (w :: u32) :: u64) = unat w"
proof -
  have "unat w < 2 ^ 64" by (rule less_trans [OF unat_u32_less]) simp
  then show ?thesis by (simp add: unsigned_ucast_eq take_bit_nat_eq_self)
qed

lemma unat_ucast_u16_u32 [simp]: "unat (ucast (w :: u16) :: u32) = unat w"
proof -
  have "unat w < 2 ^ 16" using unsigned_less [of w, where 'a = nat] by simp
  then have "unat w < 2 ^ 32" by simp
  then show ?thesis by (simp add: unsigned_ucast_eq take_bit_nat_eq_self)
qed

lemma unat_of_nat_u32: "n < 4294967296 \<Longrightarrow> unat (of_nat n :: u32) = n"
  by (simp add: unat_of_nat)

lemma unat_of_nat_u16: "n < 65536 \<Longrightarrow> unat (of_nat n :: u16) = n"
  by (simp add: unat_of_nat)

lemma unat_sub_word: "(y :: 'a::len word) \<le> x \<Longrightarrow> unat (x - y) = unat x - unat y"
  by (rule unat_sub)

section \<open>Spaced lists\<close>

text \<open>A list of numbers in which each is at least \<open>d\<close> above all earlier ones.\<close>

abbreviation spaced :: "nat \<Rightarrow> nat list \<Rightarrow> bool" where
  "spaced d \<equiv> sorted_wrt (\<lambda>x y. x + d \<le> y)"

lemma spaced_last: "spaced d (x # xs) \<Longrightarrow> \<exists>y \<in> set (x # xs). x + length xs * d \<le> y"
proof (induction xs arbitrary: x)
  case Nil
  then show ?case by simp
next
  case (Cons z xs)
  then have "spaced d (z # xs)" by simp
  then obtain y where "y \<in> set (z # xs)" "z + length xs * d \<le> y"
    using Cons.IH by blast
  moreover have "x + d \<le> z" using Cons.prems by simp
  ultimately show ?case by (intro bexI [of _ y]) auto
qed

lemma spaced_count:
  assumes "spaced d xs" "0 < d" "\<forall>x\<in>set xs. a \<le> x \<and> x \<le> a + w"
  shows "length xs \<le> w div d + 1"
proof (cases xs)
  case (Cons x ys)
  with spaced_last [of d x ys] assms obtain y where "y \<le> a + w" "x + length ys * d \<le> y" by auto
  moreover have "a \<le> x" using assms(3) Cons by simp
  ultimately have "length ys * d \<le> w" by linarith
  then have "length ys \<le> w div d" using assms(2) by (simp add: less_eq_div_iff_mult_less_eq)
  with Cons show ?thesis by simp
qed simp

section \<open>Lists\<close>

lemma find_append:
  "List.find P (xs @ ys) = (case List.find P xs of None \<Rightarrow> List.find P ys | Some x \<Rightarrow> Some x)"
  by (induction xs) auto

lemma find_none: "(\<And>x. x \<in> set xs \<Longrightarrow> \<not> P x) \<Longrightarrow> List.find P xs = None"
  by (auto simp: find_None_iff)

lemma find_in_set: "List.find P xs = Some x \<Longrightarrow> x \<in> set xs \<and> P x"
  by (induction xs) (auto split: if_splits)

lemma concat_list_update:
  "h < length bs \<Longrightarrow> concat (bs[h := c]) = concat (take h bs) @ c @ concat (drop (Suc h) bs)"
  by (simp add: upd_conv_take_nth_drop)

lemma concat_split_nth:
  "h < length bs \<Longrightarrow> concat bs = concat (take h bs) @ bs ! h @ concat (drop (Suc h) bs)"
  using concat_list_update [of h bs "bs ! h"] by simp

section \<open>Byte buffers\<close>

text \<open>Reads from and writes to an array of bytes at an offset; a read outside the array is \<open>None\<close>.\<close>

definition memcpy :: "u8 list \<Rightarrow> nat \<Rightarrow> u8 list \<Rightarrow> u8 list" where
  "memcpy d p bytes = take p d @ bytes @ drop (p + length bytes) d"

definition get8 :: "u8 list \<Rightarrow> nat \<Rightarrow> u8 option" where
  "get8 b off = (if off < length b then Some (b ! off) else None)"

definition get16 :: "bool \<Rightarrow> u8 list \<Rightarrow> nat \<Rightarrow> u16 option" where
  "get16 le b off = (if off + 2 \<le> length b then Some (join16 le (b ! off) (b ! (off + 1))) else None)"

definition get32 :: "bool \<Rightarrow> u8 list \<Rightarrow> nat \<Rightarrow> u32 option" where
  "get32 le b off = (if off + 4 \<le> length b
     then Some (join32 le (b ! off) (b ! (off + 1)) (b ! (off + 2)) (b ! (off + 3))) else None)"

definition get64 :: "bool \<Rightarrow> u8 list \<Rightarrow> nat \<Rightarrow> u64 option" where
  "get64 le b off = do { x \<leftarrow> get32 le b off; y \<leftarrow> get32 le b (off + 4);
     Some (if le then ucast x OR push_bit 32 (ucast y) else ucast y OR push_bit 32 (ucast x)) }"

text \<open>Array accesses that fault outside the array.\<close>

definition aget :: "'a list \<Rightarrow> nat \<Rightarrow> 'a option" where
  "aget xs i = (if i < length xs then Some (xs ! i) else None)"

definition aput :: "'a list \<Rightarrow> nat \<Rightarrow> 'a \<Rightarrow> 'a list option" where
  "aput xs i v = (if i < length xs then Some (xs[i := v]) else None)"

definition bytes16 :: "bool \<Rightarrow> u16 \<Rightarrow> u8 list" where
  "bytes16 le v = (if le then [ucast v, ucast (drop_bit 8 v)] else [ucast (drop_bit 8 v), ucast v])"

definition bytes32 :: "bool \<Rightarrow> u32 \<Rightarrow> u8 list" where
  "bytes32 le v =
     (if le then [ucast v, ucast (drop_bit 8 v), ucast (drop_bit 16 v), ucast (drop_bit 24 v)]
      else [ucast (drop_bit 24 v), ucast (drop_bit 16 v), ucast (drop_bit 8 v), ucast v])"

definition put16 :: "bool \<Rightarrow> u8 list \<Rightarrow> nat \<Rightarrow> u16 \<Rightarrow> u8 list option" where
  "put16 le b off v = (if off + 2 \<le> length b then Some (memcpy b off (bytes16 le v)) else None)"

definition put32 :: "bool \<Rightarrow> u8 list \<Rightarrow> nat \<Rightarrow> u32 \<Rightarrow> u8 list option" where
  "put32 le b off v = (if off + 4 \<le> length b then Some (memcpy b off (bytes32 le v)) else None)"

definition put_bytes :: "u8 list \<Rightarrow> nat \<Rightarrow> u8 list \<Rightarrow> u8 list option" where
  "put_bytes b off bs = (if off + length bs \<le> length b then Some (memcpy b off bs) else None)"

lemma memcpy_take: "n \<le> length d \<Longrightarrow> take n (memcpy d n b) = take n d"
  by (simp add: memcpy_def)

lemma memcpy_length: "n + length b \<le> length d \<Longrightarrow> length (memcpy d n b) = length d"
  by (simp add: memcpy_def)

lemma memcpy_append: "memcpy (X @ Y) (length X) bs = X @ bs @ drop (length bs) Y"
  by (simp add: memcpy_def)

lemma length_bytes [simp]: "length (bytes16 le v) = 2" "length (bytes32 le w) = 4"
  by (simp_all add: bytes16_def bytes32_def)

lemma join16_bytes:
  "join16 True (ucast v) (ucast (drop_bit 8 v)) = v" "join16 False (ucast (drop_bit 8 v)) (ucast v) = v"
  by (rule bit_word_eqI; auto simp: join16_def bit_simps; fastforce)+

lemma join32_bytes:
  "join32 False (ucast (drop_bit 24 v)) (ucast (drop_bit 16 v)) (ucast (drop_bit 8 v)) (ucast v) = v"
proof (rule bit_word_eqI)
  fix n assume "n < LENGTH(32)"
  then consider "n < 8" | "8 \<le> n" "n < 16" | "16 \<le> n" "n < 24" | "24 \<le> n" "n < 32" by fastforce
  then show "bit (join32 False (ucast (drop_bit 24 v)) (ucast (drop_bit 16 v)) (ucast (drop_bit 8 v)) (ucast v)) n = bit v n"
    by cases (auto simp: bit_join32 bit_simps)
qed

lemma get16_append [byte_simps]: "get16 le (X @ bytes16 le v @ Y) (length X) = Some v"
  by (cases le) (simp_all add: get16_def bytes16_def nth_append join16_bytes)

lemma get32_append [byte_simps]: "get32 le (X @ bytes32 le v @ Y) (length X) = Some v"
  by (cases le) (simp_all add: get32_def bytes32_def nth_append join32_True join32_bytes)

lemma get8_append: "get8 (X @ c # Y) (length X) = Some c"
  by (simp add: get8_def nth_append)

lemma put16_append: "length Z = 2 \<Longrightarrow> put16 le (X @ Z @ Y) (length X) v = Some (X @ bytes16 le v @ Y)"
  by (simp add: put16_def memcpy_append)

lemma put32_append: "length Z = 4 \<Longrightarrow> put32 le (X @ Z @ Y) (length X) v = Some (X @ bytes32 le v @ Y)"
  by (simp add: put32_def memcpy_append)

lemma get16_None: "get16 le b off = None \<longleftrightarrow> length b < off + 2"
  by (auto simp: get16_def)

section \<open>Decimal numbers\<close>

text \<open>The decimal digits \<open>printf\<close> writes for an unsigned number, most significant first.\<close>

fun digits10 :: "nat \<Rightarrow> nat list" where
  "digits10 n = (if n < 10 then [n] else digits10 (n div 10) @ [n mod 10])"

declare digits10.simps [simp del]

definition value10 :: "nat list \<Rightarrow> nat" where
  "value10 ds = foldl (\<lambda>a d. 10 * a + d) 0 ds"

lemma value10_digits10 [simp]: "value10 (digits10 n) = n"
  by (induction n rule: digits10.induct) (subst digits10.simps, auto simp: value10_def)

lemma digits10_less: "d \<in> set (digits10 n) \<Longrightarrow> d < 10"
proof (induction n rule: digits10.induct)
  case (1 n)
  show ?case using "1.prems" "1.IH" by (subst (asm) digits10.simps) (auto split: if_splits)
qed

lemma digits10_nonempty: "digits10 n \<noteq> []"
  by (subst digits10.simps) simp

text \<open>Decimal text of unsigned and signed numbers.\<close>

definition dec :: "nat \<Rightarrow> string" where
  "dec n = map (\<lambda>d. char_of (48 + d)) (digits10 n)"

definition dec_int :: "int \<Rightarrow> string" where
  "dec_int i = (if i < 0 then CHR ''-'' # dec (nat (- i)) else dec (nat i))"

lemma unat_mult_small: "unat (x :: u32) * unat y < 2 ^ 32 \<Longrightarrow> unat (x * y) = unat x * unat y"
  by (simp add: unat_word_ariths)

end
