(* ===== verification/Xdp_Filter.thy ===== *)
theory Xdp_Filter
  imports Prelude
begin

text \<open>
  The packet filter itself, \<open>src/packetfilter.bpf.c\<close>: the structures it shares with user
  space, its maps, and the XDP program \<open>xdp_filter\<close> with its helpers.
  The kernel's map implementations and the ring buffer are not part of the repository; they
  are the record \<open>bpf_kernel\<close> of functions every definition takes as an argument, and
  the locale \<open>bpf_kernel_spec\<close> states what the program relies on.
  The contents of a hash or array map are its lookup function; the contents of an LPM trie
  are an opaque value of type \<open>'l\<close>.
\<close>

section \<open>Structures\<close>

definition ETH_P_IP :: u16 where "ETH_P_IP = 0x0800"

definition CONFIG_KEY_BLACKLIST :: u32 where "CONFIG_KEY_BLACKLIST = 0"
definition CONFIG_KEY_RATELIMIT :: u32 where "CONFIG_KEY_RATELIMIT = 1"
definition CONFIG_KEY_WHITELIST :: u32 where "CONFIG_KEY_WHITELIST = 2"

lemmas config_key_defs =
  CONFIG_KEY_BLACKLIST_def CONFIG_KEY_RATELIMIT_def CONFIG_KEY_WHITELIST_def

record bpf_trie_key =
  prefixlen :: u32
  key_ip :: u32

record packet_stats =
  dropped :: u64
  passed :: u64

record ip_rate_limit =
  packets_per_second :: u32
  packet_interval_ns :: u64

record packet_timestamp =
  last_timestamp :: u64

record packet_logs =
  log_ip :: u32
  log_bytes :: u32
  log_is_passed :: u32

text \<open>The three messages the program prints to the trace pipe.\<close>

datatype printk = Not_whitelisted u32 | Blacklisted u32 | Rate_exceeded u32

text \<open>
  The maps of the object. \<open>packet_ringbuf\<close> holds the submitted records, oldest first;
  \<open>ringbuf_reserved\<close> counts the reserved slots that were not submitted yet.
\<close>

record 'l bpf_maps =
  blacklist_subnets_map :: 'l
  whitelist_subnets_map :: 'l
  config_state_map :: "u32 \<rightharpoonup> u8"
  ip_stats_map :: "u32 \<rightharpoonup> packet_stats"
  global_stats_map :: "u32 \<rightharpoonup> u64"
  ip_rate_limits_map :: "u32 \<rightharpoonup> ip_rate_limit"
  ip_timestamps_map :: "u32 \<rightharpoonup> packet_timestamp"
  packet_ringbuf :: "packet_logs list"
  ringbuf_reserved :: nat
  trace_pipe :: "printk list"

text \<open>The kernel services: map updates, trie lookups and ring-buffer reservations.\<close>

record 'l bpf_kernel =
  lpm_lookup :: "'l \<Rightarrow> bpf_trie_key \<Rightarrow> u8 option"
  lpm_update :: "'l \<Rightarrow> bpf_trie_key \<Rightarrow> u8 \<Rightarrow> u64 \<Rightarrow> int \<times> 'l"
  lpm_delete :: "'l \<Rightarrow> bpf_trie_key \<Rightarrow> int \<times> 'l"
  stats_update :: "(u32 \<rightharpoonup> packet_stats) \<Rightarrow> u32 \<Rightarrow> packet_stats \<Rightarrow> u64 \<Rightarrow>
    int \<times> (u32 \<rightharpoonup> packet_stats)"
  timestamps_update :: "(u32 \<rightharpoonup> packet_timestamp) \<Rightarrow> u32 \<Rightarrow> packet_timestamp \<Rightarrow> u64 \<Rightarrow>
    int \<times> (u32 \<rightharpoonup> packet_timestamp)"
  limits_update :: "(u32 \<rightharpoonup> ip_rate_limit) \<Rightarrow> u32 \<Rightarrow> ip_rate_limit \<Rightarrow> u64 \<Rightarrow>
    int \<times> (u32 \<rightharpoonup> ip_rate_limit)"
  limits_delete :: "(u32 \<rightharpoonup> ip_rate_limit) \<Rightarrow> u32 \<Rightarrow> int \<times> (u32 \<rightharpoonup> ip_rate_limit)"
  config_update :: "(u32 \<rightharpoonup> u8) \<Rightarrow> u32 \<Rightarrow> u8 \<Rightarrow> u64 \<Rightarrow> int \<times> (u32 \<rightharpoonup> u8)"
  ringbuf_reserve :: "packet_logs list \<Rightarrow> u64 \<Rightarrow> packet_logs option"

definition BPF_ANY :: u64 where "BPF_ANY = 0"

datatype xdp_action = XDP_DROP | XDP_PASS

record xdp_md =
  xdp_data :: u32
  xdp_data_end :: u32

section \<open>The program\<close>

definition is_config_enabled :: "'l bpf_maps \<Rightarrow> u32 \<Rightarrow> bool" where
  "is_config_enabled s config_key =
     (case config_state_map s config_key of None \<Rightarrow> False | Some st \<Rightarrow> st = 1)"

text \<open>
  \<open>__sync_fetch_and_add\<close> through the pointer a map lookup returned: the pointer is the
  key of the entry, \<open>None\<close> the null pointer.
\<close>

definition stats_add :: "(packet_stats \<Rightarrow> packet_stats) \<Rightarrow> u32 option \<Rightarrow> 'l bpf_maps \<Rightarrow> 'l bpf_maps" where
  "stats_add f ip_stats s =
     (case ip_stats of None \<Rightarrow> s
      | Some k \<Rightarrow>
          (case ip_stats_map s k of None \<Rightarrow> s
           | Some st \<Rightarrow> s\<lparr>ip_stats_map := (ip_stats_map s)(k \<mapsto> f st)\<rparr>))"

definition global_add :: "u32 \<Rightarrow> 'l bpf_maps \<Rightarrow> 'l bpf_maps" where
  "global_add k s =
     (case global_stats_map s k of None \<Rightarrow> s
      | Some c \<Rightarrow> s\<lparr>global_stats_map := (global_stats_map s)(k \<mapsto> c + 1)\<rparr>)"

definition bpf_ringbuf_submit :: "packet_logs \<Rightarrow> 'l bpf_maps \<Rightarrow> 'l bpf_maps" where
  "bpf_ringbuf_submit l s =
     s\<lparr>packet_ringbuf := packet_ringbuf s @ [l], ringbuf_reserved := ringbuf_reserved s - 1\<rparr>"

definition log_drop :: "packet_logs \<Rightarrow> u32 option \<Rightarrow> 'l bpf_maps \<Rightarrow> 'l bpf_maps" where
  "log_drop l ip_stats s =
     (let s1 = stats_add (\<lambda>st. st\<lparr>dropped := dropped st + 1\<rparr>) ip_stats s;
          s2 = global_add 0 s1
      in bpf_ringbuf_submit (l\<lparr>log_is_passed := 0\<rparr>) s2)"

definition log_pass :: "packet_logs \<Rightarrow> u32 option \<Rightarrow> 'l bpf_maps \<Rightarrow> 'l bpf_maps" where
  "log_pass l ip_stats s =
     (let s1 = stats_add (\<lambda>st. st\<lparr>passed := passed st + 1\<rparr>) ip_stats s;
          s2 = global_add 1 s1
      in bpf_ringbuf_submit (l\<lparr>log_is_passed := 1\<rparr>) s2)"

definition bpf_printk :: "printk \<Rightarrow> 'l bpf_maps \<Rightarrow> 'l bpf_maps" where
  "bpf_printk m s = s\<lparr>trace_pipe := trace_pipe s @ [m]\<rparr>"

text \<open>Get or initialise the statistics entry of the source address.\<close>

definition get_ip_stats :: "'l bpf_kernel \<Rightarrow> u32 \<Rightarrow> 'l bpf_maps \<Rightarrow> u32 option \<times> 'l bpf_maps" where
  "get_ip_stats K src_ip s =
     (case ip_stats_map s src_ip of
        Some _ \<Rightarrow> (Some src_ip, s)
      | None \<Rightarrow>
          (let m = snd (stats_update K (ip_stats_map s) src_ip \<lparr>dropped = 0, passed = 0\<rparr> BPF_ANY);
               s' = s\<lparr>ip_stats_map := m\<rparr>
           in (case m src_ip of None \<Rightarrow> None | Some _ \<Rightarrow> Some src_ip, s')))"

text \<open>
  The rate-limit step: \<open>None\<close> means the packet exceeds the limit and is dropped,
  \<open>Some s'\<close> that it may pass, with the time of this packet recorded.
\<close>

definition rate_limit_check :: "'l bpf_kernel \<Rightarrow> u64 \<Rightarrow> u32 \<Rightarrow> 'l bpf_maps \<Rightarrow> 'l bpf_maps option" where
  "rate_limit_check K current_time src_ip s =
     (if is_config_enabled s CONFIG_KEY_RATELIMIT then
        (case ip_rate_limits_map s src_ip of
           None \<Rightarrow> Some s
         | Some rate_limit \<Rightarrow>
             (case ip_timestamps_map s src_ip of
                None \<Rightarrow>
                  Some (s\<lparr>ip_timestamps_map :=
                    snd (timestamps_update K (ip_timestamps_map s) src_ip
                      \<lparr>last_timestamp = current_time\<rparr> BPF_ANY)\<rparr>)
              | Some timestamp \<Rightarrow>
                  (if current_time - last_timestamp timestamp < packet_interval_ns rate_limit then None
                   else Some (s\<lparr>ip_timestamps_map := (ip_timestamps_map s)
                          (src_ip \<mapsto> timestamp\<lparr>last_timestamp := current_time\<rparr>)\<rparr>))))
      else Some s)"

text \<open>Everything after the ring-buffer slot was reserved and its common fields filled in.\<close>

definition xdp_filter_checks ::
  "'l bpf_kernel \<Rightarrow> u64 \<Rightarrow> u32 \<Rightarrow> packet_logs \<Rightarrow> 'l bpf_maps \<Rightarrow> xdp_action \<times> 'l bpf_maps" where
  "xdp_filter_checks K current_time src_ip l s0 =
     (let key = \<lparr>prefixlen = 32, key_ip = src_ip\<rparr>;
          (ip_stats, s) = get_ip_stats K src_ip s0
      in if is_config_enabled s CONFIG_KEY_WHITELIST \<and>
            lpm_lookup K (whitelist_subnets_map s) key = None
         then (XDP_DROP, log_drop l ip_stats (bpf_printk (Not_whitelisted src_ip) s))
         else if is_config_enabled s CONFIG_KEY_BLACKLIST \<and>
            lpm_lookup K (blacklist_subnets_map s) key \<noteq> None
         then (XDP_DROP, log_drop l ip_stats (bpf_printk (Blacklisted src_ip) s))
         else (case rate_limit_check K current_time src_ip s of
                 None \<Rightarrow> (XDP_DROP, log_drop l ip_stats (bpf_printk (Rate_exceeded src_ip) s))
               | Some s' \<Rightarrow> (XDP_PASS, log_pass l ip_stats s')))"

definition xdp_filter ::
  "bool \<Rightarrow> 'l bpf_kernel \<Rightarrow> u64 \<Rightarrow> xdp_md \<Rightarrow> memory \<Rightarrow> 'l bpf_maps \<Rightarrow>
   (xdp_action \<times> 'l bpf_maps) option" where
  "xdp_filter le K current_time ctx mem s =
     (let data_end = (ucast (xdp_data_end ctx) :: u64);
          data = (ucast (xdp_data ctx) :: u64);
          eth = data
      in if eth + 14 > data_end then Some (XDP_PASS, s)
         else do {
           h_proto \<leftarrow> load16 le mem (eth + 12);
           if h_proto \<noteq> bpf_htons le ETH_P_IP then Some (XDP_PASS, s)
           else
             let ip = data + 14
             in if ip + 20 > data_end then Some (XDP_PASS, s)
                else do {
                  src_ip \<leftarrow> load32 le mem (ip + 12);
                  case ringbuf_reserve K (packet_ringbuf s) 12 of
                    None \<Rightarrow> Some (XDP_PASS, s)
                  | Some l \<Rightarrow>
                      Some (xdp_filter_checks K current_time src_ip
                        (l\<lparr>log_ip := src_ip, log_bytes := xdp_data_end ctx - xdp_data ctx\<rparr>)
                        (s\<lparr>ringbuf_reserved := ringbuf_reserved s + 1\<rparr>))
                }
         })"

text \<open>A sequence of packets, each with its arrival time, handled one after the other.\<close>

type_synonym arrival = "u64 \<times> xdp_md \<times> memory"

fun xdp_run :: "bool \<Rightarrow> 'l bpf_kernel \<Rightarrow> arrival list \<Rightarrow> 'l bpf_maps \<Rightarrow>
    (xdp_action list \<times> 'l bpf_maps) option" where
  "xdp_run le K [] s = Some ([], s)"
| "xdp_run le K ((now, ctx, mem) # ps) s = do {
     (a, s') \<leftarrow> xdp_filter le K now ctx mem s;
     (as, s'') \<leftarrow> xdp_run le K ps s';
     Some (a # as, s'')
   }"


section \<open>What the program is meant to do\<close>

text \<open>
  A prefix is its length and the network part of its address (the leading bits, as a number).
  Addresses are compared in host order, so \<open>bpf_ntohl\<close> is applied to the raw word the
  packet and the trie keys carry.
\<close>

type_synonym prefix = "nat \<times> u32"

definition prefix_of :: "bool \<Rightarrow> bpf_trie_key \<Rightarrow> prefix" where
  "prefix_of le k =
     (unat (prefixlen k), drop_bit (32 - unat (prefixlen k)) (bpf_ntohl le (key_ip k)))"

definition in_prefix :: "prefix \<Rightarrow> u32 \<Rightarrow> bool" where
  "in_prefix p a \<longleftrightarrow> drop_bit (32 - fst p) a = snd p"

definition prefix_matches :: "bool \<Rightarrow> prefix \<Rightarrow> bpf_trie_key \<Rightarrow> bool" where
  "prefix_matches le p k \<longleftrightarrow> fst p \<le> unat (prefixlen k) \<and> in_prefix p (bpf_ntohl le (key_ip k))"

text \<open>
  The policy the maps describe: the address sets and intervals in force, \<open>None\<close> for a
  check that is switched off.
\<close>

record policy =
  pol_whitelist :: "prefix set option"
  pol_blacklist :: "prefix set option"
  pol_interval :: "u32 \<rightharpoonup> u64"

definition policy_of :: "('l \<Rightarrow> prefix \<rightharpoonup> u8) \<Rightarrow> 'l bpf_maps \<Rightarrow> policy" where
  "policy_of entries s =
     \<lparr>pol_whitelist =
        (if is_config_enabled s CONFIG_KEY_WHITELIST
         then Some (dom (entries (whitelist_subnets_map s))) else None),
      pol_blacklist =
        (if is_config_enabled s CONFIG_KEY_BLACKLIST
         then Some (dom (entries (blacklist_subnets_map s))) else None),
      pol_interval =
        (if is_config_enabled s CONFIG_KEY_RATELIMIT
         then (\<lambda>i. map_option packet_interval_ns (ip_rate_limits_map s i)) else Map.empty)\<rparr>"

definition policy_allows :: "policy \<Rightarrow> u32 \<Rightarrow> u32 \<Rightarrow> u64 \<Rightarrow> u64 option \<Rightarrow> bool" where
  "policy_allows P a src now last_pass \<longleftrightarrow>
     (case pol_whitelist P of None \<Rightarrow> True | Some W \<Rightarrow> \<exists>p\<in>W. in_prefix p a) \<and>
     (case pol_blacklist P of None \<Rightarrow> True | Some B \<Rightarrow> \<not> (\<exists>p\<in>B. in_prefix p a)) \<and>
     (case pol_interval P src of None \<Rightarrow> True
      | Some i \<Rightarrow> (case last_pass of None \<Rightarrow> True | Some t \<Rightarrow> i \<le> now - t))"

text \<open>The source address of a packet that is long enough and carries the IPv4 ethertype.\<close>

definition pkt_byte :: "xdp_md \<Rightarrow> memory \<Rightarrow> nat \<Rightarrow> u8 option" where
  "pkt_byte ctx mem i = mem (ucast (xdp_data ctx) + of_nat i)"

definition packet_source :: "bool \<Rightarrow> xdp_md \<Rightarrow> memory \<Rightarrow> u32 option" where
  "packet_source le ctx mem =
     (if unat (xdp_data ctx) + 34 \<le> unat (xdp_data_end ctx) \<and>
         pkt_byte ctx mem 12 = Some 8 \<and> pkt_byte ctx mem 13 = Some 0
      then do { b0 \<leftarrow> pkt_byte ctx mem 26; b1 \<leftarrow> pkt_byte ctx mem 27;
                b2 \<leftarrow> pkt_byte ctx mem 28; b3 \<leftarrow> pkt_byte ctx mem 29;
                Some (join32 le b0 b1 b2 b3) }
      else None)"

text \<open>The driver hands over a packet whose bytes from \<open>data\<close> to \<open>data_end\<close> are mapped.\<close>

definition packet_mapped :: "xdp_md \<Rightarrow> memory \<Rightarrow> bool" where
  "packet_mapped ctx mem \<longleftrightarrow>
     (\<forall>i < unat (xdp_data_end ctx) - unat (xdp_data ctx). pkt_byte ctx mem i \<noteq> None)"

definition last_pass :: "'l bpf_maps \<Rightarrow> u32 \<Rightarrow> u64 option" where
  "last_pass s src = map_option last_timestamp (ip_timestamps_map s src)"

section \<open>What the program relies on: the kernel's map operations\<close>

text \<open>
  \<open>entries\<close> is the abstract contents of a trie. The laws are the documented behaviour of
  LPM tries, hash maps and array maps: a lookup in a trie returns the value of the longest
  stored prefix that matches, an update that returns 0 stores the element, an operation that
  returns an error changes nothing, deleting a missing element is \<open>-ENOENT\<close>.
\<close>

locale bpf_kernel_spec =
  fixes le :: bool
    and K :: "'l bpf_kernel"
    and entries :: "'l \<Rightarrow> prefix \<rightharpoonup> u8"
  assumes lpm_lookup_Some: "lpm_lookup K t k = Some v \<Longrightarrow> unat (prefixlen k) \<le> 32 \<Longrightarrow>
      \<exists>p. entries t p = Some v \<and> prefix_matches le p k \<and>
          (\<forall>q\<in>dom (entries t). prefix_matches le q k \<longrightarrow> fst q \<le> fst p)"
    and lpm_lookup_None: "lpm_lookup K t k = None \<Longrightarrow> unat (prefixlen k) \<le> 32 \<Longrightarrow>
      p \<in> dom (entries t) \<Longrightarrow> \<not> prefix_matches le p k"
    and lpm_entries_len: "p \<in> dom (entries t) \<Longrightarrow> fst p \<le> 32"
    and lpm_update_ok: "lpm_update K t k v fl = (0, t') \<Longrightarrow> unat (prefixlen k) \<le> 32 \<Longrightarrow>
      entries t' = (entries t)(prefix_of le k \<mapsto> v)"
    and lpm_update_err: "lpm_update K t k v fl = (e, t') \<Longrightarrow> e \<noteq> 0 \<Longrightarrow> t' = t"
    and lpm_delete_ok: "lpm_delete K t k = (0, t') \<Longrightarrow> unat (prefixlen k) \<le> 32 \<Longrightarrow>
      entries t' = (entries t)(prefix_of le k := None)"
    and lpm_delete_err: "lpm_delete K t k = (e, t') \<Longrightarrow> e \<noteq> 0 \<Longrightarrow> t' = t"
    and lpm_delete_missing: "unat (prefixlen k) \<le> 32 \<Longrightarrow>
      fst (lpm_delete K t k) = - ENOENT \<longleftrightarrow> prefix_of le k \<notin> dom (entries t)"
    and stats_update_ok: "stats_update K m i st fl = (0, m') \<Longrightarrow> m' = m(i \<mapsto> st)"
    and stats_update_err: "stats_update K m i st fl = (e, m') \<Longrightarrow> e \<noteq> 0 \<Longrightarrow> m' = m"
    and timestamps_update_ok: "timestamps_update K mt i ts fl = (0, mt') \<Longrightarrow> mt' = mt(i \<mapsto> ts)"
    and timestamps_update_err: "timestamps_update K mt i ts fl = (e, mt') \<Longrightarrow> e \<noteq> 0 \<Longrightarrow> mt' = mt"
    and limits_update_ok: "limits_update K ml i r fl = (0, ml') \<Longrightarrow> ml' = ml(i \<mapsto> r)"
    and limits_update_err: "limits_update K ml i r fl = (e, ml') \<Longrightarrow> e \<noteq> 0 \<Longrightarrow> ml' = ml"
    and limits_delete_ok: "limits_delete K ml i = (0, ml') \<Longrightarrow> ml' = ml(i := None)"
    and limits_delete_err: "limits_delete K ml i = (e, ml') \<Longrightarrow> e \<noteq> 0 \<Longrightarrow> ml' = ml"
    and limits_delete_missing: "fst (limits_delete K ml i) = - ENOENT \<longleftrightarrow> ml i = None"
    and config_update_ok: "config_update K mc c b fl = (0, mc') \<Longrightarrow> mc' = mc(c \<mapsto> b)"
    and config_update_err: "config_update K mc c b fl = (e, mc') \<Longrightarrow> e \<noteq> 0 \<Longrightarrow> mc' = mc"
begin

lemma lpm_lookup_32:
  "(lpm_lookup K t \<lparr>prefixlen = 32, key_ip = src\<rparr> \<noteq> None) =
     (\<exists>p\<in>dom (entries t). in_prefix p (bpf_ntohl le src))"
proof
  assume "lpm_lookup K t \<lparr>prefixlen = 32, key_ip = src\<rparr> \<noteq> None"
  then obtain v where "lpm_lookup K t \<lparr>prefixlen = 32, key_ip = src\<rparr> = Some v" by blast
  from lpm_lookup_Some [OF this] show "\<exists>p\<in>dom (entries t). in_prefix p (bpf_ntohl le src)"
    by (auto simp: prefix_matches_def)
next
  assume "\<exists>p\<in>dom (entries t). in_prefix p (bpf_ntohl le src)"
  then obtain p where p: "p \<in> dom (entries t)" "in_prefix p (bpf_ntohl le src)" by blast
  then have "prefix_matches le p \<lparr>prefixlen = 32, key_ip = src\<rparr>"
    using lpm_entries_len [OF p(1)] by (simp add: prefix_matches_def)
  with p(1) lpm_lookup_None [of t "\<lparr>prefixlen = 32, key_ip = src\<rparr>" p]
  show "lpm_lookup K t \<lparr>prefixlen = 32, key_ip = src\<rparr> \<noteq> None" by auto
qed

end

section \<open>A kernel that satisfies the laws\<close>

text \<open>
  Tries as association lists from prefixes, hash maps with room for every key, arrays that
  reject a key out of range, a ring with room for \<open>room\<close> records. It instantiates the kernel
  parameter where an example needs one.
\<close>

fun longest :: "(prefix \<times> u8) list \<Rightarrow> (prefix \<times> u8) option" where
  "longest [] = None"
| "longest (e # es) =
     (case longest es of None \<Rightarrow> Some e
      | Some e' \<Rightarrow> if fst (fst e') \<le> fst (fst e) then Some e else Some e')"

definition list_lpm_lookup :: "bool \<Rightarrow> (prefix \<times> u8) list \<Rightarrow> bpf_trie_key \<Rightarrow> u8 option" where
  "list_lpm_lookup le t k = map_option snd (longest (filter (\<lambda>e. prefix_matches le (fst e) k) t))"

definition list_lpm_update ::
  "bool \<Rightarrow> (prefix \<times> u8) list \<Rightarrow> bpf_trie_key \<Rightarrow> u8 \<Rightarrow> u64 \<Rightarrow> int \<times> (prefix \<times> u8) list" where
  "list_lpm_update le t k v fl =
     (if unat (prefixlen k) \<le> 32
      then (0, (prefix_of le k, v) # filter (\<lambda>e. fst e \<noteq> prefix_of le k) t)
      else (- EINVAL, t))"

definition list_lpm_delete ::
  "bool \<Rightarrow> (prefix \<times> u8) list \<Rightarrow> bpf_trie_key \<Rightarrow> int \<times> (prefix \<times> u8) list" where
  "list_lpm_delete le t k =
     (if prefix_of le k \<in> fst ` set t \<and> unat (prefixlen k) \<le> 32
      then (0, filter (\<lambda>e. fst e \<noteq> prefix_of le k) t)
      else (- ENOENT, t))"

definition map_update_any :: "('k \<rightharpoonup> 'v) \<Rightarrow> 'k \<Rightarrow> 'v \<Rightarrow> u64 \<Rightarrow> int \<times> ('k \<rightharpoonup> 'v)" where
  "map_update_any m k v fl = (0, m(k \<mapsto> v))"

definition map_delete_any :: "('k \<rightharpoonup> 'v) \<Rightarrow> 'k \<Rightarrow> int \<times> ('k \<rightharpoonup> 'v)" where
  "map_delete_any m k = (if m k = None then (- ENOENT, m) else (0, m(k := None)))"

definition array_update :: "(u32 \<rightharpoonup> u8) \<Rightarrow> u32 \<Rightarrow> u8 \<Rightarrow> u64 \<Rightarrow> int \<times> (u32 \<rightharpoonup> u8)" where
  "array_update m k v fl = (if m k = None then (- E2BIG, m) else (0, m(k \<mapsto> v)))"

definition list_kernel :: "bool \<Rightarrow> nat \<Rightarrow> (prefix \<times> u8) list bpf_kernel" where
  "list_kernel le room =
     \<lparr>lpm_lookup = list_lpm_lookup le, lpm_update = list_lpm_update le,
      lpm_delete = list_lpm_delete le, stats_update = map_update_any,
      timestamps_update = map_update_any, limits_update = map_update_any,
      limits_delete = map_delete_any, config_update = array_update,
      ringbuf_reserve = (\<lambda>r sz. if length r < room
        then Some \<lparr>log_ip = 0, log_bytes = 0, log_is_passed = 0\<rparr> else None)\<rparr>"

definition list_entries :: "(prefix \<times> u8) list \<Rightarrow> prefix \<rightharpoonup> u8" where
  "list_entries t = (\<lambda>p. if fst p \<le> 32 then map_of t p else None)"



section \<open>Facts about the example kernel\<close>

lemma longest_None: "longest es = None \<longleftrightarrow> es = []"
  by (induction es) (auto split: option.splits)

lemma longest_Some:
  "longest es = Some e \<Longrightarrow> map_of es (fst e) = Some (snd e) \<and> (\<forall>e'\<in>set es. fst (fst e') \<le> fst (fst e))"
proof (induction es arbitrary: e)
  case Nil
  then show ?case by simp
next
  case (Cons a es)
  show ?case
  proof (cases "longest es")
    case None
    with Cons.prems show ?thesis by (auto simp: longest_None)
  next
    case (Some b)
    note IH = Cons.IH [OF Some]
    show ?thesis
    proof (cases "fst (fst b) \<le> fst (fst a)")
      case True
      with Cons.prems Some IH show ?thesis by fastforce
    next
      case False
      with Cons.prems Some have "e = b" by simp
      moreover have "fst a \<noteq> fst b" using False by auto
      ultimately show ?thesis using IH False by auto
    qed
  qed
qed

lemma map_of_filter_key:
  "map_of (filter (\<lambda>e. Q (fst e)) t) p = (if Q p then map_of t p else None)"
  by (induction t) auto

lemma map_of_filter_neq: "map_of (filter (\<lambda>e. fst e \<noteq> q) t) p = (if p = q then None else map_of t p)"
  by (induction t) auto

interpretation lk: bpf_kernel_spec le "list_kernel le room" list_entries for le room
proof (unfold_locales, goal_cases)
  case (1 t k v)
  then obtain e where e: "longest (filter (\<lambda>e. prefix_matches le (fst e) k) t) = Some e" "v = snd e"
    by (auto simp: list_kernel_def list_lpm_lookup_def)
  note l = longest_Some [OF e(1)] and f = map_of_filter_key [of "\<lambda>p. prefix_matches le p k" t "fst e"]
  have "map_of t (fst e) = Some v" "prefix_matches le (fst e) k"
    using l f by (auto simp: e(2) split: if_splits)
  moreover have max: "\<And>e'. e' \<in> set t \<Longrightarrow> prefix_matches le (fst e') k \<Longrightarrow> fst (fst e') \<le> fst (fst e)"
    using bspec [OF conjunct2 [OF l]] by (simp only: set_filter mem_Collect_eq)
  moreover have "fst (fst e) \<le> 32"
    using calculation(2) 1(2) by (simp add: prefix_matches_def)
  moreover have "\<And>q. q \<in> dom (list_entries t) \<Longrightarrow> prefix_matches le q k \<Longrightarrow> fst q \<le> fst (fst e)"
    using max by (auto simp: list_entries_def dest!: map_of_SomeD split: if_splits)
  ultimately show ?case
    by (intro exI [of _ "fst e"]) (simp add: list_entries_def)
next
  case (2 t k p)
  then have "\<forall>e\<in>set t. \<not> prefix_matches le (fst e) k"
    by (simp add: list_kernel_def list_lpm_lookup_def longest_None filter_empty_conv)
  moreover from 2(3) obtain v where "(p, v) \<in> set t"
    by (auto simp: list_entries_def dest!: map_of_SomeD split: if_splits)
  ultimately show ?case by force
next
  case (8 k t)
  have "fst (prefix_of le k) \<le> 32" using 8 by (simp add: prefix_of_def)
  then show ?case using 8
    by (auto simp: list_kernel_def list_lpm_delete_def list_entries_def map_of_eq_None_iff domIff)
qed (auto simp: list_kernel_def list_lpm_update_def list_lpm_delete_def list_entries_def
    map_of_filter_neq map_update_any_def map_delete_any_def array_update_def prefix_of_def
    fun_eq_iff split: if_splits)



section \<open>Packet access\<close>

lemma data_plus_le:
  fixes d e :: u32
  assumes "i < 100"
  shows "(ucast d :: u64) + of_nat i \<le> ucast e \<longleftrightarrow> unat d + i \<le> unat e"
proof -
  have "unat (of_nat i :: u64) = i"
    using assms by (simp add: unat_of_nat)
  moreover have "unat d + i < 18446744073709551616"
    using assms unat_u32_less [of d] by linarith
  ultimately have "unat ((ucast d :: u64) + of_nat i) = unat d + i"
    by (simp add: unat_word_ariths)
  then show ?thesis by (simp add: word_le_nat_alt)
qed

lemma bounds_checks:
  fixes d e :: u32
  shows "(ucast e :: u64) < ucast d + 14 \<longleftrightarrow> unat e < unat d + 14"
    and "(ucast e :: u64) < ucast d + 34 \<longleftrightarrow> unat e < unat d + 34"
  using data_plus_le [of 14 d e] data_plus_le [of 34 d e]
  by (simp_all flip: linorder_not_le)

lemma load16_pkt:
  "load16 le mem (ucast (xdp_data ctx) + 12) =
     do { b0 \<leftarrow> pkt_byte ctx mem 12; b1 \<leftarrow> pkt_byte ctx mem 13; Some (join16 le b0 b1) }"
  by (simp add: load16_def pkt_byte_def add.assoc)

lemma load32_pkt:
  "load32 le mem (ucast (xdp_data ctx) + 26) =
     do { b0 \<leftarrow> pkt_byte ctx mem 26; b1 \<leftarrow> pkt_byte ctx mem 27;
          b2 \<leftarrow> pkt_byte ctx mem 28; b3 \<leftarrow> pkt_byte ctx mem 29; Some (join32 le b0 b1 b2 b3) }"
  by (simp add: load32_def pkt_byte_def add.assoc)

lemma join16_is_ip: "join16 le b0 b1 = bpf_htons le ETH_P_IP \<longleftrightarrow> b0 = 8 \<and> b1 = 0"
  by (simp add: ETH_P_IP_def join16_eq_htons join16_False_ETH_P_IP)

text \<open>
  On a mapped packet the program never reads outside the packet, and what it does depends on
  the packet only through its source address and its length.
\<close>

lemma xdp_filter_eq:
  assumes "packet_mapped ctx mem"
  shows "xdp_filter le K now ctx mem s =
    (case packet_source le ctx mem of
       None \<Rightarrow> Some (XDP_PASS, s)
     | Some src \<Rightarrow>
         (case ringbuf_reserve K (packet_ringbuf s) 12 of
            None \<Rightarrow> Some (XDP_PASS, s)
          | Some l \<Rightarrow>
              Some (xdp_filter_checks K now src
                (l\<lparr>log_ip := src, log_bytes := xdp_data_end ctx - xdp_data ctx\<rparr>)
                (s\<lparr>ringbuf_reserved := ringbuf_reserved s + 1\<rparr>))))"
proof (cases "unat (xdp_data ctx) + 14 \<le> unat (xdp_data_end ctx)")
  case False
  then show ?thesis
    by (simp add: xdp_filter_def packet_source_def Let_def bounds_checks)
next
  case True
  then obtain b0 b1 where b: "pkt_byte ctx mem 12 = Some b0" "pkt_byte ctx mem 13 = Some b1"
    using assms by (force simp: packet_mapped_def)
  show ?thesis
  proof (cases "unat (xdp_data ctx) + 34 \<le> unat (xdp_data_end ctx)")
    case False
    with True b show ?thesis
      by (simp add: xdp_filter_def packet_source_def Let_def bounds_checks
          load16_pkt join16_is_ip add.assoc)
  next
    case long: True
    then have mapped: "pkt_byte ctx mem i \<noteq> None" if "i < 34" for i
      using assms that by (auto simp: packet_mapped_def)
    obtain c0 c1 c2 c3 where "pkt_byte ctx mem 26 = Some c0" "pkt_byte ctx mem 27 = Some c1"
      "pkt_byte ctx mem 28 = Some c2" "pkt_byte ctx mem 29 = Some c3"
      using mapped [of 26] mapped [of 27] mapped [of 28] mapped [of 29] by auto
    with True long b show ?thesis
      by (simp add: xdp_filter_def packet_source_def Let_def bounds_checks
          load16_pkt load32_pkt join16_is_ip add.assoc split: option.splits)
  qed
qed


section \<open>What each step writes\<close>

named_theorems xdp_frame "fields of the maps after a step of the program"

lemma stats_add_frame [xdp_frame]:
  "blacklist_subnets_map (stats_add f p s) = blacklist_subnets_map s"
  "whitelist_subnets_map (stats_add f p s) = whitelist_subnets_map s"
  "config_state_map (stats_add f p s) = config_state_map s"
  "global_stats_map (stats_add f p s) = global_stats_map s"
  "ip_rate_limits_map (stats_add f p s) = ip_rate_limits_map s"
  "ip_timestamps_map (stats_add f p s) = ip_timestamps_map s"
  "packet_ringbuf (stats_add f p s) = packet_ringbuf s"
  "ringbuf_reserved (stats_add f p s) = ringbuf_reserved s"
  by (simp_all add: stats_add_def split: option.splits)

lemma global_add_frame [xdp_frame]:
  "blacklist_subnets_map (global_add k s) = blacklist_subnets_map s"
  "whitelist_subnets_map (global_add k s) = whitelist_subnets_map s"
  "config_state_map (global_add k s) = config_state_map s"
  "ip_stats_map (global_add k s) = ip_stats_map s"
  "global_stats_map (global_add k s) =
     (global_stats_map s)(k := map_option (\<lambda>c. c + 1) (global_stats_map s k))"
  "ip_rate_limits_map (global_add k s) = ip_rate_limits_map s"
  "ip_timestamps_map (global_add k s) = ip_timestamps_map s"
  "packet_ringbuf (global_add k s) = packet_ringbuf s"
  "ringbuf_reserved (global_add k s) = ringbuf_reserved s"
  by (auto simp: global_add_def fun_eq_iff split: option.splits)

lemmas step_defs = log_drop_def log_pass_def bpf_ringbuf_submit_def bpf_printk_def Let_def

lemma get_ip_stats_frame:
  assumes "get_ip_stats K src s0 = (p, s)"
  shows "blacklist_subnets_map s = blacklist_subnets_map s0"
    "whitelist_subnets_map s = whitelist_subnets_map s0"
    "config_state_map s = config_state_map s0"
    "global_stats_map s = global_stats_map s0"
    "ip_rate_limits_map s = ip_rate_limits_map s0"
    "ip_timestamps_map s = ip_timestamps_map s0"
    "packet_ringbuf s = packet_ringbuf s0"
    "ringbuf_reserved s = ringbuf_reserved s0"
  using assms by (auto simp: get_ip_stats_def Let_def split: option.splits)

lemma rate_limit_check_frame:
  assumes "rate_limit_check K now src s = Some s'"
  shows "blacklist_subnets_map s' = blacklist_subnets_map s"
    "whitelist_subnets_map s' = whitelist_subnets_map s"
    "config_state_map s' = config_state_map s"
    "ip_stats_map s' = ip_stats_map s"
    "global_stats_map s' = global_stats_map s"
    "ip_rate_limits_map s' = ip_rate_limits_map s"
    "packet_ringbuf s' = packet_ringbuf s"
    "ringbuf_reserved s' = ringbuf_reserved s"
  using assms by (auto simp: rate_limit_check_def split: option.splits if_splits)

text \<open>The three outcomes of the checks, with the state each leaves.\<close>

lemma xdp_filter_checks_cases:
  assumes "xdp_filter_checks K now src l s0 = (a, s')"
  obtains (drop) p s m where "get_ip_stats K src s0 = (p, s)" "a = XDP_DROP"
      "s' = log_drop l p (bpf_printk m s)"
    | (pass) p s s1 where "get_ip_stats K src s0 = (p, s)" "a = XDP_PASS"
      "rate_limit_check K now src s = Some s1" "s' = log_pass l p s1"
  using assms
  by (auto simp: xdp_filter_checks_def Let_def split: prod.splits if_splits option.splits)

lemma is_config_enabled_cong:
  "config_state_map s = config_state_map s' \<Longrightarrow> is_config_enabled s k = is_config_enabled s' k"
  by (simp add: is_config_enabled_def)

lemma checks_frame:
  assumes "xdp_filter_checks K now src l s0 = (a, s')"
  shows "config_state_map s' = config_state_map s0"
    and "blacklist_subnets_map s' = blacklist_subnets_map s0"
    and "whitelist_subnets_map s' = whitelist_subnets_map s0"
    and "ip_rate_limits_map s' = ip_rate_limits_map s0"
    and "packet_ringbuf s' =
      packet_ringbuf s0 @ [l\<lparr>log_is_passed := if a = XDP_PASS then 1 else 0\<rparr>]"
    and "ringbuf_reserved s' = ringbuf_reserved s0 - 1"
    and "global_stats_map s' =
      (let k = (if a = XDP_PASS then 1 else 0)
       in (global_stats_map s0)(k := map_option (\<lambda>c. c + 1) (global_stats_map s0 k)))"
  using assms
  by (cases rule: xdp_filter_checks_cases;
      simp add: step_defs xdp_frame get_ip_stats_frame rate_limit_check_frame)+

text \<open>A whole packet: either nothing happened, or the checks ran on a reserved slot.\<close>

lemma xdp_filter_cases:
  assumes "xdp_filter le K now ctx mem s = Some (a, s')"
  obtains (unchanged) "a = XDP_PASS" "s' = s"
    | (checked) src l where
      "xdp_filter_checks K now src
         (l\<lparr>log_ip := src, log_bytes := xdp_data_end ctx - xdp_data ctx\<rparr>)
         (s\<lparr>ringbuf_reserved := ringbuf_reserved s + 1\<rparr>) = (a, s')"
      "ringbuf_reserve K (packet_ringbuf s) 12 = Some l"
  using assms
  by (auto simp: xdp_filter_def Let_def split: bind_splits if_splits option.splits)

text \<open>The program never changes its own configuration.\<close>

lemma xdp_filter_config:
  assumes "xdp_filter le K now ctx mem s = Some (a, s')"
  shows "config_state_map s' = config_state_map s"
    "blacklist_subnets_map s' = blacklist_subnets_map s"
    "whitelist_subnets_map s' = whitelist_subnets_map s"
    "ip_rate_limits_map s' = ip_rate_limits_map s"
  using assms by (cases rule: xdp_filter_cases; simp add: checks_frame)+

lemma policy_of_xdp_filter:
  "xdp_filter le K now ctx mem s = Some (a, s') \<Longrightarrow> policy_of entries s' = policy_of entries s"
  by (simp add: policy_of_def is_config_enabled_def xdp_filter_config)


section \<open>The verdict\<close>

lemma rate_limit_check_None:
  "rate_limit_check K now src s = None \<longleftrightarrow>
     (\<exists>r ts. is_config_enabled s CONFIG_KEY_RATELIMIT \<and> ip_rate_limits_map s src = Some r \<and>
       ip_timestamps_map s src = Some ts \<and> now - last_timestamp ts < packet_interval_ns r)"
  by (auto simp: rate_limit_check_def split: option.splits if_splits)

lemma checks_drop_iff:
  "fst (xdp_filter_checks K now src l s) = XDP_DROP \<longleftrightarrow>
     (is_config_enabled s CONFIG_KEY_WHITELIST \<and>
        lpm_lookup K (whitelist_subnets_map s) \<lparr>prefixlen = 32, key_ip = src\<rparr> = None) \<or>
     (is_config_enabled s CONFIG_KEY_BLACKLIST \<and>
        lpm_lookup K (blacklist_subnets_map s) \<lparr>prefixlen = 32, key_ip = src\<rparr> \<noteq> None) \<or>
     rate_limit_check K now src s = None"
proof -
  obtain p s1 where g: "get_ip_stats K src s = (p, s1)" by force
  note f = get_ip_stats_frame [OF g]
  have c: "is_config_enabled s1 k = is_config_enabled s k" for k
    by (simp add: is_config_enabled_def f)
  have "(rate_limit_check K now src s1 = None) = (rate_limit_check K now src s = None)"
    by (simp only: rate_limit_check_None c f)
  then show ?thesis
    by (cases "rate_limit_check K now src s1") (simp_all add: xdp_filter_checks_def Let_def g f c)
qed

context bpf_kernel_spec
begin

lemma checks_verdict:
  "fst (xdp_filter_checks K now src l s) = XDP_DROP \<longleftrightarrow>
     \<not> policy_allows (policy_of entries s) (bpf_ntohl le src) src now (last_pass s src)"
proof -
  have wl: "(lpm_lookup K t \<lparr>prefixlen = 32, key_ip = src\<rparr> = None) =
      (\<not> (\<exists>p\<in>dom (entries t). in_prefix p (bpf_ntohl le src)))" for t
    using lpm_lookup_32 [of t src] by blast
  show ?thesis
    unfolding checks_drop_iff wl rate_limit_check_None policy_allows_def policy_of_def last_pass_def
    by (auto split: option.splits simp: linorder_not_le)
qed

end

lemma filter_verdict:
  assumes "bpf_kernel_spec le K entries" and "packet_mapped ctx mem"
  shows "\<exists>a s'. xdp_filter le K now ctx mem s = Some (a, s') \<and>
    (a = XDP_DROP \<longleftrightarrow>
      (\<exists>src. packet_source le ctx mem = Some src \<and>
         ringbuf_reserve K (packet_ringbuf s) 12 \<noteq> None \<and>
         \<not> policy_allows (policy_of entries s) (bpf_ntohl le src) src now (last_pass s src)))"
proof (cases "packet_source le ctx mem")
  case None
  then show ?thesis by (simp add: xdp_filter_eq [OF assms(2)])
next
  case (Some src)
  show ?thesis
  proof (cases "ringbuf_reserve K (packet_ringbuf s) 12")
    case None
    with Some show ?thesis by (simp add: xdp_filter_eq [OF assms(2)])
  next
    case (Some l)
    let ?s = "s\<lparr>ringbuf_reserved := ringbuf_reserved s + 1\<rparr>"
    let ?r = "xdp_filter_checks K now src
      (l\<lparr>log_ip := src, log_bytes := xdp_data_end ctx - xdp_data ctx\<rparr>) ?s"
    have "xdp_filter le K now ctx mem s = Some (fst ?r, snd ?r)"
      using Some \<open>packet_source le ctx mem = Some src\<close> by (simp add: xdp_filter_eq [OF assms(2)])
    moreover have "policy_of entries ?s = policy_of entries s" "last_pass ?s src = last_pass s src"
      by (simp_all add: policy_of_def is_config_enabled_def last_pass_def)
    ultimately show ?thesis
      using bpf_kernel_spec.checks_verdict [OF assms(1), of now src _ ?s] Some
        \<open>packet_source le ctx mem = Some src\<close>
      by (intro exI [of _ "fst ?r"] exI [of _ "snd ?r"]) simp
  qed
qed

text \<open>C1. The verdict of the filter on every packet. On a packet whose bytes are mapped the
  program always returns a verdict (it never reads outside the packet), and it drops the
  packet exactly when the packet is an IPv4 frame, a log slot could be reserved, and the
  policy in the maps refuses its source address: the whitelist is on and no whitelisted
  prefix covers the address, or the blacklist is on and a blacklisted prefix covers it, or
  the address is rate-limited and the previous packet that passed came less than the
  configured interval ago. Byte order of the host does not matter.\<close>

theorem xdp_filter_verdict:
  assumes "bpf_kernel_spec le K entries" and "packet_mapped ctx mem"
  shows "\<exists>a s'. xdp_filter le K now ctx mem s = Some (a, s') \<and>
    (a = XDP_DROP \<longleftrightarrow>
      (\<exists>src. packet_source le ctx mem = Some src \<and>
         ringbuf_reserve K (packet_ringbuf s) 12 \<noteq> None \<and>
         \<not> policy_allows (policy_of entries s) (bpf_ntohl le src) src now (last_pass s src)))"
  by (rule filter_verdict [OF assms])

text \<open>
  A concrete packet for the examples: a 34-byte IPv4 frame at address 4096 with the source
  address in bytes 26 to 29.
\<close>

definition example_mem :: "u8 \<Rightarrow> u8 \<Rightarrow> u8 \<Rightarrow> u8 \<Rightarrow> memory" where
  "example_mem b0 b1 b2 b3 = (\<lambda>a. if a < 4096 \<or> 4130 \<le> a then None
     else if a = 4108 then Some 8
     else if a = 4122 then Some b0 else if a = 4123 then Some b1
     else if a = 4124 then Some b2 else if a = 4125 then Some b3 else Some 0)"

definition example_ctx :: xdp_md where
  "example_ctx = \<lparr>xdp_data = 4096, xdp_data_end = 4130\<rparr>"

definition empty_maps :: "(prefix \<times> u8) list bpf_maps" where
  "empty_maps =
     \<lparr>blacklist_subnets_map = [], whitelist_subnets_map = [],
      config_state_map = (\<lambda>k. if k < 20 then Some 0 else None),
      ip_stats_map = Map.empty, global_stats_map = (\<lambda>k. if k < 2 then Some 0 else None),
      ip_rate_limits_map = Map.empty, ip_timestamps_map = Map.empty,
      packet_ringbuf = [], ringbuf_reserved = 0, trace_pipe = []\<rparr>"

lemma example_mapped: "packet_mapped example_ctx (example_mem b0 b1 b2 b3)"
proof -
  have "example_mem b0 b1 b2 b3 (4096 + of_nat i) \<noteq> None" if "i < 34" for i
  proof -
    have "unat (4096 + of_nat i :: u64) = 4096 + i"
      using that by (simp add: unat_word_ariths unat_of_nat)
    then have "\<not> (4096 + of_nat i :: u64) < 4096" "\<not> 4130 \<le> (4096 + of_nat i :: u64)"
      using that by (simp_all add: word_less_nat_alt word_le_nat_alt)
    then show ?thesis by (simp add: example_mem_def)
  qed
  then show ?thesis
    by (simp add: packet_mapped_def example_ctx_def pkt_byte_def)
qed

lemma example_source:
  "packet_source le example_ctx (example_mem b0 b1 b2 b3) = Some (join32 le b0 b1 b2 b3)"
  by (simp add: packet_source_def example_ctx_def pkt_byte_def example_mem_def)

text \<open>With 10.0.0.0/8 blacklisted, a packet from 10.1.2.3 is dropped.\<close>

theorem xdp_filter_verdict_witness:
  "\<exists>a s'. xdp_filter True (list_kernel True 1) 5 example_ctx (example_mem 10 1 2 3)
      (empty_maps\<lparr>blacklist_subnets_map := [((8, 10), 1)],
         config_state_map := (\<lambda>k. Some (if k = 0 then 1 else 0))\<rparr>) = Some (a, s') \<and>
    a = XDP_DROP"
proof -
  let ?s = "empty_maps\<lparr>blacklist_subnets_map := [((8, 10), 1)],
    config_state_map := (\<lambda>k. Some (if k = 0 then 1 else 0))\<rparr>"
  let ?src = "join32 True 10 1 2 3"
  have "drop_bit 24 (join32 False 10 1 2 3) = (10 :: u32)"
    by (simp add: join32_def)
  then have "\<not> policy_allows (policy_of list_entries ?s) (bpf_ntohl True ?src) ?src 5 (last_pass ?s ?src)"
    by (simp add: policy_allows_def policy_of_def empty_maps_def is_config_enabled_def
        config_key_defs list_entries_def in_prefix_def byte_simps dom_def)
  moreover have "ringbuf_reserve (list_kernel True 1) (packet_ringbuf ?s) 12 \<noteq> None"
    by (simp add: list_kernel_def empty_maps_def)
  ultimately show ?thesis
    using xdp_filter_verdict [where now = 5 and s = ?s,
        OF lk.bpf_kernel_spec_axioms [of True 1] example_mapped [of 10 1 2 3]]
      example_source [of True 10 1 2 3] by auto
qed


section \<open>Accounting\<close>

text \<open>A mapped packet is recorded exactly when it has a source address and a slot could be reserved; else it passes.\<close>

lemma xdp_filter_step:
  assumes "packet_mapped ctx mem" "xdp_filter le K now ctx mem s = Some (a, s')"
  obtains (unlogged) "packet_source le ctx mem = None \<or> ringbuf_reserve K (packet_ringbuf s) 12 = None" "a = XDP_PASS" "s' = s"
    | (logged) src l where "packet_source le ctx mem = Some src" "ringbuf_reserve K (packet_ringbuf s) 12 = Some l"
      "xdp_filter_checks K now src (l\<lparr>log_ip := src, log_bytes := xdp_data_end ctx - xdp_data ctx\<rparr>)
         (s\<lparr>ringbuf_reserved := ringbuf_reserved s + 1\<rparr>) = (a, s')"
  using assms(2) unfolding xdp_filter_eq [OF assms(1)] by (auto split: option.splits)

lemma xdp_run_step:
  assumes "xdp_run le K ((now, ctx, mem) # ps) s = Some (acts, s')"
  obtains a s1 as where "xdp_filter le K now ctx mem s = Some (a, s1)" "xdp_run le K ps s1 = Some (as, s')" "acts = a # as"
  using assms by (auto split: bind_splits)

definition drops :: "packet_logs list \<Rightarrow> nat" where
  "drops logs = length (filter (\<lambda>l. log_is_passed l = 0) logs)"

definition passes :: "packet_logs list \<Rightarrow> nat" where
  "passes logs = length (filter (\<lambda>l. log_is_passed l = 1) logs)"

text \<open>The records that the packets and their verdicts call for, when the ring already holds \<open>ring\<close>: one for each IPv4 packet
  for which there was room, with its address, its length and its verdict.\<close>

fun records :: "bool \<Rightarrow> 'l bpf_kernel \<Rightarrow> arrival list \<Rightarrow> xdp_action list \<Rightarrow> packet_logs list \<Rightarrow> packet_logs list" where
  "records le K ((now, ctx, mem) # ps) (a # acts) ring =
     (case packet_source le ctx mem of
        None \<Rightarrow> records le K ps acts ring
      | Some src \<Rightarrow>
          if ringbuf_reserve K ring 12 = None then records le K ps acts ring
          else let l = \<lparr>log_ip = src, log_bytes = xdp_data_end ctx - xdp_data ctx, log_is_passed = if a = XDP_PASS then 1 else 0\<rparr>
               in l # records le K ps acts (ring @ [l]))"
| "records le K _ _ ring = []"

lemma xdp_run_records:
  assumes "xdp_run le K ps s = Some (acts, s')" "\<forall>(now, ctx, mem) \<in> set ps. packet_mapped ctx mem"
  shows "length acts = length ps \<and> packet_ringbuf s' = packet_ringbuf s @ records le K ps acts (packet_ringbuf s) \<and>
    (\<forall>k \<in> {0, 1}. global_stats_map s' k = map_option (\<lambda>c. c + of_nat (length (filter (\<lambda>l. log_is_passed l = k)
       (records le K ps acts (packet_ringbuf s))))) (global_stats_map s k)) \<and>
    length (filter (\<lambda>a. a = XDP_DROP) acts) = drops (records le K ps acts (packet_ringbuf s)) \<and>
    list_all (\<lambda>l. log_is_passed l \<in> {0, 1}) (records le K ps acts (packet_ringbuf s)) \<and> ringbuf_reserved s' = ringbuf_reserved s"
  using assms
proof (induction ps arbitrary: s acts)
  case Nil
  then show ?case by (simp add: drops_def option.map_ident)
next
  case (Cons pkt ps)
  obtain now ctx mem where pkt: "pkt = (now, ctx, mem)" by (cases pkt)
  obtain a s1 as where step: "xdp_filter le K now ctx mem s = Some (a, s1)" "xdp_run le K ps s1 = Some (as, s')" "acts = a # as"
    using Cons.prems(1) unfolding pkt by (rule xdp_run_step)
  have mapped: "packet_mapped ctx mem" "\<forall>(now, ctx, mem) \<in> set ps. packet_mapped ctx mem" using Cons.prems(2) by (auto simp: pkt)
  note IH = Cons.IH [OF step(2) mapped(2)]
  from mapped(1) step(1) show ?case
  proof (cases rule: xdp_filter_step)
    case unlogged
    then have "records le K (pkt # ps) acts (packet_ringbuf s) = records le K ps as (packet_ringbuf s)"
      by (auto simp: pkt step(3) split: option.split)
    then show ?thesis using IH unlogged step(3) by simp
  next
    case (logged src l)
    let ?l = "\<lparr>log_ip = src, log_bytes = xdp_data_end ctx - xdp_data ctx, log_is_passed = if a = XDP_PASS then 1 else 0\<rparr>"
    have s1: "packet_ringbuf s1 = packet_ringbuf s @ [?l]" "ringbuf_reserved s1 = ringbuf_reserved s"
      "global_stats_map s1 = (let k = log_is_passed ?l in (global_stats_map s)(k := map_option (\<lambda>c. c + 1) (global_stats_map s k)))"
      using checks_frame(5-7) [OF logged(3)] by simp_all
    have "records le K (pkt # ps) acts (packet_ringbuf s) = ?l # records le K ps as (packet_ringbuf s @ [?l])"
      using logged(1,2) by (simp add: pkt step(3) Let_def)
    then show ?thesis using IH s1 step(3)
      by (cases a) (auto simp: drops_def Let_def option.map_comp o_def ac_simps)
  qed
qed

text \<open>C7. Accounting over any sequence of mapped packets handled one after the other, whatever the kernel does. The records that
  the run adds to the ring buffer are, in order, one for each IPv4 packet for which a slot could be reserved, with its source
  address, its length and the verdict that the filter returned. All other packets pass without a trace. The two global
  counters grow (modulo 64 bits) by the number of dropped and of passed records, and no reserved slot is left without being submitted.\<close>

theorem xdp_run_accounting:
  assumes "xdp_run le K ps s = Some (acts, s')" and "\<forall>(now, ctx, mem) \<in> set ps. packet_mapped ctx mem"
    and "global_stats_map s 0 = Some d" and "global_stats_map s 1 = Some p"
  shows "let logs = records le K ps acts (packet_ringbuf s) in
    packet_ringbuf s' = packet_ringbuf s @ logs \<and> length acts = length ps \<and>
    global_stats_map s' 0 = Some (d + of_nat (drops logs)) \<and>
    global_stats_map s' 1 = Some (p + of_nat (passes logs)) \<and>
    length (filter (\<lambda>a. a = XDP_DROP) acts) = drops logs \<and>
    ringbuf_reserved s' = ringbuf_reserved s"
  using xdp_run_records [OF assms(1,2)] assms(3,4) by (simp add: Let_def drops_def passes_def)

text \<open>One passed packet: one record, marked passed, and the counters at 0 and 1. There is no room for the record of a second packet.\<close>

definition two_packets :: "arrival list" where
  "two_packets = [(5, example_ctx, example_mem 10 1 2 3), (6, example_ctx, example_mem 10 1 2 3)]"

lemma two_packets_mapped: "\<forall>(now, ctx, mem) \<in> set two_packets. packet_mapped ctx mem"
  by (simp add: two_packets_def example_mapped)

lemma example_run:
  "xdp_run True (list_kernel True 1) two_packets empty_maps =
     Some ([XDP_PASS, XDP_PASS], empty_maps\<lparr>ip_stats_map := [join32 True 10 1 2 3 \<mapsto> \<lparr>dropped = 0, passed = 1\<rparr>],
       global_stats_map := (\<lambda>k. if k < 2 then Some 0 else None)(1 \<mapsto> 1),
       packet_ringbuf := [\<lparr>log_ip = join32 True 10 1 2 3, log_bytes = 34, log_is_passed = 1\<rparr>]\<rparr>)"
  unfolding two_packets_def xdp_run.simps xdp_filter_eq [OF example_mapped] example_source
  by (simp add: list_kernel_def empty_maps_def
      xdp_filter_checks_def get_ip_stats_def map_update_any_def is_config_enabled_def
      config_key_defs rate_limit_check_def step_defs stats_add_def global_add_def example_ctx_def)

lemma example_records:
  "records True (list_kernel True 1) two_packets [XDP_PASS, XDP_PASS] [] =
     [\<lparr>log_ip = join32 True 10 1 2 3, log_bytes = 34, log_is_passed = 1\<rparr>]"
  unfolding two_packets_def records.simps example_source by (simp add: list_kernel_def Let_def example_ctx_def)

theorem xdp_run_accounting_witness:
  "\<exists>acts s'. xdp_run True (list_kernel True 1) two_packets empty_maps = Some (acts, s') \<and>
     packet_ringbuf s' = [\<lparr>log_ip = join32 True 10 1 2 3, log_bytes = 34, log_is_passed = 1\<rparr>] \<and>
     global_stats_map s' 0 = Some 0 \<and> global_stats_map s' 1 = Some 1"
proof -
  have "global_stats_map empty_maps 0 = Some 0" "global_stats_map empty_maps 1 = Some 0" "packet_ringbuf empty_maps = []"
    by (simp_all add: empty_maps_def)
  from xdp_run_accounting [OF example_run two_packets_mapped this(1,2)] this(3) example_records show ?thesis
    unfolding example_run Let_def by (simp add: drops_def passes_def)
qed

section \<open>Statistics per source address\<close>

text \<open>An address without an entry counts zero of both.\<close>

definition stat_of :: "'l bpf_maps \<Rightarrow> u32 \<Rightarrow> packet_stats" where
  "stat_of s k = (case ip_stats_map s k of None \<Rightarrow> \<lparr>dropped = 0, passed = 0\<rparr> | Some st \<Rightarrow> st)"

definition bump :: "xdp_action \<Rightarrow> packet_stats \<Rightarrow> packet_stats" where
  "bump a st = (case a of XDP_DROP \<Rightarrow> st\<lparr>dropped := dropped st + 1\<rparr>
                        | XDP_PASS \<Rightarrow> st\<lparr>passed := passed st + 1\<rparr>)"

text \<open>A packet is counted when its address has an entry or the map has room for a new one.\<close>

definition counted :: "'l bpf_kernel \<Rightarrow> (u32 \<rightharpoonup> packet_stats) \<Rightarrow> u32 \<Rightarrow> bool" where
  "counted K m k \<longleftrightarrow> m k \<noteq> None \<or> fst (stats_update K m k \<lparr>dropped = 0, passed = 0\<rparr> BPF_ANY) = 0"

text \<open>The recorded packets of an address, with their verdicts and whether they are counted.\<close>

fun stat_events :: "bool \<Rightarrow> 'l bpf_kernel \<Rightarrow> u32 \<Rightarrow> arrival list \<Rightarrow> 'l bpf_maps \<Rightarrow> (xdp_action \<times> bool) list" where
  "stat_events le K k [] s = []"
| "stat_events le K k ((now, ctx, mem) # ps) s =
     (case xdp_filter le K now ctx mem s of None \<Rightarrow> []
      | Some (a, s') \<Rightarrow>
          (if packet_source le ctx mem = Some k \<and> ringbuf_reserve K (packet_ringbuf s) 12 \<noteq> None
           then [(a, counted K (ip_stats_map s) k)] else []) @ stat_events le K k ps s')"

lemma stat_of_stats_add:
  "ip_stats_map s k \<noteq> None \<Longrightarrow> stat_of (stats_add f (Some k) s) i = (if i = k then f (stat_of s k) else stat_of s i)"
  by (auto simp: stat_of_def stats_add_def split: option.splits)

lemma stat_of_cong: "ip_stats_map s = ip_stats_map s' \<Longrightarrow> stat_of s = stat_of s'"
  by (simp add: stat_of_def fun_eq_iff)

lemma dom_stats_add: "dom (ip_stats_map (stats_add f p s)) = dom (ip_stats_map s)"
  by (auto simp: stats_add_def split: option.splits if_splits)

lemma stats_add_cong: "ip_stats_map s = ip_stats_map s' \<Longrightarrow> ip_stats_map (stats_add f p s) = ip_stats_map (stats_add f p s')"
  by (simp add: stats_add_def split: option.splits)

context bpf_kernel_spec
begin

lemma get_ip_stats_result:
  assumes "get_ip_stats K src s0 = (p, s)"
  shows "p = (if counted K (ip_stats_map s0) src then Some src else None)" "stat_of s = stat_of s0"
    "dom (ip_stats_map s) = (if counted K (ip_stats_map s0) src then insert src (dom (ip_stats_map s0)) else dom (ip_stats_map s0))"
proof -
  let ?u = "stats_update K (ip_stats_map s0) src \<lparr>dropped = 0, passed = 0\<rparr> BPF_ANY"
  have u: "snd ?u = (if fst ?u = 0 then (ip_stats_map s0)(src \<mapsto> \<lparr>dropped = 0, passed = 0\<rparr>) else ip_stats_map s0)"
    using stats_update_ok [of "ip_stats_map s0" src _ BPF_ANY "snd ?u"]
      stats_update_err [of "ip_stats_map s0" src _ BPF_ANY "fst ?u" "snd ?u"] by (metis prod.collapse)
  show "p = (if counted K (ip_stats_map s0) src then Some src else None)" "stat_of s = stat_of s0"
    "dom (ip_stats_map s) = (if counted K (ip_stats_map s0) src then insert src (dom (ip_stats_map s0)) else dom (ip_stats_map s0))"
    using assms
    by (auto simp: get_ip_stats_def counted_def u Let_def stat_of_def fun_eq_iff split: option.splits if_splits)
qed

lemma checks_stats:
  assumes "xdp_filter_checks K now src l s0 = (a, s')"
  shows "stat_of s' k = (if k = src \<and> counted K (ip_stats_map s0) src then bump a (stat_of s0 src) else stat_of s0 k)"
    "dom (ip_stats_map s') = (if counted K (ip_stats_map s0) src then insert src (dom (ip_stats_map s0)) else dom (ip_stats_map s0))"
proof -
  obtain p s where g: "get_ip_stats K src s0 = (p, s)" by force
  note g' = get_ip_stats_result [OF g]
  have s': "ip_stats_map s' = ip_stats_map (stats_add (bump a) p s)" using assms
  proof (cases rule: xdp_filter_checks_cases)
    case (drop p' s'' m)
    then have "p' = p" "s'' = s" using g by simp_all
    moreover have "bump a = (\<lambda>st. st\<lparr>dropped := dropped st + 1\<rparr>)" using drop(2) by (simp add: bump_def fun_eq_iff)
    ultimately show ?thesis using drop(3) by (simp add: step_defs xdp_frame) (rule stats_add_cong, simp)
  next
    case (pass p' s'' s1)
    then have "p' = p" "ip_stats_map s1 = ip_stats_map s" using g rate_limit_check_frame(4) [OF pass(3)] by simp_all
    moreover have "bump a = (\<lambda>st. st\<lparr>passed := passed st + 1\<rparr>)" using pass(2) by (simp add: bump_def fun_eq_iff)
    ultimately show ?thesis using pass(4) by (simp add: step_defs xdp_frame) (rule stats_add_cong, simp)
  qed
  show "dom (ip_stats_map s') = (if counted K (ip_stats_map s0) src then insert src (dom (ip_stats_map s0)) else dom (ip_stats_map s0))"
    unfolding s' dom_stats_add by (rule g'(3))
  have "stat_of s' = stat_of (stats_add (bump a) p s)" by (rule stat_of_cong [OF s'])
  moreover have "ip_stats_map s src \<noteq> None" if "counted K (ip_stats_map s0) src" using g'(3) that by auto
  ultimately show "stat_of s' k = (if k = src \<and> counted K (ip_stats_map s0) src then bump a (stat_of s0 src) else stat_of s0 k)"
    using g'(1,2) stat_of_stats_add [of s src "bump a" k] by (auto simp: stats_add_def)
qed

end

text \<open>C8. Statistics per address, for any kernel that obeys its documented laws, a statistics map that is full included. The
  recorded packets of an address are counted from the first one on for which the address has an entry or can be given one: the
  counters grow (modulo 64 bits) by exactly the number of those, dropped and passed. An address that has an entry at the start is
  counted in full, and once one packet is counted all later ones are.\<close>

theorem xdp_run_ip_stats:
  assumes "bpf_kernel_spec le K entries" and "xdp_run le K ps s = Some (acts, s')"
    and "\<forall>(now, ctx, mem) \<in> set ps. packet_mapped ctx mem"
  shows "let es = stat_events le K k ps s in
    map fst es = map (\<lambda>l. if log_is_passed l = 1 then XDP_PASS else XDP_DROP)
      (filter (\<lambda>l. log_ip l = k) (records le K ps acts (packet_ringbuf s))) \<and>
    dropped (stat_of s' k) = dropped (stat_of s k) + of_nat (length (filter (\<lambda>(a, c). c \<and> a = XDP_DROP) es)) \<and>
    passed (stat_of s' k) = passed (stat_of s k) + of_nat (length (filter (\<lambda>(a, c). c \<and> a = XDP_PASS) es)) \<and>
    (ip_stats_map s k \<noteq> None \<longrightarrow> list_all snd es) \<and> sorted_wrt (\<lambda>x y. snd x \<longrightarrow> snd y) es"
  using assms(2,3) unfolding Let_def
proof (induction ps arbitrary: s acts)
  case Nil
  then show ?case by simp
next
  case (Cons pkt ps)
  obtain now ctx mem where pkt: "pkt = (now, ctx, mem)" by (cases pkt)
  obtain a s1 as where step: "xdp_filter le K now ctx mem s = Some (a, s1)" "xdp_run le K ps s1 = Some (as, s')" "acts = a # as"
    using Cons.prems(1) unfolding pkt by (rule xdp_run_step)
  have mapped: "packet_mapped ctx mem" "\<forall>(now, ctx, mem) \<in> set ps. packet_mapped ctx mem" using Cons.prems(2) by (auto simp: pkt)
  note IH = Cons.IH [OF step(2) mapped(2)]
  from mapped(1) step(1) show ?case
  proof (cases rule: xdp_filter_step)
    case unlogged
    then have "records le K (pkt # ps) acts (packet_ringbuf s) = records le K ps as (packet_ringbuf s)"
      by (auto simp: pkt step(3) split: option.split)
    moreover have "stat_events le K k (pkt # ps) s = stat_events le K k ps s" using unlogged step(1) by (auto simp: pkt)
    ultimately show ?thesis using IH unlogged(3) by simp
  next
    case (logged src l)
    let ?l = "\<lparr>log_ip = src, log_bytes = xdp_data_end ctx - xdp_data ctx, log_is_passed = if a = XDP_PASS then 1 else 0\<rparr>"
    have ring: "packet_ringbuf s1 = packet_ringbuf s @ [?l]" using checks_frame(5) [OF logged(3)] by simp
    have rec: "records le K (pkt # ps) acts (packet_ringbuf s) = ?l # records le K ps as (packet_ringbuf s1)"
      using logged(1,2) by (simp add: pkt step(3) Let_def ring)
    have ev: "stat_events le K k (pkt # ps) s = (if src = k then [(a, counted K (ip_stats_map s) k)] else []) @ stat_events le K k ps s1"
      using logged(1,2) step(1) by (auto simp: pkt)
    have st: "stat_of (s\<lparr>ringbuf_reserved := ringbuf_reserved s + 1\<rparr>) = stat_of s" by (rule stat_of_cong) simp
    note c = bpf_kernel_spec.checks_stats [OF assms(1) logged(3), unfolded st, simplified]
    have entry: "ip_stats_map s1 k \<noteq> None" if "ip_stats_map s k \<noteq> None \<or> src = k \<and> counted K (ip_stats_map s) k"
      using that c(2) by (auto split: if_splits)
    have all: "list_all snd (stat_events le K k ps s1)" if "ip_stats_map s k \<noteq> None \<or> src = k \<and> counted K (ip_stats_map s) k"
      using IH entry [OF that] by simp
    show ?thesis
    proof (cases "src = k")
      case False
      then show ?thesis using IH all c(1) [of k] rec ev by simp
    next
      case True
      have "counted K (ip_stats_map s) k \<or> ip_stats_map s k = None" by (auto simp: counted_def)
      then show ?thesis using IH all c(1) [of k] rec ev True
        by (cases a; cases "counted K (ip_stats_map s) k") (auto simp: bump_def list_all_iff)
    qed
  qed
qed

theorem xdp_run_ip_stats_witness:
  "\<exists>acts s'. xdp_run True (list_kernel True 1) two_packets empty_maps = Some (acts, s') \<and>
     passed (stat_of s' (join32 True 10 1 2 3)) = 1 \<and> dropped (stat_of s' (join32 True 10 1 2 3)) = 0"
proof -
  let ?k = "join32 True 10 1 2 3"
  have ev: "stat_events True (list_kernel True 1) ?k two_packets empty_maps = [(XDP_PASS, True)]"
    unfolding two_packets_def stat_events.simps xdp_filter_eq [OF example_mapped] example_source
    by (simp add: list_kernel_def empty_maps_def counted_def
        xdp_filter_checks_def get_ip_stats_def map_update_any_def is_config_enabled_def
        config_key_defs rate_limit_check_def step_defs stats_add_def global_add_def example_ctx_def)
  have "stat_of empty_maps ?k = \<lparr>dropped = 0, passed = 0\<rparr>" by (simp add: empty_maps_def stat_of_def)
  with xdp_run_ip_stats [OF lk.bpf_kernel_spec_axioms [of True 1] example_run two_packets_mapped, of ?k] ev
  show ?thesis unfolding example_run Let_def by (simp del: stat_events.simps)
qed

end
