(* ===== verification/Rate_Limit.thy ===== *)
theory Rate_Limit
  imports Xdp_Filter
begin

text \<open>
  The rate limiter of \<open>xdp_filter\<close> over sequences of packets: how far apart the packets of
  a limited address are that pass, and how many pass in a window of time.
\<close>

text \<open>
  The limiter has a hold on a packet only if a log slot can be reserved for it, and the packet is remembered only if its address
  has an entry in the map of timestamps or can be given one. A packet that passes otherwise escapes the limiter.
\<close>

definition escapes :: "'l bpf_kernel \<Rightarrow> u64 \<Rightarrow> u32 \<Rightarrow> 'l bpf_maps \<Rightarrow> bool" where
  "escapes K now src s \<longleftrightarrow> ringbuf_reserve K (packet_ringbuf s) 12 = None \<or>
     ip_timestamps_map s src = None \<and> fst (timestamps_update K (ip_timestamps_map s) src \<lparr>last_timestamp = now\<rparr> BPF_ANY) \<noteq> 0"

text \<open>The times of the packets of an address that pass, with whether they escape the limiter.\<close>

fun passes_of :: "bool \<Rightarrow> 'l bpf_kernel \<Rightarrow> u32 \<Rightarrow> arrival list \<Rightarrow> 'l bpf_maps \<Rightarrow> (u64 \<times> bool) list" where
  "passes_of le K src [] s = []"
| "passes_of le K src ((now, ctx, mem) # ps) s =
     (case xdp_filter le K now ctx mem s of None \<Rightarrow> []
      | Some (a, s') \<Rightarrow>
          (if packet_source le ctx mem = Some src \<and> a = XDP_PASS then [(now, escapes K now src s)] else []) @
          passes_of le K src ps s')"

definition held_passes :: "(u64 \<times> bool) list \<Rightarrow> nat list" where
  "held_passes xs = map (\<lambda>(t, e). unat t) (filter (\<lambda>(t, e). \<not> e) xs)"

lemma held_simps [simp]: "held_passes [] = []" "held_passes ((t, e) # xs) = (if e then held_passes xs else unat t # held_passes xs)" "held_passes (xs @ ys) = held_passes xs @ held_passes ys"
  by (simp_all add: held_passes_def)

lemma passes_of_acts:
  "xdp_run le K ps s = Some (acts, s') \<Longrightarrow>
   map fst (passes_of le K src ps s) =
     map (fst \<circ> fst) (filter (\<lambda>((now, ctx, mem), a). packet_source le ctx mem = Some src \<and> a = XDP_PASS) (zip ps acts))"
  by (induction ps arbitrary: s acts) (auto split: bind_splits)

definition limited :: "'l bpf_maps \<Rightarrow> u32 \<Rightarrow> u64 \<Rightarrow> bool" where
  "limited s src i \<longleftrightarrow> is_config_enabled s CONFIG_KEY_RATELIMIT \<and>
     map_option packet_interval_ns (ip_rate_limits_map s src) = Some i"

lemma limited_xdp_filter:
  "xdp_filter le K now ctx mem s = Some (a, s') \<Longrightarrow> limited s' src i = limited s src i"
  by (simp add: limited_def is_config_enabled_def xdp_filter_config)

lemma last_pass_cong:
  "ip_timestamps_map s = ip_timestamps_map s' \<Longrightarrow> last_pass s src = last_pass s' src"
  by (simp add: last_pass_def)

context bpf_kernel_spec
begin

lemma timestamps_update_other:
  "i \<noteq> src \<Longrightarrow> snd (timestamps_update K m src ts fl) i = m i"
proof -
  assume "i \<noteq> src"
  obtain e m' where u: "timestamps_update K m src ts fl = (e, m')" by force
  with \<open>i \<noteq> src\<close> timestamps_update_ok [of m src ts fl m'] timestamps_update_err [OF u]
  show ?thesis by (cases "e = 0") auto
qed

lemma timestamps_update_same:
  "snd (timestamps_update K m src ts fl) src = (if fst (timestamps_update K m src ts fl) = 0 then Some ts else m src)"
  using timestamps_update_ok [of m src ts fl] timestamps_update_err [of m src ts fl]
  by (metis fun_upd_same prod.collapse)

lemma rate_limit_check_other:
  assumes "rate_limit_check K now src s = Some s'" "i \<noteq> src"
  shows "last_pass s' i = last_pass s i"
  using assms
  by (auto simp: rate_limit_check_def last_pass_def timestamps_update_other
      split: option.splits if_splits)

text \<open>What a check that lets the packet pass does to the time of its address; \<open>f\<close> says that the time cannot be stored.\<close>

lemma rate_limit_check_same:
  assumes "rate_limit_check K now src s = Some s'" "limited s src i"
    and "f \<longleftrightarrow> ip_timestamps_map s src = None \<and> fst (timestamps_update K (ip_timestamps_map s) src \<lparr>last_timestamp = now\<rparr> BPF_ANY) \<noteq> 0"
  shows "if f then last_pass s' src = last_pass s src
    else last_pass s' src = Some now \<and> (\<forall>t. last_pass s src = Some t \<longrightarrow> i \<le> now - t)"
  using assms
  by (auto simp: rate_limit_check_def last_pass_def limited_def timestamps_update_same linorder_not_less
      split: option.splits if_splits)

lemma checks_last_pass:
  assumes "xdp_filter_checks K now src l s0 = (a, s')"
    and "f \<longleftrightarrow> ip_timestamps_map s0 src = None \<and> fst (timestamps_update K (ip_timestamps_map s0) src \<lparr>last_timestamp = now\<rparr> BPF_ANY) \<noteq> 0"
  shows "limited s0 j i \<Longrightarrow> if a = XDP_PASS \<and> j = src \<and> \<not> f
    then last_pass s' src = Some now \<and> (\<forall>t. last_pass s0 src = Some t \<longrightarrow> i \<le> now - t)
    else last_pass s' j = last_pass s0 j"
  using assms(1)
proof (cases rule: xdp_filter_checks_cases)
  case (drop p s m)
  then have "last_pass s' j = last_pass s0 j"
    by (intro last_pass_cong) (simp add: step_defs xdp_frame get_ip_stats_frame)
  then show ?thesis using drop(2) by simp
next
  case (pass p s s1)
  note fr = get_ip_stats_frame [OF pass(1)]
  have s: "last_pass s k = last_pass s0 k" for k by (intro last_pass_cong) (simp add: fr)
  have s': "last_pass s' k = last_pass s1 k" for k by (intro last_pass_cong) (simp add: pass(4) step_defs xdp_frame)
  have l: "limited s src i = limited s0 src i" by (simp add: limited_def is_config_enabled_def fr)
  show "limited s0 j i \<Longrightarrow> ?thesis"
    using rate_limit_check_same [OF pass(3), of i f] rate_limit_check_other [OF pass(3), of j] pass(2) assms(2)
    by (cases "j = src") (auto simp: s s' l fr)
qed

end

text \<open>
  A run of the filter in which the clock does not go backwards, as \<open>bpf_ktime_get_ns\<close>
  guarantees, and all packets are mapped.
\<close>

definition proper_run :: "arrival list \<Rightarrow> 'l bpf_maps \<Rightarrow> u32 \<Rightarrow> bool" where
  "proper_run ps s src \<longleftrightarrow> sorted (map fst ps) \<and>
     (\<forall>(now, ctx, mem)\<in>set ps. packet_mapped ctx mem \<and>
        (\<forall>t. last_pass s src = Some t \<longrightarrow> t \<le> now))"

lemma interval_elapsed:
  fixes now t i :: u64
  assumes "t \<le> now" "i \<le> now - t"
  shows "unat t + unat i \<le> unat now"
  using assms by (simp add: word_le_nat_alt unat_sub_word)

lemma xdp_filter_last_pass:
  assumes "bpf_kernel_spec le K entries" "limited s src i" "packet_mapped ctx mem" "xdp_filter le K now ctx mem s = Some (a, s')"
  shows "if packet_source le ctx mem = Some src \<and> a = XDP_PASS \<and> \<not> escapes K now src s
    then last_pass s' src = Some now \<and> (\<forall>t. last_pass s src = Some t \<longrightarrow> i \<le> now - t)
    else last_pass s' src = last_pass s src"
  using assms(3,4)
proof (cases rule: xdp_filter_step)
  case unlogged
  then show ?thesis by (auto simp: escapes_def)
next
  case (logged src' l)
  let ?s = "s\<lparr>ringbuf_reserved := ringbuf_reserved s + 1\<rparr>"
  have "last_pass ?s k = last_pass s k" for k by (simp add: last_pass_def)
  moreover have "limited ?s src i" using assms(2) by (simp add: limited_def is_config_enabled_def)
  ultimately show ?thesis
    using bpf_kernel_spec.checks_last_pass [OF assms(1) logged(3) refl, of src i] logged(1,2)
    by (cases "src' = src") (auto simp: escapes_def)
qed

lemma passes_spaced:
  assumes "bpf_kernel_spec le K entries" "limited s src i" "proper_run ps s src"
  shows "spaced (unat i) (held_passes (passes_of le K src ps s)) \<and>
    (\<forall>t0. last_pass s src = Some t0 \<longrightarrow> (\<forall>t\<in>set (held_passes (passes_of le K src ps s)). unat t0 + unat i \<le> t))"
  using assms(2,3)
proof (induction ps arbitrary: s)
  case Nil
  then show ?case by simp
next
  case (Cons pkt ps)
  obtain now ctx mem where pkt: "pkt = (now, ctx, mem)" by (cases pkt)
  have mapped: "packet_mapped ctx mem" and le_now: "\<And>t. last_pass s src = Some t \<Longrightarrow> t \<le> now"
    using Cons.prems(2) by (auto simp: proper_run_def pkt)
  obtain a s1 where step: "xdp_filter le K now ctx mem s = Some (a, s1)" using filter_verdict [OF assms(1) mapped] by blast
  note lp = xdp_filter_last_pass [OF assms(1) Cons.prems(1) mapped step]
  have lim: "limited s1 src i" using Cons.prems(1) by (simp add: limited_xdp_filter [OF step])
  have "\<And>t. last_pass s1 src = Some t \<Longrightarrow> t \<le> now" using lp le_now by (auto split: if_splits)
  with Cons.prems(2) have proper: "proper_run ps s1 src" by (fastforce simp: proper_run_def pkt)
  note IH = Cons.IH [OF lim proper]
  show ?case
  proof (cases "packet_source le ctx mem = Some src \<and> a = XDP_PASS \<and> \<not> escapes K now src s")
    case True
    with lp have last: "last_pass s1 src = Some now"
      and el: "\<And>t. last_pass s src = Some t \<Longrightarrow> unat t + unat i \<le> unat now"
      using le_now interval_elapsed by auto
    moreover have "\<forall>t\<in>set (held_passes (passes_of le K src ps s1)). unat now + unat i \<le> t" using IH last by simp
    ultimately show ?thesis using IH True step by (fastforce simp: pkt)
  next
    case False
    with lp have "last_pass s1 src = last_pass s src" by auto
    with IH False step show ?thesis by (auto simp: pkt)
  qed
qed

text \<open>C6. The rate limiter spaces the packets of a limited address. Over any sequence of packets (of all addresses, in any order)
  that the filter handles one after the other with a clock that does not go backwards, and whatever the kernel does, any two
  packets of the address that pass and did not escape the limiter are at least the configured interval apart. A packet escapes only when no log
  slot can be reserved for it, or when the address has no timestamp yet and the map has no room for one.\<close>

theorem rate_limit_spacing:
  assumes "bpf_kernel_spec le K entries" and "limited s src i" and "proper_run ps s src" and "xdp_run le K ps s = Some (acts, s')"
  shows "spaced (unat i) (held_passes (passes_of le K src ps s)) \<and>
    map fst (passes_of le K src ps s) =
      map (fst \<circ> fst) (filter (\<lambda>((now, ctx, mem), a). packet_source le ctx mem = Some src \<and> a = XDP_PASS) (zip ps acts))"
  using passes_spaced [OF assms(1-3)] passes_of_acts [OF assms(4)] by blast

lemma held_filter: "filter Q (held_passes xs) = held_passes (filter (\<lambda>(t, e). Q (unat t)) xs)"
  by (induction xs) auto

lemma length_held: "length xs = length (held_passes xs) + length (filter snd xs)"
  by (induction xs) auto

definition in_window :: "nat \<Rightarrow> nat \<Rightarrow> u64 \<Rightarrow> bool" where
  "in_window a w t \<longleftrightarrow> a \<le> unat t \<and> unat t \<le> a + w"

lemma window_passes:
  assumes "xdp_run le K ps s = Some (acts, s')"
  shows "length (filter (\<lambda>((now, ctx, mem), act). packet_source le ctx mem = Some src \<and> act = XDP_PASS \<and> in_window a w now) (zip ps acts)) =
    length (filter (\<lambda>(t, e). in_window a w t) (passes_of le K src ps s))"
proof -
  have "length (filter (\<lambda>(t, e). in_window a w t) (passes_of le K src ps s)) = length (filter (in_window a w) (map fst (passes_of le K src ps s)))"
    by (simp add: filter_map comp_def case_prod_beta')
  then show ?thesis unfolding passes_of_acts [OF assms] by (simp add: filter_map comp_def case_prod_beta' conj_ac)
qed

text \<open>C9. The rate limiter bounds the packets of a limited address per window of time: of the packets of the address that arrive in any
  window of \<open>w\<close> nanoseconds at most \<open>w div i + 1\<close> pass, \<open>i\<close> being its interval, and those that escape the limiter: for which no
  log slot can be reserved, or whose address has no timestamp yet and cannot be given one. The packets are handled one after the other with
  a clock that does not go backwards.\<close>

theorem rate_limit_window:
  assumes "bpf_kernel_spec le K entries" and "limited s src i" and "proper_run ps s src" and "xdp_run le K ps s = Some (acts, s')" and "i \<noteq> 0"
  shows "length (filter (\<lambda>((now, ctx, mem), act). packet_source le ctx mem = Some src \<and> act = XDP_PASS \<and> in_window a w now) (zip ps acts))
    \<le> w div unat i + 1 + length (filter (\<lambda>(t, e). e \<and> in_window a w t) (passes_of le K src ps s))"
proof -
  let ?all = "passes_of le K src ps s"
  let ?ps = "filter (\<lambda>(t, e). in_window a w t) ?all" and ?ts = "filter (\<lambda>t. a \<le> t \<and> t \<le> a + w) (held_passes ?all)"
  have "spaced (unat i) ?ts" using passes_spaced [OF assms(1-3)] by (simp add: sorted_wrt_filter)
  then have "length ?ts \<le> w div unat i + 1" using assms(5) by (intro spaced_count [of _ _ a]) (auto simp: unat_gt_0)
  moreover have "?ts = held_passes ?ps" by (simp add: held_filter in_window_def)
  moreover have "filter snd ?ps = filter (\<lambda>(t, e). e \<and> in_window a w t) ?all" by (auto simp: case_prod_beta intro: filter_cong)
  ultimately have "length ?ps \<le> w div unat i + 1 + length (filter (\<lambda>(t, e). e \<and> in_window a w t) ?all)" using length_held [of ?ps] by simp
  then show ?thesis unfolding window_passes [OF assms(4)] .
qed

section \<open>Examples\<close>

text \<open>Address 10.1.2.3 limited to one packet per 3 ns; packets at 5, 6, 8 and 9 ns. The ring has room for three records, so that
  the last one escapes.\<close>

definition limited_maps :: "(prefix \<times> u8) list bpf_maps" where
  "limited_maps = empty_maps\<lparr>config_state_map := (\<lambda>k. Some (if k = 1 then 1 else 0)),
     ip_rate_limits_map := [join32 True 10 1 2 3 \<mapsto>
       \<lparr>packets_per_second = 333333333, packet_interval_ns = 3\<rparr>]\<rparr>"

definition four_packets :: "arrival list" where
  "four_packets = [(5, example_ctx, example_mem 10 1 2 3), (6, example_ctx, example_mem 10 1 2 3),
     (8, example_ctx, example_mem 10 1 2 3), (9, example_ctx, example_mem 10 1 2 3)]"

lemma four_packets_run:
  "\<exists>s'. xdp_run True (list_kernel True 3) four_packets limited_maps = Some ([XDP_PASS, XDP_DROP, XDP_PASS, XDP_PASS], s')"
  unfolding four_packets_def xdp_run.simps xdp_filter_eq [OF example_mapped] example_source
  by (simp add: limited_maps_def list_kernel_def empty_maps_def
      xdp_filter_checks_def get_ip_stats_def map_update_any_def is_config_enabled_def
      config_key_defs rate_limit_check_def step_defs stats_add_def global_add_def example_ctx_def)

lemma four_packets_hyps:
  "limited limited_maps (join32 True 10 1 2 3) 3" "proper_run four_packets limited_maps (join32 True 10 1 2 3)"
  by (simp_all add: limited_def limited_maps_def empty_maps_def is_config_enabled_def config_key_defs
      proper_run_def four_packets_def example_mapped last_pass_def)

lemma four_packets_passes:
  "passes_of True (list_kernel True 3) (join32 True 10 1 2 3) four_packets limited_maps = [(5, False), (8, False), (9, True)]"
  unfolding four_packets_def passes_of.simps xdp_filter_eq [OF example_mapped] example_source
  by (simp add: limited_maps_def list_kernel_def empty_maps_def escapes_def
      xdp_filter_checks_def get_ip_stats_def map_update_any_def is_config_enabled_def
      config_key_defs rate_limit_check_def step_defs stats_add_def global_add_def example_ctx_def)

theorem rate_limit_spacing_witness:
  "\<exists>acts s'. xdp_run True (list_kernel True 3) four_packets limited_maps = Some (acts, s') \<and>
     passes_of True (list_kernel True 3) (join32 True 10 1 2 3) four_packets limited_maps = [(5, False), (8, False), (9, True)] \<and>
     spaced (unat (3 :: u64)) (held_passes (passes_of True (list_kernel True 3) (join32 True 10 1 2 3) four_packets limited_maps))"
proof -
  obtain s' where run: "xdp_run True (list_kernel True 3) four_packets limited_maps =
      Some ([XDP_PASS, XDP_DROP, XDP_PASS, XDP_PASS], s')" using four_packets_run by blast
  show ?thesis using rate_limit_spacing [OF lk.bpf_kernel_spec_axioms [of True 3] four_packets_hyps run] run four_packets_passes by blast
qed

theorem rate_limit_window_witness:
  "length (filter (\<lambda>((now, ctx, mem), act). packet_source True ctx mem = Some (join32 True 10 1 2 3) \<and> act = XDP_PASS \<and> in_window 5 4 now)
     (zip four_packets [XDP_PASS, XDP_DROP, XDP_PASS, XDP_PASS])) \<le> 4 div 3 + 1 + 1"
proof -
  obtain s' where run: "xdp_run True (list_kernel True 3) four_packets limited_maps =
      Some ([XDP_PASS, XDP_DROP, XDP_PASS, XDP_PASS], s')" using four_packets_run by blast
  have "(3 :: u64) \<noteq> 0" by simp
  from rate_limit_window [OF lk.bpf_kernel_spec_axioms [of True 3] four_packets_hyps run this, of 5 4]
  show ?thesis unfolding four_packets_passes by (simp add: in_window_def)
qed

end
