(* ===== verification/Config.thy ===== *)
theory Config
  imports Xdp_Filter
begin

text \<open>
  The control plane that writes the filter's maps: \<open>src/config/type/Blacklist.cpp\<close>, \<open>Whitelist.cpp\<close>
  and \<open>RateLimit.cpp\<close>, the event dispatcher \<open>src/config/ConfigManager.cpp\<close> and the table of map
  descriptors \<open>src/MapFdManager.cpp\<close>. It works on the maps and the kernel of \<open>Xdp_Filter\<close>; an update
  through a negative descriptor fails. What the code uses of the C and C++ libraries is modelled here:
  \<open>std::getline\<close>, the extraction of words and unsigned numbers from a stream (as libstdc++ does it),
  \<open>std::stoul\<close>, and \<open>inet_pton\<close> for IPv4 (as glibc does it). Messages to the console are left out.
\<close>

section \<open>Library functions\<close>

definition isspace :: "char \<Rightarrow> bool" where
  "isspace c \<longleftrightarrow> c \<in> {CHR 0x20, CHR 0x09, CHR 0x0A, CHR 0x0B, CHR 0x0C, CHR 0x0D}"

definition is_digit :: "char \<Rightarrow> bool" where
  "is_digit c \<longleftrightarrow> 48 \<le> (of_char c :: nat) \<and> (of_char c :: nat) \<le> 57"

definition digit_value :: "char \<Rightarrow> nat" where
  "digit_value c = of_char c - 48"

definition number :: "string \<Rightarrow> nat" where
  "number ds = value10 (map digit_value ds)"

text \<open>\<open>std::getline\<close> over a whole file.\<close>

function getlines :: "string \<Rightarrow> string list" where
  "getlines [] = []"
| "getlines (c # s) =
     takeWhile (\<lambda>x. x \<noteq> CHR 0x0A) (c # s) # getlines (drop 1 (dropWhile (\<lambda>x. x \<noteq> CHR 0x0A) (c # s)))"
  by pat_completeness auto
termination
proof (relation "measure length")
  fix c :: char and s :: string
  have "length (dropWhile (\<lambda>x. x \<noteq> CHR 0x0A) s) \<le> length s" by (rule length_dropWhile_le)
  then show "(drop 1 (dropWhile (\<lambda>x. x \<noteq> CHR 0x0A) (c # s)), c # s) \<in> measure length" by auto
qed simp

text \<open>\<open>ss >> word\<close>: the word and the rest of the stream; an empty word when the extraction fails.\<close>

definition read_word :: "string \<Rightarrow> string \<times> string" where
  "read_word s =
     (let s = dropWhile isspace s in (takeWhile (\<lambda>c. \<not> isspace c) s, dropWhile (\<lambda>c. \<not> isspace c) s))"

definition sign_of :: "string \<Rightarrow> bool \<times> string" where
  "sign_of s =
     (case s of [] \<Rightarrow> (False, [])
      | c # r \<Rightarrow> if c = CHR ''-'' then (True, r) else if c = CHR ''+'' then (False, r) else (False, s))"

text \<open>\<open>ss >> number\<close> for a \<open>uint32_t\<close>; \<open>None\<close> when the stream fails.\<close>

definition read_u32 :: "string \<Rightarrow> u32 option" where
  "read_u32 s =
     (let (neg, r) = sign_of (dropWhile isspace s); ds = takeWhile is_digit r in
      if ds = [] \<or> 2 ^ 32 \<le> number ds then None
      else Some (if neg then - of_nat (number ds) else of_nat (number ds)))"

text \<open>\<open>std::stoul\<close>; \<open>None\<close> when it throws.\<close>

definition stoul :: "string \<Rightarrow> u64 option" where
  "stoul s =
     (let (neg, r) = sign_of (dropWhile isspace s); ds = takeWhile is_digit r in
      if ds = [] \<or> 2 ^ 64 \<le> number ds then None
      else Some (if neg then - of_nat (number ds) else of_nat (number ds)))"

fun split_on :: "char \<Rightarrow> string \<Rightarrow> string list" where
  "split_on d [] = [[]]"
| "split_on d (c # s) =
     (if c = d then [] # split_on d s
      else case split_on d s of [] \<Rightarrow> [[c]] | p # ps \<Rightarrow> (c # p) # ps)"

definition octet :: "string \<Rightarrow> u8 option" where
  "octet p =
     (if p \<noteq> [] \<and> list_all is_digit p \<and> (length p = 1 \<or> hd p \<noteq> CHR ''0'') \<and> number p \<le> 255
      then Some (of_nat (number p)) else None)"

text \<open>\<open>inet_pton(AF_INET, s.c_str(), &ip)\<close>: the four bytes in memory, read as a word of the host.\<close>

definition inet_pton :: "bool \<Rightarrow> string \<Rightarrow> u32 option" where
  "inet_pton le s =
     (case split_on (CHR ''.'') (takeWhile (\<lambda>c. c \<noteq> CHR 0x00) s) of
        [p0, p1, p2, p3] \<Rightarrow>
          do { b0 \<leftarrow> octet p0; b1 \<leftarrow> octet p1; b2 \<leftarrow> octet p2; b3 \<leftarrow> octet p3; Some (join32 le b0 b1 b2 b3) }
      | _ \<Rightarrow> None)"

section \<open>Map descriptors\<close>

abbreviation (input) EBADF :: int where "EBADF \<equiv> 9"

definition map_names :: "string list" where
  "map_names = [''blacklist_subnets_map'', ''whitelist_subnets_map'', ''config_state_map'', ''ip_rate_limits_map'',
     ''packet_ringbuf'']"

text \<open>The constructor of \<open>MapFdManager\<close>; \<open>bpf_map__fd\<close> is an argument.\<close>

definition MapFdManager :: "(string \<Rightarrow> int) \<Rightarrow> string \<rightharpoonup> int" where
  "MapFdManager bpf_map__fd = (\<lambda>n. if n \<in> set map_names \<and> 0 \<le> bpf_map__fd n then Some (bpf_map__fd n) else None)"

definition get_map_fd_by_name :: "(string \<rightharpoonup> int) \<Rightarrow> string \<Rightarrow> int" where
  "get_map_fd_by_name tbl name =
     (case tbl name of None \<Rightarrow> - 1 | Some fd \<Rightarrow> if fd < 0 then - 1 else fd)"

text \<open>A map operation of the kernel through a descriptor: its result and the map afterwards.\<close>

definition via_fd :: "int \<Rightarrow> 'm \<Rightarrow> int \<times> 'm \<Rightarrow> int \<times> 'm" where
  "via_fd fd m r = (if fd < 0 then (- EBADF, m) else r)"

section \<open>Lists of subnets\<close>

text \<open>The objects: the descriptor of the list or limit map and that of the state map.\<close>

record config_object =
  map_fd_entries :: int
  map_fd_config_state :: int

definition set_config_state :: "'l bpf_kernel \<Rightarrow> config_object \<Rightarrow> u32 \<Rightarrow> u8 \<Rightarrow> 'l bpf_maps \<Rightarrow> bool \<times> 'l bpf_maps" where
  "set_config_state K c key v s =
     (let (r, m) = via_fd (map_fd_config_state c) (config_state_map s) (config_update K (config_state_map s) key v BPF_ANY)
      in (r = 0, s\<lparr>config_state_map := m\<rparr>))"

definition enable_blacklist :: "'l bpf_kernel \<Rightarrow> config_object \<Rightarrow> 'l bpf_maps \<Rightarrow> bool \<times> 'l bpf_maps" where
  "enable_blacklist K c s = set_config_state K c CONFIG_KEY_BLACKLIST 1 s"

definition disable_blacklist :: "'l bpf_kernel \<Rightarrow> config_object \<Rightarrow> 'l bpf_maps \<Rightarrow> bool \<times> 'l bpf_maps" where
  "disable_blacklist K c s = set_config_state K c CONFIG_KEY_BLACKLIST 0 s"

definition enable_whitelist :: "'l bpf_kernel \<Rightarrow> config_object \<Rightarrow> 'l bpf_maps \<Rightarrow> bool \<times> 'l bpf_maps" where
  "enable_whitelist K c s = set_config_state K c CONFIG_KEY_WHITELIST 1 s"

definition disable_whitelist :: "'l bpf_kernel \<Rightarrow> config_object \<Rightarrow> 'l bpf_maps \<Rightarrow> bool \<times> 'l bpf_maps" where
  "disable_whitelist K c s = set_config_state K c CONFIG_KEY_WHITELIST 0 s"

definition parse_subnet :: "bool \<Rightarrow> string \<Rightarrow> bpf_trie_key option" where
  "parse_subnet le subnet_str =
     (if CHR ''/'' \<notin> set subnet_str then None
      else
        let ip_str = takeWhile (\<lambda>c. c \<noteq> CHR ''/'') subnet_str;
            prefix_str = tl (dropWhile (\<lambda>c. c \<noteq> CHR ''/'') subnet_str)
        in do { ip \<leftarrow> inet_pton le ip_str;
                v \<leftarrow> stoul prefix_str;
                let p = (ucast v :: u32)
                in if 32 < p then None else Some \<lparr>prefixlen = p, key_ip = ip\<rparr> })"

text \<open>\<open>remove\<close> treats a missing element as success.\<close>

definition removed :: "int \<Rightarrow> bool" where
  "removed r \<longleftrightarrow> r = 0 \<or> r = - ENOENT"

definition Blacklist_add_ip_subnets :: "'l bpf_kernel \<Rightarrow> config_object \<Rightarrow> bpf_trie_key \<Rightarrow> 'l bpf_maps \<Rightarrow> bool \<times> 'l bpf_maps" where
  "Blacklist_add_ip_subnets K c key s =
     (let (r, t) = via_fd (map_fd_entries c) (blacklist_subnets_map s) (lpm_update K (blacklist_subnets_map s) key 1 BPF_ANY)
      in (r = 0, s\<lparr>blacklist_subnets_map := t\<rparr>))"

definition Blacklist_remove_ip_subnets :: "'l bpf_kernel \<Rightarrow> config_object \<Rightarrow> bpf_trie_key \<Rightarrow> 'l bpf_maps \<Rightarrow> bool \<times> 'l bpf_maps" where
  "Blacklist_remove_ip_subnets K c key s =
     (let (r, t) = via_fd (map_fd_entries c) (blacklist_subnets_map s) (lpm_delete K (blacklist_subnets_map s) key)
      in (removed r, s\<lparr>blacklist_subnets_map := t\<rparr>))"

definition Blacklist_updateConfig :: "bool \<Rightarrow> 'l bpf_kernel \<Rightarrow> config_object \<Rightarrow> string \<Rightarrow> 'l bpf_maps \<Rightarrow> bool \<times> 'l bpf_maps" where
  "Blacklist_updateConfig le K c message s =
     (let (command, ss) = read_word message in
      if command = ''enabled'' then enable_blacklist K c s
      else if command = ''disabled'' then disable_blacklist K c s
      else
        let (subnet_str, ss) = read_word ss in
        if subnet_str = [] then (False, s)
        else
          (case parse_subnet le subnet_str of
             None \<Rightarrow> (False, s)
           | Some key \<Rightarrow>
               if command = ''add'' then Blacklist_add_ip_subnets K c key s
               else if command = ''remove'' then Blacklist_remove_ip_subnets K c key s
               else (False, s)))"

definition Whitelist_add_ip_subnets :: "'l bpf_kernel \<Rightarrow> config_object \<Rightarrow> bpf_trie_key \<Rightarrow> 'l bpf_maps \<Rightarrow> bool \<times> 'l bpf_maps" where
  "Whitelist_add_ip_subnets K c key s =
     (let (r, t) = via_fd (map_fd_entries c) (whitelist_subnets_map s) (lpm_update K (whitelist_subnets_map s) key 1 BPF_ANY)
      in (r = 0, s\<lparr>whitelist_subnets_map := t\<rparr>))"

definition Whitelist_remove_ip_subnets :: "'l bpf_kernel \<Rightarrow> config_object \<Rightarrow> bpf_trie_key \<Rightarrow> 'l bpf_maps \<Rightarrow> bool \<times> 'l bpf_maps" where
  "Whitelist_remove_ip_subnets K c key s =
     (let (r, t) = via_fd (map_fd_entries c) (whitelist_subnets_map s) (lpm_delete K (whitelist_subnets_map s) key)
      in (removed r, s\<lparr>whitelist_subnets_map := t\<rparr>))"

definition Whitelist_updateConfig :: "bool \<Rightarrow> 'l bpf_kernel \<Rightarrow> config_object \<Rightarrow> string \<Rightarrow> 'l bpf_maps \<Rightarrow> bool \<times> 'l bpf_maps" where
  "Whitelist_updateConfig le K c message s =
     (let (command, ss) = read_word message in
      if command = ''enabled'' then enable_whitelist K c s
      else if command = ''disabled'' then disable_whitelist K c s
      else
        let (subnet_str, ss) = read_word ss in
        if subnet_str = [] then (False, s)
        else
          (case parse_subnet le subnet_str of
             None \<Rightarrow> (False, s)
           | Some key \<Rightarrow>
               if command = ''add'' then Whitelist_add_ip_subnets K c key s
               else if command = ''remove'' then Whitelist_remove_ip_subnets K c key s
               else (False, s)))"

section \<open>Rate limits\<close>

definition enable_ratelimit :: "'l bpf_kernel \<Rightarrow> config_object \<Rightarrow> 'l bpf_maps \<Rightarrow> bool \<times> 'l bpf_maps" where
  "enable_ratelimit K c s = set_config_state K c CONFIG_KEY_RATELIMIT 1 s"

definition disable_ratelimit :: "'l bpf_kernel \<Rightarrow> config_object \<Rightarrow> 'l bpf_maps \<Rightarrow> bool \<times> 'l bpf_maps" where
  "disable_ratelimit K c s = set_config_state K c CONFIG_KEY_RATELIMIT 0 s"

definition add_rate_limit :: "'l bpf_kernel \<Rightarrow> config_object \<Rightarrow> u32 \<Rightarrow> u32 \<Rightarrow> 'l bpf_maps \<Rightarrow> bool \<times> 'l bpf_maps" where
  "add_rate_limit K c ip pps s =
     (if pps = 0 then (False, s)
      else
        let config = \<lparr>packets_per_second = pps, packet_interval_ns = 1000000000 div ucast pps\<rparr>;
            (r, m) = via_fd (map_fd_entries c) (ip_rate_limits_map s) (limits_update K (ip_rate_limits_map s) ip config BPF_ANY)
        in (r = 0, s\<lparr>ip_rate_limits_map := m\<rparr>))"

definition remove_rate_limit :: "'l bpf_kernel \<Rightarrow> config_object \<Rightarrow> u32 \<Rightarrow> 'l bpf_maps \<Rightarrow> bool \<times> 'l bpf_maps" where
  "remove_rate_limit K c ip s =
     (let (r, m) = via_fd (map_fd_entries c) (ip_rate_limits_map s) (limits_delete K (ip_rate_limits_map s) ip)
      in (removed r, s\<lparr>ip_rate_limits_map := m\<rparr>))"

definition RateLimit_updateConfig :: "bool \<Rightarrow> 'l bpf_kernel \<Rightarrow> config_object \<Rightarrow> string \<Rightarrow> 'l bpf_maps \<Rightarrow> bool \<times> 'l bpf_maps" where
  "RateLimit_updateConfig le K c message s =
     (let (command, ss) = read_word message in
      if command = ''enabled'' then enable_ratelimit K c s
      else if command = ''disabled'' then disable_ratelimit K c s
      else
        let (ip_str, ss) = read_word ss in
        if ip_str = [] then (False, s)
        else
          (case inet_pton le ip_str of
             None \<Rightarrow> (False, s)
           | Some ip \<Rightarrow>
               if command = ''add'' then
                 (case read_u32 ss of
                    None \<Rightarrow> (False, s)
                  | Some pps \<Rightarrow> if pps = 0 then (False, s) else add_rate_limit K c ip pps s)
               else if command = ''remove'' then remove_rate_limit K c ip s
               else (False, s)))"

section \<open>Loading the files\<close>

text \<open>
  The loop over the lines of a file: \<open>Inl\<close> when the function returns from inside the loop, \<open>Inr\<close> with the final
  \<open>first_line\<close> when the file ends.
\<close>

fun load_lines ::
  "('s \<Rightarrow> bool \<times> 's) \<Rightarrow> ('s \<Rightarrow> bool \<times> 's) \<Rightarrow> (string \<Rightarrow> 's \<Rightarrow> bool \<times> 's) \<Rightarrow> bool \<Rightarrow> string list \<Rightarrow> 's \<Rightarrow> (bool + bool) \<times> 's" where
  "load_lines enable disable apply first_line [] s = (Inr first_line, s)"
| "load_lines enable disable apply first_line (line # ls) s =
     (if line = [] \<or> hd line = CHR ''#'' then load_lines enable disable apply first_line ls s
      else if first_line \<and> line = ''disabled'' then (let (r, s) = disable s in (Inl r, s))
      else
        let (ok, s) = (if first_line then enable s else (True, s)) in
        if \<not> ok then (Inl False, s)
        else if line = ''enabled'' \<or> line = ''disabled'' then load_lines enable disable apply False ls s
        else load_lines enable disable apply False ls (snd (apply line s)))"

definition Blacklist_loadConfig ::
  "bool \<Rightarrow> 'l bpf_kernel \<Rightarrow> (string \<rightharpoonup> int) \<Rightarrow> (string \<rightharpoonup> string) \<Rightarrow> config_object \<Rightarrow> 'l bpf_maps \<Rightarrow> bool \<times> config_object \<times> 'l bpf_maps" where
  "Blacklist_loadConfig le K tbl files c s =
     (let c = c\<lparr>map_fd_entries := get_map_fd_by_name tbl ''blacklist_subnets_map''\<rparr> in
      if map_fd_entries c < 0 then (False, c, s)
      else
        let c = c\<lparr>map_fd_config_state := get_map_fd_by_name tbl ''config_state_map''\<rparr> in
        if map_fd_config_state c < 0 then (False, c, s)
        else
          (case files ''/etc/ebpf/blacklist.conf'' of
             None \<Rightarrow> (False, c, s)
           | Some txt \<Rightarrow>
               (case load_lines (enable_blacklist K c) (disable_blacklist K c)
                       (\<lambda>line. Blacklist_updateConfig le K c (''add '' @ line)) True (getlines txt) s of
                  (Inl r, s) \<Rightarrow> (r, c, s)
                | (Inr first_line, s) \<Rightarrow>
                    if first_line then (let (r, s) = enable_blacklist K c s in (r, c, s)) else (True, c, s))))"

definition Whitelist_loadConfig ::
  "bool \<Rightarrow> 'l bpf_kernel \<Rightarrow> (string \<rightharpoonup> int) \<Rightarrow> (string \<rightharpoonup> string) \<Rightarrow> config_object \<Rightarrow> 'l bpf_maps \<Rightarrow> bool \<times> config_object \<times> 'l bpf_maps" where
  "Whitelist_loadConfig le K tbl files c s =
     (let c = c\<lparr>map_fd_entries := get_map_fd_by_name tbl ''whitelist_subnets_map''\<rparr> in
      if map_fd_entries c < 0 then (False, c, s)
      else
        let c = c\<lparr>map_fd_config_state := get_map_fd_by_name tbl ''config_state_map''\<rparr> in
        if map_fd_config_state c < 0 then (False, c, s)
        else
          (case files ''/etc/ebpf/whitelist.conf'' of
             None \<Rightarrow> (True, c, s)
           | Some txt \<Rightarrow>
               (case load_lines (enable_whitelist K c) (disable_whitelist K c)
                       (\<lambda>line. Whitelist_updateConfig le K c (''add '' @ line)) True (getlines txt) s of
                  (Inl r, s) \<Rightarrow> (r, c, s)
                | (Inr first_line, s) \<Rightarrow>
                    if first_line then (let (r, s) = disable_whitelist K c s in (r, c, s)) else (True, c, s))))"

definition RateLimit_loadConfig ::
  "bool \<Rightarrow> 'l bpf_kernel \<Rightarrow> (string \<rightharpoonup> int) \<Rightarrow> (string \<rightharpoonup> string) \<Rightarrow> config_object \<Rightarrow> 'l bpf_maps \<Rightarrow> bool \<times> config_object \<times> 'l bpf_maps" where
  "RateLimit_loadConfig le K tbl files c s =
     (let c = c\<lparr>map_fd_entries := get_map_fd_by_name tbl ''ip_rate_limits_map''\<rparr> in
      if map_fd_entries c < 0 then (False, c, s)
      else
        let c = c\<lparr>map_fd_config_state := get_map_fd_by_name tbl ''config_state_map''\<rparr> in
        if map_fd_config_state c < 0 then (False, c, s)
        else
          (case files ''/etc/ebpf/ratelimit.conf'' of
             None \<Rightarrow> (True, c, s)
           | Some txt \<Rightarrow>
               (case load_lines (enable_ratelimit K c) (disable_ratelimit K c)
                       (\<lambda>line. RateLimit_updateConfig le K c
                          (if take 4 line \<noteq> ''add '' \<and> take 7 line \<noteq> ''remove '' then ''add '' @ line else line))
                       True (getlines txt) s of
                  (Inl r, s) \<Rightarrow> (r, c, s)
                | (Inr first_line, s) \<Rightarrow>
                    if first_line then (let (r, s) = disable_ratelimit K c s in (r, c, s)) else (True, c, s))))"

section \<open>The manager\<close>

datatype ConfigType = Blacklist config_object | Whitelist config_object | RateLimit config_object

fun getTypeName :: "ConfigType \<Rightarrow> string" where
  "getTypeName (Blacklist c) = ''blacklist''"
| "getTypeName (Whitelist c) = ''whitelist''"
| "getTypeName (RateLimit c) = ''ratelimit''"

fun updateConfig :: "bool \<Rightarrow> 'l bpf_kernel \<Rightarrow> ConfigType \<Rightarrow> string \<Rightarrow> 'l bpf_maps \<Rightarrow> bool \<times> 'l bpf_maps" where
  "updateConfig le K (Blacklist c) = Blacklist_updateConfig le K c"
| "updateConfig le K (Whitelist c) = Whitelist_updateConfig le K c"
| "updateConfig le K (RateLimit c) = RateLimit_updateConfig le K c"

text \<open>New objects have no descriptors.\<close>

definition new_object :: config_object where
  "new_object = \<lparr>map_fd_entries = - 1, map_fd_config_state = - 1\<rparr>"

definition loadAllConfigs ::
  "bool \<Rightarrow> 'l bpf_kernel \<Rightarrow> (string \<rightharpoonup> int) \<Rightarrow> (string \<rightharpoonup> string) \<Rightarrow> 'l bpf_maps \<Rightarrow> ConfigType list \<times> 'l bpf_maps" where
  "loadAllConfigs le K tbl files s =
     (let (r, b, s) = Blacklist_loadConfig le K tbl files new_object s;
          (r, w, s) = Whitelist_loadConfig le K tbl files new_object s;
          (r, l, s) = RateLimit_loadConfig le K tbl files new_object s
      in ([Blacklist b, Whitelist w, RateLimit l], s))"

definition is_blank :: "char \<Rightarrow> bool" where
  "is_blank c \<longleftrightarrow> c \<in> {CHR 0x20, CHR 0x09, CHR 0x0A, CHR 0x0D}"

definition trim :: "string \<Rightarrow> string" where
  "trim s = rev (dropWhile is_blank (rev (dropWhile is_blank s)))"

text \<open>The result is \<open>None\<close> when no object takes the message, else what its \<open>updateConfig\<close> returned.\<close>

definition processEventMessage ::
  "bool \<Rightarrow> 'l bpf_kernel \<Rightarrow> ConfigType list \<Rightarrow> string \<Rightarrow> 'l bpf_maps \<Rightarrow> bool option \<times> 'l bpf_maps" where
  "processEventMessage le K configTypes line s =
     (if CHR '':'' \<notin> set line then (None, s)
      else
        let configTypeStr = trim (takeWhile (\<lambda>c. c \<noteq> CHR '':'') line);
            message = trim (tl (dropWhile (\<lambda>c. c \<noteq> CHR '':'') line))
        in (case List.find (\<lambda>config. getTypeName config = configTypeStr) configTypes of
              None \<Rightarrow> (None, s)
            | Some config \<Rightarrow> (let (r, s) = updateConfig le K config message s in (Some r, s))))"

section \<open>Reading back what is written\<close>

named_theorems text_simps "scanning decimal numbers and words"

lemma digit_char:
  assumes "d < 10"
  shows "is_digit (char_of (48 + d))" "digit_value (char_of (48 + d)) = d"
proof -
  have "(48 + d) mod 256 = 48 + d" using assms by simp
  then have "(of_char (char_of (48 + d) :: char) :: nat) = 48 + d" by simp
  then show "is_digit (char_of (48 + d))" "digit_value (char_of (48 + d)) = d"
    using assms by (simp_all add: is_digit_def digit_value_def)
qed

lemma dec_digits: "list_all is_digit (dec n)" "number (dec n) = n" "dec n \<noteq> []"
proof -
  have *: "\<And>d. d \<in> set (digits10 n) \<Longrightarrow> d < 10" by (rule digits10_less)
  show "list_all is_digit (dec n)" using digit_char(1) * by (auto simp: dec_def list_all_iff)
  have "map digit_value (dec n) = digits10 n"
    unfolding dec_def map_map comp_def by (rule map_idI) (rule digit_char(2), rule *)
  then show "number (dec n) = n" by (simp add: number_def)
  show "dec n \<noteq> []" by (simp add: dec_def digits10_nonempty)
qed

lemma hd_digits10: "10 \<le> n \<Longrightarrow> hd (digits10 n) \<noteq> 0"
proof (induction n rule: digits10.induct)
  case (1 n)
  have "digits10 n = digits10 (n div 10) @ [n mod 10]" using "1.prems" by (subst digits10.simps) simp
  moreover have "hd (digits10 (n div 10)) \<noteq> 0"
  proof (cases "10 \<le> n div 10")
    case True
    then show ?thesis using "1.IH" "1.prems" by simp
  next
    case False
    then show ?thesis using "1.prems" by (subst digits10.simps) simp
  qed
  ultimately show ?case by (simp add: digits10_nonempty)
qed

lemma octet_dec: "octet (dec (unat (b :: u8))) = Some b"
proof -
  let ?n = "unat b"
  have "length (dec ?n) = 1 \<or> hd (dec ?n) \<noteq> CHR ''0''"
  proof (cases "?n < 10")
    case True
    then have "digits10 ?n = [?n]" by (subst digits10.simps) simp
    then show ?thesis by (simp add: dec_def)
  next
    case False
    obtain d ds where ds: "digits10 ?n = d # ds" using digits10_nonempty by (cases "digits10 ?n") auto
    then have "d \<noteq> 0" "d < 10" using hd_digits10 [of ?n] False digits10_less [of d ?n] by auto
    then have "digit_value (char_of (48 + d)) \<noteq> digit_value (CHR ''0'')"
      using digit_char(2) [of d] by (simp add: digit_value_def)
    then show ?thesis by (auto simp: dec_def ds)
  qed
  moreover have "?n < 2 ^ 8" using unsigned_less [of b, where 'a = nat] by simp
  ultimately show ?thesis using dec_digits [of ?n] by (simp add: octet_def)
qed

lemma split_on_last: "d \<notin> set p \<Longrightarrow> split_on d p = [p]"
  by (induction p) auto

lemma split_on_step: "d \<notin> set p \<Longrightarrow> split_on d (p @ d # s) = p # split_on d s"
  by (induction p) auto

lemma not_digits [simp]:
  "\<not> is_digit (CHR ''.'')" "\<not> is_digit (CHR ''/'')" "\<not> is_digit (CHR '':'')" "\<not> is_digit (CHR 0x00)" "\<not> is_digit (CHR '' '')"
  "\<not> is_digit (CHR ''-'')" "\<not> is_digit (CHR ''+'')"
  by (simp_all add: is_digit_def)

lemma dec_not_in: "\<not> is_digit c \<Longrightarrow> c \<notin> set (dec n)"
  using dec_digits(1) [of n] by (auto simp: list_all_iff)

text \<open>The text of an address and of a subnet.\<close>

type_synonym ip4 = "u8 \<times> u8 \<times> u8 \<times> u8"

definition ip_text :: "ip4 \<Rightarrow> string" where
  "ip_text = (\<lambda>(b0, b1, b2, b3). dec (unat b0) @ ''.'' @ dec (unat b1) @ ''.'' @ dec (unat b2) @ ''.'' @ dec (unat b3))"

definition ip_word :: "bool \<Rightarrow> ip4 \<Rightarrow> u32" where
  "ip_word le = (\<lambda>(b0, b1, b2, b3). join32 le b0 b1 b2 b3)"

definition subnet_text :: "ip4 \<Rightarrow> nat \<Rightarrow> string" where
  "subnet_text ip n = ip_text ip @ ''/'' @ dec n"

lemma ip_text_chars: "\<not> is_digit c \<Longrightarrow> c \<noteq> CHR ''.'' \<Longrightarrow> c \<notin> set (ip_text ip)"
  using dec_not_in [of c] by (cases ip) (auto simp: ip_text_def)

lemma takeWhile_not_in: "c \<notin> set p \<Longrightarrow> takeWhile (\<lambda>x. x \<noteq> c) p = p"
  by (simp add: takeWhile_eq_all_conv) metis

lemma inet_pton_text: "inet_pton le (ip_text ip) = Some (ip_word le ip)"
proof -
  obtain b0 b1 b2 b3 where ip: "ip = (b0, b1, b2, b3)" by (cases ip)
  have tw: "takeWhile (\<lambda>c. c \<noteq> CHR 0x00) (ip_text ip) = ip_text ip"
    by (rule takeWhile_not_in, rule ip_text_chars) simp_all
  have sp: "split_on (CHR ''.'') (ip_text ip) = [dec (unat b0), dec (unat b1), dec (unat b2), dec (unat b3)]"
    using dec_not_in [of "CHR ''.''"] by (simp add: ip ip_text_def split_on_step split_on_last)
  show ?thesis unfolding inet_pton_def tw sp by (simp add: octet_dec ip ip_word_def)
qed

lemma scan_dec:
  "takeWhile is_digit (dec n) = dec n" "dropWhile isspace (dec n) = dec n" "sign_of (dec n) = (False, dec n)"
proof -
  show "takeWhile is_digit (dec n) = dec n" using dec_digits(1) by (simp add: takeWhile_eq_all_conv list_all_iff)
  obtain c r where cr: "dec n = c # r" using dec_digits(3) [of n] by (cases "dec n") auto
  then have "is_digit c" using dec_digits(1) [of n] by simp
  then show "dropWhile isspace (dec n) = dec n" "sign_of (dec n) = (False, dec n)"
    by (auto simp: cr isspace_def sign_of_def is_digit_def)
qed

lemma stoul_dec: "stoul (dec n) = (if n < 2 ^ 64 then Some (of_nat n) else None)"
  using dec_digits [of n] by (simp add: stoul_def scan_dec)

lemma read_u32_dec: "read_u32 (dec n) = (if n < 2 ^ 32 then Some (of_nat n) else None)"
  using dec_digits [of n] by (simp add: read_u32_def scan_dec)

lemma slash_split:
  assumes "CHR ''/'' \<notin> set p"
  shows "takeWhile (\<lambda>c. c \<noteq> CHR ''/'') (p @ ''/'' @ q) = p" "dropWhile (\<lambda>c. c \<noteq> CHR ''/'') (p @ ''/'' @ q) = ''/'' @ q"
  using assms by (induction p) auto

lemma parse_subnet_text:
  "n < 2 ^ 64 \<Longrightarrow> parse_subnet le (subnet_text ip n) =
     (if n mod 2 ^ 32 \<le> 32 then Some \<lparr>prefixlen = of_nat n, key_ip = ip_word le ip\<rparr> else None)"
proof -
  assume n: "n < 2 ^ 64"
  have s: "CHR ''/'' \<notin> set (ip_text ip)" by (rule ip_text_chars) simp_all
  have u: "ucast (of_nat n :: u64) = (of_nat n :: u32)"
    by (rule bit_word_eqI) (simp add: bit_simps)
  have "(32 < (of_nat n :: u32)) = (\<not> n mod 2 ^ 32 \<le> 32)"
    by (simp add: word_less_nat_alt unat_of_nat take_bit_eq_mod not_le)
  then show ?thesis using n s u
    unfolding parse_subnet_def subnet_text_def Let_def slash_split [OF s]
    by (simp add: inet_pton_text stoul_dec)
qed

section \<open>Commands\<close>

text \<open>
  What the control plane is meant to do: commands on a control state that holds which checks are on, the two
  sets of prefixes and the rate limits. Prefixes are of addresses in network order, whatever the host.
\<close>

datatype feature = FBlacklist | FWhitelist | FRatelimit

datatype command =
    Switch feature bool
  | Add_black ip4 nat
  | Remove_black ip4 nat
  | Add_white ip4 nat
  | Remove_white ip4 nat
  | Add_limit ip4 nat
  | Remove_limit ip4

record control =
  ctl_on :: "feature \<Rightarrow> bool"
  ctl_black :: "prefix set"
  ctl_white :: "prefix set"
  ctl_limits :: "u32 \<rightharpoonup> ip_rate_limit"

fun feature_key :: "feature \<Rightarrow> u32" where
  "feature_key FBlacklist = CONFIG_KEY_BLACKLIST"
| "feature_key FWhitelist = CONFIG_KEY_WHITELIST"
| "feature_key FRatelimit = CONFIG_KEY_RATELIMIT"

definition control_of :: "('l \<Rightarrow> prefix \<rightharpoonup> u8) \<Rightarrow> 'l bpf_maps \<Rightarrow> control" where
  "control_of entries s =
     \<lparr>ctl_on = (\<lambda>f. is_config_enabled s (feature_key f)), ctl_black = dom (entries (blacklist_subnets_map s)),
      ctl_white = dom (entries (whitelist_subnets_map s)), ctl_limits = ip_rate_limits_map s\<rparr>"

definition prefix_ip :: "ip4 \<Rightarrow> nat \<Rightarrow> prefix" where
  "prefix_ip ip n = (n, drop_bit (32 - n) (ip_word False ip))"

fun step :: "bool \<Rightarrow> command \<Rightarrow> control \<Rightarrow> control" where
  "step le (Switch f b) c = c\<lparr>ctl_on := (ctl_on c)(f := b)\<rparr>"
| "step le (Add_black ip n) c = c\<lparr>ctl_black := insert (prefix_ip ip n) (ctl_black c)\<rparr>"
| "step le (Remove_black ip n) c = c\<lparr>ctl_black := ctl_black c - {prefix_ip ip n}\<rparr>"
| "step le (Add_white ip n) c = c\<lparr>ctl_white := insert (prefix_ip ip n) (ctl_white c)\<rparr>"
| "step le (Remove_white ip n) c = c\<lparr>ctl_white := ctl_white c - {prefix_ip ip n}\<rparr>"
| "step le (Add_limit ip n) c = c\<lparr>ctl_limits := (ctl_limits c)(ip_word le ip \<mapsto>
     \<lparr>packets_per_second = of_nat n, packet_interval_ns = of_nat (1000000000 div n)\<rparr>)\<rparr>"
| "step le (Remove_limit ip) c = c\<lparr>ctl_limits := (ctl_limits c)(ip_word le ip := None)\<rparr>"

fun valid_command :: "command \<Rightarrow> bool" where
  "valid_command (Switch f b) = True"
| "valid_command (Add_limit ip n) = (0 < n \<and> n < 2 ^ 32)"
| "valid_command (Remove_limit ip) = True"
| "valid_command (Add_black ip n) = (n \<le> 32)"
| "valid_command (Remove_black ip n) = (n \<le> 32)"
| "valid_command (Add_white ip n) = (n \<le> 32)"
| "valid_command (Remove_white ip n) = (n \<le> 32)"

text \<open>The message of a command: the object that takes it and what follows the colon.\<close>

fun command_text :: "command \<Rightarrow> string \<times> string" where
  "command_text (Switch FBlacklist b) = (''blacklist'', if b then ''enabled'' else ''disabled'')"
| "command_text (Switch FWhitelist b) = (''whitelist'', if b then ''enabled'' else ''disabled'')"
| "command_text (Switch FRatelimit b) = (''ratelimit'', if b then ''enabled'' else ''disabled'')"
| "command_text (Add_black ip n) = (''blacklist'', ''add '' @ subnet_text ip n)"
| "command_text (Remove_black ip n) = (''blacklist'', ''remove '' @ subnet_text ip n)"
| "command_text (Add_white ip n) = (''whitelist'', ''add '' @ subnet_text ip n)"
| "command_text (Remove_white ip n) = (''whitelist'', ''remove '' @ subnet_text ip n)"
| "command_text (Add_limit ip n) = (''ratelimit'', ''add '' @ ip_text ip @ '' '' @ dec n)"
| "command_text (Remove_limit ip) = (''ratelimit'', ''remove '' @ ip_text ip)"

definition message :: "command \<Rightarrow> string" where
  "message cmd = fst (command_text cmd) @ '': '' @ snd (command_text cmd)"

text \<open>Words of a message.\<close>

lemma read_word_step:
  assumes "w \<noteq> []" "list_all (\<lambda>c. \<not> isspace c) w"
  shows "read_word w = (w, [])" "read_word (w @ CHR '' '' # r) = (w, CHR '' '' # r)"
    "read_word (CHR '' '' # w) = (w, [])" "read_word (CHR '' '' # w @ CHR '' '' # r) = (w, CHR '' '' # r)"
proof -
  have sp: "isspace (CHR '' '')" by (simp add: isspace_def)
  have d: "dropWhile isspace (w @ x) = w @ x" for x using assms by (cases w) auto
  have t: "takeWhile (\<lambda>c. \<not> isspace c) (w @ x) = w @ takeWhile (\<lambda>c. \<not> isspace c) x"
      "dropWhile (\<lambda>c. \<not> isspace c) (w @ x) = dropWhile (\<lambda>c. \<not> isspace c) x" for x
    using assms(2) by (auto simp: list_all_iff)
  show "read_word w = (w, [])" "read_word (CHR '' '' # w) = (w, [])"
    using d [of "[]"] t [of "[]"] sp by (simp_all add: read_word_def Let_def)
  show "read_word (w @ CHR '' '' # r) = (w, CHR '' '' # r)" "read_word (CHR '' '' # w @ CHR '' '' # r) = (w, CHR '' '' # r)"
    using d t sp by (simp_all add: read_word_def Let_def)
qed

lemma digit_not_space: "is_digit c \<Longrightarrow> \<not> isspace c"
  by (auto simp: isspace_def is_digit_def)

lemma text_no_space: "list_all (\<lambda>c. \<not> isspace c) (ip_text ip)" "list_all (\<lambda>c. \<not> isspace c) (subnet_text ip n)"
    "list_all (\<lambda>c. \<not> isspace c) (dec n)"
proof -
  show d: "list_all (\<lambda>c. \<not> isspace c) (dec n)" for n
    using dec_digits(1) [of n] digit_not_space by (auto simp: list_all_iff)
  then show i: "list_all (\<lambda>c. \<not> isspace c) (ip_text ip)" by (cases ip) (simp add: ip_text_def isspace_def)
  show "list_all (\<lambda>c. \<not> isspace c) (subnet_text ip n)" using d i by (simp add: subnet_text_def isspace_def)
qed

lemma text_nonempty: "ip_text ip \<noteq> []" "subnet_text ip n \<noteq> []"
  by (cases ip; simp add: ip_text_def dec_digits(3) subnet_text_def)+

lemma command_words:
  "read_word ''enabled'' = (''enabled'', [])" "read_word ''disabled'' = (''disabled'', [])"
  "read_word (''add '' @ r) = (''add'', CHR '' '' # r)" "read_word (''remove '' @ r) = (''remove'', CHR '' '' # r)"
  using read_word_step(1) [of "''enabled''"] read_word_step(1) [of "''disabled''"] read_word_step(2) [of "''add''" r]
    read_word_step(2) [of "''remove''" r] by (simp_all add: isspace_def)

lemma trim_tidy: "m \<noteq> [] \<Longrightarrow> \<not> is_blank (hd m) \<Longrightarrow> \<not> is_blank (last m) \<Longrightarrow> trim (CHR '' '' # m) = m \<and> trim m = m"
proof -
  assume m: "m \<noteq> []" "\<not> is_blank (hd m)" "\<not> is_blank (last m)"
  have "dropWhile is_blank m = m" using m(1,2) by (cases m) simp_all
  moreover have "dropWhile is_blank (rev m) = rev m" using m(1,3) by (cases m rule: rev_cases) simp_all
  moreover have "is_blank (CHR '' '')" by (simp add: is_blank_def)
  ultimately show ?thesis by (simp add: trim_def)
qed

lemma last_dec: "\<not> is_blank (last (dec n))"
proof -
  have "is_digit (last (dec n))" using dec_digits(1,3) [of n] by (simp add: list_all_iff)
  then show ?thesis by (auto simp: is_blank_def is_digit_def)
qed

lemma last_texts: "last (ip_text ip) = last (dec (unat (snd (snd (snd ip)))))" "last (subnet_text ip n) = last (dec n)"
  by (cases ip; simp add: ip_text_def dec_digits(3) subnet_text_def)+

lemma command_text_tidy:
  "snd (command_text cmd) \<noteq> [] \<and> \<not> is_blank (hd (snd (command_text cmd))) \<and> \<not> is_blank (last (snd (command_text cmd)))"
  using last_dec by (cases cmd rule: command_text.cases)
    (auto simp: is_blank_def last_texts text_nonempty dec_digits(3) split: if_splits)

text \<open>The object that takes a command.\<close>

fun feature_of :: "command \<Rightarrow> feature" where
  "feature_of (Switch f b) = f"
| "feature_of (Add_black ip n) = FBlacklist"
| "feature_of (Remove_black ip n) = FBlacklist"
| "feature_of (Add_white ip n) = FWhitelist"
| "feature_of (Remove_white ip n) = FWhitelist"
| "feature_of (Add_limit ip n) = FRatelimit"
| "feature_of (Remove_limit ip) = FRatelimit"

definition object_for :: "feature \<Rightarrow> config_object \<Rightarrow> config_object \<Rightarrow> config_object \<Rightarrow> ConfigType" where
  "object_for f b w l = (case f of FBlacklist \<Rightarrow> Blacklist b | FWhitelist \<Rightarrow> Whitelist w | FRatelimit \<Rightarrow> RateLimit l)"

lemma colon_split:
  assumes "CHR '':'' \<notin> set p"
  shows "takeWhile (\<lambda>c. c \<noteq> CHR '':'') (p @ '': '' @ q) = p" "tl (dropWhile (\<lambda>c. c \<noteq> CHR '':'') (p @ '': '' @ q)) = CHR '' '' # q"
  using assms by (induction p) auto

lemma dispatch:
  "processEventMessage le K [Blacklist b, Whitelist w, RateLimit l] (message cmd) s =
     (let (r, s) = updateConfig le K (object_for (feature_of cmd) b w l) (snd (command_text cmd)) s in (Some r, s))"
proof -
  let ?n = "fst (command_text cmd)" and ?m = "snd (command_text cmd)"
  have names: "?n \<in> {''blacklist'', ''whitelist'', ''ratelimit''}" by (cases cmd rule: command_text.cases) auto
  then have "CHR '':'' \<notin> set ?n" by auto
  note cs = colon_split [OF this, of ?m]
  have "trim ?n = ?n" using names trim_tidy [of ?n] by (auto simp: is_blank_def)
  moreover have "trim (CHR '' '' # ?m) = ?m" using trim_tidy command_text_tidy by blast
  moreover have "List.find (\<lambda>c. getTypeName c = ?n) [Blacklist b, Whitelist w, RateLimit l] = Some (object_for (feature_of cmd) b w l)"
    by (cases cmd rule: command_text.cases) (auto simp: object_for_def)
  ultimately show ?thesis
    unfolding processEventMessage_def message_def cs Let_def by simp
qed

lemma limit_texts:
  "0 < n \<Longrightarrow> n < 2 ^ 32 \<Longrightarrow>
     RateLimit_updateConfig le K c (''add '' @ ip_text ip @ '' '' @ dec n) s = add_rate_limit K c (ip_word le ip) (of_nat n) s"
  "RateLimit_updateConfig le K c (''remove '' @ ip_text ip) s = remove_rate_limit K c (ip_word le ip) s"
proof -
  note words = command_words [simplified] read_word_step(3,4) [OF text_nonempty(1) text_no_space(1)]
  have num: "read_u32 (CHR '' '' # dec n) = read_u32 (dec n)" for n
    by (simp add: read_u32_def scan_dec isspace_def)
  show "RateLimit_updateConfig le K c (''remove '' @ ip_text ip) s = remove_rate_limit K c (ip_word le ip) s"
    by (simp add: words inet_pton_text RateLimit_updateConfig_def text_nonempty)
  assume n: "0 < n" "n < 2 ^ 32"
  then have "(of_nat n :: u32) \<noteq> 0" using unat_of_nat_u32 [of n] by auto
  then show "RateLimit_updateConfig le K c (''add '' @ ip_text ip @ '' '' @ dec n) s = add_rate_limit K c (ip_word le ip) (of_nat n) s"
    using n by (simp add: words inet_pton_text num read_u32_dec RateLimit_updateConfig_def text_nonempty)
qed

lemma list_texts:
  assumes "n \<le> 32"
  defines "k \<equiv> \<lambda>le ip. \<lparr>prefixlen = of_nat n, key_ip = ip_word le ip\<rparr>"
  shows "Blacklist_updateConfig le K c (''add '' @ subnet_text ip n) s = Blacklist_add_ip_subnets K c (k le ip) s"
    "Blacklist_updateConfig le K c (''remove '' @ subnet_text ip n) s = Blacklist_remove_ip_subnets K c (k le ip) s"
    "Whitelist_updateConfig le K c (''add '' @ subnet_text ip n) s = Whitelist_add_ip_subnets K c (k le ip) s"
    "Whitelist_updateConfig le K c (''remove '' @ subnet_text ip n) s = Whitelist_remove_ip_subnets K c (k le ip) s"
proof -
  note words = command_words [simplified] read_word_step(3) [OF text_nonempty(2) text_no_space(2)]
  have "parse_subnet le (subnet_text ip n) = Some (k le ip)" for le ip
    using assms(1) by (simp add: parse_subnet_text k_def)
  then show "Blacklist_updateConfig le K c (''add '' @ subnet_text ip n) s = Blacklist_add_ip_subnets K c (k le ip) s"
    "Blacklist_updateConfig le K c (''remove '' @ subnet_text ip n) s = Blacklist_remove_ip_subnets K c (k le ip) s"
    "Whitelist_updateConfig le K c (''add '' @ subnet_text ip n) s = Whitelist_add_ip_subnets K c (k le ip) s"
    "Whitelist_updateConfig le K c (''remove '' @ subnet_text ip n) s = Whitelist_remove_ip_subnets K c (k le ip) s"
    by (simp_all add: words Blacklist_updateConfig_def Whitelist_updateConfig_def text_nonempty)
qed

lemma switch_texts:
  "Blacklist_updateConfig le K c ''enabled'' s = enable_blacklist K c s"
  "Blacklist_updateConfig le K c ''disabled'' s = disable_blacklist K c s"
  "Whitelist_updateConfig le K c ''enabled'' s = enable_whitelist K c s"
  "Whitelist_updateConfig le K c ''disabled'' s = disable_whitelist K c s"
  "RateLimit_updateConfig le K c ''enabled'' s = enable_ratelimit K c s"
  "RateLimit_updateConfig le K c ''disabled'' s = disable_ratelimit K c s"
  by (simp_all add: Blacklist_updateConfig_def Whitelist_updateConfig_def RateLimit_updateConfig_def command_words)

section \<open>Updates through the kernel\<close>

text \<open>An update reports success and has its effect, or reports failure and changes nothing.\<close>

definition refined :: "('l \<Rightarrow> prefix \<rightharpoonup> u8) \<Rightarrow> (control \<Rightarrow> control) \<Rightarrow> 'l bpf_maps \<Rightarrow> bool \<times> 'l bpf_maps \<Rightarrow> bool" where
  "refined entries f s r \<longleftrightarrow> (if fst r then control_of entries (snd r) = f (control_of entries s) else snd r = s)"

context bpf_kernel_spec
begin

lemma set_config_state_refined:
  assumes "0 \<le> map_fd_config_state c"
  shows "refined entries (step le (Switch f b)) s (set_config_state K c (feature_key f) (if b then 1 else 0) s)"
proof -
  obtain r m where u: "config_update K (config_state_map s) (feature_key f) (if b then 1 else 0) BPF_ANY = (r, m)" by fastforce
  have inj: "feature_key g = feature_key f \<longleftrightarrow> g = f" for g
    by (cases g; cases f) (simp_all add: config_key_defs)
  show ?thesis
  proof (cases "r = 0")
    case True
    then have "m = (config_state_map s)(feature_key f \<mapsto> if b then 1 else 0)" using config_update_ok u by blast
    then show ?thesis using True assms u
      by (auto simp: refined_def set_config_state_def via_fd_def control_of_def is_config_enabled_def fun_eq_iff inj)
  next
    case False
    then have "m = config_state_map s" using config_update_err u by blast
    then show ?thesis using False assms u by (simp add: refined_def set_config_state_def via_fd_def)
  qed
qed

lemma prefix_of_ip: "n \<le> 32 \<Longrightarrow> prefix_of le \<lparr>prefixlen = of_nat n, key_ip = ip_word le ip\<rparr> = prefix_ip ip n"
proof -
  assume "n \<le> 32"
  then have "unat (of_nat n :: u32) = n" by (intro unat_of_nat_u32) simp
  then show ?thesis by (cases ip) (simp add: prefix_of_def prefix_ip_def ip_word_def bpf_ntohl_join32)
qed

lemma lpm_add_effect:
  assumes "n \<le> 32" "lpm_update K t \<lparr>prefixlen = of_nat n, key_ip = ip_word le ip\<rparr> 1 fl = (r, t')"
  shows "if r = 0 then dom (entries t') = insert (prefix_ip ip n) (dom (entries t)) else t' = t"
proof (cases "r = 0")
  case True
  have "unat (of_nat n :: u32) = n" using assms(1) by (intro unat_of_nat_u32) simp
  then have "entries t' = (entries t)(prefix_ip ip n \<mapsto> 1)"
    using lpm_update_ok [of t "\<lparr>prefixlen = of_nat n, key_ip = ip_word le ip\<rparr>" 1 fl t'] assms True
      prefix_of_ip [OF assms(1), of ip] by simp
  then show ?thesis using True by simp
qed (use assms lpm_update_err in auto)

lemma lpm_remove_effect:
  assumes "n \<le> 32" "lpm_delete K t \<lparr>prefixlen = of_nat n, key_ip = ip_word le ip\<rparr> = (r, t')"
  shows "if removed r then dom (entries t') = dom (entries t) - {prefix_ip ip n} else t' = t"
proof -
  let ?k = "\<lparr>prefixlen = of_nat n, key_ip = ip_word le ip\<rparr>"
  have u: "unat (prefixlen ?k) \<le> 32" using assms(1) unat_of_nat_u32 [of n] by simp
  note p = prefix_of_ip [OF assms(1), of ip]
  consider "r = 0" | "r = - ENOENT" | "\<not> removed r" by (auto simp: removed_def)
  then show ?thesis
  proof cases
    case 1
    then show ?thesis using lpm_delete_ok [of t ?k t'] u assms(2) p by (simp add: removed_def)
  next
    case 2
    then have "t' = t" "prefix_ip ip n \<notin> dom (entries t)"
      using lpm_delete_err [OF assms(2)] lpm_delete_missing [OF u, of t] assms(2) p by simp_all
    then show ?thesis using 2 by (auto simp: removed_def)
  next
    case 3
    then show ?thesis using lpm_delete_err [OF assms(2)] by (auto simp: removed_def)
  qed
qed

lemma list_commands_refined:
  fixes ip :: ip4
  assumes "n \<le> 32" "0 \<le> map_fd_entries c"
  defines "k \<equiv> \<lparr>prefixlen = of_nat n, key_ip = ip_word le ip\<rparr>"
  shows "refined entries (step le (Add_black ip n)) s (Blacklist_add_ip_subnets K c k s)"
    "refined entries (step le (Remove_black ip n)) s (Blacklist_remove_ip_subnets K c k s)"
    "refined entries (step le (Add_white ip n)) s (Whitelist_add_ip_subnets K c k s)"
    "refined entries (step le (Remove_white ip n)) s (Whitelist_remove_ip_subnets K c k s)"
proof -
  show "refined entries (step le (Add_black ip n)) s (Blacklist_add_ip_subnets K c k s)"
    using assms(2) lpm_add_effect [OF assms(1), of "blacklist_subnets_map s" ip BPF_ANY]
    by (cases "lpm_update K (blacklist_subnets_map s) k 1 BPF_ANY")
      (auto simp: k_def refined_def Blacklist_add_ip_subnets_def via_fd_def control_of_def is_config_enabled_def)
  show "refined entries (step le (Remove_black ip n)) s (Blacklist_remove_ip_subnets K c k s)"
    using assms(2) lpm_remove_effect [OF assms(1), of "blacklist_subnets_map s" ip]
    by (cases "lpm_delete K (blacklist_subnets_map s) k")
      (auto simp: k_def refined_def Blacklist_remove_ip_subnets_def via_fd_def control_of_def is_config_enabled_def)
  show "refined entries (step le (Add_white ip n)) s (Whitelist_add_ip_subnets K c k s)"
    using assms(2) lpm_add_effect [OF assms(1), of "whitelist_subnets_map s" ip BPF_ANY]
    by (cases "lpm_update K (whitelist_subnets_map s) k 1 BPF_ANY")
      (auto simp: k_def refined_def Whitelist_add_ip_subnets_def via_fd_def control_of_def is_config_enabled_def)
  show "refined entries (step le (Remove_white ip n)) s (Whitelist_remove_ip_subnets K c k s)"
    using assms(2) lpm_remove_effect [OF assms(1), of "whitelist_subnets_map s" ip]
    by (cases "lpm_delete K (whitelist_subnets_map s) k")
      (auto simp: k_def refined_def Whitelist_remove_ip_subnets_def via_fd_def control_of_def is_config_enabled_def)
qed

lemma add_rate_limit_refined:
  assumes "0 < n" "n < 2 ^ 32" "0 \<le> map_fd_entries c"
  shows "refined entries (step le (Add_limit ip n)) s (add_rate_limit K c (ip_word le ip) (of_nat n) s)"
proof -
  let ?cfg = "\<lparr>packets_per_second = of_nat n, packet_interval_ns = of_nat (1000000000 div n)\<rparr>"
  have "unat (of_nat n :: u32) = n" using assms(2) by (intro unat_of_nat_u32) simp
  then have nz: "(of_nat n :: u32) \<noteq> 0" "unat (ucast (of_nat n :: u32) :: u64) = n" using assms(1) by auto
  then have "unat ((1000000000 :: u64) div ucast (of_nat n :: u32)) = 1000000000 div n" by (simp add: unat_div)
  then have i: "(1000000000 :: u64) div ucast (of_nat n :: u32) = of_nat (1000000000 div n)" by (metis of_nat_unat ucast_id)
  obtain r m where u: "limits_update K (ip_rate_limits_map s) (ip_word le ip) ?cfg BPF_ANY = (r, m)" by fastforce
  have e: "add_rate_limit K c (ip_word le ip) (of_nat n) s = (r = 0, s\<lparr>ip_rate_limits_map := m\<rparr>)"
    using nz(1) assms(3) by (simp add: add_rate_limit_def Let_def i u via_fd_def)
  show ?thesis
  proof (cases "r = 0")
    case True
    then have "m = (ip_rate_limits_map s)(ip_word le ip \<mapsto> ?cfg)" using limits_update_ok u by blast
    then show ?thesis using True unfolding e by (simp add: refined_def control_of_def is_config_enabled_def)
  next
    case False
    then show ?thesis using limits_update_err [OF u] unfolding e by (simp add: refined_def)
  qed
qed

lemma remove_rate_limit_refined:
  assumes "0 \<le> map_fd_entries c"
  shows "refined entries (step le (Remove_limit ip)) s (remove_rate_limit K c (ip_word le ip) s)"
proof -
  let ?m = "ip_rate_limits_map s" and ?i = "ip_word le ip"
  obtain r m where u: "limits_delete K ?m ?i = (r, m)" by fastforce
  have e: "remove_rate_limit K c ?i s = (removed r, s\<lparr>ip_rate_limits_map := m\<rparr>)"
    using assms by (simp add: remove_rate_limit_def u via_fd_def)
  consider "r = 0" | "r = - ENOENT" | "\<not> removed r" by (auto simp: removed_def)
  then show ?thesis
  proof cases
    case 1
    then have "m = ?m(?i := None)" using limits_delete_ok u by blast
    then show ?thesis using 1 unfolding e by (simp add: refined_def removed_def control_of_def is_config_enabled_def)
  next
    case 2
    then have "m = ?m" "?m ?i = None" using limits_delete_err [OF u] limits_delete_missing [of ?m ?i] u by simp_all
    then show ?thesis using 2 unfolding e
      by (simp add: refined_def removed_def control_of_def is_config_enabled_def fun_upd_idem)
  next
    case 3
    then show ?thesis using limits_delete_err [OF u] unfolding e by (auto simp: refined_def removed_def)
  qed
qed

lemma command_refined:
  assumes "valid_command cmd" "0 \<le> map_fd_entries b" "0 \<le> map_fd_config_state b" "0 \<le> map_fd_entries w"
    "0 \<le> map_fd_config_state w" "0 \<le> map_fd_entries l" "0 \<le> map_fd_config_state l"
  shows "refined entries (step le cmd) s (updateConfig le K (object_for (feature_of cmd) b w l) (snd (command_text cmd)) s)"
proof -
  show ?thesis
  proof (cases cmd)
    case (Switch f on)
    then show ?thesis using set_config_state_refined [of b f on s] set_config_state_refined [of w f on s]
        set_config_state_refined [of l f on s] assms
      by (cases f; cases on) (simp_all add: object_for_def switch_texts enable_blacklist_def disable_blacklist_def
          enable_whitelist_def disable_whitelist_def enable_ratelimit_def disable_ratelimit_def)
  next
    case (Add_black ip n)
    then show ?thesis using assms list_commands_refined(1) [of n b ip s] list_texts(1) [of n le K b ip s] by (simp add: object_for_def)
  next
    case (Remove_black ip n)
    then show ?thesis using assms list_commands_refined(2) [of n b ip s] list_texts(2) [of n le K b ip s] by (simp add: object_for_def)
  next
    case (Add_white ip n)
    then show ?thesis using assms list_commands_refined(3) [of n w ip s] list_texts(3) [of n le K w ip s] by (simp add: object_for_def)
  next
    case (Remove_white ip n)
    then show ?thesis using assms list_commands_refined(4) [of n w ip s] list_texts(4) [of n le K w ip s] by (simp add: object_for_def)
  next
    case (Add_limit ip n)
    then show ?thesis using assms add_rate_limit_refined [of n l ip s] limit_texts(1) [of n le K l ip s]
      by (simp add: object_for_def)
  next
    case (Remove_limit ip)
    then show ?thesis using assms remove_rate_limit_refined [of l ip s]
      limit_texts(2) [of le K l ip s] by (simp add: object_for_def)
  qed
qed

end

section \<open>What an event leaves alone\<close>

definition untouched :: "'l bpf_maps \<Rightarrow> 'l bpf_maps \<Rightarrow> bool" where
  "untouched s s' \<longleftrightarrow> ip_stats_map s' = ip_stats_map s \<and> global_stats_map s' = global_stats_map s \<and>
     ip_timestamps_map s' = ip_timestamps_map s \<and> packet_ringbuf s' = packet_ringbuf s \<and>
     ringbuf_reserved s' = ringbuf_reserved s \<and> trace_pipe s' = trace_pipe s"

lemmas operation_defs = Blacklist_add_ip_subnets_def Blacklist_remove_ip_subnets_def Whitelist_add_ip_subnets_def
  Whitelist_remove_ip_subnets_def add_rate_limit_def remove_rate_limit_def set_config_state_def
  enable_blacklist_def disable_blacklist_def enable_whitelist_def disable_whitelist_def enable_ratelimit_def
  disable_ratelimit_def

lemmas op_simps = operation_defs via_fd_def removed_def Let_def

lemmas update_defs = Blacklist_updateConfig_def Whitelist_updateConfig_def RateLimit_updateConfig_def

lemma updateConfig_untouched: "untouched s (snd (updateConfig le K c m s))"
  by (cases c) (auto simp: untouched_def update_defs operation_defs Let_def split: option.splits prod.splits if_splits)

lemma event_cases:
  "processEventMessage le K cs line s = (None, s) \<or>
   (\<exists>c m. processEventMessage le K cs line s = (Some (fst (updateConfig le K c m s)), snd (updateConfig le K c m s)))"
  by (simp add: processEventMessage_def Let_def case_prod_unfold split: option.split) blast

text \<open>An operation that fails changes nothing.\<close>

definition atomic :: "'l bpf_maps \<Rightarrow> bool \<times> 'l bpf_maps \<Rightarrow> bool" where
  "atomic s r \<longleftrightarrow> fst r \<or> snd r = s"

context bpf_kernel_spec
begin

lemma operations_atomic:
  "atomic s (set_config_state K c k v s)"
  "atomic s (Blacklist_add_ip_subnets K c key s)"
  "atomic s (Blacklist_remove_ip_subnets K c key s)"
  "atomic s (Whitelist_add_ip_subnets K c key s)"
  "atomic s (Whitelist_remove_ip_subnets K c key s)"
  "atomic s (add_rate_limit K c ip pps s)"
  "atomic s (remove_rate_limit K c ip s)"
proof -
  show "atomic s (set_config_state K c k v s)"
    by (cases "config_update K (config_state_map s) k v BPF_ANY") (auto simp: atomic_def op_simps dest: config_update_err)
  show "atomic s (Blacklist_add_ip_subnets K c key s)"
    by (cases "lpm_update K (blacklist_subnets_map s) key 1 BPF_ANY") (auto simp: atomic_def op_simps dest: lpm_update_err)
  show "atomic s (Blacklist_remove_ip_subnets K c key s)"
    by (cases "lpm_delete K (blacklist_subnets_map s) key") (auto simp: atomic_def op_simps dest: lpm_delete_err)
  show "atomic s (Whitelist_add_ip_subnets K c key s)"
    by (cases "lpm_update K (whitelist_subnets_map s) key 1 BPF_ANY") (auto simp: atomic_def op_simps dest: lpm_update_err)
  show "atomic s (Whitelist_remove_ip_subnets K c key s)"
    by (cases "lpm_delete K (whitelist_subnets_map s) key") (auto simp: atomic_def op_simps dest: lpm_delete_err)
  show "atomic s (add_rate_limit K c ip pps s)"
    by (cases "limits_update K (ip_rate_limits_map s) ip
      \<lparr>packets_per_second = pps, packet_interval_ns = 1000000000 div ucast pps\<rparr> BPF_ANY") (auto simp: atomic_def op_simps dest: limits_update_err)
  show "atomic s (remove_rate_limit K c ip s)"
    by (cases "limits_delete K (ip_rate_limits_map s) ip") (auto simp: atomic_def op_simps dest: limits_delete_err)
qed

lemma updateConfig_atomic: "atomic s (updateConfig le K c m s)"
proof -
  have "atomic s (False, s)" by (simp add: atomic_def)
  then show ?thesis
    using operations_atomic
    by (cases c) (simp_all add: update_defs enable_blacklist_def disable_blacklist_def enable_whitelist_def
        disable_whitelist_def enable_ratelimit_def disable_ratelimit_def Let_def case_prod_unfold split: option.split)
qed

lemma event_atomic: "processEventMessage le K cs line s = (r, s') \<Longrightarrow> r \<noteq> Some True \<Longrightarrow> s' = s"
  using event_cases [of le K cs line s] updateConfig_atomic by (auto simp: atomic_def)

end

section \<open>Sequences of commands\<close>

text \<open>The commands that were carried out, in order, and the maps afterwards.\<close>

fun run_commands ::
  "bool \<Rightarrow> 'l bpf_kernel \<Rightarrow> ConfigType list \<Rightarrow> command list \<Rightarrow> 'l bpf_maps \<Rightarrow> command list \<times> 'l bpf_maps" where
  "run_commands le K cs [] s = ([], s)"
| "run_commands le K cs (cmd # cmds) s =
     (let (r, s) = processEventMessage le K cs (message cmd) s;
          (done_cmds, s) = run_commands le K cs cmds s
      in (if r = Some True then cmd # done_cmds else done_cmds, s))"

definition descriptors_ok :: "config_object \<Rightarrow> bool" where
  "descriptors_ok c \<longleftrightarrow> 0 \<le> map_fd_entries c \<and> 0 \<le> map_fd_config_state c"

lemma event_refined:
  assumes "bpf_kernel_spec le K entries" "valid_command cmd" "descriptors_ok b" "descriptors_ok w" "descriptors_ok l"
  shows "\<exists>ok s'. processEventMessage le K [Blacklist b, Whitelist w, RateLimit l] (message cmd) s = (Some ok, s') \<and>
    (if ok then control_of entries s' = step le cmd (control_of entries s) else s' = s) \<and> untouched s s'"
proof -
  define u where "u = updateConfig le K (object_for (feature_of cmd) b w l) (snd (command_text cmd)) s"
  have "refined entries (step le cmd) s u"
    using bpf_kernel_spec.command_refined [OF assms(1,2), of b w l s] assms(3-5) by (simp add: descriptors_ok_def u_def)
  moreover have "processEventMessage le K [Blacklist b, Whitelist w, RateLimit l] (message cmd) s = (Some (fst u), snd u)"
    unfolding dispatch u_def by (simp add: case_prod_unfold Let_def)
  moreover have "untouched s (snd u)" unfolding u_def by (rule updateConfig_untouched)
  ultimately show ?thesis by (auto simp: refined_def)
qed

lemma run_commands_refined:
  assumes "bpf_kernel_spec le K entries" "descriptors_ok b" "descriptors_ok w" "descriptors_ok l"
  shows "list_all valid_command cmds \<Longrightarrow>
    run_commands le K [Blacklist b, Whitelist w, RateLimit l] cmds s = (acc, s') \<Longrightarrow>
    control_of entries s' = fold (step le) acc (control_of entries s) \<and> untouched s s'"
proof (induction cmds arbitrary: s acc s')
  case Nil
  then show ?case by (simp add: untouched_def)
next
  case (Cons cmd cmds)
  let ?cs = "[Blacklist b, Whitelist w, RateLimit l]"
  obtain ok s1 where e: "processEventMessage le K ?cs (message cmd) s = (Some ok, s1)"
      "if ok then control_of entries s1 = step le cmd (control_of entries s) else s1 = s" "untouched s s1"
    using event_refined [OF assms(1) _ assms(2-4)] Cons.prems(1) by fastforce
  obtain acc1 s2 where r: "run_commands le K ?cs cmds s1 = (acc1, s2)" by fastforce
  then have "control_of entries s2 = fold (step le) acc1 (control_of entries s1) \<and> untouched s1 s2"
    using Cons.IH Cons.prems(1) by simp
  moreover have "s' = s2" "acc = (if ok then cmd # acc1 else acc1)" using Cons.prems(2) e(1) r by auto
  ultimately show ?case using e(2,3) by (cases ok) (auto simp: untouched_def)
qed

text \<open>The policy of the filter, from the control state.\<close>

definition policy_from :: "control \<Rightarrow> policy" where
  "policy_from c =
     \<lparr>pol_whitelist = (if ctl_on c FWhitelist then Some (ctl_white c) else None),
      pol_blacklist = (if ctl_on c FBlacklist then Some (ctl_black c) else None),
      pol_interval = (if ctl_on c FRatelimit then (\<lambda>i. map_option packet_interval_ns (ctl_limits c i)) else Map.empty)\<rparr>"

lemma policy_of_control: "policy_of entries s = policy_from (control_of entries s)"
  by (simp add: policy_of_def policy_from_def control_of_def)

section \<open>Properties\<close>

definition sample_object :: config_object where
  "sample_object = \<lparr>map_fd_entries = 3, map_fd_config_state = 4\<rparr>"

lemma sample_object_ok: "descriptors_ok sample_object"
  by (simp add: descriptors_ok_def sample_object_def)

text \<open>C3. Every command of the control protocol, sent as its text in an event and taken by the configuration
  objects with their descriptors open, either has exactly its effect on the abstract control state (which checks
  are on, the prefixes listed, the limits) or is reported as failed with all maps unchanged; statistics,
  timestamps and logs are never touched. The kernel is any that satisfies the laws of its maps.\<close>

theorem config_event_refines:
  assumes "bpf_kernel_spec le K entries" "valid_command cmd" "descriptors_ok b" "descriptors_ok w" "descriptors_ok l"
  shows "\<exists>ok s'. processEventMessage le K [Blacklist b, Whitelist w, RateLimit l] (message cmd) s = (Some ok, s') \<and>
    (if ok then control_of entries s' = step le cmd (control_of entries s) else s' = s) \<and> untouched s s'"
  by (rule event_refined [OF assms])

theorem config_event_refines_witness:
  "\<exists>ok s'. processEventMessage True (list_kernel True 1) [Blacklist sample_object, Whitelist sample_object, RateLimit sample_object]
      (message (Add_black (10, 0, 0, 0) 8)) empty_maps = (Some ok, s')"
  using config_event_refines [OF lk.bpf_kernel_spec_axioms [of True 1] _ sample_object_ok sample_object_ok sample_object_ok,
      of "Add_black (10, 0, 0, 0) 8" empty_maps] by fastforce

text \<open>C38. Whatever line arrives as an event, and whatever the objects and their descriptors: unless the update is
  reported as done, no map has changed.\<close>

theorem config_event_atomic:
  assumes "bpf_kernel_spec le K entries" "processEventMessage le K cs line s = (r, s')" "r \<noteq> Some True"
  shows "s' = s"
  by (rule bpf_kernel_spec.event_atomic [OF assms])

theorem config_event_atomic_witness:
  "snd (processEventMessage True (list_kernel True 1) [Blacklist new_object] ''blacklist: enabled'' empty_maps) = empty_maps"
proof -
  have "fst (processEventMessage True (list_kernel True 1) [Blacklist new_object] ''blacklist: enabled'' empty_maps) \<noteq> Some True"
    by (simp add: processEventMessage_def trim_def is_blank_def Let_def update_defs read_word_def isspace_def
        enable_blacklist_def set_config_state_def via_fd_def new_object_def case_prod_unfold)
  then show ?thesis
    using config_event_atomic [OF lk.bpf_kernel_spec_axioms [of True 1] surjective_pairing] by blast
qed

text \<open>C39. Reading back the text of a subnet gives its prefix length and the address in network order; the
  length is first cut to 32 bits, so that any length that is at most 32 modulo \<open>2\<^sup>3\<^sup>2\<close> is accepted (a length of
  4294967296 is taken as 0).\<close>

theorem parse_subnet_roundtrip:
  assumes "n < 2 ^ 64"
  shows "parse_subnet le (subnet_text ip n) =
     (if n mod 2 ^ 32 \<le> 32 then Some \<lparr>prefixlen = of_nat n, key_ip = ip_word le ip\<rparr> else None)"
  by (rule parse_subnet_text [OF assms])

theorem parse_subnet_roundtrip_witness:
  "parse_subnet True (subnet_text (10, 0, 0, 0) 4294967296) = Some \<lparr>prefixlen = 0, key_ip = 10\<rparr>"
  using parse_subnet_roundtrip [of 4294967296 True "(10, 0, 0, 0)"] by (simp add: ip_word_def join32_def)

text \<open>A rate limit above a thousand million packets per second is accepted and stored with an interval of
  0 ns, and the filter then never drops a packet of that address for exceeding it.\<close>

theorem ratelimit_huge_unlimited:
  assumes "bpf_kernel_spec le K entries" "1000000000 < n" "n < 2 ^ 32"
    and "descriptors_ok b" "descriptors_ok w" "descriptors_ok l"
    and "processEventMessage le K [Blacklist b, Whitelist w, RateLimit l] (message (Add_limit ip n)) s = (Some True, s')"
  shows "rate_limit_check K now (ip_word le ip) s' \<noteq> None"
proof -
  have "control_of entries s' = step le (Add_limit ip n) (control_of entries s)"
    using event_refined [OF assms(1) _ assms(4-6), of "Add_limit ip n" s] assms(2,3,7) by auto
  then have "ip_rate_limits_map s' (ip_word le ip) = Some \<lparr>packets_per_second = of_nat n, packet_interval_ns = 0\<rparr>"
    using assms(2) by (simp add: control_of_def)
  then show ?thesis by (simp add: rate_limit_check_None)
qed

theorem ratelimit_huge_unlimited_witness:
  "rate_limit_check (list_kernel True 1) 7 (ip_word True (10, 0, 0, 1))
     (snd (processEventMessage True (list_kernel True 1) [Blacklist sample_object, Whitelist sample_object, RateLimit sample_object]
        (message (Add_limit (10, 0, 0, 1) 2000000000)) empty_maps)) \<noteq> None"
proof -
  let ?e = "processEventMessage True (list_kernel True 1) [Blacklist sample_object, Whitelist sample_object, RateLimit sample_object]
    (message (Add_limit (10, 0, 0, 1) 2000000000)) empty_maps"
  have "fst ?e = Some True"
    unfolding dispatch using limit_texts(1) [of 2000000000 True "list_kernel True 1" sample_object "(10, 0, 0, 1)" empty_maps]
    by (simp add: object_for_def add_rate_limit_def via_fd_def sample_object_def list_kernel_def map_update_any_def Let_def)
  then have "?e = (Some True, snd ?e)" by (metis surjective_pairing)
  then show ?thesis
    by (intro ratelimit_huge_unlimited [OF lk.bpf_kernel_spec_axioms [of True 1] _ _ sample_object_ok sample_object_ok sample_object_ok])
      simp_all
qed

end
