(* ===== verification/Event_Source.thy ===== *)
theory Event_Source
  imports Config
begin

text \<open>
  The source of configuration events, \<open>src/config/FileEventSource.cpp\<close>, and the listener of
  \<open>ConfigManager\<close> that owns it. The state of the object is its descriptors and whether it runs; the calls it
  makes to the kernel are collected in a log, their results are arguments. The listener thread is the sequence of
  what \<open>poll\<close> and the file give it.
\<close>

datatype os_call = Inotify_init int | Add_watch int int | Rm_watch int int | Eventfd int | Close int | Write_event int | Join

record FileEventSource =
  m_isRunning :: bool
  has_callback :: bool
  m_inotifyFd :: int
  m_watchFd :: int
  m_eventFd :: int

definition new_source :: FileEventSource where
  "new_source = \<lparr>m_isRunning = False, has_callback = False, m_inotifyFd = - 1, m_watchFd = - 1, m_eventFd = - 1\<rparr>"

definition setCallback :: "FileEventSource \<Rightarrow> FileEventSource" where
  "setCallback o' = o'\<lparr>has_callback := True\<rparr>"

text \<open>\<open>ino\<close>, \<open>wd\<close> and \<open>ev\<close> are the results of \<open>inotify_init1\<close>, \<open>inotify_add_watch\<close> and \<open>eventfd\<close>.\<close>

definition start :: "int \<Rightarrow> int \<Rightarrow> int \<Rightarrow> FileEventSource \<Rightarrow> bool \<times> FileEventSource \<times> os_call list" where
  "start ino wd ev o' =
     (if m_isRunning o' then (True, o', [])
      else if \<not> has_callback o' then (False, o', [])
      else
        let o' = o'\<lparr>m_inotifyFd := ino\<rparr> in
        if ino < 0 then (False, o', [Inotify_init ino])
        else
          let o' = o'\<lparr>m_watchFd := wd\<rparr> in
          if wd < 0 then (False, o'\<lparr>m_inotifyFd := - 1\<rparr>, [Inotify_init ino, Add_watch ino wd, Close ino])
          else
            let o' = o'\<lparr>m_eventFd := ev\<rparr> in
            if ev < 0 then (False, o', [Inotify_init ino, Add_watch ino wd, Eventfd ev, Rm_watch ino wd, Close ino])
            else (True, o'\<lparr>m_isRunning := True\<rparr>, [Inotify_init ino, Add_watch ino wd, Eventfd ev]))"

definition stop :: "FileEventSource \<Rightarrow> FileEventSource \<times> os_call list" where
  "stop o' =
     (if \<not> m_isRunning o' then (o', [])
      else (o'\<lparr>m_isRunning := False\<rparr>, (if 0 \<le> m_eventFd o' then [Write_event (m_eventFd o')] else []) @ [Join]))"

text \<open>The destructor.\<close>

definition destroy :: "FileEventSource \<Rightarrow> os_call list" where
  "destroy o' =
     (let (o', log) = stop o' in
      log @
      (if 0 \<le> m_inotifyFd o' then
         (if 0 \<le> m_watchFd o' then [Rm_watch (m_inotifyFd o') (m_watchFd o')] else []) @ [Close (m_inotifyFd o')]
       else []) @
      (if 0 \<le> m_eventFd o' then [Close (m_eventFd o')] else []))"

text \<open>
  One round of the listener thread: the result of \<open>poll\<close>, which descriptors are ready, the length that
  \<open>read\<close> returns, and the content of the file when it can be opened.
\<close>

record poll_round =
  poll_ret :: int
  stop_ready :: bool
  file_ready :: bool
  read_len :: int
  content :: "string option"

text \<open>The lines handed to the callback: the first line of the file at each change.\<close>

fun run :: "poll_round list \<Rightarrow> string list" where
  "run [] = []"
| "run (p # ps) =
     (if poll_ret p < 0 then run ps
      else if stop_ready p then []
      else if file_ready p then
        (if read_len p < 0 then run ps
         else (case content p of
                 None \<Rightarrow> run ps
               | Some txt \<Rightarrow>
                   (case getlines txt of
                      [] \<Rightarrow> run ps
                    | line # ls \<Rightarrow> if line \<noteq> [] then line # run ps else run ps)))
      else run ps)"

section \<open>The listener of the manager\<close>

text \<open>\<open>m_eventSource\<close> is \<open>None\<close> when there is no source; a source that does not start is destroyed.\<close>

definition startEventListener ::
  "int \<Rightarrow> int \<Rightarrow> int \<Rightarrow> FileEventSource option \<Rightarrow> FileEventSource option \<times> os_call list" where
  "startEventListener ino wd ev src =
     (case src of
        Some o' \<Rightarrow> (Some o', [])
      | None \<Rightarrow>
          (case start ino wd ev (setCallback new_source) of
             (True, o', log) \<Rightarrow> (Some o', log)
           | (False, o', log) \<Rightarrow> (None, log @ destroy o')))"

definition stopEventListener :: "FileEventSource option \<Rightarrow> FileEventSource option \<times> os_call list" where
  "stopEventListener src =
     (case src of
        None \<Rightarrow> (None, [])
      | Some o' \<Rightarrow> (let (o', log) = stop o' in (None, log @ destroy o')))"

text \<open>The lines of a run, processed by the manager one after the other.\<close>

definition listen :: "bool \<Rightarrow> 'l bpf_kernel \<Rightarrow> ConfigType list \<Rightarrow> poll_round list \<Rightarrow> 'l bpf_maps \<Rightarrow> 'l bpf_maps" where
  "listen le K cs ps s = fold (\<lambda>line s. snd (processEventMessage le K cs line s)) (run ps) s"

definition closes :: "int \<Rightarrow> os_call list \<Rightarrow> nat" where
  "closes fd log = count_list log (Close fd)"

section \<open>Properties\<close>

text \<open>C40. From a manager with no listener, starting and stopping it closes every descriptor the source was given
  exactly once, with one exception: when \<open>eventfd\<close> fails, the inotify descriptor is closed by \<open>start\<close> and
  again by the destructor, because \<open>start\<close> keeps its number.\<close>

theorem listener_closes:
  assumes "0 \<le> ino" "ino \<noteq> ev"
  shows "let (src, log) = startEventListener ino wd ev None; (src', log') = stopEventListener src
    in src' = None \<and> closes ino (log @ log') = (if 0 \<le> wd \<and> ev < 0 then 2 else 1) \<and>
       closes ev (log @ log') = (if 0 \<le> wd \<and> 0 \<le> ev then 1 else 0)"
  using assms by (auto simp: startEventListener_def stopEventListener_def start_def stop_def destroy_def setCallback_def
      new_source_def closes_def Let_def)

theorem listener_closes_witness:
  "closes 5 (snd (startEventListener 5 1 (- 1) None)) = 2"
  using listener_closes [of 5 "- 1" 1]
  by (simp add: startEventListener_def start_def setCallback_def new_source_def destroy_def stop_def closes_def
      stopEventListener_def Let_def)

end
