(* ===== verification/Ringbuf.thy ===== *)
theory Ringbuf
  imports Prelude
begin

text \<open>
  The ring-buffer library of libbpf, \<open>libbpf/src/ringbuf.c\<close>: the consumer that
  \<open>AccessLogWriter\<close> polls for log records (set-up, consumption, teardown) and the
  user-space producer (reserve, commit).
  The shared memory is seen through its loads: the producer position and the record headers
  that each load returns are an argument (\<open>ring_env\<close>), since the kernel writes them
  concurrently. Kernel calls and allocations are the record \<open>rb_os\<close>.
\<close>

section \<open>Constants and structures\<close>

definition BPF_RINGBUF_BUSY_BIT :: u32 where "BPF_RINGBUF_BUSY_BIT = 0x80000000"
definition BPF_RINGBUF_DISCARD_BIT :: u32 where "BPF_RINGBUF_DISCARD_BIT = 0x40000000"
definition BPF_RINGBUF_HDR_SZ :: u32 where "BPF_RINGBUF_HDR_SZ = 8"
definition INT_MAX :: int where "INT_MAX = 2147483647"
definition BPF_MAP_TYPE_RINGBUF :: u32 where "BPF_MAP_TYPE_RINGBUF = 27"
definition BPF_MAP_TYPE_USER_RINGBUF :: u32 where "BPF_MAP_TYPE_USER_RINGBUF = 31"

lemmas ringbuf_bits = BPF_RINGBUF_BUSY_BIT_def BPF_RINGBUF_DISCARD_BIT_def BPF_RINGBUF_HDR_SZ_def

text \<open>
  \<open>r_consumer_pos\<close> is the value in the consumer page; \<open>r_consumer_page\<close> and
  \<open>r_producer_page\<close> are the addresses of the two mappings, \<open>None\<close> when null. The
  callback takes its context, the offset of the sample in the data area and its length.
\<close>

record 'c ring =
  r_sample_cb :: "'c \<Rightarrow> u64 \<Rightarrow> u64 \<Rightarrow> int \<times> 'c"
  r_ctx :: 'c
  r_data :: u64
  r_consumer_page :: "u64 option"
  r_producer_page :: "u64 option"
  r_consumer_pos :: u64
  r_mask :: u64
  r_map_fd :: int

record 'c ring_buffer =
  rb_events :: "nat list"
  rb_rings :: "'c ring list"
  rb_page_size :: u64
  rb_epoll_fd :: int

record user_ring_buffer =
  urb_consumer_page :: "u64 option"
  urb_producer_page :: "u64 option"
  urb_data :: u64
  urb_mask :: u64
  urb_page_size :: u64
  urb_map_fd :: int
  urb_epoll_fd :: int

text \<open>What the loads of one call return: the producer position and the record lengths.\<close>

record ring_env =
  env_producer_pos :: "nat \<Rightarrow> u64"
  env_len :: "nat \<Rightarrow> u64 \<Rightarrow> u32"

record map_info =
  info_type :: u32
  info_max_entries :: u32

text \<open>Kernel calls (\<open>Inl\<close> carries \<open>errno\<close>) and the outcome of each allocation.\<close>

record rb_os =
  os_map_info :: "int \<Rightarrow> int + map_info"
  os_alloc :: "nat \<Rightarrow> bool"
  os_mmap :: "int \<Rightarrow> u64 \<Rightarrow> u64 \<Rightarrow> int + u64"
  os_epoll_ctl_add :: "int \<Rightarrow> int \<Rightarrow> int"
  os_epoll_create1 :: "int + int"
  os_pagesize :: u64

text \<open>The mappings and descriptors the process holds.\<close>

record resources =
  res_maps :: "(u64 \<times> u64) list"
  res_fds :: "int list"

definition munmap :: "u64 \<Rightarrow> u64 \<Rightarrow> resources \<Rightarrow> resources" where
  "munmap a sz rs = rs\<lparr>res_maps := remove1 (a, sz) (res_maps rs)\<rparr>"

definition add_map :: "u64 \<Rightarrow> u64 \<Rightarrow> resources \<Rightarrow> resources" where
  "add_map a sz rs = rs\<lparr>res_maps := (a, sz) # res_maps rs\<rparr>"

definition close_fd :: "int \<Rightarrow> resources \<Rightarrow> resources" where
  "close_fd fd rs = rs\<lparr>res_fds := remove1 fd (res_fds rs)\<rparr>"

section \<open>Set-up and teardown of the consumer\<close>

definition ringbuf_free_ring :: "u64 \<Rightarrow> 'c ring \<Rightarrow> resources \<Rightarrow> resources" where
  "ringbuf_free_ring page_size r rs =
     (let rs1 = (case r_consumer_page r of None \<Rightarrow> rs | Some a \<Rightarrow> munmap a page_size rs)
      in case r_producer_page r of None \<Rightarrow> rs1
         | Some a \<Rightarrow> munmap a (page_size + 2 * (r_mask r + 1)) rs1)"

definition ring_buffer__add ::
  "rb_os \<Rightarrow> 'c ring_buffer \<Rightarrow> int \<Rightarrow> ('c \<Rightarrow> u64 \<Rightarrow> u64 \<Rightarrow> int \<times> 'c) \<Rightarrow> 'c \<Rightarrow> u64 \<Rightarrow> resources \<Rightarrow>
   int \<times> 'c ring_buffer \<times> resources" where
  "ring_buffer__add os rb map_fd sample_cb ctx cons0 rs =
     (case os_map_info os map_fd of
        Inl e \<Rightarrow> (- e, rb, rs)
      | Inr info \<Rightarrow>
          if info_type info \<noteq> BPF_MAP_TYPE_RINGBUF then (- EINVAL, rb, rs)
          else if \<not> os_alloc os 0 \<or> \<not> os_alloc os 1 \<or> \<not> os_alloc os 2 then (- ENOMEM, rb, rs)
          else
            let r = \<lparr>r_sample_cb = sample_cb, r_ctx = ctx, r_data = 0, r_consumer_page = None,
                     r_producer_page = None, r_consumer_pos = cons0,
                     r_mask = ucast (info_max_entries info - 1), r_map_fd = map_fd\<rparr>
            in case os_mmap os map_fd (rb_page_size rb) 0 of
                 Inl e \<Rightarrow> (- e, rb, ringbuf_free_ring (rb_page_size rb) r rs)
               | Inr cpage \<Rightarrow>
                   let r = r\<lparr>r_consumer_page := Some cpage\<rparr>;
                       rs = add_map cpage (rb_page_size rb) rs;
                       mmap_sz = rb_page_size rb + 2 * ucast (info_max_entries info)
                   in case os_mmap os map_fd mmap_sz (rb_page_size rb) of
                        Inl e \<Rightarrow> (- e, rb, ringbuf_free_ring (rb_page_size rb) r rs)
                      | Inr ppage \<Rightarrow>
                          let r = r\<lparr>r_producer_page := Some ppage, r_data := ppage + rb_page_size rb\<rparr>;
                              rs = add_map ppage mmap_sz rs;
                              e = os_epoll_ctl_add os (rb_epoll_fd rb) map_fd
                          in if e \<noteq> 0 then (- e, rb, ringbuf_free_ring (rb_page_size rb) r rs)
                             else (0, rb\<lparr>rb_events := rb_events rb @ [length (rb_rings rb)],
                                         rb_rings := rb_rings rb @ [r]\<rparr>, rs))"

definition ring_buffer__free :: "'c ring_buffer option \<Rightarrow> resources \<Rightarrow> resources" where
  "ring_buffer__free rbo rs =
     (case rbo of None \<Rightarrow> rs
      | Some rb \<Rightarrow>
          let rs1 = fold (ringbuf_free_ring (rb_page_size rb)) (rb_rings rb) rs
          in if rb_epoll_fd rb \<ge> 0 then close_fd (rb_epoll_fd rb) rs1 else rs1)"

text \<open>\<open>Inl\<close> is a null result with \<open>errno\<close>; the options are valid or not (\<open>OPTS_VALID\<close>).\<close>

definition ring_buffer__new ::
  "rb_os \<Rightarrow> bool \<Rightarrow> bool \<Rightarrow> int \<Rightarrow> ('c \<Rightarrow> u64 \<Rightarrow> u64 \<Rightarrow> int \<times> 'c) \<Rightarrow> 'c \<Rightarrow> u64 \<Rightarrow> resources \<Rightarrow>
   (int + 'c ring_buffer) \<times> resources" where
  "ring_buffer__new os opts_valid calloc_ok map_fd sample_cb ctx cons0 rs =
     (if \<not> opts_valid then (Inl EINVAL, rs)
      else if \<not> calloc_ok then (Inl ENOMEM, rs)
      else
        let rb = \<lparr>rb_events = [], rb_rings = [], rb_page_size = os_pagesize os, rb_epoll_fd = -1\<rparr>
        in case os_epoll_create1 os of
             Inl e \<Rightarrow> (Inl e, ring_buffer__free (Some rb) rs)
           | Inr fd \<Rightarrow>
               let rb = rb\<lparr>rb_epoll_fd := fd\<rparr>;
                   rs = rs\<lparr>res_fds := fd # res_fds rs\<rparr>;
                   (err, rb, rs) = ring_buffer__add os rb map_fd sample_cb ctx cons0 rs
               in if err \<noteq> 0 then (Inl (- err), ring_buffer__free (Some rb) rs)
                  else (Inr rb, rs))"

section \<open>Consumption\<close>

text \<open>Shifts drop the two flag bits; the result is the size of header and sample, in 8s.\<close>

definition roundup_len :: "u32 \<Rightarrow> u32" where
  "roundup_len len =
     (let len = drop_bit 2 (push_bit 2 len);
          len = len + BPF_RINGBUF_HDR_SZ
      in (len + 7) div 8 * 8)"

definition is_busy :: "u32 \<Rightarrow> bool" where
  "is_busy len \<longleftrightarrow> len AND BPF_RINGBUF_BUSY_BIT \<noteq> 0"

definition is_discarded :: "u32 \<Rightarrow> bool" where
  "is_discarded len \<longleftrightarrow> len AND BPF_RINGBUF_DISCARD_BIT \<noteq> 0"

text \<open>
  The inner loop stops at the producer position (\<open>Inner_end\<close>), at a busy record or after
  \<open>n\<close> records (\<open>Inner_done\<close>), or with the error of the callback. Each result carries
  the local position, whether new data was seen, the number of records, and the ring.
\<close>

datatype 'c inner =
    Inner_end u64 bool u64 nat "'c ring"
  | Inner_done u64 "'c ring"
  | Inner_err int "'c ring"

fun process_inner :: "nat \<Rightarrow> ring_env \<Rightarrow> u64 \<Rightarrow> u64 \<Rightarrow> u64 \<Rightarrow> bool \<Rightarrow> u64 \<Rightarrow> nat \<Rightarrow> 'c ring \<Rightarrow> 'c inner option" where
  "process_inner 0 env n prod_pos cons_pos got_new_data cnt k r = None"
| "process_inner (Suc fuel) env n prod_pos cons_pos got_new_data cnt k r =
     (if cons_pos < prod_pos then
        let off = cons_pos AND r_mask r;
            len = env_len env k off
        in if is_busy len then Some (Inner_done cnt r)
           else
             let cons_pos = cons_pos + ucast (roundup_len len)
             in if \<not> is_discarded len then
                  let (err, ctx) = r_sample_cb r (r_ctx r) (off + 8) (ucast len);
                      r = r\<lparr>r_ctx := ctx, r_consumer_pos := cons_pos\<rparr>
                  in if err < 0 then Some (Inner_err err r)
                     else if cnt + 1 \<ge> n then Some (Inner_done (cnt + 1) r)
                     else process_inner fuel env n prod_pos cons_pos True (cnt + 1) (Suc k) r
                else
                  let r = r\<lparr>r_consumer_pos := cons_pos\<rparr>
                  in if cnt \<ge> n then Some (Inner_done cnt r)
                     else process_inner fuel env n prod_pos cons_pos True cnt (Suc k) r
      else Some (Inner_end cons_pos got_new_data cnt k r))"

fun process_outer :: "nat \<Rightarrow> ring_env \<Rightarrow> u64 \<Rightarrow> u64 \<Rightarrow> u64 \<Rightarrow> nat \<Rightarrow> nat \<Rightarrow> 'c ring \<Rightarrow> (int \<times> 'c ring) option" where
  "process_outer 0 env n cons_pos cnt i k r = None"
| "process_outer (Suc fuel) env n cons_pos cnt i k r =
     (case process_inner fuel env n (env_producer_pos env i) cons_pos False cnt k r of
        None \<Rightarrow> None
      | Some (Inner_done cnt r) \<Rightarrow> Some (int (unat cnt), r)
      | Some (Inner_err err r) \<Rightarrow> Some (err, r)
      | Some (Inner_end cons_pos got_new_data cnt k r) \<Rightarrow>
          if got_new_data then process_outer fuel env n cons_pos cnt (Suc i) k r
          else Some (int (unat cnt), r))"

definition ringbuf_process_ring :: "nat \<Rightarrow> ring_env \<Rightarrow> 'c ring \<Rightarrow> u64 \<Rightarrow> (int \<times> 'c ring) option" where
  "ringbuf_process_ring fuel env r n = process_outer fuel env n (r_consumer_pos r) 0 0 0 r"

fun consume_n_loop :: "nat \<Rightarrow> (nat \<Rightarrow> ring_env) \<Rightarrow> nat \<Rightarrow> int \<Rightarrow> u64 \<Rightarrow> 'c ring list \<Rightarrow> 'c ring list \<Rightarrow>
    (int \<times> 'c ring list) option" where
  "consume_n_loop fuel envs i res n done [] = Some (if res > INT_MAX then INT_MAX else res, done)"
| "consume_n_loop fuel envs i res n done (r # rest) =
     (case ringbuf_process_ring fuel (envs i) r n of
        None \<Rightarrow> None
      | Some (err, r) \<Rightarrow>
          if err < 0 then Some (err, done @ r # rest)
          else if n - of_int err = 0
          then Some (if res + err > INT_MAX then INT_MAX else res + err, done @ r # rest)
          else consume_n_loop fuel envs (Suc i) (res + err) (n - of_int err) (done @ [r]) rest)"

definition ring_buffer__consume_n :: "nat \<Rightarrow> (nat \<Rightarrow> ring_env) \<Rightarrow> 'c ring_buffer \<Rightarrow> u64 \<Rightarrow>
    (int \<times> 'c ring_buffer) option" where
  "ring_buffer__consume_n fuel envs rb n =
     map_option (\<lambda>(res, rings). (res, rb\<lparr>rb_rings := rings\<rparr>))
       (consume_n_loop fuel envs 0 0 n [] (rb_rings rb))"

fun consume_loop :: "nat \<Rightarrow> (nat \<Rightarrow> ring_env) \<Rightarrow> nat \<Rightarrow> int \<Rightarrow> 'c ring list \<Rightarrow> 'c ring list \<Rightarrow>
    (int \<times> 'c ring list) option" where
  "consume_loop fuel envs i res done [] = Some (res, done)"
| "consume_loop fuel envs i res done (r # rest) =
     (case ringbuf_process_ring fuel (envs i) r (of_int INT_MAX) of
        None \<Rightarrow> None
      | Some (err, r) \<Rightarrow>
          if err < 0 then Some (err, done @ r # rest)
          else if res + err > INT_MAX then Some (INT_MAX, done @ r # rest)
          else consume_loop fuel envs (Suc i) (res + err) (done @ [r]) rest)"

definition ring_buffer__consume :: "nat \<Rightarrow> (nat \<Rightarrow> ring_env) \<Rightarrow> 'c ring_buffer \<Rightarrow>
    (int \<times> 'c ring_buffer) option" where
  "ring_buffer__consume fuel envs rb =
     map_option (\<lambda>(res, rings). (res, rb\<lparr>rb_rings := rings\<rparr>))
       (consume_loop fuel envs 0 0 [] (rb_rings rb))"

text \<open>
  Polling: \<open>epoll_wait\<close> returns the ids of the rings that are ready, or an error number.
  A ring id outside the array of rings is an invalid access, \<open>None\<close>.
\<close>

fun poll_loop :: "nat \<Rightarrow> (nat \<Rightarrow> ring_env) \<Rightarrow> int \<Rightarrow> nat list \<Rightarrow> 'c ring list \<Rightarrow> (int \<times> 'c ring list) option" where
  "poll_loop fuel envs res [] rings = Some (if res > INT_MAX then INT_MAX else res, rings)"
| "poll_loop fuel envs res (ring_id # ids) rings =
     (if ring_id \<ge> length rings then None
      else case ringbuf_process_ring fuel (envs ring_id) (rings ! ring_id) (of_int INT_MAX) of
        None \<Rightarrow> None
      | Some (err, r) \<Rightarrow>
          if err < 0 then Some (err, rings[ring_id := r])
          else poll_loop fuel envs (res + err) ids (rings[ring_id := r]))"

definition ring_buffer__poll :: "nat \<Rightarrow> (nat \<Rightarrow> ring_env) \<Rightarrow> int + nat list \<Rightarrow> 'c ring_buffer \<Rightarrow>
    (int \<times> 'c ring_buffer) option" where
  "ring_buffer__poll fuel envs ready rb =
     (case ready of
        Inl e \<Rightarrow> Some (- e, rb)
      | Inr ids \<Rightarrow>
          map_option (\<lambda>(res, rings). (res, rb\<lparr>rb_rings := rings\<rparr>))
            (poll_loop fuel envs 0 ids (rb_rings rb)))"

definition ring_buffer__epoll_fd :: "'c ring_buffer \<Rightarrow> int" where
  "ring_buffer__epoll_fd rb = rb_epoll_fd rb"

definition ring_buffer__ring :: "'c ring_buffer \<Rightarrow> nat \<Rightarrow> int + 'c ring" where
  "ring_buffer__ring rb idx =
     (if idx \<ge> length (rb_rings rb) then Inl ERANGE else Inr (rb_rings rb ! idx))"

definition ring__consumer_pos :: "'c ring \<Rightarrow> u64" where
  "ring__consumer_pos r = r_consumer_pos r"

definition ring__producer_pos :: "ring_env \<Rightarrow> 'c ring \<Rightarrow> u64" where
  "ring__producer_pos env r = env_producer_pos env 0"

definition ring__avail_data_size :: "ring_env \<Rightarrow> 'c ring \<Rightarrow> u64" where
  "ring__avail_data_size env r = ring__producer_pos env r - ring__consumer_pos r"

definition ring__size :: "'c ring \<Rightarrow> u64" where
  "ring__size r = r_mask r + 1"

definition ring__map_fd :: "'c ring \<Rightarrow> int" where
  "ring__map_fd r = r_map_fd r"

definition ring__consume_n :: "nat \<Rightarrow> ring_env \<Rightarrow> 'c ring \<Rightarrow> u64 \<Rightarrow> (int \<times> 'c ring) option" where
  "ring__consume_n fuel env r n =
     map_option (\<lambda>(res, r). (if res < 0 then res else if res > INT_MAX then INT_MAX else res, r))
       (ringbuf_process_ring fuel env r n)"

definition ring__consume :: "nat \<Rightarrow> ring_env \<Rightarrow> 'c ring \<Rightarrow> (int \<times> 'c ring) option" where
  "ring__consume fuel env r = ring__consume_n fuel env r (of_int INT_MAX)"

section \<open>Reference: consuming a list of records\<close>

text \<open>
  \<open>drain\<close> is the meaning of consuming a list of record headers: stop at a busy record, skip
  discarded ones, hand every other one to the callback in order, stop after \<open>n\<close>. It
  returns whether the list was exhausted, the result, the position after the last record it
  consumed, and the callback's context.
\<close>

fun drain :: "('c \<Rightarrow> u64 \<Rightarrow> u64 \<Rightarrow> int \<times> 'c) \<Rightarrow> u64 \<Rightarrow> u64 \<Rightarrow> u32 list \<Rightarrow> u64 \<Rightarrow> u64 \<Rightarrow> 'c \<Rightarrow>
    bool \<times> int \<times> u64 \<times> 'c" where
  "drain cb msk n [] pos cnt ctx = (True, int (unat cnt), pos, ctx)"
| "drain cb msk n (h # hs) pos cnt ctx =
     (if is_busy h then (False, int (unat cnt), pos, ctx)
      else
        let pos' = pos + ucast (roundup_len h)
        in if is_discarded h then
             (if n \<le> cnt then (False, int (unat cnt), pos', ctx) else drain cb msk n hs pos' cnt ctx)
           else
             let (err, ctx') = cb ctx ((pos AND msk) + 8) (ucast h)
             in if err < 0 then (False, err, pos', ctx')
                else if n \<le> cnt + 1 then (False, int (unat (cnt + 1)), pos', ctx')
                else drain cb msk n hs pos' (cnt + 1) ctx')"

text \<open>The records from a position on: where they end, and that the loads return them.\<close>

fun ring_end :: "u32 list \<Rightarrow> u64 \<Rightarrow> u64" where
  "ring_end [] pos = pos"
| "ring_end (h # hs) pos = ring_end hs (pos + ucast (roundup_len h))"

fun ring_layout :: "ring_env \<Rightarrow> u64 \<Rightarrow> nat \<Rightarrow> u64 \<Rightarrow> u32 list \<Rightarrow> bool" where
  "ring_layout env msk k pos [] = True"
| "ring_layout env msk k pos (h # hs) \<longleftrightarrow>
     env_len env k (pos AND msk) = h \<and>
     ring_layout env msk (Suc k) (pos + ucast (roundup_len h)) hs"

definition ring_bytes :: "u32 list \<Rightarrow> nat" where
  "ring_bytes hs = sum_list (map (unat \<circ> roundup_len) hs)"

text \<open>The kernel published exactly the records \<open>hs\<close>, and positions do not wrap around.\<close>

definition published :: "ring_env \<Rightarrow> 'c ring \<Rightarrow> u32 list \<Rightarrow> bool" where
  "published env r hs \<longleftrightarrow>
     ring_layout env (r_mask r) 0 (r_consumer_pos r) hs \<and>
     (\<forall>i. env_producer_pos env i = ring_end hs (r_consumer_pos r)) \<and>
     unat (r_consumer_pos r) + ring_bytes hs < 2 ^ 64"

section \<open>Consuming a ring is consuming its records\<close>

lemma strip_flags: "drop_bit 2 (push_bit 2 (len :: u32)) = len AND 0x3FFFFFFF"
proof -
  have "(0x3FFFFFFF :: u32) = mask 30" by (simp add: mask_eq_exp_minus_1)
  then have "len AND 0x3FFFFFFF = take_bit 30 len" by (simp add: take_bit_eq_mask)
  moreover have "drop_bit 2 (push_bit 2 len) = take_bit 30 len"
    by (rule bit_word_eqI) (auto simp: bit_simps)
  ultimately show ?thesis by simp
qed

lemma unat_strip_flags: "unat (len AND (0x3FFFFFFF :: u32)) < 2 ^ 30"
proof -
  have "len AND 0x3FFFFFFF \<le> (0x3FFFFFFF :: u32)" by (rule word_and_le1)
  then show ?thesis by (simp add: word_le_nat_alt)
qed

text \<open>The size of a record: the header and the sample, rounded up to a multiple of eight.\<close>

lemma unat_roundup_len:
  "unat (roundup_len len) = (unat (len AND 0x3FFFFFFF) + 15) div 8 * 8"
proof -
  let ?l = "len AND 0x3FFFFFFF"
  have *: "unat ?l < 1073741824" using unat_strip_flags [of len] by simp
  have "unat (?l + 15) = unat ?l + 15"
    using * by (simp add: unat_word_ariths)
  moreover have "(unat ?l + 15) div 8 * 8 < 4294967296"
    using * div_times_less_eq_dividend [of "unat ?l + 15" 8] by linarith
  ultimately show ?thesis
    by (simp add: roundup_len_def Let_def strip_flags BPF_RINGBUF_HDR_SZ_def add.assoc
        unat_word_ariths unat_div)
qed

lemma roundup_len_pos: "8 \<le> unat (roundup_len len)"
  unfolding unat_roundup_len by linarith

lemma unat_ring_end:
  "unat pos + ring_bytes hs < 2 ^ 64 \<Longrightarrow> unat (ring_end hs pos) = unat pos + ring_bytes hs"
proof (induction hs arbitrary: pos)
  case Nil
  then show ?case by (simp add: ring_bytes_def)
next
  case (Cons h hs)
  then have "unat pos + unat (roundup_len h) < 2 ^ 64" by (simp add: ring_bytes_def)
  then have "unat (pos + ucast (roundup_len h)) = unat pos + unat (roundup_len h)"
    by (simp add: unat_word_ariths)
  with Cons show ?case by (simp add: ring_bytes_def add.assoc)
qed

lemma pos_less_ring_end:
  assumes "unat pos + ring_bytes (h # hs) < 2 ^ 64"
  shows "pos < ring_end (h # hs) pos"
proof -
  have "0 < ring_bytes (h # hs)" using roundup_len_pos [of h] by (simp add: ring_bytes_def)
  then show ?thesis using unat_ring_end [OF assms] by (simp add: word_less_nat_alt del: ring_end.simps)
qed

lemma of_int_unat [simp]: "of_int (int (unat (w :: 'a::len word))) = w"
  by simp

definition inner_of_drain :: "nat \<Rightarrow> bool \<Rightarrow> 'c ring \<Rightarrow> bool \<times> int \<times> u64 \<times> 'c \<Rightarrow> 'c inner" where
  "inner_of_drain k got r d =
     (case d of (exhausted, res, pos, ctx) \<Rightarrow>
        let r' = r\<lparr>r_ctx := ctx, r_consumer_pos := pos\<rparr>
        in if exhausted then Inner_end pos got (of_int res) k r'
           else if res < 0 then Inner_err res r' else Inner_done (of_int res) r')"

lemma process_inner_drain:
  assumes "length hs < fuel" and "ring_layout env (r_mask r) k pos hs"
    and "prod_pos = ring_end hs pos" and "unat pos + ring_bytes hs < 2 ^ 64"
    and "r_consumer_pos r = pos"
  shows "process_inner fuel env n prod_pos pos got cnt k r =
    Some (inner_of_drain (k + length hs) (got \<or> hs \<noteq> []) r
      (drain (r_sample_cb r) (r_mask r) n hs pos cnt (r_ctx r)))"
  using assms
proof (induction fuel arbitrary: hs pos got cnt k r)
  case 0
  then show ?case by simp
next
  case (Suc fuel)
  show ?case
  proof (cases hs)
    case Nil
    with Suc.prems show ?thesis by (simp add: inner_of_drain_def)
  next
    case (Cons h hs')
    let ?pos = "pos + ucast (roundup_len h)"
    have lt: "pos < prod_pos"
      using Suc.prems(3,4) pos_less_ring_end [of pos h hs'] Cons by simp
    have "unat pos + unat (roundup_len h) < 2 ^ 64"
      using Suc.prems(4) Cons by (simp add: ring_bytes_def)
    then have "unat ?pos + ring_bytes hs' < 2 ^ 64"
      using Suc.prems(4) Cons by (simp add: unat_word_ariths ring_bytes_def)
    with Suc.IH [of hs' _ "Suc k" ?pos True] Suc.prems Cons lt show ?thesis
      by (auto simp: inner_of_drain_def Let_def split: prod.splits)
  qed
qed

lemma process_inner_end:
  "process_inner (Suc fuel) env n pos pos got cnt k r = Some (Inner_end pos got cnt k r)"
  by simp

declare process_inner.simps [simp del]

lemma drain_exhausted:
  "drain cb msk n hs pos cnt ctx = (True, res, pos', ctx') \<Longrightarrow>
     pos' = ring_end hs pos \<and> res = int (unat (of_int res :: u64))"
  by (induction cb msk n hs pos cnt ctx rule: drain.induct)
    (auto simp: Let_def split: if_splits prod.splits)

lemma drain_result:
  "drain cb msk n hs pos cnt ctx = (ex, res, pos', ctx') \<Longrightarrow> 0 \<le> res \<Longrightarrow>
     int (unat (of_int res :: u64)) = res"
  by (induction cb msk n hs pos cnt ctx rule: drain.induct)
    (auto simp: Let_def split: if_splits prod.splits)

lemma process_ring_drain:
  assumes "published env r hs" and "length hs + 2 < fuel"
  shows "ringbuf_process_ring fuel env r n =
    (case drain (r_sample_cb r) (r_mask r) n hs (r_consumer_pos r) 0 (r_ctx r) of
       (exhausted, res, pos, ctx) \<Rightarrow> Some (res, r\<lparr>r_ctx := ctx, r_consumer_pos := pos\<rparr>))"
proof -
  let ?pos = "r_consumer_pos r"
  obtain ex res pos ctx where d: "drain (r_sample_cb r) (r_mask r) n hs ?pos 0 (r_ctx r) = (ex, res, pos, ctx)"
    by (metis surj_pair)
  let ?r = "r\<lparr>r_ctx := ctx, r_consumer_pos := pos\<rparr>"
  obtain f where f: "fuel = Suc (Suc (Suc f))" "length hs < Suc (Suc f)"
    using assms(2) by (cases fuel rule: nat.exhaust; cases "fuel - 1"; cases "fuel - 2") auto
  have inner: "process_inner (Suc (Suc f)) env n (ring_end hs ?pos) ?pos False 0 0 r =
      Some (inner_of_drain (length hs) (hs \<noteq> []) r (ex, res, pos, ctx))"
    using process_inner_drain [of hs "Suc (Suc f)" env r 0 ?pos "ring_end hs ?pos" n False 0] assms(1) f(2)
    by (simp add: published_def d)
  have pp: "env_producer_pos env i = ring_end hs ?pos" for i
    using assms(1) by (simp add: published_def)
  show ?thesis
  proof (cases ex)
    case False
    have "int (unat (of_int res :: u64)) = res" if "\<not> res < 0"
      using that drain_result [OF d] by simp
    with inner False show ?thesis
      by (auto simp: ringbuf_process_ring_def f(1) pp d inner_of_drain_def Let_def)
  next
    case True
    then have [simp]: "ex = True" by simp
    have e: "pos = ring_end hs ?pos" "res = int (unat (of_int res :: u64))"
      using drain_exhausted [OF d [simplified]] by blast+
    show ?thesis
      using inner True e(2)
      by (auto simp: ringbuf_process_ring_def f(1) pp d inner_of_drain_def Let_def e(1) process_inner_end)
  qed
qed

section \<open>What a consumer sees\<close>

text \<open>The samples among the records: their offset in the data area and their length.\<close>

fun samples :: "u64 \<Rightarrow> u64 \<Rightarrow> u32 list \<Rightarrow> (u64 \<times> u64) list" where
  "samples msk pos [] = []"
| "samples msk pos (h # hs) =
     (if is_discarded h then [] else [((pos AND msk) + 8, ucast h)]) @
     samples msk (pos + ucast (roundup_len h)) hs"

definition deliver :: "('c \<Rightarrow> u64 \<Rightarrow> u64 \<Rightarrow> int \<times> 'c) \<Rightarrow> 'c \<Rightarrow> (u64 \<times> u64) list \<Rightarrow> 'c" where
  "deliver cb ctx xs = foldl (\<lambda>c (off, len). snd (cb c off len)) ctx xs"

lemma samples_length: "length (samples msk pos hs) \<le> length hs"
  by (induction hs arbitrary: pos) (auto intro: le_SucI)

text \<open>The records that are committed, up to the first one that is still being written.\<close>

definition committed :: "u32 list \<Rightarrow> u32 list" where
  "committed hs = takeWhile (\<lambda>h. \<not> is_busy h) hs"

lemma drain_committed:
  assumes "\<forall>c off len. 0 \<le> fst (cb c off len)" and "unat cnt + length (samples msk pos (committed hs)) < unat n"
  shows "drain cb msk n hs pos cnt ctx =
    (list_all (\<lambda>h. \<not> is_busy h) hs, int (unat cnt + length (samples msk pos (committed hs))), ring_end (committed hs) pos,
      deliver cb ctx (samples msk pos (committed hs)))"
  using assms(2)
proof (induction hs arbitrary: pos cnt ctx)
  case Nil
  then show ?case by (simp add: deliver_def committed_def)
next
  case (Cons h hs)
  let ?pos = "pos + ucast (roundup_len h)"
  show ?case
  proof (cases "is_busy h")
    case True
    then show ?thesis by (simp add: deliver_def committed_def)
  next
    case busy: False
    then have c: "committed (h # hs) = h # committed hs" by (simp add: committed_def)
    show ?thesis
    proof (cases "is_discarded h")
      case True
      with Cons.prems busy c have "\<not> n \<le> cnt" by (simp add: word_le_nat_alt)
      with True busy c Cons.IH [of cnt ?pos ctx] Cons.prems show ?thesis by simp
    next
      case False
      obtain e ctx' where cb: "cb ctx ((pos AND msk) + 8) (ucast h) = (e, ctx')" by force
      then have "\<not> e < 0" using assms(1) by (metis fst_conv linorder_not_less)
      have "unat cnt + 1 < unat n" using Cons.prems False c by simp
      then have "unat cnt + 1 < 18446744073709551616" using unat_u64_less [of n] by linarith
      then have "unat (cnt + 1) = unat cnt + 1" by (simp add: unat_word_ariths)
      moreover from this have "\<not> n \<le> cnt + 1" using \<open>unat cnt + 1 < unat n\<close> by (simp add: word_le_nat_alt)
      ultimately show ?thesis using False busy c Cons.IH [of "cnt + 1" ?pos ctx'] Cons.prems cb \<open>\<not> e < 0\<close>
        by (simp add: deliver_def)
    qed
  qed
qed

lemma committed_all: "\<forall>h\<in>set hs. \<not> is_busy h \<Longrightarrow> committed hs = hs"
  by (simp add: committed_def)

lemma committed_length: "length (samples msk pos (committed hs)) \<le> length hs"
  using samples_length [of msk pos "committed hs"] length_takeWhile_le [of "\<lambda>h. \<not> is_busy h" hs] by (simp add: committed_def)

lemma drain_delivers:
  assumes "\<forall>h\<in>set hs. \<not> is_busy h" and "\<forall>c off len. 0 \<le> fst (cb c off len)"
    and "unat cnt + length (samples msk pos hs) < unat n"
  shows "drain cb msk n hs pos cnt ctx =
    (True, int (unat cnt + length (samples msk pos hs)), ring_end hs pos, deliver cb ctx (samples msk pos hs))"
  using drain_committed [OF assms(2), of cnt msk pos hs n ctx] assms(1,3) by (simp add: committed_all list_all_iff)

text \<open>C10. Consuming a ring buffer. When the kernel published the records \<open>hs\<close>, of which any may still be busy, one call of
  \<open>ringbuf_process_ring\<close> terminates and stops at the first busy one: it hands every record before it that was not discarded
  to the callback exactly once and in order, at the offset after its header and with its length, returns their number, and
  leaves the consumer position there, which is the producer position if no record is busy. The callback reports no error and
  there are fewer records than the limit of the call. Positions may lie anywhere, the data area being addressed modulo its size.\<close>

theorem ringbuf_process_ring_delivers:
  assumes "published env r hs"
    and "\<forall>c off len. 0 \<le> fst (r_sample_cb r c off len)"
    and "length hs < unat n" and "length hs + 2 < fuel"
  shows "ringbuf_process_ring fuel env r n =
    Some (int (length (samples (r_mask r) (r_consumer_pos r) (committed hs))),
      r\<lparr>r_ctx := deliver (r_sample_cb r) (r_ctx r) (samples (r_mask r) (r_consumer_pos r) (committed hs)),
        r_consumer_pos := ring_end (committed hs) (r_consumer_pos r)\<rparr>) \<and>
    (list_all (\<lambda>h. \<not> is_busy h) hs \<longrightarrow> ring_end (committed hs) (r_consumer_pos r) = env_producer_pos env 0)"
proof -
  have "unat (0 :: u64) + length (samples (r_mask r) (r_consumer_pos r) (committed hs)) < unat n"
    using committed_length [of "r_mask r" "r_consumer_pos r" hs] assms(3) by simp
  from drain_committed [OF assms(2) this] process_ring_drain [OF assms(1,4), of n] assms(1)
  show ?thesis by (simp add: published_def committed_all list_all_iff)
qed

text \<open>
  An example ring of 64 bytes, consumer at 56: a 12-byte sample whose record wraps around the
  end of the data area, a discarded record, a 1-byte sample and a busy record.
\<close>

definition example_env :: ring_env where
  "example_env = \<lparr>env_producer_pos = (\<lambda>i. 120),
     env_len = (\<lambda>k off. if off = 56 then 12 else if off = 16 then 0x40000004
       else if off = 32 then 1 else 0x80000000)\<rparr>"

definition example_ring :: "(u64 \<times> u64) list ring" where
  "example_ring = \<lparr>r_sample_cb = (\<lambda>c off len. (0, c @ [(off, len)])), r_ctx = [], r_data = 0,
     r_consumer_page = Some 0, r_producer_page = Some 4096, r_consumer_pos = 56, r_mask = 63,
     r_map_fd = 3\<rparr>"

lemma example_published: "published example_env example_ring [12, 0x40000004, 1, 0x80000000]"
  by (simp add: published_def example_env_def example_ring_def roundup_len_def ring_bytes_def
      BPF_RINGBUF_HDR_SZ_def)

theorem ringbuf_process_ring_delivers_witness:
  "ringbuf_process_ring 10 example_env example_ring 5 =
     Some (2, example_ring\<lparr>r_ctx := [(64, 12), (40, 1)], r_consumer_pos := 112\<rparr>)"
proof -
  have "committed [12, 0x40000004, 1, 0x80000000] = [12, 0x40000004, 1]" by (simp add: committed_def is_busy_def ringbuf_bits)
  moreover have "\<forall>c off len. 0 \<le> fst (r_sample_cb example_ring c off len)"
    by (simp add: example_ring_def)
  ultimately show ?thesis
    using ringbuf_process_ring_delivers [OF example_published, of 5 10]
    by (simp add: example_ring_def example_env_def is_discarded_def ringbuf_bits deliver_def
        roundup_len_def)
qed

section \<open>Limits on the number of records\<close>

lemma process_inner_bound:
  "process_inner fuel env n prod_pos pos got cnt k r = Some res \<Longrightarrow> cnt < n \<Longrightarrow>
     (case res of Inner_end _ _ cnt' _ _ \<Rightarrow> cnt' < n | Inner_done cnt' _ \<Rightarrow> cnt' \<le> n
      | Inner_err e _ \<Rightarrow> e < 0)"
proof (induction fuel env n prod_pos pos got cnt k r rule: process_inner.induct)
  case 1
  then show ?case by (simp add: process_inner.simps)
next
  case (2 fuel env n prod_pos pos got cnt k r)
  have "cnt + 1 \<le> n" using "2.prems"(2) by (simp add: inc_le)
  with 2 show ?case
    by (auto simp: process_inner.simps Let_def linorder_not_le split: if_splits prod.splits)
qed

lemma process_outer_bound:
  "process_outer fuel env n pos cnt i k r = Some (res, r') \<Longrightarrow> cnt < n \<Longrightarrow> res \<le> int (unat n)"
proof (induction fuel arbitrary: pos cnt i k r)
  case 0
  then show ?case by simp
next
  case (Suc fuel)
  obtain inn where "process_inner fuel env n (env_producer_pos env i) pos False cnt k r = Some inn"
    using Suc.prems(1) by (auto split: option.splits)
  with process_inner_bound [OF this Suc.prems(2)] Suc show ?case
    by (cases inn) (auto simp: word_le_def word_less_def intro: order_trans [of _ 0] split: if_splits)
qed

text \<open>A positive limit is respected: whatever the kernel writes while the ring is read, a
  call with \<open>n > 0\<close> never reports more than \<open>n\<close> records.\<close>

theorem ringbuf_process_ring_limit:
  assumes "ringbuf_process_ring fuel env r n = Some (res, r')" and "0 < n"
  shows "res \<le> int (unat n)"
  using process_outer_bound [OF assms [unfolded ringbuf_process_ring_def]] .

theorem ringbuf_process_ring_limit_witness:
  "\<exists>res r'. ringbuf_process_ring 10 example_env example_ring 1 = Some (res, r') \<and> res \<le> int (unat (1 :: u64))"
proof -
  have "ringbuf_process_ring 10 example_env example_ring 1 =
      Some (1, example_ring\<lparr>r_ctx := [(64, 12)], r_consumer_pos := 80\<rparr>)"
    using process_ring_drain [OF example_published, of 10 1]
    by (simp add: example_ring_def is_discarded_def is_busy_def ringbuf_bits roundup_len_def)
  from ringbuf_process_ring_limit [OF this] this show ?thesis by auto
qed

text \<open>A limit of zero is not respected: asked for at most zero items, \<open>ring__consume_n\<close>
  still hands the first committed record to the callback and reports one item, because the
  limit is tested only after a record was consumed.\<close>

theorem ring__consume_n_zero:
  assumes "r_consumer_pos r < env_producer_pos env 0"
    and "\<not> is_busy (env_len env 0 (r_consumer_pos r AND r_mask r))"
    and "\<not> is_discarded (env_len env 0 (r_consumer_pos r AND r_mask r))"
    and "0 \<le> fst (r_sample_cb r (r_ctx r) ((r_consumer_pos r AND r_mask r) + 8)
      (ucast (env_len env 0 (r_consumer_pos r AND r_mask r))))"
  shows "\<exists>r'. ring__consume_n (Suc (Suc fuel)) env r 0 = Some (1, r') \<and> r_consumer_pos r' =
    r_consumer_pos r + ucast (roundup_len (env_len env 0 (r_consumer_pos r AND r_mask r)))"
proof -
  let ?off = "r_consumer_pos r AND r_mask r"
  let ?len = "env_len env 0 ?off"
  obtain e ctx where cb: "r_sample_cb r (r_ctx r) (?off + 8) (ucast ?len) = (e, ctx)" by force
  let ?r = "r\<lparr>r_ctx := ctx, r_consumer_pos := r_consumer_pos r + ucast (roundup_len ?len)\<rparr>"
  have "\<not> e < 0" using assms(4) cb by simp
  then have "ringbuf_process_ring (Suc (Suc fuel)) env r 0 = Some (1, ?r)"
    using assms(1-3) cb by (simp add: ringbuf_process_ring_def process_inner.simps Let_def)
  then show ?thesis
    by (intro exI [of _ ?r]) (simp add: ring__consume_n_def INT_MAX_def)
qed

theorem ring__consume_n_zero_witness:
  "\<exists>r'. ring__consume_n (Suc (Suc 0)) example_env example_ring 0 = Some (1, r') \<and> r_consumer_pos r' = 56 + 24"
  using ring__consume_n_zero [of example_ring example_env 0]
  by (simp add: example_ring_def example_env_def is_busy_def is_discarded_def ringbuf_bits
      roundup_len_def)

section \<open>Resources\<close>

lemma map_sizes:
  "(m :: u32) \<noteq> 0 \<Longrightarrow> (ucast (m - 1) :: u64) + 1 = ucast m"
proof -
  assume "m \<noteq> 0"
  then have "unat m \<noteq> 0" by (simp add: unat_eq_zero)
  then have "unat (m - 1) + 1 = unat m" using unat_minus_one [OF \<open>m \<noteq> 0\<close>] by simp
  moreover have "unat ((ucast (m - 1) :: u64) + 1) = unat (m - 1) + 1"
    using unat_u32_less [of "m - 1"] by (simp add: unat_word_ariths)
  ultimately show ?thesis by (simp add: word_unat_eq_iff)
qed

lemma remove1_two [simp]: "remove1 a (b # a # xs) = (if a = b then a # xs else b # xs)"
  by simp

lemma free_ring_two_maps:
  "r_consumer_page r = Some c \<Longrightarrow> r_producer_page r = Some p \<Longrightarrow>
     r_mask r + 1 = m \<Longrightarrow>
     ringbuf_free_ring ps r (add_map p (ps + 2 * m) (add_map c ps rs)) = rs"
  by (auto simp: ringbuf_free_ring_def munmap_def add_map_def)

text \<open>
  What the set-up relies on of the kernel: a call that fails sets a positive \<open>errno\<close>, a
  ring-buffer map is not empty, and a descriptor is not negative.
\<close>

definition os_sane :: "rb_os \<Rightarrow> int \<Rightarrow> bool" where
  "os_sane os map_fd \<longleftrightarrow>
     (case os_map_info os map_fd of Inl e \<Rightarrow> 0 < e | Inr info \<Rightarrow> info_max_entries info \<noteq> 0) \<and>
     (\<forall>sz off e. os_mmap os map_fd sz off = Inl e \<longrightarrow> 0 < e) \<and>
     (case os_epoll_create1 os of Inl e \<Rightarrow> 0 < e | Inr fd \<Rightarrow> 0 \<le> fd)"

lemma ring_buffer__add_resources:
  assumes "ring_buffer__add os rb map_fd cb ctx cons0 rs = (err, rb', rs')" and "os_sane os map_fd"
  shows "if err = 0 then (\<exists>r. rb_rings rb' = rb_rings rb @ [r] \<and> rb_page_size rb' = rb_page_size rb \<and>
      rb_epoll_fd rb' = rb_epoll_fd rb \<and> ringbuf_free_ring (rb_page_size rb) r rs' = rs)
    else rb' = rb \<and> rs' = rs"
proof (cases "os_map_info os map_fd")
  case (Inr info)
  have m: "(ucast (info_max_entries info - 1) :: u64) + 1 = ucast (info_max_entries info)"
    using assms(2) Inr by (intro map_sizes) (simp add: os_sane_def)
  have e: "os_mmap os map_fd sz off \<noteq> Inl 0" for sz off
    using assms(2) by (auto simp: os_sane_def)
  show ?thesis
    using assms(1) Inr e
    by (auto simp: ring_buffer__add_def Let_def m free_ring_two_maps split: if_splits sum.splits)
       (auto simp: ringbuf_free_ring_def munmap_def add_map_def)
qed (use assms in \<open>auto simp: ring_buffer__add_def os_sane_def\<close>)

lemma ring_buffer_new_resources:
  assumes "ring_buffer__new os opts_valid calloc_ok map_fd cb ctx cons0 rs = (res, rs')"
    and "os_sane os map_fd"
  shows "case res of Inl e \<Rightarrow> rs' = rs
    | Inr rb \<Rightarrow> length (rb_rings rb) = 1 \<and> ring_buffer__free (Some rb) rs' = rs"
proof (cases "opts_valid \<and> calloc_ok")
  case True
  show ?thesis
  proof (cases "os_epoll_create1 os")
    case (Inl e)
    with True assms show ?thesis by (auto simp: ring_buffer__new_def ring_buffer__free_def)
  next
    case (Inr fd)
    then have fd: "0 \<le> fd" using assms(2) by (simp add: os_sane_def)
    let ?rb = "\<lparr>rb_events = [], rb_rings = [], rb_page_size = os_pagesize os, rb_epoll_fd = fd\<rparr>"
    let ?rs = "rs\<lparr>res_fds := fd # res_fds rs\<rparr>"
    obtain err rb1 rs1 where add: "ring_buffer__add os ?rb map_fd cb ctx cons0 ?rs = (err, rb1, rs1)"
      by (metis surj_pair)
    have close: "close_fd fd ?rs = rs" by (simp add: close_fd_def)
    show ?thesis
      using ring_buffer__add_resources [OF add assms(2)] assms(1) True Inr add fd close
      by (auto simp: ring_buffer__new_def ring_buffer__free_def Let_def split: if_splits)
  qed
qed (use assms in \<open>auto simp: ring_buffer__new_def split: if_splits\<close>)

text \<open>C11. Set-up is all or nothing and teardown undoes it. When \<open>ring_buffer__new\<close> fails, at
  whatever step, every mapping and descriptor it had obtained is released; when it succeeds
  it manages one ring, and \<open>ring_buffer__free\<close> gives back exactly what was obtained.\<close>

theorem ring_buffer__new_free:
  assumes "ring_buffer__new os opts_valid calloc_ok map_fd cb ctx cons0 rs = (res, rs')"
    and "os_sane os map_fd"
  shows "case res of Inl e \<Rightarrow> rs' = rs
    | Inr rb \<Rightarrow> length (rb_rings rb) = 1 \<and> ring_buffer__free (Some rb) rs' = rs"
  using assms by (rule ring_buffer_new_resources)

definition example_os :: rb_os where
  "example_os = \<lparr>os_map_info = (\<lambda>fd. Inr \<lparr>info_type = 27, info_max_entries = 4096\<rparr>),
     os_alloc = (\<lambda>_. True), os_mmap = (\<lambda>fd sz off. if off = 0 then Inr 65536 else Inl 12),
     os_epoll_ctl_add = (\<lambda>_ _. 0), os_epoll_create1 = Inr 7, os_pagesize = 4096\<rparr>"

text \<open>The second mapping fails: the first one and the epoll descriptor are released.\<close>

theorem ring_buffer__new_free_witness:
  "\<exists>rs'. ring_buffer__new example_os True True 3 (\<lambda>c off len. (0, c)) () 0 \<lparr>res_maps = [], res_fds = [5]\<rparr> =
     (Inl 12, rs') \<and> rs' = \<lparr>res_maps = [], res_fds = [5]\<rparr>"
proof -
  have "os_sane example_os 3" by (auto simp: os_sane_def example_os_def)
  moreover obtain res rs' where run: "ring_buffer__new example_os True True 3 (\<lambda>c off len. (0, c)) () 0
      \<lparr>res_maps = [], res_fds = [5]\<rparr> = (res, rs')" by force
  moreover have "res = Inl 12"
    using run by (simp add: ring_buffer__new_def ring_buffer__add_def example_os_def Let_def
        BPF_MAP_TYPE_RINGBUF_def)
  ultimately show ?thesis using ring_buffer__new_free by fastforce
qed

end
