(* ===== verification/User_Ringbuf.thy ===== *)
theory User_Ringbuf
  imports Ringbuf
begin

text \<open>
  The producer side of \<open>libbpf/src/ringbuf.c\<close>: a user-space ring buffer whose samples are
  reserved, filled in and committed. The shared pages are the record \<open>user_shared\<close>: the two
  positions and the header words at each offset of the data area.
\<close>

record ringbuf_hdr =
  hdr_len :: u32
  hdr_pad :: u32

record user_shared =
  us_consumer_pos :: u64
  us_producer_pos :: u64
  us_hdr :: "u64 \<Rightarrow> ringbuf_hdr"

section \<open>Set-up and teardown\<close>

definition user_ringbuf_unmap_ring :: "user_ring_buffer \<Rightarrow> resources \<Rightarrow> user_ring_buffer \<times> resources" where
  "user_ringbuf_unmap_ring rb rs =
     (let rs1 = (case urb_consumer_page rb of None \<Rightarrow> rs | Some a \<Rightarrow> munmap a (urb_page_size rb) rs);
          rs2 = (case urb_producer_page rb of None \<Rightarrow> rs1
                 | Some a \<Rightarrow> munmap a (urb_page_size rb + 2 * (urb_mask rb + 1)) rs1)
      in (rb\<lparr>urb_consumer_page := None, urb_producer_page := None\<rparr>, rs2))"

definition user_ring_buffer__free :: "user_ring_buffer option \<Rightarrow> resources \<Rightarrow> resources" where
  "user_ring_buffer__free rbo rs =
     (case rbo of None \<Rightarrow> rs
      | Some rb \<Rightarrow>
          let rs1 = snd (user_ringbuf_unmap_ring rb rs)
          in if urb_epoll_fd rb \<ge> 0 then close_fd (urb_epoll_fd rb) rs1 else rs1)"

definition user_ringbuf_map :: "rb_os \<Rightarrow> user_ring_buffer \<Rightarrow> int \<Rightarrow> resources \<Rightarrow>
    int \<times> user_ring_buffer \<times> resources" where
  "user_ringbuf_map os rb map_fd rs =
     (case os_map_info os map_fd of
        Inl e \<Rightarrow> (- e, rb, rs)
      | Inr info \<Rightarrow>
          if info_type info \<noteq> BPF_MAP_TYPE_USER_RINGBUF then (- EINVAL, rb, rs)
          else
            let rb = rb\<lparr>urb_map_fd := map_fd, urb_mask := ucast (info_max_entries info - 1)\<rparr>
            in case os_mmap os map_fd (urb_page_size rb) 0 of
                 Inl e \<Rightarrow> (- e, rb, rs)
               | Inr cpage \<Rightarrow>
                   let rb = rb\<lparr>urb_consumer_page := Some cpage\<rparr>;
                       rs = add_map cpage (urb_page_size rb) rs;
                       mmap_sz = urb_page_size rb + 2 * ucast (info_max_entries info)
                   in case os_mmap os map_fd mmap_sz (urb_page_size rb) of
                        Inl e \<Rightarrow> (- e, rb, rs)
                      | Inr ppage \<Rightarrow>
                          let rb = rb\<lparr>urb_producer_page := Some ppage,
                                      urb_data := ppage + urb_page_size rb\<rparr>;
                              rs = add_map ppage mmap_sz rs;
                              e = os_epoll_ctl_add os (urb_epoll_fd rb) map_fd
                          in if e \<noteq> 0 then (- e, rb, rs) else (0, rb, rs))"

definition user_ring_buffer__new :: "rb_os \<Rightarrow> bool \<Rightarrow> bool \<Rightarrow> int \<Rightarrow> resources \<Rightarrow>
    (int + user_ring_buffer) \<times> resources" where
  "user_ring_buffer__new os opts_valid calloc_ok map_fd rs =
     (if \<not> opts_valid then (Inl EINVAL, rs)
      else if \<not> calloc_ok then (Inl ENOMEM, rs)
      else
        let rb = \<lparr>urb_consumer_page = None, urb_producer_page = None, urb_data = 0, urb_mask = 0,
                  urb_page_size = os_pagesize os, urb_map_fd = 0, urb_epoll_fd = -1\<rparr>
        in case os_epoll_create1 os of
             Inl e \<Rightarrow> (Inl e, user_ring_buffer__free (Some rb) rs)
           | Inr fd \<Rightarrow>
               let rb = rb\<lparr>urb_epoll_fd := fd\<rparr>;
                   rs = rs\<lparr>res_fds := fd # res_fds rs\<rparr>;
                   (err, rb, rs) = user_ringbuf_map os rb map_fd rs
               in if err \<noteq> 0 then (Inl (- err), user_ring_buffer__free (Some rb) rs)
                  else (Inr rb, rs))"

section \<open>Reserve and commit\<close>

text \<open>Samples are offsets in the data area; \<open>Inl\<close> is a null result with \<open>errno\<close>.\<close>

definition user_ringbuf_commit :: "user_ring_buffer \<Rightarrow> u64 \<Rightarrow> bool \<Rightarrow> user_shared \<Rightarrow> user_shared" where
  "user_ringbuf_commit rb sample discard st =
     (let hdr_offset = urb_mask rb + 1 + sample - ucast BPF_RINGBUF_HDR_SZ;
          off = hdr_offset AND urb_mask rb;
          hdr = us_hdr st off;
          new_len = hdr_len hdr AND NOT BPF_RINGBUF_BUSY_BIT;
          new_len = (if discard then new_len OR BPF_RINGBUF_DISCARD_BIT else new_len)
      in st\<lparr>us_hdr := (us_hdr st)(off := hdr\<lparr>hdr_len := new_len\<rparr>)\<rparr>)"

definition user_ring_buffer__discard :: "user_ring_buffer \<Rightarrow> u64 \<Rightarrow> user_shared \<Rightarrow> user_shared" where
  "user_ring_buffer__discard rb sample st = user_ringbuf_commit rb sample True st"

definition user_ring_buffer__submit :: "user_ring_buffer \<Rightarrow> u64 \<Rightarrow> user_shared \<Rightarrow> user_shared" where
  "user_ring_buffer__submit rb sample st = user_ringbuf_commit rb sample False st"

definition user_ring_buffer__reserve :: "user_ring_buffer \<Rightarrow> u32 \<Rightarrow> user_shared \<Rightarrow>
    (int + u64) \<times> user_shared" where
  "user_ring_buffer__reserve rb sz st =
     (if sz AND (BPF_RINGBUF_BUSY_BIT OR BPF_RINGBUF_DISCARD_BIT) \<noteq> 0 then (Inl E2BIG, st)
      else
        let cons_pos = us_consumer_pos st;
            prod_pos = us_producer_pos st;
            max_size = (ucast (urb_mask rb + 1) :: u32);
            avail_size = (ucast (ucast max_size - (prod_pos - cons_pos)) :: u32);
            total_size = (sz + BPF_RINGBUF_HDR_SZ + 7) div 8 * 8
        in if total_size > max_size then (Inl E2BIG, st)
           else if avail_size < total_size then (Inl ENOSPC, st)
           else
             let off = prod_pos AND urb_mask rb
             in (Inr ((prod_pos + ucast BPF_RINGBUF_HDR_SZ) AND urb_mask rb),
                 st\<lparr>us_hdr := (us_hdr st)(off := \<lparr>hdr_len = sz OR BPF_RINGBUF_BUSY_BIT, hdr_pad = 0\<rparr>),
                    us_producer_pos := prod_pos + ucast total_size\<rparr>))"

section \<open>Blocking reserve\<close>

record timespec =
  tv_sec :: int
  tv_nsec :: int

definition ns_elapsed_timespec :: "timespec \<Rightarrow> timespec \<Rightarrow> u64" where
  "ns_elapsed_timespec start end_ts =
     (let ns_per_s = (1000000000 :: u64);
          start_ns = of_int (tv_sec start) * ns_per_s + of_int (tv_nsec start);
          end_ns = of_int (tv_sec end_ts) * ns_per_s + of_int (tv_nsec end_ts)
      in end_ns - start_ns)"

text \<open>
  What happens around the calls: while the caller waits in the \<open>i\<close>-th \<open>epoll_wait\<close> the
  kernel moves the consumer position to \<open>be_consumer_pos i\<close>; \<open>be_epoll i\<close> and
  \<open>be_clock i\<close> are the results of the wait and of \<open>clock_gettime\<close> (\<open>Inl\<close> is an error).
  With a timeout of \<open>-1\<close> the \<open>continue\<close> of the loop evaluates the loop condition
  \<open>ms_remaining > 0\<close> with \<open>ms_remaining = -1\<close> and so leaves the loop.
\<close>

record block_env =
  be_start :: "int + timespec"
  be_epoll :: "nat \<Rightarrow> int + nat"
  be_consumer_pos :: "nat \<Rightarrow> u64"
  be_clock :: "nat \<Rightarrow> int + timespec"

fun reserve_blocking_loop :: "nat \<Rightarrow> block_env \<Rightarrow> user_ring_buffer \<Rightarrow> u32 \<Rightarrow> int \<Rightarrow> timespec \<Rightarrow> nat \<Rightarrow>
    user_shared \<Rightarrow> ((int + u64) \<times> user_shared) option" where
  "reserve_blocking_loop 0 env rb sz timeout_ms start i st = None"
| "reserve_blocking_loop (Suc fuel) env rb sz timeout_ms start i st =
     (case user_ring_buffer__reserve rb sz st of
        (Inr sample, st) \<Rightarrow> Some (Inr sample, st)
      | (Inl e, st) \<Rightarrow>
          if e \<noteq> ENOSPC then Some (Inl e, st)
          else case be_epoll env i of
            Inl e \<Rightarrow> Some (Inl e, st)
          | Inr _ \<Rightarrow>
              let st = st\<lparr>us_consumer_pos := be_consumer_pos env i\<rparr>
              in if timeout_ms = -1 then Some (user_ring_buffer__reserve rb sz st)
                 else case be_clock env i of
                   Inl e \<Rightarrow> Some (Inl e, st)
                 | Inr now_ts \<Rightarrow>
                     let ms_elapsed = sint (ucast (ns_elapsed_timespec start now_ts div 1000000) :: u32);
                         ms_remaining = timeout_ms - ms_elapsed
                     in if ms_remaining > 0
                        then reserve_blocking_loop fuel env rb sz timeout_ms start (Suc i) st
                        else Some (user_ring_buffer__reserve rb sz st))"

definition user_ring_buffer__reserve_blocking :: "nat \<Rightarrow> block_env \<Rightarrow> user_ring_buffer \<Rightarrow> u32 \<Rightarrow> int \<Rightarrow>
    user_shared \<Rightarrow> ((int + u64) \<times> user_shared) option" where
  "user_ring_buffer__reserve_blocking fuel env rb sz timeout_ms st =
     (if timeout_ms < 0 \<and> timeout_ms \<noteq> -1 then Some (Inl EINVAL, st)
      else if timeout_ms \<noteq> -1 then
        (case be_start env of
           Inl e \<Rightarrow> Some (Inl e, st)
         | Inr start \<Rightarrow> reserve_blocking_loop fuel env rb sz timeout_ms start 0 st)
      else reserve_blocking_loop fuel env rb sz timeout_ms \<lparr>tv_sec = 0, tv_nsec = 0\<rparr> 0 st)"

section \<open>Reserve, then commit\<close>

text \<open>The size of a ring is a power of two, \<open>2 ^ k\<close> with \<open>k \<le> 31\<close>.\<close>

definition urb_pow2 :: "user_ring_buffer \<Rightarrow> nat \<Rightarrow> bool" where
  "urb_pow2 rb k \<longleftrightarrow> k \<le> 31 \<and> urb_mask rb = mask k"

lemma and_mask_take_bit: "(w :: u64) AND mask k = take_bit k w"
  by (simp add: take_bit_eq_mask)

lemma take_bit_u64_diff: "take_bit k (take_bit k a - take_bit k b) = take_bit k (a - b :: u64)"
  by transfer (simp add: take_bit_diff)

lemma take_bit_u64_add: "take_bit k (take_bit k a + take_bit k b) = take_bit k (a + b :: u64)"
  by transfer (simp add: take_bit_add)

lemma take_bit_u64_idem: "take_bit k (take_bit k a) = take_bit k (a :: u64)"
  by simp

lemma commit_offset:
  fixes p :: u64
  assumes "k \<le> 31"
  shows "(mask k + 1 + ((p + 8) AND mask k) - 8) AND mask k = p AND mask k"
proof -
  have m: "mask k + 1 = (2 ^ k :: u64)" by (simp add: mask_eq_exp_minus_1)
  have "take_bit k (2 ^ k) = (0 :: u64)"
    by (rule bit_word_eqI) (auto simp: bit_simps)
  then have "take_bit k (2 ^ k + take_bit k (p + 8) - 8) = take_bit k (p + 8 - 8)"
    by (metis add_0 take_bit_u64_add take_bit_u64_diff take_bit_u64_idem)
  then show ?thesis by (simp add: m and_mask_take_bit)
qed

text \<open>What a successful reservation does.\<close>

lemma reserve_Inr:
  assumes "user_ring_buffer__reserve rb sz st = (Inr sample, st')"
  shows "sz AND (BPF_RINGBUF_BUSY_BIT OR BPF_RINGBUF_DISCARD_BIT) = 0"
    and "sample = (us_producer_pos st + 8) AND urb_mask rb"
    and "us_hdr st' = (us_hdr st)(us_producer_pos st AND urb_mask rb :=
      \<lparr>hdr_len = sz OR BPF_RINGBUF_BUSY_BIT, hdr_pad = 0\<rparr>)"
    and "us_producer_pos st' = us_producer_pos st + ucast ((sz + BPF_RINGBUF_HDR_SZ + 7) div 8 * 8)"
    and "us_consumer_pos st' = us_consumer_pos st"
    and "(sz + BPF_RINGBUF_HDR_SZ + 7) div 8 * 8 \<le>
      (ucast (ucast (ucast (urb_mask rb + 1) :: u32) - (us_producer_pos st - us_consumer_pos st)) :: u32)"
  using assms
  by (auto simp: user_ring_buffer__reserve_def Let_def BPF_RINGBUF_HDR_SZ_def linorder_not_less
      split: if_splits)

lemma flags_clear:
  fixes sz :: u32
  assumes "sz AND (BPF_RINGBUF_BUSY_BIT OR BPF_RINGBUF_DISCARD_BIT) = 0"
  shows "(sz OR BPF_RINGBUF_BUSY_BIT) AND NOT BPF_RINGBUF_BUSY_BIT = sz"
    and "\<not> is_busy sz" and "\<not> is_discarded sz"
    and "\<not> is_busy (sz OR BPF_RINGBUF_DISCARD_BIT)" and "is_discarded (sz OR BPF_RINGBUF_DISCARD_BIT)"
proof -
  have z: "sz AND 0xC0000000 = 0" using assms by (simp add: ringbuf_bits)
  have "sz AND 0x80000000 = (sz AND 0xC0000000) AND 0x80000000" by (simp add: and.assoc)
  then have b: "sz AND 0x80000000 = 0" using z by simp
  have "sz AND 0x40000000 = (sz AND 0xC0000000) AND 0x40000000" by (simp add: and.assoc)
  then have d: "sz AND 0x40000000 = 0" using z by simp
  show "\<not> is_busy sz" "\<not> is_discarded sz"
    using b d by (simp_all add: is_busy_def is_discarded_def ringbuf_bits)
  show "\<not> is_busy (sz OR BPF_RINGBUF_DISCARD_BIT)" "is_discarded (sz OR BPF_RINGBUF_DISCARD_BIT)"
    using b d by (simp_all add: is_busy_def is_discarded_def ringbuf_bits bit.conj_disj_distrib2)
  have "(sz OR 0x80000000) AND NOT 0x80000000 = sz AND NOT 0x80000000"
    by (simp add: bit.conj_disj_distrib2)
  also have "\<dots> = sz"
  proof (rule bit_word_eqI)
    fix n :: nat
    have "\<not> (bit sz n \<and> bit (0x80000000 :: u32) n)"
      using b by (metis bit_0_eq bit_and_iff bot_apply bot_bool_def)
    then show "bit (sz AND NOT 0x80000000) n = bit sz n" if "n < LENGTH(32)"
      using that by (auto simp: bit_simps)
  qed
  finally show "(sz OR BPF_RINGBUF_BUSY_BIT) AND NOT BPF_RINGBUF_BUSY_BIT = sz"
    by (simp add: ringbuf_bits)
qed

text \<open>C12. Reserve and commit meet at the same header. In a ring whose size is a power of two,
  committing a sample that was just reserved finds the header the reservation wrote, also when
  the record wraps around the end of the data area: until then the record is marked busy, a
  submit leaves the plain length and no flag, a discard the length with the discard flag, and
  no other header changes.\<close>

theorem user_reserve_commit:
  assumes "urb_pow2 rb k" and "user_ring_buffer__reserve rb sz st = (Inr sample, st')"
  shows "is_busy (hdr_len (us_hdr st' (us_producer_pos st AND urb_mask rb))) \<and>
    user_ring_buffer__submit rb sample st' =
      st'\<lparr>us_hdr := (us_hdr st)(us_producer_pos st AND urb_mask rb := \<lparr>hdr_len = sz, hdr_pad = 0\<rparr>)\<rparr> \<and>
    user_ring_buffer__discard rb sample st' =
      st'\<lparr>us_hdr := (us_hdr st)(us_producer_pos st AND urb_mask rb :=
        \<lparr>hdr_len = sz OR BPF_RINGBUF_DISCARD_BIT, hdr_pad = 0\<rparr>)\<rparr> \<and>
    \<not> is_busy sz \<and> \<not> is_discarded sz \<and> is_discarded (sz OR BPF_RINGBUF_DISCARD_BIT)"
proof -
  note r = reserve_Inr [OF assms(2)] and f = flags_clear [OF reserve_Inr(1) [OF assms(2)]]
  have off: "(urb_mask rb + 1 + sample - 8) AND urb_mask rb = us_producer_pos st AND urb_mask rb"
    using commit_offset [of k "us_producer_pos st"] assms(1) r(2) by (simp add: urb_pow2_def)
  have "(sz OR BPF_RINGBUF_BUSY_BIT) AND BPF_RINGBUF_BUSY_BIT = BPF_RINGBUF_BUSY_BIT"
    by (simp add: bit.conj_disj_distrib2 ringbuf_bits)
  then have "is_busy (hdr_len (us_hdr st' (us_producer_pos st AND urb_mask rb)))"
    by (simp add: r(3) is_busy_def) (simp add: ringbuf_bits)
  with off f show ?thesis
    by (simp add: user_ring_buffer__submit_def user_ring_buffer__discard_def
        user_ringbuf_commit_def Let_def r(3) BPF_RINGBUF_HDR_SZ_def)
qed

text \<open>A ring of 64 bytes with the producer at 56: the record's header is the last of the ring.\<close>

definition example_urb :: user_ring_buffer where
  "example_urb = \<lparr>urb_consumer_page = Some 0, urb_producer_page = Some 4096, urb_data = 8192,
     urb_mask = 63, urb_page_size = 4096, urb_map_fd = 3, urb_epoll_fd = 4\<rparr>"

definition example_shared :: user_shared where
  "example_shared = \<lparr>us_consumer_pos = 40, us_producer_pos = 56,
     us_hdr = (\<lambda>_. \<lparr>hdr_len = 0, hdr_pad = 0\<rparr>)\<rparr>"

lemma example_urb_pow2: "urb_pow2 example_urb 6"
  by (simp add: urb_pow2_def example_urb_def mask_eq_exp_minus_1)

lemma example_reserve:
  "user_ring_buffer__reserve example_urb 12 example_shared =
     (Inr 0, example_shared\<lparr>us_producer_pos := 80,
        us_hdr := (us_hdr example_shared)(56 := \<lparr>hdr_len = 12 OR BPF_RINGBUF_BUSY_BIT, hdr_pad = 0\<rparr>)\<rparr>)"
  by (simp add: user_ring_buffer__reserve_def example_urb_def example_shared_def ringbuf_bits Let_def)

theorem user_reserve_commit_witness:
  "\<exists>sample st'. user_ring_buffer__reserve example_urb 12 example_shared = (Inr sample, st') \<and>
     us_hdr (user_ring_buffer__submit example_urb sample st') 56 = \<lparr>hdr_len = 12, hdr_pad = 0\<rparr>"
  using user_reserve_commit [OF example_urb_pow2 example_reserve] example_reserve
  by (simp add: example_shared_def example_urb_def)

section \<open>The producer never overtakes the consumer\<close>

lemma unat_total_size:
  assumes "sz AND (BPF_RINGBUF_BUSY_BIT OR BPF_RINGBUF_DISCARD_BIT) = 0"
  shows "unat ((sz + BPF_RINGBUF_HDR_SZ + 7) div 8 * 8) = (unat sz + 15) div 8 * 8"
proof -
  have "sz = (sz AND 0x3FFFFFFF) OR (sz AND NOT 0x3FFFFFFF)"
    by (simp only: bit.conj_disj_distrib [symmetric] bit.disj_cancel_right bit.conj_one_right)
  moreover have "(NOT 0x3FFFFFFF :: u32) = BPF_RINGBUF_BUSY_BIT OR BPF_RINGBUF_DISCARD_BIT"
    by (simp add: ringbuf_bits)
  then have "sz AND NOT 0x3FFFFFFF = 0" using assms by (simp only:)
  ultimately have "sz AND 0x3FFFFFFF = sz" by simp
  with unat_roundup_len [of sz] show ?thesis
    by (simp add: roundup_len_def strip_flags Let_def)
qed

lemma avail_size:
  assumes "urb_pow2 rb k" and "unat (p - c) \<le> 2 ^ k"
  shows "unat (ucast (ucast (ucast (urb_mask rb + 1) :: u32) - (p - c :: u64)) :: u32) = 2 ^ k - unat (p - c)"
proof -
  have k: "k \<le> 31" and m: "urb_mask rb + 1 = 2 ^ k"
    using assms(1) by (auto simp: urb_pow2_def mask_eq_exp_minus_1)
  have lt: "(2 :: nat) ^ k \<le> 2 ^ 31" using k by (intro power_increasing) simp_all
  have "unat (of_nat (2 ^ k) :: u64) = 2 ^ k"
    using lt by (simp add: unat_of_nat del: of_nat_power)
  then have "unat (2 ^ k :: u64) = 2 ^ k" by simp
  moreover have "unat (ucast (2 ^ k :: u64) :: u32) = 2 ^ k"
    using k by (simp add: unsigned_ucast_eq calculation take_bit_nat_eq_self)
  ultimately have u: "unat (ucast (ucast (2 ^ k :: u64) :: u32) :: u64) = 2 ^ k" by simp
  have "unat (ucast (ucast (2 ^ k :: u64) :: u32) - (p - c)) = 2 ^ k - unat (p - c)"
    using assms(2) u by (subst unat_sub_word) (simp_all add: word_le_nat_alt)
  then show ?thesis using lt
    by (simp add: m unsigned_ucast_eq take_bit_nat_eq_self)
qed

text \<open>C13. The user-space producer never overwrites data the kernel has not consumed. If the
  distance between producer and consumer is at most the ring's size, it still is after a
  reservation, and a reservation succeeds only when the record with its header, rounded up,
  fits in the free space; a failed reservation changes nothing.\<close>

theorem user_reserve_no_overrun:
  assumes "urb_pow2 rb k" and "unat (us_producer_pos st - us_consumer_pos st) \<le> 2 ^ k"
    and "user_ring_buffer__reserve rb sz st = (res, st')"
  shows "(case res of Inl e \<Rightarrow> st' = st \<and> (e = E2BIG \<or> e = ENOSPC)
     | Inr sample \<Rightarrow>
         unat (us_producer_pos st' - us_consumer_pos st') =
           unat (us_producer_pos st - us_consumer_pos st) + (unat sz + 15) div 8 * 8) \<and>
    unat (us_producer_pos st' - us_consumer_pos st') \<le> 2 ^ k"
proof (cases res)
  case (Inl e)
  with assms(2,3) show ?thesis
    by (auto simp: user_ring_buffer__reserve_def Let_def split: if_splits)
next
  case (Inr sample)
  note r = reserve_Inr [OF assms(3) [unfolded Inr]] and t = unat_total_size [OF reserve_Inr(1) [OF assms(3) [unfolded Inr]]]
  let ?used = "us_producer_pos st - us_consumer_pos st"
  have fit: "(unat sz + 15) div 8 * 8 \<le> 2 ^ k - unat ?used"
    using r(6) avail_size [OF assms(1,2)] t by (simp add: word_le_nat_alt)
  moreover have "(2 :: nat) ^ k < 2 ^ 64"
    using assms(1) by (intro power_strict_increasing) (simp_all add: urb_pow2_def)
  ultimately have "unat ?used + (unat sz + 15) div 8 * 8 < 2 ^ 64"
    using assms(2) by linarith
  then have "unat (?used + ucast ((sz + BPF_RINGBUF_HDR_SZ + 7) div 8 * 8)) = unat ?used + (unat sz + 15) div 8 * 8"
    by (subst unat_word_ariths(1)) (simp only: unat_ucast_u32_u64 t, simp)
  moreover have "us_producer_pos st' - us_consumer_pos st' =
      ?used + ucast ((sz + BPF_RINGBUF_HDR_SZ + 7) div 8 * 8)"
    by (simp add: r(4,5))
  ultimately show ?thesis using fit assms(2) Inr by simp
qed

theorem user_reserve_no_overrun_witness:
  "\<exists>res st'. user_ring_buffer__reserve example_urb 12 example_shared = (res, st') \<and>
     unat (us_producer_pos st' - us_consumer_pos st') \<le> 2 ^ 6"
proof -
  have "unat (us_producer_pos example_shared - us_consumer_pos example_shared) \<le> 2 ^ 6"
    by (simp add: example_shared_def)
  from user_reserve_no_overrun [OF example_urb_pow2 this example_reserve] example_reserve
  show ?thesis by blast
qed

text \<open>A timeout of \<open>-1\<close> does not wait until a sample becomes available, as documented:
  when the ring has no room, the caller is woken once, and if there is still no room then (the
  kernel may have consumed only part of the ring), the call returns \<open>ENOSPC\<close> after a single
  wait, whatever happens later.\<close>

theorem reserve_blocking_forever_gives_up:
  assumes "fst (user_ring_buffer__reserve rb sz st) = Inl ENOSPC"
    and "be_epoll env 0 = Inr cnt"
    and "fst (user_ring_buffer__reserve rb sz (st\<lparr>us_consumer_pos := be_consumer_pos env 0\<rparr>)) = Inl ENOSPC"
  shows "\<exists>st'. user_ring_buffer__reserve_blocking (Suc fuel) env rb sz (-1) st = Some (Inl ENOSPC, st')"
proof -
  have "snd (user_ring_buffer__reserve rb sz st) = st"
    using assms(1) by (auto simp: user_ring_buffer__reserve_def Let_def split: if_splits)
  then have "user_ring_buffer__reserve rb sz st = (Inl ENOSPC, st)"
    using assms(1) by (metis prod.collapse)
  moreover obtain st' where "user_ring_buffer__reserve rb sz
      (st\<lparr>us_consumer_pos := be_consumer_pos env 0\<rparr>) = (Inl ENOSPC, st')"
    using assms(3) by (metis prod.collapse)
  ultimately show ?thesis
    using assms(2) by (simp add: user_ring_buffer__reserve_blocking_def)
qed

text \<open>A full ring; the first wake-up comes after 8 bytes were consumed, 24 are needed.\<close>

theorem reserve_blocking_forever_gives_up_witness:
  "\<exists>st'. user_ring_buffer__reserve_blocking (Suc 0)
     \<lparr>be_start = Inl 0, be_epoll = (\<lambda>i. Inr 1), be_consumer_pos = (\<lambda>i. if i = 0 then 8 else 64),
      be_clock = (\<lambda>i. Inl 0)\<rparr> example_urb 12 (-1) (example_shared\<lparr>us_consumer_pos := 0, us_producer_pos := 64\<rparr>)
     = Some (Inl ENOSPC, st')"
  by (rule reserve_blocking_forever_gives_up)
    (simp_all add: user_ring_buffer__reserve_def example_urb_def example_shared_def ringbuf_bits Let_def)

end
