(* ===== verification/Hashmap.thy ===== *)
theory Hashmap
  imports Prelude "HOL-Library.Multiset"
begin

text \<open>
  The generic hash map of libbpf, \<open>libbpf/src/hashmap.c\<close> and \<open>hashmap.h\<close>: separate
  chaining, a power-of-two number of buckets, growth at three quarters load.
  A bucket (a chain of \<open>struct hashmap_entry\<close>) is the list of its entries; a null
  bucket array is the empty list. Each allocation's outcome is a boolean argument.
  Sizes are natural numbers: an entry takes 24 bytes, so a 64-bit count cannot overflow.
\<close>

section \<open>Hashing\<close>

definition hash_bits :: "u64 \<Rightarrow> nat \<Rightarrow> nat" where
  "hash_bits h bits =
     (if bits = 0 then 0 else unat (drop_bit (64 - bits) (h * 11400714819323198485)))"

text \<open>Characters are signed on the hosts the filter is built for.\<close>

fun str_hash_loop :: "u64 \<Rightarrow> u8 list \<Rightarrow> u64" where
  "str_hash_loop h [] = h"
| "str_hash_loop h (c # s) = str_hash_loop (h * 31 + scast c) s"

definition str_hash :: "u8 list \<Rightarrow> u64" where
  "str_hash s = str_hash_loop 0 s"

section \<open>Structures\<close>

type_synonym ('k, 'v) hashmap_entry = "'k \<times> 'v"

record ('k, 'v) hashmap =
  hash_fn :: "'k \<Rightarrow> u64"
  equal_fn :: "'k \<Rightarrow> 'k \<Rightarrow> bool"
  buckets :: "('k, 'v) hashmap_entry list list"
  cap :: nat
  cap_bits :: nat
  sz :: nat

datatype hashmap_insert_strategy = HASHMAP_ADD | HASHMAP_SET | HASHMAP_UPDATE | HASHMAP_APPEND

definition HASHMAP_MIN_CAP_BITS :: nat where "HASHMAP_MIN_CAP_BITS = 2"

section \<open>Operations\<close>

definition hashmap_add_entry :: "('k \<times> 'v) list list \<Rightarrow> nat \<Rightarrow> 'k \<times> 'v \<Rightarrow> ('k \<times> 'v) list list" where
  "hashmap_add_entry bs h e = bs[h := e # bs ! h]"

text \<open>\<open>pprev\<close> is the index of the entry in its chain.\<close>

definition hashmap_del_entry :: "('k \<times> 'v) list list \<Rightarrow> nat \<Rightarrow> nat \<Rightarrow> ('k \<times> 'v) list list" where
  "hashmap_del_entry bs h pprev = bs[h := take pprev (bs ! h) @ drop (Suc pprev) (bs ! h)]"

definition hashmap__init :: "('k \<Rightarrow> u64) \<Rightarrow> ('k \<Rightarrow> 'k \<Rightarrow> bool) \<Rightarrow> ('k, 'v) hashmap" where
  "hashmap__init hash equal =
     \<lparr>hash_fn = hash, equal_fn = equal, buckets = [], cap = 0, cap_bits = 0, sz = 0\<rparr>"

definition hashmap__new :: "bool \<Rightarrow> ('k \<Rightarrow> u64) \<Rightarrow> ('k \<Rightarrow> 'k \<Rightarrow> bool) \<Rightarrow> int + ('k, 'v) hashmap" where
  "hashmap__new malloc_ok hash equal =
     (if \<not> malloc_ok then Inl (- ENOMEM) else Inr (hashmap__init hash equal))"

definition hashmap__clear :: "('k, 'v) hashmap \<Rightarrow> ('k, 'v) hashmap" where
  "hashmap__clear m = m\<lparr>buckets := [], cap := 0, cap_bits := 0, sz := 0\<rparr>"

definition hashmap__size :: "('k, 'v) hashmap \<Rightarrow> nat" where
  "hashmap__size m = sz m"

definition hashmap__capacity :: "('k, 'v) hashmap \<Rightarrow> nat" where
  "hashmap__capacity m = cap m"

definition hashmap_needs_to_grow :: "('k, 'v) hashmap \<Rightarrow> bool" where
  "hashmap_needs_to_grow m \<longleftrightarrow> cap m = 0 \<or> (sz m + 1) * 4 div 3 > cap m"

text \<open>All entries in the order of \<open>hashmap__for_each_entry\<close>: by bucket, along each chain.\<close>

definition hashmap_entries :: "('k, 'v) hashmap \<Rightarrow> ('k \<times> 'v) list" where
  "hashmap_entries m = concat (take (cap m) (buckets m))"

definition hashmap_grow :: "bool \<Rightarrow> ('k, 'v) hashmap \<Rightarrow> int \<times> ('k, 'v) hashmap" where
  "hashmap_grow calloc_ok m =
     (let new_cap_bits = cap_bits m + 1;
          new_cap_bits = (if new_cap_bits < HASHMAP_MIN_CAP_BITS then HASHMAP_MIN_CAP_BITS else new_cap_bits);
          new_cap = 2 ^ new_cap_bits
      in if \<not> calloc_ok then (- ENOMEM, m)
         else
           let new_buckets =
             foldl (\<lambda>bs cur. hashmap_add_entry bs (hash_bits (hash_fn m (fst cur)) new_cap_bits) cur)
               (replicate new_cap []) (hashmap_entries m)
           in (0, m\<lparr>cap := new_cap, cap_bits := new_cap_bits, buckets := new_buckets\<rparr>))"

fun find_in_chain :: "('k \<Rightarrow> 'k \<Rightarrow> bool) \<Rightarrow> 'k \<Rightarrow> nat \<Rightarrow> ('k \<times> 'v) list \<Rightarrow> (nat \<times> ('k \<times> 'v)) option" where
  "find_in_chain eq key i [] = None"
| "find_in_chain eq key i (cur # chain) =
     (if eq (fst cur) key then Some (i, cur) else find_in_chain eq key (Suc i) chain)"

definition hashmap_find_entry :: "('k, 'v) hashmap \<Rightarrow> 'k \<Rightarrow> nat \<Rightarrow> (nat \<times> ('k \<times> 'v)) option" where
  "hashmap_find_entry m key h =
     (if buckets m = [] then None else find_in_chain (equal_fn m) key 0 (buckets m ! h))"

text \<open>
  The result: the error, the old key and value handed back through the pointers (\<open>None\<close>
  when they are set to 0), and the map.
\<close>

definition hashmap_insert :: "bool \<Rightarrow> bool \<Rightarrow> ('k, 'v) hashmap \<Rightarrow> 'k \<Rightarrow> 'v \<Rightarrow> hashmap_insert_strategy \<Rightarrow>
    int \<times> ('k \<times> 'v) option \<times> ('k, 'v) hashmap" where
  "hashmap_insert calloc_ok malloc_ok m key val strategy =
     (let h = hash_bits (hash_fn m key) (cap_bits m);
          found = (if strategy \<noteq> HASHMAP_APPEND then hashmap_find_entry m key h else None);
          old = map_option snd found
      in case found of
           Some (i, entry) \<Rightarrow>
             (if strategy = HASHMAP_SET \<or> strategy = HASHMAP_UPDATE
              then (0, old, m\<lparr>buckets := (buckets m)[h := (buckets m ! h)[i := (key, val)]]\<rparr>)
              else (- EEXIST, old, m))
         | None \<Rightarrow>
             if strategy = HASHMAP_UPDATE then (- ENOENT, old, m)
             else
               let (err, m1) = (if hashmap_needs_to_grow m then hashmap_grow calloc_ok m else (0, m))
               in if err \<noteq> 0 then (err, old, m)
                  else if \<not> malloc_ok then (- ENOMEM, old, m1)
                  else
                    let h1 = hash_bits (hash_fn m1 key) (cap_bits m1)
                    in (0, old, m1\<lparr>buckets := hashmap_add_entry (buckets m1) h1 (key, val),
                                  sz := sz m1 + 1\<rparr>))"

definition hashmap_find :: "('k, 'v) hashmap \<Rightarrow> 'k \<Rightarrow> 'v option" where
  "hashmap_find m key =
     (case hashmap_find_entry m key (hash_bits (hash_fn m key) (cap_bits m)) of
        None \<Rightarrow> None | Some (i, entry) \<Rightarrow> Some (snd entry))"

definition hashmap_delete :: "('k, 'v) hashmap \<Rightarrow> 'k \<Rightarrow> (('k \<times> 'v) option) \<times> ('k, 'v) hashmap" where
  "hashmap_delete m key =
     (let h = hash_bits (hash_fn m key) (cap_bits m)
      in case hashmap_find_entry m key h of
           None \<Rightarrow> (None, m)
         | Some (pprev, entry) \<Rightarrow>
             (Some entry, m\<lparr>buckets := hashmap_del_entry (buckets m) h pprev, sz := sz m - 1\<rparr>))"

definition hashmap__for_each_key_entry :: "('k, 'v) hashmap \<Rightarrow> 'k \<Rightarrow> ('k \<times> 'v) list" where
  "hashmap__for_each_key_entry m key =
     filter (\<lambda>cur. equal_fn m (fst cur) key)
       (if buckets m = [] then [] else buckets m ! hash_bits (hash_fn m key) (cap_bits m))"

section \<open>The contract\<close>

text \<open>
  What a client relies on: a finite map up to the key equality, with the operations by the
  insertion strategies. \<open>find\<close> is the contents.
\<close>

locale hashmap_contract =
  fixes equal :: "'k \<Rightarrow> 'k \<Rightarrow> bool"
    and invar :: "'m \<Rightarrow> bool"
    and empty :: 'm
    and find :: "'m \<Rightarrow> 'k \<Rightarrow> 'v option"
    and set :: "'m \<Rightarrow> 'k \<Rightarrow> 'v \<Rightarrow> 'm"
    and delete :: "'m \<Rightarrow> 'k \<Rightarrow> 'm"
    and size :: "'m \<Rightarrow> nat"
  assumes invar_empty: "invar empty"
    and find_empty: "find empty k = None"
    and invar_set: "invar m \<Longrightarrow> invar (set m k v)"
    and find_set: "invar m \<Longrightarrow> find (set m k v) k' = (if equal k k' then Some v else find m k')"
    and invar_delete: "invar m \<Longrightarrow> invar (delete m k)"
    and find_delete: "invar m \<Longrightarrow> find (delete m k) k' = (if equal k k' then None else find m k')"
    and find_cong: "invar m \<Longrightarrow> equal k k' \<Longrightarrow> find m k = find m k'"
    and size_empty: "size empty = 0"
    and size_set: "invar m \<Longrightarrow> size (set m k v) = (if find m k = None then size m + 1 else size m)"
    and size_delete: "invar m \<Longrightarrow> size (delete m k) = (if find m k = None then size m else size m - 1)"
begin

text \<open>Two writes commute unless they are to equal keys; a write shadows an earlier one.\<close>

lemma find_set_set:
  "invar m \<Longrightarrow> \<not> (equal k q \<and> equal l q) \<Longrightarrow>
     find (set (set m k v) l w) q = find (set (set m l w) k v) q"
  by (auto simp: find_set invar_set)

lemma find_set_delete:
  "invar m \<Longrightarrow> find m k = None \<Longrightarrow> find (delete (set m k v) k) q = find m q"
  using find_cong by (auto simp: find_set find_delete invar_set)

lemma find_fold_set:
  "invar m \<Longrightarrow> (\<And>k. equal k k) \<Longrightarrow> find (foldl (\<lambda>m (k, v). set m k v) m kvs) q =
     (case List.find (\<lambda>(k, v). equal k q) (rev kvs) of Some (k, v) \<Rightarrow> Some v | None \<Rightarrow> find m q)"
proof (induction kvs arbitrary: m)
  case Nil
  then show ?case by simp
next
  case (Cons kv kvs)
  obtain k v where kv: "kv = (k, v)" by force
  show ?case
    using Cons.IH [OF invar_set [OF Cons.prems(1)] Cons.prems(2)] Cons.prems(1)
    by (auto simp: kv find_append find_set split: option.splits)
qed

end

section \<open>Invariant\<close>

text \<open>Chains hold only entries that hash to them; no two entries have equal keys.\<close>

definition uniq :: "('k \<Rightarrow> 'k \<Rightarrow> bool) \<Rightarrow> ('k \<times> 'v) list \<Rightarrow> bool" where
  "uniq eq es \<longleftrightarrow> sorted_wrt (\<lambda>a b. \<not> eq (fst a) (fst b) \<and> \<not> eq (fst b) (fst a)) es"

definition hm_wf :: "('k, 'v) hashmap \<Rightarrow> bool" where
  "hm_wf m \<longleftrightarrow> length (buckets m) = cap m \<and>
     (cap m = 0 \<and> cap_bits m = 0 \<or> cap m = 2 ^ cap_bits m) \<and>
     (\<forall>i < cap m. \<forall>e \<in> set (buckets m ! i). hash_bits (hash_fn m (fst e)) (cap_bits m) = i) \<and>
     sz m = length (concat (buckets m))"

definition hm_inv :: "('k, 'v) hashmap \<Rightarrow> bool" where
  "hm_inv m \<longleftrightarrow> hm_wf m \<and> uniq (equal_fn m) (concat (buckets m))"

lemma hash_bits_less: "hash_bits h bits < 2 ^ bits"
proof (cases "bits = 0 \<or> 64 \<le> bits")
  case True
  then show ?thesis
  proof
    assume "64 \<le> bits"
    then have "(2 :: nat) ^ 64 \<le> 2 ^ bits" by (intro power_increasing) simp_all
    moreover have "hash_bits h bits < 2 ^ 64" by (simp add: hash_bits_def unat_u64_less)
    ultimately show ?thesis by linarith
  qed (simp add: hash_bits_def)
next
  case False
  let ?w = "h * 11400714819323198485"
  have "(2 :: nat) ^ 64 = 2 ^ bits * 2 ^ (64 - bits)"
    using False by (simp flip: power_add)
  then have "unat ?w < 2 ^ bits * 2 ^ (64 - bits)"
    using unsigned_less [of ?w] by simp
  then have "unat ?w div 2 ^ (64 - bits) < 2 ^ bits"
    by (simp add: less_mult_imp_div_less)
  moreover have "unat (drop_bit (64 - bits) ?w) = unat ?w div 2 ^ (64 - bits)"
    unfolding unat_drop_bit_eq by (simp add: drop_bit_eq_div)
  ultimately show ?thesis using False by (simp add: hash_bits_def)
qed

lemma find_in_chain_Some:
  "find_in_chain eq key i chain = Some (j, e) \<Longrightarrow>
     \<exists>xs ys. chain = xs @ e # ys \<and> j = i + length xs \<and> eq (fst e) key \<and> (\<forall>x\<in>set xs. \<not> eq (fst x) key)"
proof (induction chain arbitrary: i)
  case Nil
  then show ?case by simp
next
  case (Cons c chain)
  show ?case
  proof (cases "eq (fst c) key")
    case True
    with Cons.prems show ?thesis by force
  next
    case False
    with Cons.prems Cons.IH [of "Suc i"] obtain xs ys where
      "chain = xs @ e # ys" "j = Suc i + length xs" "eq (fst e) key" "\<forall>x\<in>set xs. \<not> eq (fst x) key"
      by auto
    with False show ?thesis by (intro exI [of _ "c # xs"] exI [of _ ys]) auto
  qed
qed

lemma find_in_chain_find:
  "map_option snd (find_in_chain eq key i chain) = List.find (\<lambda>e. eq (fst e) key) chain"
  by (induction chain arbitrary: i) auto

lemma find_in_chain_None: "find_in_chain eq key i chain = None \<longleftrightarrow> (\<forall>e\<in>set chain. \<not> eq (fst e) key)"
  by (induction chain arbitrary: i) auto

text \<open>The keys of a map: equality is an equivalence that the hash function respects.\<close>

locale hash_keys =
  fixes hash :: "'k \<Rightarrow> u64" and equal :: "'k \<Rightarrow> 'k \<Rightarrow> bool"
  assumes equal_refl: "equal k k"
    and equal_sym: "equal k l \<Longrightarrow> equal l k"
    and equal_trans: "equal k l \<Longrightarrow> equal l j \<Longrightarrow> equal k j"
    and equal_hash: "equal k l \<Longrightarrow> hash k = hash l"
begin

definition valid :: "('k, 'v) hashmap \<Rightarrow> bool" where
  "valid m \<longleftrightarrow> hm_inv m \<and> hash_fn m = hash \<and> equal_fn m = equal"

lemma valid_init: "valid (hashmap__init hash equal)"
  by (simp add: valid_def hashmap__init_def hm_inv_def hm_wf_def uniq_def)

lemma uniq_append:
  "uniq equal (xs @ ys) \<longleftrightarrow> uniq equal xs \<and> uniq equal ys \<and>
     (\<forall>x\<in>set xs. \<forall>y\<in>set ys. \<not> equal (fst x) (fst y))"
  using equal_sym by (auto simp: uniq_def sorted_wrt_append)

lemma uniq_Cons: "uniq equal (x # xs) \<longleftrightarrow> uniq equal xs \<and> (\<forall>y\<in>set xs. \<not> equal (fst x) (fst y))"
  using equal_sym by (auto simp: uniq_def)

lemma uniq_perm: "uniq equal xs \<Longrightarrow> mset xs = mset ys \<Longrightarrow> uniq equal ys"
proof (induction xs arbitrary: ys)
  case Nil
  then show ?case by (simp add: uniq_def)
next
  case (Cons x xs)
  then have "x \<in> set ys" by (metis list.set_intros(1) set_mset_mset)
  then obtain as bs where ys: "ys = as @ x # bs" by (meson split_list)
  with Cons.prems have "mset xs = mset (as @ bs)" by simp
  moreover from this have "set xs = set as \<union> set bs" by (metis set_append set_mset_mset)
  moreover have "uniq equal xs" "\<forall>y\<in>set xs. \<not> equal (fst x) (fst y)"
    using Cons.prems by (simp_all add: uniq_Cons)
  ultimately have "uniq equal (as @ bs)" "\<forall>y\<in>set as \<union> set bs. \<not> equal (fst x) (fst y)"
    using Cons.IH by auto
  then show ?case
    unfolding ys uniq_append uniq_Cons using equal_sym by (metis UnCI set_ConsD)
qed

end

section \<open>The operations keep the invariant and mean what they say\<close>

context hash_keys
begin

definition placed :: "nat \<Rightarrow> ('k \<times> 'v) list list \<Rightarrow> bool" where
  "placed bits bs \<longleftrightarrow> (\<forall>i < length bs. \<forall>e \<in> set (bs ! i). hash_bits (hash (fst e)) bits = i)"

lemma placed_add:
  assumes "placed bits bs" "h = hash_bits (hash (fst e)) bits" "h < length bs"
  shows "placed bits (hashmap_add_entry bs h e)"
    and "mset (concat (hashmap_add_entry bs h e)) = add_mset e (mset (concat bs))"
  using assms concat_split_nth [OF assms(3)]
  by (auto simp: placed_def hashmap_add_entry_def nth_list_update concat_list_update)

lemma in_take_concat: "e \<in> set (concat (take h bs)) \<Longrightarrow> \<exists>i < length bs. i < h \<and> e \<in> set (bs ! i)"
  by (fastforce simp: in_set_conv_nth)

lemma in_drop_concat: "e \<in> set (concat (drop (Suc h) bs)) \<Longrightarrow> \<exists>i < length bs. h < i \<and> e \<in> set (bs ! i)"
proof -
  assume "e \<in> set (concat (drop (Suc h) bs))"
  then obtain c where "c \<in> set (drop (Suc h) bs)" "e \<in> set c" by auto
  then obtain j where "j < length bs - Suc h" "drop (Suc h) bs ! j = c"
    by (auto simp: in_set_conv_nth)
  with \<open>e \<in> set c\<close> show ?thesis by (intro exI [of _ "Suc h + j"]) auto
qed

lemma placed_other:
  assumes "placed bits bs" "h = hash_bits (hash k) bits"
    and "e \<in> set (concat (take h bs)) \<union> set (concat (drop (Suc h) bs))"
  shows "\<not> equal (fst e) k"
proof
  assume "equal (fst e) k"
  then have "hash_bits (hash (fst e)) bits = h" using assms(2) equal_hash by simp
  moreover obtain i where "i < length bs" "i \<noteq> h" "e \<in> set (bs ! i)"
    using assms(3)
  proof
    assume "e \<in> set (concat (take h bs))"
    from in_take_concat [OF this] obtain i where "i < length bs" "i < h" "e \<in> set (bs ! i)" by blast
    then show ?thesis by (intro that [of i]) simp_all
  next
    assume "e \<in> set (concat (drop (Suc h) bs))"
    from in_drop_concat [OF this] obtain i where "i < length bs" "h < i" "e \<in> set (bs ! i)" by blast
    then show ?thesis by (intro that [of i]) simp_all
  qed
  ultimately show False using assms(1) unfolding placed_def by (metis (no_types))
qed

lemma validD:
  assumes "valid m"
  shows "hash_fn m = hash" "equal_fn m = equal" "uniq equal (concat (buckets m))"
    "placed (cap_bits m) (buckets m)" "length (buckets m) = cap m" "sz m = length (concat (buckets m))"
  using assms unfolding valid_def hm_inv_def hm_wf_def placed_def by auto

lemma valid_index:
  assumes "valid m" "buckets m \<noteq> []"
  shows "hash_bits (hash k) (cap_bits m) < length (buckets m)"
  using assms hash_bits_less [of "hash k" "cap_bits m"]
  by (auto simp: valid_def hm_inv_def hm_wf_def)

lemma chain_find:
  assumes "valid m" "buckets m \<noteq> []"
  shows "List.find (\<lambda>e. equal (fst e) k) (concat (buckets m)) =
    List.find (\<lambda>e. equal (fst e) k) (buckets m ! hash_bits (hash k) (cap_bits m))"
proof -
  let ?h = "hash_bits (hash k) (cap_bits m)"
  note i = valid_index [OF assms, of k] and o = placed_other [OF validD(4) [OF assms(1)] refl, of _ k]
  have "List.find (\<lambda>e. equal (fst e) k) (concat (take ?h (buckets m))) = None"
    by (rule find_none) (rule o, blast)
  moreover have "List.find (\<lambda>e. equal (fst e) k) (concat (drop (Suc ?h) (buckets m))) = None"
    by (rule find_none) (rule o, blast)
  ultimately show ?thesis
    by (subst concat_split_nth [OF i]) (simp add: find_append split: option.splits)
qed

lemma find_entries:
  assumes "valid m"
  shows "hashmap_find m k = map_option snd (List.find (\<lambda>e. equal (fst e) k) (concat (buckets m)))"
proof (cases "buckets m = []")
  case True
  then show ?thesis by (simp add: hashmap_find_def hashmap_find_entry_def)
next
  case False
  have "hashmap_find m k =
      map_option snd (map_option snd (find_in_chain equal k 0 (buckets m ! hash_bits (hash k) (cap_bits m))))"
    using False by (auto simp: hashmap_find_def hashmap_find_entry_def validD(1,2) [OF assms]
        split: option.splits)
  then show ?thesis by (simp only: find_in_chain_find chain_find [OF assms False])
qed

lemma find_uniq:
  "uniq equal es \<Longrightarrow> List.find (\<lambda>e. equal (fst e) k) es = Some e \<longleftrightarrow> e \<in> set es \<and> equal (fst e) k"
proof (induction es)
  case (Cons a es)
  show ?case
  proof (cases "equal (fst a) k")
    case True
    then have "e \<notin> set es \<or> \<not> equal (fst e) k"
      using Cons.prems equal_sym equal_trans unfolding uniq_Cons by blast
    with True show ?thesis by auto
  next
    case False
    with Cons show ?thesis by (auto simp: uniq_Cons)
  qed
qed simp

text \<open>Contents depend on the entries as a set only.\<close>

lemma find_iff:
  assumes "valid m"
  shows "hashmap_find m k = Some v \<longleftrightarrow> (\<exists>e. e \<in> set (concat (buckets m)) \<and> equal (fst e) k \<and> snd e = v)"
  unfolding find_entries [OF assms] map_option_eq_Some find_uniq [OF validD(3) [OF assms]]
  by blast

lemma find_None:
  assumes "valid m"
  shows "hashmap_find m k = None \<longleftrightarrow> (\<forall>e. e \<in> set (concat (buckets m)) \<longrightarrow> \<not> equal (fst e) k)"
  unfolding find_entries [OF assms] map_option_is_None find_None_iff by blast

lemma find_cong_equal:
  assumes "valid m" "equal k k'"
  shows "hashmap_find m k = hashmap_find m k'"
proof (cases "hashmap_find m k'")
  case None
  then have "\<not> equal (fst e) k'" if "e \<in> set (concat (buckets m))" for e
    using that unfolding find_None [OF assms(1)] by blast
  then have "hashmap_find m k = None"
    using equal_trans [OF _ assms(2)] unfolding find_None [OF assms(1)] by blast
  with None show ?thesis by simp
next
  case (Some v)
  then have "hashmap_find m k = Some v"
    using equal_trans [OF _ equal_sym [OF assms(2)]] unfolding find_iff [OF assms(1)] by blast
  with Some show ?thesis by simp
qed

end

context hash_keys
begin

text \<open>Growing rebuilds the chains of the same entries.\<close>

lemma rebuild:
  assumes "length bs = 2 ^ bits" "placed bits bs"
    and "res = foldl (\<lambda>bs cur. hashmap_add_entry bs (hash_bits (hash (fst cur)) bits) cur) bs es"
  shows "length res = 2 ^ bits \<and> placed bits res \<and> mset (concat res) = mset (concat bs) + mset es"
  using assms(1,2) unfolding assms(3)
proof (induction es arbitrary: bs)
  case Nil
  then show ?case by simp
next
  case (Cons e es)
  let ?h = "hash_bits (hash (fst e)) bits"
  have "?h < length bs" using hash_bits_less [of "hash (fst e)" bits] Cons.prems(1) by simp
  note add = placed_add [OF Cons.prems(2) refl this]
  have "length (hashmap_add_entry bs ?h e) = 2 ^ bits"
    using Cons.prems(1) by (simp add: hashmap_add_entry_def)
  from Cons.IH [OF this add(1)] show ?case by (simp add: add(2))
qed

lemma grow_valid:
  assumes "valid m" "hashmap_grow True m = (err, m')"
  shows "err = 0" "valid m'" "mset (concat (buckets m')) = mset (concat (buckets m))" "buckets m' \<noteq> []"
proof -
  define bits where "bits = (if cap_bits m + 1 < HASHMAP_MIN_CAP_BITS then HASHMAP_MIN_CAP_BITS else cap_bits m + 1)"
  define bs where "bs = foldl (\<lambda>bs cur. hashmap_add_entry bs (hash_bits (hash (fst cur)) bits) cur)
    (replicate (2 ^ bits) []) (concat (buckets m))"
  note v = validD [OF assms(1)]
  have "hashmap_grow True m = (0, m\<lparr>cap := 2 ^ bits, cap_bits := bits, buckets := bs\<rparr>)"
    unfolding hashmap_grow_def Let_def bits_def [symmetric]
    using v(1,5) by (simp add: bs_def hashmap_entries_def)
  then have m': "err = 0" "m' = m\<lparr>cap := 2 ^ bits, cap_bits := bits, buckets := bs\<rparr>"
    using assms(2) by simp_all
  have "placed bits (replicate (2 ^ bits) [])" by (simp add: placed_def)
  from rebuild [OF _ this bs_def]
  have r: "length bs = 2 ^ bits" "placed bits bs" "mset (concat bs) = mset (concat (buckets m))"
    by simp_all
  show "err = 0" "mset (concat (buckets m')) = mset (concat (buckets m))" using m' r(3) by simp_all
  show "buckets m' \<noteq> []" using m'(2) r(1) by auto
  have "length (concat bs) = length (concat (buckets m))" using r(3) by (metis size_mset)
  moreover have "uniq equal (concat bs)" using uniq_perm [OF v(3)] r(3) by simp
  ultimately show "valid m'"
    using v r by (simp add: m'(2) valid_def hm_inv_def hm_wf_def placed_def)
qed

text \<open>Adding a new key, and replacing or removing the entry that was found.\<close>

lemma add_valid:
  assumes "valid m" "buckets m \<noteq> []" "hashmap_find m k = None"
    and m'_def: "m' = m\<lparr>buckets := hashmap_add_entry (buckets m) (hash_bits (hash k) (cap_bits m)) (k, v),
      sz := sz m + 1\<rparr>"
  shows "valid m' \<and> mset (concat (buckets m')) = add_mset (k, v) (mset (concat (buckets m)))"
proof -
  let ?h = "hash_bits (hash k) (cap_bits m)"
  note d = validD [OF assms(1)] and i = valid_index [OF assms(1,2), of k]
  note add = placed_add [OF d(4), of ?h "(k, v)", simplified, OF i]
  have "uniq equal ((k, v) # concat (buckets m))"
    using d(3) assms(3) equal_sym unfolding uniq_Cons find_None [OF assms(1)] by (metis fst_conv)
  then have "uniq equal (concat (hashmap_add_entry (buckets m) ?h (k, v)))"
    by (rule uniq_perm) (simp add: add(2))
  moreover have "length (concat (hashmap_add_entry (buckets m) ?h (k, v))) = sz m + 1"
    using d(6) arg_cong [OF add(2), of size] by (simp del: mset_concat length_concat)
  ultimately show ?thesis
    using assms(1) add i
    by (simp add: m'_def valid_def hm_inv_def hm_wf_def placed_def hashmap_add_entry_def)
qed

text \<open>The contents of two maps that differ in one entry.\<close>

lemma find_by_mset:
  assumes "valid m" "valid d"
    and "mset (concat (buckets m)) = add_mset e (mset (concat (buckets d)))"
  shows "hashmap_find m q = (if equal (fst e) q then Some (snd e) else hashmap_find d q)"
    and "equal (fst e) q \<Longrightarrow> hashmap_find d q = None"
proof -
  have s: "x \<in> set (concat (buckets m)) \<longleftrightarrow> x = e \<or> x \<in> set (concat (buckets d))" for x
    using arg_cong [OF assms(3), of set_mset] unfolding set_mset_mset set_mset_add_mset_insert by blast
  have "uniq equal (e # concat (buckets d))"
    using uniq_perm [OF validD(3) [OF assms(1)], of "e # concat (buckets d)"] assms(3) by simp
  then have new: "\<not> equal (fst e) (fst x)" if "x \<in> set (concat (buckets d))" for x
    using that unfolding uniq_Cons by blast
  show none: "hashmap_find d q = None" if "equal (fst e) q"
    unfolding find_None [OF assms(2)] using new that equal_sym equal_trans by blast
  show "hashmap_find m q = (if equal (fst e) q then Some (snd e) else hashmap_find d q)"
  proof (cases "equal (fst e) q")
    case True
    then have "hashmap_find m q = Some (snd e)" unfolding find_iff [OF assms(1)] using s by blast
    with True show ?thesis by simp
  next
    case False
    then have "hashmap_find m q = Some v \<longleftrightarrow> hashmap_find d q = Some v" for v
      unfolding find_iff [OF assms(1)] find_iff [OF assms(2)] s by blast
    then have "hashmap_find m q = hashmap_find d q" by (metis option.exhaust)
    with False show ?thesis by simp
  qed
qed

lemma found_split:
  assumes "valid m" "hashmap_find_entry m k (hash_bits (hash k) (cap_bits m)) = Some (i, e)"
  obtains A xs ys B where
    "buckets m ! hash_bits (hash k) (cap_bits m) = xs @ e # ys" "i = length xs" "equal (fst e) k"
    "concat (buckets m) = A @ (xs @ e # ys) @ B"
    "\<And>chain. concat ((buckets m)[hash_bits (hash k) (cap_bits m) := chain]) = A @ chain @ B"
    "hash_bits (hash k) (cap_bits m) < length (buckets m)"
proof -
  let ?h = "hash_bits (hash k) (cap_bits m)"
  have ne: "buckets m \<noteq> []" and f: "find_in_chain equal k 0 (buckets m ! ?h) = Some (i, e)"
    using assms(2) validD(2) [OF assms(1)] by (auto simp: hashmap_find_entry_def split: if_splits)
  from find_in_chain_Some [OF f] obtain xs ys where
    xs: "buckets m ! ?h = xs @ e # ys" "i = length xs" "equal (fst e) k" by auto
  note l = valid_index [OF assms(1) ne, of k]
  show ?thesis
    by (rule that [OF xs, of "concat (take ?h (buckets m))" "concat (drop (Suc ?h) (buckets m))"])
      (use concat_split_nth [OF l] xs(1) l concat_list_update [OF l] in simp_all)
qed

lemma put_valid:
  assumes "valid m" "h < length (buckets m)" "concat ((buckets m)[h := chain]) = es" "uniq equal es"
    and "\<forall>x\<in>set chain. hash_bits (hash (fst x)) (cap_bits m) = h" "n = length es"
  shows "valid (m\<lparr>buckets := (buckets m)[h := chain], sz := n\<rparr>)"
proof -
  note d = validD [OF assms(1)]
  have "placed (cap_bits m) ((buckets m)[h := chain])"
    using d(4) assms(2,5) unfolding placed_def by (metis length_list_update nth_list_update)
  then show ?thesis
    using assms d by (auto simp: valid_def hm_inv_def hm_wf_def placed_def)
qed

lemma delete_found:
  assumes "valid m" "hashmap_find_entry m k (hash_bits (hash k) (cap_bits m)) = Some (i, e)"
  shows "fst (hashmap_delete m k) = Some e" "valid (snd (hashmap_delete m k))"
    "mset (concat (buckets m)) = add_mset e (mset (concat (buckets (snd (hashmap_delete m k)))))"
    "equal (fst e) k"
proof -
  let ?h = "hash_bits (hash k) (cap_bits m)"
  note d = validD [OF assms(1)]
  obtain A xs ys B where
    s: "buckets m ! ?h = xs @ e # ys" "i = length xs" "equal (fst e) k"
      "concat (buckets m) = A @ (xs @ e # ys) @ B"
      "\<And>chain. concat ((buckets m)[?h := chain]) = A @ chain @ B" "?h < length (buckets m)"
    by (rule found_split [OF assms]) (rule that)
  have del: "hashmap_delete m k =
      (Some e, m\<lparr>buckets := (buckets m)[?h := xs @ ys], sz := sz m - 1\<rparr>)"
    using s(1,2) assms(2) by (simp add: hashmap_delete_def d(1) hashmap_del_entry_def)
  have "uniq equal (A @ (xs @ ys) @ B)"
    using d(3) unfolding s(4) uniq_append uniq_Cons by auto
  moreover have "\<forall>x\<in>set (xs @ ys). hash_bits (hash (fst x)) (cap_bits m) = ?h"
    using d(4) s(1,6) by (simp add: placed_def)
  moreover have "sz m - 1 = length (A @ (xs @ ys) @ B)" using d(6) s(4) by simp
  ultimately show "valid (snd (hashmap_delete m k))"
    unfolding del snd_conv by (intro put_valid [OF assms(1) s(6,5)]) simp_all
  show "fst (hashmap_delete m k) = Some e" "equal (fst e) k" using del s(3) by simp_all
  show "mset (concat (buckets m)) = add_mset e (mset (concat (buckets (snd (hashmap_delete m k)))))"
    unfolding del s(4) using s(5) by simp
qed

lemma replace_found:
  assumes "valid m" "hashmap_find_entry m k (hash_bits (hash k) (cap_bits m)) = Some (i, e)"
    and "m' = m\<lparr>buckets := (buckets m)[hash_bits (hash k) (cap_bits m) :=
      (buckets m ! hash_bits (hash k) (cap_bits m))[i := (k, v)]]\<rparr>"
  shows "valid m'" "sz m' = sz m"
    "mset (concat (buckets m')) = add_mset (k, v) (mset (concat (buckets (snd (hashmap_delete m k)))))"
proof -
  let ?h = "hash_bits (hash k) (cap_bits m)"
  note d = validD [OF assms(1)]
  obtain A xs ys B where
    s: "buckets m ! ?h = xs @ e # ys" "i = length xs" "equal (fst e) k"
      "concat (buckets m) = A @ (xs @ e # ys) @ B"
      "\<And>chain. concat ((buckets m)[?h := chain]) = A @ chain @ B" "?h < length (buckets m)"
    by (rule found_split [OF assms(1,2)]) (rule that)
  have m': "m' = m\<lparr>buckets := (buckets m)[?h := xs @ (k, v) # ys], sz := sz m\<rparr>"
    using assms(3) s(1,2) by simp
  have "uniq equal (e # A @ xs @ ys @ B)" using uniq_perm [OF d(3)] by (simp add: s(4))
  then have "uniq equal ((k, v) # A @ xs @ ys @ B)"
    unfolding uniq_Cons using equal_trans [OF s(3)] by (metis fst_conv)
  then have "uniq equal (A @ (xs @ (k, v) # ys) @ B)" by (rule uniq_perm) simp
  moreover have "\<forall>x\<in>set (xs @ e # ys). hash_bits (hash (fst x)) (cap_bits m) = ?h"
    using d(4) s(1,6) by (simp add: placed_def)
  moreover have "sz m = length (A @ (xs @ (k, v) # ys) @ B)" using d(6) s(4) by simp
  ultimately show "valid m'"
    unfolding m' by (intro put_valid [OF assms(1) s(6,5)]) simp_all
  show "sz m' = sz m" by (simp add: m')
  have "concat (buckets (snd (hashmap_delete m k))) = A @ (xs @ ys) @ B"
    using s(1,2,5) assms(2) by (simp add: hashmap_delete_def d(1) hashmap_del_entry_def)
  then show "mset (concat (buckets m')) = add_mset (k, v) (mset (concat (buckets (snd (hashmap_delete m k)))))"
    unfolding m' using s(5) by simp
qed

lemma find_entry_None:
  assumes "valid m"
  shows "hashmap_find_entry m k (hash_bits (hash k) (cap_bits m)) = None \<longleftrightarrow> hashmap_find m k = None"
  using validD(1) [OF assms] by (auto simp: hashmap_find_def split: option.splits)

lemma find_entry_Some:
  assumes "valid m" "hashmap_find_entry m k (hash_bits (hash k) (cap_bits m)) = Some (i, e)"
  shows "hashmap_find m k = Some (snd e)"
  using validD(1) [OF assms(1)] assms(2) by (simp add: hashmap_find_def)

lemma equal_left: "equal k l \<Longrightarrow> equal k q \<longleftrightarrow> equal l q"
  using equal_sym equal_trans by blast

text \<open>Inserting a key that is absent.\<close>

lemma insert_absent:
  assumes "valid m" "hashmap_find m k = None" "strategy \<noteq> HASHMAP_UPDATE"
    and m': "m' = snd (snd (hashmap_insert True True m k v strategy))"
  shows "fst (hashmap_insert True True m k v strategy) = 0" "valid m'"
    "mset (concat (buckets m')) = add_mset (k, v) (mset (concat (buckets m)))"
proof -
  obtain err g where g: "(if hashmap_needs_to_grow m then hashmap_grow True m else (0, m)) = (err, g)"
    by force
  have gv: "err = 0" "valid g" "mset (concat (buckets g)) = mset (concat (buckets m))" "buckets g \<noteq> []"
  proof -
    have "hashmap_needs_to_grow m" if "buckets m = []"
      using that validD(5) [OF assms(1)] by (simp add: hashmap_needs_to_grow_def)
    then show "err = 0" "valid g" "mset (concat (buckets g)) = mset (concat (buckets m))" "buckets g \<noteq> []"
      using g grow_valid [OF assms(1)] assms(1) by (auto split: if_splits)
  qed
  have "hashmap_find g k = None"
    using assms(2) arg_cong [OF gv(3), of set_mset]
    unfolding find_None [OF assms(1)] find_None [OF gv(2)] set_mset_mset by blast
  note add = add_valid [OF gv(2,4) this refl, of v]
  have "hashmap_find_entry m k (hash_bits (hash k) (cap_bits m)) = None"
    using find_entry_None [OF assms(1)] assms(2) by simp
  then have ins: "hashmap_insert True True m k v strategy = (0, None,
      g\<lparr>buckets := hashmap_add_entry (buckets g) (hash_bits (hash k) (cap_bits g)) (k, v), sz := sz g + 1\<rparr>)"
    unfolding hashmap_insert_def Let_def validD(1) [OF assms(1)] g
    using assms(3) gv(1) validD(1) [OF gv(2)] by simp
  show "fst (hashmap_insert True True m k v strategy) = 0" by (simp add: ins)
  show "valid m'" "mset (concat (buckets m')) = add_mset (k, v) (mset (concat (buckets m)))"
    using add gv(3) unfolding m' ins snd_conv by simp_all
qed

lemma insert_absent_find:
  assumes "valid m" "hashmap_find m k = None" "strategy \<noteq> HASHMAP_UPDATE"
  shows "hashmap_find (snd (snd (hashmap_insert True True m k v strategy))) q =
    (if equal k q then Some v else hashmap_find m q)"
  using find_by_mset(1) [OF insert_absent(2) [OF assms refl] assms(1) insert_absent(3) [OF assms refl]]
  by simp

text \<open>Replacing the entry of a key that is present.\<close>

lemma insert_present:
  assumes "valid m" "hashmap_find m k = Some w" "strategy = HASHMAP_SET \<or> strategy = HASHMAP_UPDATE"
    and m': "m' = snd (snd (hashmap_insert calloc_ok malloc_ok m k v strategy))"
  shows "fst (hashmap_insert calloc_ok malloc_ok m k v strategy) = 0"
    "map_option snd (fst (snd (hashmap_insert calloc_ok malloc_ok m k v strategy))) = Some w"
    "valid m'" "sz m' = sz m"
    "hashmap_find m' q = (if equal k q then Some v else hashmap_find m q)"
proof -
  let ?h = "hash_bits (hash k) (cap_bits m)"
  obtain i e where f: "hashmap_find_entry m k ?h = Some (i, e)"
    using assms(2) find_entry_None [OF assms(1), of k] by (cases "hashmap_find_entry m k ?h") auto
  have ins: "hashmap_insert calloc_ok malloc_ok m k v strategy =
      (0, Some e, m\<lparr>buckets := (buckets m)[?h := (buckets m ! ?h)[i := (k, v)]]\<rparr>)"
    unfolding hashmap_insert_def Let_def validD(1) [OF assms(1)] using f assms(3) by auto
  have "m' = m\<lparr>buckets := (buckets m)[?h := (buckets m ! ?h)[i := (k, v)]]\<rparr>"
    by (simp only: m' ins snd_conv)
  note r = replace_found [OF assms(1) f this] and d = delete_found [OF assms(1) f]
  show "fst (hashmap_insert calloc_ok malloc_ok m k v strategy) = 0" by (simp add: ins)
  show "map_option snd (fst (snd (hashmap_insert calloc_ok malloc_ok m k v strategy))) = Some w"
    using find_entry_Some [OF assms(1) f] assms(2) by (simp add: ins)
  show "valid m'" "sz m' = sz m" by (rule r)+
  show "hashmap_find m' q = (if equal k q then Some v else hashmap_find m q)"
    unfolding find_by_mset(1) [OF r(1) d(2) r(3), of q] find_by_mset(1) [OF assms(1) d(2,3), of q]
    using equal_left [OF d(4)] by simp
qed

lemma insert_set:
  assumes "valid m" and m': "m' = snd (snd (hashmap_insert True True m k v HASHMAP_SET))"
  shows "valid m'" "hashmap_find m' q = (if equal k q then Some v else hashmap_find m q)"
    "sz m' = (if hashmap_find m k = None then sz m + 1 else sz m)"
proof -
  have "valid m' \<and> hashmap_find m' q = (if equal k q then Some v else hashmap_find m q) \<and>
    sz m' = (if hashmap_find m k = None then sz m + 1 else sz m)"
  proof (cases "hashmap_find m k")
    case None
    note a = insert_absent [OF assms(1) None _ m', simplified]
    have "sz m' = size (mset (concat (buckets m')))" using validD(6) [OF a(2)] by (simp del: mset_concat)
    also have "\<dots> = sz m + 1" unfolding a(3) using validD(6) [OF assms(1)] by (simp del: mset_concat)
    finally show ?thesis
      using a(2) insert_absent_find [OF assms(1) None, of HASHMAP_SET v q] None m' by simp
  next
    case (Some w)
    from insert_present [OF assms(1) Some _ m'] Some show ?thesis by simp
  qed
  then show "valid m'" "hashmap_find m' q = (if equal k q then Some v else hashmap_find m q)"
    "sz m' = (if hashmap_find m k = None then sz m + 1 else sz m)" by blast+
qed

lemma delete_all:
  assumes "valid m"
  shows "valid (snd (hashmap_delete m k))"
    "hashmap_find (snd (hashmap_delete m k)) q = (if equal k q then None else hashmap_find m q)"
    "sz (snd (hashmap_delete m k)) = (if hashmap_find m k = None then sz m else sz m - 1)"
    "map_option snd (fst (hashmap_delete m k)) = hashmap_find m k"
proof -
  let ?h = "hash_bits (hash k) (cap_bits m)" and ?m = "snd (hashmap_delete m k)"
  have "valid ?m \<and> hashmap_find ?m q = (if equal k q then None else hashmap_find m q) \<and>
    sz ?m = (if hashmap_find m k = None then sz m else sz m - 1) \<and>
    map_option snd (fst (hashmap_delete m k)) = hashmap_find m k"
  proof (cases "hashmap_find_entry m k ?h")
    case None
    then have "hashmap_delete m k = (None, m)" "hashmap_find m k = None"
      using find_entry_None [OF assms, of k] unfolding hashmap_delete_def Let_def validD(1) [OF assms]
      by simp_all
    then show ?thesis using assms find_cong_equal [OF assms] by auto
  next
    case (Some ie)
    then obtain i e where f: "hashmap_find_entry m k ?h = Some (i, e)" by (cases ie) simp
    note d = delete_found [OF assms f]
    have "sz ?m = sz m - 1"
      using f validD(1) [OF assms] by (simp add: hashmap_delete_def Let_def)
    then show ?thesis
      using d(1,2) find_entry_Some [OF assms f] find_by_mset [OF assms d(2,3), of q] equal_left [OF d(4)]
      by simp
  qed
  then show "valid ?m" "hashmap_find ?m q = (if equal k q then None else hashmap_find m q)"
    "sz ?m = (if hashmap_find m k = None then sz m else sz m - 1)"
    "map_option snd (fst (hashmap_delete m k)) = hashmap_find m k" by blast+
qed

end

lemma grow_fails: "hashmap_grow False m = (- ENOMEM, m)"
  by (simp add: hashmap_grow_def)

context hash_keys
begin

text \<open>An insertion that runs out of memory leaves the contents alone, though it may have grown the array.\<close>

lemma insert_nomem:
  assumes "valid m" "hashmap_find m k = None" "s \<noteq> HASHMAP_UPDATE" "\<not> (c \<and> a)"
    and r: "hashmap_insert c a m k v s = (err, old, m')" "err \<noteq> 0"
  shows "err = - ENOMEM" "valid m'" "hashmap_find m' = hashmap_find m"
    "mset (concat (buckets m')) = mset (concat (buckets m))"
proof -
  note h = validD(1) [OF assms(1)]
  have n: "hashmap_find_entry m k (hash_bits (hash k) (cap_bits m)) = None"
    using find_entry_None [OF assms(1), of k] assms(2) by simp
  obtain e g where g: "(if hashmap_needs_to_grow m then hashmap_grow c m else (0, m)) = (e, g)"
    by force
  have "hashmap_insert c a m k v s = (if e \<noteq> 0 then (e, None, m) else if \<not> a then (- ENOMEM, None, g)
      else (0, None, g\<lparr>buckets := hashmap_add_entry (buckets g) (hash_bits (hash_fn g k) (cap_bits g)) (k, v),
        sz := sz g + 1\<rparr>))"
    unfolding hashmap_insert_def Let_def h g using n assms(3) by simp
  moreover have e: "e = 0 \<or> e = - ENOMEM"
    using g grow_fails [of m] grow_valid(1) [OF assms(1)] by (cases c) (auto split: if_splits)
  ultimately have m': "err = - ENOMEM" "m' = m \<or> e = 0 \<and> m' = g"
    using r by (auto split: if_splits)
  then show "err = - ENOMEM" by simp
  have "valid g \<and> mset (concat (buckets g)) = mset (concat (buckets m))" if "e = 0"
    using that g grow_valid [OF assms(1)] grow_fails [of m] assms(1) by (cases c) (auto split: if_splits)
  then have v: "valid m'" "mset (concat (buckets m')) = mset (concat (buckets m))"
    using m'(2) assms(1) by auto
  then show "valid m'" "mset (concat (buckets m')) = mset (concat (buckets m))" by simp_all
  have "hashmap_find m' q = Some w \<longleftrightarrow> hashmap_find m q = Some w" for q w
    unfolding find_iff [OF v(1)] find_iff [OF assms(1)]
    using arg_cong [OF v(2), of set_mset] unfolding set_mset_mset by blast
  then show "hashmap_find m' = hashmap_find m" by (intro ext) (metis option.exhaust)
qed

end

sublocale hash_keys \<subseteq> hm: hashmap_contract equal valid "hashmap__init hash equal" hashmap_find
  "\<lambda>m k v. snd (snd (hashmap_insert True True m k v HASHMAP_SET))" "\<lambda>m k. snd (hashmap_delete m k)" sz
proof
  show "hashmap_find (hashmap__init hash equal) k = None" for k
    by (simp add: hashmap_find_def hashmap_find_entry_def hashmap__init_def)
  show "sz (hashmap__init hash equal) = 0" by (simp add: hashmap__init_def)
  show "valid (hashmap__init hash equal)" by (rule valid_init)
next
  fix m :: "('k, 'a) hashmap" and k k' v
  assume m: "valid m"
  note s = insert_set [OF m refl] and d = delete_all [OF m]
  show "valid (snd (snd (hashmap_insert True True m k v HASHMAP_SET)))" by (rule s)
  show "hashmap_find (snd (snd (hashmap_insert True True m k v HASHMAP_SET))) k' =
      (if equal k k' then Some v else hashmap_find m k')" by (rule s)
  show "sz (snd (snd (hashmap_insert True True m k v HASHMAP_SET))) =
      (if hashmap_find m k = None then sz m + 1 else sz m)" by (rule s)
  show "valid (snd (hashmap_delete m k))" by (rule d)
  show "hashmap_find (snd (hashmap_delete m k)) k' = (if equal k k' then None else hashmap_find m k')"
    by (rule d)
  show "sz (snd (hashmap_delete m k)) = (if hashmap_find m k = None then sz m else sz m - 1)" by (rule d)
  show "hashmap_find m k = hashmap_find m k'" if "equal k k'" using that by (rule find_cong_equal [OF m])
qed

section \<open>Maps keyed by value\<close>

text \<open>With plain equality of keys any hash function will do.\<close>

interpretation eqk: hash_keys hash "(=)" for hash :: "'k \<Rightarrow> u64"
  by unfold_locales simp_all

interpretation strk: hash_keys str_hash "(=)"
  by unfold_locales simp_all

lemma valid_eqk: "eqk.valid (hash_fn m) m \<longleftrightarrow> hm_inv m \<and> equal_fn m = (=)"
  by (simp add: eqk.valid_def)

subsection \<open>Operations as steps, against a partial function\<close>

datatype ('k, 'v) hm_op =
    Insert 'k 'v hashmap_insert_strategy bool bool
  | Delete 'k
  | Clear

fun hm_step :: "('k, 'v) hm_op \<Rightarrow> ('k, 'v) hashmap \<Rightarrow> int \<times> ('k, 'v) hashmap" where
  "hm_step (Insert k v s calloc_ok malloc_ok) m =
     (case hashmap_insert calloc_ok malloc_ok m k v s of (err, _, m') \<Rightarrow> (err, m'))"
| "hm_step (Delete k) m =
     (case hashmap_delete m k of (None, m') \<Rightarrow> (0, m') | (Some _, m') \<Rightarrow> (1, m'))"
| "hm_step Clear m = (0, hashmap__clear m)"

fun hm_run :: "('k, 'v) hm_op list \<Rightarrow> ('k, 'v) hashmap \<Rightarrow> int list \<times> ('k, 'v) hashmap" where
  "hm_run [] m = ([], m)"
| "hm_run (op # ops) m =
     (let (err, m1) = hm_step op m; (errs, m2) = hm_run ops m1 in (err # errs, m2))"

text \<open>The contents an operation may leave when it returns a given code; \<open>None\<close> where it may not.\<close>

fun spec_step :: "('k, 'v) hm_op \<Rightarrow> int \<Rightarrow> ('k \<rightharpoonup> 'v) \<Rightarrow> ('k \<rightharpoonup> 'v) option" where
  "spec_step (Insert k v s calloc_ok malloc_ok) err f =
     (if s = HASHMAP_ADD \<and> f k \<noteq> None then (if err = - EEXIST then Some f else None)
      else if s = HASHMAP_UPDATE \<and> f k = None then (if err = - ENOENT then Some f else None)
      else if err = 0 then Some (f(k \<mapsto> v))
      else if err = - ENOMEM \<and> f k = None \<and> \<not> (calloc_ok \<and> malloc_ok) then Some f else None)"
| "spec_step (Delete k) err f = (if err = (if f k = None then 0 else 1) then Some (f(k := None)) else None)"
| "spec_step Clear err f = (if err = 0 then Some Map.empty else None)"

fun spec_run :: "('k, 'v) hm_op list \<Rightarrow> int list \<Rightarrow> ('k \<rightharpoonup> 'v) \<Rightarrow> ('k \<rightharpoonup> 'v) option" where
  "spec_run [] [] f = Some f"
| "spec_run (op # ops) (err # errs) f = Option.bind (spec_step op err f) (spec_run ops errs)"
| "spec_run _ _ f = None"

fun no_append :: "('k, 'v) hm_op \<Rightarrow> bool" where
  "no_append (Insert k v s c a) \<longleftrightarrow> s \<noteq> HASHMAP_APPEND"
| "no_append _ \<longleftrightarrow> True"

lemma insert_ok_flags:
  assumes "fst (hashmap_insert c a m k v s) = 0"
  shows "hashmap_insert True True m k v s = hashmap_insert c a m k v s"
  using assms grow_fails [of m] unfolding hashmap_insert_def Let_def
  by (cases c; cases a; cases "hashmap_needs_to_grow m")
    (auto split: option.splits if_splits prod.splits)

lemma insert_refines:
  assumes "eqk.valid hash m" "s \<noteq> HASHMAP_APPEND" "hashmap_insert c a m k v s = (err, old, m')"
  shows "eqk.valid hash m'"
    "spec_step (Insert k v s c a) err (hashmap_find m) = Some (hashmap_find m')"
proof -
  have "eqk.valid hash m' \<and> spec_step (Insert k v s c a) err (hashmap_find m) = Some (hashmap_find m')"
  proof (cases "hashmap_find m k")
    case (Some w)
    then obtain i e where f: "hashmap_find_entry m k (hash_bits (hash k) (cap_bits m)) = Some (i, e)"
      using eqk.find_entry_None [OF assms(1), of k] by force
    show ?thesis
    proof (cases "s = HASHMAP_ADD")
      case True
      then have "err = - EEXIST" "m' = m"
        using assms(3) f unfolding hashmap_insert_def Let_def eqk.validD(1) [OF assms(1)] by simp_all
      then show ?thesis using True Some assms(1) by simp
    next
      case False
      then have s: "s = HASHMAP_SET \<or> s = HASHMAP_UPDATE" using assms(2) by (cases s) simp_all
      have "hashmap_find m' = (hashmap_find m)(k \<mapsto> v)"
        using eqk.insert_present(5) [OF assms(1) Some s refl, of c a v] assms(3) by (auto simp: fun_eq_iff)
      then show ?thesis
        using eqk.insert_present(1,3) [OF assms(1) Some s refl, of c a v] assms(3) Some False by simp
    qed
  next
    case None
    show ?thesis
    proof (cases "s = HASHMAP_UPDATE")
      case True
      then have "err = - ENOENT" "m' = m"
        using assms(3) eqk.find_entry_None [OF assms(1), of k] None
        unfolding hashmap_insert_def Let_def eqk.validD(1) [OF assms(1)] by simp_all
      then show ?thesis using True None assms(1) by simp
    next
      case False
      show ?thesis
      proof (cases "err = 0")
        case True
        then have r: "hashmap_insert True True m k v s = (0, old, m')"
          using insert_ok_flags [of c a m k v s] assms(3) by simp
        have "hashmap_find m' = (hashmap_find m)(k \<mapsto> v)"
          using eqk.insert_absent_find [OF assms(1) None False, of v] r by (auto simp: fun_eq_iff)
        then show ?thesis
          using eqk.insert_absent(2) [OF assms(1) None False refl, of v] r True None False by simp
      next
        case err: False
        have "\<not> (c \<and> a)" using eqk.insert_absent(1) [OF assms(1) None False refl, of v] assms(3) err by auto
        from eqk.insert_nomem [OF assms(1) None False this assms(3) err] this None False
        show ?thesis by simp
      qed
    qed
  qed
  then show "eqk.valid hash m'"
    "spec_step (Insert k v s c a) err (hashmap_find m) = Some (hashmap_find m')" by blast+
qed

lemma find_clear: "hashmap_find (hashmap__clear m) = Map.empty"
  by (rule ext) (simp add: hashmap_find_def hashmap_find_entry_def hashmap__clear_def)

lemma step_refines:
  assumes "eqk.valid hash m" "no_append op" "hm_step op m = (err, m')"
  shows "eqk.valid hash m' \<and> spec_step op err (hashmap_find m) = Some (hashmap_find m')"
proof (cases op)
  case (Insert k v s c a)
  then show ?thesis
    using assms insert_refines [OF assms(1), of s c a k v] by (auto split: prod.splits simp del: spec_step.simps)
next
  case (Delete k)
  note d = eqk.delete_all [OF assms(1), of k]
  have "hashmap_find m' = (hashmap_find m)(k := None)" "eqk.valid hash m'"
    "err = (if hashmap_find m k = None then 0 else 1)"
    using d(1,2) d(4) [symmetric] assms(3) Delete by (auto simp: fun_eq_iff split: prod.splits option.splits)
  then show ?thesis using Delete by simp
next
  case Clear
  have "eqk.valid hash (hashmap__clear m)"
    using eqk.validD(1,2) [OF assms(1)]
    by (simp add: eqk.valid_def hm_inv_def hm_wf_def uniq_def hashmap__clear_def)
  then show ?thesis using assms(3) Clear by (auto simp: find_clear)
qed

lemma run_refines:
  "eqk.valid hash m \<Longrightarrow> list_all no_append ops \<Longrightarrow> hm_run ops m = (errs, m') \<Longrightarrow>
     eqk.valid hash m' \<and> spec_run ops errs (hashmap_find m) = Some (hashmap_find m')"
proof (induction ops arbitrary: m errs)
  case Nil
  then show ?case by auto
next
  case (Cons op ops)
  obtain err m1 errs2 where s: "hm_step op m = (err, m1)" "hm_run ops m1 = (errs2, m')" "errs = err # errs2"
    using Cons.prems(3) by (auto split: prod.splits)
  have "eqk.valid hash m1 \<and> spec_step op err (hashmap_find m) = Some (hashmap_find m1)"
    using step_refines [OF Cons.prems(1) _ s(1)] Cons.prems(2) by simp
  with Cons.IH [OF _ _ s(2)] Cons.prems(2) s(3) show ?case by simp
qed

text \<open>The structure and the load factor, for every strategy and any key equality.\<close>

definition hm_load :: "('k, 'v) hashmap \<Rightarrow> bool" where
  "hm_load m \<longleftrightarrow> (if cap m = 0 then sz m = 0 else 4 \<le> cap m \<and> sz m * 4 div 3 \<le> cap m)"

definition hm_ok :: "('k, 'v) hashmap \<Rightarrow> bool" where
  "hm_ok m \<longleftrightarrow> hm_wf m \<and> hm_load m"

lemma wf_index: "hm_wf m \<Longrightarrow> cap m \<noteq> 0 \<Longrightarrow> hash_bits (hash_fn m k) (cap_bits m) < cap m"
  using hash_bits_less [of "hash_fn m k" "cap_bits m"] by (auto simp: hm_wf_def)

lemma wf_put:
  assumes "hm_wf m" "h < cap m"
    and "\<forall>x\<in>set chain. hash_bits (hash_fn m (fst x)) (cap_bits m) = h"
    and "n + length (buckets m ! h) = sz m + length chain"
  shows "hm_wf (m\<lparr>buckets := (buckets m)[h := chain], sz := n\<rparr>)"
proof -
  have l: "h < length (buckets m)" using assms(1,2) by (simp add: hm_wf_def)
  have "length (concat (buckets m)) = length (concat (take h (buckets m))) + length (buckets m ! h) +
      length (concat (drop (Suc h) (buckets m)))"
    by (subst concat_split_nth [OF l]) simp
  moreover have "length (concat ((buckets m)[h := chain])) = length (concat (take h (buckets m))) +
      length chain + length (concat (drop (Suc h) (buckets m)))"
    by (subst concat_list_update [OF l]) simp
  ultimately have "n = length (concat ((buckets m)[h := chain]))"
    using assms(1,4) unfolding hm_wf_def by linarith
  then show ?thesis using assms by (auto simp: hm_wf_def nth_list_update simp del: length_concat)
qed

lemma wf_chain:
  "hm_wf m \<Longrightarrow> h < cap m \<Longrightarrow> x \<in> set (buckets m ! h) \<Longrightarrow> hash_bits (hash_fn m (fst x)) (cap_bits m) = h"
  by (auto simp: hm_wf_def)

lemma found_index:
  assumes "hm_wf m" "hashmap_find_entry m k (hash_bits (hash_fn m k) (cap_bits m)) = Some (i, e)"
  shows "hash_bits (hash_fn m k) (cap_bits m) < cap m"
    "i < length (buckets m ! hash_bits (hash_fn m k) (cap_bits m))"
proof -
  have "cap m \<noteq> 0" using assms by (auto simp: hashmap_find_entry_def hm_wf_def split: if_splits)
  then show "hash_bits (hash_fn m k) (cap_bits m) < cap m" using wf_index [OF assms(1)] by simp
  show "i < length (buckets m ! hash_bits (hash_fn m k) (cap_bits m))"
    using assms(2) by (force simp: hashmap_find_entry_def dest: find_in_chain_Some split: if_splits)
qed

lemma ok_replace:
  assumes "hm_ok m" "h = hash_bits (hash_fn m k) (cap_bits m)" "hashmap_find_entry m k h = Some (i, e)"
  shows "hm_ok (m\<lparr>buckets := (buckets m)[h := (buckets m ! h)[i := (k, v)]]\<rparr>)"
proof -
  note w = assms(1) [unfolded hm_ok_def, THEN conjunct1] and f = assms(3) [unfolded assms(2)]
  have "hm_wf (m\<lparr>buckets := (buckets m)[h := (buckets m ! h)[i := (k, v)]], sz := sz m\<rparr>)"
    by (rule wf_put [OF w]) (use found_index [OF w f] wf_chain [OF w] assms(2) in
      \<open>auto dest!: set_update_subset_insert [THEN subsetD]\<close>)
  then show ?thesis using assms(1) by (simp add: hm_ok_def hm_load_def)
qed

lemma ok_delete: "hm_ok m \<Longrightarrow> hm_ok (snd (hashmap_delete m k))"
proof (cases "hashmap_find_entry m k (hash_bits (hash_fn m k) (cap_bits m))")
  case (Some ie)
  assume ok: "hm_ok m"
  let ?h = "hash_bits (hash_fn m k) (cap_bits m)"
  obtain i e where f: "hashmap_find_entry m k ?h = Some (i, e)" using Some by (cases ie) simp
  note w = ok [unfolded hm_ok_def, THEN conjunct1] and x = found_index [OF w f]
  have "length (buckets m ! ?h) \<le> sz m"
    using x(1) concat_split_nth [of ?h "buckets m"] w by (simp add: hm_wf_def)
  then have "hm_wf (m\<lparr>buckets := (buckets m)[?h := take i (buckets m ! ?h) @ drop (Suc i) (buckets m ! ?h)],
      sz := sz m - 1\<rparr>)"
    by (intro wf_put [OF w x(1)])
      (use x wf_chain [OF w x(1)] in \<open>auto dest: in_set_takeD in_set_dropD\<close>)
  then show ?thesis using ok f
    by (auto simp: hm_ok_def hm_load_def hashmap_delete_def Let_def hashmap_del_entry_def split: if_splits)
qed (simp add: hashmap_delete_def)

lemma ok_grow:
  assumes "hm_ok m" "hashmap_grow c m = (err, m')"
  shows "if c then err = 0 \<and> hm_wf m' \<and> sz m' = sz m \<and> (sz m' + 1) * 4 div 3 \<le> cap m' \<and> 4 \<le> cap m'
    else err = - ENOMEM \<and> m' = m"
proof (cases c)
  case False
  with assms(2) show ?thesis by (auto simp: hashmap_grow_def)
next
  case True
  define bits where "bits = (if cap_bits m + 1 < HASHMAP_MIN_CAP_BITS then HASHMAP_MIN_CAP_BITS else cap_bits m + 1)"
  define bs where "bs = foldl (\<lambda>bs cur. hashmap_add_entry bs (hash_bits (hash_fn m (fst cur)) bits) cur)
    (replicate (2 ^ bits) []) (concat (buckets m))"
  have w: "hm_wf m" "hm_load m" using assms(1) by (simp_all add: hm_ok_def)
  have "hashmap_grow c m = (0, m\<lparr>cap := 2 ^ bits, cap_bits := bits, buckets := bs\<rparr>)"
    unfolding hashmap_grow_def Let_def bits_def [symmetric]
    using w(1) True by (simp add: bs_def hashmap_entries_def hm_wf_def)
  then have m': "err = 0" "m' = m\<lparr>cap := 2 ^ bits, cap_bits := bits, buckets := bs\<rparr>"
    using assms(2) by simp_all
  have "eqk.placed (hash_fn m) bits (replicate (2 ^ bits) [])" by (simp add: eqk.placed_def)
  from eqk.rebuild [OF _ this bs_def]
  have r: "length bs = 2 ^ bits" "eqk.placed (hash_fn m) bits bs" "mset (concat bs) = mset (concat (buckets m))"
    by simp_all
  have "length (concat bs) = length (concat (buckets m))" using r(3) by (metis size_mset)
  then have wf: "hm_wf m'" using r w(1) by (simp add: m'(2) hm_wf_def eqk.placed_def)
  have "(4 :: nat) \<le> 2 ^ bits"
    using power_increasing [of 2 bits "2 :: nat"] by (simp add: bits_def HASHMAP_MIN_CAP_BITS_def)
  moreover have "2 * cap m \<le> 2 ^ bits" if "cap m \<noteq> 0"
    using that w power_increasing [of "Suc (cap_bits m)" bits "2 :: nat"]
    by (auto simp: hm_wf_def bits_def)
  ultimately have "(sz m + 1) * 4 div 3 \<le> 2 ^ bits" "(4 :: nat) \<le> 2 ^ bits"
    using w(2) by (auto simp: hm_load_def split: if_splits)
  with wf m' True show ?thesis by simp
qed

lemma ok_add:
  assumes "hm_wf m" "(sz m + 1) * 4 div 3 \<le> cap m" "4 \<le> cap m" "h = hash_bits (hash_fn m k) (cap_bits m)"
  shows "hm_ok (m\<lparr>buckets := hashmap_add_entry (buckets m) h (k, v), sz := sz m + 1\<rparr>)"
proof -
  have "h < cap m" using wf_index [OF assms(1)] assms(3,4) by simp
  from wf_put [OF assms(1) this, of "(k, v) # buckets m ! h" "sz m + 1"] wf_chain [OF assms(1) this] assms
  show ?thesis by (simp add: hm_ok_def hm_load_def hashmap_add_entry_def)
qed

lemma ok_insert:
  assumes "hm_ok m"
  shows "hm_ok (snd (snd (hashmap_insert c a m k v s)))"
proof -
  let ?h = "hash_bits (hash_fn m k) (cap_bits m)"
  obtain e g where g: "(if hashmap_needs_to_grow m then hashmap_grow c m else (0, m)) = (e, g)"
    by force
  have "e = 0 \<longrightarrow> hm_wf g \<and> (sz g + 1) * 4 div 3 \<le> cap g \<and> 4 \<le> cap g"
    using g ok_grow [OF assms, of c e g] assms
    by (auto simp: hm_ok_def hm_load_def hashmap_needs_to_grow_def split: if_splits)
  then have add: "hm_ok (g\<lparr>buckets := hashmap_add_entry (buckets g) (hash_bits (hash_fn g k) (cap_bits g)) (k, v),
      sz := sz g + 1\<rparr>)" "hm_ok g" if "e = 0"
    using that ok_add [of g _ k v] by (auto simp: hm_ok_def hm_load_def)
  show ?thesis
    unfolding hashmap_insert_def Let_def g
    using add assms ok_replace [OF assms refl, of k] by (auto split: option.splits)
qed

lemma ok_run: "hm_ok m \<Longrightarrow> hm_run ops m = (errs, m') \<Longrightarrow> hm_ok m'"
proof (induction ops arbitrary: m errs)
  case (Cons op ops)
  obtain err m1 errs2 where s: "hm_step op m = (err, m1)" "hm_run ops m1 = (errs2, m')"
    using Cons.prems(2) by (auto split: prod.splits)
  have "hm_ok m1"
  proof (cases op)
    case (Insert k v s c a)
    with s(1) ok_insert [OF Cons.prems(1), of c a k v s] show ?thesis by (auto split: prod.splits)
  next
    case (Delete k)
    with s(1) ok_delete [OF Cons.prems(1), of k] show ?thesis by (auto split: prod.splits option.splits)
  next
    case Clear
    with s(1) show ?thesis by (auto simp: hm_ok_def hm_wf_def hm_load_def hashmap__clear_def)
  qed
  then show ?case by (rule Cons.IH [OF _ s(2)])
qed auto

section \<open>Properties\<close>

lemma uniq_distinct: "uniq (=) es \<longleftrightarrow> distinct (map fst es)"
  by (induction es) (force simp: uniq_def)+

lemma find_init: "hashmap_find (hashmap__init hash (=)) = Map.empty"
  by (rule ext) (rule eqk.hm.find_empty)

lemma size_card:
  assumes "eqk.valid hash m"
  shows "sz m = card (dom (hashmap_find m))"
proof -
  have "distinct (map fst (concat (buckets m)))" using eqk.validD(3) [OF assms] by (simp add: uniq_distinct)
  moreover have "dom (hashmap_find m) = fst ` set (concat (buckets m))"
    unfolding dom_def eqk.find_None [OF assms] by (force simp: image_iff simp del: set_concat)
  ultimately show ?thesis
    using distinct_card [of "map fst (concat (buckets m))"] eqk.validD(6) [OF assms]
    by (simp del: length_concat set_concat)
qed

text \<open>C14. The hash map implements a partial function: over any sequence of insertions (add, set, update),
  deletions and clears, whatever the hash function and whichever allocations fail, each call returns
  the code the partial function calls for and lookups then agree with it; the size is the number
  of keys.\<close>

theorem hashmap_refines_map:
  assumes "list_all no_append ops" "hm_run ops (hashmap__init hash (=)) = (errs, m)"
  shows "spec_run ops errs Map.empty = Some (hashmap_find m) \<and>
    hashmap__size m = card (dom (hashmap_find m))"
  using run_refines [OF eqk.valid_init assms] size_card [of hash m]
  by (simp add: hashmap__size_def find_init)

theorem hashmap_refines_map_witness:
  "\<exists>m. hm_run [Insert [97] (1::nat) HASHMAP_ADD True True, Insert [97] 2 HASHMAP_ADD True True,
      Insert [98] 3 HASHMAP_SET True False, Insert [97] 4 HASHMAP_UPDATE False False, Delete [98]]
      (hashmap__init str_hash (=)) = ([0, - EEXIST, - ENOMEM, 0, 0], m) \<and>
    hashmap_find m = [[97] \<mapsto> 4]"
proof -
  let ?ops = "[Insert [97] (1::nat) HASHMAP_ADD True True, Insert [97] 2 HASHMAP_ADD True True,
      Insert [98] 3 HASHMAP_SET True False, Insert [97] 4 HASHMAP_UPDATE False False, Delete [98]]"
  obtain errs m where m: "hm_run ?ops (hashmap__init str_hash (=)) = (errs, m)" by force
  have "fst (hm_run ?ops (hashmap__init str_hash (=))) = [0, - EEXIST, - ENOMEM, 0, 0]" by code_simp
  then have e: "errs = [0, - EEXIST, - ENOMEM, 0, 0]" using m by simp
  have "spec_run ?ops errs Map.empty = Some (hashmap_find m)"
    using hashmap_refines_map [of ?ops str_hash errs m, OF _ m] by simp
  then have "hashmap_find m = [[97] \<mapsto> 4]" unfolding e by (auto split: if_splits)
  with m e show ?thesis by blast
qed

text \<open>C15. Over any sequence of operations, every strategy included, and for any hash and equality
  functions, the bucket array has a power-of-two length, every entry is in the bucket of its
  hash, no bucket index leaves the array, the count is exact, and the map is never more
  than three quarters full (rounded as the code rounds).\<close>

theorem hashmap_structure:
  assumes "hm_run ops (hashmap__init hash equal) = (errs, m)"
  shows "hm_wf m \<and> (if cap m = 0 then sz m = 0
    else 4 \<le> cap m \<and> sz m * 4 div 3 \<le> cap m \<and> (\<forall>k. hash_bits (hash_fn m k) (cap_bits m) < cap m))"
proof -
  have "hm_ok (hashmap__init hash equal)" by (simp add: hm_ok_def hm_wf_def hm_load_def hashmap__init_def)
  from ok_run [OF this assms] show ?thesis
    using wf_index [of m] by (auto simp: hm_ok_def hm_load_def split: if_splits)
qed

theorem hashmap_structure_witness:
  "\<exists>errs m. hm_run [Insert [97] (1::nat) HASHMAP_APPEND True True, Insert [97] 2 HASHMAP_APPEND True True]
    (hashmap__init str_hash (=)) = (errs, m) \<and> hm_wf m \<and> cap m = 4 \<and> sz m * 4 div 3 \<le> 4"
proof -
  let ?ops = "[Insert [97] (1::nat) HASHMAP_APPEND True True, Insert [97] 2 HASHMAP_APPEND True True]"
  obtain errs m where m: "hm_run ?ops (hashmap__init str_hash (=)) = (errs, m)" by force
  have "cap (snd (hm_run ?ops (hashmap__init str_hash (=)))) = 4" by code_simp
  with hashmap_structure [OF m] m show ?thesis by auto
qed

text \<open>On a multimap built with the append strategy a lookup returns the entry appended last only
  until the array grows: growth reverses the chain, so that with three values appended under
  one key and a fourth entry under another, the lookup returns the first value.\<close>

theorem hashmap_append_order:
  "map (\<lambda>n. hashmap_find (snd (hm_run (take n
       [Insert [97] (1 :: nat) HASHMAP_APPEND True True, Insert [97] 2 HASHMAP_APPEND True True,
        Insert [97] 3 HASHMAP_APPEND True True, Insert [98] 4 HASHMAP_APPEND True True])
      (hashmap__init str_hash (=)))) [97]) [1, 2, 3, 4] = [Some 1, Some 2, Some 3, Some 1]"
  by code_simp

end
