(* ===== verification/Strset.thy ===== *)
theory Strset
  imports Hashmap
begin

text \<open>
  The string set of libbpf, \<open>libbpf/src/strset.c\<close>, with \<open>libbpf_add_mem\<close> of \<open>btf.c\<close>:
  strings laid end to end in one growing buffer, found again through a hash map whose keys
  are offsets and whose hash and equality read the buffer. The buffer is the list of its
  allocated bytes, so \<open>strs_data_cap\<close> is its length; bytes past \<open>strs_data_len\<close> are scratch.
  A C string argument is the list of its bytes before the terminating zero.
\<close>

section \<open>Growing memory\<close>

definition libbpf_add_mem :: "bool \<Rightarrow> 'a \<Rightarrow> 'a list \<Rightarrow> nat \<Rightarrow> nat \<Rightarrow> nat \<Rightarrow> 'a list option" where
  "libbpf_add_mem alloc_ok zero dat cur_cnt max_cnt add_cnt =
     (let cap_cnt = length dat in
      if cur_cnt + add_cnt \<le> cap_cnt then Some dat
      else if cur_cnt + add_cnt > max_cnt then None
      else
        let new_cnt = cap_cnt + cap_cnt div 4;
            new_cnt = (if new_cnt < 16 then 16 else new_cnt);
            new_cnt = (if new_cnt > max_cnt then max_cnt else new_cnt);
            new_cnt = (if new_cnt < cur_cnt + add_cnt then cur_cnt + add_cnt else new_cnt)
        in if \<not> alloc_ok then None
           else Some (dat @ replicate (new_cnt - cap_cnt) zero))"

definition SIZE_MAX :: nat where "SIZE_MAX = 2 ^ 64 - 1"

definition libbpf_ensure_mem :: "bool \<Rightarrow> 'a \<Rightarrow> 'a list \<Rightarrow> nat \<Rightarrow> int \<times> 'a list" where
  "libbpf_ensure_mem alloc_ok zero dat need_cnt =
     (if need_cnt \<le> length dat then (0, dat)
      else case libbpf_add_mem alloc_ok zero dat (length dat) SIZE_MAX (need_cnt - length dat) of
             None \<Rightarrow> (- ENOMEM, dat) | Some dat' \<Rightarrow> (0, dat'))"

section \<open>Strings in the buffer\<close>

definition cstr :: "u8 list \<Rightarrow> nat \<Rightarrow> u8 list" where
  "cstr d off = takeWhile (\<lambda>c. c \<noteq> 0) (drop off d)"

text \<open>\<open>int\<close> result of a \<open>long\<close> offset.\<close>

definition int_of_long :: "nat \<Rightarrow> int" where
  "int_of_long n = sint (of_nat n :: u32)"

section \<open>The set\<close>

record strset =
  strs_data :: "u8 list"
  strs_data_len :: nat
  strs_data_max_len :: nat
  strs_hash :: "(nat, nat) hashmap"

definition strset_hash_fn :: "u8 list \<Rightarrow> nat \<Rightarrow> u64" where
  "strset_hash_fn d key = str_hash (cstr d key)"

definition strset_equal_fn :: "u8 list \<Rightarrow> nat \<Rightarrow> nat \<Rightarrow> bool" where
  "strset_equal_fn d key1 key2 \<longleftrightarrow> cstr d key1 = cstr d key2"

text \<open>The map's functions read the set's buffer as it is at the time of the call.\<close>

definition with_data :: "u8 list \<Rightarrow> (nat, nat) hashmap \<Rightarrow> (nat, nat) hashmap" where
  "with_data d m = m\<lparr>hash_fn := strset_hash_fn d, equal_fn := strset_equal_fn d\<rparr>"

text \<open>
  The loop over the initial data; \<open>None\<close> when the last string is not terminated, where the code
  reads past the buffer. \<open>alloc off\<close> is the outcome of the two allocations of the insertion.
\<close>

function strset_init_loop :: "(nat \<Rightarrow> bool \<times> bool) \<Rightarrow> u8 list \<Rightarrow> nat \<Rightarrow> (nat, nat) hashmap \<Rightarrow>
    (int + (nat, nat) hashmap) option" where
  "strset_init_loop alloc d off m =
     (if off < length d then
        if 0 \<notin> set (drop off d) then None
        else
          let (calloc_ok, malloc_ok) = alloc off;
              (err, _, m') = hashmap_insert calloc_ok malloc_ok m off off HASHMAP_ADD
          in if err \<noteq> 0 \<and> err \<noteq> - EEXIST then Some (Inl err)
             else strset_init_loop alloc d (off + length (cstr d off) + 1) m'
      else Some (Inr m))"
  by pat_completeness auto
termination by (relation "measure (\<lambda>(alloc, d, off, m). length d - off)") auto

declare strset_init_loop.simps [simp del]

definition strset__new :: "bool \<Rightarrow> bool \<Rightarrow> bool \<Rightarrow> (nat \<Rightarrow> bool \<times> bool) \<Rightarrow> nat \<Rightarrow> u8 list option \<Rightarrow>
    (int + strset) option" where
  "strset__new set_ok hash_ok data_ok alloc max_data_sz init_data =
     (if \<not> set_ok then Some (Inl (- ENOMEM))
      else case hashmap__new hash_ok (strset_hash_fn []) (strset_equal_fn []) of
        Inl err \<Rightarrow> Some (Inl (- ENOMEM))
      | Inr hash \<Rightarrow>
          (case init_data of
             None \<Rightarrow> Some (Inr \<lparr>strs_data = [], strs_data_len = 0, strs_data_max_len = max_data_sz, strs_hash = hash\<rparr>)
           | Some d \<Rightarrow>
               if \<not> data_ok then Some (Inl (- ENOMEM))
               else case strset_init_loop alloc d 0 (with_data d hash) of
                 None \<Rightarrow> None
               | Some (Inl err) \<Rightarrow> Some (Inl err)
               | Some (Inr m) \<Rightarrow>
                   Some (Inr \<lparr>strs_data = d, strs_data_len = length d, strs_data_max_len = max_data_sz, strs_hash = m\<rparr>)))"

definition strset__data_size :: "strset \<Rightarrow> nat" where
  "strset__data_size s = strs_data_len s"

definition strset__data :: "strset \<Rightarrow> u8 list" where
  "strset__data s = strs_data s"

definition strset_add_str_mem :: "bool \<Rightarrow> strset \<Rightarrow> nat \<Rightarrow> u8 list option" where
  "strset_add_str_mem alloc_ok s add_sz =
     libbpf_add_mem alloc_ok 0 (strs_data s) (strs_data_len s) (strs_data_max_len s) add_sz"

definition strset__find_str :: "bool \<Rightarrow> strset \<Rightarrow> u8 list \<Rightarrow> int \<times> strset" where
  "strset__find_str mem_ok s str =
     (let len = length str + 1 in
      case strset_add_str_mem mem_ok s len of
        None \<Rightarrow> (- ENOMEM, s)
      | Some d \<Rightarrow>
          let new_off = strs_data_len s;
              d' = memcpy d new_off (str @ [0]);
              s' = s\<lparr>strs_data := d', strs_hash := with_data d' (strs_hash s)\<rparr>
          in case hashmap_find (strs_hash s') new_off of
               Some old_off \<Rightarrow> (int_of_long old_off, s')
             | None \<Rightarrow> (- ENOENT, s'))"

definition strset__add_str :: "bool \<Rightarrow> bool \<Rightarrow> bool \<Rightarrow> strset \<Rightarrow> u8 list \<Rightarrow> int \<times> strset" where
  "strset__add_str mem_ok calloc_ok malloc_ok s str =
     (let len = length str + 1 in
      case strset_add_str_mem mem_ok s len of
        None \<Rightarrow> (- ENOMEM, s)
      | Some d \<Rightarrow>
          let new_off = strs_data_len s;
              d' = memcpy d new_off (str @ [0]);
              (err, old, m) = hashmap_insert calloc_ok malloc_ok (with_data d' (strs_hash s)) new_off new_off HASHMAP_ADD;
              s' = s\<lparr>strs_data := d', strs_hash := m\<rparr>
          in if err = - EEXIST then (int_of_long (case old of Some (old_off, _) \<Rightarrow> old_off | None \<Rightarrow> 0), s')
             else if err \<noteq> 0 then (err, s')
             else (int_of_long new_off, s'\<lparr>strs_data_len := strs_data_len s + len\<rparr>))"

section \<open>Invariant\<close>

interpretation sk: hash_keys "strset_hash_fn d" "strset_equal_fn d" for d
  by unfold_locales (simp_all add: strset_equal_fn_def strset_hash_fn_def)

definition terminated :: "u8 list \<Rightarrow> nat \<Rightarrow> nat \<Rightarrow> bool" where
  "terminated d len off \<longleftrightarrow> 0 \<in> set (drop off (take len d))"

text \<open>Every key of the index is its own value and the offset of a string inside the data.\<close>

definition strset_inv :: "strset \<Rightarrow> bool" where
  "strset_inv s \<longleftrightarrow>
     hm_inv (strs_hash s) \<and> hash_fn (strs_hash s) = strset_hash_fn (strs_data s) \<and>
     equal_fn (strs_hash s) = strset_equal_fn (strs_data s) \<and>
     (\<forall>e \<in> set (concat (buckets (strs_hash s))).
        snd e = fst e \<and> terminated (strs_data s) (strs_data_len s) (fst e)) \<and>
     strs_data_len s \<le> length (strs_data s) \<and> length (strs_data s) \<le> 2 ^ 31 \<and> strs_data_max_len s \<le> 2 ^ 31"

definition strset_contents :: "strset \<Rightarrow> u8 list set" where
  "strset_contents s = (\<lambda>e. cstr (strs_data s) (fst e)) ` set (concat (buckets (strs_hash s)))"

definition strset_keys :: "strset \<Rightarrow> nat set" where
  "strset_keys s = fst ` set (concat (buckets (strs_hash s)))"

lemma int_of_long_small: "n < 2 ^ 31 \<Longrightarrow> int_of_long n = int n"
proof -
  assume "n < 2 ^ 31"
  then have "signed_take_bit 31 (int n) = int n" by (intro signed_take_bit_int_eq_self) simp_all
  then show ?thesis unfolding int_of_long_def
    by (subst of_int_of_nat_eq [symmetric], subst sint_sbintrunc') simp
qed

lemma terminated_less: "terminated d len off \<Longrightarrow> off < len \<and> off < length d"
  by (auto simp: terminated_def) (metis drop_all empty_iff empty_set length_take linorder_not_less min_less_iff_conj)+

lemma cstr_prefix:
  assumes "terminated d len off"
  shows "cstr d off = takeWhile (\<lambda>c. c \<noteq> 0) (drop off (take len d))"
proof -
  have "drop off d = drop off (take len d) @ drop len d"
    using terminated_less [OF assms] by (subst append_take_drop_id [of len d, symmetric], subst drop_append) simp
  then show ?thesis
    using assms unfolding cstr_def terminated_def by (simp add: takeWhile_append1)
qed

lemma cstr_stable:
  assumes "terminated d len off" "take len d' = take len d"
  shows "cstr d' off = cstr d off" "terminated d' len off"
  using cstr_prefix [OF assms(1)] cstr_prefix [of d' len off] assms
  by (simp_all add: terminated_def)

lemma memcpy_cstr:
  assumes "n + length str + 1 \<le> length d" "0 \<notin> set str"
  shows "cstr (memcpy d n (str @ [0])) n = str"
    "terminated (memcpy d n (str @ [0])) (n + length str + 1) n"
proof -
  have d: "drop n (memcpy d n (str @ [0])) = str @ 0 # drop (n + length str + 1) d"
    using assms(1) by (simp add: memcpy_def)
  then show "cstr (memcpy d n (str @ [0])) n = str"
    using assms(2) by (auto simp: cstr_def takeWhile_tail)
  show "terminated (memcpy d n (str @ [0])) (n + length str + 1) n"
    using d by (simp add: terminated_def drop_take)
qed

lemma terminated_mono: "terminated d len off \<Longrightarrow> len \<le> len' \<Longrightarrow> terminated d len' off"
  unfolding terminated_def by (metis drop_take in_mono set_take_subset_set_take diff_le_mono)

lemma add_mem:
  assumes "libbpf_add_mem ok z d cur mx n = Some d'"
  shows "take (length d) d' = d" "cur + n \<le> length d'" "length d' = length d \<or> length d' \<le> mx"
  using assms by (auto simp: libbpf_add_mem_def Let_def split: if_splits)

lemma uniq_cong:
  assumes "\<And>a b. a \<in> set es \<Longrightarrow> b \<in> set es \<Longrightarrow> eq' (fst a) (fst b) = eq (fst a) (fst b)"
  shows "uniq eq' es = uniq eq es"
  using assms unfolding uniq_def by (induction es) auto

text \<open>Writes past the end of the data do not disturb the index.\<close>

lemma with_data_valid:
  assumes "strset_inv s" "take (strs_data_len s) d' = take (strs_data_len s) (strs_data s)"
  shows "sk.valid d' (with_data d' (strs_hash s))"
proof -
  let ?m = "strs_hash s"
  have c: "cstr d' (fst e) = cstr (strs_data s) (fst e)" if "e \<in> set (concat (buckets ?m))" for e
    using assms that cstr_stable(1) unfolding strset_inv_def by blast
  have "hm_wf ?m" "hash_fn ?m = strset_hash_fn (strs_data s)" "uniq (strset_equal_fn (strs_data s)) (concat (buckets ?m))"
    using assms(1) unfolding strset_inv_def hm_inv_def by (elim conjE, simp)+
  moreover have "uniq (strset_equal_fn d') (concat (buckets ?m)) =
      uniq (strset_equal_fn (strs_data s)) (concat (buckets ?m))"
    by (rule uniq_cong) (simp only: strset_equal_fn_def c)
  moreover have "strset_hash_fn d' (fst e) = strset_hash_fn (strs_data s) (fst e)"
    if "i < cap ?m" "e \<in> set (buckets ?m ! i)" for i e
  proof -
    have "buckets ?m ! i \<in> set (buckets ?m)" using that(1) calculation(1) by (auto simp: hm_wf_def)
    then have "e \<in> set (concat (buckets ?m))" using that(2) by auto
    then show ?thesis using c by (simp add: strset_hash_fn_def)
  qed
  ultimately show ?thesis
    by (simp add: sk.valid_def with_data_def hm_inv_def hm_wf_def)
qed

text \<open>What a lookup of the scratch string finds: the key of the same string, if there is one.\<close>

lemma scratch_find:
  assumes "strset_inv s" "take (strs_data_len s) d' = take (strs_data_len s) (strs_data s)" "cstr d' n = str"
    and m: "m = with_data d' (strs_hash s)"
  shows "hashmap_find m n = None \<longleftrightarrow> str \<notin> strset_contents s"
    "hashmap_find m n = Some off \<Longrightarrow>
       terminated (strs_data s) (strs_data_len s) off \<and> cstr (strs_data s) off = str"
proof -
  let ?es = "set (concat (buckets (strs_hash s)))"
  note v = with_data_valid [OF assms(1,2), folded m]
  have b: "buckets m = buckets (strs_hash s)" by (simp add: m with_data_def)
  have inv: "snd e = fst e \<and> terminated (strs_data s) (strs_data_len s) (fst e) \<and>
      cstr d' (fst e) = cstr (strs_data s) (fst e)" if "e \<in> ?es" for e
    using assms(1,2) that cstr_stable(1) unfolding strset_inv_def by blast
  show "hashmap_find m n = None \<longleftrightarrow> str \<notin> strset_contents s"
    unfolding sk.find_None [OF v] b strset_contents_def image_iff strset_equal_fn_def assms(3)
    using inv by metis
  show "terminated (strs_data s) (strs_data_len s) off \<and> cstr (strs_data s) off = str"
    if "hashmap_find m n = Some off"
    using that inv unfolding sk.find_iff [OF v] b strset_equal_fn_def assms(3) by metis
qed

lemma inv_intro:
  assumes "sk.valid d' m" "\<forall>e\<in>set (concat (buckets m)). snd e = fst e \<and> terminated d' len (fst e)"
    and "len \<le> length d'" "length d' \<le> 2 ^ 31" "mx \<le> 2 ^ 31"
    and "s' = \<lparr>strs_data = d', strs_data_len = len, strs_data_max_len = mx, strs_hash = m\<rparr>"
  shows "strset_inv s'"
  using assms unfolding strset_inv_def sk.valid_def by simp

text \<open>The buffer after the string has been appended past the data.\<close>

lemma scratch:
  assumes "strset_inv s" "strset_add_str_mem ok s (length str + 1) = Some d" "0 \<notin> set str"
    and d': "d' = memcpy d (strs_data_len s) (str @ [0])"
  shows "take (strs_data_len s) d' = take (strs_data_len s) (strs_data s)" "cstr d' (strs_data_len s) = str"
    "terminated d' (strs_data_len s + length str + 1) (strs_data_len s)"
    "strs_data_len s + length str + 1 \<le> length d'" "length d' \<le> 2 ^ 31" "length (strs_data s) \<le> length d'"
proof -
  let ?n = "strs_data_len s"
  note a = add_mem [OF assms(2) [unfolded strset_add_str_mem_def]]
  have l: "?n \<le> length (strs_data s)" "length (strs_data s) \<le> 2 ^ 31" "strs_data_max_len s \<le> 2 ^ 31"
    using assms(1) unfolding strset_inv_def by blast+
  have n: "?n + length str + 1 \<le> length d" using a(2) by simp
  then have dl: "length d' = length d" using d' memcpy_length [of ?n "str @ [0]" d] by simp
  have "take ?n d = take ?n (strs_data s)" using a(1) l(1) by (metis min.absorb1 take_take)
  then show "take ?n d' = take ?n (strs_data s)" using n by (simp add: d' memcpy_take)
  show "cstr d' ?n = str" "terminated d' (?n + length str + 1) ?n"
    unfolding d' by (rule memcpy_cstr [OF n assms(3)])+
  show "?n + length str + 1 \<le> length d'" "length d' \<le> 2 ^ 31" using n l a(3) dl by auto
  show "length (strs_data s) \<le> length d'"
    using arg_cong [OF a(1), of length] dl by simp
qed

lemma keep_inv:
  assumes "strset_inv s" "strset_add_str_mem ok s (length str + 1) = Some d" "0 \<notin> set str"
    and d': "d' = memcpy d (strs_data_len s) (str @ [0])"
    and m: "sk.valid d' m" "set (concat (buckets m)) = set (concat (buckets (strs_hash s)))"
  shows "strset_inv (s\<lparr>strs_data := d', strs_hash := m\<rparr>)"
    "strset_contents (s\<lparr>strs_data := d', strs_hash := m\<rparr>) = strset_contents s"
proof -
  note p = scratch [OF assms(1-3) d']
  have e: "snd e = fst e \<and> terminated d' (strs_data_len s) (fst e) \<and> cstr d' (fst e) = cstr (strs_data s) (fst e)"
    if "e \<in> set (concat (buckets m))" for e
    using assms(1) that cstr_stable p(1) unfolding strset_inv_def m(2) by blast
  show "strset_inv (s\<lparr>strs_data := d', strs_hash := m\<rparr>)"
    by (rule inv_intro [OF m(1), of "strs_data_len s" "strs_data_max_len s"])
      (use e p(4,5) assms(1) in \<open>auto simp: strset_inv_def\<close>)
  show "strset_contents (s\<lparr>strs_data := d', strs_hash := m\<rparr>) = strset_contents s"
    using e m(2) unfolding strset_contents_def by (simp del: set_concat cong: image_cong)
qed

text \<open>The index after an insertion of the scratch string, by outcome.\<close>

lemma insert_scratch_old:
  assumes "sk.valid d m" "hashmap_find m n = Some w"
  obtains e where "hashmap_insert c a m n v HASHMAP_ADD = (- EEXIST, Some e, m)"
    "e \<in> set (concat (buckets m))" "cstr d (fst e) = cstr d n"
proof -
  let ?h = "hash_bits (strset_hash_fn d n) (cap_bits m)"
  obtain i e where f: "hashmap_find_entry m n ?h = Some (i, e)"
    using sk.find_entry_None [OF assms(1), of n] assms(2) by force
  have "hashmap_insert c a m n v HASHMAP_ADD = (- EEXIST, Some e, m)"
    unfolding hashmap_insert_def Let_def sk.validD(1) [OF assms(1)] using f by simp
  moreover have "e \<in> set (concat (buckets m)) \<and> strset_equal_fn d (fst e) n"
    by (rule sk.found_split [OF assms(1) f]) simp
  ultimately show ?thesis using that unfolding strset_equal_fn_def by blast
qed

lemma insert_scratch_new:
  assumes "sk.valid d m" "hashmap_find m n = None" "hashmap_insert c a m n v HASHMAP_ADD = (err, old, m')"
  shows "sk.valid d m' \<and> (if err = 0 then set (concat (buckets m')) = insert (n, v) (set (concat (buckets m)))
    else err = - ENOMEM \<and> \<not> (c \<and> a) \<and> set (concat (buckets m')) = set (concat (buckets m)))"
proof (cases "err = 0")
  case True
  then have i: "hashmap_insert True True m n v HASHMAP_ADD = (0, old, m')"
    using insert_ok_flags [of c a m n v HASHMAP_ADD] assms(3) by simp
  note s = sk.insert_absent [OF assms(1,2), of HASHMAP_ADD _ v, simplified, OF refl, unfolded i snd_conv]
  then have "set (concat (buckets m')) = insert (n, v) (set (concat (buckets m)))"
    by (metis set_mset_add_mset_insert set_mset_mset)
  then show ?thesis using s(2) True by simp
next
  case False
  have ca: "\<not> (c \<and> a)"
    using sk.insert_absent(1) [OF assms(1,2), of HASHMAP_ADD _ v] assms(3) False by auto
  note s = sk.insert_nomem [OF assms(1,2) _ ca assms(3) False, simplified]
  then have "set (concat (buckets m')) = set (concat (buckets m))" by (metis set_mset_mset)
  then show ?thesis using s(1,2) False ca by simp
qed

text \<open>What one addition does.\<close>

definition add_post :: "strset \<Rightarrow> u8 list \<Rightarrow> int \<Rightarrow> strset \<Rightarrow> bool" where
  "add_post s str r s' \<longleftrightarrow> strset_inv s' \<and> strs_data_max_len s' = strs_data_max_len s \<and>
     take (strs_data_len s) (strs_data s') = take (strs_data_len s) (strs_data s) \<and>
     strset_keys s \<subseteq> strset_keys s' \<and>
     (if 0 \<le> r then
        nat r \<in> strset_keys s' \<and> terminated (strs_data s') (strs_data_len s') (nat r) \<and> cstr (strs_data s') (nat r) = str \<and>
        strset_contents s' = insert str (strset_contents s) \<and>
        strs_data_len s' = strs_data_len s + (if str \<in> strset_contents s then 0 else length str + 1)
      else r = - ENOMEM \<and> strset_contents s' = strset_contents s \<and> strs_data_len s' = strs_data_len s)"

lemma add_unfold:
  assumes "strset_add_str_mem mem_ok s (length str + 1) = Some d"
    and "d' = memcpy d (strs_data_len s) (str @ [0])" "m = with_data d' (strs_hash s)"
    and "hashmap_insert c a m (strs_data_len s) (strs_data_len s) HASHMAP_ADD = (err, old, m')"
    and "s1 = s\<lparr>strs_data := d', strs_hash := m'\<rparr>"
  shows "strset__add_str mem_ok c a s str =
    (if err = - EEXIST then (int_of_long (case old of Some (old_off, _) \<Rightarrow> old_off | None \<Rightarrow> 0), s1)
     else if err \<noteq> 0 then (err, s1)
     else (int_of_long (strs_data_len s), s1\<lparr>strs_data_len := strs_data_len s + (length str + 1)\<rparr>))"
  unfolding strset__add_str_def Let_def assms(1) option.case assms(2,3) [symmetric] assms(4) prod.case assms(5) ..

lemma add_old:
  assumes "strset_inv s" "0 \<notin> set str" "strset_add_str_mem mem_ok s (length str + 1) = Some d"
    and "str \<in> strset_contents s" "strset__add_str mem_ok c a s str = (r, s')"
  shows "add_post s str r s' \<and> 0 \<le> r"
proof -
  let ?n = "strs_data_len s"
  define d' where "d' = memcpy d ?n (str @ [0])"
  define m where "m = with_data d' (strs_hash s)"
  note p = scratch [OF assms(1,3,2) d'_def]
  note v = with_data_valid [OF assms(1) p(1), folded m_def]
  have b: "buckets m = buckets (strs_hash s)" by (simp add: m_def with_data_def)
  obtain w where "hashmap_find m ?n = Some w"
    using scratch_find(1) [OF assms(1) p(1,2) m_def] assms(4) by blast
  then obtain e where e: "hashmap_insert c a m ?n ?n HASHMAP_ADD = (- EEXIST, Some e, m)"
      "e \<in> set (concat (buckets m))" "cstr d' (fst e) = cstr d' ?n"
    using insert_scratch_old [OF v] by blast
  have t: "terminated d' ?n (fst e)" "fst e < 2 ^ 31"
    using assms(1) e(2) cstr_stable(2) [OF _ p(1)] terminated_less p(5)
    unfolding strset_inv_def b by (blast, metis le_trans less_le_trans)
  have r: "r = int (fst e)" "s' = s\<lparr>strs_data := d', strs_hash := m\<rparr>"
    using assms(5) int_of_long_small [OF t(2)]
    unfolding add_unfold [OF assms(3) d'_def m_def e(1) refl] by (simp_all split: prod.splits)
  have "set (concat (buckets m)) = set (concat (buckets (strs_hash s)))" by (simp only: b)
  from keep_inv [OF assms(1,3,2) d'_def v this] show ?thesis
    using t(1) e(2,3) p(1,2) assms(4) by (auto simp: add_post_def r strset_keys_def b simp del: set_concat)
qed

lemma add_new:
  assumes "strset_inv s" "0 \<notin> set str" "strset_add_str_mem mem_ok s (length str + 1) = Some d"
    and "str \<notin> strset_contents s" "strset__add_str mem_ok c a s str = (r, s')"
  shows "add_post s str r s' \<and> (c \<and> a \<longrightarrow> 0 \<le> r)"
proof -
  let ?n = "strs_data_len s"
  define d' where "d' = memcpy d ?n (str @ [0])"
  define m where "m = with_data d' (strs_hash s)"
  note p = scratch [OF assms(1,3,2) d'_def]
  note v = with_data_valid [OF assms(1) p(1), folded m_def]
  have b: "buckets m = buckets (strs_hash s)" by (simp add: m_def with_data_def)
  obtain err old m' where i: "hashmap_insert c a m ?n ?n HASHMAP_ADD = (err, old, m')"
    by (metis prod.collapse)
  have none: "hashmap_find m ?n = None"
    using scratch_find(1) [OF assms(1) p(1,2) m_def] assms(4) by blast
  note n = insert_scratch_new [OF v none i]
  note u = assms(5) [unfolded add_unfold [OF assms(3) d'_def m_def i refl]]
  show ?thesis
  proof (cases "err = 0")
    case False
    then have r: "r = - ENOMEM" "s' = s\<lparr>strs_data := d', strs_hash := m'\<rparr>" "\<not> (c \<and> a)" using u n by auto
    have "set (concat (buckets m')) = set (concat (buckets (strs_hash s)))" using n False b by simp
    from keep_inv [OF assms(1,3,2) d'_def conjunct1 [OF n] this] show ?thesis
      using p(1) r(3) b n False by (auto simp: add_post_def r(1,2) strset_keys_def simp del: set_concat)
  next
    case True
    let ?len = "?n + (length str + 1)"
    have "?n < 2 ^ 31" using p(4,5) by linarith
    then have r: "r = int ?n" "s' = s\<lparr>strs_data := d', strs_hash := m', strs_data_len := ?len\<rparr>"
      using u True int_of_long_small by auto
    have es: "set (concat (buckets m')) = insert (?n, ?n) (set (concat (buckets (strs_hash s))))"
      using n True b by simp
    have e: "snd e = fst e \<and> terminated d' ?len (fst e) \<and> cstr d' (fst e) = cstr (strs_data s) (fst e)"
      if "e \<in> set (concat (buckets (strs_hash s)))" for e
      using assms(1) that cstr_stable [OF _ p(1)] terminated_mono [of d' ?n _ ?len]
      unfolding strset_inv_def by (metis le_add1)
    have "strset_inv s'"
      by (rule inv_intro [OF conjunct1 [OF n], of ?len "strs_data_max_len s"])
        (use e p(3-5) assms(1) r(2) in \<open>auto simp: strset_inv_def es simp del: set_concat\<close>)
    moreover have "strset_contents s' = insert str (strset_contents s)"
      using e p(2) unfolding strset_contents_def by (simp add: r(2) es del: set_concat cong: image_cong)
    ultimately show ?thesis
      using p(1-3) assms(4) es by (auto simp: add_post_def r strset_keys_def simp del: set_concat)
  qed
qed

lemma add_str:
  assumes "strset_inv s" "0 \<notin> set str" "strset__add_str mem_ok c a s str = (r, s')"
  shows "add_post s str r s'"
    "mem_ok \<Longrightarrow> c \<Longrightarrow> a \<Longrightarrow> strs_data_len s + length str + 1 \<le> strs_data_max_len s \<Longrightarrow> 0 \<le> r"
proof -
  have "add_post s str r s' \<and>
    (mem_ok \<and> c \<and> a \<and> strs_data_len s + length str + 1 \<le> strs_data_max_len s \<longrightarrow> 0 \<le> r)"
  proof (cases "strset_add_str_mem mem_ok s (length str + 1)")
    case None
    then have "r = - ENOMEM" "s' = s" using assms(3) by (simp_all add: strset__add_str_def)
    moreover have "\<not> (mem_ok \<and> strs_data_len s + length str + 1 \<le> strs_data_max_len s)"
      using None by (auto simp: strset_add_str_mem_def libbpf_add_mem_def Let_def split: if_splits)
    ultimately show ?thesis using assms(1) by (simp add: add_post_def)
  next
    case (Some d)
    then show ?thesis
      using add_old [OF assms(1,2) Some _ assms(3)] add_new [OF assms(1,2) Some _ assms(3)] by blast
  qed
  then show "add_post s str r s'"
    "mem_ok \<Longrightarrow> c \<Longrightarrow> a \<Longrightarrow> strs_data_len s + length str + 1 \<le> strs_data_max_len s \<Longrightarrow> 0 \<le> r" by blast+
qed

section \<open>Sequences of additions\<close>

lemma key_unique:
  assumes "strset_inv s" "k \<in> strset_keys s" "l \<in> strset_keys s" "cstr (strs_data s) k = cstr (strs_data s) l"
  shows "k = l"
proof -
  let ?es = "concat (buckets (strs_hash s))"
  have u: "uniq (strset_equal_fn (strs_data s)) ?es"
    using assms(1) unfolding strset_inv_def hm_inv_def by metis
  obtain e f where e: "e \<in> set ?es" "fst e = k" "f \<in> set ?es" "fst f = l"
    using assms(2,3) unfolding strset_keys_def by blast
  have "List.find (\<lambda>x. strset_equal_fn (strs_data s) (fst x) l) ?es = Some e"
    "List.find (\<lambda>x. strset_equal_fn (strs_data s) (fst x) l) ?es = Some f"
    unfolding sk.find_uniq [OF u] using e assms(4) by (simp_all add: strset_equal_fn_def del: set_concat)
  with e show ?thesis by simp
qed

type_synonym add_call = "bool \<times> bool \<times> bool \<times> u8 list"

fun add_all :: "strset \<Rightarrow> add_call list \<Rightarrow> int list \<times> strset" where
  "add_all s [] = ([], s)"
| "add_all s ((mem_ok, c, a, str) # xs) =
     (let (r, s1) = strset__add_str mem_ok c a s str; (rs, s2) = add_all s1 xs in (r # rs, s2))"

definition call_str :: "add_call \<Rightarrow> u8 list" where
  "call_str x = snd (snd (snd x))"

text \<open>A string once stored stays at its offset.\<close>

lemma post_keeps:
  assumes "strset_inv s" "add_post s str r s'" "k \<in> strset_keys s"
  shows "cstr (strs_data s') k = cstr (strs_data s) k" "k \<in> strset_keys s'"
proof -
  have "terminated (strs_data s) (strs_data_len s) k"
    using assms(1,3) unfolding strset_inv_def strset_keys_def by auto
  moreover have "take (strs_data_len s) (strs_data s') = take (strs_data_len s) (strs_data s)"
    using assms(2) by (simp add: add_post_def)
  ultimately show "cstr (strs_data s') k = cstr (strs_data s) k" by (rule cstr_stable(1))
  show "k \<in> strset_keys s'" using assms(2,3) by (auto simp: add_post_def)
qed

lemma add_all_post:
  assumes "strset_inv s" "\<forall>x\<in>set xs. 0 \<notin> set (call_str x)" "add_all s xs = (rs, s')"
  shows "strset_inv s' \<and> length rs = length xs \<and>
    (\<forall>k\<in>strset_keys s. k \<in> strset_keys s' \<and> cstr (strs_data s') k = cstr (strs_data s) k) \<and>
    (\<forall>i<length xs. 0 \<le> rs ! i \<longrightarrow>
       nat (rs ! i) \<in> strset_keys s' \<and> cstr (strs_data s') (nat (rs ! i)) = call_str (xs ! i))"
  using assms
proof (induction xs arbitrary: s rs)
  case Nil
  then show ?case by auto
next
  case (Cons x xs)
  obtain mem_ok c a str where x: "x = (mem_ok, c, a, str)" by (cases x) auto
  obtain r s1 rs' where s: "strset__add_str mem_ok c a s str = (r, s1)" "add_all s1 xs = (rs', s')" "rs = r # rs'"
    using Cons.prems(3) by (auto simp: x split: prod.splits)
  have "0 \<notin> set str" using Cons.prems(2) by (simp add: x call_str_def)
  note p = add_str(1) [OF Cons.prems(1) this s(1)]
  have "strset_inv s1" using p by (simp add: add_post_def)
  note ih = Cons.IH [OF this _ s(2)]
  have r: "nat r \<in> strset_keys s1 \<and> cstr (strs_data s1) (nat r) = str" if "0 \<le> r"
    using p that by (simp add: add_post_def)
  show ?case
    using ih Cons.prems(2) r post_keeps [OF Cons.prems(1) p]
    by (auto simp: s(3) x call_str_def less_Suc_eq_0_disj)
qed

section \<open>Sets made from existing data\<close>

text \<open>The strings of a block of data, one after the other.\<close>

function strings :: "u8 list \<Rightarrow> u8 list list" where
  "strings d = (if d = [] then []
     else takeWhile (\<lambda>c. c \<noteq> 0) d # strings (drop (length (takeWhile (\<lambda>c. c \<noteq> 0) d) + 1) d))"
  by pat_completeness auto
termination by (relation "measure length") auto

declare strings.simps [simp del]

definition index_ok :: "u8 list \<Rightarrow> (nat, nat) hashmap \<Rightarrow> bool" where
  "index_ok d m \<longleftrightarrow> sk.valid d m \<and>
     (\<forall>e\<in>set (concat (buckets m)). snd e = fst e \<and> terminated d (length d) (fst e))"

definition index_strings :: "u8 list \<Rightarrow> (nat, nat) hashmap \<Rightarrow> u8 list set" where
  "index_strings d m = (\<lambda>e. cstr d (fst e)) ` set (concat (buckets m))"

lemma index_find: "index_ok d m \<Longrightarrow> hashmap_find m off = None \<longleftrightarrow> cstr d off \<notin> index_strings d m"
  unfolding index_ok_def index_strings_def image_iff
  by (metis sk.find_None strset_equal_fn_def)

lemma index_insert:
  assumes "index_ok d m" "0 \<in> set (drop off d)"
  obtains err old m' where "hashmap_insert True True m off off HASHMAP_ADD = (err, old, m')"
    "err = 0 \<or> err = - EEXIST" "index_ok d m'" "index_strings d m' = insert (cstr d off) (index_strings d m)"
proof (cases "hashmap_find m off")
  case None
  obtain err old m' where i: "hashmap_insert True True m off off HASHMAP_ADD = (err, old, m')"
    by (metis prod.collapse)
  have v: "sk.valid d m" using assms(1) by (simp add: index_ok_def)
  from insert_scratch_new [OF v None i]
  have n: "err = 0" "sk.valid d m'" "set (concat (buckets m')) = insert (off, off) (set (concat (buckets m)))"
    by (simp_all split: if_splits)
  have "index_ok d m'"
    using assms n unfolding index_ok_def by (simp add: terminated_def del: set_concat)
  moreover have "index_strings d m' = insert (cstr d off) (index_strings d m)"
    using n(3) by (simp add: index_strings_def del: set_concat)
  ultimately show ?thesis using that i n(1) by blast
next
  case (Some w)
  have v: "sk.valid d m" using assms(1) by (simp add: index_ok_def)
  obtain e where "hashmap_insert True True m off off HASHMAP_ADD = (- EEXIST, Some e, m)"
    using insert_scratch_old [OF v Some] by blast
  moreover have "cstr d off \<in> index_strings d m" using index_find [OF assms(1), of off] Some by auto
  ultimately show ?thesis using that assms(1) by (metis insert_absorb)
qed

lemma init_loop:
  assumes "\<forall>off < length d. 0 \<in> set (drop off d)" "index_ok d m"
  shows "\<exists>m'. strset_init_loop (\<lambda>_. (True, True)) d off m = Some (Inr m') \<and> index_ok d m' \<and>
    index_strings d m' = index_strings d m \<union> set (strings (drop off d))"
  using assms(2)
proof (induction "length d - off" arbitrary: off m rule: less_induct)
  case less
  show ?case
  proof (cases "off < length d")
    case False
    then show ?thesis
      using less.prems by (auto simp: strset_init_loop.simps [of _ d off] strings.simps)
  next
    case True
    then have z: "0 \<in> set (drop off d)" using assms(1) by simp
    obtain err old m' where i: "hashmap_insert True True m off off HASHMAP_ADD = (err, old, m')"
      "err = 0 \<or> err = - EEXIST" "index_ok d m'" "index_strings d m' = insert (cstr d off) (index_strings d m)"
      by (rule index_insert [OF less.prems z])
    let ?off = "off + length (cstr d off) + 1"
    have "strings (drop off d) = cstr d off # strings (drop ?off d)"
      using True by (subst strings.simps) (simp add: cstr_def add.commute add.left_commute)
    moreover have "strset_init_loop (\<lambda>_. (True, True)) d off m = strset_init_loop (\<lambda>_. (True, True)) d ?off m'"
      using True z i(1,2) by (subst strset_init_loop.simps) auto
    ultimately show ?thesis
      using less.hyps [OF _ i(3), of ?off] i(4) True by auto
  qed
qed

lemma new_set:
  assumes "d = [] \<or> last d = 0" "length d \<le> 2 ^ 31" "mx \<le> 2 ^ 31"
  obtains s where "strset__new True True True (\<lambda>_. (True, True)) mx (Some d) = Some (Inr s)" "strset_inv s"
    "strset_contents s = set (strings d)" "strs_data s = d" "strs_data_len s = length d" "strs_data_max_len s = mx"
proof -
  have "0 \<in> set (drop off d)" if "off < length d" for off
    using that assms(1) last_in_set [of "drop off d"] by (auto simp: last_drop)
  moreover have "index_ok d (with_data d (hashmap__init h e))" for h e
    using sk.valid_init [of d] by (simp add: index_ok_def with_data_def hashmap__init_def)
  ultimately obtain m where m: "strset_init_loop (\<lambda>_. (True, True)) d 0
      (with_data d (hashmap__init (strset_hash_fn []) (strset_equal_fn []))) = Some (Inr m)"
    "index_ok d m" "index_strings d m = index_strings d (with_data d (hashmap__init (strset_hash_fn []) (strset_equal_fn []))) \<union> set (strings (drop 0 d))"
    using init_loop [of d _ 0] by blast
  let ?s = "\<lparr>strs_data = d, strs_data_len = length d, strs_data_max_len = mx, strs_hash = m\<rparr>"
  show ?thesis
  proof (rule that [of ?s])
    show "strset__new True True True (\<lambda>_. (True, True)) mx (Some d) = Some (Inr ?s)"
      using m(1) by (simp add: strset__new_def hashmap__new_def)
    show "strset_inv ?s" using m(2) by (intro inv_intro [OF _ _ _ assms(2,3) refl]) (auto simp: index_ok_def)
    show "strset_contents ?s = set (strings d)"
      using m(3) by (simp add: strset_contents_def index_strings_def with_data_def hashmap__init_def)
  qed simp_all
qed

lemma find_str:
  assumes "strset_inv s" "0 \<notin> set str" "strset_add_str_mem mem_ok s (length str + 1) \<noteq> None"
  obtains r s' where "strset__find_str mem_ok s str = (r, s')" "strset_inv s'" "strset_contents s' = strset_contents s"
    "strs_data_len s' = strs_data_len s"
    "if str \<in> strset_contents s then 0 \<le> r \<and> cstr (strs_data s) (nat r) = str \<and> nat r < strs_data_len s else r = - ENOENT"
proof -
  let ?n = "strs_data_len s"
  obtain d where d: "strset_add_str_mem mem_ok s (length str + 1) = Some d" using assms(3) by blast
  define d' where "d' = memcpy d ?n (str @ [0])"
  define m where "m = with_data d' (strs_hash s)"
  note p = scratch [OF assms(1) d assms(2) d'_def]
  note v = with_data_valid [OF assms(1) p(1), folded m_def] and f = scratch_find [OF assms(1) p(1,2) m_def]
  have "set (concat (buckets m)) = set (concat (buckets (strs_hash s)))" by (simp add: m_def with_data_def)
  note k = keep_inv [OF assms(1) d assms(2) d'_def v this]
  let ?r = "case hashmap_find m ?n of Some off \<Rightarrow> int_of_long off | None \<Rightarrow> - ENOENT"
  have eq: "strset__find_str mem_ok s str = (?r, s\<lparr>strs_data := d', strs_hash := m\<rparr>)"
    unfolding strset__find_str_def Let_def d option.case d'_def [symmetric] m_def [symmetric]
    by (simp split: option.split)
  have "if str \<in> strset_contents s then 0 \<le> ?r \<and> cstr (strs_data s) (nat ?r) = str \<and> nat ?r < ?n else ?r = - ENOENT"
  proof (cases "hashmap_find m ?n")
    case None
    then show ?thesis using f(1) by simp
  next
    case (Some off)
    note o = f(2) [OF Some]
    then have "off < ?n \<and> off < 2 ^ 31"
      using terminated_less [of "strs_data s" ?n off] p(5,6) by auto
    then show ?thesis using Some f(1) o int_of_long_small [of off] by auto
  qed
  with that [OF eq k] show ?thesis by simp
qed

section \<open>Properties\<close>

text \<open>C16. Adding any strings to a set, whichever allocations fail: the calls that succeed return offsets at
  which the buffer holds, from then on, exactly the string that was added, and two successful calls
  return the same offset just when they added the same string.\<close>

theorem strset_add_interns:
  assumes "strset_inv s" "\<forall>x\<in>set xs. 0 \<notin> set (call_str x)" "add_all s xs = (rs, s')"
    and "i < length xs" "j < length xs" "0 \<le> rs ! i" "0 \<le> rs ! j"
  shows "strset_inv s' \<and> cstr (strs_data s') (nat (rs ! i)) = call_str (xs ! i) \<and>
    (rs ! i = rs ! j \<longleftrightarrow> call_str (xs ! i) = call_str (xs ! j))"
proof -
  note p = add_all_post [OF assms(1-3)]
  have i: "nat (rs ! i) \<in> strset_keys s'" "cstr (strs_data s') (nat (rs ! i)) = call_str (xs ! i)"
    and j: "nat (rs ! j) \<in> strset_keys s'" "cstr (strs_data s') (nat (rs ! j)) = call_str (xs ! j)"
    using p assms(4-7) by auto
  have "nat (rs ! i) = nat (rs ! j)" if "call_str (xs ! i) = call_str (xs ! j)"
    using key_unique [OF _ i(1) j(1)] i(2) j(2) that p by simp
  moreover have "call_str (xs ! i) = call_str (xs ! j)" if "rs ! i = rs ! j"
    using i(2) j(2) that by simp
  ultimately show ?thesis using p i assms(6,7) by (metis nat_eq_iff2)
qed

definition example_set :: strset where
  "example_set = \<lparr>strs_data = [], strs_data_len = 0, strs_data_max_len = 100,
     strs_hash = hashmap__init (strset_hash_fn []) (strset_equal_fn [])\<rparr>"

lemma example_set_inv: "strset_inv example_set"
  using sk.valid_init [of "[]"] by (intro inv_intro [OF _ _ _ _ _ example_set_def]) (simp_all add: hashmap__init_def)

theorem strset_add_interns_witness:
  "\<exists>s'. add_all example_set [(True, True, True, [97, 98]), (True, True, False, [99]), (True, True, True, [97, 98])]
      = ([0, - ENOMEM, 0], s') \<and> strset_inv s' \<and> cstr (strs_data s') 0 = [97, 98]"
proof -
  let ?xs = "[(True, True, True, [97, 98]), (True, True, False, [99]), (True, True, True, [97, 98])] :: add_call list"
  obtain rs s' where r: "add_all example_set ?xs = (rs, s')" by (metis prod.collapse)
  have "fst (add_all example_set ?xs) = [0, - ENOMEM, 0]" by code_simp
  then have rs: "rs = [0, - ENOMEM, 0]" using r by simp
  from strset_add_interns [OF example_set_inv _ r, of 0 2] rs
  have "strset_inv s' \<and> cstr (strs_data s') 0 = [97, 98]" by (simp add: call_str_def)
  with r rs show ?thesis by blast
qed

text \<open>A set made from a block of terminated strings finds a string exactly when the block has it, at an
  offset where the block holds it; the lookup changes neither the strings nor the data size.\<close>

theorem strset_new_find:
  assumes "d = [] \<or> last d = 0" "length d + length str + 1 \<le> mx" "mx \<le> 2 ^ 31" "0 \<notin> set str"
  shows "\<exists>s r s'. strset__new True True True (\<lambda>_. (True, True)) mx (Some d) = Some (Inr s) \<and>
    strset__find_str True s str = (r, s') \<and> strset_contents s' = set (strings d) \<and>
    strset__data_size s' = length d \<and>
    (if str \<in> set (strings d) then 0 \<le> r \<and> nat r < length d \<and> cstr d (nat r) = str else r = - ENOENT)"
proof -
  have "length d \<le> 2 ^ 31" using assms(2,3) by simp
  from new_set [OF assms(1) this assms(3)] obtain s where
    s: "strset__new True True True (\<lambda>_. (True, True)) mx (Some d) = Some (Inr s)" "strset_inv s"
      "strset_contents s = set (strings d)" "strs_data s = d" "strs_data_len s = length d" "strs_data_max_len s = mx"
    by metis
  have "strset_add_str_mem True s (length str + 1) \<noteq> None"
    using assms(2) s(4-6) by (simp add: strset_add_str_mem_def libbpf_add_mem_def Let_def)
  from find_str [OF s(2) assms(4) this] s show ?thesis
    unfolding strset__data_size_def by metis
qed

theorem strset_new_find_witness:
  "\<exists>s r s'. strset__new True True True (\<lambda>_. (True, True)) 100 (Some [0, 97, 0]) = Some (Inr s) \<and>
    strset__find_str True s [97] = (r, s') \<and> 0 \<le> r \<and> cstr [0, 97, 0] (nat r) = [97]"
proof -
  have s: "strings [0, 97, 0] = [[], [97]]" by code_simp
  have "last [0, 97, 0 :: u8] = 0" "length [0, 97, 0 :: u8] + length [97 :: u8] + 1 \<le> 100"
    "(100 :: nat) \<le> 2 ^ 31" "0 \<notin> set [97 :: u8]" by simp_all
  from strset_new_find [OF disjI2 [OF this(1)] this(2-4)] s show ?thesis by fastforce
qed

end
