(* ===== verification/Nlattr.thy ===== *)
theory Nlattr
  imports Prelude
begin

text \<open>
  Netlink attributes, \<open>libbpf/src/nlattr.c\<close> and \<open>nlattr.h\<close>. A message is the array of its
  bytes and a pointer into it is an offset; the host's byte order is the argument \<open>le\<close>.
  Reading or writing outside the array is \<open>None\<close>, so that a result \<open>Some\<close> says that every
  access of the code was inside the message.
\<close>

section \<open>Layout (\<open>uapi/linux/netlink.h\<close>)\<close>

definition NLMSG_ALIGN :: "nat \<Rightarrow> nat" where "NLMSG_ALIGN len = (len + 3) div 4 * 4"
definition NLMSG_HDRLEN :: nat where "NLMSG_HDRLEN = NLMSG_ALIGN 16"
definition NLMSG_LENGTH :: "nat \<Rightarrow> nat" where "NLMSG_LENGTH len = len + NLMSG_HDRLEN"
definition NLMSG_SPACE :: "nat \<Rightarrow> nat" where "NLMSG_SPACE len = NLMSG_ALIGN (NLMSG_LENGTH len)"
definition NLMSG_DATA :: "nat \<Rightarrow> nat" where "NLMSG_DATA nlh = nlh + NLMSG_LENGTH 0"
definition NLA_ALIGN :: "nat \<Rightarrow> nat" where "NLA_ALIGN len = (len + 3) div 4 * 4"
definition NLA_HDRLEN :: nat where "NLA_HDRLEN = NLA_ALIGN 4"
definition NLA_F_NESTED :: u16 where "NLA_F_NESTED = 0x8000"
definition NLA_TYPE_MASK :: u16 where "NLA_TYPE_MASK = NOT (NLA_F_NESTED OR 0x4000)"
definition EMSGSIZE :: int where "EMSGSIZE = 90"

text \<open>The header fields of the message that starts at \<open>nlh\<close>.\<close>

definition nlmsg_len_of :: "bool \<Rightarrow> u8 list \<Rightarrow> nat \<Rightarrow> u32 option" where "nlmsg_len_of le b nlh = get32 le b nlh"
definition nlmsg_type_of :: "bool \<Rightarrow> u8 list \<Rightarrow> nat \<Rightarrow> u16 option" where "nlmsg_type_of le b nlh = get16 le b (nlh + 4)"
definition nlmsg_flags_of :: "bool \<Rightarrow> u8 list \<Rightarrow> nat \<Rightarrow> u16 option" where "nlmsg_flags_of le b nlh = get16 le b (nlh + 6)"
definition nlmsg_seq_of :: "bool \<Rightarrow> u8 list \<Rightarrow> nat \<Rightarrow> u32 option" where "nlmsg_seq_of le b nlh = get32 le b (nlh + 8)"
definition nlmsg_pid_of :: "bool \<Rightarrow> u8 list \<Rightarrow> nat \<Rightarrow> u32 option" where "nlmsg_pid_of le b nlh = get32 le b (nlh + 12)"

section \<open>Reading attributes\<close>

record libbpf_nla_policy =
  pol_type :: u16
  pol_minlen :: u16
  pol_maxlen :: u16

definition LIBBPF_NLA_UNSPEC :: u16 where "LIBBPF_NLA_UNSPEC = 0"
definition LIBBPF_NLA_U32 :: u16 where "LIBBPF_NLA_U32 = 3"
definition LIBBPF_NLA_STRING :: u16 where "LIBBPF_NLA_STRING = 5"
definition LIBBPF_NLA_TYPE_MAX :: u16 where "LIBBPF_NLA_TYPE_MAX = 8"

definition nla_attr_minlen :: "nat list" where "nla_attr_minlen = [0, 1, 2, 4, 8, 1, 0, 0, 0]"

definition nla_next :: "bool \<Rightarrow> u8 list \<Rightarrow> nat \<Rightarrow> int \<Rightarrow> (nat \<times> int) option" where
  "nla_next le b nla remaining = do {
     nla_len \<leftarrow> get16 le b nla;
     let totlen = NLA_ALIGN (unat nla_len);
     Some (nla + totlen, remaining - int totlen) }"

definition nla_ok :: "bool \<Rightarrow> u8 list \<Rightarrow> nat \<Rightarrow> int \<Rightarrow> bool option" where
  "nla_ok le b nla remaining =
     (if remaining < 4 then Some False
      else do {
        nla_len \<leftarrow> get16 le b nla;
        Some (4 \<le> unat nla_len \<and> int (unat nla_len) \<le> remaining) })"

definition nla_type :: "bool \<Rightarrow> u8 list \<Rightarrow> nat \<Rightarrow> nat option" where
  "nla_type le b nla = do { t \<leftarrow> get16 le b (nla + 2); Some (unat (t AND NLA_TYPE_MASK)) }"

definition libbpf_nla_data :: "nat \<Rightarrow> nat" where "libbpf_nla_data nla = nla + NLA_HDRLEN"

definition libbpf_nla_len :: "bool \<Rightarrow> u8 list \<Rightarrow> nat \<Rightarrow> int option" where
  "libbpf_nla_len le b nla = do { nla_len \<leftarrow> get16 le b nla; Some (int (unat nla_len) - int NLA_HDRLEN) }"

definition libbpf_nla_getattr_u8 :: "u8 list \<Rightarrow> nat \<Rightarrow> u8 option" where
  "libbpf_nla_getattr_u8 b nla = get8 b (libbpf_nla_data nla)"
definition libbpf_nla_getattr_u16 :: "bool \<Rightarrow> u8 list \<Rightarrow> nat \<Rightarrow> u16 option" where
  "libbpf_nla_getattr_u16 le b nla = get16 le b (libbpf_nla_data nla)"
definition libbpf_nla_getattr_u32 :: "bool \<Rightarrow> u8 list \<Rightarrow> nat \<Rightarrow> u32 option" where
  "libbpf_nla_getattr_u32 le b nla = get32 le b (libbpf_nla_data nla)"
definition libbpf_nla_getattr_u64 :: "bool \<Rightarrow> u8 list \<Rightarrow> nat \<Rightarrow> u64 option" where
  "libbpf_nla_getattr_u64 le b nla = get64 le b (libbpf_nla_data nla)"

text \<open>The policy has an entry for each type up to \<open>maxtype\<close>; the comparison with \<open>minlen\<close> is unsigned.\<close>

definition validate_nla :: "bool \<Rightarrow> u8 list \<Rightarrow> nat \<Rightarrow> nat \<Rightarrow> libbpf_nla_policy list \<Rightarrow> int option" where
  "validate_nla le b nla maxtype policy = do {
     type \<leftarrow> nla_type le b nla;
     if type > maxtype then Some 0
     else if \<not> type < length policy then None
     else do {
       let pt = policy ! type;
       if pol_type pt > LIBBPF_NLA_TYPE_MAX then Some 0
       else do {
         let minlen = (if pol_minlen pt \<noteq> 0 then unat (pol_minlen pt)
           else if pol_type pt \<noteq> LIBBPF_NLA_UNSPEC then nla_attr_minlen ! unat (pol_type pt) else 0);
         len \<leftarrow> libbpf_nla_len le b nla;
         if (word_of_int len :: u32) < of_nat minlen then Some (- 1)
         else if pol_maxlen pt \<noteq> 0 \<and> len > int (unat (pol_maxlen pt)) then Some (- 1)
         else if pol_type pt = LIBBPF_NLA_STRING then do {
           c \<leftarrow> (if len < 1 then None else get8 b (libbpf_nla_data nla + nat (len - 1)));
           if c \<noteq> 0 then Some (- 1) else Some 0 }
         else Some 0 } } }"

lemma nla_next_less:
  assumes "nla_ok le b nla remaining = Some True" "nla_next le b nla remaining = Some (nla', rem')"
  shows "nat rem' < nat remaining"
  using assms by (auto simp: nla_ok_def nla_next_def NLA_ALIGN_def Let_def split: if_splits bind_splits)

text \<open>The loop of \<open>libbpf_nla_parse\<close>; \<open>tb\<close> holds the offset of an attribute for each type.\<close>

function nla_parse_loop :: "bool \<Rightarrow> u8 list \<Rightarrow> nat \<Rightarrow> libbpf_nla_policy list option \<Rightarrow> nat \<Rightarrow> int \<Rightarrow>
    nat option list \<Rightarrow> (int \<times> nat option list) option" where
  "nla_parse_loop le b maxtype policy nla remaining tb =
     (case nla_ok le b nla remaining of
        None \<Rightarrow> None
      | Some False \<Rightarrow> Some (0, tb)
      | Some True \<Rightarrow>
          (case nla_next le b nla remaining of
             None \<Rightarrow> None
           | Some (nla', rem') \<Rightarrow>
               (case nla_type le b nla of
                  None \<Rightarrow> None
                | Some type \<Rightarrow>
                    if type > maxtype then nla_parse_loop le b maxtype policy nla' rem' tb
                    else (case (case policy of None \<Rightarrow> Some 0 | Some p \<Rightarrow> validate_nla le b nla maxtype p) of
                       None \<Rightarrow> None
                     | Some err \<Rightarrow>
                         if err < 0 then Some (err, tb)
                         else nla_parse_loop le b maxtype policy nla' rem' (tb[type := Some nla])))))"
  by pat_completeness auto
termination
  by (relation "measure (\<lambda>(le, b, maxtype, policy, nla, remaining, tb). nat remaining)")
    (use nla_next_less in \<open>auto split: bool.splits\<close>)

declare nla_parse_loop.simps [simp del]

definition libbpf_nla_parse :: "bool \<Rightarrow> u8 list \<Rightarrow> nat \<Rightarrow> nat \<Rightarrow> int \<Rightarrow> libbpf_nla_policy list option \<Rightarrow>
    (int \<times> nat option list) option" where
  "libbpf_nla_parse le b maxtype head len policy =
     nla_parse_loop le b maxtype policy head len (replicate (maxtype + 1) None)"

definition libbpf_nla_parse_nested :: "bool \<Rightarrow> u8 list \<Rightarrow> nat \<Rightarrow> nat \<Rightarrow> libbpf_nla_policy list option \<Rightarrow>
    (int \<times> nat option list) option" where
  "libbpf_nla_parse_nested le b maxtype nla policy = do {
     len \<leftarrow> libbpf_nla_len le b nla;
     libbpf_nla_parse le b maxtype (libbpf_nla_data nla) len policy }"

definition nlmsg_len :: "bool \<Rightarrow> u8 list \<Rightarrow> nat \<Rightarrow> int option" where
  "nlmsg_len le b nlh = do { l \<leftarrow> nlmsg_len_of le b nlh; Some (sint (l - of_nat NLMSG_HDRLEN)) }"

definition NLMSGERR_ATTR_MSG :: nat where "NLMSGERR_ATTR_MSG = 1"
definition NLMSGERR_ATTR_MAX :: nat where "NLMSGERR_ATTR_MAX = 3"
definition NLM_F_CAPPED :: u16 where "NLM_F_CAPPED = 0x100"
definition NLM_F_ACK_TLVS :: u16 where "NLM_F_ACK_TLVS = 0x200"

definition extack_policy :: "libbpf_nla_policy list" where
  "extack_policy =
     [\<lparr>pol_type = 0, pol_minlen = 0, pol_maxlen = 0\<rparr>, \<lparr>pol_type = LIBBPF_NLA_STRING, pol_minlen = 0, pol_maxlen = 0\<rparr>,
      \<lparr>pol_type = LIBBPF_NLA_U32, pol_minlen = 0, pol_maxlen = 0\<rparr>, \<lparr>pol_type = 0, pol_minlen = 0, pol_maxlen = 0\<rparr>]"

text \<open>
  The function returns 0 in every case; the value here is where the message it prints starts
  (\<open>None\<close> inside for nothing printed or the null message). \<open>struct nlmsgerr\<close> is the error code and a header,
  20 bytes.
\<close>

definition libbpf_nla_dump_errormsg :: "bool \<Rightarrow> u8 list \<Rightarrow> nat \<Rightarrow> nat option option" where
  "libbpf_nla_dump_errormsg le b nlh = do {
     flags \<leftarrow> nlmsg_flags_of le b nlh;
     if flags AND NLM_F_ACK_TLVS = 0 then Some None
     else do {
       let err = NLMSG_DATA nlh;
       hlen \<leftarrow> (if flags AND NLM_F_CAPPED = 0
                then do { l \<leftarrow> nlmsg_len le b (err + 4); Some (20 + l) } else Some 20);
       len \<leftarrow> nlmsg_len_of le b nlh;
       let attr = int err + hlen;
       let alen = int nlh + int (unat len) - attr;
       if attr < 0 then None
       else do {
         (ret, tb) \<leftarrow> libbpf_nla_parse le b NLMSGERR_ATTR_MAX (nat attr) alen (Some extack_policy);
         if ret \<noteq> 0 then Some None
         else Some (map_option libbpf_nla_data (tb ! NLMSGERR_ATTR_MSG)) } } }"

section \<open>Building requests\<close>

text \<open>
  \<open>struct libbpf_nla_req\<close>: the header (16 bytes), the largest of the three bodies
  (\<open>struct tcmsg\<close>, 20 bytes) and the buffer.
\<close>

definition sizeof_req :: nat where "sizeof_req = 16 + 20 + 128"

definition req_tail :: "bool \<Rightarrow> u8 list \<Rightarrow> nat option" where
  "req_tail le req = do { l \<leftarrow> nlmsg_len_of le req 0; Some (NLMSG_ALIGN (unat l)) }"

definition nlattr_add :: "bool \<Rightarrow> u8 list \<Rightarrow> u16 \<Rightarrow> u8 list option \<Rightarrow> nat \<Rightarrow> (int \<times> u8 list) option" where
  "nlattr_add le req type dat len = do {
     tail \<leftarrow> req_tail le req;
     if tail + NLA_ALIGN (NLA_HDRLEN + len) > sizeof_req then Some (- EMSGSIZE, req)
     else if (dat \<noteq> None) \<noteq> (len \<noteq> 0) then Some (- EINVAL, req)
     else do {
       req \<leftarrow> put16 le req (tail + 2) type;
       req \<leftarrow> put16 le req tail (of_nat (NLA_HDRLEN + len));
       req \<leftarrow> (case dat of None \<Rightarrow> Some req | Some d \<Rightarrow> put_bytes req (tail + NLA_HDRLEN) (take len d));
       req \<leftarrow> put32 le req 0 (of_nat (tail + NLA_ALIGN (NLA_HDRLEN + len)));
       Some (0, req) } }"

text \<open>The tail, or none for the null pointer, and the request.\<close>

definition nlattr_begin_nested :: "bool \<Rightarrow> u8 list \<Rightarrow> u16 \<Rightarrow> (nat option \<times> u8 list) option" where
  "nlattr_begin_nested le req type = do {
     tail \<leftarrow> req_tail le req;
     (err, req) \<leftarrow> nlattr_add le req (type OR NLA_F_NESTED) None 0;
     if err \<noteq> 0 then Some (None, req) else Some (Some tail, req) }"

definition nlattr_end_nested :: "bool \<Rightarrow> u8 list \<Rightarrow> nat \<Rightarrow> u8 list option" where
  "nlattr_end_nested le req tail = do {
     t \<leftarrow> req_tail le req;
     put16 le req tail (of_nat (t - tail)) }"

section \<open>Parsing stays inside the message\<close>

text \<open>An attribute of type \<open>t\<close> at \<open>off\<close> that lies between \<open>lo\<close> and \<open>hi\<close>.\<close>

definition attr_inside :: "bool \<Rightarrow> u8 list \<Rightarrow> nat \<Rightarrow> nat \<Rightarrow> nat \<Rightarrow> nat \<Rightarrow> bool" where
  "attr_inside le b lo hi off t \<longleftrightarrow> lo \<le> off \<and> nla_type le b off = Some t \<and>
     (\<exists>l. get16 le b off = Some l \<and> 4 \<le> unat l \<and> off + unat l \<le> hi)"

lemma word_of_int_less:
  assumes "0 \<le> len" "len < 65536" "minlen < 65536"
  shows "(word_of_int len :: u32) < of_nat minlen \<longleftrightarrow> len < int minlen"
proof -
  have "(of_nat minlen :: u32) = word_of_int (int minlen)" by simp
  then show ?thesis using assms by (simp only: word_less_def uint_word_of_int) simp
qed

lemma unat_u16_less: "unat (w :: u16) < 65536"
  using unsigned_less [of w] by simp

lemma validate_defined:
  assumes "attr_inside le b lo hi nla t" "hi \<le> length b" "maxtype < length p"
  shows "\<exists>r. validate_nla le b nla maxtype p = Some r \<and> (r = 0 \<or> r = - 1)"
proof -
  obtain l where l: "get16 le b nla = Some l" "4 \<le> unat l" "nla + unat l \<le> hi" "nla_type le b nla = Some t"
    using assms(1) by (auto simp: attr_inside_def)
  have len: "libbpf_nla_len le b nla = Some (int (unat l) - 4)"
    using l(1) by (simp add: libbpf_nla_len_def NLA_HDRLEN_def NLA_ALIGN_def)
  have u: "int (unat l) < 65536" using unsigned_less [of l] by simp
  show ?thesis
  proof (cases "t \<le> maxtype \<and> pol_type (p ! t) = LIBBPF_NLA_STRING")
    case True
    let ?m = "if pol_minlen (p ! t) \<noteq> 0 then unat (pol_minlen (p ! t)) else 1"
    have m: "?m \<ge> 1" "?m < 65536"
      using unat_u16_less [of "pol_minlen (p ! t)"] by (auto simp: Suc_le_eq unat_gt_0)
    have min: "(word_of_int (int (unat l) - 4) :: u32) < of_nat ?m \<longleftrightarrow> int (unat l) - 4 < int ?m"
      by (rule word_of_int_less) (use l(2) u m(2) in linarith)+
    show ?thesis
    proof (cases "int (unat l) - 4 < int ?m")
      case True
      with min show ?thesis using \<open>t \<le> maxtype \<and> _\<close> assms(3) l(4) len
        by (auto simp: validate_nla_def LIBBPF_NLA_STRING_def LIBBPF_NLA_TYPE_MAX_def LIBBPF_NLA_UNSPEC_def
            nla_attr_minlen_def Let_def)
    next
      case False
      then have "\<not> int (unat l) - 4 < 1" using m(1) by linarith
      moreover from this have "nat (int (unat l) - 4 - 1) + nla + 4 < length b"
        using l(3) assms(2) by linarith
      moreover note False
      ultimately have "nat (int (unat l) - 4 - 1) + nla + 4 < length b" "\<not> int (unat l) - 4 < 1"
        by simp_all
      then show ?thesis using \<open>t \<le> maxtype \<and> _\<close> False min assms(3) l(4) len
        by (auto simp: validate_nla_def LIBBPF_NLA_STRING_def LIBBPF_NLA_TYPE_MAX_def LIBBPF_NLA_UNSPEC_def
            nla_attr_minlen_def Let_def get8_def libbpf_nla_data_def NLA_HDRLEN_def NLA_ALIGN_def)
    qed
  next
    case False
    then show ?thesis using assms(3) l(4) len by (auto simp: validate_nla_def Let_def)
  qed
qed

lemma ok_inside:
  assumes "nla_ok le b nla remaining = Some True" "int nla + remaining \<le> int (length b)" "lo \<le> nla"
  obtains t l where "attr_inside le b lo (nat (int nla + remaining)) nla t" "nla_type le b nla = Some t"
    "get16 le b nla = Some l" "nla_next le b nla remaining = Some (nla + NLA_ALIGN (unat l), remaining - int (NLA_ALIGN (unat l)))"
    "4 \<le> unat l" "int (unat l) \<le> remaining"
proof -
  obtain l where l: "get16 le b nla = Some l" "4 \<le> unat l" "int (unat l) \<le> remaining"
    using assms(1) by (auto simp: nla_ok_def split: if_splits bind_splits)
  then obtain x where "get16 le b (nla + 2) = Some x" using assms(2) by (auto simp: get16_def)
  then show ?thesis
    using that [of "unat (x AND NLA_TYPE_MASK)" l] l assms(3)
    by (auto simp: attr_inside_def nla_type_def nla_next_def le_nat_iff Let_def)
qed

lemma ok_defined:
  assumes "int nla + remaining \<le> int (length b)"
  shows "nla_ok le b nla remaining \<noteq> None"
  using assms by (auto simp: nla_ok_def get16_None bind_eq_None_conv simp del: not_None_eq)

lemma fresh_index [simp]: "t \<le> n \<Longrightarrow> (None # replicate n None) ! t = None"
  by (cases t) auto

lemma parse_loop_safe:
  assumes "int nla + remaining \<le> int hi" "hi \<le> length b" "lo \<le> nla" "length tb = maxtype + 1"
    and "case policy of None \<Rightarrow> True | Some p \<Rightarrow> maxtype < length p"
    and "\<forall>t\<le>maxtype. \<forall>off. tb ! t = Some off \<longrightarrow> attr_inside le b lo hi off t \<and>
      (\<forall>p. policy = Some p \<longrightarrow> validate_nla le b off maxtype p = Some 0)"
  shows "\<exists>err tb'. nla_parse_loop le b maxtype policy nla remaining tb = Some (err, tb') \<and>
    (err = 0 \<or> err = - 1) \<and> length tb' = maxtype + 1 \<and>
    (\<forall>t\<le>maxtype. \<forall>off. tb' ! t = Some off \<longrightarrow> attr_inside le b lo hi off t \<and>
      (\<forall>p. policy = Some p \<longrightarrow> validate_nla le b off maxtype p = Some 0))"
  using assms
proof (induction le b maxtype policy nla remaining tb rule: nla_parse_loop.induct)
  case (1 le b maxtype policy nla remaining tb)
  have dom: "int nla + remaining \<le> int (length b)" using "1.prems" by linarith
  show ?case
  proof (cases "nla_ok le b nla remaining")
    case None
    with ok_defined [OF dom, of le] show ?thesis by simp
  next
    case (Some ok)
    show ?thesis
    proof (cases ok)
      case False
      with Some "1.prems" show ?thesis by (subst nla_parse_loop.simps) simp
    next
      case True
      with Some have ok: "nla_ok le b nla remaining = Some True" by simp
      obtain t and l :: u16 where a: "attr_inside le b lo (nat (int nla + remaining)) nla t" "nla_type le b nla = Some t"
        "nla_next le b nla remaining = Some (nla + NLA_ALIGN (unat l), remaining - int (NLA_ALIGN (unat l)))"
        by (rule ok_inside [OF ok dom "1.prems"(3)]) (rule that)
      let ?v = "case policy of None \<Rightarrow> Some 0 | Some p \<Rightarrow> validate_nla le b nla maxtype p"
      have hi: "attr_inside le b lo hi nla t" using a(1) "1.prems"(1) by (auto simp: attr_inside_def)
      obtain r where r: "?v = Some r" "r = 0 \<or> r = - 1"
        using validate_defined [OF hi "1.prems"(2)] "1.prems"(5) by (cases policy) force+
      note ih = "1.IH" [OF ok _ a(3) refl a(2)]
      show ?thesis
        apply (subst nla_parse_loop.simps)
        using ok a r ih "1.prems" hi
        apply (cases "t > maxtype")
         apply simp
        apply (auto simp: nth_list_update split: option.splits)
        done
    qed
  qed
qed

section \<open>What the builders write\<close>

text \<open>An attribute on the wire, and a request that has been filled up to its length field.\<close>

definition enc_attr :: "bool \<Rightarrow> u16 \<times> u8 list \<Rightarrow> u8 list" where
  "enc_attr le a = bytes16 le (of_nat (4 + length (snd a))) @ bytes16 le (fst a) @ snd a @
     replicate (NLA_ALIGN (4 + length (snd a)) - (4 + length (snd a))) 0"

definition req_state :: "bool \<Rightarrow> u8 list \<Rightarrow> nat \<Rightarrow> u8 list" where
  "req_state le B k = bytes32 le (of_nat (4 + length B)) @ B @ replicate k 0"

lemma align_le: "n \<le> NLA_ALIGN n" "NLA_ALIGN n < n + 4" "4 dvd NLA_ALIGN n"
  by (simp_all add: NLA_ALIGN_def)

lemma align_dvd: "4 dvd n \<Longrightarrow> NLA_ALIGN n = n" "4 dvd n \<Longrightarrow> NLMSG_ALIGN n = n"
  by (auto simp: NLA_ALIGN_def NLMSG_ALIGN_def elim: dvdE)

lemma length_enc_attr: "length (enc_attr le a) = NLA_ALIGN (4 + length (snd a))"
  using align_le(1) [of "4 + length (snd a)"] by (simp add: enc_attr_def)

lemma req_tail_state:
  assumes "4 dvd length B" "4 + length B \<le> sizeof_req"
  shows "req_tail le (req_state le B k) = Some (4 + length B)"
proof -
  have "get32 le (req_state le B k) 0 = Some (of_nat (4 + length B))"
    using get32_append [of le "[]" "of_nat (4 + length B)"] by (simp add: req_state_def)
  moreover have "unat (of_nat (4 + length B) :: u32) = 4 + length B"
    using assms(2) by (intro unat_of_nat_u32) (simp add: sizeof_req_def)
  ultimately show ?thesis
    using assms(1) by (simp add: req_tail_def nlmsg_len_of_def align_dvd del: of_nat_add)
qed

text \<open>One write at the end of what is there.\<close>

lemma memcpy_mid: "length Z = length bs \<Longrightarrow> n = length X \<Longrightarrow> memcpy (X @ Z @ Y) n bs = X @ bs @ Y"
  by (simp add: memcpy_def)

lemma nlattr_add_state:
  assumes "4 dvd length B" "4 + length B + k = sizeof_req" "NLA_ALIGN (4 + length d) \<le> k"
    and "dat = (if d = [] then None else Some d)"
  shows "nlattr_add le (req_state le B k) t dat (length d) =
    Some (0, req_state le (B @ enc_attr le (t, d)) (k - NLA_ALIGN (4 + length d)))"
proof -
  let ?n = "4 + length B" and ?l = "length d" and ?L = "bytes32 le (of_nat (4 + length B))"
  let ?pad = "NLA_ALIGN (4 + ?l) - (4 + ?l)" and ?k = "k - NLA_ALIGN (4 + ?l)"
  let ?h = "bytes16 le (of_nat (4 + ?l))" and ?t = "bytes16 le t"
  define X where "X = ?L @ B"
  have X: "length X = ?n" by (simp add: X_def)
  have hdr: "NLA_HDRLEN = 4" by (simp add: NLA_HDRLEN_def NLA_ALIGN_def)
  note a = align_le [of "4 + ?l"]
  have "k = 2 + (2 + (?l + (?pad + ?k)))" using assms(3) a by simp
  then have "replicate k (0 :: u8) = replicate (2 + (2 + (?l + (?pad + ?k)))) 0"
    by (rule arg_cong [of _ _ "\<lambda>n. replicate n 0"])
  then have z: "replicate k (0 :: u8) = replicate 2 0 @ replicate 2 0 @ replicate ?l 0 @ replicate ?pad 0 @ replicate ?k 0"
    by (simp only: replicate_add)
  have len: "length X + (2 + (2 + (?l + (?pad + ?k)))) = sizeof_req" using assms(2,3) a X by simp
  have tail: "req_tail le (req_state le B k) = Some ?n"
    using req_tail_state [OF assms(1)] assms(2) by simp
  let ?R = "replicate ?pad (0 :: u8) @ replicate ?k 0"
  have s0: "req_state le B k = X @ replicate 2 0 @ replicate 2 0 @ replicate ?l 0 @ ?R"
    by (simp only: req_state_def X_def z append_assoc)
  have s1: "put16 le (X @ replicate 2 0 @ replicate 2 0 @ replicate ?l 0 @ ?R) (?n + 2) t =
      Some (X @ replicate 2 0 @ ?t @ replicate ?l 0 @ ?R)"
    using memcpy_mid [of "replicate 2 0" ?t "?n + 2" "X @ replicate 2 0" "replicate ?l 0 @ ?R"] X
    by (simp add: put16_def)
  have s2: "put16 le (X @ replicate 2 0 @ ?t @ replicate ?l 0 @ ?R) ?n (of_nat (4 + ?l)) =
      Some (X @ ?h @ ?t @ replicate ?l 0 @ ?R)"
    using memcpy_mid [of "replicate 2 0" ?h ?n X "?t @ replicate ?l 0 @ ?R"] X
    by (simp add: put16_def)
  have s3: "(case dat of None \<Rightarrow> Some (X @ ?h @ ?t @ replicate ?l 0 @ ?R)
      | Some x \<Rightarrow> put_bytes (X @ ?h @ ?t @ replicate ?l 0 @ ?R) (?n + 4) (take ?l x)) =
      Some (X @ ?h @ ?t @ d @ ?R)"
    using memcpy_mid [of "replicate ?l 0" d "?n + 4" "X @ ?h @ ?t" ?R] X assms(4)
    by (cases "d = []") (simp_all add: put_bytes_def)
  have s4: "put32 le (X @ ?h @ ?t @ d @ ?R) 0 (of_nat (?n + NLA_ALIGN (4 + ?l))) =
      Some (req_state le (B @ enc_attr le (t, d)) ?k)"
    using memcpy_mid [of ?L "bytes32 le (of_nat (?n + NLA_ALIGN (4 + ?l)))" 0 "[]" "B @ ?h @ ?t @ d @ ?R"] a
    by (simp add: put32_def X_def req_state_def enc_attr_def add.assoc)
  define r0 r1 r2 r3 r4 where "r0 = req_state le B k" and "r1 = X @ replicate 2 0 @ ?t @ replicate ?l 0 @ ?R"
    and "r2 = X @ ?h @ ?t @ replicate ?l 0 @ ?R" and "r3 = X @ ?h @ ?t @ d @ ?R"
    and "r4 = req_state le (B @ enc_attr le (t, d)) ?k"
  note steps = tail [folded r0_def] s1 [folded s0, folded r0_def r1_def] s2 [folded r1_def r2_def]
    s3 [folded r2_def r3_def] s4 [folded r3_def r4_def]
  have fits: "\<not> sizeof_req < ?n + NLA_ALIGN (4 + ?l)" using assms(2,3) by simp
  have dat: "\<not> ((dat \<noteq> None) \<noteq> (?l \<noteq> 0))" using assms(4) by auto
  show ?thesis
    unfolding nlattr_add_def hdr r0_def [symmetric] r4_def [symmetric]
    by (simp only: steps bind.bind_lunit fits dat if_False)
qed

lemma enc_attr_empty: "enc_attr le (t, []) = bytes16 le 4 @ bytes16 le t"
  by (simp add: enc_attr_def NLA_ALIGN_def)

lemma nlattr_begin_nested_state:
  assumes "4 dvd length B" "4 + length B + k = sizeof_req" "4 \<le> k"
  shows "nlattr_begin_nested le (req_state le B k) t =
    Some (Some (4 + length B), req_state le (B @ enc_attr le (t OR NLA_F_NESTED, [])) (k - 4))"
  using nlattr_add_state [OF assms(1,2), of "[]" None le "t OR NLA_F_NESTED"] req_tail_state [OF assms(1)] assms(2,3)
  by (simp add: nlattr_begin_nested_def NLA_ALIGN_def)

lemma nlattr_end_nested_state:
  assumes "4 dvd length B" "4 dvd length C" "8 + length B + length C \<le> sizeof_req"
  shows "nlattr_end_nested le (req_state le (B @ enc_attr le (t, []) @ C) k) (4 + length B) =
    Some (req_state le (B @ enc_attr le (t, C)) k)"
proof -
  let ?L = "bytes32 le (of_nat (8 + length B + length C))"
  have "4 dvd length (B @ enc_attr le (t, []) @ C)" using assms(1,2) by (simp add: enc_attr_empty) presburger
  then have tail: "req_tail le (req_state le (B @ enc_attr le (t, []) @ C) k) = Some (8 + length B + length C)"
    using req_tail_state [of "B @ enc_attr le (t, []) @ C" le k] assms(3) by (simp add: enc_attr_empty)
  have "NLA_ALIGN (4 + length C) = 4 + length C" using assms(2) by (simp add: align_dvd)
  then have e: "enc_attr le (t, C) = bytes16 le (of_nat (4 + length C)) @ bytes16 le t @ C"
    by (simp add: enc_attr_def)
  have "req_state le (B @ enc_attr le (t, []) @ C) k = (?L @ B) @ bytes16 le 4 @ bytes16 le t @ C @ replicate k 0"
    by (simp add: req_state_def enc_attr_empty add.commute add.left_commute)
  moreover have "req_state le (B @ enc_attr le (t, C)) k =
      (?L @ B) @ bytes16 le (of_nat (4 + length C)) @ bytes16 le t @ C @ replicate k 0"
    by (simp add: req_state_def e add.commute add.left_commute)
  ultimately show ?thesis
    using put16_append [of "bytes16 le 4" le "?L @ B" "bytes16 le t @ C @ replicate k 0" "of_nat (4 + length C)"] tail
    by (simp add: nlattr_end_nested_def)
qed

section \<open>Reading back what was written\<close>

definition attr_at :: "bool \<Rightarrow> u8 list \<Rightarrow> nat \<Rightarrow> u16 \<times> u8 list \<Rightarrow> bool" where
  "attr_at le b off a \<longleftrightarrow> (\<exists>P Q. b = P @ enc_attr le a @ Q \<and> length P = off)"

definition attr_type :: "u16 \<times> u8 list \<Rightarrow> nat" where
  "attr_type a = unat (fst a AND NLA_TYPE_MASK)"

lemma attr_at_read:
  assumes "attr_at le b off a" "4 + length (snd a) < 65536"
  shows "get16 le b off = Some (of_nat (4 + length (snd a)))" "nla_type le b off = Some (attr_type a)"
    "libbpf_nla_len le b off = Some (int (length (snd a)))"
    "take (length (snd a)) (drop (libbpf_nla_data off) b) = snd a"
proof -
  obtain P Q where b: "b = P @ enc_attr le a @ Q" "length P = off"
    using assms(1) by (auto simp: attr_at_def)
  let ?l = "bytes16 le (of_nat (4 + length (snd a)))" and ?Q = "snd a @ replicate (NLA_ALIGN (4 + length (snd a)) - (4 + length (snd a))) 0 @ Q"
  have e: "b = P @ ?l @ bytes16 le (fst a) @ ?Q" by (simp add: b(1) enc_attr_def)
  show g: "get16 le b off = Some (of_nat (4 + length (snd a)))"
    using get16_append [of le P "of_nat (4 + length (snd a))" "bytes16 le (fst a) @ ?Q"] e b(2) by simp
  have "get16 le b (off + 2) = Some (fst a)"
    using get16_append [of le "P @ ?l" "fst a" ?Q] e b(2) by simp
  then show "nla_type le b off = Some (attr_type a)" by (simp add: nla_type_def attr_type_def)
  have u: "unat (of_nat (4 + length (snd a)) :: u16) = 4 + length (snd a)" by (rule unat_of_nat_u16) (rule assms(2))
  show "libbpf_nla_len le b off = Some (int (length (snd a)))"
    unfolding libbpf_nla_len_def g bind.bind_lunit u by (simp add: NLA_HDRLEN_def NLA_ALIGN_def)
  show "take (length (snd a)) (drop (libbpf_nla_data off) b) = snd a"
    using e b(2) by (simp add: libbpf_nla_data_def NLA_HDRLEN_def NLA_ALIGN_def)
qed

lemma attr_at_step:
  assumes "attr_at le b off a" "4 + length (snd a) < 65536" "int (NLA_ALIGN (4 + length (snd a))) \<le> remaining"
  shows "nla_ok le b off remaining = Some True"
    "nla_next le b off remaining = Some (off + NLA_ALIGN (4 + length (snd a)), remaining - int (NLA_ALIGN (4 + length (snd a))))"
proof -
  have u: "unat (of_nat (4 + length (snd a)) :: u16) = 4 + length (snd a)" by (rule unat_of_nat_u16) (rule assms(2))
  note g = attr_at_read(1) [OF assms(1,2)] and al = align_le(1) [of "4 + length (snd a)"]
  have r: "int (4 + length (snd a)) \<le> remaining" using al assms(3) by linarith
  show "nla_ok le b off remaining = Some True"
    unfolding nla_ok_def g bind.bind_lunit u using r by simp
  show "nla_next le b off remaining = Some (off + NLA_ALIGN (4 + length (snd a)), remaining - int (NLA_ALIGN (4 + length (snd a))))"
    unfolding nla_next_def g bind.bind_lunit u Let_def ..
qed

text \<open>The parser indexes the last attribute of each type.\<close>

definition indexed :: "bool \<Rightarrow> u8 list \<Rightarrow> nat \<Rightarrow> (u16 \<times> u8 list) list \<Rightarrow> nat option list \<Rightarrow> nat option list \<Rightarrow> bool" where
  "indexed le b maxtype as tb tb' \<longleftrightarrow> length tb' = length tb \<and>
     (\<forall>t\<le>maxtype. case List.find (\<lambda>a. attr_type a = t) (rev as) of
        None \<Rightarrow> tb' ! t = tb ! t
      | Some a \<Rightarrow> \<exists>off. tb' ! t = Some off \<and> attr_at le b off a)"

lemma indexed_Some:
  assumes "indexed le b maxtype as tb tb'" "t \<le> maxtype" "List.find (\<lambda>a. attr_type a = t) (rev as) = Some a"
  shows "\<exists>off. tb' ! t = Some off \<and> attr_at le b off a"
  using assms unfolding indexed_def by (elim conjE allE [of _ t]) simp

lemma parse_enc:
  assumes "b = X @ concat (map (enc_attr le) as) @ Y" "\<forall>a\<in>set as. 4 + length (snd a) < 65536"
    and "0 \<le> r" "r < 4" "length tb = maxtype + 1"
  shows "\<exists>tb'. nla_parse_loop le b maxtype None (length X) (int (length (concat (map (enc_attr le) as))) + r) tb =
    Some (0, tb') \<and> indexed le b maxtype as tb tb'"
  using assms(1,2,5)
proof (induction as arbitrary: X tb)
  case Nil
  then show ?case using assms(3,4) by (subst nla_parse_loop.simps) (simp add: nla_ok_def indexed_def)
next
  case (Cons a as)
  let ?n = "NLA_ALIGN (4 + length (snd a))" and ?c = "concat (map (enc_attr le) as)"
  let ?tb = "if attr_type a > maxtype then tb else tb[attr_type a := Some (length X)]"
  have at: "attr_at le b (length X) a" using Cons.prems(1) by (auto simp: attr_at_def)
  have small: "4 + length (snd a) < 65536" using Cons.prems(2) by simp
  have len: "int (length (concat (map (enc_attr le) (a # as)))) + r = int ?n + (int (length ?c) + r)"
    by (simp add: length_enc_attr)
  note step = attr_at_step [OF at small, of "int ?n + (int (length ?c) + r)"]
  have eq: "nla_parse_loop le b maxtype None (length X) (int ?n + (int (length ?c) + r)) tb =
      nla_parse_loop le b maxtype None (length X + ?n) (int (length ?c) + r) ?tb"
    using step assms(3) attr_at_read(2) [OF at small]
    by (subst nla_parse_loop.simps) (simp add: split: bool.splits)
  have "\<exists>tb'. nla_parse_loop le b maxtype None (length (X @ enc_attr le a)) (int (length ?c) + r) ?tb =
      Some (0, tb') \<and> indexed le b maxtype as ?tb tb'"
    using Cons.IH [of "X @ enc_attr le a" ?tb] Cons.prems by simp
  then obtain tb' where tb': "nla_parse_loop le b maxtype None (length X + ?n) (int (length ?c) + r) ?tb =
      Some (0, tb')" "indexed le b maxtype as ?tb tb'" by (auto simp: length_enc_attr)
  have "indexed le b maxtype (a # as) tb tb'"
    unfolding indexed_def
  proof (intro conjI allI impI)
    show "length tb' = length tb" using tb'(2) by (simp add: indexed_def split: if_splits)
    fix t assume "t \<le> maxtype"
    with tb'(2) have s: "case List.find (\<lambda>a. attr_type a = t) (rev as) of None \<Rightarrow> tb' ! t = ?tb ! t
        | Some a \<Rightarrow> \<exists>off. tb' ! t = Some off \<and> attr_at le b off a"
      by (simp add: indexed_def)
    show "case List.find (\<lambda>a. attr_type a = t) (rev (a # as)) of None \<Rightarrow> tb' ! t = tb ! t
        | Some a \<Rightarrow> \<exists>off. tb' ! t = Some off \<and> attr_at le b off a"
    proof (cases "List.find (\<lambda>a. attr_type a = t) (rev as)")
      case None
      with s at Cons.prems(3) \<open>t \<le> maxtype\<close> show ?thesis
        by (cases "attr_type a = t") (auto simp: find_append)
    next
      case (Some a')
      with s show ?thesis by (simp add: find_append)
    qed
  qed
  then show ?case using tb'(1) by (simp only: len eq) blast
qed

fun nlattr_add_all :: "bool \<Rightarrow> u8 list \<Rightarrow> (u16 \<times> u8 list) list \<Rightarrow> (int \<times> u8 list) option" where
  "nlattr_add_all le req [] = Some (0, req)"
| "nlattr_add_all le req (a # as) = do {
     (err, req) \<leftarrow> nlattr_add le req (fst a) (if snd a = [] then None else Some (snd a)) (length (snd a));
     if err \<noteq> 0 then Some (err, req) else nlattr_add_all le req as }"

lemma nlattr_add_all_state:
  assumes "4 dvd length B" "4 + length B + k = sizeof_req" "length (concat (map (enc_attr le) as)) \<le> k"
  shows "nlattr_add_all le (req_state le B k) as =
    Some (0, req_state le (B @ concat (map (enc_attr le) as)) (k - length (concat (map (enc_attr le) as))))"
  using assms
proof (induction as arbitrary: B k)
  case (Cons a as)
  let ?n = "NLA_ALIGN (4 + length (snd a))"
  have fits: "?n + length (concat (map (enc_attr le) as)) \<le> k" using Cons.prems(3) by (simp add: length_enc_attr)
  have "nlattr_add le (req_state le B k) (fst a) (if snd a = [] then None else Some (snd a)) (length (snd a)) =
      Some (0, req_state le (B @ enc_attr le a) (k - ?n))"
    using nlattr_add_state [OF Cons.prems(1,2), of "snd a" _ le "fst a"] fits by simp
  moreover have "4 dvd length (B @ enc_attr le a)"
    using Cons.prems(1) align_le(3) [of "4 + length (snd a)"] by (simp add: length_enc_attr)
  ultimately show ?case
    using Cons.IH [of "B @ enc_attr le a" "k - ?n"] Cons.prems(2) fits by (simp add: length_enc_attr)
qed simp

text \<open>Every attribute of a request is short enough for its 16-bit length.\<close>

lemma enc_fits:
  assumes "length (concat (map (enc_attr le) as)) \<le> n" "a \<in> set as"
  shows "4 + length (snd a) \<le> n"
proof -
  have "length (enc_attr le a) \<le> length (concat (map (enc_attr le) as))"
    using assms(2) by (induction as) auto
  then show ?thesis using assms(1) align_le(1) [of "4 + length (snd a)"] by (simp add: length_enc_attr)
qed

section \<open>Properties\<close>

lemma parse_inside:
  assumes "int head + len \<le> int (length b)"
    and "case policy of None \<Rightarrow> True | Some p \<Rightarrow> length p = maxtype + 1"
  shows "\<exists>err tb. libbpf_nla_parse le b maxtype head len policy = Some (err, tb) \<and>
    (err = 0 \<or> err = - 1) \<and> length tb = maxtype + 1 \<and>
    (\<forall>t\<le>maxtype. \<forall>off. tb ! t = Some off \<longrightarrow>
       attr_inside le b head (max head (nat (int head + len))) off t \<and>
       (\<forall>p. policy = Some p \<longrightarrow> validate_nla le b off maxtype p = Some 0))"
proof (cases "len < 0")
  case True
  then have "nla_parse_loop le b maxtype policy head len (replicate (maxtype + 1) None) =
      Some (0, replicate (maxtype + 1) None)"
    by (subst nla_parse_loop.simps) (simp add: nla_ok_def)
  then show ?thesis by (auto simp: libbpf_nla_parse_def)
next
  case False
  then have m: "max head (nat (int head + len)) = nat (int head + len)" by simp
  show ?thesis
    unfolding libbpf_nla_parse_def m
    by (rule parse_loop_safe) (use assms False in \<open>auto split: option.splits\<close>)
qed

text \<open>C17. Whatever bytes a message holds, indexing its attributes reads nothing outside the stretch it was
  given and terminates; each entry of the index is an attribute of that type lying wholly inside
  the stretch and, when a policy is given, one the policy accepts.\<close>

theorem nla_parse_inside:
  assumes "int head + len \<le> int (length b)"
    and "case policy of None \<Rightarrow> True | Some p \<Rightarrow> length p = maxtype + 1"
  shows "\<exists>err tb. libbpf_nla_parse le b maxtype head len policy = Some (err, tb) \<and>
    (err = 0 \<or> err = - 1) \<and> length tb = maxtype + 1 \<and>
    (\<forall>t\<le>maxtype. \<forall>off. tb ! t = Some off \<longrightarrow>
       attr_inside le b head (max head (nat (int head + len))) off t \<and>
       (\<forall>p. policy = Some p \<longrightarrow> validate_nla le b off maxtype p = Some 0))"
  using assms by (rule parse_inside)

theorem nla_parse_inside_witness:
  "\<exists>tb. libbpf_nla_parse True [5, 0, 1, 0, 65, 0, 0, 0, 9, 0] 3 0 10 (Some extack_policy) = Some (- 1, tb) \<and>
    length tb = 4"
proof -
  have p: "int 0 + 10 \<le> int (length [5, 0, 1, 0, 65, 0, 0, 0, 9, 0 :: u8])"
    "case Some extack_policy of None \<Rightarrow> True | Some p \<Rightarrow> length p = 3 + 1"
    by (simp_all add: extack_policy_def)
  have "map_option fst (libbpf_nla_parse True [5, 0, 1, 0, 65, 0, 0, 0, 9, 0] 3 0 10 (Some extack_policy)) = Some (- 1)"
    by code_simp
  with nla_parse_inside [OF p, of True] show ?thesis by auto
qed

text \<open>C18. Building and parsing agree: attributes added one after the other to a request with room for them are
  all accepted, and indexing the bytes they took finds, for every type, the last attribute added with that
  type, with its length and its bytes, and nothing for the types that were not added.\<close>

theorem nlattr_roundtrip:
  assumes "4 dvd length B" "4 + length B + k = sizeof_req" "length (concat (map (enc_attr le) as)) \<le> k"
  shows "\<exists>req tb. nlattr_add_all le (req_state le B k) as = Some (0, req) \<and>
    libbpf_nla_parse le req maxtype (4 + length B) (int (length (concat (map (enc_attr le) as)))) None = Some (0, tb) \<and>
    (\<forall>t\<le>maxtype. case List.find (\<lambda>a. attr_type a = t) (rev as) of
       None \<Rightarrow> tb ! t = None
     | Some a \<Rightarrow> \<exists>off. tb ! t = Some off \<and> libbpf_nla_len le req off = Some (int (length (snd a))) \<and>
         take (length (snd a)) (drop (libbpf_nla_data off) req) = snd a)"
proof -
  let ?c = "concat (map (enc_attr le) as)"
  define req where "req = req_state le (B @ ?c) (k - length ?c)"
  let ?X = "bytes32 le (of_nat (4 + length (B @ ?c))) @ B"
  have small: "\<forall>a\<in>set as. 4 + length (snd a) < 65536"
    using enc_fits [OF assms(3)] assms(2) by (fastforce simp: sizeof_req_def)
  have "req = ?X @ ?c @ replicate (k - length ?c) 0" by (simp add: req_def req_state_def)
  from parse_enc [OF this small, of 0 "replicate (maxtype + 1) None" maxtype]
  obtain tb where tb: "libbpf_nla_parse le req maxtype (4 + length B) (int (length ?c)) None = Some (0, tb)"
    "indexed le req maxtype as (replicate (maxtype + 1) None) tb"
    by (auto simp: libbpf_nla_parse_def)
  have "case List.find (\<lambda>a. attr_type a = t) (rev as) of None \<Rightarrow> tb ! t = None
     | Some a \<Rightarrow> \<exists>off. tb ! t = Some off \<and> libbpf_nla_len le req off = Some (int (length (snd a))) \<and>
         take (length (snd a)) (drop (libbpf_nla_data off) req) = snd a" if "t \<le> maxtype" for t
  proof (cases "List.find (\<lambda>a. attr_type a = t) (rev as)")
    case None
    then show ?thesis using tb(2) that by (force simp: indexed_def)
  next
    case (Some a)
    have "\<exists>off. tb ! t = Some off \<and> attr_at le req off a"
      using indexed_Some [OF tb(2) that Some] .
    then obtain off where "tb ! t = Some off" "attr_at le req off a" by blast
    moreover have "4 + length (snd a) < 65536"
      using find_in_set [OF Some] small by simp
    ultimately show ?thesis using attr_at_read(3,4) Some by auto
  qed
  then show ?thesis using nlattr_add_all_state [OF assms, folded req_def] tb(1) by blast
qed

theorem nlattr_roundtrip_witness:
  "\<exists>req tb off. nlattr_add_all True (req_state True (replicate 28 0) 132) [(1, [7, 8]), (2, [9]), (1, [3, 4, 5])] =
      Some (0, req) \<and>
    libbpf_nla_parse True req 2 32 24 None = Some (0, tb) \<and> tb ! 1 = Some off \<and>
    take 3 (drop (libbpf_nla_data off) req) = [3, 4, 5]"
proof -
  let ?as = "[(1, [7, 8]), (2, [9]), (1, [3, 4, 5])] :: (u16 \<times> u8 list) list"
  have p: "4 dvd length (replicate 28 (0 :: u8))" "4 + length (replicate 28 (0 :: u8)) + 132 = sizeof_req"
    "length (concat (map (enc_attr True) ?as)) \<le> 132"
    by (simp_all add: sizeof_req_def length_enc_attr NLA_ALIGN_def)
  have l: "length (concat (map (enc_attr True) ?as)) = 24" by (simp add: length_enc_attr NLA_ALIGN_def)
  have "List.find (\<lambda>a. attr_type a = 1) (rev ?as) = Some (1, [3, 4, 5])" by code_simp
  moreover obtain req tb where "nlattr_add_all True (req_state True (replicate 28 0) 132) ?as = Some (0, req)"
    "libbpf_nla_parse True req 2 32 24 None = Some (0, tb)"
    "case List.find (\<lambda>a. attr_type a = 1) (rev ?as) of None \<Rightarrow> tb ! 1 = None
     | Some a \<Rightarrow> \<exists>off. tb ! 1 = Some off \<and> libbpf_nla_len True req off = Some (int (length (snd a))) \<and>
         take (length (snd a)) (drop (libbpf_nla_data off) req) = snd a"
    using nlattr_roundtrip [OF p, of 2] unfolding l by (elim exE conjE allE [of _ 1]) simp
  ultimately show ?thesis by (auto simp: eval_nat_numeral)
qed

end
