(* ===== verification/Netlink.thy ===== *)
theory Netlink
  imports Nlattr
begin

text \<open>
  Talking to the kernel over netlink, \<open>libbpf/src/netlink.c\<close>: attaching and querying XDP programs,
  and the traffic-control hooks. The sockets, the clock and the kernel at the other end
  are the record \<open>nl_os\<close>; the results of successive \<open>recvmsg\<close> calls are a list, and a run that
  waits for more than it holds has no result (\<open>None\<close>), as has one that reads outside the bytes
  received. The open sockets are a list, so that leaks show. Option structures are of the
  current size; whether \<open>OPTS_VALID\<close> accepts them is an argument. \<open>libbpf_err\<close> only
  copies the error to \<open>errno\<close>.
\<close>

section \<open>Constants\<close>

abbreviation (input) ENAMETOOLONG :: int where "ENAMETOOLONG \<equiv> 36"

definition LIBBPF_ERRNO__INTERNAL :: int where "LIBBPF_ERRNO__INTERNAL = 4004"
definition LIBBPF_ERRNO__WRNGPID :: int where "LIBBPF_ERRNO__WRNGPID = 4011"
definition LIBBPF_ERRNO__INVSEQ :: int where "LIBBPF_ERRNO__INVSEQ = 4012"
definition LIBBPF_ERRNO__NLPARSE :: int where "LIBBPF_ERRNO__NLPARSE = 4013"

definition NLM_F_REQUEST :: u16 where "NLM_F_REQUEST = 0x01"
definition NLM_F_MULTI :: u16 where "NLM_F_MULTI = 0x02"
definition NLM_F_ACK :: u16 where "NLM_F_ACK = 0x04"
definition NLM_F_ECHO :: u16 where "NLM_F_ECHO = 0x08"
definition NLM_F_DUMP :: u16 where "NLM_F_DUMP = 0x100 OR 0x200"
definition NLM_F_REPLACE :: u16 where "NLM_F_REPLACE = 0x100"
definition NLM_F_EXCL :: u16 where "NLM_F_EXCL = 0x200"
definition NLM_F_CREATE :: u16 where "NLM_F_CREATE = 0x400"
definition NLMSG_ERROR :: u16 where "NLMSG_ERROR = 2"
definition NLMSG_DONE :: u16 where "NLMSG_DONE = 3"

text \<open>Message types and attributes of \<open>linux/rtnetlink.h\<close> and \<open>linux/genetlink.h\<close> (system headers).\<close>

definition RTM_GETLINK :: u16 where "RTM_GETLINK = 18"
definition RTM_SETLINK :: u16 where "RTM_SETLINK = 19"
definition RTM_NEWQDISC :: u16 where "RTM_NEWQDISC = 36"
definition RTM_DELQDISC :: u16 where "RTM_DELQDISC = 37"
definition RTM_NEWTFILTER :: u16 where "RTM_NEWTFILTER = 44"
definition RTM_DELTFILTER :: u16 where "RTM_DELTFILTER = 45"
definition RTM_GETTFILTER :: u16 where "RTM_GETTFILTER = 46"
definition TCA_KIND :: nat where "TCA_KIND = 1"
definition TCA_OPTIONS :: nat where "TCA_OPTIONS = 2"
definition TCA_MAX :: nat where "TCA_MAX = 16"
definition GENL_ID_CTRL :: u16 where "GENL_ID_CTRL = 16"
definition CTRL_ATTR_FAMILY_ID :: nat where "CTRL_ATTR_FAMILY_ID = 1"
definition CTRL_ATTR_FAMILY_NAME :: nat where "CTRL_ATTR_FAMILY_NAME = 2"
definition GENL_HDRLEN :: nat where "GENL_HDRLEN = 4"

definition IFLA_XDP :: nat where "IFLA_XDP = 43"
definition IFLA_MAX :: nat where "IFLA_MAX = 66"
definition IFLA_XDP_FD :: nat where "IFLA_XDP_FD = 1"
definition IFLA_XDP_ATTACHED :: nat where "IFLA_XDP_ATTACHED = 2"
definition IFLA_XDP_FLAGS :: nat where "IFLA_XDP_FLAGS = 3"
definition IFLA_XDP_PROG_ID :: nat where "IFLA_XDP_PROG_ID = 4"
definition IFLA_XDP_DRV_PROG_ID :: nat where "IFLA_XDP_DRV_PROG_ID = 5"
definition IFLA_XDP_SKB_PROG_ID :: nat where "IFLA_XDP_SKB_PROG_ID = 6"
definition IFLA_XDP_HW_PROG_ID :: nat where "IFLA_XDP_HW_PROG_ID = 7"
definition IFLA_XDP_EXPECTED_FD :: nat where "IFLA_XDP_EXPECTED_FD = 8"
definition IFLA_XDP_MAX :: nat where "IFLA_XDP_MAX = 8"
definition XDP_FLAGS_SKB_MODE :: u32 where "XDP_FLAGS_SKB_MODE = 2"
definition XDP_FLAGS_DRV_MODE :: u32 where "XDP_FLAGS_DRV_MODE = 4"
definition XDP_FLAGS_HW_MODE :: u32 where "XDP_FLAGS_HW_MODE = 8"
definition XDP_FLAGS_REPLACE :: u32 where "XDP_FLAGS_REPLACE = 16"
definition XDP_FLAGS_MODES :: u32 where
  "XDP_FLAGS_MODES = XDP_FLAGS_SKB_MODE OR XDP_FLAGS_DRV_MODE OR XDP_FLAGS_HW_MODE"
definition XDP_FLAGS_MASK :: u32 where "XDP_FLAGS_MASK = 1 OR XDP_FLAGS_MODES OR XDP_FLAGS_REPLACE"
definition XDP_ATTACHED_NONE :: u8 where "XDP_ATTACHED_NONE = 0"
definition XDP_ATTACHED_MULTI :: u8 where "XDP_ATTACHED_MULTI = 4"
definition NETDEV_A_DEV_IFINDEX :: nat where "NETDEV_A_DEV_IFINDEX = 1"
definition NETDEV_A_DEV_XDP_FEATURES :: nat where "NETDEV_A_DEV_XDP_FEATURES = 3"
definition NETDEV_A_DEV_XDP_ZC_MAX_SEGS :: nat where "NETDEV_A_DEV_XDP_ZC_MAX_SEGS = 4"
definition NETDEV_CMD_MAX :: nat where "NETDEV_CMD_MAX = 14"
definition TCA_BPF_FD :: nat where "TCA_BPF_FD = 6"
definition TCA_BPF_NAME :: nat where "TCA_BPF_NAME = 7"
definition TCA_BPF_FLAGS :: nat where "TCA_BPF_FLAGS = 8"
definition TCA_BPF_ID :: nat where "TCA_BPF_ID = 11"
definition TCA_BPF_MAX :: nat where "TCA_BPF_MAX = 11"
definition TCA_BPF_FLAG_ACT_DIRECT :: u32 where "TCA_BPF_FLAG_ACT_DIRECT = 1"
definition TC_H_CLSACT :: u32 where "TC_H_CLSACT = 0xFFFFFFF1"
definition TC_H_MIN_INGRESS :: u32 where "TC_H_MIN_INGRESS = 0xFFF2"
definition TC_H_MIN_EGRESS :: u32 where "TC_H_MIN_EGRESS = 0xFFF3"
definition TC_H_MAJ :: "u32 \<Rightarrow> u32" where "TC_H_MAJ h = h AND 0xFFFF0000"
definition TC_H_MAKE :: "u32 \<Rightarrow> u32 \<Rightarrow> u32" where "TC_H_MAKE maj mi = (maj AND 0xFFFF0000) OR (mi AND 0x0000FFFF)"
definition ETH_P_ALL :: u16 where "ETH_P_ALL = 3"

section \<open>Sockets\<close>

record nl_os =
  nl_socket :: "int + int"
  nl_bind :: int
  nl_getsockname :: "int + (u32 \<times> nat)"
  nl_time :: u32
  nl_send :: "u8 list \<Rightarrow> int option"
  nl_recvs :: "u8 list \<Rightarrow> (int + u8 list) list"
  nl_alloc :: "nat \<Rightarrow> bool"

definition sizeof_sockaddr_nl :: nat where "sizeof_sockaddr_nl = 12"

text \<open>The socket and its port, or the error; and the open sockets.\<close>

definition libbpf_netlink_open :: "nl_os \<Rightarrow> int list \<Rightarrow> (int + int \<times> u32) \<times> int list" where
  "libbpf_netlink_open os socks =
     (case nl_socket os of
        Inl e \<Rightarrow> (Inl (- e), socks)
      | Inr sock \<Rightarrow>
          if nl_bind os \<noteq> 0 then (Inl (- nl_bind os), remove1 sock (sock # socks))
          else (case nl_getsockname os of
             Inl e \<Rightarrow> (Inl (- e), remove1 sock (sock # socks))
           | Inr (pid, addrlen) \<Rightarrow>
               if addrlen \<noteq> sizeof_sockaddr_nl then (Inl (- LIBBPF_ERRNO__INTERNAL), remove1 sock (sock # socks))
               else (Inr (sock, pid), sock # socks)))"

definition libbpf_netlink_close :: "int \<Rightarrow> int list \<Rightarrow> int list" where
  "libbpf_netlink_close sock socks = remove1 sock socks"

definition NL_CONT :: int where "NL_CONT = 0"
definition NL_NEXT :: int where "NL_NEXT = 1"
definition NL_DONE :: int where "NL_DONE = 2"

section \<open>Receiving\<close>

fun netlink_recvmsg :: "(int + u8 list) list \<Rightarrow> ((int + u8 list) \<times> (int + u8 list) list) option" where
  "netlink_recvmsg [] = None"
| "netlink_recvmsg (Inl e # rs) =
     (if e = EINTR \<or> e = EAGAIN then netlink_recvmsg rs else Some (Inl (- e), rs))"
| "netlink_recvmsg (Inr b # rs) = Some (Inr b, rs)"

lemma netlink_recvmsg_less: "netlink_recvmsg rs = Some (r, rs') \<Longrightarrow> length rs' < length rs"
  by (induction rs rule: netlink_recvmsg.induct) (auto split: if_splits)

text \<open>What the loop over one datagram ends in: a result, \<open>goto start\<close>, or the end with the flag \<open>multipart\<close>.\<close>

datatype 'c msgs_result = Result int 'c | Start 'c | Finished bool 'c

type_synonym 'c dump_nlmsg = "u8 list \<Rightarrow> nat \<Rightarrow> 'c \<Rightarrow> (int \<times> 'c) option"

definition NLMSG_OK :: "bool \<Rightarrow> u8 list \<Rightarrow> nat \<Rightarrow> int \<Rightarrow> bool option" where
  "NLMSG_OK le b nh len =
     (if len < 16 then Some False
      else do { l \<leftarrow> nlmsg_len_of le b nh; Some (16 \<le> unat l \<and> int (unat l) \<le> len) })"

definition NLMSG_NEXT :: "bool \<Rightarrow> u8 list \<Rightarrow> nat \<Rightarrow> int \<Rightarrow> (nat \<times> int) option" where
  "NLMSG_NEXT le b nh len = do {
     l \<leftarrow> nlmsg_len_of le b nh;
     Some (nh + NLMSG_ALIGN (unat l), len - int (NLMSG_ALIGN (unat l))) }"

text \<open>\<open>NLMSG_PAYLOAD\<close> as the \<open>int\<close> it is passed as.\<close>

definition NLMSG_PAYLOAD :: "bool \<Rightarrow> u8 list \<Rightarrow> nat \<Rightarrow> nat \<Rightarrow> int option" where
  "NLMSG_PAYLOAD le b nh len = do { l \<leftarrow> nlmsg_len_of le b nh; Some (sint (l - of_nat (NLMSG_SPACE len))) }"

lemma NLMSG_NEXT_less:
  "NLMSG_OK le b nh len = Some True \<Longrightarrow> NLMSG_NEXT le b nh len = Some (nh', len') \<Longrightarrow> nat len' < nat len"
  by (auto simp: NLMSG_OK_def NLMSG_NEXT_def NLMSG_ALIGN_def split: if_splits bind_splits)

text \<open>One message: the result and state to leave the loop with, or \<open>None\<close> to go on, and the flag.\<close>

definition netlink_msg :: "bool \<Rightarrow> u32 \<Rightarrow> u32 \<Rightarrow> 'c dump_nlmsg option \<Rightarrow> u8 list \<Rightarrow> nat \<Rightarrow> bool \<Rightarrow> 'c \<Rightarrow>
    ('c msgs_result option \<times> bool \<times> 'c) option" where
  "netlink_msg le nl_pid seq fn b nh multipart c = do {
     pid \<leftarrow> nlmsg_pid_of le b nh;
     if pid \<noteq> nl_pid then Some (Some (Result (- LIBBPF_ERRNO__WRNGPID) c), multipart, c)
     else do {
       s \<leftarrow> nlmsg_seq_of le b nh;
       if s \<noteq> seq then Some (Some (Result (- LIBBPF_ERRNO__INVSEQ) c), multipart, c)
       else do {
         flags \<leftarrow> nlmsg_flags_of le b nh;
         let multipart = (if flags AND NLM_F_MULTI \<noteq> 0 then True else multipart);
         type \<leftarrow> nlmsg_type_of le b nh;
         if type = NLMSG_ERROR then do {
           error \<leftarrow> get32 le b (NLMSG_DATA nh);
           if error = 0 then Some (None, multipart, c)
           else do { _ \<leftarrow> libbpf_nla_dump_errormsg le b nh; Some (Some (Result (sint error) c), multipart, c) } }
         else if type = NLMSG_DONE then Some (Some (Result 0 c), multipart, c)
         else (case fn of
             None \<Rightarrow> Some (None, multipart, c)
           | Some f \<Rightarrow> do {
               (ret, c) \<leftarrow> f b nh c;
               if ret = NL_CONT then Some (None, multipart, c)
               else if ret = NL_NEXT then Some (Some (Start c), multipart, c)
               else if ret = NL_DONE then Some (Some (Result 0 c), multipart, c)
               else Some (Some (Result ret c), multipart, c) }) } } }"

function netlink_msgs :: "bool \<Rightarrow> u32 \<Rightarrow> u32 \<Rightarrow> 'c dump_nlmsg option \<Rightarrow> u8 list \<Rightarrow> nat \<Rightarrow> int \<Rightarrow> bool \<Rightarrow> 'c \<Rightarrow>
    'c msgs_result option" where
  "netlink_msgs le nl_pid seq fn b nh len multipart c =
     (case NLMSG_OK le b nh len of
        None \<Rightarrow> None
      | Some False \<Rightarrow> Some (Finished multipart c)
      | Some True \<Rightarrow>
          (case netlink_msg le nl_pid seq fn b nh multipart c of
             None \<Rightarrow> None
           | Some (Some r, _, _) \<Rightarrow> Some r
           | Some (None, multipart, c) \<Rightarrow>
               (case NLMSG_NEXT le b nh len of
                  None \<Rightarrow> None
                | Some (nh', len') \<Rightarrow> netlink_msgs le nl_pid seq fn b nh' len' multipart c)))"
  by pat_completeness auto
termination
  by (relation "measure (\<lambda>(le, nl_pid, seq, fn, b, nh, len, multipart, c). nat len)")
    (use NLMSG_NEXT_less in \<open>auto split: bool.splits\<close>)

declare netlink_msgs.simps [simp del]

function netlink_recv_loop :: "bool \<Rightarrow> u32 \<Rightarrow> u32 \<Rightarrow> 'c dump_nlmsg option \<Rightarrow> (nat \<Rightarrow> bool) \<Rightarrow> nat \<Rightarrow>
    (int + u8 list) list \<Rightarrow> 'c \<Rightarrow> (int \<times> 'c) option" where
  "netlink_recv_loop le nl_pid seq fn alloc iov_len rs c =
     (case netlink_recvmsg rs of
        None \<Rightarrow> None
      | Some (Inl e, _) \<Rightarrow> Some (e, c)
      | Some (Inr peek, rs1) \<Rightarrow>
          if length peek > iov_len \<and> \<not> alloc (length peek) then Some (- ENOMEM, c)
          else
            let iov_len' = (if length peek > iov_len then length peek else iov_len)
            in (case netlink_recvmsg rs1 of
                  None \<Rightarrow> None
                | Some (Inl e, _) \<Rightarrow> Some (e, c)
                | Some (Inr d, rs2) \<Rightarrow>
                    let b = take iov_len' d
                    in if b = [] then Some (0, c)
                       else (case netlink_msgs le nl_pid seq fn b 0 (int (length b)) False c of
                         None \<Rightarrow> None
                       | Some (Result ret c) \<Rightarrow> Some (ret, c)
                       | Some (Start c) \<Rightarrow> netlink_recv_loop le nl_pid seq fn alloc iov_len' rs2 c
                       | Some (Finished multipart c) \<Rightarrow>
                           if multipart then netlink_recv_loop le nl_pid seq fn alloc iov_len' rs2 c
                           else Some (0, c))))"
  by pat_completeness auto
termination
  by (relation "measure (\<lambda>(le, nl_pid, seq, fn, alloc, iov_len, rs, c). length rs)")
    (auto dest!: netlink_recvmsg_less)

declare netlink_recv_loop.simps [simp del]

definition libbpf_netlink_recv :: "bool \<Rightarrow> nl_os \<Rightarrow> u32 \<Rightarrow> u32 \<Rightarrow> 'c dump_nlmsg option \<Rightarrow> (int + u8 list) list \<Rightarrow> 'c \<Rightarrow>
    (int \<times> 'c) option" where
  "libbpf_netlink_recv le os nl_pid seq fn rs c =
     (if \<not> nl_alloc os 4096 then Some (- ENOMEM, c)
      else netlink_recv_loop le nl_pid seq fn (nl_alloc os) 4096 rs c)"

text \<open>\<open>send\<close> takes the first \<open>nlmsg_len\<close> bytes of the request.\<close>

definition libbpf_netlink_send_recv :: "bool \<Rightarrow> nl_os \<Rightarrow> u8 list \<Rightarrow> 'c dump_nlmsg option \<Rightarrow> 'c \<Rightarrow> int list \<Rightarrow>
    ((int \<times> 'c) \<times> int list) option" where
  "libbpf_netlink_send_recv le os req fn c socks =
     (case libbpf_netlink_open os socks of
        (Inl e, socks) \<Rightarrow> Some ((e, c), socks)
      | (Inr (sock, nl_pid), socks) \<Rightarrow> do {
          req \<leftarrow> put32 le req 12 0;
          req \<leftarrow> put32 le req 8 (nl_time os);
          len \<leftarrow> nlmsg_len_of le req 0;
          let msg = take (unat len) req;
          (case nl_send os msg of
             Some e \<Rightarrow> Some ((- e, c), libbpf_netlink_close sock socks)
           | None \<Rightarrow> do {
               r \<leftarrow> libbpf_netlink_recv le os nl_pid (nl_time os) fn (nl_recvs os msg) c;
               Some (r, libbpf_netlink_close sock socks) }) })"

section \<open>Requests\<close>

text \<open>A zeroed request with its length, type and flags; and the fields of the three bodies.\<close>

definition new_req :: "bool \<Rightarrow> nat \<Rightarrow> u16 \<Rightarrow> u16 \<Rightarrow> u8 list option" where
  "new_req le len type flags = do {
     req \<leftarrow> put32 le (replicate sizeof_req 0) 0 (of_nat len);
     req \<leftarrow> put16 le req 4 type;
     put16 le req 6 flags }"

definition int32 :: "int \<Rightarrow> u32" where "int32 i = word_of_int i"

text \<open>\<open>struct ifinfomsg\<close>: the index at 20; \<open>struct tcmsg\<close>: index, handle, parent, info at 20, 24, 28, 32.\<close>

definition put_ifindex :: "bool \<Rightarrow> u8 list \<Rightarrow> int \<Rightarrow> u8 list option" where
  "put_ifindex le req ifindex = put32 le req 20 (int32 ifindex)"

definition genl_req :: "bool \<Rightarrow> u16 \<Rightarrow> u8 \<Rightarrow> u8 list option" where
  "genl_req le type cmd = do {
     req \<leftarrow> new_req le (NLMSG_LENGTH GENL_HDRLEN) type NLM_F_REQUEST;
     put_bytes req 16 [cmd, 2] }"

section \<open>XDP\<close>

text \<open>The request that sets, replaces or removes the XDP program of an interface.\<close>

definition xdp_request :: "bool \<Rightarrow> int \<Rightarrow> int \<Rightarrow> int \<Rightarrow> u32 \<Rightarrow> (int + u8 list) option" where
  "xdp_request le ifindex fd old_fd flags = do {
     req \<leftarrow> new_req le (NLMSG_LENGTH 16) RTM_SETLINK (NLM_F_REQUEST OR NLM_F_ACK);
     req \<leftarrow> put_ifindex le req ifindex;
     (nla, req) \<leftarrow> nlattr_begin_nested le req (of_nat IFLA_XDP);
     (case nla of None \<Rightarrow> Some (Inl (- EMSGSIZE)) | Some tail \<Rightarrow> do {
        (ret, req) \<leftarrow> nlattr_add le req (of_nat IFLA_XDP_FD) (Some (bytes32 le (int32 fd))) 4;
        if ret < 0 then Some (Inl ret)
        else do {
          (ret, req) \<leftarrow> (if flags \<noteq> 0
             then nlattr_add le req (of_nat IFLA_XDP_FLAGS) (Some (bytes32 le flags)) 4 else Some (0, req));
          if ret < 0 then Some (Inl ret)
          else do {
            (ret, req) \<leftarrow> (if flags AND XDP_FLAGS_REPLACE \<noteq> 0
               then nlattr_add le req (of_nat IFLA_XDP_EXPECTED_FD) (Some (bytes32 le (int32 old_fd))) 4 else Some (0, req));
            if ret < 0 then Some (Inl ret)
            else do { req \<leftarrow> nlattr_end_nested le req tail; Some (Inr req) } } } }) }"

definition bpf_set_link_xdp_fd_replace :: "bool \<Rightarrow> nl_os \<Rightarrow> int \<Rightarrow> int \<Rightarrow> int \<Rightarrow> u32 \<Rightarrow> int list \<Rightarrow> (int \<times> int list) option" where
  "bpf_set_link_xdp_fd_replace le os ifindex fd old_fd flags socks = do {
     r \<leftarrow> xdp_request le ifindex fd old_fd flags;
     (case r of Inl ret \<Rightarrow> Some (ret, socks)
      | Inr req \<Rightarrow> do {
          ((ret, _), socks) \<leftarrow> libbpf_netlink_send_recv le os req (None :: unit dump_nlmsg option) () socks;
          Some (ret, socks) }) }"

record bpf_xdp_attach_opts =
  old_prog_fd :: int

definition bpf_xdp_attach :: "bool \<Rightarrow> nl_os \<Rightarrow> bool \<Rightarrow> int \<Rightarrow> int \<Rightarrow> u32 \<Rightarrow> bpf_xdp_attach_opts option \<Rightarrow> int list \<Rightarrow>
    (int \<times> int list) option" where
  "bpf_xdp_attach le os opts_valid ifindex prog_fd flags opts socks =
     (if \<not> opts_valid then Some (- EINVAL, socks)
      else
        let old = (case opts of Some o' \<Rightarrow> old_prog_fd o' | None \<Rightarrow> 0);
            (flags, old) = (if old \<noteq> 0 then (flags OR XDP_FLAGS_REPLACE, old) else (flags, - 1))
        in bpf_set_link_xdp_fd_replace le os ifindex prog_fd old flags socks)"

definition bpf_xdp_detach :: "bool \<Rightarrow> nl_os \<Rightarrow> bool \<Rightarrow> int \<Rightarrow> u32 \<Rightarrow> bpf_xdp_attach_opts option \<Rightarrow> int list \<Rightarrow>
    (int \<times> int list) option" where
  "bpf_xdp_detach le os opts_valid ifindex flags opts socks =
     bpf_xdp_attach le os opts_valid ifindex (- 1) flags opts socks"

record xdp_link_info =
  prog_id :: u32
  drv_prog_id :: u32
  hw_prog_id :: u32
  skb_prog_id :: u32
  attach_mode :: u8

record xdp_id_md =
  md_ifindex :: int
  md_flags :: u32
  md_info :: xdp_link_info

record xdp_features_md =
  feat_ifindex :: int
  feat_zc_max_segs :: u32
  feat_flags :: u64

text \<open>A link message: the body at \<open>ifi\<close> and the index of its attributes, handed to the callback.\<close>

definition dump_link_nlmsg :: "bool \<Rightarrow> ('c \<Rightarrow> u8 list \<Rightarrow> nat \<Rightarrow> nat option list \<Rightarrow> (int \<times> 'c) option) \<Rightarrow> 'c dump_nlmsg" where
  "dump_link_nlmsg le fn b nlh c = do {
     let ifi = NLMSG_DATA nlh;
     l \<leftarrow> nlmsg_len_of le b nlh;
     let len = sint (l - of_nat (NLMSG_LENGTH 16));
     (ret, tb) \<leftarrow> libbpf_nla_parse le b IFLA_MAX (ifi + NLMSG_ALIGN 16) len None;
     if ret \<noteq> 0 then Some (- LIBBPF_ERRNO__NLPARSE, c) else fn c b ifi tb }"

text \<open>The identifier fields that are present, each in its place.\<close>

definition set_opt :: "u32 option \<Rightarrow> ((u32 \<Rightarrow> u32) \<Rightarrow> 'a \<Rightarrow> 'a) \<Rightarrow> 'a \<Rightarrow> 'a" where
  "set_opt v upd r = (case v of Some x \<Rightarrow> upd (\<lambda>_. x) r | None \<Rightarrow> r)"

definition getattr_u32_opt :: "bool \<Rightarrow> u8 list \<Rightarrow> nat option \<Rightarrow> u32 option option" where
  "getattr_u32_opt le b nla = (case nla of None \<Rightarrow> Some None | Some off \<Rightarrow> map_option Some (libbpf_nla_getattr_u32 le b off))"

definition get_xdp_info :: "bool \<Rightarrow> xdp_id_md \<Rightarrow> u8 list \<Rightarrow> nat \<Rightarrow> nat option list \<Rightarrow> (int \<times> xdp_id_md) option" where
  "get_xdp_info le xdp_id b ifinfo tb = do {
     ifi_index \<leftarrow> get32 le b (ifinfo + 4);
     if md_ifindex xdp_id \<noteq> 0 \<and> md_ifindex xdp_id \<noteq> sint ifi_index then Some (0, xdp_id)
     else (case tb ! IFLA_XDP of
         None \<Rightarrow> Some (0, xdp_id)
       | Some nla \<Rightarrow> do {
           (ret, xdp_tb) \<leftarrow> libbpf_nla_parse_nested le b IFLA_XDP_MAX nla None;
           if ret \<noteq> 0 then Some (ret, xdp_id)
           else (case xdp_tb ! IFLA_XDP_ATTACHED of
               None \<Rightarrow> Some (0, xdp_id)
             | Some att \<Rightarrow> do {
                 mode \<leftarrow> libbpf_nla_getattr_u8 b att;
                 let info = (md_info xdp_id)\<lparr>attach_mode := mode\<rparr>;
                 if mode = XDP_ATTACHED_NONE then Some (0, xdp_id\<lparr>md_info := info\<rparr>)
                 else do {
                   p \<leftarrow> getattr_u32_opt le b (xdp_tb ! IFLA_XDP_PROG_ID);
                   s \<leftarrow> getattr_u32_opt le b (xdp_tb ! IFLA_XDP_SKB_PROG_ID);
                   d \<leftarrow> getattr_u32_opt le b (xdp_tb ! IFLA_XDP_DRV_PROG_ID);
                   h \<leftarrow> getattr_u32_opt le b (xdp_tb ! IFLA_XDP_HW_PROG_ID);
                   let info = set_opt h hw_prog_id_update (set_opt d drv_prog_id_update
                     (set_opt s skb_prog_id_update (set_opt p prog_id_update info)));
                   Some (0, xdp_id\<lparr>md_info := info\<rparr>) } }) }) }"

definition parse_genl_family_id :: "bool \<Rightarrow> u16 option dump_nlmsg" where
  "parse_genl_family_id le b nh fid = do {
     let gnl = NLMSG_DATA nh;
     len \<leftarrow> NLMSG_PAYLOAD le b nh GENL_HDRLEN;
     (_, tb) \<leftarrow> libbpf_nla_parse le b CTRL_ATTR_FAMILY_ID (gnl + GENL_HDRLEN) len None;
     (case tb ! CTRL_ATTR_FAMILY_ID of
        None \<Rightarrow> Some (NL_CONT, fid)
      | Some off \<Rightarrow> do { v \<leftarrow> libbpf_nla_getattr_u16 le b off; Some (NL_DONE, Some v) }) }"

text \<open>The name is a C string with its terminating zero.\<close>

definition libbpf_netlink_resolve_genl_family_id :: "bool \<Rightarrow> nl_os \<Rightarrow> u8 list \<Rightarrow> int list \<Rightarrow>
    ((int \<times> u16 option) \<times> int list) option" where
  "libbpf_netlink_resolve_genl_family_id le os name socks = do {
     req \<leftarrow> genl_req le GENL_ID_CTRL 3;
     (err, req) \<leftarrow> nlattr_add le req (of_nat CTRL_ATTR_FAMILY_NAME) (Some name) (length name);
     if err < 0 then Some ((err, None), socks)
     else libbpf_netlink_send_recv le os req (Some (parse_genl_family_id le)) None socks }"

definition parse_xdp_features :: "bool \<Rightarrow> xdp_features_md dump_nlmsg" where
  "parse_xdp_features le b nh md = do {
     let gnl = NLMSG_DATA nh;
     len \<leftarrow> NLMSG_PAYLOAD le b nh GENL_HDRLEN;
     (_, tb) \<leftarrow> libbpf_nla_parse le b NETDEV_CMD_MAX (gnl + GENL_HDRLEN) len None;
     (case (tb ! NETDEV_A_DEV_IFINDEX, tb ! NETDEV_A_DEV_XDP_FEATURES) of
        (Some i, Some f) \<Rightarrow> do {
          ifindex \<leftarrow> libbpf_nla_getattr_u32 le b i;
          if ifindex \<noteq> int32 (feat_ifindex md) then Some (NL_CONT, md)
          else do {
            v \<leftarrow> libbpf_nla_getattr_u64 le b f;
            z \<leftarrow> getattr_u32_opt le b (tb ! NETDEV_A_DEV_XDP_ZC_MAX_SEGS);
            Some (NL_DONE, set_opt z feat_zc_max_segs_update (md\<lparr>feat_flags := v\<rparr>)) } }
      | _ \<Rightarrow> Some (NL_CONT, md)) }"

record bpf_xdp_query_opts =
  q_info :: xdp_link_info
  q_feature_flags :: u64
  q_zc_max_segs :: u32

definition no_info :: xdp_link_info where
  "no_info = \<lparr>prog_id = 0, drv_prog_id = 0, hw_prog_id = 0, skb_prog_id = 0, attach_mode = 0\<rparr>"

definition link_dump_req :: "bool \<Rightarrow> u8 list option" where
  "link_dump_req le = do {
     req \<leftarrow> new_req le (NLMSG_LENGTH 16) RTM_GETLINK (NLM_F_DUMP OR NLM_F_REQUEST);
     put_bytes req 16 [17] }"

text \<open>
  Up to three exchanges, each with its own sockets and clock. \<open>opts\<close> is none for the null pointer;
  \<open>has_features\<close> is \<open>OPTS_HAS (opts, feature_flags)\<close>.
\<close>

definition bpf_xdp_query :: "bool \<Rightarrow> (nat \<Rightarrow> nl_os) \<Rightarrow> bool \<Rightarrow> bool \<Rightarrow> int \<Rightarrow> u32 \<Rightarrow> bpf_xdp_query_opts option \<Rightarrow> int list \<Rightarrow>
    ((int \<times> bpf_xdp_query_opts option) \<times> int list) option" where
  "bpf_xdp_query le os opts_valid has_features ifindex xdp_flags opts socks =
     (if \<not> opts_valid then Some ((- EINVAL, opts), socks)
      else if xdp_flags AND NOT XDP_FLAGS_MASK \<noteq> 0 then Some ((- EINVAL, opts), socks)
      else
        let xdp_flags = xdp_flags AND (XDP_FLAGS_SKB_MODE OR XDP_FLAGS_DRV_MODE OR XDP_FLAGS_HW_MODE) in
        if xdp_flags AND (xdp_flags - 1) \<noteq> 0 then Some ((- EINVAL, opts), socks)
        else do {
          req \<leftarrow> link_dump_req le;
          let xdp_id = \<lparr>md_ifindex = ifindex, md_flags = xdp_flags, md_info = no_info\<rparr>;
          ((err, xdp_id), socks) \<leftarrow> libbpf_netlink_send_recv le (os 0) req
             (Some (dump_link_nlmsg le (get_xdp_info le))) xdp_id socks;
          if err \<noteq> 0 then Some ((err, opts), socks)
          else do {
            let opts = map_option (\<lambda>q. q\<lparr>q_info := md_info xdp_id\<rparr>) opts;
            if \<not> has_features then Some ((0, opts), socks)
            else do {
              ((err, fid), socks) \<leftarrow> libbpf_netlink_resolve_genl_family_id le (os 1) [110, 101, 116, 100, 101, 118, 0] socks;
              if err < 0 then
                (if err = - ENOENT then Some ((0, map_option (\<lambda>q. q\<lparr>q_feature_flags := 0\<rparr>) opts), socks)
                 else Some ((err, opts), socks))
              else do {
                fid \<leftarrow> fid;
                req \<leftarrow> genl_req le fid 1;
                (err, req) \<leftarrow> nlattr_add le req (of_nat NETDEV_A_DEV_IFINDEX) (Some (bytes32 le (int32 ifindex))) 4;
                if err < 0 then Some ((err, opts), socks)
                else do {
                  ((err, md), socks) \<leftarrow> libbpf_netlink_send_recv le (os 2) req (Some (parse_xdp_features le))
                     \<lparr>feat_ifindex = ifindex, feat_zc_max_segs = 0, feat_flags = 0\<rparr> socks;
                  if err \<noteq> 0 then Some ((err, opts), socks)
                  else Some ((0, map_option (\<lambda>q. q\<lparr>q_feature_flags := feat_flags md, q_zc_max_segs := feat_zc_max_segs md\<rparr>) opts),
                    socks) } } } } })"

definition bpf_xdp_query_id :: "bool \<Rightarrow> (nat \<Rightarrow> nl_os) \<Rightarrow> int \<Rightarrow> u32 \<Rightarrow> int list \<Rightarrow> (int \<times> u32 option \<times> int list) option" where
  "bpf_xdp_query_id le os ifindex flags socks = do {
     ((ret, opts), socks) \<leftarrow> bpf_xdp_query le os True True ifindex flags
        (Some \<lparr>q_info = no_info, q_feature_flags = 0, q_zc_max_segs = 0\<rparr>) socks;
     info \<leftarrow> map_option q_info opts;
     if ret \<noteq> 0 then Some (ret, None, socks)
     else
       let flags = flags AND XDP_FLAGS_MODES;
           pid = (if attach_mode info \<noteq> XDP_ATTACHED_MULTI \<and> flags = 0 then prog_id info
             else if flags AND XDP_FLAGS_DRV_MODE \<noteq> 0 then drv_prog_id info
             else if flags AND XDP_FLAGS_HW_MODE \<noteq> 0 then hw_prog_id info
             else if flags AND XDP_FLAGS_SKB_MODE \<noteq> 0 then skb_prog_id info
             else 0)
       in Some (0, Some pid, socks) }"

end
