(* ===== verification/Netlink_Tc.thy ===== *)
theory Netlink_Tc
  imports Netlink
begin

text \<open>
  The traffic-control half of \<open>libbpf/src/netlink.c\<close>: creating and destroying the clsact qdisc,
  attaching, detaching and querying filters. What \<open>bpf_prog_get_info_by_fd\<close> says of a
  descriptor (the name and the identifier of the program) is the argument \<open>info\<close>.
\<close>

record bpf_tc_hook =
  hook_ifindex :: int
  hook_attach_point :: nat
  hook_parent :: u32

record bpf_tc_opts =
  tc_prog_fd :: int
  tc_flags :: u32
  tc_prog_id :: u32
  tc_handle :: u32
  tc_priority :: u32

definition BPF_TC_INGRESS :: nat where "BPF_TC_INGRESS = 1"
definition BPF_TC_EGRESS :: nat where "BPF_TC_EGRESS = 2"
definition BPF_TC_CUSTOM :: nat where "BPF_TC_CUSTOM = 4"
definition BPF_TC_F_REPLACE :: u32 where "BPF_TC_F_REPLACE = 1"

section \<open>The qdisc\<close>

definition clsact_config :: "bool \<Rightarrow> u8 list \<Rightarrow> (int \<times> u8 list) option" where
  "clsact_config le req = do {
     req \<leftarrow> put32 le req 28 TC_H_CLSACT;
     req \<leftarrow> put32 le req 24 (TC_H_MAKE TC_H_CLSACT 0);
     nlattr_add le req (of_nat TCA_KIND) (Some [99, 108, 115, 97, 99, 116, 0]) 7 }"

definition attach_point_to_config :: "bpf_tc_hook \<Rightarrow> int" where
  "attach_point_to_config hook =
     (let a = hook_attach_point hook in
      if a = BPF_TC_INGRESS \<or> a = BPF_TC_EGRESS \<or> a = BPF_TC_INGRESS + BPF_TC_EGRESS
      then (if hook_parent hook \<noteq> 0 then - EINVAL else 0)
      else if a = BPF_TC_CUSTOM then - EOPNOTSUPP
      else - EINVAL)"

definition tc_get_tcm_parent :: "nat \<Rightarrow> u32 \<Rightarrow> int + u32" where
  "tc_get_tcm_parent attach_point parent =
     (if attach_point = BPF_TC_INGRESS \<or> attach_point = BPF_TC_EGRESS
      then (if parent \<noteq> 0 then Inl (- EINVAL)
            else Inr (TC_H_MAKE TC_H_CLSACT (if attach_point = BPF_TC_INGRESS then TC_H_MIN_INGRESS else TC_H_MIN_EGRESS)))
      else if attach_point = BPF_TC_CUSTOM then (if parent = 0 then Inl (- EINVAL) else Inr parent)
      else Inl (- EINVAL))"

definition tc_qdisc_modify :: "bool \<Rightarrow> nl_os \<Rightarrow> bpf_tc_hook \<Rightarrow> u16 \<Rightarrow> u16 \<Rightarrow> int list \<Rightarrow> (int \<times> int list) option" where
  "tc_qdisc_modify le os hook cmd flags socks =
     (let ret = attach_point_to_config hook in
      if ret < 0 then Some (ret, socks)
      else do {
        req \<leftarrow> new_req le (NLMSG_LENGTH 20) cmd (NLM_F_REQUEST OR NLM_F_ACK OR flags);
        req \<leftarrow> put_ifindex le req (hook_ifindex hook);
        (ret, req) \<leftarrow> clsact_config le req;
        if ret < 0 then Some (ret, socks)
        else do {
          ((ret, _), socks) \<leftarrow> libbpf_netlink_send_recv le os req (None :: unit dump_nlmsg option) () socks;
          Some (ret, socks) } })"

definition tc_qdisc_create_excl :: "bool \<Rightarrow> nl_os \<Rightarrow> bpf_tc_hook \<Rightarrow> int list \<Rightarrow> (int \<times> int list) option" where
  "tc_qdisc_create_excl le os hook socks = tc_qdisc_modify le os hook RTM_NEWQDISC (NLM_F_CREATE OR NLM_F_EXCL) socks"

definition tc_qdisc_delete :: "bool \<Rightarrow> nl_os \<Rightarrow> bpf_tc_hook \<Rightarrow> int list \<Rightarrow> (int \<times> int list) option" where
  "tc_qdisc_delete le os hook socks = tc_qdisc_modify le os hook RTM_DELQDISC 0 socks"

text \<open>A null hook is \<open>None\<close>.\<close>

definition bpf_tc_hook_create :: "bool \<Rightarrow> nl_os \<Rightarrow> bool \<Rightarrow> bpf_tc_hook option \<Rightarrow> int list \<Rightarrow> (int \<times> int list) option" where
  "bpf_tc_hook_create le os valid hook socks =
     (case hook of
        None \<Rightarrow> Some (- EINVAL, socks)
      | Some h \<Rightarrow>
          if \<not> valid \<or> hook_ifindex h \<le> 0 then Some (- EINVAL, socks)
          else tc_qdisc_create_excl le os h socks)"

section \<open>Filters\<close>

text \<open>The fields of \<open>struct tcmsg\<close>.\<close>

definition tcm_req :: "bool \<Rightarrow> u16 \<Rightarrow> u16 \<Rightarrow> int \<Rightarrow> u32 \<Rightarrow> u32 \<Rightarrow> u32 \<Rightarrow> u8 list option" where
  "tcm_req le type flags ifindex handle info parent = do {
     req \<leftarrow> new_req le (NLMSG_LENGTH 20) type flags;
     req \<leftarrow> put_ifindex le req ifindex;
     req \<leftarrow> put32 le req 24 handle;
     req \<leftarrow> put32 le req 32 info;
     put32 le req 28 parent }"

definition tcm_info_of :: "bool \<Rightarrow> u32 \<Rightarrow> u16 \<Rightarrow> u32" where
  "tcm_info_of le priority protocol = TC_H_MAKE (push_bit 16 priority) (ucast (bpf_htons le protocol))"

definition bpf_tc_kind :: "u8 list" where "bpf_tc_kind = [98, 112, 102, 0]"

text \<open>\<open>opts\<close> is none for the null pointer of a flush.\<close>

definition do_bpf_tc_detach :: "bool \<Rightarrow> nl_os \<Rightarrow> bool \<Rightarrow> bool \<Rightarrow> bpf_tc_hook option \<Rightarrow> bpf_tc_opts option \<Rightarrow> bool \<Rightarrow> int list \<Rightarrow>
    (int \<times> int list) option" where
  "do_bpf_tc_detach le os hook_valid opts_valid hook opts flush socks =
     (case hook of
        None \<Rightarrow> Some (- EINVAL, socks)
      | Some h \<Rightarrow>
          if \<not> hook_valid \<or> \<not> opts_valid then Some (- EINVAL, socks)
          else
            let ifindex = hook_ifindex h; parent = hook_parent h; attach_point = hook_attach_point h;
                handle = (case opts of Some q \<Rightarrow> tc_handle q | None \<Rightarrow> 0);
                priority = (case opts of Some q \<Rightarrow> tc_priority q | None \<Rightarrow> 0);
                prog_fd = (case opts of Some q \<Rightarrow> tc_prog_fd q | None \<Rightarrow> 0);
                pid = (case opts of Some q \<Rightarrow> tc_prog_id q | None \<Rightarrow> 0);
                flags = (case opts of Some q \<Rightarrow> tc_flags q | None \<Rightarrow> 0)
            in if ifindex \<le> 0 \<or> flags \<noteq> 0 \<or> prog_fd \<noteq> 0 \<or> pid \<noteq> 0 then Some (- EINVAL, socks)
               else if priority > 65535 then Some (- EINVAL, socks)
               else if \<not> flush \<and> (handle = 0 \<or> priority = 0) then Some (- EINVAL, socks)
               else if flush \<and> (handle \<noteq> 0 \<or> priority \<noteq> 0) then Some (- EINVAL, socks)
               else (case tc_get_tcm_parent attach_point parent of
                   Inl ret \<Rightarrow> Some (ret, socks)
                 | Inr parent \<Rightarrow> do {
                     req \<leftarrow> tcm_req le RTM_DELTFILTER (NLM_F_REQUEST OR NLM_F_ACK) ifindex
                        (if flush then 0 else handle) (if flush then 0 else tcm_info_of le priority ETH_P_ALL) parent;
                     (ret, req) \<leftarrow> (if flush then Some (0, req)
                        else nlattr_add le req (of_nat TCA_KIND) (Some bpf_tc_kind) 4);
                     if ret < 0 then Some (ret, socks)
                     else do {
                       ((ret, _), socks) \<leftarrow> libbpf_netlink_send_recv le os req (None :: unit dump_nlmsg option) () socks;
                       Some (ret, socks) } }))"

definition bpf_tc_detach :: "bool \<Rightarrow> nl_os \<Rightarrow> bool \<Rightarrow> bool \<Rightarrow> bpf_tc_hook option \<Rightarrow> bpf_tc_opts option \<Rightarrow> int list \<Rightarrow>
    (int \<times> int list) option" where
  "bpf_tc_detach le os hook_valid opts_valid hook opts socks =
     (case opts of None \<Rightarrow> Some (- EINVAL, socks)
      | Some _ \<Rightarrow> do_bpf_tc_detach le os hook_valid opts_valid hook opts False socks)"

definition bpf_tc_hook_destroy :: "bool \<Rightarrow> nl_os \<Rightarrow> bool \<Rightarrow> bpf_tc_hook option \<Rightarrow> int list \<Rightarrow> (int \<times> int list) option" where
  "bpf_tc_hook_destroy le os valid hook socks =
     (case hook of
        None \<Rightarrow> Some (- EINVAL, socks)
      | Some h \<Rightarrow>
          if \<not> valid \<or> hook_ifindex h \<le> 0 then Some (- EINVAL, socks)
          else
            let a = hook_attach_point h in
            if a = BPF_TC_INGRESS \<or> a = BPF_TC_EGRESS then do_bpf_tc_detach le os valid True hook None True socks
            else if a = BPF_TC_INGRESS + BPF_TC_EGRESS then tc_qdisc_delete le os h socks
            else if a = BPF_TC_CUSTOM then Some (- EOPNOTSUPP, socks)
            else Some (- EINVAL, socks))"

text \<open>\<open>struct bpf_cb_ctx\<close>: the options to fill and whether they have been.\<close>

type_synonym bpf_cb_ctx = "bpf_tc_opts \<times> bool"

definition do_get_tc_info :: "bool \<Rightarrow> bpf_cb_ctx \<Rightarrow> u8 list \<Rightarrow> nat \<Rightarrow> nat option list \<Rightarrow> bool \<Rightarrow> (int \<times> bpf_cb_ctx) option" where
  "do_get_tc_info le info b tc tb unicast =
     (if unicast \<and> snd info then Some (- EINVAL, info)
      else (case tb ! TCA_OPTIONS of
         None \<Rightarrow> Some (NL_CONT, info)
       | Some nla \<Rightarrow> do {
           (_, tbb) \<leftarrow> libbpf_nla_parse_nested le b TCA_BPF_MAX nla None;
           (case tbb ! TCA_BPF_ID of
              None \<Rightarrow> Some (- EINVAL, info)
            | Some off \<Rightarrow> do {
                pid \<leftarrow> libbpf_nla_getattr_u32 le b off;
                tcm_handle \<leftarrow> get32 le b (tc + 8);
                tcm_info \<leftarrow> get32 le b (tc + 16);
                Some (if unicast then NL_NEXT else NL_DONE,
                  ((fst info)\<lparr>tc_prog_id := pid, tc_handle := tcm_handle,
                     tc_priority := drop_bit 16 (TC_H_MAJ tcm_info)\<rparr>, True)) }) }))"

definition get_tc_info :: "bool \<Rightarrow> bpf_cb_ctx dump_nlmsg" where
  "get_tc_info le b nh info = do {
     let tc = NLMSG_DATA nh;
     len \<leftarrow> NLMSG_PAYLOAD le b nh 20;
     (_, tb) \<leftarrow> libbpf_nla_parse le b TCA_MAX (tc + NLMSG_ALIGN 20) len None;
     (case tb ! TCA_KIND of
        None \<Rightarrow> Some (NL_CONT, info)
      | Some _ \<Rightarrow> do {
          flags \<leftarrow> nlmsg_flags_of le b nh;
          do_get_tc_info le info b tc tb (flags AND NLM_F_ECHO \<noteq> 0) }) }"

definition tc_add_fd_and_name :: "bool \<Rightarrow> (int + u8 list \<times> u32) \<Rightarrow> u8 list \<Rightarrow> int \<Rightarrow> (int \<times> u8 list) option" where
  "tc_add_fd_and_name le info req fd =
     (case info of
        Inl ret \<Rightarrow> Some (ret, req)
      | Inr (prog_name, pid) \<Rightarrow> do {
          (ret, req) \<leftarrow> nlattr_add le req (of_nat TCA_BPF_FD) (Some (bytes32 le (int32 fd))) 4;
          if ret < 0 then Some (ret, req)
          else
            let name = prog_name @ [58, 91] @ map (\<lambda>d. of_nat (48 + d)) (digits10 (unat pid)) @ [93]
            in if length name \<ge> 256 then Some (- ENAMETOOLONG, req)
               else nlattr_add le req (of_nat TCA_BPF_NAME) (Some (name @ [0])) (length name + 1) })"

definition bpf_tc_attach :: "bool \<Rightarrow> nl_os \<Rightarrow> bool \<Rightarrow> bool \<Rightarrow> (int \<Rightarrow> int + u8 list \<times> u32) \<Rightarrow> bpf_tc_hook option \<Rightarrow> bpf_tc_opts option \<Rightarrow>
    int list \<Rightarrow> ((int \<times> bpf_tc_opts option) \<times> int list) option" where
  "bpf_tc_attach le os hook_valid opts_valid info hook opts socks =
     (case (hook, opts) of
        (Some h, Some q) \<Rightarrow>
          if \<not> hook_valid \<or> \<not> opts_valid then Some ((- EINVAL, opts), socks)
          else if hook_ifindex h \<le> 0 \<or> tc_prog_fd q = 0 \<or> tc_prog_id q \<noteq> 0 then Some ((- EINVAL, opts), socks)
          else if tc_priority q > 65535 then Some ((- EINVAL, opts), socks)
          else if tc_flags q AND NOT BPF_TC_F_REPLACE \<noteq> 0 then Some ((- EINVAL, opts), socks)
          else
            let flags = (if tc_flags q AND BPF_TC_F_REPLACE \<noteq> 0 then NLM_F_REPLACE else NLM_F_EXCL) in
            (case tc_get_tcm_parent (hook_attach_point h) (hook_parent h) of
               Inl ret \<Rightarrow> Some ((ret, opts), socks)
             | Inr parent \<Rightarrow> do {
                 req \<leftarrow> tcm_req le RTM_NEWTFILTER (NLM_F_REQUEST OR NLM_F_ACK OR NLM_F_CREATE OR NLM_F_ECHO OR flags)
                    (hook_ifindex h) (tc_handle q) (tcm_info_of le (tc_priority q) ETH_P_ALL) parent;
                 (ret, req) \<leftarrow> nlattr_add le req (of_nat TCA_KIND) (Some bpf_tc_kind) 4;
                 if ret < 0 then Some ((ret, opts), socks)
                 else do {
                   (nla, req) \<leftarrow> nlattr_begin_nested le req (of_nat TCA_OPTIONS);
                   (case nla of None \<Rightarrow> Some ((- EMSGSIZE, opts), socks)
                    | Some tail \<Rightarrow> do {
                        (ret, req) \<leftarrow> tc_add_fd_and_name le (info (tc_prog_fd q)) req (tc_prog_fd q);
                        if ret < 0 then Some ((ret, opts), socks)
                        else do {
                          (ret, req) \<leftarrow> nlattr_add le req (of_nat TCA_BPF_FLAGS) (Some (bytes32 le TCA_BPF_FLAG_ACT_DIRECT)) 4;
                          if ret < 0 then Some ((ret, opts), socks)
                          else do {
                            req \<leftarrow> nlattr_end_nested le req tail;
                            ((ret, q, processed), socks) \<leftarrow> libbpf_netlink_send_recv le os req (Some (get_tc_info le)) (q, False) socks;
                            if ret < 0 then Some ((ret, Some q), socks)
                            else if \<not> processed then Some ((- ENOENT, Some q), socks)
                            else Some ((ret, Some q), socks) } } }) } })
      | _ \<Rightarrow> Some ((- EINVAL, opts), socks))"

definition bpf_tc_query :: "bool \<Rightarrow> nl_os \<Rightarrow> bool \<Rightarrow> bool \<Rightarrow> bpf_tc_hook option \<Rightarrow> bpf_tc_opts option \<Rightarrow>
    int list \<Rightarrow> ((int \<times> bpf_tc_opts option) \<times> int list) option" where
  "bpf_tc_query le os hook_valid opts_valid hook opts socks =
     (case (hook, opts) of
        (Some h, Some q) \<Rightarrow>
          if \<not> hook_valid \<or> \<not> opts_valid then Some ((- EINVAL, opts), socks)
          else if hook_ifindex h \<le> 0 \<or> tc_flags q \<noteq> 0 \<or> tc_prog_fd q \<noteq> 0 \<or> tc_prog_id q \<noteq> 0 \<or>
            tc_handle q = 0 \<or> tc_priority q = 0 then Some ((- EINVAL, opts), socks)
          else if tc_priority q > 65535 then Some ((- EINVAL, opts), socks)
          else
            (case tc_get_tcm_parent (hook_attach_point h) (hook_parent h) of
               Inl ret \<Rightarrow> Some ((ret, opts), socks)
             | Inr parent \<Rightarrow> do {
                 req \<leftarrow> tcm_req le RTM_GETTFILTER NLM_F_REQUEST (hook_ifindex h) (tc_handle q)
                    (tcm_info_of le (tc_priority q) ETH_P_ALL) parent;
                 (ret, req) \<leftarrow> nlattr_add le req (of_nat TCA_KIND) (Some bpf_tc_kind) 4;
                 if ret < 0 then Some ((ret, opts), socks)
                 else do {
                   ((ret, q, processed), socks) \<leftarrow> libbpf_netlink_send_recv le os req (Some (get_tc_info le)) (q, False) socks;
                   if ret < 0 then Some ((ret, Some q), socks)
                   else if \<not> processed then Some ((- ENOENT, Some q), socks)
                   else Some ((ret, Some q), socks) } })
      | _ \<Rightarrow> Some ((- EINVAL, opts), socks))"

end
