(* ===== verification/Netlink_Props.thy ===== *)
theory Netlink_Props
  imports Netlink Netlink_Tc
begin

text \<open>
  What the netlink component guarantees: no exchange leaks its socket, the request that attaches
  an XDP program says what the caller asked, and a multipart reply is delivered message by message.
\<close>

section \<open>Sockets\<close>

lemma send_recv_closes:
  "libbpf_netlink_send_recv le os req fn c socks = Some (r, socks') \<Longrightarrow> socks' = socks"
  by (auto simp: libbpf_netlink_send_recv_def libbpf_netlink_open_def libbpf_netlink_close_def Let_def
      split: sum.splits if_splits bind_splits option.splits prod.splits)

lemmas socket_splits = bind_splits option.splits sum.splits prod.splits if_splits

lemma xdp_attach_closes:
  "bpf_xdp_attach le os v ifindex fd flags opts socks = Some (r, socks') \<Longrightarrow> socks' = socks"
  by (auto simp: bpf_xdp_attach_def bpf_set_link_xdp_fd_replace_def Let_def dest: send_recv_closes
      split: socket_splits)

lemma resolve_closes:
  "libbpf_netlink_resolve_genl_family_id le os name socks = Some (r, socks') \<Longrightarrow> socks' = socks"
  by (auto simp: libbpf_netlink_resolve_genl_family_id_def dest: send_recv_closes split: socket_splits)

lemma xdp_query_closes:
  "bpf_xdp_query le os v f ifindex flags opts socks = Some (r, socks') \<Longrightarrow> socks' = socks"
  by (auto simp: bpf_xdp_query_def Let_def dest!: send_recv_closes resolve_closes split: socket_splits)

lemma xdp_query_id_closes:
  "bpf_xdp_query_id le os ifindex flags socks = Some (r, p, socks') \<Longrightarrow> socks' = socks"
  by (auto simp: bpf_xdp_query_id_def Let_def dest!: xdp_query_closes split: socket_splits)

lemma qdisc_closes: "tc_qdisc_modify le os hook cmd flags socks = Some (r, socks') \<Longrightarrow> socks' = socks"
  by (auto simp: tc_qdisc_modify_def Let_def dest: send_recv_closes split: socket_splits)

lemma tc_detach_closes:
  "do_bpf_tc_detach le os v w hook opts flush socks = Some (r, socks') \<Longrightarrow> socks' = socks"
  by (auto simp: do_bpf_tc_detach_def Let_def dest: send_recv_closes split: socket_splits)

lemma tc_attach_closes:
  "bpf_tc_attach le os v w info hook opts socks = Some (r, socks') \<Longrightarrow> socks' = socks"
  unfolding bpf_tc_attach_def Let_def
  by (auto dest!: send_recv_closes split: socket_splits)

lemma tc_query_closes:
  "bpf_tc_query le os v w hook opts socks = Some (r, socks') \<Longrightarrow> socks' = socks"
  unfolding bpf_tc_query_def Let_def
  by (auto dest!: send_recv_closes split: socket_splits)

section \<open>The attach request\<close>

text \<open>The attributes inside \<open>IFLA_XDP\<close>, and the fixed part of the request after its length.\<close>

definition xdp_attrs :: "bool \<Rightarrow> int \<Rightarrow> int \<Rightarrow> u32 \<Rightarrow> (u16 \<times> u8 list) list" where
  "xdp_attrs le fd old_fd flags =
     (1, bytes32 le (int32 fd)) #
     (if flags \<noteq> 0 then [(3, bytes32 le flags)] else []) @
     (if flags AND XDP_FLAGS_REPLACE \<noteq> 0 then [(8, bytes32 le (int32 old_fd))] else [])"

definition setlink_head :: "bool \<Rightarrow> int \<Rightarrow> u8 list" where
  "setlink_head le ifindex = bytes16 le RTM_SETLINK @ bytes16 le (NLM_F_REQUEST OR NLM_F_ACK) @ replicate 12 0 @
     bytes32 le (int32 ifindex) @ replicate 8 0"

lemma length_setlink_head [simp]: "length (setlink_head le ifindex) = 28"
  by (simp add: setlink_head_def)

lemma length_enc32: "length (enc_attr le (t, bytes32 le v)) = 8"
  by (simp add: length_enc_attr NLA_ALIGN_def)

lemma put32_mid: "length Z = 4 \<Longrightarrow> n = length X \<Longrightarrow> put32 le (X @ Z @ Y) n v = Some (X @ bytes32 le v @ Y)"
  by (simp add: put32_append)

lemma put16_mid: "length Z = 2 \<Longrightarrow> n = length X \<Longrightarrow> put16 le (X @ Z @ Y) n v = Some (X @ bytes16 le v @ Y)"
  by (simp add: put16_append)

lemma setlink_state:
  "new_req le (NLMSG_LENGTH 16) RTM_SETLINK (NLM_F_REQUEST OR NLM_F_ACK) \<bind> (\<lambda>req. put_ifindex le req ifindex) =
     Some (req_state le (setlink_head le ifindex) 132)"
proof -
  let ?t = "bytes16 le RTM_SETLINK" and ?f = "bytes16 le (NLM_F_REQUEST OR NLM_F_ACK)" and ?l = "bytes32 le 32"
  have z: "replicate sizeof_req (0 :: u8) = [] @ replicate 4 0 @ replicate 2 0 @ replicate 2 0 @ replicate 12 0 @
      replicate 4 0 @ replicate 140 0"
    by (simp add: sizeof_req_def flip: replicate_add)
  have "new_req le (NLMSG_LENGTH 16) RTM_SETLINK (NLM_F_REQUEST OR NLM_F_ACK) =
      Some (?l @ ?t @ ?f @ replicate 12 0 @ replicate 4 0 @ replicate 140 0)"
    using put32_mid [of "replicate 4 0" 0 "[]" le "replicate 2 0 @ replicate 2 0 @ replicate 12 0 @ replicate 4 0 @ replicate 140 0" 32]
      put16_mid [of "replicate 2 0" 4 ?l le "replicate 2 0 @ replicate 12 0 @ replicate 4 0 @ replicate 140 0" RTM_SETLINK]
      put16_mid [of "replicate 2 0" 6 "?l @ ?t" le "replicate 12 0 @ replicate 4 0 @ replicate 140 0" "NLM_F_REQUEST OR NLM_F_ACK"]
    unfolding new_req_def z NLMSG_LENGTH_def NLMSG_HDRLEN_def NLMSG_ALIGN_def by simp
  moreover have "put_ifindex le (?l @ ?t @ ?f @ replicate 12 0 @ replicate 4 0 @ replicate 140 0) ifindex =
      Some (?l @ ?t @ ?f @ replicate 12 0 @ bytes32 le (int32 ifindex) @ replicate 140 0)"
    using put32_mid [of "replicate 4 0" 20 "?l @ ?t @ ?f @ replicate 12 0" le "replicate 140 0" "int32 ifindex"]
    by (simp add: put_ifindex_def)
  moreover have "replicate 140 (0 :: u8) = replicate 8 0 @ replicate 132 0" by (simp flip: replicate_add)
  ultimately show ?thesis by (simp add: req_state_def setlink_head_def)
qed

lemma add32_state:
  assumes "4 dvd length B" "4 + length B + k = sizeof_req" "8 \<le> k"
  shows "nlattr_add le (req_state le B k) t (Some (bytes32 le v)) 4 =
    Some (0, req_state le (B @ enc_attr le (t, bytes32 le v)) (k - 8))"
proof -
  have "bytes32 le v \<noteq> []" by (simp add: bytes32_def)
  then show ?thesis
    using nlattr_add_state [OF assms(1,2), of "bytes32 le v" "Some (bytes32 le v)" le t] assms(3)
    by (simp add: NLA_ALIGN_def)
qed

lemma xdp_request_state:
  "xdp_request le ifindex fd old_fd flags =
     Some (Inr (req_state le (setlink_head le ifindex @
       enc_attr le (43 OR NLA_F_NESTED, concat (map (enc_attr le) (xdp_attrs le fd old_fd flags))))
       (128 - 8 * length (xdp_attrs le fd old_fd flags))))"
proof -
  let ?B = "setlink_head le ifindex" and ?N = "enc_attr le (43 OR NLA_F_NESTED, [])"
  let ?F = "enc_attr le (1, bytes32 le (int32 fd))" and ?G = "enc_attr le (3, bytes32 le flags)"
    and ?E = "enc_attr le (8, bytes32 le (int32 old_fd))"
  have N: "length ?N = 4" by (simp add: enc_attr_empty)
  have nest: "nlattr_begin_nested le (req_state le ?B 132) 43 = Some (Some 32, req_state le (?B @ ?N) 128)"
    using nlattr_begin_nested_state [of ?B 132 le 43] by (simp add: sizeof_req_def)
  have F: "nlattr_add le (req_state le (?B @ ?N) 128) 1 (Some (bytes32 le (int32 fd))) 4 =
      Some (0, req_state le (?B @ ?N @ ?F) 120)"
    using add32_state [of "?B @ ?N" 128 le 1] N by (simp add: sizeof_req_def)
  have G: "nlattr_add le (req_state le (?B @ ?N @ ?F) 120) 3 (Some (bytes32 le flags)) 4 =
      Some (0, req_state le (?B @ ?N @ ?F @ ?G) 112)"
    using add32_state [of "?B @ ?N @ ?F" 120 le 3 flags] N by (simp add: sizeof_req_def length_enc32)
  have E: "nlattr_add le (req_state le (?B @ ?N @ ?F @ ?G) 112) 8 (Some (bytes32 le (int32 old_fd))) 4 =
      Some (0, req_state le (?B @ ?N @ ?F @ ?G @ ?E) 104)"
    using add32_state [of "?B @ ?N @ ?F @ ?G" 112 le 8 "int32 old_fd"] N by (simp add: sizeof_req_def length_enc32)
  have ends: "nlattr_end_nested le (req_state le (?B @ ?N @ C) k) 32 =
      Some (req_state le (?B @ enc_attr le (43 OR NLA_F_NESTED, C)) k)" if "4 dvd length C" "length C \<le> 24" for C k
    using nlattr_end_nested_state [of ?B C le "43 OR NLA_F_NESTED" k] that by (simp add: sizeof_req_def)
  have "4 dvd length ?F" "4 dvd length (?F @ ?G)" "4 dvd length (?F @ ?G @ ?E)"
    "length ?F \<le> 24" "length (?F @ ?G) \<le> 24" "length (?F @ ?G @ ?E) \<le> 24"
    by (simp_all add: length_enc32)
  note fin = ends [OF this(1,4)] ends [OF this(2,5)] ends [OF this(3,6)]
  note ifla = IFLA_XDP_def IFLA_XDP_FD_def IFLA_XDP_FLAGS_def IFLA_XDP_EXPECTED_FD_def
  have "flags AND XDP_FLAGS_REPLACE = 0" if "flags = 0" using that by simp
  moreover obtain r0 where "new_req le (NLMSG_LENGTH 16) RTM_SETLINK (NLM_F_REQUEST OR NLM_F_ACK) = Some r0"
    "put_ifindex le r0 ifindex = Some (req_state le ?B 132)"
    using setlink_state [of le ifindex] by (auto split: bind_splits)
  ultimately show ?thesis
    unfolding xdp_request_def ifla using nest F G E fin by (auto simp: xdp_attrs_def)
qed

text \<open>Reading a nested stream and a 32-bit attribute back.\<close>

lemma nested_parse:
  assumes "attr_at le b off (t, concat (map (enc_attr le) as))" "4 + length (concat (map (enc_attr le) as)) < 65536"
  shows "\<exists>tb. libbpf_nla_parse_nested le b maxtype off None = Some (0, tb) \<and>
    indexed le b maxtype as (replicate (maxtype + 1) None) tb"
proof -
  let ?c = "concat (map (enc_attr le) as)"
  obtain P Q where b: "b = P @ enc_attr le (t, ?c) @ Q" "length P = off" using assms(1) by (auto simp: attr_at_def)
  let ?X = "P @ bytes16 le (of_nat (4 + length ?c)) @ bytes16 le t"
  have e: "b = ?X @ ?c @ replicate (NLA_ALIGN (4 + length ?c) - (4 + length ?c)) 0 @ Q"
    using b(1) by (simp add: enc_attr_def)
  have s: "\<forall>a\<in>set as. 4 + length (snd a) < 65536"
    using enc_fits [of le as "length ?c"] assms(2) by fastforce
  have "libbpf_nla_len le b off = Some (int (length ?c))"
    using attr_at_read(3) [OF assms(1)] assms(2) by simp
  moreover have "length ?X = libbpf_nla_data off" using b(2) by (simp add: libbpf_nla_data_def NLA_HDRLEN_def NLA_ALIGN_def)
  ultimately show ?thesis
    using parse_enc [OF e s, of 0 "replicate (maxtype + 1) None" maxtype]
    by (simp add: libbpf_nla_parse_nested_def libbpf_nla_parse_def)
qed

lemma getattr_u32_at: "attr_at le b off (t, bytes32 le v) \<Longrightarrow> libbpf_nla_getattr_u32 le b off = Some v"
proof -
  assume "attr_at le b off (t, bytes32 le v)"
  then obtain P Q where b: "b = P @ enc_attr le (t, bytes32 le v) @ Q" "length P = off" by (auto simp: attr_at_def)
  then have "b = (P @ bytes16 le 8 @ bytes16 le t) @ bytes32 le v @ Q" by (simp add: enc_attr_def NLA_ALIGN_def)
  moreover have "length (P @ bytes16 le 8 @ bytes16 le t) = libbpf_nla_data off"
    using b(2) by (simp add: libbpf_nla_data_def NLA_HDRLEN_def NLA_ALIGN_def)
  ultimately show ?thesis
    unfolding libbpf_nla_getattr_u32_def by (metis get32_append)
qed

lemma attr_type_eval:
  "attr_type (1, d) = 1" "attr_type (2, d) = 2" "attr_type (3, d) = 3" "attr_type (4, d) = 4" "attr_type (5, d) = 5"
  "attr_type (6, d) = 6" "attr_type (7, d) = 7" "attr_type (8, d) = 8" "attr_type (43 OR NLA_F_NESTED, d) = 43"
  by (simp_all add: attr_type_def NLA_TYPE_MASK_def NLA_F_NESTED_def)

lemma indexed_None:
  assumes "indexed le b maxtype as (replicate (maxtype + 1) None) tb" "t \<le> maxtype"
    "List.find (\<lambda>a. attr_type a = t) (rev as) = None"
  shows "tb ! t = None"
  using assms fresh_index unfolding indexed_def by (elim conjE allE [of _ t]) simp

text \<open>What an index says of a 32-bit attribute.\<close>

definition attr32 :: "bool \<Rightarrow> u8 list \<Rightarrow> nat option list \<Rightarrow> nat \<Rightarrow> u32 option" where
  "attr32 le b tb t = (case tb ! t of None \<Rightarrow> None | Some off \<Rightarrow> libbpf_nla_getattr_u32 le b off)"

lemma attr32_find:
  assumes "indexed le b maxtype as (replicate (maxtype + 1) None) tb" "t \<le> maxtype"
    and "\<forall>a\<in>set as. attr_type a = t \<longrightarrow> (\<exists>v. snd a = bytes32 le v)"
  shows "(case List.find (\<lambda>a. attr_type a = t) (rev as) of None \<Rightarrow> attr32 le b tb t = None
    | Some a \<Rightarrow> \<forall>v. snd a = bytes32 le v \<longrightarrow> attr32 le b tb t = Some v)"
proof (cases "List.find (\<lambda>a. attr_type a = t) (rev as)")
  case None
  then show ?thesis using indexed_None [OF assms(1,2)] by (simp add: attr32_def)
next
  case (Some a)
  then obtain off where "tb ! t = Some off" "attr_at le b off a" using indexed_Some [OF assms(1,2)] by blast
  then show ?thesis using Some getattr_u32_at [of le b off "fst a"]
    by (cases a) (auto simp: attr32_def)
qed

section \<open>Properties\<close>

text \<open>C19. The request to attach (or, with descriptor -1, detach) an XDP program can always be built and says what the
  caller asked: its type and interface, and, inside its one link attribute, the program's descriptor,
  the flags unless they are zero, and the expected program just when the replace flag is set.\<close>

theorem xdp_request_decodes:
  "\<exists>req len tb off xtb. xdp_request le ifindex fd old_fd flags = Some (Inr req) \<and>
     nlmsg_len_of le req 0 = Some len \<and> nlmsg_type_of le req 0 = Some RTM_SETLINK \<and>
     get32 le req (NLMSG_DATA 0 + 4) = Some (int32 ifindex) \<and>
     libbpf_nla_parse le req IFLA_MAX 32 (int (unat len) - 32) None = Some (0, tb) \<and> tb ! IFLA_XDP = Some off \<and>
     libbpf_nla_parse_nested le req IFLA_XDP_MAX off None = Some (0, xtb) \<and>
     attr32 le req xtb IFLA_XDP_FD = Some (int32 fd) \<and>
     attr32 le req xtb IFLA_XDP_FLAGS = (if flags = 0 then None else Some flags) \<and>
     attr32 le req xtb IFLA_XDP_EXPECTED_FD =
       (if flags AND XDP_FLAGS_REPLACE = 0 then None else Some (int32 old_fd))"
proof -
  let ?as = "xdp_attrs le fd old_fd flags" and ?H = "setlink_head le ifindex"
  let ?c = "concat (map (enc_attr le) ?as)" and ?A = "(43 OR NLA_F_NESTED, concat (map (enc_attr le) (xdp_attrs le fd old_fd flags)))"
  define k where "k = 128 - 8 * length ?as"
  define req where "req = req_state le (?H @ enc_attr le ?A) k"
  have lc: "length ?c = 8 * length ?as" "length ?as \<le> 3"
    by (auto simp: xdp_attrs_def length_enc32)
  have lA: "length (enc_attr le ?A) = 4 + length ?c"
    using lc(1) align_dvd(1) [of "4 + length ?c"] by (simp add: length_enc_attr)
  let ?L = "bytes32 le (of_nat (4 + length (?H @ enc_attr le ?A)))"
  have r: "req = ?L @ ?H @ enc_attr le ?A @ replicate k 0" by (simp add: req_def req_state_def)
  have len: "nlmsg_len_of le req 0 = Some (of_nat (36 + length ?c))"
    using get32_append [of le "[]" "of_nat (36 + length ?c)" "?H @ enc_attr le ?A @ replicate k 0"]
    by (simp add: r nlmsg_len_of_def lA)
  have un: "unat (of_nat (36 + length ?c) :: u32) = 36 + length ?c"
    using lc by (intro unat_of_nat_u32) simp
  have ty: "nlmsg_type_of le req 0 = Some RTM_SETLINK"
    using get16_append [of le ?L RTM_SETLINK "drop 2 ?H @ enc_attr le ?A @ replicate k 0"]
    by (simp add: r nlmsg_type_of_def setlink_head_def)
  have ix: "get32 le req (NLMSG_DATA 0 + 4) = Some (int32 ifindex)"
    using get32_append [of le "?L @ take 16 ?H" "int32 ifindex" "replicate 8 0 @ enc_attr le ?A @ replicate k 0"]
    by (simp add: r setlink_head_def NLMSG_DATA_def NLMSG_LENGTH_def NLMSG_HDRLEN_def NLMSG_ALIGN_def)
  have "req = (?L @ ?H) @ concat (map (enc_attr le) [?A]) @ replicate k 0" by (simp add: r)
  from parse_enc [OF this, of 0 "replicate (IFLA_MAX + 1) None" IFLA_MAX] lc
  obtain tb where tb: "libbpf_nla_parse le req IFLA_MAX 32 (int (length (enc_attr le ?A))) None = Some (0, tb)"
    "indexed le req IFLA_MAX [?A] (replicate (IFLA_MAX + 1) None) tb"
    by (auto simp: libbpf_nla_parse_def)
  have "List.find (\<lambda>a. attr_type a = 43) (rev [?A]) = Some ?A" by (simp add: attr_type_eval)
  from indexed_Some [OF tb(2) _ this] obtain off where off: "tb ! 43 = Some off" "attr_at le req off ?A"
    by (auto simp: IFLA_MAX_def)
  from nested_parse [OF off(2), of IFLA_XDP_MAX] lc obtain xtb where
    x: "libbpf_nla_parse_nested le req IFLA_XDP_MAX off None = Some (0, xtb)"
      "indexed le req IFLA_XDP_MAX ?as (replicate (IFLA_XDP_MAX + 1) None) xtb"
    by auto
  have b: "\<forall>a\<in>set ?as. attr_type a = t \<longrightarrow> (\<exists>v. snd a = bytes32 le v)" for t
    by (auto simp: xdp_attrs_def)
  have "attr32 le req xtb 1 = Some (int32 fd)" "attr32 le req xtb 3 = (if flags = 0 then None else Some flags)"
    "attr32 le req xtb 8 = (if flags AND XDP_FLAGS_REPLACE = 0 then None else Some (int32 old_fd))"
    using attr32_find [OF x(2) _ b, of 1] attr32_find [OF x(2) _ b, of 3] attr32_find [OF x(2) _ b, of 8]
    by (auto simp: IFLA_XDP_MAX_def xdp_attrs_def attr_type_eval split: if_splits)
  moreover have "int (unat (of_nat (36 + length ?c) :: u32)) - 32 = int (length (enc_attr le ?A))"
    unfolding un lA by simp
  ultimately show ?thesis
    using xdp_request_state [of le ifindex fd old_fd flags, folded k_def, folded req_def] len ty ix tb(1) off(1) x(1)
    unfolding IFLA_XDP_def IFLA_XDP_FD_def IFLA_XDP_FLAGS_def IFLA_XDP_EXPECTED_FD_def by metis
qed

section \<open>Exchanges end\<close>

text \<open>
  What is assumed of a datagram: an error message holds its code and the header of the request it answers (\<open>struct nlmsgerr\<close>),
  with a length of less than two gigabytes in it. Everything else may be arbitrary bytes.
\<close>

function errors_sane :: "bool \<Rightarrow> u8 list \<Rightarrow> nat \<Rightarrow> bool" where
  "errors_sane le b nh \<longleftrightarrow>
     (case nlmsg_len_of le b nh of
        None \<Rightarrow> True
      | Some l \<Rightarrow>
          if unat l < 16 \<or> length b < nh + unat l then True
          else (nlmsg_type_of le b nh = Some NLMSG_ERROR \<longrightarrow>
             36 \<le> unat l \<and> (case get32 le b (nh + 20) of None \<Rightarrow> False | Some k \<Rightarrow> k < 0x80000000)) \<and>
          errors_sane le b (nh + NLMSG_ALIGN (unat l)))"
  by pat_completeness auto
termination
proof (relation "measure (\<lambda>(le, b, nh). length b - nh)", goal_cases)
  case (2 le b nh l)
  then have "nh < length b" "0 < NLMSG_ALIGN (unat l)" by (auto simp: NLMSG_ALIGN_def)
  then show ?case by simp
qed simp

declare errors_sane.simps [simp del]

text \<open>The answers end: after any number of datagrams and interruptions the socket reports some other error.\<close>

definition fatal :: "int + u8 list \<Rightarrow> bool" where
  "fatal r \<longleftrightarrow> (case r of Inl e \<Rightarrow> e \<noteq> EINTR \<and> e \<noteq> EAGAIN | Inr d \<Rightarrow> False)"

definition answers :: "bool \<Rightarrow> (int + u8 list) list \<Rightarrow> bool" where
  "answers le rs \<longleftrightarrow> rs \<noteq> [] \<and> fatal (last rs) \<and> list_all (\<lambda>r. case r of Inl e \<Rightarrow> True | Inr d \<Rightarrow> errors_sane le d 0) rs"

lemma get_take:
  assumes "off + 4 \<le> k"
  shows "get32 le (take k b) off = get32 le b off" "get16 le (take k b) off = get16 le b off"
  using assms by (auto simp: get32_def get16_def)

lemma errors_sane_take: "errors_sane le b nh \<Longrightarrow> errors_sane le (take k b) nh"
proof (induction le b nh rule: errors_sane.induct)
  case (1 le b nh)
  show ?case
  proof (cases "nlmsg_len_of le (take k b) nh")
    case None
    then show ?thesis by (simp add: errors_sane.simps)
  next
    case (Some l)
    show ?thesis
    proof (cases "unat l < 16 \<or> length (take k b) < nh + unat l")
      case True
      then show ?thesis using Some by (subst errors_sane.simps) simp
    next
      case False
      then have k: "nh + 16 \<le> k" "nh + unat l \<le> k" "\<not> unat l < 16" "\<not> length b < nh + unat l" by auto
      have l: "nlmsg_len_of le b nh = Some l" using Some get_take [of nh k le b] k(1) by (simp add: nlmsg_len_of_def)
      from 1(2) k(3,4) l have s: "nlmsg_type_of le b nh = Some NLMSG_ERROR \<longrightarrow>
          36 \<le> unat l \<and> (case get32 le b (nh + 20) of None \<Rightarrow> False | Some k \<Rightarrow> k < 0x80000000)"
          "errors_sane le b (nh + NLMSG_ALIGN (unat l))" by (subst (asm) errors_sane.simps, simp)+
      have t: "nlmsg_type_of le (take k b) nh = nlmsg_type_of le b nh" using get_take [of "nh + 4" k] k(1) by (simp add: nlmsg_type_of_def)
      have "get32 le (take k b) (nh + 20) = get32 le b (nh + 20)" if "36 \<le> unat l" using get_take [of "nh + 20" k] k(2) that by simp
      then show ?thesis using Some s t 1(1) [OF l _ s(2)] k(3,4) by (subst errors_sane.simps) auto
    qed
  qed
qed

lemma dump_errormsg_total:
  assumes "nh + 36 \<le> length b" "nlmsg_len_of le b nh = Some l" "nh + unat l \<le> length b" "get32 le b (nh + 20) = Some k" "k < 0x80000000"
  shows "libbpf_nla_dump_errormsg le b nh \<noteq> None"
proof -
  obtain fl where fl: "nlmsg_flags_of le b nh = Some fl" using assms(1) by (auto simp: nlmsg_flags_of_def get16_def)
  have d: "NLMSG_DATA nh = nh + 16" by (simp add: NLMSG_DATA_def NLMSG_LENGTH_def NLMSG_HDRLEN_def NLMSG_ALIGN_def)
  have "(k - of_nat NLMSG_HDRLEN :: u32) = word_of_int (int (unat k) - 16)" by (simp add: NLMSG_HDRLEN_def NLMSG_ALIGN_def)
  moreover have "unat k < 2 ^ 31" using assms(5) by (simp add: word_less_nat_alt)
  then have "int (unat k) < 2 ^ 31" by (metis of_nat_less_iff of_nat_numeral of_nat_power)
  then have "sint (word_of_int (int (unat k) - 16) :: u32) = int (unat k) - 16"
    unfolding signed_of_int by (subst signed_take_bit_int_eq_self) simp_all
  ultimately have "- 16 \<le> sint (k - of_nat NLMSG_HDRLEN)" by simp
  then have h: "\<exists>h. (if fl AND NLM_F_CAPPED = 0 then do { l \<leftarrow> nlmsg_len le b (NLMSG_DATA nh + 4); Some (20 + l) } else Some 20) = Some h \<and> 0 \<le> h"
    using assms(4) by (simp add: nlmsg_len_def nlmsg_len_of_def d add.commute)
  then obtain h where h: "(if fl AND NLM_F_CAPPED = 0 then do { l \<leftarrow> nlmsg_len le b (NLMSG_DATA nh + 4); Some (20 + l) } else Some 20) = Some h" "0 \<le> h"
    by blast
  let ?a = "int (NLMSG_DATA nh) + h"
  have "int (nat ?a) + (int nh + int (unat l) - ?a) \<le> int (length b)" using h(2) assms(3) by linarith
  from parse_inside [OF this, where policy = "Some extack_policy" and maxtype = NLMSGERR_ATTR_MAX and le = le] h fl assms(2)
  show ?thesis by (auto simp: libbpf_nla_dump_errormsg_def Let_def extack_policy_def NLMSGERR_ATTR_MAX_def)
qed

lemma msgs_total:
  fixes c :: 'c
  shows "errors_sane le b nh \<Longrightarrow> int nh + len = int (length b) \<Longrightarrow> \<exists>r. netlink_msgs le pid seq None b nh len multi c = Some r"
proof (induction le pid seq "None :: 'c dump_nlmsg option" b nh len multi c rule: netlink_msgs.induct)
  case (1 le pid seq b nh len multi c)
  show ?case
  proof (cases "len < 16")
    case True
    then show ?thesis by (subst netlink_msgs.simps) (simp add: NLMSG_OK_def)
  next
    case n16: False
    then have n: "nh + 16 \<le> length b" using 1(3) by linarith
    obtain l p s fl ty where h: "nlmsg_len_of le b nh = Some l" "nlmsg_pid_of le b nh = Some p" "nlmsg_seq_of le b nh = Some s"
        "nlmsg_flags_of le b nh = Some fl" "nlmsg_type_of le b nh = Some ty"
      using n by (auto simp: nlmsg_len_of_def nlmsg_pid_of_def nlmsg_seq_of_def nlmsg_flags_of_def nlmsg_type_of_def get32_def get16_def)
    show ?thesis
    proof (cases "16 \<le> unat l \<and> int (unat l) \<le> len")
      case False
      then have "NLMSG_OK le b nh len = Some False" using h(1) n16 by (auto simp: NLMSG_OK_def)
      then show ?thesis by (subst netlink_msgs.simps) simp
    next
      case True
      have ok: "NLMSG_OK le b nh len = Some True" using True h(1) n16 by (simp add: NLMSG_OK_def)
      have l: "nh + unat l \<le> length b" "\<not> unat l < 16" using True 1(3) by linarith+
      from 1(2) l h(1) have sane: "nlmsg_type_of le b nh = Some NLMSG_ERROR \<longrightarrow>
          36 \<le> unat l \<and> (case get32 le b (nh + 20) of None \<Rightarrow> False | Some k \<Rightarrow> k < 0x80000000)"
          "errors_sane le b (nh + NLMSG_ALIGN (unat l))" by (subst (asm) errors_sane.simps, simp)+
      have d: "NLMSG_DATA nh = nh + 16" by (simp add: NLMSG_DATA_def NLMSG_LENGTH_def NLMSG_HDRLEN_def NLMSG_ALIGN_def)
      have err: "\<exists>e. get32 le b (NLMSG_DATA nh) = Some e" "libbpf_nla_dump_errormsg le b nh \<noteq> None" if t: "ty = NLMSG_ERROR"
      proof -
        obtain k where k: "36 \<le> unat l" "get32 le b (nh + 20) = Some k" "k < 0x80000000" using sane(1) h(5) t by (auto split: option.splits)
        then show "\<exists>e. get32 le b (NLMSG_DATA nh) = Some e" using l(1) by (simp add: d get32_def)
        have "nh + 36 \<le> length b" using k(1) l(1) by linarith
        from dump_errormsg_total [OF this h(1) l(1) k(2,3)] show "libbpf_nla_dump_errormsg le b nh \<noteq> None" .
      qed
      have "\<exists>x. netlink_msg le pid seq None b nh multi c = Some x"
        using err by (cases "ty = NLMSG_ERROR") (auto simp: netlink_msg_def h Let_def split: bind_splits)
      then obtain res m' c' where m: "netlink_msg le pid seq None b nh multi c = Some (res, m', c')" by auto
      have nx: "NLMSG_NEXT le b nh len = Some (nh + NLMSG_ALIGN (unat l), len - int (NLMSG_ALIGN (unat l)))"
        using h(1) by (simp add: NLMSG_NEXT_def)
      show ?thesis
      proof (cases res)
        case (Some r)
        then show ?thesis using ok m by (subst netlink_msgs.simps) simp
      next
        case None
        have "int (nh + NLMSG_ALIGN (unat l)) + (len - int (NLMSG_ALIGN (unat l))) = int (length b)" using 1(3) by simp
        from 1(1) [OF ok refl m refl None refl nx refl sane(2) this] show ?thesis using ok m nx None by (subst netlink_msgs.simps) simp
      qed
    qed
  qed
qed

lemma answers_recv:
  "answers le rs \<Longrightarrow> \<exists>r rs'. netlink_recvmsg rs = Some (r, rs') \<and> (case r of Inl e \<Rightarrow> True | Inr d \<Rightarrow> answers le rs' \<and> errors_sane le d 0)"
  by (induction rs rule: netlink_recvmsg.induct)
    (auto simp: answers_def fatal_def split: if_splits)

lemma recv_loop_total:
  fixes c :: 'c
  shows "answers le rs \<Longrightarrow> \<exists>r. netlink_recv_loop le pid seq None alloc iov rs c = Some r"
proof (induction "length rs" arbitrary: rs iov c rule: less_induct)
  case less
  obtain r1 rs1 where r1: "netlink_recvmsg rs = Some (r1, rs1)" "case r1 of Inl e \<Rightarrow> True | Inr d \<Rightarrow> answers le rs1 \<and> errors_sane le d 0"
    using answers_recv [OF less(2)] by blast
  show ?case
  proof (cases r1)
    case (Inl e)
    then show ?thesis using r1(1) by (subst netlink_recv_loop.simps) simp
  next
    case p: (Inr peek)
    then obtain r2 rs2 where r2: "netlink_recvmsg rs1 = Some (r2, rs2)" "case r2 of Inl e \<Rightarrow> True | Inr d \<Rightarrow> answers le rs2 \<and> errors_sane le d 0"
      using answers_recv r1(2) by fastforce
    show ?thesis
    proof (cases r2)
      case (Inl e)
      then show ?thesis using r1(1) r2(1) p by (subst netlink_recv_loop.simps) (simp add: Let_def)
    next
      case (Inr d)
      let ?iov = "if length peek > iov then length peek else iov"
      have "errors_sane le (take ?iov d) 0" using r2(2) Inr errors_sane_take by simp
      then obtain x where x: "netlink_msgs le pid seq None (take ?iov d) 0 (int (length (take ?iov d))) False c = Some x"
        using msgs_total [of le "take ?iov d" 0 "int (length (take ?iov d))"] by fastforce
      have short: "length rs2 < length rs" using netlink_recvmsg_less [OF r1(1)] netlink_recvmsg_less [OF r2(1)] by simp
      have ih: "\<exists>a b. netlink_recv_loop le pid seq None alloc v rs2 c' = Some (a, b)" for c' :: 'c and v
        using less(1) [of rs2 v c'] r2(2) Inr short by simp
      show ?thesis using r1(1) r2(1) p Inr x by (subst netlink_recv_loop.simps) (cases x, simp_all add: Let_def ih del: length_take)
    qed
  qed
qed

lemma send_recv_total:
  assumes "length req = sizeof_req" "\<And>msg. answers le (nl_recvs os msg)"
  shows "\<exists>r. libbpf_netlink_send_recv le os req None c socks = Some (r, socks) \<and>
    (case nl_socket os of Inl e \<Rightarrow> fst r = - e | Inr fd \<Rightarrow> True)"
proof -
  have "\<exists>r. libbpf_netlink_send_recv le os req None c socks = Some r"
  proof (cases "libbpf_netlink_open os socks")
    case (Pair o' s')
    obtain r1 where r1: "put32 le req 12 0 = Some r1" "length r1 = sizeof_req" using assms(1) by (simp add: put32_def sizeof_req_def memcpy_length)
    obtain r2 where r2: "put32 le r1 8 (nl_time os) = Some r2" "length r2 = sizeof_req" using r1(2) by (simp add: put32_def sizeof_req_def memcpy_length)
    obtain l where l: "nlmsg_len_of le r2 0 = Some l" using r2(2) by (simp add: nlmsg_len_of_def get32_def sizeof_req_def)
    have "\<exists>r. libbpf_netlink_recv le os pid (nl_time os) None (nl_recvs os msg) c = Some r" for pid msg
      unfolding libbpf_netlink_recv_def using recv_loop_total [OF assms(2), of pid "nl_time os" "nl_alloc os" 4096 msg c] by auto
    then have recv: "libbpf_netlink_recv le os pid (nl_time os) None (nl_recvs os msg) c \<noteq> None" for pid msg by auto
    show ?thesis
    proof (cases o')
      case (Inr f)
      then show ?thesis using Pair r1(1) r2(1) l recv [of "snd f" "take (unat l) r2"]
        by (cases f; cases "nl_send os (take (unat l) r2)") (auto simp: libbpf_netlink_send_recv_def Let_def)
    qed (use Pair in \<open>simp add: libbpf_netlink_send_recv_def\<close>)
  qed
  then obtain r s where rs: "libbpf_netlink_send_recv le os req None c socks = Some (r, s)" by auto
  moreover have "case nl_socket os of Inl e \<Rightarrow> fst r = - e | Inr fd \<Rightarrow> True"
    using rs by (auto simp: libbpf_netlink_send_recv_def libbpf_netlink_open_def split: sum.split)
  ultimately show ?thesis using send_recv_closes [OF rs] by blast
qed

lemma xdp_attach_returns:
  assumes "\<And>msg. answers le (nl_recvs os msg)"
  shows "\<exists>ret. bpf_xdp_attach le os v ifindex fd flags opts socks = Some (ret, socks) \<and>
    (if v then (case nl_socket os of Inl e \<Rightarrow> ret = - e | Inr s \<Rightarrow> True) else ret = - EINVAL)"
proof -
  have "\<exists>ret. bpf_set_link_xdp_fd_replace le os ifindex fd old fl socks = Some (ret, socks) \<and>
      (case nl_socket os of Inl e \<Rightarrow> ret = - e | Inr s \<Rightarrow> True)" for old fl
  proof -
    obtain req where r: "xdp_request le ifindex fd old fl = Some (Inr req)" "length req = sizeof_req"
    proof
      show "xdp_request le ifindex fd old fl = Some (Inr (req_state le (setlink_head le ifindex @
          enc_attr le (43 OR NLA_F_NESTED, concat (map (enc_attr le) (xdp_attrs le fd old fl))))
          (128 - 8 * length (xdp_attrs le fd old fl))))" by (rule xdp_request_state)
      have c: "length (concat (map (enc_attr le) (xdp_attrs le fd old fl))) = 8 * length (xdp_attrs le fd old fl)"
        "length (xdp_attrs le fd old fl) \<le> 3" by (auto simp: xdp_attrs_def length_enc32)
      have "(4 + 8 * n + 3) div 4 * 4 = 4 + 8 * n" for n :: nat by presburger
      then have "NLA_ALIGN (4 + length (concat (map (enc_attr le) (xdp_attrs le fd old fl)))) = 4 + 8 * length (xdp_attrs le fd old fl)"
        unfolding NLA_ALIGN_def c(1) by blast
      then show "length (req_state le (setlink_head le ifindex @
          enc_attr le (43 OR NLA_F_NESTED, concat (map (enc_attr le) (xdp_attrs le fd old fl))))
          (128 - 8 * length (xdp_attrs le fd old fl))) = sizeof_req"
        using c(2) by (simp add: req_state_def sizeof_req_def length_enc_attr)
    qed
    obtain x where "libbpf_netlink_send_recv le os req None () socks = Some (x, socks)" "case nl_socket os of Inl e \<Rightarrow> fst x = - e | Inr fd \<Rightarrow> True"
      using send_recv_total [OF r(2) assms, of "()" socks] by blast
    then show ?thesis using r(1) by (cases x) (auto simp: bpf_set_link_xdp_fd_replace_def split: sum.splits)
  qed
  then show ?thesis by (simp add: bpf_xdp_attach_def Let_def split: prod.split)
qed

text \<open>C20. Attaching and detaching an XDP program returns and leaves no socket open, whether the socket can be opened and
  bound, the request sent and memory allocated or not, and whatever the kernel answers: any number of datagrams, interrupted calls included, of
  arbitrary bytes except that an error message holds its code and the header of the request, until the socket reports
  an error other than an interruption, if it is asked that often. The error of a socket that cannot be opened is returned, and so is
  the refusal of invalid options.\<close>

theorem netlink_no_leak:
  assumes "\<forall>msg. answers le (nl_recvs os msg)"
  shows "(\<exists>ret. bpf_xdp_attach le os v ifindex fd flags opts socks = Some (ret, socks) \<and>
      (if v then (case nl_socket os of Inl e \<Rightarrow> ret = - e | Inr s \<Rightarrow> True) else ret = - EINVAL)) \<and>
    (\<exists>ret. bpf_xdp_detach le os v ifindex flags opts socks = Some (ret, socks) \<and>
      (if v then (case nl_socket os of Inl e \<Rightarrow> ret = - e | Inr s \<Rightarrow> True) else ret = - EINVAL))"
  using xdp_attach_returns [of le os] assms by (simp add: bpf_xdp_detach_def)

text \<open>A kernel that refuses the program: an error message with the header of the request.\<close>

definition refusal :: "u8 list" where
  "refusal = bytes32 True 36 @ bytes16 True NLMSG_ERROR @ bytes16 True 0 @ bytes32 True 9 @ bytes32 True 7 @
     bytes32 True (- 1) @ bytes32 True 40 @ replicate 12 0"

definition refusing_nl :: nl_os where
  "refusing_nl = \<lparr>nl_socket = Inr 3, nl_bind = 0, nl_getsockname = Inr (7, 12), nl_time = 9,
     nl_send = (\<lambda>_. None), nl_recvs = (\<lambda>_. [Inl EINTR, Inr refusal, Inr refusal, Inl 104]), nl_alloc = (\<lambda>_. True)\<rparr>"

theorem netlink_no_leak_witness:
  "\<exists>ret. bpf_xdp_attach True refusing_nl True 2 5 0 None [4] = Some (ret, [4])"
proof -
  have "errors_sane True refusal 0" by code_simp
  then have "\<forall>msg. answers True (nl_recvs refusing_nl msg)" by (simp add: answers_def fatal_def refusing_nl_def)
  from netlink_no_leak [OF this, of True 2 5 0 None "[4]"] show ?thesis by blast
qed

section \<open>Multipart replies\<close>

record nl_message =
  m_type :: u16
  m_flags :: u16
  m_payload :: "u8 list"

definition enc_msg :: "bool \<Rightarrow> u32 \<Rightarrow> u32 \<Rightarrow> nl_message \<Rightarrow> u8 list" where
  "enc_msg le pid seq m = bytes32 le (of_nat (16 + length (m_payload m))) @ bytes16 le (m_type m) @ bytes16 le (m_flags m) @
     bytes32 le seq @ bytes32 le pid @ m_payload m @
     replicate (NLMSG_ALIGN (16 + length (m_payload m)) - (16 + length (m_payload m))) 0"

definition msg_at :: "bool \<Rightarrow> u32 \<Rightarrow> u32 \<Rightarrow> u8 list \<Rightarrow> nat \<Rightarrow> nl_message \<Rightarrow> bool" where
  "msg_at le pid seq b nh m \<longleftrightarrow> (\<exists>P Q. b = P @ enc_msg le pid seq m @ Q \<and> length P = nh)"

text \<open>The body of a dump: data messages flagged as parts.\<close>

definition part :: "nl_message \<Rightarrow> bool" where
  "part m \<longleftrightarrow> m_type m \<noteq> NLMSG_ERROR \<and> m_type m \<noteq> NLMSG_DONE \<and> m_flags m AND NLM_F_MULTI \<noteq> 0 \<and>
     16 + length (m_payload m) < 2147483648"

lemma length_enc_msg: "length (enc_msg le pid seq m) = NLMSG_ALIGN (16 + length (m_payload m))"
  by (simp add: enc_msg_def NLMSG_ALIGN_def)

lemma msg_at_read:
  assumes "msg_at le pid seq b nh m"
  shows "nlmsg_len_of le b nh = Some (of_nat (16 + length (m_payload m)))"
    "nlmsg_type_of le b nh = Some (m_type m)" "nlmsg_flags_of le b nh = Some (m_flags m)"
    "nlmsg_seq_of le b nh = Some seq" "nlmsg_pid_of le b nh = Some pid"
proof -
  obtain P Q where b: "b = P @ enc_msg le pid seq m @ Q" "length P = nh" using assms by (auto simp: msg_at_def)
  let ?L = "bytes32 le (of_nat (16 + length (m_payload m)))" and ?T = "bytes16 le (m_type m)" and ?F = "bytes16 le (m_flags m)"
  let ?S = "bytes32 le seq"
  define R where "R = m_payload m @ replicate (NLMSG_ALIGN (16 + length (m_payload m)) - (16 + length (m_payload m))) 0 @ Q"
  have e: "b = P @ ?L @ ?T @ ?F @ ?S @ bytes32 le pid @ R" by (simp add: b(1) enc_msg_def R_def)
  show "nlmsg_len_of le b nh = Some (of_nat (16 + length (m_payload m)))"
    using get32_append [of le P] by (simp add: e nlmsg_len_of_def b(2) [symmetric])
  show "nlmsg_type_of le b nh = Some (m_type m)"
    using get16_append [of le "P @ ?L"] by (simp add: e nlmsg_type_of_def b(2) [symmetric])
  show "nlmsg_flags_of le b nh = Some (m_flags m)"
    using get16_append [of le "P @ ?L @ ?T"] by (simp add: e nlmsg_flags_of_def b(2) [symmetric])
  show "nlmsg_seq_of le b nh = Some seq"
    using get32_append [of le "P @ ?L @ ?T @ ?F"] by (simp add: e nlmsg_seq_of_def b(2) [symmetric])
  show "nlmsg_pid_of le b nh = Some pid"
    using get32_append [of le "P @ ?L @ ?T @ ?F @ ?S"] by (simp add: e nlmsg_pid_of_def b(2) [symmetric])
qed

lemma msg_at_step:
  assumes "msg_at le pid seq b nh m" "16 + length (m_payload m) < 2147483648"
    and "int (NLMSG_ALIGN (16 + length (m_payload m))) \<le> len"
  shows "NLMSG_OK le b nh len = Some True"
    "NLMSG_NEXT le b nh len = Some (nh + NLMSG_ALIGN (16 + length (m_payload m)), len - int (NLMSG_ALIGN (16 + length (m_payload m))))"
proof -
  have u: "unat (of_nat (16 + length (m_payload m)) :: u32) = 16 + length (m_payload m)"
    using assms(2) by (intro unat_of_nat_u32) simp
  have "16 + length (m_payload m) \<le> NLMSG_ALIGN (16 + length (m_payload m))" by (simp add: NLMSG_ALIGN_def)
  then have "int (16 + length (m_payload m)) \<le> len" using assms(3) by linarith
  then show "NLMSG_OK le b nh len = Some True"
    unfolding NLMSG_OK_def msg_at_read(1) [OF assms(1)] bind.bind_lunit u by simp
  show "NLMSG_NEXT le b nh len = Some (nh + NLMSG_ALIGN (16 + length (m_payload m)), len - int (NLMSG_ALIGN (16 + length (m_payload m))))"
    unfolding NLMSG_NEXT_def msg_at_read(1) [OF assms(1)] bind.bind_lunit u ..
qed

text \<open>A callback whose effect on a message is \<open>g\<close>, wherever the message lies.\<close>

definition reads :: "bool \<Rightarrow> u32 \<Rightarrow> u32 \<Rightarrow> 'c dump_nlmsg \<Rightarrow> (nl_message \<Rightarrow> 'c \<Rightarrow> 'c) \<Rightarrow> nl_message set \<Rightarrow> bool" where
  "reads le pid seq f g M \<longleftrightarrow>
     (\<forall>m\<in>M. \<forall>b nh c. msg_at le pid seq b nh m \<longrightarrow> f b nh c = Some (NL_CONT, g m c))"

lemma msgs_parts:
  assumes "b = X @ concat (map (enc_msg le pid seq) ms) @ Y" "\<forall>m\<in>set ms. part m" "reads le pid seq f g (set ms)"
  shows "netlink_msgs le pid seq (Some f) b (length X) (int (length (concat (map (enc_msg le pid seq) ms)) + length Y)) mp c =
    netlink_msgs le pid seq (Some f) b (length (X @ concat (map (enc_msg le pid seq) ms))) (int (length Y))
      (mp \<or> ms \<noteq> []) (foldl (\<lambda>c m. g m c) c ms)"
  using assms
proof (induction ms arbitrary: X mp c)
  case Nil
  then show ?case by simp
next
  case (Cons m ms)
  let ?n = "NLMSG_ALIGN (16 + length (m_payload m))" and ?c = "concat (map (enc_msg le pid seq) ms)"
  have at: "msg_at le pid seq b (length X) m" using Cons.prems(1) by (auto simp: msg_at_def)
  have p: "part m" using Cons.prems(2) by simp
  note rd = msg_at_read [OF at]
  have len: "int (length (concat (map (enc_msg le pid seq) (m # ms))) + length Y) = int ?n + int (length ?c + length Y)"
    by (simp add: length_enc_msg)
  note st = msg_at_step [OF at, of "int ?n + int (length ?c + length Y)"]
  have "f b (length X) c = Some (NL_CONT, g m c)" using Cons.prems(3) at by (auto simp: reads_def)
  then have "netlink_msg le pid seq (Some f) b (length X) mp c = Some (None, True, g m c)"
    using p rd by (simp add: netlink_msg_def part_def NL_CONT_def)
  then have "netlink_msgs le pid seq (Some f) b (length X) (int ?n + int (length ?c + length Y)) mp c =
      netlink_msgs le pid seq (Some f) b (length X + ?n) (int (length ?c + length Y)) True (g m c)"
    using st p by (subst netlink_msgs.simps) (simp add: part_def)
  also have "\<dots> = netlink_msgs le pid seq (Some f) b (length (X @ enc_msg le pid seq m)) (int (length ?c + length Y)) True (g m c)"
    by (simp add: length_enc_msg)
  also have "\<dots> = netlink_msgs le pid seq (Some f) b (length ((X @ enc_msg le pid seq m) @ ?c)) (int (length Y))
      (True \<or> ms \<noteq> []) (foldl (\<lambda>c m. g m c) (g m c) ms)"
    by (rule Cons.IH) (use Cons.prems in \<open>auto simp: reads_def\<close>)
  finally show ?case unfolding len by simp
qed

definition datagram :: "bool \<Rightarrow> u32 \<Rightarrow> u32 \<Rightarrow> nl_message list \<Rightarrow> u8 list" where
  "datagram le pid seq ms = concat (map (enc_msg le pid seq) ms)"

definition done_msg :: nl_message where
  "done_msg = \<lparr>m_type = NLMSG_DONE, m_flags = NLM_F_MULTI, m_payload = [0, 0, 0, 0]\<rparr>"

definition interrupted :: "int + u8 list \<Rightarrow> bool" where
  "interrupted r \<longleftrightarrow> r = Inl EINTR \<or> r = Inl EAGAIN"

text \<open>Each datagram is seen twice: peeked at for its length, then taken.\<close>

definition seen :: "u8 list list \<Rightarrow> (int + u8 list) list" where
  "seen ds = concat (map (\<lambda>d. [Inr d, Inr d]) ds)"

lemma recvmsg_skip:
  assumes "filter (\<lambda>r. \<not> interrupted r) rs = Inr d # ys"
  shows "\<exists>rs'. netlink_recvmsg rs = Some (Inr d, rs') \<and> filter (\<lambda>r. \<not> interrupted r) rs' = ys"
  using assms
proof (induction rs)
  case (Cons r rs)
  then show ?case by (cases r) (auto simp: interrupted_def split: if_splits)
qed simp

lemma recv_one:
  assumes "filter (\<lambda>r. \<not> interrupted r) rs = Inr d # Inr d # ys" "d \<noteq> []"
  shows "\<exists>iov rs'. filter (\<lambda>r. \<not> interrupted r) rs' = ys \<and>
    netlink_recv_loop le pid seq fn (\<lambda>_. True) iov_len rs c =
      (case netlink_msgs le pid seq fn d 0 (int (length d)) False c of
         None \<Rightarrow> None
       | Some (Result ret c) \<Rightarrow> Some (ret, c)
       | Some (Start c) \<Rightarrow> netlink_recv_loop le pid seq fn (\<lambda>_. True) iov rs' c
       | Some (Finished mp c) \<Rightarrow> if mp then netlink_recv_loop le pid seq fn (\<lambda>_. True) iov rs' c else Some (0, c))"
proof -
  obtain rs1 where r1: "netlink_recvmsg rs = Some (Inr d, rs1)" "filter (\<lambda>r. \<not> interrupted r) rs1 = Inr d # ys"
    using recvmsg_skip [OF assms(1)] by blast
  obtain rs2 where r2: "netlink_recvmsg rs1 = Some (Inr d, rs2)" "filter (\<lambda>r. \<not> interrupted r) rs2 = ys"
    using recvmsg_skip [OF r1(2)] by blast
  let ?iov = "if length d > iov_len then length d else iov_len"
  have "take ?iov d = d" by simp
  then show ?thesis
    using r1(1) r2 assms(2)
    by (intro exI [of _ ?iov] exI [of _ rs2]) (subst netlink_recv_loop.simps, simp add: Let_def)
qed

lemma datagram_nonempty: "ms \<noteq> [] \<Longrightarrow> datagram le pid seq ms \<noteq> []"
  by (cases ms) (auto simp: datagram_def enc_msg_def bytes32_def)

lemma msgs_done:
  assumes "\<forall>m\<in>set ms. part m" "reads le pid seq f g (set ms)"
  shows "netlink_msgs le pid seq (Some f) (datagram le pid seq (ms @ [done_msg])) 0
      (int (length (datagram le pid seq (ms @ [done_msg])))) False c =
    Some (Result 0 (foldl (\<lambda>c m. g m c) c ms))"
proof -
  let ?D = "enc_msg le pid seq done_msg" and ?c = "concat (map (enc_msg le pid seq) ms)"
  have e: "datagram le pid seq (ms @ [done_msg]) = [] @ ?c @ ?D" by (simp add: datagram_def)
  have at: "msg_at le pid seq ([] @ ?c @ ?D) (length ?c) done_msg"
    unfolding msg_at_def by (intro exI [of _ ?c] exI [of _ "[]"]) simp
  note rd = msg_at_read [OF at] and st = msg_at_step(1) [OF at, of "int (length ?D)"]
  have "netlink_msg le pid seq (Some f) ([] @ ?c @ ?D) (length ?c) mp c = Some (Some (Result 0 c), True, c)" for mp c
    using rd by (simp add: netlink_msg_def done_msg_def NLMSG_DONE_def NLMSG_ERROR_def NLM_F_MULTI_def)
  then have "netlink_msgs le pid seq (Some f) ([] @ ?c @ ?D) (length ?c) (int (length ?D)) mp c = Some (Result 0 c)" for mp c
    using st by (subst netlink_msgs.simps) (simp add: length_enc_msg done_msg_def)
  then show ?thesis
    unfolding e using msgs_parts [OF refl assms, of "[]" ?D False c] by simp
qed

lemma msgs_part_only:
  assumes "\<forall>m\<in>set ms. part m" "reads le pid seq f g (set ms)" "ms \<noteq> []"
  shows "netlink_msgs le pid seq (Some f) (datagram le pid seq ms) 0 (int (length (datagram le pid seq ms))) False c =
    Some (Finished True (foldl (\<lambda>c m. g m c) c ms))"
  using msgs_parts [OF refl assms(1,2), of "[]" "[]" False c] assms(3)
  by (simp add: datagram_def netlink_msgs.simps NLMSG_OK_def)

text \<open>C21. A multipart reply is delivered whole and in order: whatever the number of datagrams, however the messages are
  spread over them and however often the calls are interrupted, the callback sees each message once, in
  order, until the end marker, and the exchange returns success.\<close>

theorem netlink_dump_delivers:
  assumes "\<forall>ms\<in>set ds. ms \<noteq> []" "\<forall>m\<in>set (concat ds @ fin). part m"
    and "reads le pid seq f g (set (concat ds @ fin))" "nl_alloc os = (\<lambda>_. True)"
    and "filter (\<lambda>r. \<not> interrupted r) rs =
      seen (map (datagram le pid seq) ds @ [datagram le pid seq (fin @ [done_msg])])"
  shows "libbpf_netlink_recv le os pid seq (Some f) rs c = Some (0, foldl (\<lambda>c m. g m c) c (concat ds @ fin))"
proof -
  have "netlink_recv_loop le pid seq (Some f) (\<lambda>_. True) iov_len rs c =
      Some (0, foldl (\<lambda>c m. g m c) c (concat ds @ fin))" for iov_len
    using assms(1-3,5)
  proof (induction ds arbitrary: rs c iov_len)
    case Nil
    then have "filter (\<lambda>r. \<not> interrupted r) rs =
        Inr (datagram le pid seq (fin @ [done_msg])) # Inr (datagram le pid seq (fin @ [done_msg])) # []"
      by (simp add: seen_def)
    from recv_one [OF this datagram_nonempty, of le pid seq "Some f" iov_len c] Nil msgs_done [of fin le pid seq f g c]
    show ?case by auto
  next
    case (Cons ms ds)
    let ?d = "datagram le pid seq ms"
    have ne: "ms \<noteq> []" and p: "\<forall>m\<in>set ms. part m" and r: "reads le pid seq f g (set ms)"
      using Cons.prems by (auto simp: reads_def)
    have "filter (\<lambda>r. \<not> interrupted r) rs =
        Inr ?d # Inr ?d # seen (map (datagram le pid seq) ds @ [datagram le pid seq (fin @ [done_msg])])"
      using Cons.prems(4) by (simp add: seen_def)
    from recv_one [OF this datagram_nonempty [OF ne], of le pid seq "Some f" iov_len c]
    obtain iov rs' where "filter (\<lambda>r. \<not> interrupted r) rs' =
        seen (map (datagram le pid seq) ds @ [datagram le pid seq (fin @ [done_msg])])"
      and eq: "netlink_recv_loop le pid seq (Some f) (\<lambda>_. True) iov_len rs c =
        netlink_recv_loop le pid seq (Some f) (\<lambda>_. True) iov rs' (foldl (\<lambda>c m. g m c) c ms)"
      using msgs_part_only [OF p r ne, of c] by auto
    with Cons.IH [of rs' iov "foldl (\<lambda>c m. g m c) c ms"] Cons.prems(1-3) show ?case
      by (simp add: eq reads_def)
  qed
  then show ?thesis using assms(4) by (simp add: libbpf_netlink_recv_def)
qed

definition example_nl :: nl_os where
  "example_nl = \<lparr>nl_socket = Inr 3, nl_bind = 0, nl_getsockname = Inr (7, 12), nl_time = 9,
     nl_send = (\<lambda>_. None), nl_recvs = (\<lambda>_. []), nl_alloc = (\<lambda>_. True)\<rparr>"

definition collect_types :: "bool \<Rightarrow> u16 list dump_nlmsg" where
  "collect_types le b nh c = do { t \<leftarrow> nlmsg_type_of le b nh; Some (NL_CONT, c @ [t]) }"

theorem netlink_dump_delivers_witness:
  "libbpf_netlink_recv True example_nl 7 9 (Some (collect_types True))
     (let m = \<lparr>m_type = 16, m_flags = 2, m_payload = [1, 2, 3]\<rparr>; n = m\<lparr>m_type := 17\<rparr>;
          d = datagram True 7 9 [m, n]; e = datagram True 7 9 [m, done_msg]
      in [Inl EINTR, Inr d, Inl EAGAIN, Inr d, Inr e, Inr e]) [] = Some (0, [16, 17, 16])"
proof -
  define m where "m = \<lparr>m_type = 16, m_flags = 2, m_payload = [1, 2, 3 :: u8]\<rparr>"
  define n where "n = m\<lparr>m_type := 17\<rparr>"
  let ?d = "datagram True 7 9 [m, n]" and ?e = "datagram True 7 9 [m, done_msg]"
  have p: "\<forall>x\<in>set (concat [[m, n]] @ [m]). part x"
    by (simp add: part_def m_def n_def NLMSG_ERROR_def NLMSG_DONE_def NLM_F_MULTI_def)
  have r: "reads True 7 9 (collect_types True) (\<lambda>m c. c @ [m_type m]) (set (concat [[m, n]] @ [m]))"
    by (auto simp: reads_def collect_types_def msg_at_read(2))
  have f: "filter (\<lambda>r. \<not> interrupted r) [Inl EINTR, Inr ?d, Inl EAGAIN, Inr ?d, Inr ?e, Inr ?e] =
      seen (map (datagram True 7 9) [[m, n]] @ [datagram True 7 9 ([m] @ [done_msg])])"
    by (simp add: interrupted_def seen_def)
  have "libbpf_netlink_recv True example_nl 7 9 (Some (collect_types True))
      [Inl EINTR, Inr ?d, Inl EAGAIN, Inr ?d, Inr ?e, Inr ?e] [] = Some (0, [16, 17, 16])"
    using netlink_dump_delivers [OF _ p r _ f, of example_nl "[]"] by (simp add: example_nl_def m_def n_def)
  then show ?thesis by (simp add: m_def n_def Let_def)
qed

end
