(* ===== verification/Json_Writer.thy ===== *)
theory Json_Writer
  imports Prelude
begin

text \<open>
  The streaming JSON writer of bpftool, \<open>bpftool/src/json_writer.c\<close>. The output file is the text written
  to it; a failed assertion is \<open>None\<close>. The text that \<open>vfprintf\<close> produces for a caller's format is an argument.
\<close>

section \<open>The writer\<close>

record json_writer =
  out :: string
  depth :: u32
  pretty :: bool
  sep :: char

definition NUL :: char where "NUL = CHR 0x00"

definition put_text :: "string \<Rightarrow> json_writer \<Rightarrow> json_writer" where
  "put_text s w = w\<lparr>out := out w @ s\<rparr>"

definition jsonw_indent :: "json_writer \<Rightarrow> json_writer" where
  "jsonw_indent w = put_text (concat (replicate (unat (depth w)) ''    '')) w"

definition jsonw_eol :: "json_writer \<Rightarrow> json_writer" where
  "jsonw_eol w = (if \<not> pretty w then w else jsonw_indent (put_text [CHR 0x0A] w))"

definition jsonw_eor :: "json_writer \<Rightarrow> json_writer" where
  "jsonw_eor w = (if sep w \<noteq> NUL then put_text [sep w] w else w)\<lparr>sep := CHR '',''\<rparr>"

definition escape :: "char \<Rightarrow> string" where
  "escape c =
     (if c = CHR 0x09 then [CHR 0x5C, CHR ''t'']
      else if c = CHR 0x0A then [CHR 0x5C, CHR ''n'']
      else if c = CHR 0x0D then [CHR 0x5C, CHR ''r'']
      else if c = CHR 0x0C then [CHR 0x5C, CHR ''f'']
      else if c = CHR 0x08 then [CHR 0x5C, CHR ''b'']
      else if c = CHR 0x5C then [CHR 0x5C, CHR 0x5C]
      else if c = CHR 0x22 then [CHR 0x5C, CHR 0x22]
      else [c])"

text \<open>A C string ends at its first zero byte.\<close>

fun puts_loop :: "string \<Rightarrow> json_writer \<Rightarrow> json_writer" where
  "puts_loop [] w = w"
| "puts_loop (c # s) w = (if c = NUL then w else puts_loop s (put_text (escape c) w))"

definition jsonw_puts :: "string \<Rightarrow> json_writer \<Rightarrow> json_writer" where
  "jsonw_puts str w = put_text [CHR 0x22] (puts_loop str (put_text [CHR 0x22] w))"

definition jsonw_new :: "bool \<Rightarrow> string \<Rightarrow> json_writer option" where
  "jsonw_new malloc_ok f =
     (if malloc_ok then Some \<lparr>out = f, depth = 0, pretty = False, sep = NUL\<rparr> else None)"

definition jsonw_destroy :: "json_writer \<Rightarrow> string option" where
  "jsonw_destroy w = (if depth w = 0 then Some (out w @ [CHR 0x0A]) else None)"

definition jsonw_pretty :: "json_writer \<Rightarrow> bool \<Rightarrow> json_writer" where
  "jsonw_pretty w on = w\<lparr>pretty := on\<rparr>"

definition jsonw_reset :: "json_writer \<Rightarrow> json_writer option" where
  "jsonw_reset w = (if depth w = 0 then Some (w\<lparr>sep := NUL\<rparr>) else None)"

definition jsonw_begin :: "json_writer \<Rightarrow> char \<Rightarrow> json_writer" where
  "jsonw_begin w c = (let w = put_text [c] (jsonw_eor w) in w\<lparr>depth := depth w + 1, sep := NUL\<rparr>)"

definition jsonw_end :: "json_writer \<Rightarrow> char \<Rightarrow> json_writer option" where
  "jsonw_end w c =
     (if depth w = 0 then None
      else
        let w = w\<lparr>depth := depth w - 1\<rparr>;
            w = (if sep w \<noteq> NUL then jsonw_eol w else w)
        in Some ((put_text [c] w)\<lparr>sep := CHR '',''\<rparr>))"

definition jsonw_name :: "json_writer \<Rightarrow> string \<Rightarrow> json_writer" where
  "jsonw_name w name =
     (let w = (jsonw_eol (jsonw_eor w))\<lparr>sep := NUL\<rparr>;
          w = put_text '':'' (jsonw_puts name w)
      in if pretty w then put_text '' '' w else w)"

definition jsonw_vprintf_enquote :: "json_writer \<Rightarrow> string \<Rightarrow> json_writer" where
  "jsonw_vprintf_enquote w txt = put_text [CHR 0x22] (put_text txt (put_text [CHR 0x22] (jsonw_eor w)))"

definition jsonw_printf :: "json_writer \<Rightarrow> string \<Rightarrow> json_writer" where
  "jsonw_printf w txt = put_text txt (jsonw_eor w)"

definition jsonw_start_object :: "json_writer \<Rightarrow> json_writer" where "jsonw_start_object w = jsonw_begin w (CHR 0x7B)"
definition jsonw_end_object :: "json_writer \<Rightarrow> json_writer option" where "jsonw_end_object w = jsonw_end w (CHR 0x7D)"
definition jsonw_start_array :: "json_writer \<Rightarrow> json_writer" where "jsonw_start_array w = jsonw_begin w (CHR 0x5B)"
definition jsonw_end_array :: "json_writer \<Rightarrow> json_writer option" where "jsonw_end_array w = jsonw_end w (CHR 0x5D)"

definition jsonw_string :: "json_writer \<Rightarrow> string \<Rightarrow> json_writer" where
  "jsonw_string w val = jsonw_puts val (jsonw_eor w)"

definition jsonw_bool :: "json_writer \<Rightarrow> bool \<Rightarrow> json_writer" where
  "jsonw_bool w val = jsonw_printf w (if val then ''true'' else ''false'')"

definition jsonw_null :: "json_writer \<Rightarrow> json_writer" where
  "jsonw_null w = jsonw_printf w ''null''"

definition jsonw_float_fmt :: "json_writer \<Rightarrow> string \<Rightarrow> json_writer" where "jsonw_float_fmt w txt = jsonw_printf w txt"
definition jsonw_hu :: "json_writer \<Rightarrow> u16 \<Rightarrow> json_writer" where "jsonw_hu w num = jsonw_printf w (dec (unat num))"
definition jsonw_uint :: "json_writer \<Rightarrow> u64 \<Rightarrow> json_writer" where "jsonw_uint w num = jsonw_printf w (dec (unat num))"
definition jsonw_lluint :: "json_writer \<Rightarrow> u64 \<Rightarrow> json_writer" where "jsonw_lluint w num = jsonw_printf w (dec (unat num))"
definition jsonw_int :: "json_writer \<Rightarrow> u64 \<Rightarrow> json_writer" where "jsonw_int w num = jsonw_printf w (dec_int (sint num))"

definition jsonw_string_field :: "json_writer \<Rightarrow> string \<Rightarrow> string \<Rightarrow> json_writer" where
  "jsonw_string_field w prop val = jsonw_string (jsonw_name w prop) val"
definition jsonw_bool_field :: "json_writer \<Rightarrow> string \<Rightarrow> bool \<Rightarrow> json_writer" where
  "jsonw_bool_field w prop val = jsonw_bool (jsonw_name w prop) val"
definition jsonw_float_field_fmt :: "json_writer \<Rightarrow> string \<Rightarrow> string \<Rightarrow> json_writer" where
  "jsonw_float_field_fmt w prop txt = jsonw_float_fmt (jsonw_name w prop) txt"
definition jsonw_uint_field :: "json_writer \<Rightarrow> string \<Rightarrow> u64 \<Rightarrow> json_writer" where
  "jsonw_uint_field w prop num = jsonw_uint (jsonw_name w prop) num"
definition jsonw_hu_field :: "json_writer \<Rightarrow> string \<Rightarrow> u16 \<Rightarrow> json_writer" where
  "jsonw_hu_field w prop num = jsonw_hu (jsonw_name w prop) num"
definition jsonw_lluint_field :: "json_writer \<Rightarrow> string \<Rightarrow> u64 \<Rightarrow> json_writer" where
  "jsonw_lluint_field w prop num = jsonw_lluint (jsonw_name w prop) num"
definition jsonw_int_field :: "json_writer \<Rightarrow> string \<Rightarrow> u64 \<Rightarrow> json_writer" where
  "jsonw_int_field w prop num = jsonw_int (jsonw_name w prop) num"
definition jsonw_null_field :: "json_writer \<Rightarrow> string \<Rightarrow> json_writer" where
  "jsonw_null_field w prop = jsonw_null (jsonw_name w prop)"

section \<open>Values and their text\<close>

datatype json =
    JString string
  | JUint u64
  | JInt u64
  | JBool bool
  | JNull
  | JArray "json list"
  | JObject "(string \<times> json) list"

text \<open>The calls a client makes for a value.\<close>

fun emit :: "json \<Rightarrow> json_writer \<Rightarrow> json_writer option"
  and emit_elems :: "json list \<Rightarrow> json_writer \<Rightarrow> json_writer option"
  and emit_fields :: "(string \<times> json) list \<Rightarrow> json_writer \<Rightarrow> json_writer option" where
  "emit (JString s) w = Some (jsonw_string w s)"
| "emit (JUint n) w = Some (jsonw_uint w n)"
| "emit (JInt n) w = Some (jsonw_int w n)"
| "emit (JBool b) w = Some (jsonw_bool w b)"
| "emit JNull w = Some (jsonw_null w)"
| "emit (JArray vs) w = emit_elems vs (jsonw_start_array w) \<bind> jsonw_end_array"
| "emit (JObject fs) w = emit_fields fs (jsonw_start_object w) \<bind> jsonw_end_object"
| "emit_elems [] w = Some w"
| "emit_elems (v # vs) w = emit v w \<bind> emit_elems vs"
| "emit_fields [] w = Some w"
| "emit_fields ((n, v) # fs) w = emit v (jsonw_name w n) \<bind> emit_fields fs"

text \<open>The text of a value at a nesting depth, plain or pretty.\<close>

definition newline :: "bool \<Rightarrow> nat \<Rightarrow> string" where
  "newline p d = (if p then CHR 0x0A # concat (replicate d ''    '') else [])"

definition quoted :: "string \<Rightarrow> string" where
  "quoted s = [CHR 0x22] @ concat (map escape (takeWhile (\<lambda>c. c \<noteq> NUL) s)) @ [CHR 0x22]"

fun join :: "string list \<Rightarrow> string" where
  "join [] = []"
| "join (s # ss) = s @ (if ss = [] then [] else '','' @ join ss)"

fun render :: "bool \<Rightarrow> nat \<Rightarrow> json \<Rightarrow> string" where
  "render p d (JString s) = quoted s"
| "render p d (JUint n) = dec (unat n)"
| "render p d (JInt n) = dec_int (sint n)"
| "render p d (JBool b) = (if b then ''true'' else ''false'')"
| "render p d JNull = ''null''"
| "render p d (JArray vs) = ''['' @ join (map (render p (d + 1)) vs) @ (if vs = [] then [] else newline p d) @ '']''"
| "render p d (JObject fs) =
     [CHR 0x7B] @ join (map (\<lambda>f. newline p (d + 1) @ quoted (fst f) @ '':'' @ (if p then '' '' else []) @ render p (d + 1) (snd f)) fs) @
     (if fs = [] then [] else newline p d) @ [CHR 0x7D]"

fun height :: "json \<Rightarrow> nat" where
  "height (JArray vs) = 1 + foldr (\<lambda>v. max (height v)) vs 0"
| "height (JObject fs) = 1 + foldr (\<lambda>f. max (height (snd f))) fs 0"
| "height _ = 0"

section \<open>The writer prints the text of the value\<close>

definition sep_text :: "json_writer \<Rightarrow> string" where
  "sep_text w = (if sep w = NUL then [] else [sep w])"

named_theorems writer_simps "the writer's calls as updates of its output and separator"

lemma puts_loop_out: "puts_loop s w = put_text (concat (map escape (takeWhile (\<lambda>c. c \<noteq> NUL) s))) w"
  by (induction s arbitrary: w) (auto simp: put_text_def)

lemma jsonw_puts_out [writer_simps]: "jsonw_puts s w = put_text (quoted s) w"
  by (simp add: jsonw_puts_def puts_loop_out quoted_def put_text_def)

lemma jsonw_eor_out [writer_simps]: "jsonw_eor w = w\<lparr>out := out w @ sep_text w, sep := CHR '',''\<rparr>"
  by (simp add: jsonw_eor_def sep_text_def put_text_def)

lemma jsonw_eol_out [writer_simps]: "jsonw_eol w = put_text (newline (pretty w) (unat (depth w))) w"
  by (simp add: jsonw_eol_def newline_def jsonw_indent_def put_text_def)

lemma comma_not_NUL [simp]: "CHR '','' \<noteq> NUL" "(CHR '','' = NUL) = False"
  by (simp_all add: NUL_def)

lemmas [writer_simps] = put_text_def jsonw_printf_def jsonw_string_def jsonw_bool_def jsonw_null_def
  jsonw_uint_def jsonw_int_def

lemma jsonw_name_out:
  "jsonw_name w n = w\<lparr>out := out w @ sep_text w @ newline (pretty w) (unat (depth w)) @ quoted n @ '':'' @
     (if pretty w then '' '' else []), sep := NUL\<rparr>"
  by (simp add: jsonw_name_def Let_def writer_simps)

text \<open>Opening and closing a container around text that leaves the writer \<open>w'\<close>.\<close>

lemma jsonw_begin_out: "jsonw_begin w c = w\<lparr>out := out w @ sep_text w @ [c], depth := depth w + 1, sep := NUL\<rparr>"
  by (simp add: jsonw_begin_def Let_def writer_simps)

lemma jsonw_end_out:
  "depth w \<noteq> 0 \<Longrightarrow> jsonw_end w c = Some (w\<lparr>out := out w @
     (if sep w = NUL then [] else newline (pretty w) (unat (depth w - 1))) @ [c], depth := depth w - 1, sep := CHR '',''\<rparr>)"
  by (simp add: jsonw_end_def Let_def writer_simps)

lemma unat_succ_depth: "unat (d :: u32) + h < 2 ^ 32 \<Longrightarrow> 0 < h \<Longrightarrow> unat (d + 1) = unat d + 1"
  by (subst unat_plus_if') simp

lemma succ_not_zero: "unat (d :: u32) + h < 2 ^ 32 \<Longrightarrow> 0 < h \<Longrightarrow> d + 1 \<noteq> 0"
  using unat_succ_depth [of d h] by auto

definition elems_height :: "json list \<Rightarrow> nat" where
  "elems_height vs = foldr (\<lambda>v. max (height v)) vs 0"

definition fields_height :: "(string \<times> json) list \<Rightarrow> nat" where
  "fields_height fs = foldr (\<lambda>f. max (height (snd f))) fs 0"

definition field_text :: "bool \<Rightarrow> nat \<Rightarrow> string \<times> json \<Rightarrow> string" where
  "field_text p d f = newline p d @ quoted (fst f) @ '':'' @ (if p then '' '' else []) @ render p d (snd f)"

lemma heights [simp]:
  "elems_height (v # vs) = max (height v) (elems_height vs)"
  "fields_height (f # fs) = max (height (snd f)) (fields_height fs)"
  by (simp_all add: elems_height_def fields_height_def)

lemma emit_render:
  "unat (depth w) + height j < 2 ^ 32 \<Longrightarrow>
     emit j w = Some (w\<lparr>out := out w @ sep_text w @ render (pretty w) (unat (depth w)) j, sep := CHR '',''\<rparr>)"
  "unat (depth w) + elems_height vs < 2 ^ 32 \<Longrightarrow>
     emit_elems vs w = Some (if vs = [] then w else w\<lparr>out := out w @ sep_text w @
        join (map (render (pretty w) (unat (depth w))) vs), sep := CHR '',''\<rparr>)"
  "unat (depth w) + fields_height fs < 2 ^ 32 \<Longrightarrow>
     emit_fields fs w = Some (if fs = [] then w else w\<lparr>out := out w @ sep_text w @
        join (map (field_text (pretty w) (unat (depth w))) fs), sep := CHR '',''\<rparr>)"
proof (induction j w and vs w and fs w rule: emit_emit_elems_emit_fields.induct)
  case (6 vs w)
  have h: "unat (depth w) + (1 + elems_height vs) < 2 ^ 32"
    using 6 by (simp add: elems_height_def)
  note u = unat_succ_depth [OF h] and z = succ_not_zero [OF h]
  show ?case
    using 6 h u z
    by (simp add: jsonw_start_array_def jsonw_end_array_def jsonw_begin_out jsonw_end_out sep_text_def)
next
  case (7 fs w)
  have h: "unat (depth w) + (1 + fields_height fs) < 2 ^ 32"
    using 7 by (simp add: fields_height_def)
  note u = unat_succ_depth [OF h] and z = succ_not_zero [OF h]
  show ?case
    using 7 h u z
    by (simp add: jsonw_start_object_def jsonw_end_object_def jsonw_begin_out jsonw_end_out sep_text_def field_text_def [abs_def])
next
  case (9 v vs w)
  then show ?case by (simp add: sep_text_def)
next
  case (11 n v fs w)
  then show ?case by (simp add: sep_text_def jsonw_name_out field_text_def)
qed (simp_all add: writer_simps)


section \<open>Reading the text back\<close>

text \<open>A JSON reader's scan of a string literal after its opening quote.\<close>

definition unescaped :: "char \<Rightarrow> char option" where
  "unescaped c =
     (if c = CHR ''t'' then Some (CHR 0x09)
      else if c = CHR ''n'' then Some (CHR 0x0A)
      else if c = CHR ''r'' then Some (CHR 0x0D)
      else if c = CHR ''f'' then Some (CHR 0x0C)
      else if c = CHR ''b'' then Some (CHR 0x08)
      else if c = CHR 0x5C \<or> c = CHR 0x22 then Some c
      else None)"

fun read_string :: "string \<Rightarrow> (string \<times> string) option" where
  "read_string [] = None"
| "read_string (c # s) =
     (if c = CHR 0x22 then Some ([], s)
      else if c = CHR 0x5C then
        (case s of [] \<Rightarrow> None
         | e # s' \<Rightarrow> unescaped e \<bind> (\<lambda>x. read_string s' \<bind> (\<lambda>(v, rest). Some (x # v, rest))))
      else read_string s \<bind> (\<lambda>(v, rest). Some (c # v, rest)))"

lemma read_escape: "read_string (escape c @ s) = read_string s \<bind> (\<lambda>(v, rest). Some (c # v, rest))"
  by (simp add: escape_def unescaped_def)

lemma read_quoted: "read_string (concat (map escape s) @ CHR 0x22 # rest) = Some (s, rest)"
  by (induction s) (simp_all add: read_escape)

section \<open>Properties\<close>

text \<open>Whatever bytes a caller passes, a string written by the JSON writer is a literal that a reader takes
  back to the C string (up to its first zero byte) and that ends exactly where the writer closed it: no name or
  value can break out of its quotes.\<close>

theorem json_string_roundtrip:
  "\<exists>lit. out (jsonw_string w s) = out w @ sep_text w @ CHR 0x22 # lit \<and>
     read_string (lit @ rest) = Some (takeWhile (\<lambda>c. c \<noteq> NUL) s, rest)"
  by (simp add: writer_simps quoted_def read_quoted)

text \<open>C31. A stream that is created, optionally switched to pretty printing, given one value and destroyed
  contains the text of the value in the reference printing and a newline, whatever the nesting below
  \<open>2\<^sup>3\<^sup>2\<close>; no assertion of the writer fails.\<close>

theorem json_stream_renders:
  assumes "height j < 2 ^ 32"
  shows "jsonw_new True f \<bind> (\<lambda>w. emit j (jsonw_pretty w p) \<bind> jsonw_destroy) =
    Some (f @ render p 0 j @ [CHR 0x0A])"
  using assms by (simp add: jsonw_new_def jsonw_pretty_def emit_render sep_text_def jsonw_destroy_def)

theorem json_stream_renders_witness:
  "jsonw_new True [] \<bind> (\<lambda>w. emit (JObject [(''a'', JArray [JUint 10, JInt (- 1)]), (''b'', JNull)]) (jsonw_pretty w False)
      \<bind> jsonw_destroy) = Some (''{\"a\":[10,-1],\"b\":null}'' @ [CHR 0x0A])"
  using json_stream_renders [of "JObject [(''a'', JArray [JUint 10, JInt (- 1)]), (''b'', JNull)]" "[]" False]
  by (simp add: quoted_def escape_def NUL_def newline_def dec_def dec_int_def digits10.simps char_of_def bit_iff_odd)

end
