(* ===== verification/Zip.thy ===== *)
theory Zip
  imports Prelude
begin

text \<open>
  The zip archive reader of libbpf, \<open>libbpf/src/zip.c\<close>, through which it finds ELF objects inside Android
  packages. The mapped file is a list of bytes and a pointer into it is an offset; a read outside the file is
  \<open>None\<close>, while a null pointer from \<open>check_access\<close> is the value \<open>None\<close> of its own result. The
  multi-byte fields are read in the order \<open>le\<close> of the host, as the packed structures of the source are.
\<close>

section \<open>Records of the file format\<close>

definition END_OF_CD_RECORD_MAGIC :: u32 where "END_OF_CD_RECORD_MAGIC = 0x06054b50"
definition CD_FILE_HEADER_MAGIC :: u32 where "CD_FILE_HEADER_MAGIC = 0x02014b50"
definition LOCAL_FILE_HEADER_MAGIC :: u32 where "LOCAL_FILE_HEADER_MAGIC = 0x04034b50"
definition FLAG_ENCRYPTED :: u16 where "FLAG_ENCRYPTED = 1"
definition FLAG_HAS_DATA_DESCRIPTOR :: u16 where "FLAG_HAS_DATA_DESCRIPTOR = 8"

record end_of_cd_record =
  eo_magic :: u32
  eo_this_disk :: u16
  eo_cd_disk :: u16
  eo_cd_records :: u16
  eo_cd_records_total :: u16
  eo_cd_size :: u32
  eo_cd_offset :: u32
  eo_comment_length :: u16

record cd_file_header =
  cd_magic :: u32
  cd_version :: u16
  cd_min_version :: u16
  cd_flags :: u16
  cd_compression :: u16
  cd_last_modified_time :: u16
  cd_last_modified_date :: u16
  cd_crc :: u32
  cd_compressed_size :: u32
  cd_uncompressed_size :: u32
  cd_file_name_length :: u16
  cd_extra_field_length :: u16
  cd_file_comment_length :: u16
  cd_disk :: u16
  cd_internal_attributes :: u16
  cd_external_attributes :: u32
  cd_lfh_offset :: u32

record local_file_header =
  lf_magic :: u32
  lf_min_version :: u16
  lf_flags :: u16
  lf_compression :: u16
  lf_last_modified_time :: u16
  lf_last_modified_date :: u16
  lf_crc :: u32
  lf_compressed_size :: u32
  lf_uncompressed_size :: u32
  lf_file_name_length :: u16
  lf_extra_field_length :: u16

text \<open>The sizes of the packed structures.\<close>

definition sizeof_eocd :: u32 where "sizeof_eocd = 22"
definition sizeof_cdfh :: u32 where "sizeof_cdfh = 46"
definition sizeof_lfh :: u32 where "sizeof_lfh = 30"

definition load_eocd :: "bool \<Rightarrow> u8 list \<Rightarrow> nat \<Rightarrow> end_of_cd_record option" where
  "load_eocd le b p =
     do { m \<leftarrow> get32 le b p; td \<leftarrow> get16 le b (p + 4); cdd \<leftarrow> get16 le b (p + 6); n \<leftarrow> get16 le b (p + 8);
          nt \<leftarrow> get16 le b (p + 10); s \<leftarrow> get32 le b (p + 12); off \<leftarrow> get32 le b (p + 16);
          c \<leftarrow> get16 le b (p + 20);
          Some \<lparr>eo_magic = m, eo_this_disk = td, eo_cd_disk = cdd, eo_cd_records = n, eo_cd_records_total = nt,
            eo_cd_size = s, eo_cd_offset = off, eo_comment_length = c\<rparr> }"

definition load_cdfh :: "bool \<Rightarrow> u8 list \<Rightarrow> nat \<Rightarrow> cd_file_header option" where
  "load_cdfh le b p =
     do { m \<leftarrow> get32 le b p; v \<leftarrow> get16 le b (p + 4); mv \<leftarrow> get16 le b (p + 6); fl \<leftarrow> get16 le b (p + 8);
          co \<leftarrow> get16 le b (p + 10); lt \<leftarrow> get16 le b (p + 12); ld \<leftarrow> get16 le b (p + 14);
          crc \<leftarrow> get32 le b (p + 16); cs \<leftarrow> get32 le b (p + 20); us \<leftarrow> get32 le b (p + 24);
          fnl \<leftarrow> get16 le b (p + 28); efl \<leftarrow> get16 le b (p + 30); fcl \<leftarrow> get16 le b (p + 32);
          dk \<leftarrow> get16 le b (p + 34); ia \<leftarrow> get16 le b (p + 36); ea \<leftarrow> get32 le b (p + 38);
          off \<leftarrow> get32 le b (p + 42);
          Some \<lparr>cd_magic = m, cd_version = v, cd_min_version = mv, cd_flags = fl, cd_compression = co,
            cd_last_modified_time = lt, cd_last_modified_date = ld, cd_crc = crc, cd_compressed_size = cs,
            cd_uncompressed_size = us, cd_file_name_length = fnl, cd_extra_field_length = efl,
            cd_file_comment_length = fcl, cd_disk = dk, cd_internal_attributes = ia,
            cd_external_attributes = ea, cd_lfh_offset = off\<rparr> }"

definition load_lfh :: "bool \<Rightarrow> u8 list \<Rightarrow> nat \<Rightarrow> local_file_header option" where
  "load_lfh le b p =
     do { m \<leftarrow> get32 le b p; mv \<leftarrow> get16 le b (p + 4); fl \<leftarrow> get16 le b (p + 6); co \<leftarrow> get16 le b (p + 8);
          lt \<leftarrow> get16 le b (p + 10); ld \<leftarrow> get16 le b (p + 12); crc \<leftarrow> get32 le b (p + 14);
          cs \<leftarrow> get32 le b (p + 18); us \<leftarrow> get32 le b (p + 22); fnl \<leftarrow> get16 le b (p + 26);
          efl \<leftarrow> get16 le b (p + 28);
          Some \<lparr>lf_magic = m, lf_min_version = mv, lf_flags = fl, lf_compression = co,
            lf_last_modified_time = lt, lf_last_modified_date = ld, lf_crc = crc, lf_compressed_size = cs,
            lf_uncompressed_size = us, lf_file_name_length = fnl, lf_extra_field_length = efl\<rparr> }"

section \<open>The archive\<close>

record zip_archive =
  za_data :: "u8 list"
  za_size :: u32
  za_cd_offset :: u32
  za_cd_records :: u32

record zip_entry =
  ze_compression :: u16
  ze_name :: u32
  ze_name_length :: u16
  ze_data :: u32
  ze_data_length :: u32
  ze_data_offset :: u32

definition check_access :: "zip_archive \<Rightarrow> u32 \<Rightarrow> u32 \<Rightarrow> u32 option" where
  "check_access a offset sz =
     (if za_size a < offset + sz \<or> offset + sz < offset then None else Some offset)"

definition try_parse_end_of_cd :: "bool \<Rightarrow> zip_archive \<Rightarrow> u32 \<Rightarrow> (int \<times> zip_archive) option" where
  "try_parse_end_of_cd le a offset =
     (case check_access a offset sizeof_eocd of
        None \<Rightarrow> Some (- EINVAL, a)
      | Some p \<Rightarrow>
          do { eocd \<leftarrow> load_eocd le (za_data a) (unat p);
               Some (if eo_magic eocd \<noteq> END_OF_CD_RECORD_MAGIC then (- EINVAL, a)
                     else if unat offset + unat sizeof_eocd + unat (eo_comment_length eocd) \<noteq> unat (za_size a)
                       then (- EINVAL, a)
                     else if eo_this_disk eocd \<noteq> 0 \<or> eo_cd_disk eocd \<noteq> 0 \<or>
                             eo_cd_records_total eocd \<noteq> eo_cd_records eocd
                       then (- ENOTSUP, a)
                     else if check_access a (eo_cd_offset eocd) (eo_cd_size eocd) = None then (- EINVAL, a)
                     else (0, a\<lparr>za_cd_offset := eo_cd_offset eocd, za_cd_records := ucast (eo_cd_records eocd)\<rparr>)) })"

text \<open>The scan of the end of the file; \<open>offset\<close> and \<open>limit\<close> are the signed 64-bit variables.\<close>

function find_cd_loop :: "bool \<Rightarrow> zip_archive \<Rightarrow> int \<Rightarrow> int \<Rightarrow> int \<Rightarrow> (int \<times> zip_archive) option" where
  "find_cd_loop le a offset limit rc =
     (if 0 \<le> offset \<and> limit < offset \<and> rc \<noteq> 0 then
        do { (rc', a') \<leftarrow> try_parse_end_of_cd le a (word_of_int offset);
             if rc' = - ENOTSUP then Some (rc', a') else find_cd_loop le a' (offset - 1) limit rc' }
      else Some (rc, a))"
  by pat_completeness auto
termination
  by (relation "measure (\<lambda>(le, a, offset, limit, rc). nat (offset + 1))") auto

declare find_cd_loop.simps [simp del]

definition find_cd :: "bool \<Rightarrow> zip_archive \<Rightarrow> (int \<times> zip_archive) option" where
  "find_cd le a =
     (if za_size a \<le> sizeof_eocd then Some (- EINVAL, a)
      else
        let offset = int (unat (za_size a)) - int (unat sizeof_eocd)
        in find_cd_loop le a offset (offset - 2 ^ 16) (- EINVAL))"

text \<open>
  Opening a file. The kernel and the C library are a parameter: \<open>open\<close> gives a descriptor or an error number,
  \<open>lseek\<close> the size, \<open>mmap\<close> the bytes or an error number, and \<open>malloc_ok\<close> whether the allocation
  succeeds, in which case the fields that the code does not set at once hold \<open>garbage\<close>. The
  resources held are the open descriptors, the number of mapped files and the number of allocated archives.
\<close>

record zip_os =
  os_open :: "string \<Rightarrow> int + int"
  os_lseek_end :: "int \<Rightarrow> int"
  os_mmap :: "int \<Rightarrow> int \<Rightarrow> int + u8 list"
  os_malloc_ok :: bool
  os_garbage :: "u32 \<times> u32"

record zip_resources =
  zr_fds :: "int list"
  zr_maps :: nat
  zr_allocs :: nat

definition zip_archive_open ::
  "bool \<Rightarrow> zip_os \<Rightarrow> string \<Rightarrow> zip_resources \<Rightarrow> ((int + zip_archive) \<times> zip_resources) option" where
  "zip_archive_open le os path r =
     (case os_open os path of
        Inl e \<Rightarrow> Some (Inl (- e), r)
      | Inr fd \<Rightarrow>
          let r = r\<lparr>zr_fds := fd # zr_fds r\<rparr>;
              sz = os_lseek_end os fd
          in if sz = - 1 \<or> 2 ^ 32 - 1 < sz then Some (Inl (- EINVAL), r\<lparr>zr_fds := remove1 fd (zr_fds r)\<rparr>)
             else
               (case os_mmap os fd sz of
                  Inl e \<Rightarrow> Some (Inl (- e), r\<lparr>zr_fds := remove1 fd (zr_fds r)\<rparr>)
                | Inr d \<Rightarrow>
                    let r = r\<lparr>zr_fds := remove1 fd (zr_fds r), zr_maps := zr_maps r + 1\<rparr>
                    in if \<not> os_malloc_ok os then Some (Inl (- ENOMEM), r\<lparr>zr_maps := zr_maps r - 1\<rparr>)
                       else
                         let r = r\<lparr>zr_allocs := zr_allocs r + 1\<rparr>;
                             a = \<lparr>za_data = d, za_size = word_of_int sz, za_cd_offset = fst (os_garbage os),
                                  za_cd_records = snd (os_garbage os)\<rparr>
                         in do { (err, a) \<leftarrow> find_cd le a;
                                 Some (if err \<noteq> 0
                                       then (Inl err, r\<lparr>zr_maps := zr_maps r - 1, zr_allocs := zr_allocs r - 1\<rparr>)
                                       else (Inr a, r)) }))"

definition zip_archive_close :: "zip_archive \<Rightarrow> zip_resources \<Rightarrow> zip_resources" where
  "zip_archive_close a r = r\<lparr>zr_maps := zr_maps r - 1, zr_allocs := zr_allocs r - 1\<rparr>"

definition local_file_header_at_offset :: "bool \<Rightarrow> zip_archive \<Rightarrow> u32 \<Rightarrow> local_file_header option option" where
  "local_file_header_at_offset le a offset =
     (case check_access a offset sizeof_lfh of
        None \<Rightarrow> Some None
      | Some p \<Rightarrow>
          do { lfh \<leftarrow> load_lfh le (za_data a) (unat p);
               Some (if lf_magic lfh \<noteq> LOCAL_FILE_HEADER_MAGIC then None else Some lfh) })"

definition get_entry_at_offset :: "bool \<Rightarrow> zip_archive \<Rightarrow> u32 \<Rightarrow> (int + zip_entry) option" where
  "get_entry_at_offset le a offset =
     do { l \<leftarrow> local_file_header_at_offset le a offset;
          Some (case l of
                  None \<Rightarrow> Inl (- EINVAL)
                | Some lfh \<Rightarrow>
                    let offset = offset + sizeof_lfh
                    in if lf_flags lfh AND FLAG_ENCRYPTED \<noteq> 0 \<or> lf_flags lfh AND FLAG_HAS_DATA_DESCRIPTOR \<noteq> 0
                       then Inl (- EINVAL)
                       else
                         (case check_access a offset (ucast (lf_file_name_length lfh)) of
                            None \<Rightarrow> Inl (- EINVAL)
                          | Some name \<Rightarrow>
                              let offset = offset + ucast (lf_file_name_length lfh)
                              in if check_access a offset (ucast (lf_extra_field_length lfh)) = None then Inl (- EINVAL)
                                 else
                                   let offset = offset + ucast (lf_extra_field_length lfh)
                                   in (case check_access a offset (lf_compressed_size lfh) of
                                         None \<Rightarrow> Inl (- EINVAL)
                                       | Some d \<Rightarrow>
                                           Inr \<lparr>ze_compression = lf_compression lfh, ze_name = name,
                                             ze_name_length = lf_file_name_length lfh, ze_data = d,
                                             ze_data_length = lf_compressed_size lfh,
                                             ze_data_offset = offset\<rparr>))) }"

text \<open>\<open>memcmp\<close> of a name with bytes of the archive; \<open>None\<close> when the range is not mapped.\<close>

definition name_at :: "u8 list \<Rightarrow> nat \<Rightarrow> u8 list \<Rightarrow> bool option" where
  "name_at b p name = (if p + length name \<le> length b then Some (take (length name) (drop p b) = name) else None)"

primrec find_entry_loop :: "nat \<Rightarrow> bool \<Rightarrow> zip_archive \<Rightarrow> u8 list \<Rightarrow> u32 \<Rightarrow> (int + zip_entry) option" where
  "find_entry_loop 0 le a file_name offset = Some (Inl (- ENOENT))"
| "find_entry_loop (Suc n) le a file_name offset =
     (case check_access a offset sizeof_cdfh of
        None \<Rightarrow> Some (Inl (- EINVAL))
      | Some p \<Rightarrow>
          do { cdfh \<leftarrow> load_cdfh le (za_data a) (unat p);
               if cd_magic cdfh \<noteq> CD_FILE_HEADER_MAGIC then Some (Inl (- EINVAL))
               else
                 let offset = offset + sizeof_cdfh;
                     len = cd_file_name_length cdfh
                 in if check_access a offset (ucast len) = None then Some (Inl (- EINVAL))
                    else
                      do { same \<leftarrow> (if cd_flags cdfh AND FLAG_ENCRYPTED = 0 \<and>
                                       cd_flags cdfh AND FLAG_HAS_DATA_DESCRIPTOR = 0 \<and>
                                       length file_name = unat len
                                    then name_at (za_data a) (unat offset) file_name else Some False);
                           if same then get_entry_at_offset le a (cd_lfh_offset cdfh)
                           else find_entry_loop n le a file_name
                                  (offset + ucast len + ucast (cd_extra_field_length cdfh) +
                                   ucast (cd_file_comment_length cdfh)) } })"

text \<open>\<open>file_name\<close> is the C string without its terminating zero byte.\<close>

definition zip_archive_find_entry :: "bool \<Rightarrow> zip_archive \<Rightarrow> u8 list \<Rightarrow> (int + zip_entry) option" where
  "zip_archive_find_entry le a file_name =
     find_entry_loop (unat (za_cd_records a)) le a file_name (za_cd_offset a)"

section \<open>Reads stay inside the archive\<close>

definition zip_mapped :: "zip_archive \<Rightarrow> bool" where
  "zip_mapped a \<longleftrightarrow> length (za_data a) = unat (za_size a)"

definition entry_inside :: "zip_archive \<Rightarrow> zip_entry \<Rightarrow> bool" where
  "entry_inside a e \<longleftrightarrow>
     unat (ze_name e) + unat (ze_name_length e) \<le> length (za_data a) \<and>
     unat (ze_data e) + unat (ze_data_length e) \<le> length (za_data a) \<and>
     ze_data_offset e = ze_data e"

lemma check_access_iff:
  "check_access a off sz = (if unat off + unat sz \<le> unat (za_size a) then Some off else None)"
proof -
  have "unat (za_size a) < 2 ^ 32" using unat_u32_less by simp
  then have "(za_size a < off + sz \<or> off + sz < off) = (\<not> unat off + unat sz \<le> unat (za_size a))"
    using unat_u32_less [of off] unat_u32_less [of sz]
    by (auto simp: word_less_nat_alt unat_plus_if' split: if_splits)
  then show ?thesis by (simp add: check_access_def)
qed

lemma loads_inside:
  "p + 22 \<le> length b \<Longrightarrow> \<exists>e. load_eocd le b p = Some e"
  "p + 46 \<le> length b \<Longrightarrow> \<exists>c. load_cdfh le b p = Some c"
  "p + 30 \<le> length b \<Longrightarrow> \<exists>l. load_lfh le b p = Some l"
  by (simp_all add: load_eocd_def load_cdfh_def load_lfh_def get16_def get32_def bind_eq_Some_conv)

lemmas sizeof_defs = sizeof_eocd_def sizeof_cdfh_def sizeof_lfh_def

lemma try_parse_defined:
  assumes "zip_mapped a"
  shows "\<exists>rc a'. try_parse_end_of_cd le a off = Some (rc, a') \<and> za_data a' = za_data a \<and> zip_mapped a'"
proof (cases "unat off + 22 \<le> unat (za_size a)")
  case True
  then obtain e where "load_eocd le (za_data a) (unat off) = Some e"
    using loads_inside(1) assms by (metis zip_mapped_def)
  with True assms show ?thesis
    by (auto simp: try_parse_end_of_cd_def check_access_iff sizeof_defs zip_mapped_def)
qed (use assms in \<open>simp add: try_parse_end_of_cd_def check_access_iff sizeof_defs\<close>)

lemma find_cd_loop_defined:
  "zip_mapped a \<Longrightarrow> \<exists>rc' a'. find_cd_loop le a off lim rc = Some (rc', a') \<and> zip_mapped a' \<and> za_data a' = za_data a"
proof (induction le a off lim rc rule: find_cd_loop.induct)
  case (1 le a off lim rc)
  obtain r1 a1 where t: "try_parse_end_of_cd le a (word_of_int off) = Some (r1, a1)"
    "za_data a1 = za_data a" "zip_mapped a1"
    using try_parse_defined [OF "1.prems"] by blast
  show ?case
  proof (cases "0 \<le> off \<and> lim < off \<and> rc \<noteq> 0 \<and> r1 \<noteq> - ENOTSUP")
    case True
    then show ?thesis using "1.IH" [OF _ t(1) refl _ t(3)] t by (subst find_cd_loop.simps) simp
  next
    case False
    then show ?thesis using t "1.prems" by (subst find_cd_loop.simps) auto
  qed
qed

lemma find_cd_defined:
  "zip_mapped a \<Longrightarrow> \<exists>rc a'. find_cd le a = Some (rc, a') \<and> zip_mapped a' \<and> za_data a' = za_data a"
  by (simp add: find_cd_def Let_def find_cd_loop_defined)

lemma get_entry_inside:
  assumes "zip_mapped a"
  shows "\<exists>r. get_entry_at_offset le a off = Some r \<and> (\<forall>e. r = Inr e \<longrightarrow> entry_inside a e)"
proof (cases "unat off + 30 \<le> unat (za_size a)")
  case True
  then obtain l where "load_lfh le (za_data a) (unat off) = Some l"
    using loads_inside(3) assms by (metis zip_mapped_def)
  with True assms show ?thesis
    by (auto simp: get_entry_at_offset_def local_file_header_at_offset_def check_access_iff sizeof_defs
        zip_mapped_def Let_def entry_inside_def)
qed (simp add: get_entry_at_offset_def local_file_header_at_offset_def check_access_iff sizeof_defs)

lemma find_entry_loop_inside:
  assumes "zip_mapped a"
  shows "\<exists>r. find_entry_loop n le a nm off = Some r \<and> (\<forall>e. r = Inr e \<longrightarrow> entry_inside a e)"
proof (induction n arbitrary: off)
  case (Suc n)
  show ?case
  proof (cases "unat off + 46 \<le> unat (za_size a)")
    case True
    then obtain c where c: "load_cdfh le (za_data a) (unat off) = Some c"
      using loads_inside(2) assms by (metis zip_mapped_def)
    show ?thesis
    proof (cases "cd_magic c = CD_FILE_HEADER_MAGIC \<and>
        unat (off + 46) + unat (cd_file_name_length c) \<le> unat (za_size a)")
      case False
      with True c show ?thesis by (auto simp: check_access_iff sizeof_defs Let_def)
    next
      case in_range: True
      define same where "same = (if cd_flags c AND FLAG_ENCRYPTED = 0 \<and> cd_flags c AND FLAG_HAS_DATA_DESCRIPTOR = 0 \<and>
        length nm = unat (cd_file_name_length c) then name_at (za_data a) (unat (off + 46)) nm else Some False)"
      have "\<exists>b. same = Some b"
        using in_range assms by (auto simp: same_def name_at_def zip_mapped_def)
      then obtain b where "same = Some b" ..
      then show ?thesis
        using True c in_range Suc get_entry_inside [OF assms]
        by (simp add: check_access_iff sizeof_defs Let_def flip: same_def)
    qed
  qed (simp add: check_access_iff sizeof_defs)
qed simp

section \<open>Writing archives\<close>

text \<open>The reference encoder: stored members, local headers first, then the central directory and its end record.\<close>

definition enc_eocd :: "bool \<Rightarrow> end_of_cd_record \<Rightarrow> u8 list" where
  "enc_eocd le r = bytes32 le (eo_magic r) @ bytes16 le (eo_this_disk r) @ bytes16 le (eo_cd_disk r) @
     bytes16 le (eo_cd_records r) @ bytes16 le (eo_cd_records_total r) @ bytes32 le (eo_cd_size r) @
     bytes32 le (eo_cd_offset r) @ bytes16 le (eo_comment_length r)"

definition enc_cdfh :: "bool \<Rightarrow> cd_file_header \<Rightarrow> u8 list" where
  "enc_cdfh le r = bytes32 le (cd_magic r) @ bytes16 le (cd_version r) @ bytes16 le (cd_min_version r) @
     bytes16 le (cd_flags r) @ bytes16 le (cd_compression r) @ bytes16 le (cd_last_modified_time r) @
     bytes16 le (cd_last_modified_date r) @ bytes32 le (cd_crc r) @ bytes32 le (cd_compressed_size r) @
     bytes32 le (cd_uncompressed_size r) @ bytes16 le (cd_file_name_length r) @
     bytes16 le (cd_extra_field_length r) @ bytes16 le (cd_file_comment_length r) @ bytes16 le (cd_disk r) @
     bytes16 le (cd_internal_attributes r) @ bytes32 le (cd_external_attributes r) @ bytes32 le (cd_lfh_offset r)"

definition enc_lfh :: "bool \<Rightarrow> local_file_header \<Rightarrow> u8 list" where
  "enc_lfh le r = bytes32 le (lf_magic r) @ bytes16 le (lf_min_version r) @ bytes16 le (lf_flags r) @
     bytes16 le (lf_compression r) @ bytes16 le (lf_last_modified_time r) @ bytes16 le (lf_last_modified_date r) @
     bytes32 le (lf_crc r) @ bytes32 le (lf_compressed_size r) @ bytes32 le (lf_uncompressed_size r) @
     bytes16 le (lf_file_name_length r) @ bytes16 le (lf_extra_field_length r)"

lemma length_enc [simp]: "length (enc_eocd le r) = 22" "length (enc_cdfh le c) = 46" "length (enc_lfh le l) = 30"
  by (simp_all add: enc_eocd_def enc_cdfh_def enc_lfh_def)

text \<open>A field read at an offset past whole fields.\<close>

lemma get_skip:
  "get16 le (bytes16 le a @ Z) (Suc (Suc k)) = get16 le Z k"
  "get32 le (bytes16 le a @ Z) (Suc (Suc k)) = get32 le Z k"
  "get16 le (bytes32 le v @ Z) (Suc (Suc (Suc (Suc k)))) = get16 le Z k"
  "get32 le (bytes32 le v @ Z) (Suc (Suc (Suc (Suc k)))) = get32 le Z k"
  by (simp_all add: get16_def get32_def bytes16_def bytes32_def numeral_2_eq_2 numeral_3_eq_3)

lemma get_at:
  "get16 le (X @ Z) (length X + k) = get16 le Z k" "get32 le (X @ Z) (length X + k) = get32 le Z k"
  "get32 le (X @ Z) (length X) = get32 le Z 0"
  by (simp_all add: get16_def get32_def nth_append add.assoc numeral_2_eq_2 numeral_3_eq_3)

lemma get_here: "get16 le (bytes16 le a @ Z) 0 = Some a" "get32 le (bytes32 le v @ Z) 0 = Some v"
  using get16_append [of le "[]" a Z] get32_append [of le "[]" v Z] by simp_all

lemma get_here_end: "get16 le (bytes16 le a) 0 = Some a" "get32 le (bytes32 le v) 0 = Some v"
  using get_here [of le _ "[]"] by simp_all

lemma load_enc_eocd: "load_eocd le (X @ enc_eocd le r) (length X) = Some r"
  unfolding load_eocd_def get_at by (simp add: eval_nat_numeral enc_eocd_def get_skip get_here get_here_end)

lemma load_enc_cdfh: "load_cdfh le (X @ enc_cdfh le r @ Y) (length X) = Some r"
  unfolding load_cdfh_def get_at by (simp add: eval_nat_numeral enc_cdfh_def get_skip get_here)

lemma load_enc_lfh: "load_lfh le (X @ enc_lfh le r @ Y) (length X) = Some r"
  unfolding load_lfh_def get_at by (simp add: eval_nat_numeral enc_lfh_def get_skip get_here)

record zip_member =
  zm_name :: "u8 list"
  zm_extra :: "u8 list"
  zm_cd_extra :: "u8 list"
  zm_comment :: "u8 list"
  zm_data :: "u8 list"
  zm_compression :: u16
  zm_crc :: u32
  zm_uncompressed_size :: u32

definition local_of :: "zip_member \<Rightarrow> local_file_header" where
  "local_of m = \<lparr>lf_magic = LOCAL_FILE_HEADER_MAGIC, lf_min_version = 20, lf_flags = 0,
     lf_compression = zm_compression m, lf_last_modified_time = 0, lf_last_modified_date = 0, lf_crc = zm_crc m,
     lf_compressed_size = of_nat (length (zm_data m)), lf_uncompressed_size = zm_uncompressed_size m,
     lf_file_name_length = of_nat (length (zm_name m)), lf_extra_field_length = of_nat (length (zm_extra m))\<rparr>"

definition central_of :: "nat \<Rightarrow> zip_member \<Rightarrow> cd_file_header" where
  "central_of off m = \<lparr>cd_magic = CD_FILE_HEADER_MAGIC, cd_version = 20, cd_min_version = 20, cd_flags = 0,
     cd_compression = zm_compression m, cd_last_modified_time = 0, cd_last_modified_date = 0, cd_crc = zm_crc m,
     cd_compressed_size = of_nat (length (zm_data m)), cd_uncompressed_size = zm_uncompressed_size m,
     cd_file_name_length = of_nat (length (zm_name m)), cd_extra_field_length = of_nat (length (zm_cd_extra m)),
     cd_file_comment_length = of_nat (length (zm_comment m)), cd_disk = 0, cd_internal_attributes = 0,
     cd_external_attributes = 0, cd_lfh_offset = of_nat off\<rparr>"

definition enc_local :: "bool \<Rightarrow> zip_member \<Rightarrow> u8 list" where
  "enc_local le m = enc_lfh le (local_of m) @ zm_name m @ zm_extra m @ zm_data m"

definition enc_locals :: "bool \<Rightarrow> zip_member list \<Rightarrow> u8 list" where
  "enc_locals le ms = concat (map (enc_local le) ms)"

fun enc_centrals :: "bool \<Rightarrow> nat \<Rightarrow> zip_member list \<Rightarrow> u8 list" where
  "enc_centrals le off [] = []"
| "enc_centrals le off (m # ms) =
     enc_cdfh le (central_of off m) @ zm_name m @ zm_cd_extra m @ zm_comment m @
     enc_centrals le (off + length (enc_local le m)) ms"

definition end_of :: "nat \<Rightarrow> nat \<Rightarrow> nat \<Rightarrow> end_of_cd_record" where
  "end_of n off len = \<lparr>eo_magic = END_OF_CD_RECORD_MAGIC, eo_this_disk = 0, eo_cd_disk = 0, eo_cd_records = of_nat n,
     eo_cd_records_total = of_nat n, eo_cd_size = of_nat len, eo_cd_offset = of_nat off, eo_comment_length = 0\<rparr>"

definition zip_of :: "bool \<Rightarrow> zip_member list \<Rightarrow> u8 list" where
  "zip_of le ms =
     enc_locals le ms @ enc_centrals le 0 ms @
     enc_eocd le (end_of (length ms) (length (enc_locals le ms)) (length (enc_centrals le 0 ms)))"

definition member_ok :: "zip_member \<Rightarrow> bool" where
  "member_ok m \<longleftrightarrow> length (zm_name m) < 2 ^ 16 \<and> length (zm_extra m) < 2 ^ 16 \<and>
     length (zm_cd_extra m) < 2 ^ 16 \<and> length (zm_comment m) < 2 ^ 16"

definition zip_ok :: "bool \<Rightarrow> zip_member list \<Rightarrow> bool" where
  "zip_ok le ms \<longleftrightarrow> ms \<noteq> [] \<and> length ms < 2 ^ 16 \<and> list_all member_ok ms \<and> length (zip_of le ms) < 2 ^ 32"

lemma unat_of_nat_pow:
  "n < 2 ^ 16 \<Longrightarrow> unat (of_nat n :: u16) = n" "n < 2 ^ 32 \<Longrightarrow> unat (of_nat n :: u32) = n"
  by (simp_all add: unat_of_nat_u16 unat_of_nat_u32)

lemma ucast_of_nat_u16_u32: "n < 2 ^ 16 \<Longrightarrow> ucast (of_nat n :: u16) = (of_nat n :: u32)"
  by (rule word_unat_eq_iff [THEN iffD2]) (simp add: unat_of_nat_u16 unat_of_nat_u32)

text \<open>The archive as opened on an encoded file.\<close>

definition archive_of :: "u8 list \<Rightarrow> u32 \<Rightarrow> u32 \<Rightarrow> zip_archive" where
  "archive_of b off n = \<lparr>za_data = b, za_size = of_nat (length b), za_cd_offset = off, za_cd_records = n\<rparr>"

lemma check_access_of_nat:
  assumes "length b < 2 ^ 32" "off + n \<le> length b"
  shows "check_access (archive_of b x y) (of_nat off) (of_nat n) = Some (of_nat off)"
proof -
  have "off < 2 ^ 32" "n < 2 ^ 32" using assms by linarith+
  with assms show ?thesis by (simp add: check_access_iff archive_of_def unat_of_nat_u32)
qed

lemma get_entry_encoded:
  assumes b: "b = X @ enc_local le m @ Y" and len: "length b < 2 ^ 32" and ok: "member_ok m"
  shows "\<exists>e. get_entry_at_offset le (archive_of b x y) (of_nat (length X)) = Some (Inr e) \<and>
    take (unat (ze_data_length e)) (drop (unat (ze_data e)) b) = zm_data m \<and>
    take (unat (ze_name_length e)) (drop (unat (ze_name e)) b) = zm_name m \<and>
    ze_compression e = zm_compression m"
proof -
  define l where "l = length X"
  have l: "length b = l + (30 + (length (zm_name m) + (length (zm_extra m) + (length (zm_data m) + length Y))))"
    by (simp add: b l_def enc_local_def)
  have hdr: "load_lfh le b l = Some (local_of m)"
    using load_enc_lfh [of le X "local_of m" "zm_name m @ zm_extra m @ zm_data m @ Y"] by (simp add: b enc_local_def l_def)
  have small: "l < 2 ^ 32" "length (zm_data m) < 2 ^ 32" "l + 30 < 2 ^ 32" "l + 30 + length (zm_name m) < 2 ^ 32"
    "l + 30 + length (zm_name m) + length (zm_extra m) < 2 ^ 32" using len l by linarith+
  let ?A = "archive_of b x y" and ?n = "length (zm_name m)" and ?e = "length (zm_extra m)" and ?d = "length (zm_data m)"
  note acc = check_access_of_nat [OF len, of _ _ x y]
  have a0: "check_access ?A (of_nat l) sizeof_lfh = Some (of_nat l)"
    using acc [of l 30] l by (simp add: sizeof_lfh_def)
  have a1: "check_access ?A (of_nat l + sizeof_lfh) (of_nat ?n) = Some (of_nat (l + 30))"
    using acc [of "l + 30" ?n] l by (simp add: sizeof_lfh_def)
  have a2: "check_access ?A (of_nat l + sizeof_lfh + of_nat ?n) (of_nat ?e) = Some (of_nat (l + 30 + ?n))"
    using acc [of "l + 30 + ?n" ?e] l by (simp add: sizeof_lfh_def)
  have a3: "check_access ?A (of_nat l + sizeof_lfh + of_nat ?n + of_nat ?e) (of_nat ?d) = Some (of_nat (l + 30 + ?n + ?e))"
    using acc [of "l + 30 + ?n + ?e" ?d] l by (simp add: sizeof_lfh_def)
  have dat: "za_data ?A = b" by (simp add: archive_of_def)
  have uc: "ucast (of_nat ?n :: u16) = (of_nat ?n :: u32)" "ucast (of_nat ?e :: u16) = (of_nat ?e :: u32)"
    using ok by (simp_all add: member_ok_def ucast_of_nat_u16_u32)
  have entry: "get_entry_at_offset le ?A (of_nat l) = Some (Inr \<lparr>ze_compression = zm_compression m,
      ze_name = of_nat (l + 30), ze_name_length = of_nat ?n, ze_data = of_nat (l + 30 + ?n + ?e),
      ze_data_length = of_nat ?d, ze_data_offset = of_nat l + sizeof_lfh + of_nat ?n + of_nat ?e\<rparr>)"
    unfolding get_entry_at_offset_def local_file_header_at_offset_def a0 dat
    using hdr small by (simp add: unat_of_nat_u32 local_of_def a1 a2 a3 uc Let_def)
  have "take ?d (drop (l + 30 + ?n + ?e) b) = zm_data m" "take ?n (drop (l + 30) b) = zm_name m"
    by (simp_all add: b l_def enc_local_def)
  then show ?thesis using small ok unfolding l_def [symmetric] entry
    by (simp add: unat_of_nat_u32 unat_of_nat_u16 member_ok_def del: of_nat_add)
qed

text \<open>Walking the central directory from the header of the first remaining member.\<close>

definition found :: "u8 list \<Rightarrow> zip_member option \<Rightarrow> (int + zip_entry) option \<Rightarrow> bool" where
  "found b mo r =
     (case mo of
        None \<Rightarrow> r = Some (Inl (- ENOENT))
      | Some m \<Rightarrow>
          (case r of
             Some (Inr e) \<Rightarrow>
               take (unat (ze_data_length e)) (drop (unat (ze_data e)) b) = zm_data m \<and>
               take (unat (ze_name_length e)) (drop (unat (ze_name e)) b) = zm_name m \<and>
               ze_compression e = zm_compression m
           | _ \<Rightarrow> False))"

lemma enc_locals_simps [simp]:
  "enc_locals le [] = []" "enc_locals le (m # ms) = enc_local le m @ enc_locals le ms"
  "enc_locals le (ms @ ms') = enc_locals le ms @ enc_locals le ms'"
  by (simp_all add: enc_locals_def)

lemma find_entry_step:
  assumes b: "b = L @ (C @ enc_cdfh le (central_of off m) @ zm_name m @ zm_cd_extra m @ zm_comment m @ R)"
    and len: "length b < 2 ^ 32" and ok: "member_ok m"
  shows "find_entry_loop (Suc n) le (archive_of b x y) nm (of_nat (length L + length C)) =
    (if nm = zm_name m then get_entry_at_offset le (archive_of b x y) (of_nat off)
     else find_entry_loop n le (archive_of b x y) nm
       (of_nat (length L + length (C @ enc_cdfh le (central_of off m) @ zm_name m @ zm_cd_extra m @ zm_comment m))))"
proof -
  define l where "l = length L + length C"
  let ?A = "archive_of b x y" and ?n = "length (zm_name m)" and ?e = "length (zm_cd_extra m)" and ?c = "length (zm_comment m)"
  have l: "length b = l + (46 + (?n + (?e + (?c + length R))))" by (simp add: b l_def)
  have hdr: "load_cdfh le b l = Some (central_of off m)"
    using load_enc_cdfh [of le "L @ C" "central_of off m" "zm_name m @ zm_cd_extra m @ zm_comment m @ R"]
    by (simp add: b l_def)
  have small: "l < 2 ^ 32" "l + 46 < 2 ^ 32" using len l by linarith+
  have a0: "check_access ?A (of_nat l) sizeof_cdfh = Some (of_nat l)"
    using check_access_of_nat [OF len, of l 46] l by (simp add: sizeof_cdfh_def)
  have a1: "check_access ?A (of_nat l + sizeof_cdfh) (of_nat ?n) = Some (of_nat (l + 46))"
    using check_access_of_nat [OF len, of "l + 46" ?n] l by (simp add: sizeof_cdfh_def)
  have dat: "za_data ?A = b" by (simp add: archive_of_def)
  have uc: "ucast (of_nat ?n :: u16) = (of_nat ?n :: u32)" "ucast (of_nat ?e :: u16) = (of_nat ?e :: u32)"
     "ucast (of_nat ?c :: u16) = (of_nat ?c :: u32)" "unat (of_nat ?n :: u16) = ?n"
    using ok by (simp_all add: member_ok_def ucast_of_nat_u16_u32 unat_of_nat_u16)
  have u46: "unat (of_nat l + sizeof_cdfh :: u32) = l + 46"
    using unat_of_nat_pow(2) [OF small(2)] by (simp add: sizeof_cdfh_def)
  have name: "name_at b (l + 46) nm = Some (nm = zm_name m)" if "length nm = ?n"
    using that by (auto simp: name_at_def b l_def)
  have flds: "cd_magic (central_of off m) = CD_FILE_HEADER_MAGIC" "cd_flags (central_of off m) = 0"
     "cd_file_name_length (central_of off m) = of_nat ?n" "cd_extra_field_length (central_of off m) = of_nat ?e"
     "cd_file_comment_length (central_of off m) = of_nat ?c" "cd_lfh_offset (central_of off m) = of_nat off"
    by (simp_all add: central_of_def)
  have nxt: "of_nat l + sizeof_cdfh + of_nat ?n + of_nat ?e + of_nat ?c =
      (of_nat (length L + length (C @ enc_cdfh le (central_of off m) @ zm_name m @ zm_cd_extra m @ zm_comment m)) :: u32)"
    by (simp add: l_def sizeof_cdfh_def)
  show ?thesis
    unfolding l_def [symmetric] nxt [symmetric] find_entry_loop.simps a0 dat
    using hdr unat_of_nat_pow(2) [OF small(1)] name
    by (cases "length nm = ?n"; cases "nm = zm_name m") (simp_all add: flds a1 uc u46 Let_def)
qed

lemma find_entry_encoded:
  "b = enc_locals le (ds @ ms) @ C @ enc_centrals le (length (enc_locals le ds)) ms @ E \<Longrightarrow> length b < 2 ^ 32 \<Longrightarrow>
   list_all member_ok ms \<Longrightarrow>
   found b (List.find (\<lambda>m. zm_name m = nm) ms)
     (find_entry_loop (length ms) le (archive_of b x y) nm (of_nat (length (enc_locals le (ds @ ms)) + length C)))"
proof (induction ms arbitrary: ds C)
  case Nil
  then show ?case by (simp add: found_def)
next
  case (Cons m ms)
  let ?H = "enc_cdfh le (central_of (length (enc_locals le ds)) m) @ zm_name m @ zm_cd_extra m @ zm_comment m"
  let ?R = "enc_centrals le (length (enc_locals le (ds @ [m]))) ms @ E"
  have b: "b = enc_locals le (ds @ m # ms) @ (C @ enc_cdfh le (central_of (length (enc_locals le ds)) m) @ zm_name m @
      zm_cd_extra m @ zm_comment m @ ?R)"
    using Cons.prems(1) by simp
  have ok: "member_ok m" using Cons.prems(3) by simp
  have step: "find_entry_loop (length (m # ms)) le (archive_of b x y) nm (of_nat (length (enc_locals le (ds @ m # ms)) + length C)) =
    (if nm = zm_name m then get_entry_at_offset le (archive_of b x y) (of_nat (length (enc_locals le ds)))
     else find_entry_loop (length ms) le (archive_of b x y) nm (of_nat (length (enc_locals le (ds @ m # ms)) + length (C @ ?H))))"
    using find_entry_step [OF b Cons.prems(2) ok] by simp
  show ?case
  proof (cases "nm = zm_name m")
    case True
    have "b = enc_locals le ds @ enc_local le m @ (enc_locals le ms @ C @ ?H @ ?R)" using b by simp
    from get_entry_encoded [OF this Cons.prems(2) ok, of x y] show ?thesis
      using True unfolding step by (auto simp: found_def)
  next
    case False
    have "b = enc_locals le ((ds @ [m]) @ ms) @ (C @ ?H) @ ?R" using b by simp
    from Cons.IH [OF this Cons.prems(2)] Cons.prems(3) show ?thesis
      using False unfolding step by simp
  qed
qed


lemma find_cd_encoded:
  assumes "zip_ok le ms"
  shows "find_cd le (archive_of (zip_of le ms) x y) =
    Some (0, archive_of (zip_of le ms) (of_nat (length (enc_locals le ms))) (of_nat (length ms)))"
proof -
  let ?L = "length (enc_locals le ms)" and ?C = "length (enc_centrals le 0 ms)" and ?b = "zip_of le ms"
  let ?A = "archive_of ?b x y" and ?e = "end_of (length ms) (length (enc_locals le ms)) (length (enc_centrals le 0 ms))"
  have len: "length ?b < 2 ^ 32" and n: "length ms < 2 ^ 16" using assms by (simp_all add: zip_ok_def)
  have l: "length ?b = ?L + (?C + 22)" by (simp add: zip_of_def)
  have small: "?L + ?C < 2 ^ 32" "?L < 2 ^ 32" "?C < 2 ^ 32" using len l by linarith+
  have ne: "0 < ?L" using assms by (cases ms) (simp_all add: zip_ok_def enc_local_def)
  have hdr: "load_eocd le ?b (?L + ?C) = Some ?e"
    using load_enc_eocd [of le "enc_locals le ms @ enc_centrals le 0 ms"] by (simp add: zip_of_def)
  have a0: "check_access ?A (of_nat (?L + ?C)) sizeof_eocd = Some (of_nat (?L + ?C))"
    using check_access_of_nat [OF len, of "?L + ?C" 22] l by (simp add: sizeof_eocd_def)
  have a1: "check_access ?A (of_nat ?L) (of_nat ?C) = Some (of_nat ?L)"
    using check_access_of_nat [OF len, of ?L ?C] l by simp
  have dat: "za_data ?A = ?b" "za_size ?A = of_nat (length ?b)" by (simp_all add: archive_of_def)
  have parse: "try_parse_end_of_cd le ?A (of_nat (?L + ?C)) = Some (0, archive_of ?b (of_nat ?L) (of_nat (length ms)))"
    unfolding try_parse_end_of_cd_def a0 dat option.case unat_of_nat_pow(2) [OF small(1)] hdr
    using unat_of_nat_pow(2) [OF len] l n a1
    by (simp add: end_of_def sizeof_eocd_def ucast_of_nat_u16_u32 archive_of_def)
  have off: "int (unat (za_size ?A)) - int (unat sizeof_eocd) = int (?L + ?C)"
    using unat_of_nat_pow(2) [OF len] l by (simp add: dat sizeof_eocd_def)
  have "\<not> za_size ?A \<le> sizeof_eocd"
    using unat_of_nat_pow(2) [OF len] l ne by (simp add: word_le_nat_alt dat sizeof_eocd_def)
  moreover have "find_cd_loop le ?A (int (?L + ?C)) (int (?L + ?C) - 2 ^ 16) (- EINVAL) =
      Some (0, archive_of ?b (of_nat ?L) (of_nat (length ms)))"
    using parse by (subst find_cd_loop.simps) (simp add: find_cd_loop.simps)
  ultimately show ?thesis
    unfolding find_cd_def off Let_def by simp
qed

lemma zip_lookup_encoded:
  assumes "zip_ok le ms"
  shows "found (zip_of le ms) (List.find (\<lambda>m. zm_name m = nm) ms)
    (zip_archive_find_entry le (archive_of (zip_of le ms) (of_nat (length (enc_locals le ms))) (of_nat (length ms))) nm)"
proof -
  have "length ms < 2 ^ 32" using assms by (simp add: zip_ok_def)
  then have "za_cd_records (archive_of b x (of_nat (length ms))) = of_nat (length ms)"
    "unat (of_nat (length ms) :: u32) = length ms" for b x
    by (simp_all add: archive_of_def unat_of_nat_u32)
  then show ?thesis
    using find_entry_encoded [of "zip_of le ms" le "[]" ms "[]" "enc_eocd le (end_of (length ms)
      (length (enc_locals le ms)) (length (enc_centrals le 0 ms)))" nm] assms
    by (simp add: zip_archive_find_entry_def zip_of_def zip_ok_def archive_of_def)
qed

section \<open>Properties\<close>

text \<open>What the code relies on of the kernel: \<open>lseek\<close> returns a size or -1 and a mapping has the size asked for.\<close>

definition os_maps_files :: "zip_os \<Rightarrow> bool" where
  "os_maps_files os \<longleftrightarrow> (\<forall>fd. - 1 \<le> os_lseek_end os fd) \<and>
     (\<forall>fd sz b. os_mmap os fd sz = Inr b \<longrightarrow> length b = nat sz)"

lemma zip_open_cases:
  assumes "os_maps_files os"
  shows "(\<exists>e. zip_archive_open le os path r = Some (Inl e, r)) \<or>
    (\<exists>a. zip_archive_open le os path r = Some (Inr a, r\<lparr>zr_maps := zr_maps r + 1, zr_allocs := zr_allocs r + 1\<rparr>) \<and>
       zip_mapped a)"
proof (cases "os_open os path")
  case (Inr fd)
  define sz where "sz = os_lseek_end os fd"
  show ?thesis
  proof (cases "sz = - 1 \<or> 2 ^ 32 - 1 < sz")
    case False
    then have range: "0 \<le> sz" "sz < 2 ^ 32" using assms unfolding os_maps_files_def sz_def
      by (smt (verit))+
    show ?thesis
    proof (cases "os_mmap os fd sz")
      case (Inr b)
      define a where "a = \<lparr>za_data = b, za_size = word_of_int sz, za_cd_offset = fst (os_garbage os),
        za_cd_records = snd (os_garbage os)\<rparr>"
      have "length b = nat sz" using assms Inr by (auto simp: os_maps_files_def)
      then have "zip_mapped a" using range
        by (simp add: zip_mapped_def a_def unat_eq_nat_uint unsigned_of_int take_bit_int_eq_self)
      then obtain rc a' where "find_cd le a = Some (rc, a')" "zip_mapped a'"
        using find_cd_defined by blast
      then show ?thesis using False Inr \<open>os_open os path = Inr fd\<close>
        by (simp add: zip_archive_open_def Let_def flip: a_def sz_def)
    qed (use False \<open>os_open os path = Inr fd\<close> in \<open>simp add: zip_archive_open_def Let_def flip: sz_def\<close>)
  qed (use Inr in \<open>simp add: zip_archive_open_def Let_def flip: sz_def\<close>)
qed (simp add: zip_archive_open_def)

text \<open>C32. For a file of arbitrary bytes, opening it as an archive and looking up any name reads only
  mapped bytes, and the name and the data of an entry that is found lie inside the file.\<close>

theorem zip_find_inside:
  assumes "os_maps_files os"
  shows "\<exists>res. zip_archive_open le os path r = Some res \<and>
    (\<forall>a. fst res = Inr a \<longrightarrow> (\<exists>x. zip_archive_find_entry le a name = Some x \<and>
       (\<forall>e. x = Inr e \<longrightarrow> entry_inside a e)))"
  using zip_open_cases [OF assms, of le path r] find_entry_loop_inside
  by (auto simp: zip_archive_find_entry_def)

text \<open>C34. Opening an archive holds one mapping and one allocation and no descriptor when it succeeds, and
  nothing at all when any of its steps fails; closing releases both.\<close>

theorem zip_open_balanced:
  assumes "os_maps_files os"
  shows "case zip_archive_open le os path r of
      None \<Rightarrow> False
    | Some (Inl err, r') \<Rightarrow> r' = r
    | Some (Inr a, r') \<Rightarrow> zr_fds r' = zr_fds r \<and> zr_maps r' = zr_maps r + 1 \<and> zr_allocs r' = zr_allocs r + 1 \<and>
        zip_archive_close a r' = r"
  using zip_open_cases [OF assms, of le path r] by (auto simp: zip_archive_close_def)

text \<open>C33. An archive written with stored members is opened, and a lookup by name returns the data, the name
  and the compression method of the first member of that name, or -ENOENT when no member has it.\<close>

theorem zip_lookup_roundtrip:
  assumes "zip_ok le ms" "os_open os path = Inr fd" "os_malloc_ok os"
    and "os_lseek_end os fd = int (length (zip_of le ms))"
    and "os_mmap os fd (int (length (zip_of le ms))) = Inr (zip_of le ms)"
  shows "\<exists>a r'. zip_archive_open le os path r = Some (Inr a, r') \<and>
    found (zip_of le ms) (List.find (\<lambda>m. zm_name m = name) ms) (zip_archive_find_entry le a name)"
proof -
  have "length (zip_of le ms) < 2 ^ 32" using assms(1) by (simp add: zip_ok_def)
  then have "zip_archive_open le os path r = Some (Inr (archive_of (zip_of le ms) (of_nat (length (enc_locals le ms)))
      (of_nat (length ms))), r\<lparr>zr_maps := zr_maps r + 1, zr_allocs := zr_allocs r + 1\<rparr>)"
    using assms(2-) find_cd_encoded [OF assms(1), of "fst (os_garbage os)" "snd (os_garbage os)"]
    by (simp add: zip_archive_open_def Let_def archive_of_def)
  then show ?thesis using zip_lookup_encoded [OF assms(1), of name] by simp
qed

text \<open>A two-member archive.\<close>

definition sample_members :: "zip_member list" where
  "sample_members =
     [\<lparr>zm_name = [97], zm_extra = [], zm_cd_extra = [0], zm_comment = [], zm_data = [1, 2, 3], zm_compression = 0,
       zm_crc = 7, zm_uncompressed_size = 3\<rparr>,
      \<lparr>zm_name = [98], zm_extra = [9, 9], zm_cd_extra = [], zm_comment = [5], zm_data = [4], zm_compression = 8,
       zm_crc = 0, zm_uncompressed_size = 2\<rparr>]"

definition sample_os :: zip_os where
  "sample_os = \<lparr>os_open = (\<lambda>p. if p = ''x'' then Inr 3 else Inl 2), os_lseek_end = (\<lambda>fd. 186),
     os_mmap = (\<lambda>fd sz. if sz = 186 then Inr (zip_of True sample_members) else Inl 22), os_malloc_ok = True,
     os_garbage = (17, 4)\<rparr>"

lemma sample_length: "length (zip_of True sample_members) = 186"
  by (simp add: zip_of_def sample_members_def enc_local_def)

lemma sample_os_maps_files: "os_maps_files sample_os"
  by (simp add: os_maps_files_def sample_os_def sample_length)

lemma sample_open: "os_open sample_os ''x'' = Inr 3" "os_malloc_ok sample_os" "zip_ok True sample_members"
  by (simp_all add: sample_os_def zip_ok_def sample_length, simp_all add: sample_members_def member_ok_def)

theorem zip_find_inside_witness:
  "\<exists>res. zip_archive_open True sample_os ''x'' \<lparr>zr_fds = [], zr_maps = 0, zr_allocs = 0\<rparr> = Some res"
  using zip_find_inside [OF sample_os_maps_files, where le = True and path = "''x''"] by blast

theorem zip_open_balanced_witness:
  "zip_archive_open True sample_os ''y'' \<lparr>zr_fds = [], zr_maps = 0, zr_allocs = 0\<rparr> =
     Some (Inl (- 2), \<lparr>zr_fds = [], zr_maps = 0, zr_allocs = 0\<rparr>)"
  using zip_open_balanced [OF sample_os_maps_files, where le = True and path = "''y''" and
    r = "\<lparr>zr_fds = [], zr_maps = 0, zr_allocs = 0\<rparr>"]
  by (simp add: zip_archive_open_def sample_os_def)

theorem zip_lookup_roundtrip_witness:
  "\<exists>a r'. zip_archive_open True sample_os ''x'' \<lparr>zr_fds = [], zr_maps = 0, zr_allocs = 0\<rparr> = Some (Inr a, r') \<and>
    found (zip_of True sample_members) (Some (sample_members ! 1)) (zip_archive_find_entry True a [98])"
proof -
  have "List.find (\<lambda>m. zm_name m = [98]) sample_members = Some (sample_members ! 1)"
    by (simp add: sample_members_def)
  with zip_lookup_roundtrip [OF sample_open(3) sample_open(1,2), where name = "[98]"] sample_length show ?thesis
    by (simp add: sample_os_def)
qed

end
