(* ===== verification/Linfo.thy ===== *)
theory Linfo
  imports Prelude
begin

text \<open>
  Line information of a loaded program, \<open>libbpf/src/bpf_prog_linfo.c\<close>: the tables copied from the kernel, the
  partition of the JITed table into functions, and the two lookups. The tables are byte lists in the order
  \<open>le\<close> of the host; a null pointer is \<open>None\<close>, an access outside a table makes the operation \<open>None\<close>,
  and a returned record is its byte offset in the table. The outcome of every allocation is an argument and so is
  the content \<open>g\<close> of fresh memory; \<open>live\<close> counts the allocations held.
\<close>

section \<open>Tables\<close>

record bpf_prog_linfo =
  raw_linfo :: "u8 list option"
  raw_jited_linfo :: "u8 list option"
  nr_jited_linfo_per_func :: "u32 list option"
  jited_linfo_func_idx :: "u32 list option"
  nr_linfo :: u32
  nr_jited_func :: u32
  rec_size :: u32
  jited_rec_size :: u32

text \<open>The fields of \<open>struct bpf_prog_info\<close> that are read, with the buffers the kernel filled.\<close>

record prog_info =
  pi_nr_line_info :: u32
  pi_line_info_rec_size :: u32
  pi_line_info :: "u8 list option"
  pi_nr_jited_ksyms :: u32
  pi_jited_line_info :: "u8 list option"
  pi_nr_jited_line_info :: u32
  pi_jited_line_info_rec_size :: u32
  pi_nr_jited_func_lens :: u32
  pi_jited_ksyms :: "u64 list option"
  pi_jited_func_lens :: "u32 list option"


section \<open>Partition of the JITed table\<close>

text \<open>
  The loop over the remaining \<open>n\<close> records, at record \<open>i\<close> and byte position \<open>pos\<close>, with the
  previous address \<open>lst\<close>; the counters stay below \<open>nr_linfo\<close>, so they are natural numbers. The result is
  \<open>Inl\<close> for \<open>errout\<close>, or the final \<open>prev_i\<close>, \<open>f\<close> and the two arrays.
\<close>

primrec dissect_loop :: "nat \<Rightarrow> bool \<Rightarrow> u8 list \<Rightarrow> nat \<Rightarrow> nat \<Rightarrow> u64 list \<Rightarrow> u32 list \<Rightarrow>
    nat \<Rightarrow> nat \<Rightarrow> nat \<Rightarrow> nat \<Rightarrow> u64 \<Rightarrow> u32 list \<Rightarrow> u32 list \<Rightarrow> (int + nat \<times> nat \<times> u32 list \<times> u32 list) option" where
  "dissect_loop 0 le raw jrs nf ksym_func ksym_len prev_i i f pos lst idx per = Some (Inr (prev_i, f, idx, per))"
| "dissect_loop (Suc n) le raw jrs nf ksym_func ksym_len prev_i i f pos lst idx per =
     (if \<not> f < nf then Some (Inr (prev_i, f, idx, per))
      else
        do { cur \<leftarrow> get64 le raw (pos + jrs);
             sym \<leftarrow> aget ksym_func f;
             if sym = cur then
               do { idx' \<leftarrow> aput idx f (of_nat i);
                    base \<leftarrow> aget ksym_func (f - 1);
                    len \<leftarrow> aget ksym_len (f - 1);
                    if ucast len < lst - base + 1 then Some (Inl (- EINVAL))
                    else
                      do { per' \<leftarrow> aput per (f - 1) (of_nat (i - prev_i));
                           dissect_loop n le raw jrs nf ksym_func ksym_len i (i + 1) (f + 1) (pos + jrs) cur idx' per' } }
             else if cur \<le> lst then Some (Inl (- EINVAL))
             else dissect_loop n le raw jrs nf ksym_func ksym_len prev_i (i + 1) f (pos + jrs) cur idx per })"

definition dissect_jited_func :: "bool \<Rightarrow> bpf_prog_linfo \<Rightarrow> u64 list \<Rightarrow> u32 list \<Rightarrow> (int + bpf_prog_linfo) option" where
  "dissect_jited_func le p ksym_func ksym_len =
     do { raw \<leftarrow> raw_jited_linfo p;
          idx \<leftarrow> jited_linfo_func_idx p;
          per \<leftarrow> nr_jited_linfo_per_func p;
          first \<leftarrow> get64 le raw 0;
          sym \<leftarrow> aget ksym_func 0;
          if sym \<noteq> first then Some (Inl (- EINVAL))
          else
            do { idx \<leftarrow> aput idx 0 0;
                 r \<leftarrow> dissect_loop (unat (nr_linfo p) - 1) le raw (unat (jited_rec_size p)) (unat (nr_jited_func p))
                        ksym_func ksym_len 0 1 1 0 first idx per;
                 (case r of
                    Inl e \<Rightarrow> Some (Inl e)
                  | Inr (prev_i, f, idx, per) \<Rightarrow>
                      if f \<noteq> unat (nr_jited_func p) then Some (Inl (- EINVAL))
                      else
                        do { per \<leftarrow> aput per (unat (nr_jited_func p) - 1) (nr_linfo p - of_nat prev_i);
                             Some (Inr (p\<lparr>jited_linfo_func_idx := Some idx, nr_jited_linfo_per_func := Some per\<rparr>)) }) } }"

section \<open>Creation and release\<close>

definition held :: "'a option \<Rightarrow> nat" where
  "held x = (case x of None \<Rightarrow> 0 | Some _ \<Rightarrow> 1)"

definition bpf_prog_linfo__free :: "bpf_prog_linfo option \<Rightarrow> nat \<Rightarrow> nat" where
  "bpf_prog_linfo__free po live =
     (case po of
        None \<Rightarrow> live
      | Some p \<Rightarrow> live - held (raw_linfo p) - held (raw_jited_linfo p) - held (nr_jited_linfo_per_func p) -
                  held (jited_linfo_func_idx p) - 1)"

text \<open>\<open>memcpy\<close> from a buffer of the caller into a fresh one of the same size.\<close>

definition copy_of :: "u8 list option \<Rightarrow> nat \<Rightarrow> u8 list option" where
  "copy_of src n = do { b \<leftarrow> src; if n \<le> length b then Some (take n b) else None }"

text \<open>Which of the five allocations of \<open>bpf_prog_linfo__new\<close> succeed.\<close>

record linfo_alloc =
  al_linfo :: bool
  al_raw :: bool
  al_jited :: bool
  al_per_func :: bool
  al_func_idx :: bool

text \<open>The result is the errno with a null pointer, or the tables.\<close>

definition bpf_prog_linfo__new ::
  "bool \<Rightarrow> linfo_alloc \<Rightarrow> (nat \<Rightarrow> u32) \<Rightarrow> prog_info \<Rightarrow> nat \<Rightarrow> ((int + bpf_prog_linfo) \<times> nat) option" where
  "bpf_prog_linfo__new le al g info live =
     (let n = pi_nr_line_info info in
      if n = 0 then Some (Inl EINVAL, live)
      else if pi_line_info_rec_size info < 4 then Some (Inl EINVAL, live)
      else if \<not> al_linfo al then Some (Inl ENOMEM, live)
      else
        let p = \<lparr>raw_linfo = None, raw_jited_linfo = None, nr_jited_linfo_per_func = None,
                 jited_linfo_func_idx = None, nr_linfo = n, nr_jited_func = 0,
                 rec_size = pi_line_info_rec_size info, jited_rec_size = 0\<rparr>;
            live = live + 1
        in if \<not> al_raw al then Some (Inl EINVAL, bpf_prog_linfo__free (Some p) live)
           else
             do { raw \<leftarrow> copy_of (pi_line_info info) (unat n * unat (rec_size p));
                  let p = p\<lparr>raw_linfo := Some raw\<rparr>;
                      live = live + 1;
                      nf = pi_nr_jited_ksyms info
                  in if nf = 0 \<or> pi_jited_line_info info = None \<or> pi_nr_jited_line_info info \<noteq> n \<or>
                        pi_jited_line_info_rec_size info < 8 \<or> pi_nr_jited_func_lens info \<noteq> nf \<or>
                        pi_jited_ksyms info = None \<or> pi_jited_func_lens info = None
                     then Some (Inr p, live)
                     else
                       let p = p\<lparr>nr_jited_func := nf, jited_rec_size := pi_jited_line_info_rec_size info\<rparr>
                       in if \<not> al_jited al then Some (Inl EINVAL, bpf_prog_linfo__free (Some p) live)
                          else
                            do { jraw \<leftarrow> copy_of (pi_jited_line_info info) (unat n * unat (jited_rec_size p));
                                 let p = p\<lparr>raw_jited_linfo := Some jraw\<rparr>;
                                     live = live + 1
                                 in if \<not> al_per_func al then Some (Inl EINVAL, bpf_prog_linfo__free (Some p) live)
                                    else
                                      let p = p\<lparr>nr_jited_linfo_per_func := Some (map g [0..<unat nf])\<rparr>;
                                          live = live + 1
                                      in if \<not> al_func_idx al then Some (Inl EINVAL, bpf_prog_linfo__free (Some p) live)
                                         else
                                           let p = p\<lparr>jited_linfo_func_idx := Some (map g [0..<unat nf])\<rparr>;
                                               live = live + 1
                                           in do { ksyms \<leftarrow> pi_jited_ksyms info;
                                                   lens \<leftarrow> pi_jited_func_lens info;
                                                   r \<leftarrow> dissect_jited_func le p ksyms lens;
                                                   (case r of
                                                      Inl e \<Rightarrow> Some (Inl EINVAL, bpf_prog_linfo__free (Some p) live)
                                                    | Inr p \<Rightarrow> Some (Inr p, live)) } } })"

section \<open>Lookups\<close>

text \<open>
  The loop of \<open>bpf_prog_linfo__lfind_addr_func\<close>: \<open>n\<close> records remain, \<open>jpos\<close> and \<open>pos\<close> are the
  offsets of \<open>raw_jited_linfo\<close> and \<open>raw_linfo\<close>.
\<close>

primrec addr_loop :: "nat \<Rightarrow> bool \<Rightarrow> u8 list \<Rightarrow> nat \<Rightarrow> nat \<Rightarrow> u64 \<Rightarrow> nat \<Rightarrow> nat \<Rightarrow> nat option" where
  "addr_loop 0 le jraw jrs rs addr jpos pos = Some pos"
| "addr_loop (Suc n) le jraw jrs rs addr jpos pos =
     do { a \<leftarrow> get64 le jraw jpos;
          if addr < a then Some pos else addr_loop n le jraw jrs rs addr (jpos + jrs) (pos + rs) }"

definition bpf_prog_linfo__lfind_addr_func ::
  "bool \<Rightarrow> bpf_prog_linfo \<Rightarrow> u64 \<Rightarrow> u32 \<Rightarrow> u32 \<Rightarrow> (int + int) option" where
  "bpf_prog_linfo__lfind_addr_func le p addr func_idx nr_skip =
     (if nr_jited_func p \<le> func_idx then Some (Inl ENOENT)
      else
        do { per \<leftarrow> nr_jited_linfo_per_func p;
             n \<leftarrow> aget per (unat func_idx);
             if n \<le> nr_skip then Some (Inl ENOENT)
             else
               do { idx \<leftarrow> jited_linfo_func_idx p;
                    s \<leftarrow> aget idx (unat func_idx);
                    jraw \<leftarrow> raw_jited_linfo p;
                    let start = s + nr_skip;
                        jpos = unat (start * jited_rec_size p)
                    in do { a \<leftarrow> get64 le jraw jpos;
                            if addr < a then Some (Inl ENOENT)
                            else
                              do { pos \<leftarrow> addr_loop (unat (n - nr_skip)) le jraw (unat (jited_rec_size p))
                                            (unat (rec_size p)) addr jpos (unat (start * rec_size p));
                                   Some (Inr (int pos - int (unat (rec_size p)))) } } } })"

primrec lfind_loop :: "nat \<Rightarrow> bool \<Rightarrow> u8 list \<Rightarrow> nat \<Rightarrow> u32 \<Rightarrow> nat \<Rightarrow> nat option" where
  "lfind_loop 0 le raw rs insn_off pos = Some pos"
| "lfind_loop (Suc n) le raw rs insn_off pos =
     do { o' \<leftarrow> get32 le raw pos;
          if insn_off < o' then Some pos else lfind_loop n le raw rs insn_off (pos + rs) }"

definition bpf_prog_linfo__lfind :: "bool \<Rightarrow> bpf_prog_linfo \<Rightarrow> u32 \<Rightarrow> u32 \<Rightarrow> (int + int) option" where
  "bpf_prog_linfo__lfind le p insn_off nr_skip =
     (if nr_linfo p \<le> nr_skip then Some (Inl ENOENT)
      else
        do { raw \<leftarrow> raw_linfo p;
             let pos = unat (nr_skip * rec_size p)
             in do { o' \<leftarrow> get32 le raw pos;
                     if insn_off < o' then Some (Inl ENOENT)
                     else
                       do { pos' \<leftarrow> lfind_loop (unat (nr_linfo p - nr_skip)) le raw (unat (rec_size p)) insn_off pos;
                            Some (Inr (int pos' - int (unat (rec_size p)))) } } })"

section \<open>The partition\<close>

text \<open>
  What a successful dissection establishes of \<open>nr\<close> records of size \<open>jrs\<close>: consecutive non-empty
  segments that start at the addresses of the functions and cover the table, addresses increasing inside every
  segment but the last.
\<close>

definition jaddr :: "bool \<Rightarrow> u8 list \<Rightarrow> nat \<Rightarrow> nat \<Rightarrow> u64" where
  "jaddr le jraw jrs k = the (get64 le jraw (k * jrs))"

definition increasing_on :: "(nat \<Rightarrow> u64) \<Rightarrow> nat \<Rightarrow> nat \<Rightarrow> bool" where
  "increasing_on a s t \<longleftrightarrow> (\<forall>k. s \<le> k \<and> Suc k < t \<longrightarrow> a k < a (Suc k))"

definition segments :: "(nat \<Rightarrow> u64) \<Rightarrow> u64 list \<Rightarrow> nat \<Rightarrow> u32 list \<Rightarrow> u32 list \<Rightarrow> bool" where
  "segments a ksyms f idx per \<longleftrightarrow>
     idx ! 0 = 0 \<and> (\<forall>h<f. a (unat (idx ! h)) = ksyms ! h) \<and>
     (\<forall>h. Suc h < f \<longrightarrow>
        unat (idx ! h) + unat (per ! h) = unat (idx ! Suc h) \<and> 0 < per ! h \<and>
        increasing_on a (unat (idx ! h)) (unat (idx ! Suc h)))"

definition partitioned :: "(nat \<Rightarrow> u64) \<Rightarrow> u64 list \<Rightarrow> nat \<Rightarrow> nat \<Rightarrow> u32 list \<Rightarrow> u32 list \<Rightarrow> bool" where
  "partitioned a ksyms nf nr idx per \<longleftrightarrow>
     0 < nf \<and> length idx = nf \<and> length per = nf \<and> segments a ksyms nf idx per \<and>
     unat (idx ! (nf - 1)) + unat (per ! (nf - 1)) = nr \<and> 0 < per ! (nf - 1)"

text \<open>The invariant of the loop before record \<open>i\<close>.\<close>

definition dissect_inv :: "(nat \<Rightarrow> u64) \<Rightarrow> u64 list \<Rightarrow> nat \<Rightarrow> nat \<Rightarrow> nat \<Rightarrow> nat \<Rightarrow> nat \<Rightarrow> u32 list \<Rightarrow> u32 list \<Rightarrow> bool" where
  "dissect_inv a ksyms nf nr prev_i i f idx per \<longleftrightarrow>
     length idx = nf \<and> length per = nf \<and> 1 \<le> f \<and> f \<le> nf \<and> prev_i < i \<and> i \<le> nr \<and>
     segments a ksyms f idx per \<and> unat (idx ! (f - 1)) = prev_i \<and> increasing_on a prev_i i"

lemma increasing_on_snoc: "increasing_on a s (Suc t) \<longleftrightarrow> increasing_on a s t \<and> (s < t \<longrightarrow> a (t - 1) < a t)"
proof
  assume *: "increasing_on a s t \<and> (s < t \<longrightarrow> a (t - 1) < a t)"
  show "increasing_on a s (Suc t)"
    unfolding increasing_on_def
  proof (intro allI impI)
    fix k assume "s \<le> k \<and> Suc k < Suc t"
    then consider "Suc k < t" "s \<le> k" | "t = Suc k" "s \<le> k" by linarith
    then show "a k < a (Suc k)" using * by cases (auto simp: increasing_on_def)
  qed
next
  assume "increasing_on a s (Suc t)"
  then show "increasing_on a s t \<and> (s < t \<longrightarrow> a (t - 1) < a t)"
    unfolding increasing_on_def by (cases t) auto
qed

lemma segments_snoc:
  assumes "segments a ksyms f idx per" "1 \<le> f" "f < length idx" "length per = length idx"
    and "a (unat v) = ksyms ! f" "unat (idx ! (f - 1)) + unat w = unat v" "0 < w"
    and "increasing_on a (unat (idx ! (f - 1))) (unat v)"
  shows "segments a ksyms (Suc f) (idx[f := v]) (per[f - 1 := w])"
proof -
  have "h < f \<Longrightarrow> idx[f := v] ! h = idx ! h" for h by simp
  moreover have "Suc h < f \<Longrightarrow> per[f - 1 := w] ! h = per ! h" for h by simp
  moreover have "idx[f := v] ! f = v" "per[f - 1 := w] ! (f - 1) = w" using assms(2-4) by simp_all
  ultimately show ?thesis
    using assms unfolding segments_def by (auto simp: less_Suc_eq)
qed


lemma get64_in: "off + 8 \<le> length b \<Longrightarrow> get64 le b off \<noteq> None"
  by (simp add: get64_def get32_def)

lemma jaddr_in:
  assumes "k < nr" "8 \<le> jrs" "nr * jrs \<le> length jraw"
  shows "get64 le jraw (k * jrs) = Some (jaddr le jraw jrs k)"
proof -
  have "Suc k * jrs \<le> nr * jrs" using assms(1) by (intro mult_le_mono1) simp
  then have "k * jrs + 8 \<le> length jraw" using assms(2,3) by simp
  then show ?thesis using get64_in [of "k * jrs" jraw le] by (simp add: jaddr_def)
qed

lemma dissect_loop_inv:
  assumes "8 \<le> jrs" "nr * jrs \<le> length jraw" "nf \<le> length ksyms" "nf \<le> length lens" "nr < 2 ^ 32"
  shows "dissect_inv (jaddr le jraw jrs) ksyms nf nr prev_i i f idx per \<Longrightarrow> n = nr - i \<Longrightarrow>
    pos = (i - 1) * jrs \<Longrightarrow> lst = jaddr le jraw jrs (i - 1) \<Longrightarrow>
    dissect_loop n le jraw jrs nf ksyms lens prev_i i f pos lst idx per = Some (Inl (- EINVAL)) \<or>
    (\<exists>prev_i' i' f' idx' per'. dissect_loop n le jraw jrs nf ksyms lens prev_i i f pos lst idx per =
        Some (Inr (prev_i', f', idx', per')) \<and> dissect_inv (jaddr le jraw jrs) ksyms nf nr prev_i' i' f' idx' per')"
proof (induction n arbitrary: prev_i i f pos lst idx per)
  case 0
  then show ?case by auto
next
  case (Suc n)
  let ?a = "jaddr le jraw jrs"
  note inv = Suc.prems(1) [unfolded dissect_inv_def]
  have i: "i < nr" "1 \<le> i" "n = nr - Suc i" using Suc.prems(2) inv by linarith+
  have pos: "pos + jrs = i * jrs" using i(2) Suc.prems(3) by (cases i) simp_all
  have cur: "get64 le jraw (i * jrs) = Some (?a i)" using jaddr_in [OF i(1) assms(1,2)] .
  have u: "unat (of_nat i :: u32) = i" "unat (of_nat (i - prev_i) :: u32) = i - prev_i"
    using i(1) assms(5) by (simp_all add: unat_of_nat take_bit_nat_eq_self)
  note IH = Suc.IH [OF _ i(3)]
  show ?case
  proof (cases "f < nf")
    case False
    then show ?thesis using Suc.prems(1) by auto
  next
    case True
    then have sym: "aget ksyms f = Some (ksyms ! f)" "aget ksyms (f - 1) = Some (ksyms ! (f - 1))"
      "aget lens (f - 1) = Some (lens ! (f - 1))" using assms(3,4) by (simp_all add: aget_def)
    have put: "aput idx f (of_nat i) = Some (idx[f := of_nat i])"
      "aput per (f - 1) (of_nat (i - prev_i)) = Some (per[f - 1 := of_nat (i - prev_i)])"
      using True inv by (simp_all add: aput_def)
    show ?thesis
    proof (cases "ksyms ! f = ?a i")
      case found: True
      have "segments ?a ksyms (Suc f) (idx[f := of_nat i]) (per[f - 1 := of_nat (i - prev_i)])"
        using inv True found u by (intro segments_snoc) (auto simp: word_less_nat_alt)
      then have "dissect_inv ?a ksyms nf nr i (Suc i) (Suc f) (idx[f := of_nat i]) (per[f - 1 := of_nat (i - prev_i)])"
        using inv True i u by (auto simp: dissect_inv_def increasing_on_def)
      from IH [OF this] show ?thesis
        using True found by (simp add: pos cur sym [simplified] put [simplified])
    next
      case other: False
      show ?thesis
      proof (cases "?a i \<le> lst")
        case False
        then have "dissect_inv ?a ksyms nf nr prev_i (Suc i) f idx per"
          using inv i Suc.prems(4) by (simp add: dissect_inv_def increasing_on_snoc)
        from IH [OF this] False show ?thesis using True other by (simp add: pos cur sym)
      qed (use True other in \<open>simp add: pos cur sym\<close>)
    qed
  qed
qed


text \<open>Tables ready for the lookups.\<close>

definition linfo_wf :: "bool \<Rightarrow> u64 list \<Rightarrow> bpf_prog_linfo \<Rightarrow> bool" where
  "linfo_wf le ksyms p \<longleftrightarrow>
     4 \<le> unat (rec_size p) \<and> 0 < unat (nr_linfo p) \<and>
     (\<exists>raw. raw_linfo p = Some raw \<and> length raw = unat (nr_linfo p) * unat (rec_size p)) \<and>
     (nr_jited_func p \<noteq> 0 \<longrightarrow> 8 \<le> unat (jited_rec_size p) \<and>
        (\<exists>jraw idx per. raw_jited_linfo p = Some jraw \<and> length jraw = unat (nr_linfo p) * unat (jited_rec_size p) \<and>
           jited_linfo_func_idx p = Some idx \<and> nr_jited_linfo_per_func p = Some per \<and>
           partitioned (jaddr le jraw (unat (jited_rec_size p))) ksyms (unat (nr_jited_func p)) (unat (nr_linfo p)) idx per))"

lemma dissect_jited_func_cases:
  assumes "raw_jited_linfo p = Some jraw" "length jraw = unat (nr_linfo p) * unat (jited_rec_size p)"
    "8 \<le> unat (jited_rec_size p)" "0 < unat (nr_linfo p)" "0 < unat (nr_jited_func p)"
    "jited_linfo_func_idx p = Some idx" "length idx = unat (nr_jited_func p)"
    "nr_jited_linfo_per_func p = Some per" "length per = unat (nr_jited_func p)"
    "unat (nr_jited_func p) \<le> length ksyms" "unat (nr_jited_func p) \<le> length lens"
  shows "dissect_jited_func le p ksyms lens = Some (Inl (- EINVAL)) \<or>
    (\<exists>idx' per'. dissect_jited_func le p ksyms lens =
        Some (Inr (p\<lparr>jited_linfo_func_idx := Some idx', nr_jited_linfo_per_func := Some per'\<rparr>)) \<and>
      partitioned (jaddr le jraw (unat (jited_rec_size p))) ksyms (unat (nr_jited_func p)) (unat (nr_linfo p)) idx' per')"
proof -
  let ?jrs = "unat (jited_rec_size p)" and ?nf = "unat (nr_jited_func p)" and ?nr = "unat (nr_linfo p)"
  let ?a = "jaddr le jraw ?jrs"
  have nr: "?nr < 2 ^ 32" using unat_u32_less by simp
  have first: "get64 le jraw 0 = Some (?a 0)" using jaddr_in [of 0 ?nr ?jrs jraw le] assms(2-4) by simp
  have sym: "aget ksyms 0 = Some (ksyms ! 0)" "aput idx 0 0 = Some (idx[0 := 0])"
    using assms(5,7,10) by (auto simp: aget_def aput_def)
  show ?thesis
  proof (cases "ksyms ! 0 = ?a 0")
    case True
    have inv: "dissect_inv ?a ksyms ?nf ?nr 0 1 1 (idx[0 := 0]) per"
      using assms(4,5,7,9) True by (auto simp: dissect_inv_def segments_def increasing_on_def)
    note loop = dissect_loop_inv [OF assms(3) eq_imp_le [OF assms(2) [symmetric]] assms(10,11) nr inv refl refl refl, simplified]
    define r where "r = dissect_loop (?nr - 1) le jraw ?jrs ?nf ksyms lens 0 1 1 0 (?a 0) (idx[0 := 0]) per"
    have unfolded: "dissect_jited_func le p ksyms lens = r \<bind> (\<lambda>r. case r of
          Inl e \<Rightarrow> Some (Inl e)
        | Inr (prev_i, f, idx, per) \<Rightarrow>
            if f \<noteq> ?nf then Some (Inl (- EINVAL))
            else aput per (?nf - 1) (nr_linfo p - of_nat prev_i) \<bind>
              (\<lambda>per. Some (Inr (p\<lparr>jited_linfo_func_idx := Some idx, nr_jited_linfo_per_func := Some per\<rparr>))))"
      using True by (simp add: dissect_jited_func_def assms(1,6,8) first sym r_def)
    from loop consider "r = Some (Inl (- EINVAL))" |
      prev_i i f idx' per' where "r = Some (Inr (prev_i, f, idx', per'))" "dissect_inv ?a ksyms ?nf ?nr prev_i i f idx' per'"
      unfolding r_def by auto
    then show ?thesis
    proof cases
      case 1
      then show ?thesis by (simp add: unfolded)
    next
      case 2
      note inv' = 2(2) [unfolded dissect_inv_def]
      show ?thesis
      proof (cases "f = ?nf")
        case True
        have lt: "prev_i < ?nr" using inv' by linarith
        then have u: "unat (of_nat prev_i :: u32) = prev_i" using nr by (simp add: unat_of_nat take_bit_nat_eq_self)
        then have w: "unat (nr_linfo p - of_nat prev_i) = ?nr - prev_i"
          using lt by (subst unat_sub) (simp_all add: word_le_nat_alt)
        have "partitioned ?a ksyms ?nf ?nr idx' (per'[?nf - 1 := nr_linfo p - of_nat prev_i])"
          using inv' True w lt assms(5) by (auto simp: partitioned_def segments_def word_less_nat_alt)
        moreover have "aput per' (?nf - 1) v = Some (per'[?nf - 1 := v])" for v
          using inv' assms(5) by (simp add: aput_def)
        ultimately show ?thesis using 2(1) True by (auto simp: unfolded)
      qed (simp add: unfolded 2(1))
    qed
  qed (simp add: dissect_jited_func_def assms(1,6,8) first sym)
qed

section \<open>The lookups\<close>

text \<open>
  Both lookups return the last record of the longest run, from the first record looked at, whose keys do not
  exceed the query.
\<close>

definition run_end :: "(nat \<Rightarrow> 'a::linorder) \<Rightarrow> nat \<Rightarrow> nat \<Rightarrow> 'a \<Rightarrow> nat \<Rightarrow> bool" where
  "run_end key s t q j \<longleftrightarrow> s \<le> j \<and> j < t \<and> (\<forall>i. s \<le> i \<and> i \<le> j \<longrightarrow> key i \<le> q) \<and> (Suc j < t \<longrightarrow> q < key (Suc j))"

lemma run_end_unique: "run_end key s t q j \<Longrightarrow> run_end key s t q j' \<Longrightarrow> j = j'"
  unfolding run_end_def by (metis Suc_leI le_Suc_eq leD linorder_neqE_nat order.strict_trans2 order_trans)

text \<open>The loops of both lookups are one scan over record numbers.\<close>

primrec scan :: "nat \<Rightarrow> (nat \<Rightarrow> 'a::linorder option) \<Rightarrow> 'a \<Rightarrow> nat \<Rightarrow> nat option" where
  "scan 0 rd q k = Some k"
| "scan (Suc n) rd q k = rd k \<bind> (\<lambda>a. if q < a then Some k else scan n rd q (Suc k))"

lemma lfind_loop_scan: "lfind_loop n le raw rs q (k * rs) = map_option (\<lambda>j. j * rs) (scan n (\<lambda>k. get32 le raw (k * rs)) q k)"
proof (induction n arbitrary: k)
  case (Suc n)
  show ?case using Suc.IH [of "Suc k"] by (cases "get32 le raw (k * rs)") (simp_all add: add.commute)
qed simp

lemma addr_loop_scan:
  "addr_loop n le jraw jrs rs q (k * jrs) (k * rs) = map_option (\<lambda>j. j * rs) (scan n (\<lambda>k. get64 le jraw (k * jrs)) q k)"
proof (induction n arbitrary: k)
  case (Suc n)
  show ?case using Suc.IH [of "Suc k"] by (cases "get64 le jraw (k * jrs)") (simp_all add: add.commute)
qed simp

lemma scan_run:
  assumes "\<And>i. s \<le> i \<Longrightarrow> i < t \<Longrightarrow> rd i = Some (key i)"
  shows "s \<le> k \<Longrightarrow> k + n = t \<Longrightarrow> (\<forall>i. s \<le> i \<and> i < k \<longrightarrow> key i \<le> q) \<Longrightarrow>
    \<exists>j. scan n rd q k = Some j \<and> k \<le> j \<and> j \<le> t \<and> (\<forall>i. s \<le> i \<and> i < j \<longrightarrow> key i \<le> q) \<and> (j < t \<longrightarrow> q < key j)"
proof (induction n arbitrary: k)
  case (Suc n)
  then have rd: "rd k = Some (key k)" using assms by simp
  show ?case
  proof (cases "q < key k")
    case True
    then show ?thesis using Suc.prems rd by auto
  next
    case False
    with Suc.prems have "\<forall>i. s \<le> i \<and> i < Suc k \<longrightarrow> key i \<le> q" by (auto simp: less_Suc_eq)
    from Suc.IH [OF _ _ this] Suc.prems rd False show ?thesis by (simp add: Suc_le_eq) (meson less_imp_le)
  qed
qed auto

definition insn_offs :: "bool \<Rightarrow> u8 list \<Rightarrow> nat \<Rightarrow> nat \<Rightarrow> u32" where
  "insn_offs le raw rs k = the (get32 le raw (k * rs))"

lemma insn_offs_in:
  assumes "k < nr" "4 \<le> rs" "nr * rs \<le> length raw"
  shows "get32 le raw (k * rs) = Some (insn_offs le raw rs k)"
proof -
  have "Suc k * rs \<le> nr * rs" using assms(1) by (intro mult_le_mono1) simp
  then have "k * rs + 4 \<le> length raw" using assms(2,3) by simp
  then show ?thesis by (simp add: insn_offs_def get32_def)
qed

lemma scan_run_end:
  assumes "\<And>i. s \<le> i \<Longrightarrow> i < t \<Longrightarrow> rd i = Some (key i)" "s < t" "key s \<le> q"
  shows "\<exists>j. scan (t - s) rd q s = Some (Suc j) \<and> run_end key s t q j"
proof -
  have "\<exists>j. scan (t - s) rd q s = Some j \<and> s \<le> j \<and> j \<le> t \<and> (\<forall>i. s \<le> i \<and> i < j \<longrightarrow> key i \<le> q) \<and> (j < t \<longrightarrow> q < key j)"
    by (rule scan_run) (use assms in auto)
  then obtain j where j: "scan (t - s) rd q s = Some j" "s \<le> j" "j \<le> t" "\<forall>i. s \<le> i \<and> i < j \<longrightarrow> key i \<le> q"
      "j < t \<longrightarrow> q < key j"
    by auto
  then have "j \<noteq> s" using assms(2,3) by force
  then obtain m where "j = Suc m" using j(2) by (cases j) auto
  then show ?thesis using j \<open>j \<noteq> s\<close> by (auto simp: run_end_def)
qed

lemma lfind_run:
  fixes le :: bool
  assumes "raw_linfo p = Some raw" "length raw = unat (nr_linfo p) * unat (rec_size p)" "4 \<le> unat (rec_size p)"
    "unat (nr_linfo p) * unat (rec_size p) < 2 ^ 32"
  defines "key \<equiv> insn_offs le raw (unat (rec_size p))"
  shows "if nr_linfo p \<le> nr_skip \<or> q < key (unat nr_skip) then bpf_prog_linfo__lfind le p q nr_skip = Some (Inl ENOENT)
    else \<exists>j. bpf_prog_linfo__lfind le p q nr_skip = Some (Inr (int (j * unat (rec_size p)))) \<and>
      run_end key (unat nr_skip) (unat (nr_linfo p)) q j"
proof (cases "nr_linfo p \<le> nr_skip")
  case False
  let ?s = "unat nr_skip" and ?t = "unat (nr_linfo p)" and ?rs = "unat (rec_size p)"
  have lt: "?s < ?t" using False by (simp add: word_le_nat_alt)
  have rd: "get32 le raw (i * ?rs) = Some (key i)" if "i < ?t" for i
    using insn_offs_in [OF that assms(3)] assms(2) by (simp add: key_def)
  have "?s * ?rs \<le> ?t * ?rs" using lt by simp
  then have pos: "unat (nr_skip * rec_size p) = ?s * ?rs" using assms(4) by (intro unat_mult_small) linarith
  have n: "unat (nr_linfo p - nr_skip) = ?t - ?s" using False by (intro unat_sub) simp
  show ?thesis
  proof (cases "q < key ?s")
    case True
    then show ?thesis using False assms(1) rd [OF lt] by (simp add: bpf_prog_linfo__lfind_def pos)
  next
    case below: False
    have "\<exists>j. scan (?t - ?s) (\<lambda>k. get32 le raw (k * ?rs)) q ?s = Some (Suc j) \<and> run_end key ?s ?t q j"
      by (rule scan_run_end) (use rd lt below in auto)
    then show ?thesis using False below assms(1) rd [OF lt]
      by (auto simp: bpf_prog_linfo__lfind_def pos n lfind_loop_scan)
  qed
qed (simp add: bpf_prog_linfo__lfind_def)

lemma segments_bounds:
  assumes "partitioned a ksyms nf nr idx per" "h < nf"
  shows "unat (idx ! h) + unat (per ! h) \<le> nr \<and> a (unat (idx ! h)) = ksyms ! h"
proof -
  have seg: "segments a ksyms nf idx per" and nf: "0 < nf"
    and fin: "unat (idx ! (nf - 1)) + unat (per ! (nf - 1)) = nr" using assms(1) by (auto simp: partitioned_def)
  have "h \<le> h' \<Longrightarrow> h' < nf \<Longrightarrow> unat (idx ! h) \<le> unat (idx ! h')" for h h'
  proof (induction h')
    case (Suc k)
    then show ?case using seg by (cases "h = Suc k") (auto simp: segments_def)
  qed simp
  note mono = this
  have "unat (idx ! h) + unat (per ! h) \<le> nr" if "Suc h < nf"
  proof -
    have "unat (idx ! h) + unat (per ! h) = unat (idx ! Suc h)" using seg that by (simp add: segments_def)
    also have "\<dots> \<le> unat (idx ! (nf - 1))" using mono [of "Suc h" "nf - 1"] that by simp
    finally show ?thesis using fin by linarith
  qed
  then show ?thesis using fin seg assms(2) by (cases "Suc h = nf") (auto simp: segments_def)
qed

lemma lfind_addr_run:
  fixes le :: bool
  assumes tables: "raw_jited_linfo p = Some jraw" "length jraw = unat (nr_linfo p) * unat (jited_rec_size p)"
      "8 \<le> unat (jited_rec_size p)" "jited_linfo_func_idx p = Some idx" "nr_jited_linfo_per_func p = Some per"
    and part: "partitioned (jaddr le jraw (unat (jited_rec_size p))) ksyms (unat (nr_jited_func p)) (unat (nr_linfo p)) idx per"
    and small: "unat (nr_linfo p) * unat (jited_rec_size p) < 2 ^ 32" "unat (nr_linfo p) * unat (rec_size p) < 2 ^ 32"
    and f: "f < nr_jited_func p" and skip: "unat nr_skip < unat (per ! unat f)"
  defines "key \<equiv> jaddr le jraw (unat (jited_rec_size p))" and "s \<equiv> unat (idx ! unat f) + unat nr_skip"
  shows "if q < key s then bpf_prog_linfo__lfind_addr_func le p q f nr_skip = Some (Inl ENOENT)
    else \<exists>j. bpf_prog_linfo__lfind_addr_func le p q f nr_skip = Some (Inr (int (j * unat (rec_size p)))) \<and>
      run_end key s (unat (idx ! unat f) + unat (per ! unat f)) q j"
proof -
  let ?f = "unat f" and ?rs = "unat (rec_size p)" and ?jrs = "unat (jited_rec_size p)" and ?nr = "unat (nr_linfo p)"
  define t where "t = unat (idx ! ?f) + unat (per ! ?f)"
  have fl: "?f < unat (nr_jited_func p)" using f by (simp add: word_less_nat_alt)
  have b: "t \<le> ?nr" using segments_bounds [OF part fl] by (simp add: t_def)
  have st: "s < t" using skip by (simp add: s_def t_def)
  have arr: "aget per ?f = Some (per ! ?f)" "aget idx ?f = Some (idx ! ?f)"
    using part fl by (simp_all add: aget_def partitioned_def)
  have rd: "get64 le jraw (i * ?jrs) = Some (key i)" if "i < t" for i
    using jaddr_in [of i ?nr ?jrs jraw le] that b tables(2,3) by (simp add: key_def)
  have "s < 2 ^ 32" using st b unat_u32_less [of "nr_linfo p"] by simp
  then have start: "unat (idx ! ?f + nr_skip) = s" by (simp add: s_def unat_plus_if')
  have "s * ?jrs \<le> ?nr * ?jrs" "s * ?rs \<le> ?nr * ?rs" using st b by simp_all
  then have "s * ?jrs < 2 ^ 32" "s * ?rs < 2 ^ 32" using small by linarith+
  then have pos: "unat ((idx ! ?f + nr_skip) * jited_rec_size p) = s * ?jrs" "unat ((idx ! ?f + nr_skip) * rec_size p) = s * ?rs"
    unfolding start [symmetric] by (simp_all only: unat_mult_small)
  have n: "unat (per ! ?f - nr_skip) = t - s" using skip by (subst unat_sub) (simp_all add: word_le_nat_alt t_def s_def)
  have guards: "\<not> nr_jited_func p \<le> f" "\<not> per ! ?f \<le> nr_skip" using f skip by (simp_all add: not_le, simp add: word_less_nat_alt)
  show ?thesis
  proof (cases "q < key s")
    case True
    then show ?thesis using rd [OF st] guards tables
      by (simp add: bpf_prog_linfo__lfind_addr_func_def arr pos)
  next
    case False
    have "\<exists>j. scan (t - s) (\<lambda>k. get64 le jraw (k * ?jrs)) q s = Some (Suc j) \<and> run_end key s t q j"
      by (rule scan_run_end) (use rd st False in auto)
    then show ?thesis using False rd [OF st] guards tables unfolding t_def [symmetric]
      by (auto simp: bpf_prog_linfo__lfind_addr_func_def arr pos n addr_loop_scan)
  qed
qed

section \<open>Creation\<close>

text \<open>The buffers that the kernel filled are as long as it says.\<close>

definition prog_info_ok :: "prog_info \<Rightarrow> bool" where
  "prog_info_ok info \<longleftrightarrow>
     (case pi_line_info info of None \<Rightarrow> False
      | Some b \<Rightarrow> unat (pi_nr_line_info info) * unat (pi_line_info_rec_size info) \<le> length b) \<and>
     (case pi_jited_line_info info of None \<Rightarrow> True
      | Some b \<Rightarrow> unat (pi_nr_jited_line_info info) * unat (pi_jited_line_info_rec_size info) \<le> length b) \<and>
     (case pi_jited_ksyms info of None \<Rightarrow> True | Some k \<Rightarrow> unat (pi_nr_jited_ksyms info) \<le> length k) \<and>
     (case pi_jited_func_lens info of None \<Rightarrow> True | Some l \<Rightarrow> unat (pi_nr_jited_func_lens info) \<le> length l)"

text \<open>The tables right before the dissection, and what remains to be done from there.\<close>

definition undissected :: "(nat \<Rightarrow> u32) \<Rightarrow> prog_info \<Rightarrow> u8 list \<Rightarrow> u8 list \<Rightarrow> bpf_prog_linfo" where
  "undissected g info raw jraw =
     \<lparr>raw_linfo = Some raw, raw_jited_linfo = Some jraw,
      nr_jited_linfo_per_func = Some (map g [0..<unat (pi_nr_jited_ksyms info)]),
      jited_linfo_func_idx = Some (map g [0..<unat (pi_nr_jited_ksyms info)]), nr_linfo = pi_nr_line_info info,
      nr_jited_func = pi_nr_jited_ksyms info, rec_size = pi_line_info_rec_size info,
      jited_rec_size = pi_jited_line_info_rec_size info\<rparr>"

lemma new_cases:
  assumes ok: "prog_info_ok info"
  shows "(\<exists>e. bpf_prog_linfo__new le al g info live = Some (Inl e, live)) \<or>
    (\<exists>p live'. bpf_prog_linfo__new le al g info live = Some (Inr p, live') \<and> bpf_prog_linfo__free (Some p) live' = live \<and>
       linfo_wf le (the (pi_jited_ksyms info)) p)"
proof -
  define n rs nf where "n = pi_nr_line_info info" and "rs = pi_line_info_rec_size info" and "nf = pi_nr_jited_ksyms info"
  obtain raw where raw: "copy_of (pi_line_info info) (unat n * unat rs) = Some raw" "length raw = unat n * unat rs"
    using ok by (auto simp: prog_info_ok_def copy_of_def n_def rs_def split: option.splits)
  note folds = n_def [symmetric] rs_def [symmetric] nf_def [symmetric]
  show ?thesis
  proof (cases "n = 0 \<or> rs < 4 \<or> \<not> al_linfo al \<or> \<not> al_raw al")
    case True
    then show ?thesis by (auto simp: bpf_prog_linfo__new_def bpf_prog_linfo__free_def held_def folds Let_def)
  next
    case go: False
    then have pos: "0 < unat n" "4 \<le> unat rs" by (auto simp: word_le_nat_alt not_less unat_gt_0)
    define nojit where "nojit \<longleftrightarrow> (nf = 0 \<or> pi_jited_line_info info = None \<or> pi_nr_jited_line_info info \<noteq> n \<or>
       pi_jited_line_info_rec_size info < 8 \<or> pi_nr_jited_func_lens info \<noteq> nf \<or>
       pi_jited_ksyms info = None \<or> pi_jited_func_lens info = None)"
    show ?thesis
    proof (cases nojit)
      case True
      then show ?thesis using go raw pos unfolding nojit_def
        by (simp add: bpf_prog_linfo__new_def bpf_prog_linfo__free_def held_def folds Let_def linfo_wf_def)
    next
      case jit: False
      then obtain ksyms lens where syms: "pi_jited_ksyms info = Some ksyms" "pi_jited_func_lens info = Some lens"
          "unat nf \<le> length ksyms" "unat nf \<le> length lens"
        using ok by (auto simp: nojit_def prog_info_ok_def nf_def)
      define jrs where "jrs = pi_jited_line_info_rec_size info"
      obtain jraw where jraw: "copy_of (pi_jited_line_info info) (unat n * unat jrs) = Some jraw"
          "length jraw = unat n * unat jrs"
        using ok jit by (auto simp: nojit_def prog_info_ok_def copy_of_def n_def jrs_def)
      have j: "8 \<le> unat jrs" "0 < unat nf" using jit by (auto simp: nojit_def jrs_def word_le_nat_alt not_less unat_gt_0)
      let ?p = "undissected g info raw jraw"
      have "dissect_jited_func le ?p ksyms lens = Some (Inl (- EINVAL)) \<or>
        (\<exists>idx' per'. dissect_jited_func le ?p ksyms lens =
            Some (Inr (?p\<lparr>jited_linfo_func_idx := Some idx', nr_jited_linfo_per_func := Some per'\<rparr>)) \<and>
          partitioned (jaddr le jraw (unat jrs)) ksyms (unat nf) (unat n) idx' per')"
        using dissect_jited_func_cases [of ?p jraw _ _ ksyms lens le] jraw(2) j pos syms(3,4)
        by (simp add: undissected_def folds jrs_def [symmetric])
      then show ?thesis using go jit raw pos jraw syms j unfolding nojit_def
        by (auto simp: bpf_prog_linfo__new_def bpf_prog_linfo__free_def held_def folds jrs_def [symmetric] Let_def
            linfo_wf_def undissected_def)
    qed
  qed
qed

section \<open>Properties\<close>

text \<open>C35. When the kernel's buffers are as long as it says, building the tables touches no memory outside them
  and either fails holding no memory, whichever allocation or check fails, or gives tables that are released
  completely and in which the JITed records are partitioned: consecutive non-empty segments that start at the
  functions' addresses and cover the table, with addresses increasing inside every segment but the last.\<close>

theorem linfo_new_partitions:
  assumes "prog_info_ok info"
  shows "case bpf_prog_linfo__new le al g info live of
      None \<Rightarrow> False
    | Some (Inl e, live') \<Rightarrow> live' = live
    | Some (Inr p, live') \<Rightarrow> bpf_prog_linfo__free (Some p) live' = live \<and> linfo_wf le (the (pi_jited_ksyms info)) p"
  using new_cases [OF assms, of le al g live] by auto

text \<open>On such tables of less than 4 GiB a lookup by instruction offset reads only the table; it finds
  the last record of the run, from the first record not skipped, whose offsets do not exceed the query, and gives
  ENOENT exactly when all records are skipped or the first one is already beyond.\<close>

theorem linfo_lfind_finds:
  assumes "linfo_wf le ksyms p" "unat (nr_linfo p) * unat (rec_size p) < 2 ^ 32"
  shows "case bpf_prog_linfo__lfind le p q nr_skip of
      None \<Rightarrow> False
    | Some (Inl e) \<Rightarrow> e = ENOENT \<and>
        (nr_linfo p \<le> nr_skip \<or> q < insn_offs le (the (raw_linfo p)) (unat (rec_size p)) (unat nr_skip))
    | Some (Inr pos) \<Rightarrow> \<exists>j. pos = int (j * unat (rec_size p)) \<and>
        run_end (insn_offs le (the (raw_linfo p)) (unat (rec_size p))) (unat nr_skip) (unat (nr_linfo p)) q j"
proof -
  obtain raw where "raw_linfo p = Some raw" "length raw = unat (nr_linfo p) * unat (rec_size p)" "4 \<le> unat (rec_size p)"
    using assms(1) by (auto simp: linfo_wf_def)
  from lfind_run [OF this assms(2), of nr_skip q le] this(1) show ?thesis
    by (auto split: if_splits)
qed

text \<open>A lookup by address in a function that exists, skipping fewer records than it has, stays inside
  the segment of that function: it gives ENOENT exactly when the first record looked at is beyond the address, and
  otherwise the last record of the run whose addresses do not exceed it.\<close>

theorem linfo_lfind_addr_finds:
  assumes "linfo_wf le ksyms p" "unat (nr_linfo p) * unat (rec_size p) < 2 ^ 32"
    "unat (nr_linfo p) * unat (jited_rec_size p) < 2 ^ 32"
    "f < nr_jited_func p" "nr_skip < the (nr_jited_linfo_per_func p) ! unat f"
  shows "let key = jaddr le (the (raw_jited_linfo p)) (unat (jited_rec_size p));
      first = unat (the (jited_linfo_func_idx p) ! unat f);
      behind = first + unat (the (nr_jited_linfo_per_func p) ! unat f)
    in key first = ksyms ! unat f \<and> behind \<le> unat (nr_linfo p) \<and>
      (case bpf_prog_linfo__lfind_addr_func le p addr f nr_skip of
         None \<Rightarrow> False
       | Some (Inl e) \<Rightarrow> e = ENOENT \<and> addr < key (first + unat nr_skip)
       | Some (Inr pos) \<Rightarrow> \<exists>j. pos = int (j * unat (rec_size p)) \<and> run_end key (first + unat nr_skip) behind addr j)"
proof -
  have "nr_jited_func p \<noteq> 0" using assms(4) by auto
  then obtain jraw idx per where t: "raw_jited_linfo p = Some jraw"
      "length jraw = unat (nr_linfo p) * unat (jited_rec_size p)" "8 \<le> unat (jited_rec_size p)"
      "jited_linfo_func_idx p = Some idx" "nr_jited_linfo_per_func p = Some per"
    and part: "partitioned (jaddr le jraw (unat (jited_rec_size p))) ksyms (unat (nr_jited_func p)) (unat (nr_linfo p)) idx per"
    using assms(1) by (auto simp: linfo_wf_def)
  have skip: "unat nr_skip < unat (per ! unat f)" using assms(5) t(5) by (simp add: word_less_nat_alt)
  have "unat f < unat (nr_jited_func p)" using assms(4) by (simp add: word_less_nat_alt)
  note seg = segments_bounds [OF part this]
  from lfind_addr_run [OF t part assms(3,2,4) skip, of addr] seg show ?thesis
    unfolding Let_def t option.sel by (auto split: if_splits)
qed

text \<open>The order of the addresses in the last function is never checked: with a single function
  any table whose first address is the function's address is accepted, whatever its other records and whatever
  the length of the function.\<close>

theorem dissect_single_unchecked:
  assumes "nr_jited_func p = 1" "raw_jited_linfo p = Some jraw" "get64 le jraw 0 = Some (ksyms ! 0)" "ksyms \<noteq> []"
    "jited_linfo_func_idx p = Some [x]" "nr_jited_linfo_per_func p = Some [y]"
  shows "dissect_jited_func le p ksyms lens =
    Some (Inr (p\<lparr>jited_linfo_func_idx := Some [0], nr_jited_linfo_per_func := Some [nr_linfo p]\<rparr>))"
proof -
  have "dissect_loop n le jraw jrs 1 ksyms lens 0 1 1 0 (ksyms ! 0) [0] [y] = Some (Inr (0, 1, [0], [y]))" for n jrs
    by (cases n) simp_all
  then show ?thesis using assms by (simp add: dissect_jited_func_def aget_def aput_def)
qed

text \<open>Two functions of two records and one record; and one function whose addresses decrease.\<close>

definition sample_info :: prog_info where
  "sample_info = \<lparr>pi_nr_line_info = 3, pi_line_info_rec_size = 4,
     pi_line_info = Some (bytes32 True 0 @ bytes32 True 5 @ bytes32 True 9), pi_nr_jited_ksyms = 2,
     pi_jited_line_info = Some (bytes32 True 0x100 @ bytes32 True 0 @ bytes32 True 0x108 @ bytes32 True 0 @
       bytes32 True 0x200 @ bytes32 True 0),
     pi_nr_jited_line_info = 3, pi_jited_line_info_rec_size = 8, pi_nr_jited_func_lens = 2,
     pi_jited_ksyms = Some [0x100, 0x200], pi_jited_func_lens = Some [0x10, 0x10]\<rparr>"

definition sample_linfo :: bpf_prog_linfo where
  "sample_linfo = \<lparr>raw_linfo = pi_line_info sample_info, raw_jited_linfo = pi_jited_line_info sample_info,
     nr_jited_linfo_per_func = Some [2, 1], jited_linfo_func_idx = Some [0, 2], nr_linfo = 3, nr_jited_func = 2,
     rec_size = 4, jited_rec_size = 8\<rparr>"

lemma sample_info_ok: "prog_info_ok sample_info"
  by (simp add: prog_info_ok_def sample_info_def)

lemma sample_new:
  "bpf_prog_linfo__new True \<lparr>al_linfo = True, al_raw = True, al_jited = True, al_per_func = True, al_func_idx = True\<rparr>
     (\<lambda>i. 7) sample_info 0 = Some (Inr sample_linfo, 5)"
  by code_simp

theorem linfo_new_partitions_witness:
  "linfo_wf True [0x100, 0x200] sample_linfo"
  using linfo_new_partitions [OF sample_info_ok, where le = True and live = 0 and g = "\<lambda>i. 7" and
    al = "\<lparr>al_linfo = True, al_raw = True, al_jited = True, al_per_func = True, al_func_idx = True\<rparr>"]
  by (simp add: sample_new) (simp add: sample_info_def)

lemma sample_wf: "linfo_wf True [0x100, 0x200] sample_linfo"
  using new_cases [OF sample_info_ok, where le = True and live = 0 and g = "\<lambda>i. 7" and
    al = "\<lparr>al_linfo = True, al_raw = True, al_jited = True, al_per_func = True, al_func_idx = True\<rparr>"]
  by (simp add: sample_new) (simp add: sample_info_def)

lemma sample_find: "bpf_prog_linfo__lfind True sample_linfo 7 0 = Some (Inr 4)"
  "bpf_prog_linfo__lfind_addr_func True sample_linfo 0x109 0 0 = Some (Inr 4)"
  by code_simp+

theorem linfo_lfind_finds_witness:
  "\<exists>j. (4 :: int) = int (j * 4) \<and> run_end (insn_offs True (the (raw_linfo sample_linfo)) 4) 0 3 7 j"
proof -
  have "unat (nr_linfo sample_linfo) = 3" "unat (rec_size sample_linfo) = 4" by (simp_all add: sample_linfo_def)
  with linfo_lfind_finds [OF sample_wf, where q = 7 and nr_skip = 0] show ?thesis by (simp add: sample_find)
qed

theorem linfo_lfind_addr_finds_witness:
  "\<exists>j. (4 :: int) = int (j * 4) \<and> run_end (jaddr True (the (raw_jited_linfo sample_linfo)) 8) 0 2 0x109 j"
proof -
  have s: "unat (nr_linfo sample_linfo) = 3" "unat (rec_size sample_linfo) = 4" "unat (jited_rec_size sample_linfo) = 8"
    "the (jited_linfo_func_idx sample_linfo) = [0, 2]" "the (nr_jited_linfo_per_func sample_linfo) = [2, 1]"
    "nr_jited_func sample_linfo = 2"
    by (simp_all add: sample_linfo_def)
  with linfo_lfind_addr_finds [OF sample_wf, of 0 0 "0x109"] show ?thesis by (simp add: sample_find Let_def) (simp add: numeral_2_eq_2)
qed

theorem dissect_single_unchecked_witness:
  "\<exists>p'. dissect_jited_func True
     \<lparr>raw_linfo = None, raw_jited_linfo = Some (bytes32 True 0x100 @ bytes32 True 0 @ bytes32 True 0x50 @ bytes32 True 0),
      nr_jited_linfo_per_func = Some [0], jited_linfo_func_idx = Some [0], nr_linfo = 2, nr_jited_func = 1,
      rec_size = 4, jited_rec_size = 8\<rparr> [0x100] [1] = Some (Inr p')"
proof -
  have "get64 True (bytes32 True 0x100 @ bytes32 True 0 @ bytes32 True 0x50 @ bytes32 True 0) 0 = Some 0x100"
    by code_simp
  then show ?thesis by (subst dissect_single_unchecked) simp_all
qed

end
