(* ===== verification/Bpf_Insn.thy ===== *)
theory Bpf_Insn
  imports Prelude
begin

text \<open>
  BPF instructions and the parts of their opcodes (\<open>uapi/linux/bpf.h\<close>, \<open>bpf_common.h\<close>), as bpftool's graphs and
  libbpf's relocations read them.
\<close>

record bpf_insn =
  code :: u8
  dst_reg :: "4 word"
  src_reg :: "4 word"
  off :: u16
  imm :: u32

definition BPF_JMP :: u8 where "BPF_JMP = 0x05"
definition BPF_JMP32 :: u8 where "BPF_JMP32 = 0x06"
definition BPF_JA :: u8 where "BPF_JA = 0x00"
definition BPF_CALL :: u8 where "BPF_CALL = 0x80"
definition BPF_EXIT :: u8 where "BPF_EXIT = 0x90"
definition BPF_PSEUDO_CALL :: "4 word" where "BPF_PSEUDO_CALL = 1"
definition BPF_CLASS :: "u8 \<Rightarrow> u8" where "BPF_CLASS c = c AND 0x07"
definition BPF_OP :: "u8 \<Rightarrow> u8" where "BPF_OP c = c AND 0xf0"
definition BPF_SIZE :: "u8 \<Rightarrow> u8" where "BPF_SIZE c = c AND 0x18"
definition BPF_MODE :: "u8 \<Rightarrow> u8" where "BPF_MODE c = c AND 0xe0"
definition BPF_SRC :: "u8 \<Rightarrow> u8" where "BPF_SRC c = c AND 0x08"

abbreviation (input) BPF_LD :: u8 where "BPF_LD \<equiv> 0x00"
abbreviation (input) BPF_LDX :: u8 where "BPF_LDX \<equiv> 0x01"
abbreviation (input) BPF_ST :: u8 where "BPF_ST \<equiv> 0x02"
abbreviation (input) BPF_STX :: u8 where "BPF_STX \<equiv> 0x03"
abbreviation (input) BPF_ALU :: u8 where "BPF_ALU \<equiv> 0x04"
abbreviation (input) BPF_ALU64 :: u8 where "BPF_ALU64 \<equiv> 0x07"
abbreviation (input) BPF_W :: u8 where "BPF_W \<equiv> 0x00"
abbreviation (input) BPF_H :: u8 where "BPF_H \<equiv> 0x08"
abbreviation (input) BPF_B :: u8 where "BPF_B \<equiv> 0x10"
abbreviation (input) BPF_DW :: u8 where "BPF_DW \<equiv> 0x18"
abbreviation (input) BPF_IMM :: u8 where "BPF_IMM \<equiv> 0x00"
abbreviation (input) BPF_K :: u8 where "BPF_K \<equiv> 0x00"

definition is_ldimm64_insn :: "bpf_insn \<Rightarrow> bool" where
  "is_ldimm64_insn i \<longleftrightarrow> code i = BPF_LD OR BPF_IMM OR BPF_DW"

end
