(* ===== verification/Cfg.thy ===== *)
theory Cfg
  imports Bpf_Insn
begin

text \<open>
  The control-flow graphs that bpftool draws of a program, \<open>bpftool/src/cfg.c\<close>: the partition into functions
  and basic blocks, the edges, the text written and the release. A pointer to an instruction is its index in the
  program; the linked lists are lists in their order, and a block that an edge points to is named by its
  \<open>idx\<close>, which is unique in its function when edges are added. A read outside the program or through a null
  pointer is \<open>None\<close>. \<open>heap\<close> holds the outcomes of the coming allocations and counts the live ones.
\<close>

section \<open>Instructions\<close>

definition insn_at :: "bpf_insn list \<Rightarrow> int \<Rightarrow> bpf_insn option" where
  "insn_at prog p = (if 0 \<le> p \<and> p < int (length prog) then Some (prog ! nat p) else None)"

text \<open>The instruction that \<open>cur + cur->off + 1\<close> points to.\<close>

definition target :: "int \<Rightarrow> bpf_insn \<Rightarrow> int" where
  "target p i = p + sint (off i) + 1"

section \<open>Nodes\<close>

record edge_node =
  e_src :: int
  e_dst :: "int option"
  e_flags :: int

record bb_node =
  e_prevs :: "edge_node list"
  e_succs :: "edge_node list"
  bb_head :: "int option"
  bb_tail :: "int option"
  bb_idx :: int

record func_node =
  f_bbs :: "bb_node list"
  f_start :: int
  f_end :: int
  f_idx :: int
  f_bb_num :: int

record cfg =
  cfg_funcs :: "func_node list"
  cfg_func_num :: int

definition EDGE_FLAG_EMPTY :: int where "EDGE_FLAG_EMPTY = 0"
definition EDGE_FLAG_FALLTHROUGH :: int where "EDGE_FLAG_FALLTHROUGH = 1"
definition EDGE_FLAG_JUMP :: int where "EDGE_FLAG_JUMP = 2"
definition ENTRY_BLOCK_INDEX :: int where "ENTRY_BLOCK_INDEX = 0"
definition EXIT_BLOCK_INDEX :: int where "EXIT_BLOCK_INDEX = 1"
definition NUM_FIXED_BLOCKS :: int where "NUM_FIXED_BLOCKS = 2"

record heap =
  outcomes :: "bool list"
  live :: nat

text \<open>One allocation; when the list of outcomes is used up, allocations succeed.\<close>

definition calloc :: "heap \<Rightarrow> bool \<times> heap" where
  "calloc h =
     (case outcomes h of
        [] \<Rightarrow> (True, h\<lparr>live := live h + 1\<rparr>)
      | True # bs \<Rightarrow> (True, h\<lparr>outcomes := bs, live := live h + 1\<rparr>)
      | False # bs \<Rightarrow> (False, h\<lparr>outcomes := bs\<rparr>))"

text \<open>
  The walk of an ordered list: \<open>Inl\<close> when an equal element is met, else \<open>Inr\<close> with the position before the
  first greater one, where a new node is linked.
\<close>

fun walk :: "('a \<Rightarrow> bool) \<Rightarrow> ('a \<Rightarrow> bool) \<Rightarrow> nat \<Rightarrow> 'a list \<Rightarrow> nat + nat" where
  "walk eq gt k [] = Inr k"
| "walk eq gt k (x # xs) = (if eq x then Inl k else if gt x then Inr k else walk eq gt (Suc k) xs)"

definition list_add_at :: "nat \<Rightarrow> 'a \<Rightarrow> 'a list \<Rightarrow> 'a list" where
  "list_add_at k x xs = take k xs @ x # drop k xs"

section \<open>Functions\<close>

text \<open>A failed allocation is \<open>None\<close> in the second component.\<close>

definition cfg_append_func :: "cfg \<Rightarrow> int \<Rightarrow> heap \<Rightarrow> heap \<times> cfg option" where
  "cfg_append_func c insn h =
     (case walk (\<lambda>f. f_start f = insn) (\<lambda>f. insn < f_start f) 0 (cfg_funcs c) of
        Inl k \<Rightarrow> (h, Some c)
      | Inr k \<Rightarrow>
          let (ok, h) = calloc h in
          if \<not> ok then (h, None)
          else
            let f = \<lparr>f_bbs = [], f_start = insn, f_end = 0, f_idx = cfg_func_num c, f_bb_num = 0\<rparr>
            in (h, Some (c\<lparr>cfg_funcs := list_add_at k f (cfg_funcs c), cfg_func_num := cfg_func_num c + 1\<rparr>)))"

definition is_bb_head :: "int \<Rightarrow> bb_node \<Rightarrow> bool" where
  "is_bb_head insn b \<longleftrightarrow> bb_head b = Some insn"

definition bb_beyond :: "int \<Rightarrow> bb_node \<Rightarrow> bool" where
  "bb_beyond insn b \<longleftrightarrow> (case bb_head b of None \<Rightarrow> False | Some p \<Rightarrow> insn < p)"

definition new_bb :: "int option \<Rightarrow> bb_node" where
  "new_bb p = \<lparr>e_prevs = [], e_succs = [], bb_head = p, bb_tail = None, bb_idx = 0\<rparr>"

definition func_append_bb :: "bb_node list \<Rightarrow> int \<Rightarrow> heap \<Rightarrow> heap \<times> bb_node list option" where
  "func_append_bb bbs insn h =
     (case walk (is_bb_head insn) (bb_beyond insn) 0 bbs of
        Inl k \<Rightarrow> (h, Some bbs)
      | Inr k \<Rightarrow>
          let (ok, h) = calloc h in
          if \<not> ok then (h, None) else (h, Some (list_add_at k (new_bb (Some insn)) bbs)))"

definition func_insert_dummy_bb :: "nat \<Rightarrow> bb_node list \<Rightarrow> int \<Rightarrow> heap \<Rightarrow> heap \<times> bb_node list option" where
  "func_insert_dummy_bb k bbs i h =
     (let (ok, h) = calloc h in
      if \<not> ok then (h, None) else (h, Some (list_add_at k ((new_bb None)\<lparr>bb_idx := i\<rparr>) bbs)))"

primrec partition_funcs_loop :: "nat \<Rightarrow> bpf_insn list \<Rightarrow> cfg \<Rightarrow> int \<Rightarrow> heap \<Rightarrow> (heap \<times> cfg option) option" where
  "partition_funcs_loop 0 prog c cur h = Some (h, Some c)"
| "partition_funcs_loop (Suc n) prog c cur h =
     do { i \<leftarrow> insn_at prog cur;
          if code i \<noteq> BPF_JMP OR BPF_CALL then partition_funcs_loop n prog c (cur + 1) h
          else if src_reg i \<noteq> BPF_PSEUDO_CALL then partition_funcs_loop n prog c (cur + 1) h
          else
            (case cfg_append_func c (target cur i) h of
               (h, None) \<Rightarrow> Some (h, None)
             | (h, Some c) \<Rightarrow> partition_funcs_loop n prog c (cur + 1) h) }"

fun set_func_ends :: "int \<Rightarrow> func_node list \<Rightarrow> func_node list" where
  "set_func_ends e [] = []"
| "set_func_ends e [f] = [f\<lparr>f_end := e - 1\<rparr>]"
| "set_func_ends e (f # f' # fs) = f\<lparr>f_end := f_start f' - 1\<rparr> # set_func_ends e (f' # fs)"

definition cfg_partition_funcs :: "bpf_insn list \<Rightarrow> cfg \<Rightarrow> int \<Rightarrow> int \<Rightarrow> heap \<Rightarrow> (heap \<times> cfg option) option" where
  "cfg_partition_funcs prog c cur e h =
     (case cfg_append_func c cur h of
        (h, None) \<Rightarrow> Some (h, None)
      | (h, Some c) \<Rightarrow>
          do { r \<leftarrow> partition_funcs_loop (nat (e - cur)) prog c cur h;
               (case r of
                  (h, None) \<Rightarrow> Some (h, None)
                | (h, Some c) \<Rightarrow> Some (h, Some (c\<lparr>cfg_funcs := set_func_ends e (cfg_funcs c)\<rparr>))) })"

section \<open>Basic blocks\<close>

definition is_jmp_insn :: "u8 \<Rightarrow> bool" where
  "is_jmp_insn c \<longleftrightarrow> BPF_CLASS c = BPF_JMP \<or> BPF_CLASS c = BPF_JMP32"

primrec bb_head_loop :: "nat \<Rightarrow> bpf_insn list \<Rightarrow> bb_node list \<Rightarrow> int \<Rightarrow> heap \<Rightarrow> (heap \<times> bb_node list option) option" where
  "bb_head_loop 0 prog bbs cur h = Some (h, Some bbs)"
| "bb_head_loop (Suc n) prog bbs cur h =
     do { i \<leftarrow> insn_at prog cur;
          if is_jmp_insn (code i) then
            (if BPF_OP (code i) = BPF_EXIT \<or> BPF_OP (code i) = BPF_CALL then bb_head_loop n prog bbs (cur + 1) h
             else
               (case func_append_bb bbs (target cur i) h of
                  (h, None) \<Rightarrow> Some (h, None)
                | (h, Some bbs) \<Rightarrow>
                    if BPF_OP (code i) \<noteq> BPF_JA then
                      (case func_append_bb bbs (cur + 1) h of
                         (h, None) \<Rightarrow> Some (h, None)
                       | (h, Some bbs) \<Rightarrow> bb_head_loop n prog bbs (cur + 1) h)
                    else bb_head_loop n prog bbs (cur + 1) h))
          else bb_head_loop n prog bbs (cur + 1) h }"

definition func_partition_bb_head :: "bpf_insn list \<Rightarrow> func_node \<Rightarrow> heap \<Rightarrow> (heap \<times> func_node option) option" where
  "func_partition_bb_head prog f h =
     (case func_append_bb [] (f_start f) h of
        (h, None) \<Rightarrow> Some (h, None)
      | (h, Some bbs) \<Rightarrow>
          do { r \<leftarrow> bb_head_loop (nat (f_end f + 1 - f_start f)) prog bbs (f_start f) h;
               (case r of
                  (h, None) \<Rightarrow> Some (h, None)
                | (h, Some bbs) \<Rightarrow> Some (h, Some (f\<lparr>f_bbs := bbs\<rparr>))) })"

fun set_bb_tails :: "int \<Rightarrow> int \<Rightarrow> bb_node list \<Rightarrow> bb_node list" where
  "set_bb_tails e i [] = []"
| "set_bb_tails e i [b] = [b\<lparr>bb_tail := Some e, bb_idx := i\<rparr>]"
| "set_bb_tails e i (b # b' # bs) =
     b\<lparr>bb_tail := map_option (\<lambda>p. p - 1) (bb_head b'), bb_idx := i\<rparr> # set_bb_tails e (i + 1) (b' # bs)"

definition func_partition_bb_tail :: "func_node \<Rightarrow> func_node" where
  "func_partition_bb_tail f =
     f\<lparr>f_bbs := set_bb_tails (f_end f) NUM_FIXED_BLOCKS (f_bbs f), f_bb_num := NUM_FIXED_BLOCKS + int (length (f_bbs f))\<rparr>"

definition func_add_special_bb :: "func_node \<Rightarrow> heap \<Rightarrow> heap \<times> func_node option" where
  "func_add_special_bb f h =
     (case func_insert_dummy_bb 0 (f_bbs f) ENTRY_BLOCK_INDEX h of
        (h, None) \<Rightarrow> (h, None)
      | (h, Some bbs) \<Rightarrow>
          (case func_insert_dummy_bb (length bbs) bbs EXIT_BLOCK_INDEX h of
             (h, None) \<Rightarrow> (h, None)
           | (h, Some bbs) \<Rightarrow> (h, Some (f\<lparr>f_bbs := bbs\<rparr>))))"

definition func_partition_bb :: "bpf_insn list \<Rightarrow> func_node \<Rightarrow> heap \<Rightarrow> (heap \<times> func_node option) option" where
  "func_partition_bb prog f h =
     do { r \<leftarrow> func_partition_bb_head prog f h;
          (case r of
             (h, None) \<Rightarrow> Some (h, None)
           | (h, Some f) \<Rightarrow> Some (h, Some (func_partition_bb_tail f))) }"

section \<open>Edges\<close>

definition func_search_bb_with_head :: "bb_node list \<Rightarrow> int \<Rightarrow> bb_node option" where
  "func_search_bb_with_head bbs insn = List.find (is_bb_head insn) bbs"

definition new_edge :: "int \<Rightarrow> int option \<Rightarrow> int \<Rightarrow> heap \<Rightarrow> heap \<times> edge_node option" where
  "new_edge src dst flags h =
     (let (ok, h) = calloc h in
      if \<not> ok then (h, None) else (h, Some \<lparr>e_src = src, e_dst = dst, e_flags = flags\<rparr>))"

text \<open>The successors of the block \<open>b\<close> whose next block in the list is \<open>nxt\<close>.\<close>

definition block_edges ::
  "bpf_insn list \<Rightarrow> bb_node list \<Rightarrow> bb_node \<Rightarrow> bb_node \<Rightarrow> heap \<Rightarrow> (heap \<times> edge_node list option) option" where
  "block_edges prog bbs b nxt h =
     (case new_edge (bb_idx b) None EDGE_FLAG_EMPTY h of
        (h, None) \<Rightarrow> Some (h, None)
      | (h, Some e) \<Rightarrow>
          do { p \<leftarrow> bb_tail b;
               i \<leftarrow> insn_at prog p;
               if \<not> is_jmp_insn (code i) \<or> BPF_OP (code i) = BPF_EXIT then
                 Some (h, Some [e\<lparr>e_dst := Some (bb_idx nxt), e_flags := EDGE_FLAG_FALLTHROUGH\<rparr>])
               else if BPF_OP (code i) = BPF_JA then
                 Some (h, Some [e\<lparr>e_dst := map_option bb_idx (func_search_bb_with_head bbs (target p i)),
                                  e_flags := EDGE_FLAG_JUMP\<rparr>])
               else
                 (case new_edge (bb_idx b) None EDGE_FLAG_JUMP h of
                    (h, None) \<Rightarrow> Some (h, None)
                  | (h, Some e') \<Rightarrow>
                      Some (h, Some [e\<lparr>e_dst := Some (bb_idx nxt), e_flags := EDGE_FLAG_FALLTHROUGH\<rparr>,
                                     e'\<lparr>e_dst := map_option bb_idx (func_search_bb_with_head bbs (target p i))\<rparr>])) })"

text \<open>The blocks after the entry up to the exit; \<open>all\<close> is the whole list of the function.\<close>

fun edges_loop ::
  "bpf_insn list \<Rightarrow> bb_node list \<Rightarrow> bb_node list \<Rightarrow> heap \<Rightarrow> (heap \<times> bb_node list option) option" where
  "edges_loop prog all (b # nxt # bs) h =
     do { r \<leftarrow> block_edges prog all b nxt h;
          (case r of
             (h, None) \<Rightarrow> Some (h, None)
           | (h, Some es) \<Rightarrow>
               do { r \<leftarrow> edges_loop prog all (nxt # bs) h;
                    (case r of
                       (h, None) \<Rightarrow> Some (h, None)
                     | (h, Some bs') \<Rightarrow> Some (h, Some (b\<lparr>e_succs := e_succs b @ es\<rparr> # bs'))) }) }"
| "edges_loop prog all bs h = Some (h, Some bs)"

definition func_add_bb_edges :: "bpf_insn list \<Rightarrow> func_node \<Rightarrow> heap \<Rightarrow> (heap \<times> func_node option) option" where
  "func_add_bb_edges prog f h =
     (case f_bbs f of
        entry # b # bs \<Rightarrow>
          (case new_edge (bb_idx entry) (Some (bb_idx b)) EDGE_FLAG_FALLTHROUGH h of
             (h, None) \<Rightarrow> Some (h, None)
           | (h, Some e) \<Rightarrow>
               let entry = entry\<lparr>e_succs := e_succs entry @ [e]\<rparr>;
                   exit = last (b # bs);
                   before = last (entry # butlast (b # bs))
               in (case new_edge (bb_idx before) (Some (bb_idx exit)) EDGE_FLAG_FALLTHROUGH h of
                     (h, None) \<Rightarrow> Some (h, None)
                   | (h, Some e) \<Rightarrow>
                       let all = entry # butlast (b # bs) @ [exit\<lparr>e_prevs := e_prevs exit @ [e]\<rparr>]
                       in do { r \<leftarrow> edges_loop prog all (tl all) h;
                               (case r of
                                  (h, None) \<Rightarrow> Some (h, None)
                                | (h, Some bs) \<Rightarrow> Some (h, Some (f\<lparr>f_bbs := entry # bs\<rparr>))) }))
      | _ \<Rightarrow> None)"

section \<open>Building, releasing and drawing\<close>

fun build_funcs :: "bpf_insn list \<Rightarrow> func_node list \<Rightarrow> heap \<Rightarrow> (heap \<times> func_node list option) option" where
  "build_funcs prog [] h = Some (h, Some [])"
| "build_funcs prog (f # fs) h =
     do { r \<leftarrow> func_partition_bb prog f h;
          (case r of
             (h, None) \<Rightarrow> Some (h, None)
           | (h, Some f) \<Rightarrow>
               (case func_add_special_bb f h of
                  (h, None) \<Rightarrow> Some (h, None)
                | (h, Some f) \<Rightarrow>
                    do { r \<leftarrow> func_add_bb_edges prog f h;
                         (case r of
                            (h, None) \<Rightarrow> Some (h, None)
                          | (h, Some f) \<Rightarrow>
                              do { r \<leftarrow> build_funcs prog fs h;
                                   (case r of
                                      (h, None) \<Rightarrow> Some (h, None)
                                    | (h, Some fs) \<Rightarrow> Some (h, Some (f # fs))) }) })) }"

definition cfg_build :: "bpf_insn list \<Rightarrow> u32 \<Rightarrow> heap \<Rightarrow> (heap \<times> cfg option) option" where
  "cfg_build prog len h =
     do { r \<leftarrow> cfg_partition_funcs prog \<lparr>cfg_funcs = [], cfg_func_num = 0\<rparr> 0 (int (unat len div 8)) h;
          (case r of
             (h, None) \<Rightarrow> Some (h, None)
           | (h, Some c) \<Rightarrow>
               do { r \<leftarrow> build_funcs prog (cfg_funcs c) h;
                    (case r of
                       (h, None) \<Rightarrow> Some (h, None)
                     | (h, Some fs) \<Rightarrow> Some (h, Some (c\<lparr>cfg_funcs := fs\<rparr>))) }) }"

text \<open>Every edge, block and function node is freed.\<close>

definition bb_nodes :: "bb_node \<Rightarrow> nat" where
  "bb_nodes b = length (e_prevs b) + length (e_succs b) + 1"

definition func_nodes :: "func_node \<Rightarrow> nat" where
  "func_nodes f = sum_list (map bb_nodes (f_bbs f)) + 1"

definition cfg_destroy :: "cfg \<Rightarrow> heap \<Rightarrow> heap" where
  "cfg_destroy c h = h\<lparr>live := live h - sum_list (map func_nodes (cfg_funcs c))\<rparr>"

definition NL :: string where "NL = [CHR 0x0A]"
definition TAB :: string where "TAB = [CHR 0x09]"
definition DQ :: string where "DQ = [CHR 0x22]"

text \<open>\<open>dump_xlated_for_graph\<close> is a parameter: the text for the instructions from the head to the tail.\<close>

definition draw_bb_node :: "(int \<Rightarrow> int \<Rightarrow> int \<Rightarrow> string) \<Rightarrow> func_node \<Rightarrow> bb_node \<Rightarrow> string option" where
  "draw_bb_node dump f b =
     do { label \<leftarrow> (if bb_idx b = ENTRY_BLOCK_INDEX then Some ''ENTRY''
                    else if bb_idx b = EXIT_BLOCK_INDEX then Some ''EXIT''
                    else do { p \<leftarrow> bb_head b; q \<leftarrow> bb_tail b;
                              Some ([CHR 0x7B, CHR 0x5C] @ NL @ dump p q (p - f_start f) @ [CHR 0x7D]) });
          Some (TAB @ ''fn_'' @ dec_int (f_idx f) @ ''_bb_'' @ dec_int (bb_idx b) @ '' [shape='' @
            (if bb_idx b = ENTRY_BLOCK_INDEX \<or> bb_idx b = EXIT_BLOCK_INDEX then ''Mdiamond'' else ''record'') @
            '',style=filled,label='' @ DQ @ label @ DQ @ ''];'' @ NL @ NL) }"

fun draw_edges :: "int \<Rightarrow> edge_node list \<Rightarrow> string option" where
  "draw_edges fi [] = Some []"
| "draw_edges fi (e # es) =
     do { d \<leftarrow> e_dst e;
          rest \<leftarrow> draw_edges fi es;
          Some (TAB @ ''fn_'' @ dec_int fi @ ''_bb_'' @ dec_int (e_src e) @ '':s -> fn_'' @ dec_int fi @ ''_bb_'' @ dec_int d @
            '':n [style='' @ DQ @ ''solid,bold'' @ DQ @ '', color=black, weight=10, constraint=true];'' @ NL @ rest) }"

definition draw_bb_succ_edges :: "func_node \<Rightarrow> bb_node \<Rightarrow> string option" where
  "draw_bb_succ_edges f b = draw_edges (f_idx f) (e_succs b)"

text \<open>Texts written one after the other.\<close>

fun concat_opt :: "string option list \<Rightarrow> string option" where
  "concat_opt [] = Some []"
| "concat_opt (x # xs) = do { s \<leftarrow> x; r \<leftarrow> concat_opt xs; Some (s @ r) }"

definition func_output_bb_def :: "(int \<Rightarrow> int \<Rightarrow> int \<Rightarrow> string) \<Rightarrow> func_node \<Rightarrow> string option" where
  "func_output_bb_def dump f = concat_opt (map (draw_bb_node dump f) (f_bbs f))"

definition func_output_edges :: "func_node \<Rightarrow> string option" where
  "func_output_edges f =
     do { s \<leftarrow> concat_opt (map (draw_bb_succ_edges f) (f_bbs f));
          Some (s @ TAB @ ''fn_'' @ dec_int (f_idx f) @ ''_bb_'' @ dec_int ENTRY_BLOCK_INDEX @ '':s -> fn_'' @
            dec_int (f_idx f) @ ''_bb_'' @ dec_int EXIT_BLOCK_INDEX @ '':n [style='' @ DQ @ ''invis'' @ DQ @
            '', constraint=true];'' @ NL) }"

definition cfg_dump :: "(int \<Rightarrow> int \<Rightarrow> int \<Rightarrow> string) \<Rightarrow> cfg \<Rightarrow> string option" where
  "cfg_dump dump c =
     do { s \<leftarrow> concat_opt (map (\<lambda>f.
              do { d \<leftarrow> func_output_bb_def dump f; e \<leftarrow> func_output_edges f;
                   Some (''subgraph '' @ DQ @ ''cluster_'' @ dec_int (f_idx f) @ DQ @ [CHR '' '', CHR 0x7B] @ NL @
                     TAB @ ''style='' @ DQ @ ''dashed'' @ DQ @ '';'' @ NL @ TAB @ ''color='' @ DQ @ ''black'' @ DQ @ '';'' @ NL @
                     TAB @ ''label='' @ DQ @ ''func_'' @ dec_int (f_idx f) @ '' ()'' @ DQ @ '';'' @ NL @ d @ e @ [CHR 0x7D] @ NL) })
              (cfg_funcs c));
          Some (''digraph '' @ DQ @ ''DOT graph for eBPF program'' @ DQ @ [CHR '' '', CHR 0x7B] @ NL @ s @ [CHR 0x7D] @ NL) }"

definition dump_xlated_cfg ::
  "(int \<Rightarrow> int \<Rightarrow> int \<Rightarrow> string) \<Rightarrow> bpf_insn list \<Rightarrow> u32 \<Rightarrow> heap \<Rightarrow> (heap \<times> string) option" where
  "dump_xlated_cfg dump prog len h =
     do { r \<leftarrow> cfg_build prog len h;
          (case r of
             (h, None) \<Rightarrow> Some (h, [])
           | (h, Some c) \<Rightarrow> do { s \<leftarrow> cfg_dump dump c; Some (cfg_destroy c h, s) }) }"

section \<open>The ordered lists\<close>

lemma list_add_at_simps [simp]:
  "list_add_at 0 y xs = y # xs" "list_add_at (Suc k) y (x # xs) = x # list_add_at k y xs"
  "set (list_add_at k y xs) = insert y (set xs)" "length (list_add_at k y xs) = Suc (length xs)"
  by (simp_all add: list_add_at_def) (metis append_take_drop_id set_append)

lemma walk_Inl_Inr:
  assumes "sorted_wrt (<) (map key xs)" "\<And>x. x \<in> set xs \<Longrightarrow> eq x \<longleftrightarrow> key x = (p :: int)" "\<And>x. x \<in> set xs \<Longrightarrow> gt x \<longleftrightarrow> p < key x"
  shows "if p \<in> key ` set xs then \<exists>j. walk eq gt k xs = Inl j
    else \<exists>j. walk eq gt k xs = Inr (k + j) \<and> (\<forall>y. key y = p \<longrightarrow> map key (list_add_at j y xs) = insort p (map key xs))"
  using assms
proof (induction xs arbitrary: k)
  case Nil
  then show ?case by auto
next
  case (Cons x xs)
  consider "key x = p" | "p < key x" | "key x < p" by linarith
  then show ?case
  proof cases
    case 2
    then have "p \<notin> key ` set (x # xs)" using Cons.prems(1) by force
    then show ?thesis using 2 Cons.prems by (auto intro!: exI [of _ 0])
  next
    case 3
    show ?thesis
    proof (cases "p \<in> key ` set xs")
      case False
      then obtain j where "walk eq gt (Suc k) xs = Inr (Suc k + j)"
          "\<forall>y. key y = p \<longrightarrow> map key (list_add_at j y xs) = insort p (map key xs)"
        using Cons.IH [of "Suc k"] Cons.prems by auto
      then show ?thesis using False 3 Cons.prems by (auto intro!: exI [of _ "Suc j"])
    qed (use Cons.IH [of "Suc k"] Cons.prems 3 in auto)
  qed (use Cons.prems in auto)
qed

lemma insort_strict: "sorted_wrt (<) hs \<Longrightarrow> p \<notin> set hs \<Longrightarrow> sorted_wrt (<) (insort (p :: int) hs)"
  by (simp add: strict_sorted_iff sorted_insort distinct_insort)

section \<open>Partition into blocks\<close>

text \<open>Instructions that start a block because of the instruction at \<open>p\<close>.\<close>

definition branch :: "bpf_insn \<Rightarrow> bool" where
  "branch i \<longleftrightarrow> is_jmp_insn (code i) \<and> BPF_OP (code i) \<noteq> BPF_EXIT \<and> BPF_OP (code i) \<noteq> BPF_CALL"

definition leads :: "bpf_insn list \<Rightarrow> int \<Rightarrow> int list" where
  "leads prog p =
     (let i = prog ! nat p in
      if branch i then (if BPF_OP (code i) \<noteq> BPF_JA then [target p i, p + 1] else [target p i]) else [])"

definition leaders :: "bpf_insn list \<Rightarrow> int \<Rightarrow> int \<Rightarrow> int set" where
  "leaders prog s e = insert s (\<Union>p\<in>{s..e}. set (leads prog p))"

text \<open>Blocks as the first pass leaves them: fresh nodes in the order of their heads.\<close>

definition fresh_blocks :: "bb_node list \<Rightarrow> int list \<Rightarrow> bool" where
  "fresh_blocks bbs hs \<longleftrightarrow> bbs = map (\<lambda>p. new_bb (Some p)) hs \<and> sorted_wrt (<) hs"

text \<open>
  What an operation that adds blocks may do: fail when an allocation may fail, or leave fresh blocks for the old
  heads and the heads in \<open>D\<close>, with one more live node for each new block.
\<close>

definition added :: "heap \<Rightarrow> bb_node list \<Rightarrow> int set \<Rightarrow> heap \<times> bb_node list option \<Rightarrow> bool" where
  "added h bbs H r =
     (case r of
        (h', None) \<Rightarrow> outcomes h \<noteq> []
      | (h', Some bbs') \<Rightarrow>
          (\<exists>hs. fresh_blocks bbs' hs \<and> set hs = H) \<and> (outcomes h = [] \<longrightarrow> outcomes h' = []) \<and>
          live h' + length bbs = live h + length bbs')"

lemma added_trans: "added h bbs H (h', Some bbs') \<Longrightarrow> added h' bbs' H' r \<Longrightarrow> added h bbs H' r"
  by (auto simp: added_def split: option.splits prod.splits)

lemma append_bb_added:
  assumes "fresh_blocks bbs hs"
  shows "added h bbs (insert p (set hs)) (func_append_bb bbs p h)"
proof -
  let ?key = "the \<circ> bb_head"
  have srt: "sorted_wrt (<) (map ?key bbs)" and mk: "map ?key bbs = hs"
    using assms by (simp_all add: fresh_blocks_def comp_def new_bb_def)
  have form: "\<exists>q. bb_head x = Some q" if "x \<in> set bbs" for x
    using that assms by (auto simp: fresh_blocks_def new_bb_def)
  have keys: "?key ` set bbs = set hs" using mk by (metis list.set_map)
  have tests: "is_bb_head p x \<longleftrightarrow> ?key x = p" "bb_beyond p x \<longleftrightarrow> p < ?key x" if "x \<in> set bbs" for x
    using form [OF that] by (auto simp: is_bb_head_def bb_beyond_def)
  note w = walk_Inl_Inr [OF srt tests, of 0, unfolded keys]
  show ?thesis
  proof (cases "p \<in> set hs")
    case True
    then obtain j where "walk (is_bb_head p) (bb_beyond p) 0 bbs = Inl j"
      using w by auto
    then show ?thesis using assms True by (auto simp: func_append_bb_def insert_absorb added_def)
  next
    case False
    then obtain j where j: "walk (is_bb_head p) (bb_beyond p) 0 bbs = Inr j"
        "\<forall>y. ?key y = p \<longrightarrow> map ?key (list_add_at j y bbs) = insort p (map ?key bbs)"
      using w unfolding if_not_P [OF False] add_0 by blast
    let ?bbs = "list_add_at j (new_bb (Some p)) bbs"
    have heads: "map ?key ?bbs = insort p hs" using j(2) mk by (simp add: new_bb_def)
    have "new_bb (Some (?key b)) = b" if "b \<in> set ?bbs" for b
      using that assms by (auto simp: fresh_blocks_def new_bb_def)
    then have "map (\<lambda>b. new_bb (Some (?key b))) ?bbs = ?bbs" by (rule map_idI)
    then have "?bbs = map (\<lambda>p. new_bb (Some p)) (map ?key ?bbs)" by (simp add: comp_def)
    then have "fresh_blocks ?bbs (insort p hs)"
      using heads insort_strict False assms by (simp add: fresh_blocks_def)
    then show ?thesis
      using j(1) set_insort_key [of "\<lambda>x. x" p hs]
      by (auto simp: func_append_bb_def calloc_def added_def split: list.splits bool.splits)
  qed
qed

lemma insn_at_in: "0 \<le> p \<Longrightarrow> p < int (length prog) \<Longrightarrow> insn_at prog p = Some (prog ! nat p)"
  by (simp add: insn_at_def)

lemma upto_step: "{cur..<cur + int (Suc n)} = insert cur {cur + 1..<cur + 1 + int n}"
  by auto

text \<open>One instruction of the first pass appends the heads it leads to.\<close>

primrec append_heads :: "int list \<Rightarrow> bb_node list \<Rightarrow> heap \<Rightarrow> heap \<times> bb_node list option" where
  "append_heads [] bbs h = (h, Some bbs)"
| "append_heads (p # ps) bbs h =
     (case func_append_bb bbs p h of (h, None) \<Rightarrow> (h, None) | (h, Some bbs) \<Rightarrow> append_heads ps bbs h)"

lemma bb_head_loop_step:
  assumes "0 \<le> cur" "cur < int (length prog)"
  shows "bb_head_loop (Suc n) prog bbs cur h =
    (case append_heads (leads prog cur) bbs h of
       (h, None) \<Rightarrow> Some (h, None) | (h, Some bbs) \<Rightarrow> bb_head_loop n prog bbs (cur + 1) h)"
  using assms by (auto simp: insn_at_in leads_def branch_def Let_def split: prod.splits option.splits)

lemma append_heads_added:
  "fresh_blocks bbs hs \<Longrightarrow> added h bbs (set hs \<union> set ps) (append_heads ps bbs h)"
proof (induction ps arbitrary: bbs hs h)
  case Nil
  then show ?case by (auto simp: added_def)
next
  case (Cons p ps)
  obtain h1 o1 where ap: "func_append_bb bbs p h = (h1, o1)" by fastforce
  then have ad: "added h bbs (insert p (set hs)) (h1, o1)" using append_bb_added [OF Cons.prems, of h p] by simp
  show ?case
  proof (cases o1)
    case None
    then show ?thesis using ad by (simp add: ap added_def)
  next
    case (Some bbs1)
    then obtain hs1 where "fresh_blocks bbs1 hs1" "set hs1 = insert p (set hs)"
      using ad by (auto simp: added_def)
    from Cons.IH [OF this(1), of h1] this(2) ad show ?thesis
      using added_trans [of h bbs _ h1 bbs1] Some by (simp add: ap)
  qed
qed

lemma bb_head_loop_added:
  assumes "fresh_blocks bbs hs" "0 \<le> cur" "cur + int n \<le> int (length prog)"
  shows "\<exists>r. bb_head_loop n prog bbs cur h = Some r \<and>
    added h bbs (set hs \<union> (\<Union>p\<in>{cur..<cur + int n}. set (leads prog p))) r"
  using assms
proof (induction n arbitrary: bbs hs cur h)
  case 0
  then show ?case by (auto simp: added_def)
next
  case (Suc n)
  obtain h1 o1 where ap: "append_heads (leads prog cur) bbs h = (h1, o1)" by fastforce
  then have ad: "added h bbs (set hs \<union> set (leads prog cur)) (h1, o1)"
    using append_heads_added [OF Suc.prems(1), of h "leads prog cur"] by simp
  note step = bb_head_loop_step [of cur prog n bbs h, unfolded ap]
  show ?case
  proof (cases o1)
    case None
    then show ?thesis using ad step Suc.prems by (simp add: added_def)
  next
    case (Some bbs1)
    then obtain hs1 where hs1: "fresh_blocks bbs1 hs1" "set hs1 = set hs \<union> set (leads prog cur)"
      using ad by (auto simp: added_def)
    have "set hs1 \<union> (\<Union>p\<in>{cur + 1..<cur + 1 + int n}. set (leads prog p)) =
        set hs \<union> (\<Union>p\<in>{cur..<cur + int (Suc n)}. set (leads prog p))"
      unfolding upto_step using hs1(2) by auto
    with Suc.IH [OF hs1(1), of "cur + 1" h1] Suc.prems step Some added_trans [of h bbs _ h1 bbs1] ad
    show ?thesis by auto
  qed
qed

text \<open>The second pass closes each block before the next head.\<close>

lemma set_bb_tails_length [simp]: "length (set_bb_tails e i bbs) = length bbs"
  by (induction e i bbs rule: set_bb_tails.induct) auto

lemma set_bb_tails_nth:
  "k < length hs \<Longrightarrow> set_bb_tails e i (map (\<lambda>p. new_bb (Some p)) hs) ! k =
     \<lparr>e_prevs = [], e_succs = [], bb_head = Some (hs ! k),
      bb_tail = Some (if Suc k < length hs then hs ! Suc k - 1 else e), bb_idx = i + int k\<rparr>"
proof (induction hs arbitrary: k i)
  case (Cons p hs)
  show ?case
  proof (cases hs)
    case Nil
    then show ?thesis using Cons.prems by (simp add: new_bb_def)
  next
    case (Cons q qs)
    then show ?thesis using Cons.IH [of "k - 1" "i + 1"] Cons.prems by (cases k) (auto simp: new_bb_def)
  qed
qed simp

text \<open>The blocks of a function that ends at \<open>e\<close>, for its sorted heads.\<close>

definition block_at :: "int list \<Rightarrow> int \<Rightarrow> nat \<Rightarrow> bb_node" where
  "block_at hs e k = \<lparr>e_prevs = [], e_succs = [], bb_head = Some (hs ! k),
     bb_tail = Some (if Suc k < length hs then hs ! Suc k - 1 else e), bb_idx = 2 + int k\<rparr>"

definition blocks_of :: "int list \<Rightarrow> int \<Rightarrow> bb_node list" where
  "blocks_of hs e = map (block_at hs e) [0..<length hs]"

lemma set_bb_tails_blocks: "set_bb_tails e 2 (map (\<lambda>p. new_bb (Some p)) hs) = blocks_of hs e"
  by (rule nth_equalityI) (simp_all add: blocks_of_def block_at_def set_bb_tails_nth)

text \<open>Jumps that stay inside the function \<open>s..e\<close>.\<close>

definition func_ok :: "bpf_insn list \<Rightarrow> int \<times> int \<Rightarrow> bool" where
  "func_ok prog = (\<lambda>(s, e). 0 \<le> s \<and> s \<le> e \<and> e < int (length prog) \<and>
     (\<forall>p\<in>{s..e}. list_all (\<lambda>q. s \<le> q \<and> q \<le> e) (leads prog p)))"

lemma finite_leaders [simp]: "finite (leaders prog s e)"
  by (simp add: leaders_def)

lemma func_ok_leaders: "func_ok prog (s, e) \<Longrightarrow> leaders prog s e \<subseteq> {s..e} \<and> s \<in> leaders prog s e"
proof
  assume ok: "func_ok prog (s, e)"
  then have "s \<le> e" by (simp add: func_ok_def)
  moreover have "set (leads prog p) \<subseteq> {s..e}" if "p \<in> {s..e}" for p
    using ok that unfolding func_ok_def prod.case list_all_iff by fastforce
  ultimately show "leaders prog s e \<subseteq> {s..e}" unfolding leaders_def by (intro insert_subsetI UN_least) auto
qed (simp add: leaders_def)

definition heads_of :: "bpf_insn list \<Rightarrow> int \<Rightarrow> int \<Rightarrow> int list" where
  "heads_of prog s e = sorted_list_of_set (leaders prog s e)"

lemma heads_of_unique: "sorted_wrt (<) hs \<Longrightarrow> set hs = leaders prog s e \<Longrightarrow> hs = heads_of prog s e"
  unfolding heads_of_def by (rule strict_sorted_equal) simp_all

lemma partition_bb_cases:
  assumes "0 \<le> f_start f" "f_start f \<le> f_end f" "f_end f < int (length prog)"
  defines "hs \<equiv> heads_of prog (f_start f) (f_end f)"
  shows "\<exists>h' fo. func_partition_bb prog f h = Some (h', fo) \<and>
    (case fo of
       None \<Rightarrow> outcomes h \<noteq> []
     | Some f' \<Rightarrow> f' = f\<lparr>f_bbs := blocks_of hs (f_end f), f_bb_num := 2 + int (length hs)\<rparr> \<and>
         (outcomes h = [] \<longrightarrow> outcomes h' = []) \<and> live h' = live h + length hs)"
proof -
  let ?s = "f_start f" and ?e = "f_end f"
  obtain h1 o1 where ap: "func_append_bb [] ?s h = (h1, o1)" by fastforce
  have ad: "added h [] {?s} (h1, o1)"
    using append_bb_added [of "[]" "[]" h ?s] by (simp add: ap fresh_blocks_def)
  show ?thesis
  proof (cases o1)
    case None
    then show ?thesis using ad by (simp add: func_partition_bb_def func_partition_bb_head_def ap added_def)
  next
    case (Some bbs1)
    then obtain hs1 where hs1: "fresh_blocks bbs1 hs1" "set hs1 = {?s}" using ad by (auto simp: added_def)
    have rng: "{?s..<?s + int (nat (?e + 1 - ?s))} = {?s..?e}" using assms(2) by auto
    obtain h2 o2 where lp: "bb_head_loop (nat (?e + 1 - ?s)) prog bbs1 ?s h1 = Some (h2, o2)"
        and ad2: "added h1 bbs1 (leaders prog ?s ?e) (h2, o2)"
      using bb_head_loop_added [OF hs1(1) assms(1), of "nat (?e + 1 - ?s)" prog h1] assms(2,3)
      unfolding rng hs1(2) leaders_def by auto
    have all: "added h [] (leaders prog ?s ?e) (h2, o2)" using added_trans ad ad2 Some by blast
    show ?thesis
    proof (cases o2)
      case None
      then show ?thesis using all Some
        by (simp add: func_partition_bb_def func_partition_bb_head_def ap lp added_def)
    next
      case s2: (Some bbs2)
      then obtain hs2 where "fresh_blocks bbs2 hs2" "set hs2 = leaders prog ?s ?e" using all by (auto simp: added_def)
      then have "bbs2 = map (\<lambda>p. new_bb (Some p)) hs" using heads_of_unique by (auto simp: fresh_blocks_def hs_def)
      then show ?thesis using all Some s2
        by (simp add: func_partition_bb_def func_partition_bb_head_def ap lp added_def func_partition_bb_tail_def
            NUM_FIXED_BLOCKS_def set_bb_tails_blocks)
    qed
  qed
qed

section \<open>Edges\<close>

text \<open>The successors that the code gives a block ending at \<open>t\<close>: instruction and kind of edge.\<close>

definition goes :: "bpf_insn list \<Rightarrow> int \<Rightarrow> (int \<times> int) list" where
  "goes prog t =
     (let i = prog ! nat t in
      if \<not> is_jmp_insn (code i) \<or> BPF_OP (code i) = BPF_EXIT then [(EDGE_FLAG_FALLTHROUGH, t + 1)]
      else if BPF_OP (code i) = BPF_JA then [(EDGE_FLAG_JUMP, target t i)]
      else [(EDGE_FLAG_FALLTHROUGH, t + 1), (EDGE_FLAG_JUMP, target t i)])"

definition block_no :: "int list \<Rightarrow> int \<Rightarrow> int option" where
  "block_no hs q = map_option (\<lambda>j. 2 + int j) (List.find (\<lambda>j. hs ! j = q) [0..<length hs])"

text \<open>The block an edge leads to, the exit block behind the last instruction.\<close>

definition dest :: "int list \<Rightarrow> int \<Rightarrow> int \<Rightarrow> int option" where
  "dest hs e q = (if q = e + 1 then Some EXIT_BLOCK_INDEX else block_no hs q)"

definition succs_at :: "bpf_insn list \<Rightarrow> int list \<Rightarrow> int \<Rightarrow> nat \<Rightarrow> edge_node list" where
  "succs_at prog hs e k =
     map (\<lambda>(fl, q). \<lparr>e_src = 2 + int k, e_dst = if fl = EDGE_FLAG_JUMP then block_no hs q else dest hs e q, e_flags = fl\<rparr>)
       (goes prog (the (bb_tail (block_at hs e k))))"

lemma find_map: "List.find P (map f xs) = map_option f (List.find (P \<circ> f) xs)"
  by (induction xs) auto

lemma block_no_nth:
  assumes "sorted_wrt (<) hs" "j < length hs"
  shows "block_no hs (hs ! j) = Some (2 + int j)"
proof -
  have "distinct hs" using assms(1) by (simp add: strict_sorted_iff)
  then have "List.find (\<lambda>i. hs ! i = hs ! j) [0..<length hs] = Some j"
    using assms(2) by (auto simp: find_Some_iff nth_eq_iff_index_eq)
  then show ?thesis by (simp add: block_no_def)
qed

lemma block_no_None: "q \<notin> set hs \<Longrightarrow> block_no hs q = None"
  by (auto simp: block_no_def find_None_iff in_set_conv_nth)

lemma search_blocks:
  assumes "bb_head en = None" "bb_head ex = None"
  shows "map_option bb_idx (func_search_bb_with_head (en # blocks_of hs e @ [ex]) q) = block_no hs q"
proof -
  have "is_bb_head q \<circ> block_at hs e = (\<lambda>j. hs ! j = q)" by (auto simp: is_bb_head_def block_at_def)
  then have "List.find (is_bb_head q) (blocks_of hs e) = map_option (block_at hs e) (List.find (\<lambda>j. hs ! j = q) [0..<length hs])"
    by (simp add: blocks_of_def find_map)
  then show ?thesis using assms
    by (auto simp: func_search_bb_with_head_def is_bb_head_def find_append block_no_def block_at_def split: option.splits)
qed

lemma calloc_ok: "outcomes h = [] \<Longrightarrow> calloc h = (True, h\<lparr>live := live h + 1\<rparr>)"
  by (simp add: calloc_def)

text \<open>The edges the code adds to a block whose successor in the list is \<open>nxt\<close>.\<close>

definition edges_for :: "bpf_insn list \<Rightarrow> bb_node list \<Rightarrow> bb_node \<Rightarrow> bb_node \<Rightarrow> edge_node list" where
  "edges_for prog all b nxt =
     (let t = the (bb_tail b); i = prog ! nat t;
          fall = \<lparr>e_src = bb_idx b, e_dst = Some (bb_idx nxt), e_flags = EDGE_FLAG_FALLTHROUGH\<rparr>;
          jump = \<lparr>e_src = bb_idx b, e_dst = map_option bb_idx (func_search_bb_with_head all (target t i)),
                  e_flags = EDGE_FLAG_JUMP\<rparr>
      in if \<not> is_jmp_insn (code i) \<or> BPF_OP (code i) = BPF_EXIT then [fall]
         else if BPF_OP (code i) = BPF_JA then [jump] else [fall, jump])"

lemma block_edges_ok:
  assumes "outcomes h = []" "bb_tail b = Some t" "0 \<le> t" "t < int (length prog)"
  shows "block_edges prog all b nxt h =
    Some (h\<lparr>live := live h + length (edges_for prog all b nxt)\<rparr>, Some (edges_for prog all b nxt))"
  using assms by (simp add: block_edges_def new_edge_def calloc_ok edges_for_def insn_at_in Let_def)

fun with_edges :: "bpf_insn list \<Rightarrow> bb_node list \<Rightarrow> bb_node list \<Rightarrow> bb_node list" where
  "with_edges prog all (b # nxt # bs) = b\<lparr>e_succs := e_succs b @ edges_for prog all b nxt\<rparr> # with_edges prog all (nxt # bs)"
| "with_edges prog all bs = bs"

definition nodes :: "bb_node list \<Rightarrow> nat" where
  "nodes bs = sum_list (map bb_nodes bs)"

lemma nodes_simps [simp]: "nodes [] = 0" "nodes (b # bs) = bb_nodes b + nodes bs" "nodes (bs @ cs) = nodes bs + nodes cs"
  by (simp_all add: nodes_def)

lemma edges_loop_ok:
  assumes "\<And>b. b \<in> set bs \<Longrightarrow> \<exists>t. bb_tail b = Some t \<and> 0 \<le> t \<and> t < int (length prog)"
  shows "outcomes h = [] \<Longrightarrow> \<exists>h'. edges_loop prog all (bs @ [x]) h = Some (h', Some (with_edges prog all (bs @ [x]))) \<and>
    outcomes h' = [] \<and> live h' + nodes (bs @ [x]) = live h + nodes (with_edges prog all (bs @ [x]))"
  using assms
proof (induction bs arbitrary: h)
  case (Cons b bs)
  obtain nxt rest where nr: "bs @ [x] = nxt # rest" by (cases bs) auto
  obtain t where t: "bb_tail b = Some t" "0 \<le> t" "t < int (length prog)" using Cons.prems(2) by auto
  note be = block_edges_ok [OF Cons.prems(1) t, of all nxt]
  let ?es = "edges_for prog all b nxt"
  obtain h' where "edges_loop prog all (bs @ [x]) (h\<lparr>live := live h + length ?es\<rparr>) = Some (h', Some (with_edges prog all (bs @ [x])))"
      "outcomes h' = []" "live h' + nodes (bs @ [x]) = live h + length ?es + nodes (with_edges prog all (bs @ [x]))"
    using Cons.IH [of "h\<lparr>live := live h + length ?es\<rparr>"] Cons.prems by auto
  then show ?case using be nr by (auto simp: bb_nodes_def)
qed simp

lemma with_edges_nth:
  "k < length bs \<Longrightarrow> with_edges prog all (bs @ [x]) ! k =
     (bs ! k)\<lparr>e_succs := e_succs (bs ! k) @ edges_for prog all (bs ! k) ((bs @ [x]) ! Suc k)\<rparr>"
proof (induction bs arbitrary: k)
  case (Cons b bs)
  obtain nxt rest where "bs @ [x] = nxt # rest" by (cases bs) auto
  then show ?case using Cons.IH [of "k - 1"] Cons.prems by (cases k) auto
qed simp

lemma with_edges_snoc: "with_edges prog all (bs @ [x]) = take (length bs) (with_edges prog all (bs @ [x])) @ [x]"
  "length (with_edges prog all bs) = length bs"
proof -
  show "with_edges prog all (bs @ [x]) = take (length bs) (with_edges prog all (bs @ [x])) @ [x]"
  proof (induction bs)
    case (Cons b bs)
    obtain nxt rest where "bs @ [x] = nxt # rest" by (cases bs) auto
    then show ?case using Cons.IH by simp
  qed simp
  show "length (with_edges prog all bs) = length bs"
    by (induction prog all bs rule: with_edges.induct) auto
qed


section \<open>The graph of a function\<close>

text \<open>
  Entry block, the blocks from head to the instruction before the next head, exit block, with the edges of their last
  instructions, which lead to a block unless the block ends in a call.
\<close>

definition calls :: "bpf_insn \<Rightarrow> bool" where
  "calls i \<longleftrightarrow> is_jmp_insn (code i) \<and> BPF_OP (code i) = BPF_CALL"

definition graph_ok :: "bpf_insn list \<Rightarrow> func_node \<Rightarrow> bool" where
  "graph_ok prog f \<longleftrightarrow>
     (let hs = heads_of prog (f_start f) (f_end f); n = length hs; bs = f_bbs f in
      length bs = n + 2 \<and> f_bb_num f = 2 + int n \<and>
      bb_idx (bs ! 0) = ENTRY_BLOCK_INDEX \<and> bb_idx (bs ! (n + 1)) = EXIT_BLOCK_INDEX \<and> e_succs (bs ! (n + 1)) = [] \<and>
      e_succs (bs ! 0) = [\<lparr>e_src = ENTRY_BLOCK_INDEX, e_dst = Some 2, e_flags = EDGE_FLAG_FALLTHROUGH\<rparr>] \<and>
      (\<forall>k<n. let b = bs ! Suc k; t = (if Suc k < n then hs ! Suc k - 1 else f_end f) in
         bb_head b = Some (hs ! k) \<and> bb_tail b = Some t \<and> bb_idx b = 2 + int k \<and> e_succs b = succs_at prog hs (f_end f) k \<and>
         (calls (prog ! nat t) \<or> list_all (\<lambda>e. e_dst e \<noteq> None) (e_succs b))))"

lemma heads_strict [simp]: "sorted_wrt (<) (heads_of prog s e)" "set (heads_of prog s e) = leaders prog s e"
  by (simp_all add: heads_of_def)

lemma tail_inside:
  assumes ok: "func_ok prog (s, e)" and k: "k < length (heads_of prog s e)"
  obtains t where "bb_tail (block_at (heads_of prog s e) e k) = Some t" "s \<le> t" "t \<le> e"
proof -
  let ?hs = "heads_of prog s e"
  have lead: "\<And>p. p \<in> set ?hs \<Longrightarrow> s \<le> p \<and> p \<le> e" using func_ok_leaders [OF ok] by auto
  show ?thesis
  proof (cases "Suc k < length ?hs")
    case True
    have "?hs ! k < ?hs ! Suc k" using sorted_wrt_nth_less [OF heads_strict(1) lessI True] .
    then show ?thesis using that lead [OF nth_mem, of k] lead [OF nth_mem, of "Suc k"] True by (auto simp: block_at_def)
  next
    case False
    then show ?thesis using ok that by (auto simp: func_ok_def block_at_def)
  qed
qed

lemma edges_for_succs_at:
  assumes ok: "func_ok prog (s, e)" and hs: "hs = heads_of prog s e" and k: "k < length hs"
    and en: "bb_head en = None" and ex: "bb_head ex = None" "bb_idx ex = EXIT_BLOCK_INDEX"
    and t: "t = the (bb_tail (block_at hs e k))"
  shows "edges_for prog (en # blocks_of hs e @ [ex]) (block_at hs e k) ((blocks_of hs e @ [ex]) ! Suc k) =
      succs_at prog hs e k \<and> (calls (prog ! nat t) \<or> list_all (\<lambda>e. e_dst e \<noteq> None) (succs_at prog hs e k))"
proof -
  have srt: "sorted_wrt (<) hs" and hset: "set hs = leaders prog s e" by (simp_all add: hs)
  let ?i = "prog ! nat t" and ?all = "en # blocks_of hs e @ [ex]" and ?nxt = "(blocks_of hs e @ [ex]) ! Suc k"
  have lead: "\<And>p. p \<in> set hs \<Longrightarrow> s \<le> p \<and> p \<le> e" using func_ok_leaders [OF ok] hset by auto
  have t': "t = (if Suc k < length hs then hs ! Suc k - 1 else e)" by (simp add: t block_at_def)
  have fall: "Some (bb_idx ?nxt) = dest hs e (t + 1) \<and> dest hs e (t + 1) \<noteq> None"
  proof (cases "Suc k < length hs")
    case True
    then have "hs ! Suc k \<le> e" using lead nth_mem by blast
    then show ?thesis using True block_no_nth [OF srt True]
      by (simp add: t' dest_def nth_append blocks_of_def block_at_def)
  next
    case False
    then show ?thesis using k ex(2) by (simp add: t' dest_def nth_append blocks_of_def)
  qed
  have bounds: "s \<le> t \<and> t \<le> e"
    using tail_inside [OF ok k [unfolded hs], folded hs, of "s \<le> t \<and> t \<le> e"] by (simp add: t)
  have jump: "block_no hs (target t ?i) \<noteq> None" if "branch ?i"
  proof -
    have "target t ?i \<in> set (leads prog t)" using that by (simp add: leads_def Let_def)
    then have "target t ?i \<in> leaders prog s e" using bounds unfolding leaders_def by (intro insertI2 UN_I) auto
    then obtain j where "j < length hs" "target t ?i = hs ! j" by (auto simp: hset [symmetric] in_set_conv_nth)
    then show ?thesis using block_no_nth [OF srt] by simp
  qed
  show ?thesis
    unfolding edges_for_def succs_at_def goes_def Let_def t [symmetric] search_blocks [OF en ex(1)]
    using fall jump by (auto simp: block_at_def branch_def calls_def EDGE_FLAG_JUMP_def EDGE_FLAG_FALLTHROUGH_def
        BPF_JA_def BPF_CALL_def)
qed

text \<open>The steps of \<open>cfg_build\<close> for one function.\<close>

definition build_func :: "bpf_insn list \<Rightarrow> func_node \<Rightarrow> heap \<Rightarrow> (heap \<times> func_node option) option" where
  "build_func prog f h =
     do { r \<leftarrow> func_partition_bb prog f h;
          (case r of
             (h, None) \<Rightarrow> Some (h, None)
           | (h, Some f) \<Rightarrow>
               (case func_add_special_bb f h of
                  (h, None) \<Rightarrow> Some (h, None)
                | (h, Some f) \<Rightarrow> func_add_bb_edges prog f h)) }"

definition entry_node :: bb_node where
  "entry_node = (new_bb None)\<lparr>bb_idx := ENTRY_BLOCK_INDEX,
     e_succs := [\<lparr>e_src = ENTRY_BLOCK_INDEX, e_dst = Some 2, e_flags = EDGE_FLAG_FALLTHROUGH\<rparr>]\<rparr>"

definition exit_node :: "nat \<Rightarrow> bb_node" where
  "exit_node n = (new_bb None)\<lparr>bb_idx := EXIT_BLOCK_INDEX,
     e_prevs := [\<lparr>e_src = 1 + int n, e_dst = Some EXIT_BLOCK_INDEX, e_flags = EDGE_FLAG_FALLTHROUGH\<rparr>]\<rparr>"

lemma blocks_of_nonempty: "hs \<noteq> [] \<Longrightarrow> \<exists>bs. blocks_of hs e = block_at hs e 0 # bs \<and> last (blocks_of hs e) = block_at hs e (length hs - 1)"
proof -
  assume "hs \<noteq> []"
  then have n: "0 < length hs" by simp
  then have "blocks_of hs e = block_at hs e 0 # map (block_at hs e) [Suc 0..<length hs]"
    unfolding blocks_of_def upt_conv_Cons [OF n] by simp
  moreover have "last (blocks_of hs e) = block_at hs e (length hs - 1)"
    unfolding blocks_of_def using n by (subst last_map) (simp_all add: last_upt)
  ultimately show ?thesis by blast
qed

lemma add_bb_edges_blocks:
  assumes "hs \<noteq> []" "outcomes h = []" "f_bbs f = (new_bb None)\<lparr>bb_idx := 0\<rparr> # blocks_of hs e @ [(new_bb None)\<lparr>bb_idx := 1\<rparr>]"
  shows "func_add_bb_edges prog f h =
    (edges_loop prog (entry_node # blocks_of hs e @ [exit_node (length hs)]) (blocks_of hs e @ [exit_node (length hs)])
        (h\<lparr>live := live h + 2\<rparr>) \<bind>
      (\<lambda>r. case r of (h, None) \<Rightarrow> Some (h, None)
         | (h, Some bs) \<Rightarrow> Some (h, Some (f\<lparr>f_bbs := entry_node # bs\<rparr>))))"
proof -
  obtain bs where bs: "blocks_of hs e = block_at hs e 0 # bs" "last (blocks_of hs e) = block_at hs e (length hs - 1)"
    using blocks_of_nonempty [OF assms(1)] by blast
  have l: "last (block_at hs e 0 # bs) = block_at hs e (length hs - 1)" using bs by simp
  have i: "bb_idx (block_at hs e 0) = 2" "bb_idx (block_at hs e (length hs - 1)) = 1 + int (length hs)"
    using assms(1) by (simp_all add: block_at_def of_nat_diff Suc_le_eq)
  show ?thesis
    unfolding func_add_bb_edges_def assms(3) bs(1) entry_node_def exit_node_def new_bb_def
      ENTRY_BLOCK_INDEX_def EXIT_BLOCK_INDEX_def
    using assms(2) l i by (simp add: new_edge_def calloc_ok Let_def butlast_append cong: option.case_cong)
qed

lemma graph_ok_built:
  assumes ok: "func_ok prog (s, e)"
    and f: "f_start f = s" "f_end f = e" "f_bb_num f = 2 + int (length (heads_of prog s e))"
      "f_bbs f = entry_node # with_edges prog
         (entry_node # blocks_of (heads_of prog s e) e @ [exit_node (length (heads_of prog s e))])
         (blocks_of (heads_of prog s e) e @ [exit_node (length (heads_of prog s e))])"
  shows "graph_ok prog f"
proof -
  define hs where "hs = heads_of prog s e"
  let ?n = "length hs" and ?bs = "blocks_of hs e" and ?ex = "exit_node (length hs)"
  let ?all = "entry_node # ?bs @ [?ex]"
  have len: "length ?bs = ?n" by (simp add: blocks_of_def)
  have bbs: "f_bbs f = entry_node # with_edges prog ?all (?bs @ [?ex])" using f(4) by (simp add: hs_def)
  have head: "bb_head entry_node = None" "bb_head ?ex = None" "bb_idx ?ex = EXIT_BLOCK_INDEX"
    by (simp_all add: entry_node_def exit_node_def new_bb_def)
  have nth: "f_bbs f ! Suc k = (block_at hs e k)\<lparr>e_succs := edges_for prog ?all (block_at hs e k) ((?bs @ [?ex]) ! Suc k)\<rparr>"
    if "k < ?n" for k
    using with_edges_nth [of k ?bs prog ?all ?ex] that len by (simp add: bbs blocks_of_def block_at_def)
  have last: "f_bbs f ! Suc ?n = ?ex"
    unfolding bbs using with_edges_snoc(2) [of prog ?all "?bs @ [?ex]"] len
    by (subst with_edges_snoc(1)) (simp add: nth_append)
  have block: "bb_head (f_bbs f ! Suc k) = Some (hs ! k)" "bb_idx (f_bbs f ! Suc k) = 2 + int k"
      "bb_tail (f_bbs f ! Suc k) = Some (if Suc k < ?n then hs ! Suc k - 1 else e)" if "k < ?n" for k
    by (simp_all add: nth [OF that] block_at_def)
  have edges: "e_succs (f_bbs f ! Suc k) = succs_at prog hs e k"
      "calls (prog ! nat t) \<or> list_all (\<lambda>e. e_dst e \<noteq> None) (e_succs (f_bbs f ! Suc k))"
    if "k < ?n" "t = (if Suc k < ?n then hs ! Suc k - 1 else e)" for k t
    using edges_for_succs_at [OF ok hs_def that(1) head, of t] that(2) nth [OF that(1)] by (simp_all add: block_at_def)
  have ends: "length (f_bbs f) = ?n + 2" "bb_idx (f_bbs f ! 0) = ENTRY_BLOCK_INDEX"
      "e_succs (f_bbs f ! 0) = [\<lparr>e_src = ENTRY_BLOCK_INDEX, e_dst = Some 2, e_flags = EDGE_FLAG_FALLTHROUGH\<rparr>]"
      "bb_idx (f_bbs f ! (?n + 1)) = EXIT_BLOCK_INDEX" "e_succs (f_bbs f ! (?n + 1)) = []"
    using last by (simp_all add: bbs with_edges_snoc(2) len entry_node_def exit_node_def new_bb_def)
  show ?thesis
    unfolding graph_ok_def Let_def f(1,2) hs_def [symmetric]
    using edges [OF _ refl] f(3) [folded hs_def] by (intro conjI allI impI ends block) blast+
qed

lemma build_func_ok:
  assumes ok: "func_ok prog (f_start f, f_end f)" and mem: "outcomes h = []"
  shows "\<exists>h' f'. build_func prog f h = Some (h', Some f') \<and> outcomes h' = [] \<and> live h' = live h + nodes (f_bbs f') \<and>
    f_start f' = f_start f \<and> f_end f' = f_end f \<and> f_idx f' = f_idx f \<and> graph_ok prog f'"
proof -
  let ?s = "f_start f" and ?e = "f_end f"
  define hs where "hs = heads_of prog ?s ?e"
  have sub: "leaders prog ?s ?e \<subseteq> {?s..?e}" "?s \<in> leaders prog ?s ?e" using func_ok_leaders [OF ok] by simp_all
  then have ne: "hs \<noteq> []" unfolding hs_def using heads_strict(2) [of prog ?s ?e] by (metis empty_iff list.set(1))
  have rng: "0 \<le> ?s" "?s \<le> ?e" "?e < int (length prog)" using ok by (simp_all add: func_ok_def)
  let ?f1 = "f\<lparr>f_bbs := blocks_of hs ?e, f_bb_num := 2 + int (length hs)\<rparr>"
  obtain h1 where p: "func_partition_bb prog f h = Some (h1, Some ?f1)" "outcomes h1 = []" "live h1 = live h + length hs"
    using partition_bb_cases [OF rng, of h] mem by (auto simp: hs_def split: option.splits)
  let ?en = "entry_node" and ?ex = "exit_node (length hs)" and ?bs = "blocks_of hs ?e"
  let ?f2 = "?f1\<lparr>f_bbs := (new_bb None)\<lparr>bb_idx := 0\<rparr> # ?bs @ [(new_bb None)\<lparr>bb_idx := 1\<rparr>]\<rparr>"
  define h2 where "h2 = h1\<lparr>live := live h1 + 2\<rparr>"
  have h2: "outcomes h2 = []" "live h2 = live h1 + 2" using p(2) by (simp_all add: h2_def)
  have sp: "func_add_special_bb ?f1 h1 = (h2, Some ?f2)"
    using p(2) by (simp add: h2_def func_add_special_bb_def func_insert_dummy_bb_def calloc_ok ENTRY_BLOCK_INDEX_def
        EXIT_BLOCK_INDEX_def, simp add: list_add_at_def)
  have tails: "\<exists>t. bb_tail b = Some t \<and> 0 \<le> t \<and> t < int (length prog)" if "b \<in> set ?bs" for b
    using that tail_inside [OF ok] rng by (fastforce simp: blocks_of_def hs_def)
  let ?h2 = "h2\<lparr>live := live h2 + 2\<rparr>" and ?all = "?en # ?bs @ [?ex]"
  obtain h3 where lp: "edges_loop prog ?all (?bs @ [?ex]) ?h2 = Some (h3, Some (with_edges prog ?all (?bs @ [?ex])))"
      "outcomes h3 = []" "live h3 + nodes (?bs @ [?ex]) = live ?h2 + nodes (with_edges prog ?all (?bs @ [?ex]))"
    using edges_loop_ok [OF tails, of ?bs ?h2 ?all ?ex] h2(1) by auto
  let ?f3 = "?f2\<lparr>f_bbs := ?en # with_edges prog ?all (?bs @ [?ex])\<rparr>"
  have built: "build_func prog f h = Some (h3, Some ?f3)"
    using add_bb_edges_blocks [OF ne h2(1), of ?f2 ?e prog] unfolding build_func_def p(1) lp(1) by (simp add: sp)
  have "nodes (?bs @ [?ex]) = length hs + 2"
    by (simp add: nodes_def blocks_of_def comp_def block_at_def bb_nodes_def exit_node_def new_bb_def sum_list_triv)
  moreover have "bb_nodes ?en = 2" by (simp add: bb_nodes_def entry_node_def new_bb_def)
  ultimately have "live h3 = live h + nodes (f_bbs ?f3)" using lp(3) p(3) h2(2) by simp
  moreover have "graph_ok prog ?f3"
    unfolding hs_def by (rule graph_ok_built) (use ok in simp_all)
  ultimately show ?thesis using built lp(2) by (intro exI [of _ h3] exI [of _ ?f3]) simp
qed

section \<open>The graphs of a program\<close>

lemma build_funcs_Cons:
  "build_funcs prog (f # fs) h = build_func prog f h \<bind>
     (\<lambda>r. case r of (h, None) \<Rightarrow> Some (h, None)
        | (h, Some f) \<Rightarrow> build_funcs prog fs h \<bind>
            (\<lambda>r. case r of (h, None) \<Rightarrow> Some (h, None) | (h, Some fs) \<Rightarrow> Some (h, Some (f # fs))))"
  by (auto simp: build_func_def split: option.splits prod.splits bind_splits)

definition func_range :: "func_node \<Rightarrow> int \<times> int" where
  "func_range f = (f_start f, f_end f)"

lemma func_nodes_of: "func_nodes f = nodes (f_bbs f) + 1"
  by (simp add: func_nodes_def nodes_def)

lemma build_funcs_ok:
  "list_all (func_ok prog) (map func_range fs) \<Longrightarrow> outcomes h = [] \<Longrightarrow>
     \<exists>h' fs'. build_funcs prog fs h = Some (h', Some fs') \<and> outcomes h' = [] \<and>
       live h' + length fs = live h + sum_list (map func_nodes fs') \<and> length fs' = length fs \<and>
       map func_range fs' = map func_range fs \<and> list_all (graph_ok prog) fs'"
proof (induction fs arbitrary: h)
  case (Cons f fs)
  obtain h1 f1 where f1: "build_func prog f h = Some (h1, Some f1)" "outcomes h1 = []" "live h1 = live h + nodes (f_bbs f1)"
      "func_range f1 = func_range f" "graph_ok prog f1"
    using build_func_ok [of prog f h] Cons.prems by (auto simp: func_range_def)
  obtain h2 fs2 where fs2: "build_funcs prog fs h1 = Some (h2, Some fs2)" "outcomes h2 = []"
      "live h2 + length fs = live h1 + sum_list (map func_nodes fs2)" "length fs2 = length fs"
      "map func_range fs2 = map func_range fs" "list_all (graph_ok prog) fs2"
    using Cons.IH [of h1] Cons.prems f1(2) by auto
  show ?case
    unfolding build_funcs_Cons f1(1) using fs2 f1 func_nodes_of [of f1] by simp
qed simp

text \<open>The starts of the functions: the first instruction and the targets of the calls of subprograms.\<close>

definition call_targets :: "bpf_insn list \<Rightarrow> int \<Rightarrow> int list" where
  "call_targets prog p =
     (let i = prog ! nat p in
      if code i = BPF_JMP OR BPF_CALL \<and> src_reg i = BPF_PSEUDO_CALL then [target p i] else [])"

definition start_set :: "bpf_insn list \<Rightarrow> int set" where
  "start_set prog = insert 0 (\<Union>p\<in>{0..<int (length prog)}. set (call_targets prog p))"

definition func_starts :: "bpf_insn list \<Rightarrow> int list" where
  "func_starts prog = sorted_list_of_set (start_set prog)"

definition func_ranges :: "bpf_insn list \<Rightarrow> (int \<times> int) list" where
  "func_ranges prog =
     (let ss = func_starts prog in zip ss (map (\<lambda>s. s - 1) (tl ss) @ [int (length prog) - 1]))"

definition ordered_funcs :: "cfg \<Rightarrow> int set \<Rightarrow> bool" where
  "ordered_funcs c S \<longleftrightarrow> sorted_wrt (<) (map f_start (cfg_funcs c)) \<and> f_start ` set (cfg_funcs c) = S"

lemma append_func_ok:
  assumes "ordered_funcs c S" "outcomes h = []"
  shows "\<exists>h' c'. cfg_append_func c p h = (h', Some c') \<and> outcomes h' = [] \<and> ordered_funcs c' (insert p S) \<and>
    live h' + length (cfg_funcs c) = live h + length (cfg_funcs c')"
proof -
  have srt: "sorted_wrt (<) (map f_start (cfg_funcs c))" and S: "f_start ` set (cfg_funcs c) = S"
    using assms(1) by (simp_all add: ordered_funcs_def)
  note w = walk_Inl_Inr [OF srt, of "\<lambda>f. f_start f = p" p "\<lambda>f. p < f_start f" 0, unfolded S, simplified]
  show ?thesis
  proof (cases "p \<in> S")
    case True
    then obtain k where "walk (\<lambda>f. f_start f = p) (\<lambda>f. p < f_start f) 0 (cfg_funcs c) = Inl k" using w by auto
    then show ?thesis using True assms by (auto simp: cfg_append_func_def insert_absorb)
  next
    case False
    then obtain k where k: "walk (\<lambda>f. f_start f = p) (\<lambda>f. p < f_start f) 0 (cfg_funcs c) = Inr k"
        "\<forall>y. f_start y = p \<longrightarrow> map f_start (list_add_at k y (cfg_funcs c)) = insort p (map f_start (cfg_funcs c))"
      using w by auto
    have "sorted_wrt (<) (insort p (map f_start (cfg_funcs c)))"
      using insort_strict [OF srt, of p] False S by (metis list.set_map)
    then show ?thesis using k assms S
      by (simp add: cfg_append_func_def calloc_ok ordered_funcs_def)
  qed
qed

lemma funcs_loop_ok:
  assumes "ordered_funcs c S" "outcomes h = []" "0 \<le> cur" "cur + int n \<le> int (length prog)"
  shows "\<exists>h' c'. partition_funcs_loop n prog c cur h = Some (h', Some c') \<and> outcomes h' = [] \<and>
    ordered_funcs c' (S \<union> (\<Union>p\<in>{cur..<cur + int n}. set (call_targets prog p))) \<and>
    live h' + length (cfg_funcs c) = live h + length (cfg_funcs c')"
  using assms
proof (induction n arbitrary: c S cur h)
  case (Suc n)
  let ?i = "prog ! nat cur" and ?D = "\<Union>p\<in>{cur + 1..<cur + 1 + int n}. set (call_targets prog p)"
  have at: "insn_at prog cur = Some ?i" using Suc.prems by (intro insn_at_in) auto
  show ?case
  proof (cases "code ?i = BPF_JMP OR BPF_CALL \<and> src_reg ?i = BPF_PSEUDO_CALL")
    case False
    then have "S \<union> (\<Union>p\<in>{cur..<cur + int (Suc n)}. set (call_targets prog p)) = S \<union> ?D"
      unfolding upto_step by (auto simp: call_targets_def Let_def)
    then show ?thesis using False Suc.IH [OF Suc.prems(1,2), of "cur + 1"] Suc.prems by (auto simp: at)
  next
    case True
    then have S: "insert (target cur ?i) S \<union> ?D = S \<union> (\<Union>p\<in>{cur..<cur + int (Suc n)}. set (call_targets prog p))"
      unfolding upto_step by (auto simp: call_targets_def Let_def)
    obtain h1 c1 where c1: "cfg_append_func c (target cur ?i) h = (h1, Some c1)" "outcomes h1 = []"
        "ordered_funcs c1 (insert (target cur ?i) S)" "live h1 + length (cfg_funcs c) = live h + length (cfg_funcs c1)"
      using append_func_ok [OF Suc.prems(1,2)] by blast
    obtain h2 c2 where "partition_funcs_loop n prog c1 (cur + 1) h1 = Some (h2, Some c2)" "outcomes h2 = []"
        "ordered_funcs c2 (insert (target cur ?i) S \<union> ?D)" "live h2 + length (cfg_funcs c1) = live h1 + length (cfg_funcs c2)"
      using Suc.IH [OF c1(3,2), of "cur + 1"] Suc.prems by auto
    then show ?thesis using True c1 unfolding S by (simp add: at)
  qed
qed simp

lemma set_func_ends_ranges:
  "fs \<noteq> [] \<Longrightarrow> map func_range (set_func_ends e fs) =
     zip (map f_start fs) (map (\<lambda>s. s - 1) (tl (map f_start fs)) @ [e - 1])"
  "length (set_func_ends e fs) = length fs"
  by (induction e fs rule: set_func_ends.induct) (simp_all add: func_range_def)

lemma cfg_partition_ok:
  assumes "outcomes h = []"
  shows "\<exists>h' c. cfg_partition_funcs prog \<lparr>cfg_funcs = [], cfg_func_num = 0\<rparr> 0 (int (length prog)) h = Some (h', Some c) \<and>
    outcomes h' = [] \<and> live h' = live h + length (cfg_funcs c) \<and> map func_range (cfg_funcs c) = func_ranges prog"
proof -
  let ?c = "\<lparr>cfg_funcs = [], cfg_func_num = 0\<rparr>"
  obtain h1 c1 where c1: "cfg_append_func ?c 0 h = (h1, Some c1)" "outcomes h1 = []" "ordered_funcs c1 {0}"
      "live h1 = live h + length (cfg_funcs c1)"
    using append_func_ok [of ?c "{}" h 0] assms by (auto simp: ordered_funcs_def)
  obtain h2 c2 where c2: "partition_funcs_loop (length prog) prog c1 0 h1 = Some (h2, Some c2)" "outcomes h2 = []"
      "ordered_funcs c2 (start_set prog)" "live h2 + length (cfg_funcs c1) = live h1 + length (cfg_funcs c2)"
    using funcs_loop_ok [OF c1(3,2), of 0 "length prog" prog] by (auto simp: start_set_def)
  have "finite (start_set prog)" by (simp add: start_set_def)
  then have starts: "map f_start (cfg_funcs c2) = func_starts prog"
    using c2(3) unfolding func_starts_def ordered_funcs_def by (intro strict_sorted_equal) simp_all
  moreover have "cfg_funcs c2 \<noteq> []" using c2(3) by (auto simp: ordered_funcs_def start_set_def)
  ultimately have "map func_range (set_func_ends (int (length prog)) (cfg_funcs c2)) = func_ranges prog"
    by (simp add: set_func_ends_ranges(1) func_ranges_def Let_def)
  then show ?thesis using c1 c2 by (simp add: cfg_partition_funcs_def set_func_ends_ranges(2))
qed

lemma cfg_build_ok:
  assumes "outcomes h = []" "unat len div 8 = length prog" "list_all (func_ok prog) (func_ranges prog)"
  shows "\<exists>h' c. cfg_build prog len h = Some (h', Some c) \<and> map func_range (cfg_funcs c) = func_ranges prog \<and>
    list_all (graph_ok prog) (cfg_funcs c) \<and> live (cfg_destroy c h') = live h"
proof -
  obtain h1 c1 where c1: "cfg_partition_funcs prog \<lparr>cfg_funcs = [], cfg_func_num = 0\<rparr> 0 (int (length prog)) h = Some (h1, Some c1)"
      "outcomes h1 = []" "live h1 = live h + length (cfg_funcs c1)" "map func_range (cfg_funcs c1) = func_ranges prog"
    using cfg_partition_ok [OF assms(1)] by blast
  obtain h2 fs where fs: "build_funcs prog (cfg_funcs c1) h1 = Some (h2, Some fs)"
      "live h2 + length (cfg_funcs c1) = live h1 + sum_list (map func_nodes fs)" "map func_range fs = func_ranges prog"
      "list_all (graph_ok prog) fs"
    using build_funcs_ok [of prog "cfg_funcs c1" h1] c1(2,4) assms(3) by auto
  then show ?thesis using c1 by (simp add: cfg_build_def assms(2) cfg_destroy_def)
qed

text \<open>Drawing a graph whose edges all lead to a block.\<close>

definition no_call_tails :: "bpf_insn list \<Rightarrow> int \<times> int \<Rightarrow> bool" where
  "no_call_tails prog = (\<lambda>(s, e). let hs = heads_of prog s e in
     list_all (\<lambda>k. let i = prog ! nat (if Suc k < length hs then hs ! Suc k - 1 else e) in
       \<not> (is_jmp_insn (code i) \<and> BPF_OP (code i) = BPF_CALL)) [0..<length hs])"





section \<open>The flow of control\<close>

text \<open>
  Where execution continues in the same function after the instruction at \<open>p\<close>: a call returns to the next
  instruction, and the offset of a 32-bit \<open>BPF_JA\<close> is in \<open>imm\<close>.
\<close>

definition leaves :: "bpf_insn \<Rightarrow> bool" where
  "leaves i \<longleftrightarrow> is_jmp_insn (code i) \<and> BPF_OP (code i) = BPF_EXIT"

definition gotol :: "bpf_insn \<Rightarrow> bool" where
  "gotol i \<longleftrightarrow> BPF_CLASS (code i) = BPF_JMP32 \<and> BPF_OP (code i) = BPF_JA"

definition goto :: "bpf_insn \<Rightarrow> bool" where
  "goto i \<longleftrightarrow> is_jmp_insn (code i) \<and> BPF_OP (code i) = BPF_JA"

definition runs_to :: "bpf_insn list \<Rightarrow> int \<Rightarrow> int set" where
  "runs_to prog p =
     (let i = prog ! nat p; there = (if gotol i then p + sint (imm i) + 1 else p + sint (off i) + 1)
      in if leaves i then {} else if goto i then {there} else if branch i then {p + 1, there} else {p + 1})"

text \<open>The instruction at which a block of a function starts, by its number; the exit block stands behind the last one.\<close>

definition block_start :: "func_node \<Rightarrow> int \<Rightarrow> int" where
  "block_start f d = (if d = EXIT_BLOCK_INDEX then f_end f + 1 else the (bb_head (f_bbs f ! nat (d - 1))))"

definition bb_range :: "bb_node \<Rightarrow> int set" where
  "bb_range b = {the (bb_head b)..the (bb_tail b)}"

text \<open>The blocks: consecutive stretches of instructions, entered at their heads only, and left at their tails only (or at an unconditional
  jump, which may have unreachable instructions after it), and no finer than that.\<close>

definition blocks_ok :: "bpf_insn list \<Rightarrow> func_node \<Rightarrow> bb_node list \<Rightarrow> bool" where
  "blocks_ok prog f bs \<longleftrightarrow>
     bs \<noteq> [] \<and> bb_head (hd bs) = Some (f_start f) \<and> bb_tail (last bs) = Some (f_end f) \<and>
     (\<forall>k < length bs. bb_idx (bs ! k) = 2 + int k \<and> bb_range (bs ! k) \<noteq> {}) \<and>
     (\<forall>k. Suc k < length bs \<longrightarrow> bb_head (bs ! Suc k) = map_option (\<lambda>t. t + 1) (bb_tail (bs ! k))) \<and>
     (\<forall>p \<in> {f_start f..f_end f}. \<forall>q \<in> runs_to prog p. q \<noteq> p + 1 \<longrightarrow> Some q \<in> bb_head ` set bs) \<and>
     (\<forall>b \<in> set bs. \<forall>p \<in> bb_range b. bb_tail b \<noteq> Some p \<longrightarrow> runs_to prog p \<subseteq> {p + 1} \<or> goto (prog ! nat p)) \<and>
     (\<forall>b \<in> set bs. bb_head b \<noteq> Some (f_start f) \<longrightarrow>
        (\<exists>p \<in> {f_start f..f_end f}. branch (prog ! nat p) \<and> the (bb_head b) \<in> runs_to prog p))"

text \<open>
  The edges of a block: one to every block that execution may reach from its last instruction, and no others, apart from two:
  an exit instruction has an edge to the next block, and a call one to the block at its target, if there is one, else nowhere.
\<close>

definition edges_ok :: "bpf_insn list \<Rightarrow> func_node \<Rightarrow> bb_node \<Rightarrow> bool" where
  "edges_ok prog f b \<longleftrightarrow>
     (let t = the (bb_tail b); i = prog ! nat t in
      (\<forall>q \<in> runs_to prog t. \<exists>e \<in> set (e_succs b). \<exists>d. e_dst e = Some d \<and> block_start f d = q) \<and>
      (\<forall>e \<in> set (e_succs b). e_src e = bb_idx b \<and>
         (case e_dst e of
            None \<Rightarrow> calls i
          | Some d \<Rightarrow> block_start f d \<in> runs_to prog t \<or> leaves i \<and> block_start f d = t + 1 \<or> calls i \<and> block_start f d = target t i)))"

definition flow_graph :: "bpf_insn list \<Rightarrow> func_node \<Rightarrow> bool" where
  "flow_graph prog f \<longleftrightarrow>
     (\<exists>en bs ex. f_bbs f = en # bs @ [ex] \<and> bb_idx en = ENTRY_BLOCK_INDEX \<and> bb_idx ex = EXIT_BLOCK_INDEX \<and> e_succs ex = [] \<and>
        e_succs en = [\<lparr>e_src = ENTRY_BLOCK_INDEX, e_dst = Some (bb_idx (hd bs)), e_flags = EDGE_FLAG_FALLTHROUGH\<rparr>] \<and>
        blocks_ok prog f bs \<and> list_all (edges_ok prog f) bs)"

lemma opcodes_differ: "BPF_JA \<noteq> BPF_EXIT" "BPF_JA \<noteq> BPF_CALL" "BPF_CALL \<noteq> BPF_EXIT"
  by (simp_all add: BPF_JA_def BPF_EXIT_def BPF_CALL_def)

text \<open>Without \<open>gotol\<close> the code looks for targets in the right place.\<close>

lemma runs_to_leads:
  assumes "\<not> gotol (prog ! nat p)"
  shows "q \<in> runs_to prog p \<Longrightarrow> q \<noteq> p + 1 \<Longrightarrow> q \<in> set (leads prog p)"
    "q \<in> set (leads prog p) \<Longrightarrow> q \<in> runs_to prog p \<and> branch (prog ! nat p)"
    "branch (prog ! nat p) \<Longrightarrow> \<not> goto (prog ! nat p) \<Longrightarrow> p + 1 \<in> set (leads prog p)"
  using assms opcodes_differ
  by (auto simp: runs_to_def leads_def Let_def branch_def goto_def leaves_def target_def split: if_splits)

lemma runs_to_goes:
  assumes "\<not> gotol (prog ! nat p)"
  shows "runs_to prog p = snd ` {x \<in> set (goes prog p). \<not> (leaves (prog ! nat p)) \<and> (calls (prog ! nat p) \<longrightarrow> fst x = EDGE_FLAG_FALLTHROUGH)}"
  using assms opcodes_differ
  by (auto simp: runs_to_def goes_def Let_def branch_def goto_def leaves_def calls_def target_def EDGE_FLAG_JUMP_def EDGE_FLAG_FALLTHROUGH_def image_iff
      split: if_splits)

lemma goes_cases:
  assumes "x \<in> set (goes prog t)"
  shows "leaves (prog ! nat t) \<Longrightarrow> x = (EDGE_FLAG_FALLTHROUGH, t + 1)"
    "calls (prog ! nat t) \<Longrightarrow> x = (EDGE_FLAG_FALLTHROUGH, t + 1) \<or> x = (EDGE_FLAG_JUMP, target t (prog ! nat t))"
  using assms opcodes_differ by (auto simp: goes_def leaves_def calls_def Let_def split: if_splits)

text \<open>What \<open>graph_ok\<close> says of the block \<open>k\<close>.\<close>

lemma graph_block:
  assumes "graph_ok prog f" "k < length (heads_of prog (f_start f) (f_end f))"
  defines "hs \<equiv> heads_of prog (f_start f) (f_end f)"
  defines "t \<equiv> if Suc k < length hs then hs ! Suc k - 1 else f_end f"
  shows "bb_head (f_bbs f ! Suc k) = Some (hs ! k)" "bb_tail (f_bbs f ! Suc k) = Some t" "bb_idx (f_bbs f ! Suc k) = 2 + int k"
    "e_succs (f_bbs f ! Suc k) = succs_at prog hs (f_end f) k" "calls (prog ! nat t) \<or> list_all (\<lambda>e. e_dst e \<noteq> None) (e_succs (f_bbs f ! Suc k))"
  using assms(1,2) unfolding graph_ok_def Let_def hs_def t_def by auto

lemma block_start_no:
  assumes "graph_ok prog f" "(if q = f_end f + 1 then Some EXIT_BLOCK_INDEX else block_no (heads_of prog (f_start f) (f_end f)) q) = Some d \<or>
    block_no (heads_of prog (f_start f) (f_end f)) q = Some d"
  shows "block_start f d = q"
proof -
  let ?hs = "heads_of prog (f_start f) (f_end f)"
  have "block_start f d = q" if no: "block_no ?hs q = Some d"
  proof -
    obtain j where j: "j < length ?hs" "?hs ! j = q" "d = 2 + int j" using no by (auto simp: block_no_def find_Some_iff)
    then show ?thesis using graph_block(1) [OF assms(1) j(1)] by (simp add: block_start_def EXIT_BLOCK_INDEX_def nat_add_distrib)
  qed
  then show ?thesis using assms(2) by (auto simp: block_start_def split: if_splits)
qed

lemma graph_edges_ok:
  assumes g: "graph_ok prog f" and k: "k < length (heads_of prog (f_start f) (f_end f))"
    and ok: "func_ok prog (f_start f, f_end f)" and ng: "\<forall>p \<in> {f_start f..f_end f}. \<not> gotol (prog ! nat p)"
  shows "edges_ok prog f (f_bbs f ! Suc k)"
proof -
  let ?hs = "heads_of prog (f_start f) (f_end f)" and ?b = "f_bbs f ! Suc k"
  define t where "t = (if Suc k < length ?hs then ?hs ! Suc k - 1 else f_end f)"
  note blk = graph_block [OF g k, folded t_def]
  have t: "f_start f \<le> t \<and> t \<le> f_end f"
    by (rule tail_inside [OF ok k]) (simp add: block_at_def t_def)
  then have ngt: "\<not> gotol (prog ! nat t)" using ng by simp
  define D where "D x = (if fst x = EDGE_FLAG_JUMP then block_no ?hs (snd x) else dest ?hs (f_end f) (snd x))" for x :: "int \<times> int"
  have succs: "e_succs ?b = map (\<lambda>x. \<lparr>e_src = 2 + int k, e_dst = D x, e_flags = fst x\<rparr>) (goes prog t)"
    using blk(4) by (simp add: succs_at_def block_at_def t_def D_def case_prod_beta)
  have start: "block_start f d = snd x" if "D x = Some d" for x d
    using that block_start_no [OF g, of "snd x" d] by (auto simp: D_def dest_def split: if_splits)
  have fall: "dest ?hs (f_end f) (t + 1) \<noteq> None"
    using block_no_nth [of ?hs "Suc k"] by (simp add: dest_def t_def)
  have some: "D x \<noteq> None" if "x \<in> set (goes prog t)" "calls (prog ! nat t) \<longrightarrow> fst x = EDGE_FLAG_FALLTHROUGH" for x
  proof (cases "calls (prog ! nat t)")
    case True
    then have "x = (EDGE_FLAG_FALLTHROUGH, t + 1)" using that goes_cases(2) [OF that(1)] by (auto simp: EDGE_FLAG_JUMP_def EDGE_FLAG_FALLTHROUGH_def)
    then show ?thesis using fall by (simp add: D_def EDGE_FLAG_JUMP_def EDGE_FLAG_FALLTHROUGH_def)
  next
    case False
    then show ?thesis using blk(5) that(1) unfolding succs by (auto simp: list_all_iff)
  qed
  have "\<exists>e \<in> set (e_succs ?b). \<exists>d. e_dst e = Some d \<and> block_start f d = q" if q: "q \<in> runs_to prog t" for q
  proof -
    obtain x where x: "x \<in> set (goes prog t)" "snd x = q" "calls (prog ! nat t) \<longrightarrow> fst x = EDGE_FLAG_FALLTHROUGH"
      using q unfolding runs_to_goes [OF ngt] by auto
    then obtain d where d: "D x = Some d" using some [of x] by blast
    have "\<lparr>e_src = 2 + int k, e_dst = D x, e_flags = fst x\<rparr> \<in> set (e_succs ?b)" unfolding succs using x(1) by simp
    then show ?thesis using x(2) start [OF d] d by (intro bexI) auto
  qed
  moreover have "e_src e = bb_idx ?b \<and> (case e_dst e of None \<Rightarrow> calls (prog ! nat t)
      | Some d \<Rightarrow> block_start f d \<in> runs_to prog t \<or> leaves (prog ! nat t) \<and> block_start f d = t + 1 \<or>
          calls (prog ! nat t) \<and> block_start f d = target t (prog ! nat t))" if "e \<in> set (e_succs ?b)" for e
  proof -
    obtain x where x: "x \<in> set (goes prog t)" "e = \<lparr>e_src = 2 + int k, e_dst = D x, e_flags = fst x\<rparr>"
      using \<open>e \<in> set (e_succs ?b)\<close> unfolding succs by auto
    show ?thesis
    proof (cases "D x")
      case None
      then show ?thesis using some [OF x(1)] x(2) blk(3) by auto
    next
      case (Some d)
      have "snd x \<in> runs_to prog t \<or> leaves (prog ! nat t) \<and> snd x = t + 1 \<or> calls (prog ! nat t) \<and> snd x = target t (prog ! nat t)"
        using x(1) goes_cases [OF x(1)] unfolding runs_to_goes [OF ngt] by (cases "leaves (prog ! nat t)"; cases "calls (prog ! nat t)") auto
      then show ?thesis using Some start [OF Some] x(2) blk(3) by auto
    qed
  qed
  ultimately show ?thesis unfolding edges_ok_def Let_def blk(2) option.sel by blast
qed

lemma graph_blocks_ok:
  assumes g: "graph_ok prog f" and ok: "func_ok prog (f_start f, f_end f)" and ng: "\<forall>p \<in> {f_start f..f_end f}. \<not> gotol (prog ! nat p)"
    and bs: "bs = map (\<lambda>k. f_bbs f ! Suc k) [0..<length (heads_of prog (f_start f) (f_end f))]"
  shows "blocks_ok prog f bs"
proof -
  let ?s = "f_start f" and ?e = "f_end f"
  define hs where "hs = heads_of prog ?s ?e"
  have lead: "set hs = leaders prog ?s ?e" "leaders prog ?s ?e \<subseteq> {?s..?e}" "?s \<in> set hs" using func_ok_leaders [OF ok] by (auto simp: hs_def)
  have srt: "sorted_wrt (<) hs" by (simp add: hs_def)
  then have ne: "hs \<noteq> []" and hd: "hs ! 0 = ?s"
    using lead by (cases hs; fastforce)+
  note blk = graph_block [OF g, folded hs_def]
  have nth: "bs ! k = f_bbs f ! Suc k" if "k < length hs" for k using that by (simp add: bs hs_def)
  have len: "length bs = length hs" by (simp add: bs hs_def)
  have "map bb_head bs = map Some hs" by (rule nth_equalityI) (simp_all add: len nth blk(1))
  then have heads: "bb_head ` set bs = Some ` set hs" by (metis set_map)
  have run: "q \<in> set hs" if "p \<in> {?s..?e}" "q \<in> set (leads prog p)" for p q
    using that unfolding lead(1) leaders_def by (intro insertI2 UN_I) auto
  have tail: "hs ! k \<le> t \<and> t \<le> ?e \<and> ?s \<le> hs ! k" if "k < length hs" "t = (if Suc k < length hs then hs ! Suc k - 1 else ?e)" for k t
  proof -
    have "hs ! k \<in> {?s..?e}" "Suc k < length hs \<longrightarrow> hs ! Suc k \<in> {?s..?e}" using lead nth_mem that(1) by (metis subsetD)+
    then show ?thesis using that(2) sorted_wrt_nth_less [OF srt, of k "Suc k"] by auto
  qed
  show ?thesis unfolding blocks_ok_def
  proof (intro conjI)
    show "bs \<noteq> []" using ne len by auto
    show "bb_head (hd bs) = Some ?s" using blk(1) [of 0] nth [of 0] hd ne len \<open>bs \<noteq> []\<close> by (simp add: hd_conv_nth)
    show "bb_tail (last bs) = Some ?e" using blk(2) [of "length hs - 1"] nth [of "length hs - 1"] ne len \<open>bs \<noteq> []\<close> by (simp add: last_conv_nth)
    show "\<forall>k < length bs. bb_idx (bs ! k) = 2 + int k \<and> bb_range (bs ! k) \<noteq> {}"
      using blk(1-3) nth len tail by (auto simp: bb_range_def)
    show "\<forall>k. Suc k < length bs \<longrightarrow> bb_head (bs ! Suc k) = map_option (\<lambda>t. t + 1) (bb_tail (bs ! k))"
      using blk(1,2) nth len by auto
    show "\<forall>p \<in> {?s..?e}. \<forall>q \<in> runs_to prog p. q \<noteq> p + 1 \<longrightarrow> Some q \<in> bb_head ` set bs"
      unfolding heads using run runs_to_leads(1) ng by fastforce
    show "\<forall>b \<in> set bs. bb_head b \<noteq> Some ?s \<longrightarrow> (\<exists>p \<in> {?s..?e}. branch (prog ! nat p) \<and> the (bb_head b) \<in> runs_to prog p)"
    proof (intro ballI impI)
      fix b assume "b \<in> set bs" "bb_head b \<noteq> Some ?s"
      then obtain q where q: "bb_head b = Some q" "q \<in> set hs" "q \<noteq> ?s" using heads by (metis imageE imageI)
      then obtain p where "p \<in> {?s..?e}" "q \<in> set (leads prog p)" unfolding lead(1) leaders_def by auto
      then show "\<exists>p \<in> {?s..?e}. branch (prog ! nat p) \<and> the (bb_head b) \<in> runs_to prog p" using runs_to_leads(2) ng q(1) by fastforce
    qed
    show "\<forall>b \<in> set bs. \<forall>p \<in> bb_range b. bb_tail b \<noteq> Some p \<longrightarrow> runs_to prog p \<subseteq> {p + 1} \<or> goto (prog ! nat p)"
    proof (intro ballI impI)
      fix b p assume b: "b \<in> set bs" "p \<in> bb_range b" "bb_tail b \<noteq> Some p"
      then obtain k where k: "k < length hs" "b = bs ! k" using len by (metis in_set_conv_nth)
      define t where "t = (if Suc k < length hs then hs ! Suc k - 1 else ?e)"
      have p: "hs ! k \<le> p" "p < t" using b(2,3) blk(1,2) [OF k(1)] k nth by (auto simp: bb_range_def t_def)
      have pin: "p \<in> {?s..?e}" using p tail [OF k(1) t_def] by auto
      have "p + 1 \<notin> set hs"
      proof
        assume "p + 1 \<in> set hs"
        then obtain j where j: "j < length hs" "hs ! j = p + 1" by (metis in_set_conv_nth)
        have "k < j" using p j sorted_wrt_nth_less [OF srt, of j k] k(1) by (cases "j < k"; cases "j = k") auto
        then have "Suc k < length hs" "hs ! Suc k \<le> hs ! j" using j(1) sorted_wrt_nth_less [OF srt, of "Suc k" j] by (cases "Suc k = j"; simp)+
        then show False using p j by (simp add: t_def)
      qed
      then have "p + 1 \<notin> set (leads prog p)" using run [OF pin] by blast
      then have "\<not> branch (prog ! nat p) \<or> goto (prog ! nat p)" using runs_to_leads(3) ng pin by blast
      then show "runs_to prog p \<subseteq> {p + 1} \<or> goto (prog ! nat p)" by (auto simp: runs_to_def Let_def)
    qed
  qed
qed

lemma graph_flow:
  assumes g: "graph_ok prog f" and ok: "func_ok prog (f_start f, f_end f)" and ng: "\<forall>p \<in> {f_start f..f_end f}. \<not> gotol (prog ! nat p)"
  shows "flow_graph prog f"
proof -
  let ?n = "length (heads_of prog (f_start f) (f_end f))"
  define bs where "bs = map (\<lambda>k. f_bbs f ! Suc k) [0..<?n]"
  have len: "length (f_bbs f) = ?n + 2" using g by (simp add: graph_ok_def Let_def)
  have all: "f_bbs f = f_bbs f ! 0 # bs @ [f_bbs f ! (?n + 1)]"
  proof (rule nth_equalityI)
    show "f_bbs f ! i = (f_bbs f ! 0 # bs @ [f_bbs f ! (?n + 1)]) ! i" if "i < length (f_bbs f)" for i
      using that len by (cases i) (auto simp: bs_def nth_append not_less less_Suc_eq)
  qed (simp add: len bs_def)
  have ok': "blocks_ok prog f bs" by (rule graph_blocks_ok [OF g ok ng bs_def])
  then have "bs \<noteq> []" "\<forall>k < length bs. bb_idx (bs ! k) = 2 + int k" by (simp_all add: blocks_ok_def)
  then have "bb_idx (hd bs) = 2" by (simp add: hd_conv_nth)
  moreover have "list_all (edges_ok prog f) bs" using graph_edges_ok [OF g _ ok ng] by (simp add: list_all_iff bs_def)
  moreover have "bb_idx (f_bbs f ! 0) = ENTRY_BLOCK_INDEX" "bb_idx (f_bbs f ! (?n + 1)) = EXIT_BLOCK_INDEX" "e_succs (f_bbs f ! (?n + 1)) = []"
      "e_succs (f_bbs f ! 0) = [\<lparr>e_src = ENTRY_BLOCK_INDEX, e_dst = Some 2, e_flags = EDGE_FLAG_FALLTHROUGH\<rparr>]"
    using g unfolding graph_ok_def Let_def by simp_all
  ultimately show ?thesis unfolding flow_graph_def using all ok'
    by (intro exI [of _ "f_bbs f ! 0"] exI [of _ bs] exI [of _ "f_bbs f ! (?n + 1)"]) auto
qed

section \<open>Allocations that fail\<close>

text \<open>
  A run in which allocations may fail gives up without a result, or does what it does with unlimited memory: \<open>x\<close> is the
  outcome with \<open>h\<close>, \<open>y\<close> that with a heap of as many live nodes whose allocations all succeed. \<open>F\<close> says that an
  allocation may fail.
\<close>

definition spare :: "bool \<Rightarrow> heap \<Rightarrow> heap \<Rightarrow> bool" where
  "spare F h h0 \<longleftrightarrow> live h = live h0 \<and> outcomes h0 = [] \<and> (False \<in> set (outcomes h) \<longrightarrow> F)"

definition same_run :: "bool \<Rightarrow> (heap \<times> 'a option) option \<Rightarrow> (heap \<times> 'a option) option \<Rightarrow> bool" where
  "same_run F x y \<longleftrightarrow>
     (\<forall>h0 r. y = Some (h0, Some r) \<longrightarrow> F \<and> (\<exists>h'. x = Some (h', None)) \<or> (\<exists>h'. x = Some (h', Some r) \<and> spare F h' h0))"

named_theorems agree "operations that agree with their run in unlimited memory"

lemma same_run_ret [agree]: "spare F h h0 \<Longrightarrow> same_run F (Some (h, Some r)) (Some (h0, Some r))"
  by (simp add: same_run_def)

lemma same_run_alloc [agree]:
  "spare F h h0 \<Longrightarrow> same_run F (Some (case calloc h of (ok, h) \<Rightarrow> if \<not> ok then (h, None) else (h, Some g)))
     (Some (case calloc h0 of (ok, h) \<Rightarrow> if \<not> ok then (h, None) else (h, Some g)))"
  by (auto simp: same_run_def spare_def calloc_def split: list.splits bool.splits)

lemma same_run_bind:
  assumes "same_run F x y" "\<And>h h0 c. spare F h h0 \<Longrightarrow> same_run F (g h c) (g h0 c)"
  shows "same_run F (do { r \<leftarrow> x; case r of (h, None) \<Rightarrow> Some (h, None) | (h, Some c) \<Rightarrow> g h c })
    (do { r \<leftarrow> y; case r of (h, None) \<Rightarrow> Some (h, None) | (h, Some c) \<Rightarrow> g h c })"
proof (cases "\<exists>h0 c. y = Some (h0, Some c)")
  case True
  then obtain h0 c where y: "y = Some (h0, Some c)" by blast
  then consider h' where "x = Some (h', None)" F | h' where "x = Some (h', Some c)" "spare F h' h0" using assms(1) unfolding same_run_def by blast
  then show ?thesis using assms(2) y by cases (auto simp: same_run_def)
next
  case False
  then show ?thesis by (cases y) (auto simp: same_run_def split: option.splits)
qed

lemma same_run_case:
  assumes "same_run F (Some p) (Some q)" "\<And>h h0 c. spare F h h0 \<Longrightarrow> same_run F (g h c) (g h0 c)"
  shows "same_run F (case p of (h, None) \<Rightarrow> Some (h, None) | (h, Some c) \<Rightarrow> g h c) (case q of (h, None) \<Rightarrow> Some (h, None) | (h, Some c) \<Rightarrow> g h c)"
  using same_run_bind [OF assms] by simp

lemma same_run_pair:
  assumes "same_run F (Some p) (Some q)" "\<And>h h0 c. spare F h h0 \<Longrightarrow> same_run F (Some (g h c)) (Some (g h0 c))"
  shows "same_run F (Some (case p of (h, None) \<Rightarrow> (h, None) | (h, Some c) \<Rightarrow> g h c)) (Some (case q of (h, None) \<Rightarrow> (h, None) | (h, Some c) \<Rightarrow> g h c))"
proof -
  have "Some (case p of (h, None) \<Rightarrow> (h, None) | (h, Some c) \<Rightarrow> g h c) = (case p of (h, None) \<Rightarrow> Some (h, None) | (h, Some c) \<Rightarrow> Some (g h c))" for p
    by (auto split: prod.splits option.splits)
  then show ?thesis using same_run_case [OF assms] by simp
qed

lemma same_run_get: "(\<And>i. same_run F (f i) (g i)) \<Longrightarrow> same_run F (v \<bind> f) (v \<bind> g)"
  by (cases v) (auto simp: same_run_def)

lemmas same_run_steps = same_run_bind same_run_case same_run_pair same_run_get

lemma append_func_same_run [agree]: "spare F h h0 \<Longrightarrow> same_run F (Some (cfg_append_func c p h)) (Some (cfg_append_func c p h0))"
  unfolding cfg_append_func_def Let_def by (cases "walk (\<lambda>f. f_start f = p) (\<lambda>f. p < f_start f) 0 (cfg_funcs c)") (simp_all add: agree)

lemma append_bb_same_run [agree]: "spare F h h0 \<Longrightarrow> same_run F (Some (func_append_bb bbs p h)) (Some (func_append_bb bbs p h0))"
  by (cases "walk (is_bb_head p) (bb_beyond p) 0 bbs") (simp_all add: func_append_bb_def Let_def agree)

lemma dummy_bb_same_run [agree]: "spare F h h0 \<Longrightarrow> same_run F (Some (func_insert_dummy_bb k bbs i h)) (Some (func_insert_dummy_bb k bbs i h0))"
  by (simp add: func_insert_dummy_bb_def Let_def agree)

lemma new_edge_same_run [agree]: "spare F h h0 \<Longrightarrow> same_run F (Some (new_edge a b fl h)) (Some (new_edge a b fl h0))"
  by (simp add: new_edge_def Let_def agree)

lemma funcs_loop_same_run [agree]: "spare F h h0 \<Longrightarrow> same_run F (partition_funcs_loop n prog c cur h) (partition_funcs_loop n prog c cur h0)"
proof (induction n arbitrary: c cur h h0)
  case (Suc n)
  show ?case unfolding partition_funcs_loop.simps
    by (rule same_run_get) (use Suc in \<open>auto intro!: same_run_case agree\<close>)
qed (simp add: agree)

lemma partition_funcs_same_run [agree]: "spare F h h0 \<Longrightarrow> same_run F (cfg_partition_funcs prog c cur e h) (cfg_partition_funcs prog c cur e h0)"
  unfolding cfg_partition_funcs_def by (intro same_run_steps agree)

lemma head_loop_same_run [agree]: "spare F h h0 \<Longrightarrow> same_run F (bb_head_loop n prog bbs cur h) (bb_head_loop n prog bbs cur h0)"
proof (induction n arbitrary: bbs cur h h0)
  case (Suc n)
  show ?case unfolding bb_head_loop.simps
    by (rule same_run_get) (use Suc in \<open>auto intro!: same_run_case agree\<close>)
qed (simp add: agree)

lemma partition_bb_same_run [agree]: "spare F h h0 \<Longrightarrow> same_run F (func_partition_bb prog f h) (func_partition_bb prog f h0)"
  unfolding func_partition_bb_def func_partition_bb_head_def by (intro same_run_steps agree)

lemma special_bb_same_run [agree]: "spare F h h0 \<Longrightarrow> same_run F (Some (func_add_special_bb f h)) (Some (func_add_special_bb f h0))"
  unfolding func_add_special_bb_def by (intro same_run_pair agree)

lemma block_edges_same_run [agree]: "spare F h h0 \<Longrightarrow> same_run F (block_edges prog bbs b nxt h) (block_edges prog bbs b nxt h0)"
  unfolding block_edges_def by (intro same_run_case agree same_run_get) (auto intro!: same_run_case agree)

lemma edges_loop_same_run [agree]: "spare F h h0 \<Longrightarrow> same_run F (edges_loop prog all bs h) (edges_loop prog all bs h0)"
proof (induction bs arbitrary: h h0)
  case (Cons b bs)
  then show ?case by (cases bs) (auto intro!: same_run_bind agree)
qed (simp add: agree)

lemma add_bb_edges_same_run [agree]: "spare F h h0 \<Longrightarrow> same_run F (func_add_bb_edges prog f h) (func_add_bb_edges prog f h0)"
proof -
  assume sp: "spare F h h0"
  consider "length (f_bbs f) < 2" | en b bs where "f_bbs f = en # b # bs" by (cases "f_bbs f"; cases "tl (f_bbs f)") auto
  then show ?thesis
  proof cases
    case 1
    then show ?thesis by (auto simp: func_add_bb_edges_def same_run_def split: list.splits)
  next
    case 2
    show ?thesis unfolding func_add_bb_edges_def Let_def 2 list.case by (intro same_run_case same_run_bind agree sp)
  qed
qed

lemma build_funcs_same_run [agree]: "spare F h h0 \<Longrightarrow> same_run F (build_funcs prog fs h) (build_funcs prog fs h0)"
proof (induction fs arbitrary: h h0)
  case (Cons f fs)
  show ?case unfolding build_funcs.simps by (intro same_run_bind same_run_case agree Cons)
qed (simp add: agree)

lemma cfg_build_same_run: "spare F h h0 \<Longrightarrow> same_run F (cfg_build prog len h) (cfg_build prog len h0)"
  unfolding cfg_build_def by (intro same_run_bind agree)

lemma cfg_build_cases:
  assumes "unat len div 8 = length prog" "list_all (func_ok prog) (func_ranges prog)"
  shows "\<exists>h' r. cfg_build prog len h = Some (h', r) \<and>
    (case r of
       None \<Rightarrow> False \<in> set (outcomes h)
     | Some c \<Rightarrow> map func_range (cfg_funcs c) = func_ranges prog \<and> list_all (graph_ok prog) (cfg_funcs c) \<and>
         live (cfg_destroy c h') = live h)"
proof -
  let ?h0 = "\<lparr>outcomes = [], live = live h\<rparr>"
  obtain h1 c where c: "cfg_build prog len ?h0 = Some (h1, Some c)" "map func_range (cfg_funcs c) = func_ranges prog"
      "list_all (graph_ok prog) (cfg_funcs c)" "live (cfg_destroy c h1) = live h"
    using cfg_build_ok [of ?h0, OF _ assms] by auto
  have "spare (False \<in> set (outcomes h)) h ?h0" by (simp add: spare_def)
  note cfg_build_same_run [OF this, of prog len]
  then consider h' where "False \<in> set (outcomes h)" "cfg_build prog len h = Some (h', None)"
    | h' where "cfg_build prog len h = Some (h', Some c)" "live h' = live h1"
    using c(1) unfolding same_run_def spare_def by blast
  then show ?thesis using c by cases (auto simp: cfg_destroy_def)
qed

section \<open>Properties\<close>

text \<open>C36. For a program whose conditional and unconditional jumps stay inside their function (a conditional one is not its last
  instruction either) and that has no \<open>gotol\<close>: whichever allocations fail, building the graphs returns. It gives up only when
  an allocation failed; otherwise there is a function for the first instruction and for every target of a subprogram
  call, in order and covering the program, and for each a graph that agrees with the flow of control:
  the blocks between the entry and the exit block are consecutive, they are entered only at their heads and left only at their
  tails or behind an unconditional jump, and none starts where no branch leads; each has an edge to every block that execution can reach
  from its last instruction. The edges beyond those are the one of an exit instruction to the next block
  and the one of a call to the block at the start of the callee, which is no block (a null pointer) when the callee is
  another function. Destroying the graphs releases every node that was allocated.\<close>

theorem cfg_build_graphs:
  assumes "unat len div 8 = length prog" "list_all (func_ok prog) (func_ranges prog)" "list_all (\<lambda>i. \<not> gotol i) prog"
  shows "\<exists>h' r. cfg_build prog len h = Some (h', r) \<and>
    (case r of
       None \<Rightarrow> False \<in> set (outcomes h)
     | Some c \<Rightarrow> map func_range (cfg_funcs c) = func_ranges prog \<and> list_all (flow_graph prog) (cfg_funcs c) \<and>
         live (cfg_destroy c h') = live h)"
proof -
  have "flow_graph prog f" if c: "map func_range (cfg_funcs c) = func_ranges prog" "list_all (graph_ok prog) (cfg_funcs c)" and
      f: "f \<in> set (cfg_funcs c)" for c f
  proof -
    have "func_range f \<in> set (func_ranges prog)" using f c(1) by (metis image_eqI set_map)
    then have ok: "func_ok prog (f_start f, f_end f)" using assms(2) by (simp add: list_all_iff func_range_def)
    then have "\<forall>p \<in> {f_start f..f_end f}. \<not> gotol (prog ! nat p)" using assms(3) by (auto simp: func_ok_def list_all_length)
    then show ?thesis using graph_flow ok f c(2) by (simp add: list_all_iff)
  qed
  then show ?thesis using cfg_build_cases [OF assms(1,2), of h] by (fastforce simp: list_all_iff split: option.splits)
qed


text \<open>A conditional jump over a call of the function behind the exit.\<close>

definition insn :: "u8 \<Rightarrow> 4 word \<Rightarrow> u16 \<Rightarrow> bpf_insn" where
  "insn c src d = \<lparr>code = c, dst_reg = 0, src_reg = src, off = d, imm = 0\<rparr>"

definition call_before_label :: "bpf_insn list" where
  "call_before_label = [insn 0x15 0 1, insn 0x85 1 1, insn 0x95 0 0, insn 0x95 0 0]"

definition mov_before_label :: "bpf_insn list" where
  "mov_before_label = [insn 0x15 0 1, insn 0xb7 0 0, insn 0x95 0 0]"

lemma mov_ok:
  "list_all (func_ok mov_before_label) (func_ranges mov_before_label)"
  "list_all (no_call_tails mov_before_label) (func_ranges mov_before_label)"
  "unat (24 :: u32) div 8 = length mov_before_label"
  "list_all (\<lambda>i. \<not> gotol i) mov_before_label"
  by code_simp+

theorem cfg_build_graphs_witness:
  "\<exists>h' c. cfg_build mov_before_label 24 \<lparr>outcomes = [True, True], live = 0\<rparr> = Some (h', Some c) \<and>
    map func_range (cfg_funcs c) = [(0, 2)] \<and> list_all (flow_graph mov_before_label) (cfg_funcs c)"
proof -
  have "func_ranges mov_before_label = [(0, 2)]" by code_simp
  with cfg_build_graphs [OF mov_ok(3,1,4), of "\<lparr>outcomes = [True, True], live = 0\<rparr>"] show ?thesis
    by (auto split: option.splits)
qed


text \<open>A program in which a call of a subprogram stands right before the target of a jump is drawn through a
  null pointer, although every jump stays inside its function: the block that ends in the call gets an edge to
  the start of the callee, which is no block of the function.\<close>

theorem dump_xlated_cfg_call_crash:
  "list_all (func_ok call_before_label) (func_ranges call_before_label) \<and>
   dump_xlated_cfg dump call_before_label 32 \<lparr>outcomes = [], live = 0\<rparr> = None"
  by code_simp

text \<open>A \<open>gotol\<close> over one instruction: execution continues at the instruction 2, and the block that ends in it gets its only edge
  to the block at the instruction 1.\<close>

definition gotol_over :: "bpf_insn list" where
  "gotol_over = [(insn 0x06 0 0)\<lparr>imm := 1\<rparr>, insn 0xb7 0 0, insn 0x95 0 0]"

theorem gotol_wrong_edge:
  "runs_to gotol_over 0 = {2}"
  "map_option (\<lambda>(h, r). map_option (\<lambda>c. map (\<lambda>f. map (map (map_option (block_start f) \<circ> e_dst) \<circ> e_succs) (f_bbs f)) (cfg_funcs c)) r)
     (cfg_build gotol_over 24 \<lparr>outcomes = [], live = 0\<rparr>) = Some (Some [[[Some 0], [Some 1], [Some 3], []]])"
  by code_simp+

end
