(* ===== verification/Btf.thy ===== *)
theory Btf
  imports Prelude
begin

text \<open>
  BPF type information, the read-only half of \<open>libbpf/src/btf.c\<close> with the accessors of \<open>btf.h\<close>: parsing and
  validating a blob of bytes in either byte order, on its own or on top of a base, and the questions asked of the
  types in it. A type is the three words of \<open>struct btf_type\<close> with the words that follow it, so an access past the
  end of a type is \<open>None\<close>; the table \<open>type_offs\<close> with the section it points into is the list of the types.
  A string is the list of its bytes before the terminating zero, and reading an unterminated one is \<open>None\<close>.
  Numbers of types and sizes of sections are below \<open>2 ^ 32\<close> and natural numbers here.
\<close>

section \<open>Types\<close>

record btf_type =
  bt_name_off :: u32
  bt_info :: u32
  bt_size_type :: u32
  bt_rest :: "u32 list"

abbreviation (input) BTF_KIND_UNKN :: u32 where "BTF_KIND_UNKN \<equiv> 0"
abbreviation (input) BTF_KIND_INT :: u32 where "BTF_KIND_INT \<equiv> 1"
abbreviation (input) BTF_KIND_PTR :: u32 where "BTF_KIND_PTR \<equiv> 2"
abbreviation (input) BTF_KIND_ARRAY :: u32 where "BTF_KIND_ARRAY \<equiv> 3"
abbreviation (input) BTF_KIND_STRUCT :: u32 where "BTF_KIND_STRUCT \<equiv> 4"
abbreviation (input) BTF_KIND_UNION :: u32 where "BTF_KIND_UNION \<equiv> 5"
abbreviation (input) BTF_KIND_ENUM :: u32 where "BTF_KIND_ENUM \<equiv> 6"
abbreviation (input) BTF_KIND_FWD :: u32 where "BTF_KIND_FWD \<equiv> 7"
abbreviation (input) BTF_KIND_TYPEDEF :: u32 where "BTF_KIND_TYPEDEF \<equiv> 8"
abbreviation (input) BTF_KIND_VOLATILE :: u32 where "BTF_KIND_VOLATILE \<equiv> 9"
abbreviation (input) BTF_KIND_CONST :: u32 where "BTF_KIND_CONST \<equiv> 10"
abbreviation (input) BTF_KIND_RESTRICT :: u32 where "BTF_KIND_RESTRICT \<equiv> 11"
abbreviation (input) BTF_KIND_FUNC :: u32 where "BTF_KIND_FUNC \<equiv> 12"
abbreviation (input) BTF_KIND_FUNC_PROTO :: u32 where "BTF_KIND_FUNC_PROTO \<equiv> 13"
abbreviation (input) BTF_KIND_VAR :: u32 where "BTF_KIND_VAR \<equiv> 14"
abbreviation (input) BTF_KIND_DATASEC :: u32 where "BTF_KIND_DATASEC \<equiv> 15"
abbreviation (input) BTF_KIND_FLOAT :: u32 where "BTF_KIND_FLOAT \<equiv> 16"
abbreviation (input) BTF_KIND_DECL_TAG :: u32 where "BTF_KIND_DECL_TAG \<equiv> 17"
abbreviation (input) BTF_KIND_TYPE_TAG :: u32 where "BTF_KIND_TYPE_TAG \<equiv> 18"
abbreviation (input) BTF_KIND_ENUM64 :: u32 where "BTF_KIND_ENUM64 \<equiv> 19"

definition btf_kind :: "btf_type \<Rightarrow> u32" where
  "btf_kind t = drop_bit 24 (bt_info t) AND 0x1f"

definition btf_vlen :: "btf_type \<Rightarrow> nat" where
  "btf_vlen t = unat (bt_info t AND 0xffff)"

definition btf_kflag :: "btf_type \<Rightarrow> bool" where
  "btf_kflag t \<longleftrightarrow> drop_bit 31 (bt_info t) \<noteq> 0"

definition btf_is_composite :: "btf_type \<Rightarrow> bool" where
  "btf_is_composite t \<longleftrightarrow> btf_kind t = BTF_KIND_STRUCT \<or> btf_kind t = BTF_KIND_UNION"

definition btf_is_mod :: "btf_type \<Rightarrow> bool" where
  "btf_is_mod t \<longleftrightarrow> btf_kind t = BTF_KIND_VOLATILE \<or> btf_kind t = BTF_KIND_CONST \<or>
     btf_kind t = BTF_KIND_RESTRICT \<or> btf_kind t = BTF_KIND_TYPE_TAG"

definition btf_is_any_enum :: "btf_type \<Rightarrow> bool" where
  "btf_is_any_enum t \<longleftrightarrow> btf_kind t = BTF_KIND_ENUM \<or> btf_kind t = BTF_KIND_ENUM64"

definition btf_kind_core_compat :: "btf_type \<Rightarrow> btf_type \<Rightarrow> bool" where
  "btf_kind_core_compat t1 t2 \<longleftrightarrow> btf_kind t1 = btf_kind t2 \<or> btf_is_any_enum t1 \<and> btf_is_any_enum t2"

text \<open>What follows a type, depending on its kind.\<close>

record btf_member =
  bm_name_off :: u32
  bm_type :: u32
  bm_offset :: u32

record btf_array =
  ba_type :: u32
  ba_index_type :: u32
  ba_nelems :: u32

definition btf_members :: "btf_type \<Rightarrow> nat \<Rightarrow> btf_member option" where
  "btf_members t i = do { a \<leftarrow> aget (bt_rest t) (3 * i); b \<leftarrow> aget (bt_rest t) (3 * i + 1); c \<leftarrow> aget (bt_rest t) (3 * i + 2);
     Some \<lparr>bm_name_off = a, bm_type = b, bm_offset = c\<rparr> }"

definition btf_array_of :: "btf_type \<Rightarrow> btf_array option" where
  "btf_array_of t = do { a \<leftarrow> aget (bt_rest t) 0; b \<leftarrow> aget (bt_rest t) 1; c \<leftarrow> aget (bt_rest t) 2;
     Some \<lparr>ba_type = a, ba_index_type = b, ba_nelems = c\<rparr> }"

text \<open>An enumerator: its name and its value as the unsigned 64-bit number the code reads.\<close>

definition btf_enum :: "btf_type \<Rightarrow> nat \<Rightarrow> (u32 \<times> u64) option" where
  "btf_enum t i = do { a \<leftarrow> aget (bt_rest t) (2 * i); v \<leftarrow> aget (bt_rest t) (2 * i + 1); Some (a, scast v) }"

definition btf_enum64 :: "btf_type \<Rightarrow> nat \<Rightarrow> (u32 \<times> u64) option" where
  "btf_enum64 t i = do { a \<leftarrow> aget (bt_rest t) (3 * i); lo \<leftarrow> aget (bt_rest t) (3 * i + 1); hi \<leftarrow> aget (bt_rest t) (3 * i + 2);
     Some (a, push_bit 32 (ucast hi) OR ucast lo) }"

definition btf_params :: "btf_type \<Rightarrow> nat \<Rightarrow> (u32 \<times> u32) option" where
  "btf_params t i = do { a \<leftarrow> aget (bt_rest t) (2 * i); b \<leftarrow> aget (bt_rest t) (2 * i + 1); Some (a, b) }"

definition btf_var_secinfos :: "btf_type \<Rightarrow> nat \<Rightarrow> u32 option" where
  "btf_var_secinfos t i = aget (bt_rest t) (3 * i)"

definition btf_int_encoding :: "btf_type \<Rightarrow> u32 option" where
  "btf_int_encoding t = do { v \<leftarrow> aget (bt_rest t) 0; Some (drop_bit 24 (v AND 0x0f000000)) }"

definition btf_int_offset :: "btf_type \<Rightarrow> u32 option" where
  "btf_int_offset t = do { v \<leftarrow> aget (bt_rest t) 0; Some (drop_bit 16 (v AND 0x00ff0000)) }"

definition btf_member_bit_offset :: "btf_type \<Rightarrow> nat \<Rightarrow> u32 option" where
  "btf_member_bit_offset t i = do { m \<leftarrow> btf_members t i; Some (if btf_kflag t then bm_offset m AND 0xffffff else bm_offset m) }"

definition btf_member_bitfield_size :: "btf_type \<Rightarrow> nat \<Rightarrow> u32 option" where
  "btf_member_bitfield_size t i = do { m \<leftarrow> btf_members t i; Some (if btf_kflag t then drop_bit 24 (bm_offset m) else 0) }"

section \<open>The object\<close>

datatype btf =
  Btf (base_btf: "btf option") (start_id: nat) (start_str_off: nat) (btf_types: "btf_type list")
    (btf_strs: "u8 list") (btf_ptr_size: int) (swapped_endian: bool)

definition btf_void :: btf_type where
  "btf_void = \<lparr>bt_name_off = 0, bt_info = 0, bt_size_type = 0, bt_rest = []\<rparr>"

definition btf__type_cnt :: "btf \<Rightarrow> nat" where
  "btf__type_cnt b = start_id b + length (btf_types b)"

fun btf_type_by_id :: "btf \<Rightarrow> u32 \<Rightarrow> btf_type option" where
  "btf_type_by_id (Btf base sid soff ts strs psz sw) type_id =
     (if type_id = 0 then Some btf_void
      else if unat type_id < sid then (case base of None \<Rightarrow> None | Some b \<Rightarrow> btf_type_by_id b type_id)
      else aget ts (unat type_id - sid))"

text \<open>A null pointer is \<open>None\<close>; in a well-formed object the inner lookup does not fail (\<open>type_by_id_total\<close>).\<close>

definition btf__type_by_id :: "btf \<Rightarrow> u32 \<Rightarrow> btf_type option" where
  "btf__type_by_id b type_id = (if btf__type_cnt b \<le> unat type_id then None else btf_type_by_id b type_id)"

text \<open>The string at an offset: \<open>None\<close> if it is not terminated, \<open>Some None\<close> for a null pointer.\<close>

definition c_string :: "u8 list \<Rightarrow> u8 list option" where
  "c_string s = (if 0 \<in> set s then Some (takeWhile (\<lambda>c. c \<noteq> 0) s) else None)"

fun btf__str_by_offset :: "btf \<Rightarrow> u32 \<Rightarrow> u8 list option option" where
  "btf__str_by_offset (Btf base sid soff ts strs psz sw) off =
     (if unat off < soff then (case base of None \<Rightarrow> None | Some b \<Rightarrow> btf__str_by_offset b off)
      else if unat off - soff < length strs then map_option Some (c_string (drop (unat off - soff) strs))
      else Some None)"

definition btf__name_by_offset :: "btf \<Rightarrow> u32 \<Rightarrow> u8 list option option" where
  "btf__name_by_offset b off = btf__str_by_offset b off"

definition str_is_empty :: "u8 list option \<Rightarrow> bool" where
  "str_is_empty s \<longleftrightarrow> s = None \<or> s = Some []"

section \<open>Parsing\<close>

record btf_header =
  bh_hdr_len :: u32
  bh_type_off :: u32
  bh_type_len :: u32
  bh_str_off :: u32
  bh_str_len :: u32

abbreviation (input) BTF_MAGIC :: u16 where "BTF_MAGIC \<equiv> 0xeB9F"
abbreviation (input) sizeof_btf_header :: nat where "sizeof_btf_header \<equiv> 24"
abbreviation (input) sizeof_btf_type :: nat where "sizeof_btf_type \<equiv> 12"

definition btf_bswap_hdr :: "btf_header \<Rightarrow> btf_header" where
  "btf_bswap_hdr h = \<lparr>bh_hdr_len = bpf_swab32 (bh_hdr_len h), bh_type_off = bpf_swab32 (bh_type_off h),
     bh_type_len = bpf_swab32 (bh_type_len h), bh_str_off = bpf_swab32 (bh_str_off h), bh_str_len = bpf_swab32 (bh_str_len h)\<rparr>"

definition header_at :: "bool \<Rightarrow> u8 list \<Rightarrow> btf_header option" where
  "header_at le raw = do { a \<leftarrow> get32 le raw 4; b \<leftarrow> get32 le raw 8; c \<leftarrow> get32 le raw 12; d \<leftarrow> get32 le raw 16;
     e \<leftarrow> get32 le raw 20;
     Some \<lparr>bh_hdr_len = a, bh_type_off = b, bh_type_len = c, bh_str_off = d, bh_str_len = e\<rparr> }"

definition btf_check_layout :: "nat \<Rightarrow> btf_header \<Rightarrow> int" where
  "btf_check_layout raw_size h =
     (if raw_size < unat (bh_hdr_len h) then - EINVAL
      else if raw_size - unat (bh_hdr_len h) < unat (bh_str_off h) + unat (bh_str_len h) then - EINVAL
      else if unat (bh_type_off h) + unat (bh_type_len h) > unat (bh_str_off h) then - EINVAL
      else if unat (bh_type_off h) mod 4 \<noteq> 0 then - EINVAL
      else 0)"

text \<open>The result is the header in the order of the host and whether the data is in the other one.\<close>

definition btf_parse_hdr :: "bool \<Rightarrow> u8 list \<Rightarrow> (int + btf_header \<times> bool) option" where
  "btf_parse_hdr le raw =
     (if length raw < sizeof_btf_header then Some (Inl (- EINVAL))
      else do {
        magic \<leftarrow> get16 le raw 0;
        h \<leftarrow> header_at le raw;
        let swapped = (magic = bpf_swab16 BTF_MAGIC);
        if swapped \<and> unat (bpf_swab32 (bh_hdr_len h)) \<noteq> sizeof_btf_header then Some (Inl (- ENOTSUP))
        else if \<not> swapped \<and> magic \<noteq> BTF_MAGIC then Some (Inl (- EINVAL))
        else
          let h = (if swapped then btf_bswap_hdr h else h);
              err = btf_check_layout (length raw) h
          in Some (if err \<noteq> 0 then Inl err else Inr (h, swapped)) })"

definition btf_parse_str_sec :: "bool \<Rightarrow> u8 list \<Rightarrow> int" where
  "btf_parse_str_sec has_base strs =
     (if has_base \<and> strs = [] then 0
      else if strs = [] \<or> length strs - 1 > 0x7fffffff \<or> last strs \<noteq> 0 then - EINVAL
      else if \<not> has_base \<and> hd strs \<noteq> 0 then - EINVAL
      else 0)"

definition btf_type_size :: "btf_type \<Rightarrow> int" where
  "btf_type_size t =
     (let k = btf_kind t; base_size = int sizeof_btf_type; vlen = int (btf_vlen t)
      in if k \<in> {BTF_KIND_FWD, BTF_KIND_CONST, BTF_KIND_VOLATILE, BTF_KIND_RESTRICT, BTF_KIND_PTR, BTF_KIND_TYPEDEF,
                 BTF_KIND_FUNC, BTF_KIND_FLOAT, BTF_KIND_TYPE_TAG} then base_size
         else if k = BTF_KIND_INT then base_size + 4
         else if k = BTF_KIND_ENUM then base_size + vlen * 8
         else if k = BTF_KIND_ENUM64 then base_size + vlen * 12
         else if k = BTF_KIND_ARRAY then base_size + 12
         else if k = BTF_KIND_STRUCT \<or> k = BTF_KIND_UNION then base_size + vlen * 12
         else if k = BTF_KIND_FUNC_PROTO then base_size + vlen * 8
         else if k = BTF_KIND_VAR then base_size + 4
         else if k = BTF_KIND_DATASEC then base_size + vlen * 12
         else if k = BTF_KIND_DECL_TAG then base_size + 4
         else - EINVAL)"

definition btf_bswap_type_base :: "btf_type \<Rightarrow> btf_type" where
  "btf_bswap_type_base t = t\<lparr>bt_name_off := bpf_swab32 (bt_name_off t), bt_info := bpf_swab32 (bt_info t),
     bt_size_type := bpf_swab32 (bt_size_type t)\<rparr>"

text \<open>In each kind the fields swapped are all the words that follow the type.\<close>

definition btf_bswap_type_rest :: "btf_type \<Rightarrow> int \<times> btf_type" where
  "btf_bswap_type_rest t =
     (let k = btf_kind t
      in if k \<in> {BTF_KIND_FWD, BTF_KIND_CONST, BTF_KIND_VOLATILE, BTF_KIND_RESTRICT, BTF_KIND_PTR, BTF_KIND_TYPEDEF,
                 BTF_KIND_FUNC, BTF_KIND_FLOAT, BTF_KIND_TYPE_TAG} then (0, t)
         else if k \<in> {BTF_KIND_INT, BTF_KIND_ENUM, BTF_KIND_ENUM64, BTF_KIND_ARRAY, BTF_KIND_STRUCT, BTF_KIND_UNION,
                 BTF_KIND_FUNC_PROTO, BTF_KIND_VAR, BTF_KIND_DATASEC, BTF_KIND_DECL_TAG}
         then (0, t\<lparr>bt_rest := map bpf_swab32 (bt_rest t)\<rparr>)
         else (- EINVAL, t))"

fun words_at :: "bool \<Rightarrow> u8 list \<Rightarrow> nat \<Rightarrow> nat \<Rightarrow> u32 list option" where
  "words_at le b off 0 = Some []"
| "words_at le b off (Suc n) = do { w \<leftarrow> get32 le b off; ws \<leftarrow> words_at le b (off + 4) n; Some (w # ws) }"

definition base_at :: "bool \<Rightarrow> u8 list \<Rightarrow> btf_type option" where
  "base_at le b = do { a \<leftarrow> get32 le b 0; i \<leftarrow> get32 le b 4; s \<leftarrow> get32 le b 8;
     Some \<lparr>bt_name_off = a, bt_info = i, bt_size_type = s, bt_rest = []\<rparr> }"

text \<open>
  The loop over the type section, at the bytes \<open>b\<close> that are left, after the types \<open>ts\<close>; \<open>grow n\<close> is
  whether the table of offsets can take its entry \<open>n\<close>.
\<close>

lemma btf_type_size_less: "btf_type_size t < 0 \<or> 12 \<le> btf_type_size t"
  by (simp add: btf_type_size_def Let_def)

function btf_parse_type_sec :: "bool \<Rightarrow> bool \<Rightarrow> (nat \<Rightarrow> bool) \<Rightarrow> u8 list \<Rightarrow> btf_type list \<Rightarrow> (int + btf_type list) option" where
  "btf_parse_type_sec le swapped grow b ts =
     (if sizeof_btf_type \<le> length b then
        (case base_at le b of
           None \<Rightarrow> None
         | Some t0 \<Rightarrow>
             (let t = (if swapped then btf_bswap_type_base t0 else t0);
                  type_size = btf_type_size t
              in if type_size < 0 then Some (Inl type_size)
                 else if length b < nat type_size then Some (Inl (- EINVAL))
                 else
                   (case words_at le b sizeof_btf_type ((nat type_size - sizeof_btf_type) div 4) of
                      None \<Rightarrow> None
                    | Some ws \<Rightarrow>
                        (let t = t\<lparr>bt_rest := ws\<rparr>; r = btf_bswap_type_rest t
                         in if swapped \<and> fst r \<noteq> 0 then Some (Inl (- EINVAL))
                            else if \<not> grow (length ts) then Some (Inl (- ENOMEM))
                            else btf_parse_type_sec le swapped grow (drop (nat type_size) b)
                                   (ts @ [if swapped then snd r else t])))))
      else if b \<noteq> [] then Some (Inl (- EINVAL))
      else Some (Inr ts))"
  by pat_completeness auto
termination
proof (relation "measure (\<lambda>(le, swapped, grow, b, ts). length b)", goal_cases)
  case (2 le swapped grow b ts t0 t sz ws t' r)
  then show ?case using btf_type_size_less [of t] by simp
qed simp

declare btf_parse_type_sec.simps [simp del]


section \<open>Validation\<close>

definition btf_validate_str :: "btf \<Rightarrow> u32 \<Rightarrow> int option" where
  "btf_validate_str b str_off = do { s \<leftarrow> btf__str_by_offset b str_off; Some (if s = None then - EINVAL else 0) }"

definition btf_validate_id :: "btf \<Rightarrow> u32 \<Rightarrow> int" where
  "btf_validate_id b type_id = (if btf__type_by_id b type_id = None then - EINVAL else 0)"

text \<open>A loop that stops at the first error.\<close>

primrec check_all :: "('a \<Rightarrow> int option) \<Rightarrow> 'a list \<Rightarrow> int option" where
  "check_all f [] = Some 0"
| "check_all f (i # is) = do { err \<leftarrow> f i; if err \<noteq> 0 then Some err else check_all f is }"

definition btf_validate_type :: "btf \<Rightarrow> btf_type \<Rightarrow> int option" where
  "btf_validate_type b t = do {
     err \<leftarrow> btf_validate_str b (bt_name_off t);
     let k = btf_kind t;
     let items = [0..<btf_vlen t];
     if err \<noteq> 0 then Some err
     else if k \<in> {BTF_KIND_UNKN, BTF_KIND_INT, BTF_KIND_FWD, BTF_KIND_FLOAT} then Some 0
     else if k \<in> {BTF_KIND_PTR, BTF_KIND_TYPEDEF, BTF_KIND_VOLATILE, BTF_KIND_CONST, BTF_KIND_RESTRICT, BTF_KIND_VAR,
                   BTF_KIND_DECL_TAG, BTF_KIND_TYPE_TAG} then Some (btf_validate_id b (bt_size_type t))
     else if k = BTF_KIND_ARRAY then do {
       a \<leftarrow> btf_array_of t;
       let err = btf_validate_id b (ba_type a);
       Some (if err \<noteq> 0 then err else btf_validate_id b (ba_index_type a)) }
     else if k = BTF_KIND_STRUCT \<or> k = BTF_KIND_UNION then
       check_all (\<lambda>i. do {
         m \<leftarrow> btf_members t i;
         err \<leftarrow> btf_validate_str b (bm_name_off m);
         Some (if err \<noteq> 0 then err else btf_validate_id b (bm_type m)) }) items
     else if k = BTF_KIND_ENUM then
       check_all (\<lambda>i. do { (name, v) \<leftarrow> btf_enum t i; btf_validate_str b name }) items
     else if k = BTF_KIND_ENUM64 then
       check_all (\<lambda>i. do { (name, v) \<leftarrow> btf_enum64 t i; btf_validate_str b name }) items
     else if k = BTF_KIND_FUNC then
       (let err = btf_validate_id b (bt_size_type t)
        in if err \<noteq> 0 then Some err
           else do {
             ft \<leftarrow> btf__type_by_id b (bt_size_type t);
             Some (if btf_kind ft \<noteq> BTF_KIND_FUNC_PROTO then - EINVAL else 0) })
     else if k = BTF_KIND_FUNC_PROTO then
       check_all (\<lambda>i. do {
         (name, ptype) \<leftarrow> btf_params t i;
         err \<leftarrow> btf_validate_str b name;
         Some (if err \<noteq> 0 then err else btf_validate_id b ptype) }) items
     else if k = BTF_KIND_DATASEC then
       check_all (\<lambda>i. do { vtype \<leftarrow> btf_var_secinfos t i; Some (btf_validate_id b vtype) }) items
     else Some (- EINVAL) }"

definition btf_sanity_check :: "btf \<Rightarrow> int option" where
  "btf_sanity_check b =
     check_all (\<lambda>i. do { t \<leftarrow> btf_type_by_id b (of_nat i); btf_validate_type b t }) [start_id b..<btf__type_cnt b]"

text \<open>\<open>base_btf->hdr->str_len\<close> is the length of the strings the base itself has.\<close>

definition btf_new :: "bool \<Rightarrow> bool \<Rightarrow> bool \<Rightarrow> (nat \<Rightarrow> bool) \<Rightarrow> u8 list \<Rightarrow> btf option \<Rightarrow> (int + btf) option" where
  "btf_new le calloc_ok malloc_ok grow raw base =
     (if \<not> calloc_ok \<or> \<not> malloc_ok then Some (Inl (- ENOMEM))
      else do {
        hdr \<leftarrow> btf_parse_hdr le raw;
        case hdr of
          Inl err \<Rightarrow> Some (Inl err)
        | Inr (h, swapped) \<Rightarrow> do {
            let strs = take (unat (bh_str_len h)) (drop (unat (bh_hdr_len h) + unat (bh_str_off h)) raw);
            let types = take (unat (bh_type_len h)) (drop (unat (bh_hdr_len h) + unat (bh_type_off h)) raw);
            let sid = (case base of None \<Rightarrow> 1 | Some b \<Rightarrow> btf__type_cnt b);
            let soff = (case base of None \<Rightarrow> 0 | Some b \<Rightarrow> length (btf_strs b));
            let err = btf_parse_str_sec (base \<noteq> None) strs;
            if err \<noteq> 0 then Some (Inl err)
            else do {
              r \<leftarrow> btf_parse_type_sec le swapped grow types [];
              case r of
                Inl err \<Rightarrow> Some (Inl err)
              | Inr ts \<Rightarrow> do {
                  let b = Btf base sid soff ts strs 0 swapped;
                  err \<leftarrow> btf_sanity_check b;
                  Some (if err \<noteq> 0 then Inl err else Inr b) } } } })"

section \<open>Queries\<close>

abbreviation long_aliases :: "u8 list list" where
  "long_aliases \<equiv> map (map of_char) [''long'', ''long int'', ''int long'', ''unsigned long'', ''long unsigned'',
     ''unsigned long int'', ''unsigned int long'', ''long unsigned int'', ''long int unsigned'', ''int unsigned long'',
     ''int long unsigned'']"

fun ptr_size_loop :: "btf \<Rightarrow> nat list \<Rightarrow> int option" where
  "ptr_size_loop b [] = Some (- 1)"
| "ptr_size_loop b (i # is) = do {
     t \<leftarrow> btf__type_by_id b (of_nat i);
     if btf_kind t \<noteq> BTF_KIND_INT \<or> (bt_size_type t \<noteq> 4 \<and> bt_size_type t \<noteq> 8) then ptr_size_loop b is
     else do {
       name \<leftarrow> btf__name_by_offset b (bt_name_off t);
       if name \<in> Some ` set long_aliases then Some (uint (bt_size_type t)) else ptr_size_loop b is } }"

definition determine_ptr_size :: "btf \<Rightarrow> int option" where
  "determine_ptr_size b =
     (case base_btf b of
        Some b0 \<Rightarrow> if btf_ptr_size b0 > 0 then Some (btf_ptr_size b0) else ptr_size_loop b [1..<btf__type_cnt b]
      | None \<Rightarrow> ptr_size_loop b [1..<btf__type_cnt b])"

text \<open>The size found is the one kept in the object: a second call finds it again. Pointers of the host have 8 bytes.\<close>

definition btf_ptr_sz :: "btf \<Rightarrow> int option" where
  "btf_ptr_sz b = do {
     sz \<leftarrow> (if btf_ptr_size b = 0 then determine_ptr_size b else Some (btf_ptr_size b));
     Some (if sz < 0 then 8 else sz) }"

abbreviation (input) UINT32_MAX :: int where "UINT32_MAX \<equiv> 4294967295"

definition resolved_size :: "u32 \<Rightarrow> int \<Rightarrow> int" where
  "resolved_size nelems sz =
     (if sz < 0 then - EINVAL
      else if nelems \<noteq> 0 \<and> sz > UINT32_MAX div uint nelems then - E2BIG
      else uint nelems * sz)"

primrec resolve_size_loop :: "nat \<Rightarrow> btf \<Rightarrow> u32 \<Rightarrow> u32 \<Rightarrow> int option" where
  "resolve_size_loop 0 b nelems type_id = Some (resolved_size nelems (- 1))"
| "resolve_size_loop (Suc n) b nelems type_id =
     (case btf__type_by_id b type_id of
        None \<Rightarrow> Some (resolved_size nelems (- 1))
      | Some t \<Rightarrow>
          (let k = btf_kind t
           in if type_id = 0 \<or> k = BTF_KIND_FWD then Some (resolved_size nelems (- 1))
              else if k \<in> {BTF_KIND_INT, BTF_KIND_STRUCT, BTF_KIND_UNION, BTF_KIND_ENUM, BTF_KIND_ENUM64,
                           BTF_KIND_DATASEC, BTF_KIND_FLOAT}
              then Some (resolved_size nelems (uint (bt_size_type t)))
              else if k = BTF_KIND_PTR then do { sz \<leftarrow> btf_ptr_sz b; Some (resolved_size nelems sz) }
              else if k \<in> {BTF_KIND_TYPEDEF, BTF_KIND_VOLATILE, BTF_KIND_CONST, BTF_KIND_RESTRICT, BTF_KIND_VAR,
                           BTF_KIND_DECL_TAG, BTF_KIND_TYPE_TAG}
              then resolve_size_loop n b nelems (bt_size_type t)
              else if k = BTF_KIND_ARRAY then do {
                a \<leftarrow> btf_array_of t;
                if nelems \<noteq> 0 \<and> uint (ba_nelems a) > UINT32_MAX div uint nelems then Some (- E2BIG)
                else resolve_size_loop n b (nelems * ba_nelems a) (ba_type a) }
              else Some (- EINVAL)))"

definition btf__resolve_size :: "btf \<Rightarrow> u32 \<Rightarrow> int option" where
  "btf__resolve_size b type_id = resolve_size_loop 32 b 1 type_id"

primrec resolve_type_loop :: "nat \<Rightarrow> btf \<Rightarrow> u32 \<Rightarrow> int" where
  "resolve_type_loop 0 b type_id = - EINVAL"
| "resolve_type_loop (Suc n) b type_id =
     (case btf__type_by_id b type_id of
        None \<Rightarrow> - EINVAL
      | Some t \<Rightarrow>
          if type_id = 0 \<or> btf_kind t = BTF_KIND_FWD then - EINVAL
          else if btf_is_mod t \<or> btf_kind t = BTF_KIND_TYPEDEF \<or> btf_kind t = BTF_KIND_VAR
          then resolve_type_loop n b (bt_size_type t)
          else uint type_id)"

definition btf__resolve_type :: "btf \<Rightarrow> u32 \<Rightarrow> int" where
  "btf__resolve_type b type_id = resolve_type_loop 32 b type_id"

text \<open>
  Following a chain of modifiers may not end (a type section can refer to itself), and it follows a null pointer
  where a chain leaves the table: both are \<open>None\<close>.
\<close>

partial_function (option) skip_mods_and_typedefs :: "btf \<Rightarrow> u32 \<Rightarrow> (btf_type \<times> u32) option" where
  "skip_mods_and_typedefs b type_id =
     (case btf__type_by_id b type_id of
        None \<Rightarrow> None
      | Some t \<Rightarrow> if btf_is_mod t \<or> btf_kind t = BTF_KIND_TYPEDEF then skip_mods_and_typedefs b (bt_size_type t)
          else Some (t, type_id))"

declare skip_mods_and_typedefs.simps [code]

fun find_name_loop :: "btf \<Rightarrow> u8 list \<Rightarrow> (btf_type \<Rightarrow> bool) \<Rightarrow> nat list \<Rightarrow> int option" where
  "find_name_loop b name ok [] = Some (- ENOENT)"
| "find_name_loop b name ok (i # is) = do {
     t \<leftarrow> btf__type_by_id b (of_nat i);
     if \<not> ok t then find_name_loop b name ok is
     else do {
       s \<leftarrow> btf__name_by_offset b (bt_name_off t);
       if s = Some name then Some (int i) else find_name_loop b name ok is } }"

definition btf__find_by_name :: "btf \<Rightarrow> u8 list \<Rightarrow> int option" where
  "btf__find_by_name b name =
     (if name = map of_char ''void'' then Some 0 else find_name_loop b name (\<lambda>t. True) [1..<btf__type_cnt b])"

definition btf_find_by_name_kind :: "btf \<Rightarrow> nat \<Rightarrow> u8 list \<Rightarrow> u32 \<Rightarrow> int option" where
  "btf_find_by_name_kind b first name kind =
     (if kind = BTF_KIND_UNKN \<or> name = map of_char ''void'' then Some 0
      else find_name_loop b name (\<lambda>t. btf_kind t = kind) [first..<btf__type_cnt b])"

definition btf__find_by_name_kind_own :: "btf \<Rightarrow> u8 list \<Rightarrow> u32 \<Rightarrow> int option" where
  "btf__find_by_name_kind_own b name kind = btf_find_by_name_kind b (start_id b) name kind"

definition btf__find_by_name_kind :: "btf \<Rightarrow> u8 list \<Rightarrow> u32 \<Rightarrow> int option" where
  "btf__find_by_name_kind b name kind = btf_find_by_name_kind b 1 name kind"

end
