(* ===== verification/Btf_Props.thy ===== *)
theory Btf_Props
  imports Btf
begin

text \<open>What parsing guarantees of the object it returns.\<close>

section \<open>Well-formed objects\<close>

text \<open>The identifiers and the strings that a type mentions; the return type of a function prototype is not checked.\<close>

definition checked_refs :: "btf_type \<Rightarrow> u32 list" where
  "checked_refs t =
     (let k = btf_kind t; items = [0..<btf_vlen t]
      in if k \<in> {BTF_KIND_PTR, BTF_KIND_TYPEDEF, BTF_KIND_VOLATILE, BTF_KIND_CONST, BTF_KIND_RESTRICT, BTF_KIND_VAR,
                 BTF_KIND_DECL_TAG, BTF_KIND_TYPE_TAG, BTF_KIND_FUNC} then [bt_size_type t]
         else if k = BTF_KIND_ARRAY then [bt_rest t ! 0, bt_rest t ! 1]
         else if k = BTF_KIND_STRUCT \<or> k = BTF_KIND_UNION then map (\<lambda>i. bt_rest t ! (3 * i + 1)) items
         else if k = BTF_KIND_FUNC_PROTO then map (\<lambda>i. bt_rest t ! (2 * i + 1)) items
         else if k = BTF_KIND_DATASEC then map (\<lambda>i. bt_rest t ! (3 * i)) items
         else [])"

definition type_names :: "btf_type \<Rightarrow> u32 list" where
  "type_names t =
     (let k = btf_kind t; items = [0..<btf_vlen t]
      in bt_name_off t #
         (if k \<in> {BTF_KIND_STRUCT, BTF_KIND_UNION, BTF_KIND_ENUM64} then map (\<lambda>i. bt_rest t ! (3 * i)) items
          else if k \<in> {BTF_KIND_ENUM, BTF_KIND_FUNC_PROTO} then map (\<lambda>i. bt_rest t ! (2 * i)) items
          else []))"

definition sized :: "btf_type \<Rightarrow> bool" where
  "sized t \<longleftrightarrow> btf_type_size t = 12 + 4 * int (length (bt_rest t))"

definition valid_name :: "btf \<Rightarrow> u32 \<Rightarrow> bool" where
  "valid_name b off \<longleftrightarrow> (\<exists>s. btf__str_by_offset b off = Some (Some s))"

definition type_good :: "btf \<Rightarrow> btf_type \<Rightarrow> bool" where
  "type_good b t \<longleftrightarrow> (btf_kind t = BTF_KIND_UNKN \<or> sized t) \<and>
     list_all (\<lambda>i. unat i < btf__type_cnt b) (checked_refs t) \<and> list_all (valid_name b) (type_names t)"

text \<open>How an object sits on its base.\<close>

fun stacked :: "btf \<Rightarrow> bool" where
  "stacked (Btf base sid soff ts strs psz sw) \<longleftrightarrow>
     (case base of None \<Rightarrow> sid = 1 \<and> soff = 0 \<and> strs \<noteq> [] | Some b \<Rightarrow> stacked b \<and> sid = btf__type_cnt b \<and> 0 < soff) \<and>
     (strs \<noteq> [] \<longrightarrow> last strs = 0) \<and> sid + length ts < 2 ^ 32"

definition btf_good :: "btf \<Rightarrow> bool" where
  "btf_good b \<longleftrightarrow> stacked b \<and> (\<forall>i. unat i < btf__type_cnt b \<longrightarrow> (\<exists>t. btf__type_by_id b i = Some t \<and> type_good b t))"

section \<open>Reading\<close>

lemma vlen_less: "btf_vlen t < 65536"
proof -
  have "bt_info t AND 0xffff \<le> 0xffff" by (rule word_and_le1)
  then show ?thesis by (simp add: btf_vlen_def word_le_nat_alt)
qed

lemma get32_total: "off + 4 \<le> length b \<Longrightarrow> \<exists>w. get32 le b off = Some w"
  by (simp add: get32_def)

lemma words_at_total:
  "off + 4 * n \<le> length b \<Longrightarrow> \<exists>ws. words_at le b off n = Some ws \<and> length ws = n"
proof (induction n arbitrary: off)
  case (Suc n)
  then obtain w ws where "get32 le b off = Some w" "words_at le b (off + 4) n = Some ws" "length ws = n"
    using get32_total [of off b le] Suc.IH [of "off + 4"] by fastforce
  then show ?case by simp
qed simp

lemma base_at_total: "12 \<le> length b \<Longrightarrow> \<exists>t. base_at le b = Some t"
  using get32_total [of 0 b le] get32_total [of 4 b le] get32_total [of 8 b le] by (auto simp: base_at_def)

lemma btf_type_size_rest [simp]: "btf_type_size (t\<lparr>bt_rest := ws\<rparr>) = btf_type_size t"
  by (simp add: btf_type_size_def btf_kind_def btf_vlen_def)

lemma btf_type_size_mod: "0 \<le> btf_type_size t \<Longrightarrow> \<exists>n. btf_type_size t = 12 + 4 * int n"
proof -
  assume "0 \<le> btf_type_size t"
  then have "btf_type_size t = 12 + 4 * int 0 \<or> btf_type_size t = 12 + 4 * int 1 \<or> btf_type_size t = 12 + 4 * int 3 \<or>
      btf_type_size t = 12 + 4 * int (2 * btf_vlen t) \<or> btf_type_size t = 12 + 4 * int (3 * btf_vlen t)"
    by (simp add: btf_type_size_def Let_def split: if_splits)
  then show ?thesis by blast
qed

lemma sized_bswap: "sized t \<Longrightarrow> sized (snd (btf_bswap_type_rest t))"
  by (simp add: sized_def btf_bswap_type_rest_def Let_def)

lemma parse_type_step:
  assumes "base_at le b = Some t0" "t = (if sw then btf_bswap_type_base t0 else t0)" "btf_type_size t = 12 + 4 * int n"
    "12 + 4 * n \<le> length b" "words_at le b 12 n = Some ws" "r = btf_bswap_type_rest (t\<lparr>bt_rest := ws\<rparr>)"
  shows "btf_parse_type_sec le sw grow b ts =
    (if sw \<and> fst r \<noteq> 0 then Some (Inl (- EINVAL))
     else if \<not> grow (length ts) then Some (Inl (- ENOMEM))
     else btf_parse_type_sec le sw grow (drop (12 + 4 * n) b) (ts @ [if sw then snd r else t\<lparr>bt_rest := ws\<rparr>]))"
proof -
  have sz: "nat (btf_type_size t) = 12 + 4 * n" "(12 + 4 * n - 12) div 4 = n" "\<not> btf_type_size t < 0"
    using assms(3) by linarith+
  have "12 \<le> length b" "\<not> length b < nat (btf_type_size t)" using assms(4) sz by linarith+
  then show ?thesis
    by (subst btf_parse_type_sec.simps) (simp only: assms(1) assms(2) [symmetric] Let_def sz assms(5) assms(6) [symmetric] option.case if_True if_False)
qed

lemma parse_type_sec_ok:
  "list_all sized ts \<Longrightarrow>
     \<exists>r. btf_parse_type_sec le sw grow b ts = Some r \<and>
       (\<forall>ts'. r = Inr ts' \<longrightarrow> list_all sized ts' \<and> 12 * length ts' \<le> 12 * length ts + length b)"
proof (induction "length b" arbitrary: b ts rule: less_induct)
  case less
  show ?case
  proof (cases "12 \<le> length b")
    case False
    then show ?thesis using less.prems by (subst btf_parse_type_sec.simps) auto
  next
    case True
    then obtain t0 where t0: "base_at le b = Some t0" using base_at_total by blast
    define t where "t = (if sw then btf_bswap_type_base t0 else t0)"
    show ?thesis
    proof (cases "btf_type_size t < 0 \<or> length b < nat (btf_type_size t)")
      case True
      with \<open>12 \<le> length b\<close> t0 show ?thesis
        by (subst btf_parse_type_sec.simps) (auto simp: Let_def t_def [symmetric])
    next
      case False
      then obtain n where sz: "btf_type_size t = 12 + 4 * int n" "12 + 4 * n \<le> length b"
        using btf_type_size_mod [of t] by fastforce
      then obtain ws where ws: "words_at le b 12 n = Some ws" "length ws = n" using words_at_total by blast
      define r where "r = btf_bswap_type_rest (t\<lparr>bt_rest := ws\<rparr>)"
      let ?t = "if sw then snd r else t\<lparr>bt_rest := ws\<rparr>"
      have "sized (t\<lparr>bt_rest := ws\<rparr>)" by (simp add: sized_def sz ws)
      then have "sized ?t" using sized_bswap by (simp add: r_def)
      then have ts: "list_all sized (ts @ [?t])" using less.prems by simp
      have "length (drop (12 + 4 * n) b) < length b" using sz(2) by simp
      from less.hyps [OF this ts] sz(2) show ?thesis
        unfolding parse_type_step [OF t0 t_def sz ws(1) r_def] by fastforce
    qed
  qed
qed

section \<open>Looking up\<close>

lemma type_by_id_total:
  "stacked b \<Longrightarrow> unat i < btf__type_cnt b \<Longrightarrow> \<exists>t. btf_type_by_id b i = Some t"
proof (induction b i rule: btf_type_by_id.induct)
  case (1 base sid soff ts strs psz sw i)
  show ?case
  proof (cases "i = 0")
    case False
    then have "0 < unat i" by (simp add: unat_gt_0)
    with 1 False show ?thesis by (cases base) (auto simp: btf__type_cnt_def aget_def)
  qed simp
qed

lemma type_by_id_iff: "stacked b \<Longrightarrow> (btf__type_by_id b i = None) = (btf__type_cnt b \<le> unat i)"
  using type_by_id_total [of b i] by (auto simp: btf__type_by_id_def)

lemma c_string_total: "s \<noteq> [] \<Longrightarrow> last s = 0 \<Longrightarrow> n < length s \<Longrightarrow> \<exists>u. c_string (drop n s) = Some u"
proof -
  assume "s \<noteq> []" "last s = 0" "n < length s"
  then have "0 \<in> set (drop n s)" by (metis drop_eq_Nil last_drop last_in_set not_less)
  then show ?thesis by (simp add: c_string_def)
qed

lemma str_by_offset_total: "stacked b \<Longrightarrow> \<exists>s. btf__str_by_offset b off = Some s"
proof (induction b off rule: btf__str_by_offset.induct)
  case (1 base sid soff ts strs psz sw off)
  have "unat off - soff < length strs \<Longrightarrow> \<exists>u. c_string (drop (unat off - soff) strs) = Some u"
    using "1.prems" c_string_total [of strs "unat off - soff"] by (cases strs) auto
  with "1.prems" "1.IH" show ?case by (cases base) auto
qed

lemma validate_str_ok:
  "stacked b \<Longrightarrow> \<exists>e. btf_validate_str b off = Some e \<and> (e = 0 \<longrightarrow> valid_name b off)"
  using str_by_offset_total [of b off] by (auto simp: btf_validate_str_def valid_name_def)

lemma validate_id_ok: "stacked b \<Longrightarrow> btf_validate_id b i = 0 \<longleftrightarrow> unat i < btf__type_cnt b"
  by (simp add: btf_validate_id_def type_by_id_iff)

lemma check_all_ok:
  "(\<And>i. i \<in> set is \<Longrightarrow> \<exists>e. f i = Some e \<and> (e = 0 \<longrightarrow> P i)) \<Longrightarrow>
     \<exists>e. check_all f is = Some e \<and> (e = 0 \<longrightarrow> (\<forall>i \<in> set is. P i))"
proof (induction "is")
  case (Cons i "is")
  then obtain e e' where "f i = Some e" "e = 0 \<longrightarrow> P i" "check_all f is = Some e'" "e' = 0 \<longrightarrow> (\<forall>i \<in> set is. P i)"
    by (metis list.set_intros)
  then show ?case by auto
qed simp

section \<open>Validation\<close>

lemma sized_lengths:
  assumes "sized t"
  shows "btf_kind t = 1 \<or> btf_kind t = 14 \<or> btf_kind t = 17 \<Longrightarrow> length (bt_rest t) = 1"
    "btf_kind t = 3 \<Longrightarrow> length (bt_rest t) = 3"
    "btf_kind t = 4 \<or> btf_kind t = 5 \<or> btf_kind t = 15 \<or> btf_kind t = 19 \<Longrightarrow> length (bt_rest t) = 3 * btf_vlen t"
    "btf_kind t = 6 \<or> btf_kind t = 13 \<Longrightarrow> length (bt_rest t) = 2 * btf_vlen t"
  using assms by (auto simp: sized_def btf_type_size_def)

lemma members_at:
  "3 * i + 2 < length (bt_rest t) \<Longrightarrow>
     btf_members t i = Some \<lparr>bm_name_off = bt_rest t ! (3 * i), bm_type = bt_rest t ! (3 * i + 1), bm_offset = bt_rest t ! (3 * i + 2)\<rparr>"
  by (simp add: btf_members_def aget_def)

lemma items3_at: "3 * i + 2 < length (bt_rest t) \<Longrightarrow>
     (\<exists>v. btf_enum64 t i = Some (bt_rest t ! (3 * i), v)) \<and> btf_var_secinfos t i = Some (bt_rest t ! (3 * i))"
  by (simp add: btf_enum64_def btf_var_secinfos_def aget_def)

lemma items2_at: "2 * i + 1 < length (bt_rest t) \<Longrightarrow>
     (\<exists>v. btf_enum t i = Some (bt_rest t ! (2 * i), v)) \<and> btf_params t i = Some (bt_rest t ! (2 * i), bt_rest t ! (2 * i + 1))"
  by (simp add: btf_enum_def btf_params_def aget_def)

lemma array_at: "length (bt_rest t) = 3 \<Longrightarrow>
     btf_array_of t = Some \<lparr>ba_type = bt_rest t ! 0, ba_index_type = bt_rest t ! 1, ba_nelems = bt_rest t ! 2\<rparr>"
  by (simp add: btf_array_of_def aget_def numeral_2_eq_2)

lemma validate_members_ok:
  assumes "stacked b" "length (bt_rest t) = 3 * btf_vlen t"
  shows "\<exists>e. check_all (\<lambda>i. do { m \<leftarrow> btf_members t i; err \<leftarrow> btf_validate_str b (bm_name_off m);
      Some (if err \<noteq> 0 then err else btf_validate_id b (bm_type m)) }) [0..<btf_vlen t] = Some e \<and>
    (e = 0 \<longrightarrow> (\<forall>i \<in> set [0..<btf_vlen t]. valid_name b (bt_rest t ! (3 * i)) \<and> unat (bt_rest t ! (3 * i + 1)) < btf__type_cnt b))"
proof (rule check_all_ok)
  fix i assume "i \<in> set [0..<btf_vlen t]"
  then have "3 * i + 2 < length (bt_rest t)" using assms(2) by auto
  then show "\<exists>e. do { m \<leftarrow> btf_members t i; err \<leftarrow> btf_validate_str b (bm_name_off m);
      Some (if err \<noteq> 0 then err else btf_validate_id b (bm_type m)) } = Some e \<and>
      (e = 0 \<longrightarrow> valid_name b (bt_rest t ! (3 * i)) \<and> unat (bt_rest t ! (3 * i + 1)) < btf__type_cnt b)"
    using validate_str_ok [OF assms(1), of "bt_rest t ! (3 * i)"] by (auto simp: members_at validate_id_ok [OF assms(1)])
qed

lemma validate_items3_ok:
  assumes "stacked b" "length (bt_rest t) = 3 * btf_vlen t"
  shows "\<exists>e. check_all (\<lambda>i. do { (name, v) \<leftarrow> btf_enum64 t i; btf_validate_str b name }) [0..<btf_vlen t] = Some e \<and>
      (e = 0 \<longrightarrow> (\<forall>i \<in> set [0..<btf_vlen t]. valid_name b (bt_rest t ! (3 * i))))"
    "\<exists>e. check_all (\<lambda>i. do { vtype \<leftarrow> btf_var_secinfos t i; Some (btf_validate_id b vtype) }) [0..<btf_vlen t] = Some e \<and>
      (e = 0 \<longrightarrow> (\<forall>i \<in> set [0..<btf_vlen t]. unat (bt_rest t ! (3 * i)) < btf__type_cnt b))"
proof -
  have at: "3 * i + 2 < length (bt_rest t)" if "i \<in> set [0..<btf_vlen t]" for i using assms(2) that by auto
  show "\<exists>e. check_all (\<lambda>i. do { (name, v) \<leftarrow> btf_enum64 t i; btf_validate_str b name }) [0..<btf_vlen t] = Some e \<and>
      (e = 0 \<longrightarrow> (\<forall>i \<in> set [0..<btf_vlen t]. valid_name b (bt_rest t ! (3 * i))))"
    by (rule check_all_ok, drule at) (use items3_at validate_str_ok [OF assms(1)] in fastforce)
  show "\<exists>e. check_all (\<lambda>i. do { vtype \<leftarrow> btf_var_secinfos t i; Some (btf_validate_id b vtype) }) [0..<btf_vlen t] = Some e \<and>
      (e = 0 \<longrightarrow> (\<forall>i \<in> set [0..<btf_vlen t]. unat (bt_rest t ! (3 * i)) < btf__type_cnt b))"
    by (rule check_all_ok, drule at) (simp add: items3_at validate_id_ok [OF assms(1)])
qed

lemma validate_items2_ok:
  assumes "stacked b" "length (bt_rest t) = 2 * btf_vlen t"
  shows "\<exists>e. check_all (\<lambda>i. do { (name, v) \<leftarrow> btf_enum t i; btf_validate_str b name }) [0..<btf_vlen t] = Some e \<and>
      (e = 0 \<longrightarrow> (\<forall>i \<in> set [0..<btf_vlen t]. valid_name b (bt_rest t ! (2 * i))))"
    "\<exists>e. check_all (\<lambda>i. do { (name, ptype) \<leftarrow> btf_params t i; err \<leftarrow> btf_validate_str b name;
        Some (if err \<noteq> 0 then err else btf_validate_id b ptype) }) [0..<btf_vlen t] = Some e \<and>
      (e = 0 \<longrightarrow> (\<forall>i \<in> set [0..<btf_vlen t]. valid_name b (bt_rest t ! (2 * i)) \<and>
         unat (bt_rest t ! (2 * i + 1)) < btf__type_cnt b))"
proof -
  have at: "2 * i + 1 < length (bt_rest t)" if "i \<in> set [0..<btf_vlen t]" for i using assms(2) that by auto
  show "\<exists>e. check_all (\<lambda>i. do { (name, v) \<leftarrow> btf_enum t i; btf_validate_str b name }) [0..<btf_vlen t] = Some e \<and>
      (e = 0 \<longrightarrow> (\<forall>i \<in> set [0..<btf_vlen t]. valid_name b (bt_rest t ! (2 * i))))"
    by (rule check_all_ok, drule at) (use items2_at validate_str_ok [OF assms(1)] in fastforce)
  show "\<exists>e. check_all (\<lambda>i. do { (name, ptype) \<leftarrow> btf_params t i; err \<leftarrow> btf_validate_str b name;
        Some (if err \<noteq> 0 then err else btf_validate_id b ptype) }) [0..<btf_vlen t] = Some e \<and>
      (e = 0 \<longrightarrow> (\<forall>i \<in> set [0..<btf_vlen t]. valid_name b (bt_rest t ! (2 * i)) \<and>
         unat (bt_rest t ! (2 * i + 1)) < btf__type_cnt b))"
  proof (rule check_all_ok, drule at)
    fix i assume "2 * i + 1 < length (bt_rest t)"
    then show "\<exists>e. do { (name, ptype) \<leftarrow> btf_params t i; err \<leftarrow> btf_validate_str b name;
        Some (if err \<noteq> 0 then err else btf_validate_id b ptype) } = Some e \<and>
      (e = 0 \<longrightarrow> valid_name b (bt_rest t ! (2 * i)) \<and> unat (bt_rest t ! (2 * i + 1)) < btf__type_cnt b)"
      using validate_str_ok [OF assms(1), of "bt_rest t ! (2 * i)"] by (auto simp: items2_at validate_id_ok [OF assms(1)])
  qed
qed

lemma validate_type_ok:
  assumes "stacked b" "sized t"
  shows "\<exists>e. btf_validate_type b t = Some e \<and> (e = 0 \<longrightarrow> type_good b t)"
proof -
  obtain e where e: "btf_validate_str b (bt_name_off t) = Some e" "e = 0 \<longrightarrow> valid_name b (bt_name_off t)"
    using validate_str_ok [OF assms(1)] by blast
  note id = validate_id_ok [OF assms(1)]
  note good = type_good_def checked_refs_def type_names_def assms(2)
  note len = sized_lengths [OF assms(2)]
  consider "btf_kind t \<in> {4, 5}" | "btf_kind t = 6" | "btf_kind t = 19" | "btf_kind t = 13" | "btf_kind t = 15" |
    "btf_kind t = 12" | "btf_kind t = 3" | "btf_kind t \<notin> {4, 5, 6, 19, 13, 15, 12, 3}" by blast
  then show ?thesis
  proof cases
    case 1
    then have "length (bt_rest t) = 3 * btf_vlen t" using len(3) by auto
    from validate_members_ok [OF assms(1) this] show ?thesis
      using 1 e by (auto simp: btf_validate_type_def good Let_def list_all_iff simp del: set_upt)
  next
    case 2
    then have "length (bt_rest t) = 2 * btf_vlen t" using len(4) by auto
    from validate_items2_ok(1) [OF assms(1) this] show ?thesis
      using 2 e by (auto simp: btf_validate_type_def good Let_def list_all_iff simp del: set_upt)
  next
    case 3
    then have "length (bt_rest t) = 3 * btf_vlen t" using len(3) by auto
    from validate_items3_ok(1) [OF assms(1) this] show ?thesis
      using 3 e by (auto simp: btf_validate_type_def good Let_def list_all_iff simp del: set_upt)
  next
    case 4
    then have "length (bt_rest t) = 2 * btf_vlen t" using len(4) by auto
    from validate_items2_ok(2) [OF assms(1) this] show ?thesis
      using 4 e by (auto simp: btf_validate_type_def good Let_def list_all_iff simp del: set_upt)
  next
    case 5
    then have "length (bt_rest t) = 3 * btf_vlen t" using len(3) by auto
    from validate_items3_ok(2) [OF assms(1) this] show ?thesis
      using 5 e by (auto simp: btf_validate_type_def good Let_def list_all_iff simp del: set_upt)
  next
    case 6
    then show ?thesis using e id [of "bt_size_type t"] type_by_id_iff [OF assms(1), of "bt_size_type t"]
      by (cases "btf__type_by_id b (bt_size_type t)") (auto simp: btf_validate_type_def good Let_def btf_validate_id_def)
  next
    case 7
    then show ?thesis using e len(2) by (auto simp: btf_validate_type_def good Let_def array_at id)
  next
    case 8
    then show ?thesis using e by (auto simp: btf_validate_type_def good Let_def id)
  qed
qed

section \<open>Parsing a blob of bytes\<close>

lemma header_at_total: "24 \<le> length raw \<Longrightarrow> \<exists>h. header_at le raw = Some h"
  using get32_total [of 4 raw le] get32_total [of 8 raw le] get32_total [of 12 raw le] get32_total [of 16 raw le]
    get32_total [of 20 raw le] by (auto simp: header_at_def)

lemma parse_hdr_ok:
  "\<exists>r. btf_parse_hdr le raw = Some r \<and> (\<forall>h sw. r = Inr (h, sw) \<longrightarrow> btf_check_layout (length raw) h = 0)"
proof (cases "length raw < 24")
  case False
  then obtain h where "header_at le raw = Some h" using header_at_total [of raw le] by auto
  moreover obtain m where "get16 le raw 0 = Some m" using False by (simp add: get16_def)
  ultimately show ?thesis using False by (auto simp: btf_parse_hdr_def Let_def)
qed (simp add: btf_parse_hdr_def)

lemma start_id_pos: "stacked b \<Longrightarrow> 1 \<le> start_id b"
  by (induction b rule: stacked.induct) (auto simp: btf__type_cnt_def split: option.splits)

lemma own_type:
  assumes "stacked b" "start_id b \<le> i" "i < btf__type_cnt b"
  shows "btf_type_by_id b (of_nat i) = Some (btf_types b ! (i - start_id b))"
proof -
  obtain base sid soff ts strs psz sw where b: "b = Btf base sid soff ts strs psz sw" by (cases b)
  have "i < 2 ^ 32" using assms by (cases base) (auto simp: b btf__type_cnt_def)
  then have "unat (of_nat i :: u32) = i" by (simp add: unat_of_nat_u32)
  moreover from this have "(of_nat i :: u32) \<noteq> 0" using start_id_pos [OF assms(1)] assms(2) by auto
  ultimately show ?thesis using assms by (simp add: b btf__type_cnt_def aget_def)
qed

lemma sanity_check_ok:
  assumes "stacked b" "list_all sized (btf_types b)"
  shows "\<exists>e. btf_sanity_check b = Some e \<and>
    (e = 0 \<longrightarrow> (\<forall>i \<in> set [start_id b..<btf__type_cnt b]. \<exists>t. btf_type_by_id b (of_nat i) = Some t \<and> type_good b t))"
  unfolding btf_sanity_check_def
proof (rule check_all_ok)
  fix i assume i: "i \<in> set [start_id b..<btf__type_cnt b]"
  let ?t = "btf_types b ! (i - start_id b)"
  have "btf_type_by_id b (of_nat i) = Some ?t" using own_type [OF assms(1)] i by simp
  moreover have "sized ?t" using assms(2) i by (auto simp: list_all_length btf__type_cnt_def)
  ultimately show "\<exists>e. (do { t \<leftarrow> btf_type_by_id b (of_nat i); btf_validate_type b t }) = Some e \<and>
      (e = 0 \<longrightarrow> (\<exists>t. btf_type_by_id b (of_nat i) = Some t \<and> type_good b t))"
    using validate_type_ok [OF assms(1)] by simp
qed

text \<open>The types of a base stay good in what is put on top of it.\<close>

lemma type_good_on_base:
  assumes "base_btf b0 = None" "stacked b0" "type_good b0 t" "b = Btf (Some b0) (btf__type_cnt b0) (length (btf_strs b0)) ts strs psz sw"
  shows "type_good b t"
proof -
  have "valid_name b off" if "valid_name b0 off" for off
    using that assms(1,2,4) by (cases b0) (auto simp: valid_name_def split: if_splits)
  moreover have "btf__type_cnt b0 \<le> btf__type_cnt b" by (simp add: assms(4) btf__type_cnt_def [of "Btf _ _ _ _ _ _ _"])
  ultimately show ?thesis using assms(3) by (auto simp: type_good_def list_all_iff intro: less_le_trans)
qed

lemma void_good: "stacked b \<Longrightarrow> valid_name b 0 \<Longrightarrow> type_good b btf_void"
  by (simp add: type_good_def checked_refs_def type_names_def btf_void_def btf_kind_def)

lemma valid_name_0: "stacked b \<Longrightarrow> valid_name b 0"
proof (induction b rule: stacked.induct)
  case (1 base sid soff ts strs psz sw)
  then show ?case using c_string_total [of strs 0] by (cases base) (auto simp: valid_name_def)
qed

lemma sanity_good:
  assumes "stacked b" "btf_sanity_check b = Some 0" "list_all sized (btf_types b)"
    "\<And>b0. base_btf b = Some b0 \<Longrightarrow> base_btf b0 = None \<and> btf_good b0 \<and> start_str_off b = length (btf_strs b0)"
  shows "btf_good b"
  unfolding btf_good_def
proof (intro conjI allI impI)
  fix i :: u32 assume i: "unat i < btf__type_cnt b"
  then obtain t where t: "btf_type_by_id b i = Some t" using type_by_id_total [OF assms(1)] by blast
  have "type_good b t"
  proof (cases "start_id b \<le> unat i")
    case True
    then have "unat i \<in> set [start_id b..<btf__type_cnt b]" using i by simp
    moreover have "of_nat (unat i) = i" by simp
    ultimately show ?thesis using sanity_check_ok [OF assms(1,3)] assms(2) t by (metis option.inject)
  next
    case False
    show ?thesis
    proof (cases "i = 0")
      case True
      then show ?thesis using t void_good [OF assms(1) valid_name_0 [OF assms(1)]] by (cases b) simp
    next
      case nz: False
      obtain base sid soff ts strs psz sw where b: "b = Btf base sid soff ts strs psz sw" by (cases b)
      have "base \<noteq> None" using assms(1) False nz unat_gt_0 [of i] by (cases base) (auto simp: b)
      then obtain b0 where b0: "base = Some b0" by blast
      then have "btf_type_by_id b0 i = Some t" "unat i < btf__type_cnt b0" "sid = btf__type_cnt b0" "soff = length (btf_strs b0)"
        using t False nz assms(1) assms(4) [of b0] by (auto simp: b)
      moreover have "base_btf b0 = None" "btf_good b0" using assms(4) [of b0] by (simp_all add: b b0)
      ultimately show ?thesis
        using type_good_on_base [of b0 t b ts strs psz sw] by (fastforce simp: b b0 btf_good_def btf__type_by_id_def)
    qed
  qed
  with t i show "\<exists>t. btf__type_by_id b i = Some t \<and> type_good b t" by (simp add: btf__type_by_id_def)
qed (rule assms(1))

text \<open>Two small examples: a structure with two members, and one with the same members inside an anonymous one.\<close>

definition ex_int :: btf_type where
  "ex_int = \<lparr>bt_name_off = 1, bt_info = 0x01000000, bt_size_type = 4, bt_rest = [0x01000020]\<rparr>"

definition ex_strs :: "u8 list" where
  "ex_strs = [0] @ map of_char ''int'' @ [0] @ map of_char ''s'' @ [0] @ map of_char ''x'' @ [0] @ map of_char ''y'' @ [0] @ map of_char ''0:1'' @ [0]"

definition ex_local :: btf where
  "ex_local = Btf None 1 0 [ex_int,
     \<lparr>bt_name_off = 5, bt_info = 0x04000002, bt_size_type = 8, bt_rest = [7, 1, 0, 9, 1, 32]\<rparr>] ex_strs 0 False"

definition ex_kernel :: btf where
  "ex_kernel = Btf None 1 0 [ex_int,
     \<lparr>bt_name_off = 0, bt_info = 0x04000002, bt_size_type = 8, bt_rest = [7, 1, 0, 9, 1, 32]\<rparr>,
     \<lparr>bt_name_off = 5, bt_info = 0x04000002, bt_size_type = 12, bt_rest = [1, 1, 0, 0, 2, 32]\<rparr>] ex_strs 0 False"

lemma ex_local_good: "btf_good ex_local"
proof (rule sanity_good)
  show "stacked ex_local" by (simp add: ex_local_def ex_strs_def)
  show "list_all sized (btf_types ex_local)" by code_simp
  show "btf_sanity_check ex_local = Some 0" by code_simp
qed (simp_all add: ex_local_def)

lemma ex_kernel_good: "btf_good ex_kernel"
proof (rule sanity_good)
  show "stacked ex_kernel" by (simp add: ex_kernel_def ex_strs_def)
  show "list_all sized (btf_types ex_kernel)" by code_simp
  show "btf_sanity_check ex_kernel = Some 0" by code_simp
qed (simp_all add: ex_kernel_def)

text \<open>A pointer to the first, as split type information: the bytes and the object.\<close>

definition ex_bytes :: "u8 list" where
  "ex_bytes = [0x9f, 0xeb, 1, 0, 24, 0, 0, 0, 0, 0, 0, 0, 12, 0, 0, 0, 12, 0, 0, 0, 2, 0, 0, 0,
     15, 0, 0, 0, 0, 0, 0, 2, 2, 0, 0, 0, 0x70, 0]"

definition ex_split :: btf where
  "ex_split = Btf (Some ex_local) 3 15 [\<lparr>bt_name_off = 15, bt_info = 0x02000000, bt_size_type = 2, bt_rest = []\<rparr>] [0x70, 0] 0 False"

lemma ex_parsed: "btf_new True True True (\<lambda>n. True) ex_bytes (Some ex_local) = Some (Inr ex_split)"
proof -
  have h: "btf_parse_hdr True ex_bytes = Some (Inr (\<lparr>bh_hdr_len = 24, bh_type_off = 0, bh_type_len = 12, bh_str_off = 12,
      bh_str_len = 2\<rparr>, False))" by code_simp
  have t: "btf_parse_type_sec True False (\<lambda>n. True) (take 12 (drop 24 ex_bytes)) [] = Some (Inr (btf_types ex_split))" by code_simp
  have s: "take 2 (drop 36 ex_bytes) = [0x70, 0]" by code_simp
  have z: "btf_parse_str_sec True [0x70, 0] = 0" by (simp add: btf_parse_str_sec_def)
  have c: "btf__type_cnt ex_local = 3" "length (btf_strs ex_local) = 15" by code_simp+
  have k: "btf_sanity_check (Btf (Some ex_local) 3 15 (btf_types ex_split) [0x70, 0] 0 False) = Some 0" by code_simp
  show ?thesis using h t s z c k by (simp add: btf_new_def) (simp add: ex_split_def)
qed

text \<open>C28. Whatever the bytes, parsing type information (alone, or on top of a parsed base that is not itself split)
  stays inside them, ends and returns an error or an object in which every type has all the words of its kind, refers
  only to existing types (the return type of a prototype excepted, which is not checked) and names only terminated
  strings.\<close>

theorem btf_new_good:
  assumes "\<And>b0. base = Some b0 \<Longrightarrow> btf_good b0 \<and> base_btf b0 = None"
    "(case base of None \<Rightarrow> 1 | Some b0 \<Rightarrow> btf__type_cnt b0) + length raw < 2 ^ 32"
  shows "\<exists>r. btf_new le calloc_ok malloc_ok grow raw base = Some r \<and> (\<forall>b. r = Inr b \<longrightarrow> btf_good b)"
proof (cases "calloc_ok \<and> malloc_ok")
  case True
  obtain r where r: "btf_parse_hdr le raw = Some r" using parse_hdr_ok by blast
  show ?thesis
  proof (cases r)
    case (Inr hs)
    obtain h sw where hs: "hs = (h, sw)" by (cases hs)
    define strs where "strs = take (unat (bh_str_len h)) (drop (unat (bh_hdr_len h) + unat (bh_str_off h)) raw)"
    define types where "types = take (unat (bh_type_len h)) (drop (unat (bh_hdr_len h) + unat (bh_type_off h)) raw)"
    define sid where "sid = (case base of None \<Rightarrow> 1 | Some b0 \<Rightarrow> btf__type_cnt b0)"
    define soff where "soff = (case base of None \<Rightarrow> 0 | Some b0 \<Rightarrow> length (btf_strs b0))"
    obtain p where p: "btf_parse_type_sec le sw grow types [] = Some p"
      "\<forall>ts. p = Inr ts \<longrightarrow> list_all sized ts \<and> 12 * length ts \<le> length types"
      using parse_type_sec_ok [of "[]" le sw grow types] by auto
    note new = btf_new_def r Inr hs strs_def [symmetric] types_def [symmetric] sid_def [symmetric] soff_def [symmetric] p(1) Let_def
    show ?thesis
    proof (cases "btf_parse_str_sec (base \<noteq> None) strs = 0")
      case str: True
      show ?thesis
      proof (cases p)
        case (Inr ts)
        define b where "b = Btf base sid soff ts strs 0 sw"
        have len: "sid + length ts < 2 ^ 32"
          using p(2) Inr assms(2) by (auto simp: types_def sid_def)
        have st: "stacked b"
        proof (cases base)
          case None
          then show ?thesis using str len by (auto simp: b_def sid_def soff_def btf_parse_str_sec_def split: if_splits)
        next
          case (Some b0)
          then have "stacked b0" "btf_strs b0 \<noteq> []" using assms(1) [of b0] by (cases b0; auto simp: btf_good_def)+
          then show ?thesis using str len Some by (auto simp: b_def sid_def soff_def btf_parse_str_sec_def split: if_splits)
        qed
        have sz: "list_all sized (btf_types b)" using p(2) Inr by (simp add: b_def)
        obtain e where e: "btf_sanity_check b = Some e" using sanity_check_ok [OF st sz] by blast
        have "btf_good b" if "e = 0"
          using sanity_good [OF st _ sz] e that assms(1) by (auto simp: b_def soff_def)
        then show ?thesis using True str e by (simp add: new Inr b_def [symmetric])
      qed (use True str in \<open>simp add: new\<close>)
    qed (use True in \<open>simp add: new\<close>)
  qed (use True r in \<open>simp add: btf_new_def\<close>)
qed (auto simp: btf_new_def)

theorem btf_new_good_witness:
  "btf_new True True True (\<lambda>n. True) ex_bytes (Some ex_local) = Some (Inr ex_split) \<and> btf_good ex_split"
proof -
  have "btf__type_cnt ex_local = 3" "length ex_bytes = 38" "base_btf ex_local = None" by code_simp+
  then show ?thesis
    using btf_new_good [of "Some ex_local" ex_bytes True True True "\<lambda>n. True"] ex_local_good ex_parsed by simp
qed

section \<open>Round trip\<close>

text \<open>The bytes of an object in the order \<open>e\<close>.\<close>

definition words_bytes :: "bool \<Rightarrow> u32 list \<Rightarrow> u8 list" where
  "words_bytes e ws = concat (map (bytes32 e) ws)"

definition type_words :: "btf_type \<Rightarrow> u32 list" where
  "type_words t = bt_name_off t # bt_info t # bt_size_type t # bt_rest t"

definition btf_bytes :: "bool \<Rightarrow> btf_type list \<Rightarrow> u8 list \<Rightarrow> u8 list" where
  "btf_bytes e ts strs =
     (let types = words_bytes e (concat (map type_words ts)); n = of_nat (length types)
      in bytes16 e BTF_MAGIC @ [1, 0] @ words_bytes e [24, 0, n, n, of_nat (length strs)] @ types @ strs)"

lemma length_words_bytes [simp]: "length (words_bytes e ws) = 4 * length ws"
  by (induction ws) (simp_all add: words_bytes_def)

lemma words_bytes_simps [simp]: "words_bytes e [] = []" "words_bytes e (w # ws) = bytes32 e w @ words_bytes e ws"
  "words_bytes e (us @ ws) = words_bytes e us @ words_bytes e ws"
  by (simp_all add: words_bytes_def)

lemma get32_other: "e \<noteq> le \<Longrightarrow> get32 le b off = map_option bpf_swab32 (get32 e b off)"
proof -
  assume "e \<noteq> le"
  then have "join32 le x y z u = bpf_swab32 (join32 e x y z u)" for x y z u
    by (cases le) (simp_all add: bpf_swab32_join32, metis bpf_swab32_involutive bpf_swab32_join32)
  then show ?thesis by (simp add: get32_def)
qed

lemma get16_other: "e \<noteq> le \<Longrightarrow> get16 le b off = map_option bpf_swab16 (get16 e b off)"
proof -
  assume "e \<noteq> le"
  then have "join16 le x y = bpf_swab16 (join16 e x y)" for x y
    by (cases le) (simp_all add: bpf_swab16_join16, metis bpf_swab16_involutive bpf_swab16_join16)
  then show ?thesis by (simp add: get16_def)
qed

definition swap_if :: "bool \<Rightarrow> u32 \<Rightarrow> u32" where
  "swap_if sw w = (if sw then bpf_swab32 w else w)"

lemma get32_words: "get32 le (X @ bytes32 e w @ Y) (length X) = Some (swap_if (e \<noteq> le) w)"
  by (cases "e = le") (simp_all add: get32_append get32_other swap_if_def)

lemma words_at_bytes: "words_at le (X @ words_bytes e ws @ Y) (length X) (length ws) = Some (map (swap_if (e \<noteq> le)) ws)"
proof (induction ws arbitrary: X)
  case (Cons w ws)
  have "words_at le ((X @ bytes32 e w) @ words_bytes e ws @ Y) (length (X @ bytes32 e w)) (length ws) =
      Some (map (swap_if (e \<noteq> le)) ws)" by (rule Cons.IH)
  then show ?case using get32_words [of le X e w "words_bytes e ws @ Y"] by simp
qed simp

lemma get32_nth:
  "j < length ws \<Longrightarrow> length X + 4 * j = off \<Longrightarrow> get32 le (X @ words_bytes e ws @ Y) off = Some (swap_if (e \<noteq> le) (ws ! j))"
proof -
  assume j: "j < length ws" "length X + 4 * j = off"
  have "ws = take j ws @ ws ! j # drop (Suc j) ws" using j(1) by (rule id_take_nth_drop)
  then have "X @ words_bytes e ws @ Y = (X @ words_bytes e (take j ws)) @ bytes32 e (ws ! j) @ (words_bytes e (drop (Suc j) ws) @ Y)"
    by (metis append.assoc words_bytes_simps(2,3))
  then show ?thesis using get32_words [of le "X @ words_bytes e (take j ws)" e "ws ! j"] j by simp
qed

lemma swap_if_twice [simp]: "sw \<Longrightarrow> bpf_swab32 (swap_if sw w) = w" "\<not> sw \<Longrightarrow> swap_if sw w = w"
  by (simp_all add: swap_if_def)

lemma bswap_rest_sized:
  assumes "sized t" "map bpf_swab32 ws = bt_rest t"
  shows "btf_bswap_type_rest (t\<lparr>bt_rest := ws\<rparr>) = (0, t)"
proof (cases "btf_kind t \<in> {7, 10, 9, 11, 2, 8, 12, 16, 18}")
  case True
  then have "btf_type_size t = 12" by (simp add: btf_type_size_def Let_def)
  then have "bt_rest t = []" using assms(1) by (simp add: sized_def)
  moreover from this have "ws = []" using assms(2) by simp
  ultimately have "t\<lparr>bt_rest := ws\<rparr> = t" by (cases t) simp
  with True show ?thesis by (simp add: btf_bswap_type_rest_def)
next
  case False
  have "btf_type_size t \<noteq> - EINVAL" using assms(1) by (simp add: sized_def)
  with False have "btf_kind t \<in> {1, 6, 19, 3, 4, 5, 13, 14, 15, 17}" by (auto simp: btf_type_size_def Let_def split: if_splits)
  moreover have "btf_kind (t\<lparr>bt_rest := ws\<rparr>) = btf_kind t" by (simp add: btf_kind_def)
  ultimately show ?thesis using False by (simp add: btf_bswap_type_rest_def Let_def assms(2))
qed

lemma parse_types_bytes:
  assumes "list_all sized ts"
  shows "btf_parse_type_sec le (e \<noteq> le) (\<lambda>n. True) (words_bytes e (concat (map type_words ts))) us = Some (Inr (us @ ts))"
  using assms
proof (induction ts arbitrary: us)
  case Nil
  then show ?case by (subst btf_parse_type_sec.simps) simp
next
  case (Cons t ts)
  let ?sw = "e \<noteq> le" and ?n = "length (bt_rest t)" and ?Y = "words_bytes e (concat (map type_words ts))"
  let ?t0 = "\<lparr>bt_name_off = swap_if ?sw (bt_name_off t), bt_info = swap_if ?sw (bt_info t),
      bt_size_type = swap_if ?sw (bt_size_type t), bt_rest = []\<rparr>"
  let ?b = "words_bytes e (type_words t) @ ?Y" and ?ws = "map (swap_if ?sw) (bt_rest t)"
  have base: "base_at le ?b = Some ?t0"
    using get32_nth [of 0 "type_words t" "[]" 0 le e ?Y] get32_nth [of 1 "type_words t" "[]" 4 le e ?Y]
      get32_nth [of 2 "type_words t" "[]" 8 le e ?Y] by (simp add: base_at_def type_words_def)
  have t: "t\<lparr>bt_rest := []\<rparr> = (if ?sw then btf_bswap_type_base ?t0 else ?t0)"
    by (cases t) (simp add: btf_bswap_type_base_def)
  have size: "btf_type_size (t\<lparr>bt_rest := []\<rparr>) = 12 + 4 * int ?n" using Cons.prems by (simp add: sized_def)
  have len: "12 + 4 * ?n \<le> length ?b" by (simp add: type_words_def)
  have ws: "words_at le ?b 12 ?n = Some ?ws"
    using words_at_bytes [of le "words_bytes e [bt_name_off t, bt_info t, bt_size_type t]" e "bt_rest t" ?Y]
    by (simp add: type_words_def)
  have "btf_bswap_type_rest (t\<lparr>bt_rest := ?ws\<rparr>) = (0, t)" if ?sw
    using bswap_rest_sized [of t ?ws] that Cons.prems by (simp add: comp_def)
  moreover have "t\<lparr>bt_rest := ?ws\<rparr> = t" if "\<not> ?sw"
    using that by (cases t) (simp add: map_idI)
  moreover have "drop (12 + 4 * ?n) ?b = ?Y" by (simp add: type_words_def)
  ultimately have "btf_parse_type_sec le ?sw (\<lambda>n. True) ?b us = btf_parse_type_sec le ?sw (\<lambda>n. True) ?Y (us @ [t])"
    using parse_type_step [OF base t size len ws refl, of "\<lambda>n. True" us] by auto
  also have "\<dots> = Some (Inr (us @ t # ts))" using Cons.IH [of "us @ [t]"] Cons.prems by simp
  finally show ?case by simp
qed


lemma parse_hdr_bytes:
  fixes e le ts strs
  defines "types \<equiv> words_bytes e (concat (map type_words ts))"
  assumes "length (btf_bytes e ts strs) < 2 ^ 32"
  shows "btf_parse_hdr le (btf_bytes e ts strs) =
    Some (Inr (\<lparr>bh_hdr_len = 24, bh_type_off = 0, bh_type_len = of_nat (length types), bh_str_off = of_nat (length types),
      bh_str_len = of_nat (length strs)\<rparr>, e \<noteq> le))"
proof -
  let ?n = "of_nat (length types) :: u32" and ?m = "of_nat (length strs) :: u32"
  let ?ws = "[24, 0, ?n, ?n, ?m]" and ?X = "bytes16 e BTF_MAGIC @ [1, 0]"
  have raw: "btf_bytes e ts strs = ?X @ words_bytes e ?ws @ types @ strs" by (simp add: btf_bytes_def types_def Let_def)
  have len: "length (btf_bytes e ts strs) = 24 + length types + length strs" by (simp add: raw)
  then have un: "unat ?n = length types" "unat ?m = length strs" using assms(2) by (auto intro: unat_of_nat_u32 simp del: length_words_bytes)
  have magic: "get16 le (btf_bytes e ts strs) 0 = Some (if e = le then BTF_MAGIC else bpf_swab16 BTF_MAGIC)"
    using get16_append [of e "[]" BTF_MAGIC "[1, 0] @ words_bytes e ?ws @ types @ strs"] get16_other [of e le "btf_bytes e ts strs" 0]
    unfolding raw by (cases "e = le") simp_all
  have h: "header_at le (btf_bytes e ts strs) = Some \<lparr>bh_hdr_len = swap_if (e \<noteq> le) 24, bh_type_off = swap_if (e \<noteq> le) 0,
      bh_type_len = swap_if (e \<noteq> le) ?n, bh_str_off = swap_if (e \<noteq> le) ?n, bh_str_len = swap_if (e \<noteq> le) ?m\<rparr>"
    unfolding raw header_at_def
    using get32_nth [of 0 ?ws ?X 4 le e "types @ strs"] get32_nth [of 1 ?ws ?X 8 le e "types @ strs"]
      get32_nth [of 2 ?ws ?X 12 le e "types @ strs"] get32_nth [of 3 ?ws ?X 16 le e "types @ strs"]
      get32_nth [of 4 ?ws ?X 20 le e "types @ strs"] by (simp del: words_bytes_simps)
  have ne: "bpf_swab16 BTF_MAGIC \<noteq> BTF_MAGIC" by (simp add: bpf_swab16_def)
  have "btf_check_layout (length (btf_bytes e ts strs)) \<lparr>bh_hdr_len = 24, bh_type_off = 0, bh_type_len = ?n, bh_str_off = ?n,
      bh_str_len = ?m\<rparr> = 0" by (simp add: btf_check_layout_def len un)
  then show ?thesis using len magic h ne
    by (cases "e = le") (simp_all add: btf_parse_hdr_def btf_bswap_hdr_def)
qed

lemma new_roundtrip:
  assumes "list_all sized ts" "btf_sanity_check (Btf None 1 0 ts strs 0 (e \<noteq> le)) = Some 0"
    "strs \<noteq> []" "hd strs = 0" "last strs = 0" "length strs \<le> 2 ^ 31" "length (btf_bytes e ts strs) < 2 ^ 32"
  shows "btf_new le True True (\<lambda>n. True) (btf_bytes e ts strs) None = Some (Inr (Btf None 1 0 ts strs 0 (e \<noteq> le)))"
proof -
  let ?types = "words_bytes e (concat (map type_words ts))"
  obtain X where raw: "btf_bytes e ts strs = X @ ?types @ strs" and X: "length X = 24"
  proof
    show "btf_bytes e ts strs = (bytes16 e BTF_MAGIC @ [1, 0] @
        words_bytes e [24, 0, of_nat (length ?types), of_nat (length ?types), of_nat (length strs)]) @ ?types @ strs"
      by (simp add: btf_bytes_def Let_def)
  qed simp
  have len: "length (btf_bytes e ts strs) = 24 + length ?types + length strs" by (simp add: raw X)
  have un: "unat (of_nat (length ?types) :: u32) = length ?types" "unat (of_nat (length strs) :: u32) = length strs"
    using assms(7) unfolding len by (auto intro: unat_of_nat_u32 simp del: length_words_bytes)
  have "take (length strs) (drop (24 + length ?types) (btf_bytes e ts strs)) = strs"
    "take (length ?types) (drop 24 (btf_bytes e ts strs)) = ?types"
    unfolding raw X [symmetric] by (simp_all del: length_words_bytes)
  moreover have "btf_parse_str_sec False strs = 0" using assms(3-6) by (simp add: btf_parse_str_sec_def)
  ultimately show ?thesis
    using parse_types_bytes [OF assms(1), of le e "[]"] assms(2)
    by (simp add: btf_new_def parse_hdr_bytes [OF assms(7)] un del: length_words_bytes)
qed

text \<open>C29. The bytes of type information in either byte order are parsed back, on a host of either byte order, into
  exactly its types and strings, when these pass the checks.\<close>

theorem btf_new_roundtrip:
  assumes "list_all sized ts" "btf_sanity_check (Btf None 1 0 ts strs 0 (e \<noteq> le)) = Some 0"
    "strs \<noteq> []" "hd strs = 0" "last strs = 0" "length strs \<le> 2 ^ 31" "length (btf_bytes e ts strs) < 2 ^ 32"
  shows "btf_new le True True (\<lambda>n. True) (btf_bytes e ts strs) None = Some (Inr (Btf None 1 0 ts strs 0 (e \<noteq> le)))"
  by (rule new_roundtrip [OF assms])

theorem btf_new_roundtrip_witness:
  "btf_new True True True (\<lambda>n. True) (btf_bytes False (btf_types ex_kernel) ex_strs) None =
     Some (Inr (Btf None 1 0 (btf_types ex_kernel) ex_strs 0 True))"
proof -
  have "length (btf_bytes False (btf_types ex_kernel) ex_strs) < 2 ^ 32"
    by (simp add: btf_bytes_def ex_kernel_def ex_int_def ex_strs_def type_words_def Let_def)
  moreover have "list_all sized (btf_types ex_kernel)"
    "btf_sanity_check (Btf None 1 0 (btf_types ex_kernel) ex_strs 0 (False \<noteq> True)) = Some 0" by code_simp+
  ultimately show ?thesis
    using btf_new_roundtrip [of "btf_types ex_kernel" ex_strs False True] by (simp add: ex_strs_def)
qed

end
