(* ===== verification/Btf_Size.thy ===== *)
theory Btf_Size
  imports Btf_Props
begin

text \<open>The size that \<open>btf__resolve_size\<close> computes is the size of the type, and the loops over the types always return.\<close>

section \<open>Sizes\<close>

text \<open>The size of a type as C defines it, in the order of its derivation: \<open>d\<close> counts the types visited.\<close>

inductive type_size :: "btf \<Rightarrow> nat \<Rightarrow> u32 \<Rightarrow> int \<Rightarrow> bool" for b where
  size_scalar: "btf__type_by_id b i = Some t \<Longrightarrow> i \<noteq> 0 \<Longrightarrow> btf_kind t \<in> {1, 4, 5, 6, 19, 15, 16} \<Longrightarrow>
    type_size b 1 i (uint (bt_size_type t))"
| size_ptr: "btf__type_by_id b i = Some t \<Longrightarrow> i \<noteq> 0 \<Longrightarrow> btf_kind t = 2 \<Longrightarrow> btf_ptr_sz b = Some n \<Longrightarrow> type_size b 1 i n"
| size_alias: "btf__type_by_id b i = Some t \<Longrightarrow> i \<noteq> 0 \<Longrightarrow> btf_kind t \<in> {8, 9, 10, 11, 14, 17, 18} \<Longrightarrow>
    type_size b d (bt_size_type t) n \<Longrightarrow> type_size b (Suc d) i n"
| size_array: "btf__type_by_id b i = Some t \<Longrightarrow> i \<noteq> 0 \<Longrightarrow> btf_kind t = 3 \<Longrightarrow> btf_array_of t = Some a \<Longrightarrow>
    type_size b d (ba_type a) n \<Longrightarrow> type_size b (Suc d) i (uint (ba_nelems a) * n)"

inductive_cases type_size_cases: "type_size b d i n"

lemma type_size_pos: "type_size b d i n \<Longrightarrow> 0 < d"
  by (induction rule: type_size.induct) auto

lemma type_size_step:
  assumes "btf__type_by_id b i = Some t" "i \<noteq> 0"
  shows "type_size b (Suc d) i n \<longleftrightarrow>
    (if btf_kind t \<in> {1, 4, 5, 6, 19, 15, 16} then d = 0 \<and> n = uint (bt_size_type t)
     else if btf_kind t = 2 then d = 0 \<and> btf_ptr_sz b = Some n
     else if btf_kind t \<in> {8, 9, 10, 11, 14, 17, 18} then type_size b d (bt_size_type t) n
     else if btf_kind t = 3 then \<exists>a m. btf_array_of t = Some a \<and> type_size b d (ba_type a) m \<and> n = uint (ba_nelems a) * m
     else False)"
proof
  assume "type_size b (Suc d) i n"
  then show "if btf_kind t \<in> {1, 4, 5, 6, 19, 15, 16} then d = 0 \<and> n = uint (bt_size_type t)
     else if btf_kind t = 2 then d = 0 \<and> btf_ptr_sz b = Some n
     else if btf_kind t \<in> {8, 9, 10, 11, 14, 17, 18} then type_size b d (bt_size_type t) n
     else if btf_kind t = 3 then \<exists>a m. btf_array_of t = Some a \<and> type_size b d (ba_type a) m \<and> n = uint (ba_nelems a) * m
     else False"
    by (cases rule: type_size.cases) (use assms in auto)
next
  assume *: "if btf_kind t \<in> {1, 4, 5, 6, 19, 15, 16} then d = 0 \<and> n = uint (bt_size_type t)
     else if btf_kind t = 2 then d = 0 \<and> btf_ptr_sz b = Some n
     else if btf_kind t \<in> {8, 9, 10, 11, 14, 17, 18} then type_size b d (bt_size_type t) n
     else if btf_kind t = 3 then \<exists>a m. btf_array_of t = Some a \<and> type_size b d (ba_type a) m \<and> n = uint (ba_nelems a) * m
     else False"
  show "type_size b (Suc d) i n"
  proof (cases "btf_kind t \<in> {1, 4, 5, 6, 19, 15, 16} \<or> btf_kind t = 2")
    case True
    then show ?thesis using * assms size_scalar [of b i t] size_ptr [of b i t n] by (auto split: if_splits)
  next
    case False
    then show ?thesis using * size_alias [OF assms] size_array [OF assms] by (auto split: if_splits)
  qed
qed

lemma type_size_outside: "btf__type_by_id b i = None \<or> i = 0 \<Longrightarrow> \<not> type_size b d i n"
  by (auto elim: type_size_cases)

lemma le_div_int: "0 < (q :: int) \<Longrightarrow> x \<le> n div q \<longleftrightarrow> q * x \<le> n"
proof
  assume q: "0 < q" and "x \<le> n div q"
  then have "q * x \<le> q * (n div q)" by simp
  also have "\<dots> \<le> n" using q by (simp add: mult_div_mod_eq [symmetric] minus_mod_eq_mult_div [symmetric])
  finally show "q * x \<le> n" .
next
  assume "0 < q" "q * x \<le> n"
  then show "x \<le> n div q" using zdiv_mono1 [of "q * x" n q] by simp
qed

lemma uint_pos: "(m :: u32) \<noteq> 0 \<Longrightarrow> 0 < uint m"
  by (metis order_le_less uint_0_eq unsigned_greater_eq unsigned_word_eqI uint_0_iff)

lemma resolved_size_pos:
  assumes "0 < n"
  shows "resolved_size m sz = n \<longleftrightarrow> m \<noteq> 0 \<and> n = uint m * sz \<and> n \<le> UINT32_MAX"
proof (cases "m = 0 \<or> sz < 0")
  case True
  moreover have "uint m * sz \<le> 0" if "sz < 0" using that by (simp add: mult_nonneg_nonpos)
  ultimately show ?thesis using assms by (auto simp: resolved_size_def)
next
  case False
  then show ?thesis using le_div_int [OF uint_pos, of m sz UINT32_MAX] assms by (auto simp: resolved_size_def not_less)
qed

lemma resolve_size_loop_iff:
  "0 < n \<Longrightarrow> resolve_size_loop k b m i = Some n \<longleftrightarrow>
     m \<noteq> 0 \<and> n \<le> UINT32_MAX \<and> (\<exists>d s. d \<le> k \<and> type_size b d i s \<and> n = uint m * s)"
proof (induction k arbitrary: m i)
  case 0
  then show ?case using type_size_pos by (auto simp: resolved_size_def)
next
  case (Suc k)
  have out: "resolved_size m (- 1) \<noteq> n" using Suc.prems by (simp add: resolved_size_def)
  show ?case
  proof (cases "btf__type_by_id b i = None \<or> i = 0")
    case True
    then show ?thesis using out type_size_outside [OF True] by (auto split: option.splits)
  next
    case False
    then obtain t where t: "btf__type_by_id b i = Some t" "i \<noteq> 0" by auto
    have ex: "(\<exists>d s. d \<le> Suc k \<and> type_size b d i s \<and> n = uint m * s) \<longleftrightarrow>
        (\<exists>d s. d \<le> k \<and> type_size b (Suc d) i s \<and> n = uint m * s)"
      by (metis Suc_le_mono not0_implies_Suc not_less_zero type_size_pos)
    consider "btf_kind t \<in> {1, 4, 5, 6, 19, 15, 16}" | "btf_kind t = 2" | "btf_kind t \<in> {8, 9, 10, 11, 14, 17, 18}" |
      "btf_kind t = 3" | "btf_kind t \<notin> {1, 4, 5, 6, 19, 15, 16, 2, 8, 9, 10, 11, 14, 17, 18, 3}" by blast
    then show ?thesis
    proof cases
      case 1
      then have "resolve_size_loop (Suc k) b m i = Some (resolved_size m (uint (bt_size_type t)))" using t by auto
      moreover have "type_size b (Suc d) i s \<longleftrightarrow> d = 0 \<and> s = uint (bt_size_type t)" for d s
        using 1 by (auto simp: type_size_step [OF t])
      ultimately show ?thesis by (simp only: ex option.inject resolved_size_pos [OF Suc.prems]) auto
    next
      case 2
      then have "resolve_size_loop (Suc k) b m i = map_option (resolved_size m) (btf_ptr_sz b)"
        using t by (cases "btf_ptr_sz b") auto
      moreover have "type_size b (Suc d) i s \<longleftrightarrow> d = 0 \<and> btf_ptr_sz b = Some s" for d s
        using 2 by (auto simp: type_size_step [OF t])
      ultimately show ?thesis
        by (cases "btf_ptr_sz b") (simp_all only: ex option.map option.inject option.distinct resolved_size_pos [OF Suc.prems], auto)
    next
      case 3
      then have "resolve_size_loop (Suc k) b m i = resolve_size_loop k b m (bt_size_type t)" using t by auto
      moreover have "type_size b (Suc d) i s \<longleftrightarrow> type_size b d (bt_size_type t) s" for d s
        using 3 by (auto simp: type_size_step [OF t])
      ultimately show ?thesis using Suc.IH [OF Suc.prems] by (simp only: ex)
    next
      case 4
      show ?thesis
      proof (cases "btf_array_of t")
        case None
        then show ?thesis using 4 t unfolding ex type_size_step [OF t] by simp
      next
        case (Some a)
        have step: "type_size b (Suc d) i s \<longleftrightarrow> (\<exists>u. type_size b d (ba_type a) u \<and> s = uint (ba_nelems a) * u)" for d s
          using 4 Some by (simp add: type_size_step [OF t])
        have loop: "resolve_size_loop (Suc k) b m i =
            (if m \<noteq> 0 \<and> uint (ba_nelems a) > UINT32_MAX div uint m then Some (- E2BIG)
             else resolve_size_loop k b (m * ba_nelems a) (ba_type a))"
          using 4 Some t by simp
        have big: "uint m * uint (ba_nelems a) \<le> n" if "n = uint m * (uint (ba_nelems a) * u)" for u
        proof -
          have "\<not> u \<le> 0"
            using that Suc.prems mult_nonneg_nonpos [of "uint m * uint (ba_nelems a)" u] by (auto simp: mult.assoc)
          moreover have "0 \<le> uint m * uint (ba_nelems a)" by simp
          ultimately have "uint m * uint (ba_nelems a) * 1 \<le> uint m * uint (ba_nelems a) * u" by (intro mult_left_mono) auto
          then show ?thesis using that by (simp add: mult.assoc)
        qed
        show ?thesis
        proof (cases "m \<noteq> 0 \<and> uint m * uint (ba_nelems a) \<le> UINT32_MAX")
          case True
          then have "uint (m * ba_nelems a) = uint m * uint (ba_nelems a)"
            by (simp add: uint_word_arith_bintrs(3) take_bit_int_eq_self)
          moreover from this have "m * ba_nelems a \<noteq> 0 \<or> uint m * uint (ba_nelems a) = 0" by (metis unsigned_0)
          ultimately show ?thesis using True Suc.IH [OF Suc.prems, of "m * ba_nelems a" "ba_type a"] loop Suc.prems
              le_div_int [OF uint_pos, of m "uint (ba_nelems a)" UINT32_MAX]
            unfolding ex step by (auto simp: mult.assoc)
        next
          case False
          have "resolve_size_loop (Suc k) b m i \<noteq> Some n"
          proof (cases "m = 0")
            case True
            then show ?thesis unfolding loop using Suc.IH [OF Suc.prems, of 0 "ba_type a"] by simp
          next
            case m: False
            then have "uint (ba_nelems a) > UINT32_MAX div uint m"
              using False le_div_int [OF uint_pos, of m "uint (ba_nelems a)" UINT32_MAX] by linarith
            then show ?thesis unfolding loop using m Suc.prems by simp
          qed
          moreover have "\<not> (m \<noteq> 0 \<and> n \<le> UINT32_MAX \<and> (\<exists>d s. d \<le> k \<and> type_size b (Suc d) i s \<and> n = uint m * s))"
          proof
            assume *: "m \<noteq> 0 \<and> n \<le> UINT32_MAX \<and> (\<exists>d s. d \<le> k \<and> type_size b (Suc d) i s \<and> n = uint m * s)"
            then obtain u where "n = uint m * (uint (ba_nelems a) * u)" unfolding step by blast
            from big [OF this] * False show False by linarith
          qed
          ultimately show ?thesis unfolding ex by blast
        qed
      qed
    next
      case 5
      then show ?thesis using t Suc.prems unfolding ex type_size_step [OF t] using out by (auto simp: Let_def split: if_splits)
    qed
  qed
qed

text \<open>The loops that look through the types of a good object always return.\<close>

lemma name_total: "btf_good b \<Longrightarrow> valid_name b off \<Longrightarrow> \<exists>s. btf__name_by_offset b off = Some (Some s)"
  by (simp add: btf__name_by_offset_def valid_name_def)

lemma good_type:
  "btf_good b \<Longrightarrow> unat i < btf__type_cnt b \<Longrightarrow> \<exists>t. btf__type_by_id b i = Some t \<and> type_good b t"
  by (simp add: btf_good_def)

lemma btf_cnt_less: "stacked b \<Longrightarrow> btf__type_cnt b < 2 ^ 32"
  by (cases b) (auto simp: btf__type_cnt_def)

lemma ptr_size_loop_total:
  "btf_good b \<Longrightarrow> list_all (\<lambda>i. i < btf__type_cnt b) is \<Longrightarrow> \<exists>v. ptr_size_loop b is = Some v"
proof (induction "is")
  case (Cons i "is")
  have "i < 2 ^ 32" using Cons.prems btf_cnt_less [of b] by (auto simp: btf_good_def)
  then have "unat (of_nat i :: u32) < btf__type_cnt b" using Cons.prems by (simp add: unat_of_nat_u32)
  then obtain t where t: "btf__type_by_id b (of_nat i) = Some t" "type_good b t" using good_type [OF Cons.prems(1)] by blast
  then obtain s where "btf__name_by_offset b (bt_name_off t) = Some (Some s)"
    using name_total [OF Cons.prems(1)] by (fastforce simp: type_good_def type_names_def Let_def)
  then show ?case using t Cons by auto
qed simp

lemma btf_ptr_sz_total: "btf_good b \<Longrightarrow> \<exists>v. btf_ptr_sz b = Some v"
  using ptr_size_loop_total [of b "[1..<btf__type_cnt b]"]
  by (auto simp: btf_ptr_sz_def determine_ptr_size_def list_all_iff split: option.splits)

lemma resolve_size_loop_total: "btf_good b \<Longrightarrow> \<exists>v. resolve_size_loop k b m i = Some v"
proof (induction k arbitrary: m i)
  case (Suc k)
  show ?case
  proof (cases "btf__type_by_id b i")
    case (Some t)
    then have "unat i < btf__type_cnt b" by (simp add: btf__type_by_id_def split: if_splits)
    then have t: "type_good b t" using good_type [OF Suc.prems] Some by fastforce
    have "\<exists>a. btf_array_of t = Some a" if "btf_kind t = 3"
      using that t array_at sized_lengths(2) by (fastforce simp: type_good_def)
    then show ?thesis using Some Suc btf_ptr_sz_total [OF Suc.prems] by (auto simp: Let_def)
  qed simp
qed simp

text \<open>C30. On parsed type information the size of every type is computed; a positive answer is the size of the type as C
  defines it and fits in 32 bits, and every such size reached through at most 32 types is the answer.\<close>

theorem resolve_size_exact:
  assumes "btf_good b" "0 < n"
  shows "\<exists>v. btf__resolve_size b i = Some v \<and> (v = n \<longleftrightarrow> n \<le> UINT32_MAX \<and> (\<exists>d \<le> 32. type_size b d i n))"
  using resolve_size_loop_total [OF assms(1), of 32 1 i] resolve_size_loop_iff [OF assms(2), of 32 b 1 i]
  by (auto simp: btf__resolve_size_def)

theorem resolve_size_exact_witness:
  "btf__resolve_size ex_kernel 3 = Some 12 \<and> (\<exists>d. type_size ex_kernel d 3 12)"
proof -
  have "btf__resolve_size ex_kernel 3 = Some 12" by code_simp
  then show ?thesis using resolve_size_exact [OF ex_kernel_good, of 12 3] by auto
qed

end
