(* ===== verification/Btf_Build.thy ===== *)
theory Btf_Build
  imports Btf_Props Strset
begin

text \<open>
  Type information under construction, the writing half of \<open>libbpf/src/btf.c\<close>: an object is empty or parsed, its
  first change splits the raw data into header, types and a string set, every \<open>btf__add_*\<close> appends a type or an item
  of the last type, and \<open>btf__raw_data\<close> writes it out again. The types are the list that \<open>type_offs\<close> and
  the type section make up, as in \<open>Btf\<close>, with the allocated sizes of both; the bytes of the type section past
  \<open>type_len\<close> are scratch. A string argument is \<open>None\<close> for a null pointer. What each allocation returns is
  an argument, indexed by the place of the allocation and, for the search in the bases, by how far down the base is.
  \<open>None\<close> as a result is an access outside a block, or an overflow of a signed integer.
\<close>

section \<open>The object\<close>

datatype site = S_hdr | S_types | S_set | S_hash | S_data | S_index nat | S_entry nat
  | S_type_mem | S_offs | S_str_mem | S_str_index | S_str_entry | S_map | S_map_index | S_map_entry

type_synonym allocs = "nat \<Rightarrow> site \<Rightarrow> bool"

text \<open>\<open>strs_data\<close> inside the raw data, or \<open>strs_set\<close>: just one of them is not null.\<close>

datatype btf_strings = In_raw "u8 list" | In_set strset

record btf_own =
  o_start_id :: nat
  o_start_str_off :: nat
  o_hdr :: btf_header
  o_version :: u8
  o_flags :: u8
  o_hdr_rest :: "u8 list"
  o_types :: "btf_type list"
  o_types_cap :: nat
  o_offs_cap :: nat
  o_strs :: btf_strings
  o_strs_deduped :: bool
  o_raw :: "u8 list option"
  o_raw_swapped :: "u8 list option"
  o_ptr_sz :: int
  o_swapped :: bool

datatype btf_obj = Obj (obj_base: "btf_obj option") (own: btf_own)

abbreviation (input) BTF_MAX_NR_TYPES :: nat where "BTF_MAX_NR_TYPES \<equiv> 0x7fffffff"
abbreviation (input) BTF_MAX_STR_OFFSET :: nat where "BTF_MAX_STR_OFFSET \<equiv> 0x7fffffff"
abbreviation (input) UINT_MAX :: nat where "UINT_MAX \<equiv> 0xffffffff"
abbreviation (input) S32_MAX :: int where "S32_MAX \<equiv> 0x7fffffff"

definition btf_strs_data :: "btf_own \<Rightarrow> u8 list" where
  "btf_strs_data w = (case o_strs w of In_raw d \<Rightarrow> d | In_set s \<Rightarrow> strset__data s)"

definition str_sec :: "btf_own \<Rightarrow> u8 list" where
  "str_sec w = take (unat (bh_str_len (o_hdr w))) (btf_strs_data w)"

text \<open>The object that the queries of \<open>Btf\<close> see.\<close>

fun btf_view :: "btf_obj \<Rightarrow> btf" where
  "btf_view (Obj base w) =
     Btf (case base of None \<Rightarrow> None | Some b \<Rightarrow> Some (btf_view b)) (o_start_id w) (o_start_str_off w) (o_types w)
       (str_sec w) (o_ptr_sz w) (o_swapped w)"

text \<open>The header as it stands in memory.\<close>

definition hdr_bytes :: "bool \<Rightarrow> u16 \<Rightarrow> btf_header \<Rightarrow> btf_own \<Rightarrow> u8 list" where
  "hdr_bytes le magic h w = bytes16 le magic @ [o_version w, o_flags w] @
     words_bytes le [bh_hdr_len h, bh_type_off h, bh_type_len h, bh_str_off h, bh_str_len h] @ o_hdr_rest w"

definition btf_new_empty :: "bool \<Rightarrow> bool \<Rightarrow> bool \<Rightarrow> btf_obj option \<Rightarrow> int + btf_obj" where
  "btf_new_empty le calloc_ok raw_ok base =
     (if \<not> calloc_ok then Inl (- ENOMEM)
      else if \<not> raw_ok then Inl (- ENOMEM)
      else
        let str_len = (if base = None then 1 else 0);
            w = \<lparr>o_start_id = (case base of None \<Rightarrow> 1 | Some b \<Rightarrow> btf__type_cnt (btf_view b)),
                 o_start_str_off = (case base of None \<Rightarrow> 0 | Some b \<Rightarrow> unat (bh_str_len (o_hdr (own b)))),
                 o_hdr = \<lparr>bh_hdr_len = 24, bh_type_off = 0, bh_type_len = 0, bh_str_off = 0, bh_str_len = str_len\<rparr>,
                 o_version = 1, o_flags = 0, o_hdr_rest = [], o_types = [], o_types_cap = 0, o_offs_cap = 0,
                 o_strs = In_raw (replicate (unat str_len) 0), o_strs_deduped = False, o_raw = None, o_raw_swapped = None,
                 o_ptr_sz = 8, o_swapped = (case base of None \<Rightarrow> False | Some b \<Rightarrow> o_swapped (own b))\<rparr>
        in Inr (Obj base (w\<lparr>o_raw := Some (hdr_bytes le BTF_MAGIC (o_hdr w) w @ replicate (unat str_len) 0)\<rparr>)))"

definition btf__new_empty :: "bool \<Rightarrow> bool \<Rightarrow> bool \<Rightarrow> int + btf_obj" where
  "btf__new_empty le calloc_ok raw_ok = btf_new_empty le calloc_ok raw_ok None"

definition btf__new_empty_split :: "bool \<Rightarrow> bool \<Rightarrow> bool \<Rightarrow> btf_obj \<Rightarrow> int + btf_obj" where
  "btf__new_empty_split le calloc_ok raw_ok base = btf_new_empty le calloc_ok raw_ok (Some base)"

section \<open>Growing memory\<close>

text \<open>\<open>libbpf_add_mem\<close> on sizes.\<close>

definition add_mem_cap :: "bool \<Rightarrow> nat \<Rightarrow> nat \<Rightarrow> nat \<Rightarrow> nat \<Rightarrow> nat option" where
  "add_mem_cap alloc_ok cap_cnt cur_cnt max_cnt add_cnt =
     (if cur_cnt + add_cnt \<le> cap_cnt then Some cap_cnt
      else if cur_cnt + add_cnt > max_cnt then None
      else
        let new_cnt = cap_cnt + cap_cnt div 4;
            new_cnt = (if new_cnt < 16 then 16 else new_cnt);
            new_cnt = (if new_cnt > max_cnt then max_cnt else new_cnt);
            new_cnt = (if new_cnt < cur_cnt + add_cnt then cur_cnt + add_cnt else new_cnt)
        in if \<not> alloc_ok then None else Some new_cnt)"

lemma libbpf_add_mem_cap:
  "libbpf_add_mem ok z d cur mx add = map_option (\<lambda>n. d @ replicate (n - length d) z) (add_mem_cap ok (length d) cur mx add)"
  by (simp add: libbpf_add_mem_def add_mem_cap_def Let_def)

definition btf_add_type_mem :: "(site \<Rightarrow> bool) \<Rightarrow> btf_own \<Rightarrow> nat \<Rightarrow> btf_own option" where
  "btf_add_type_mem ok w add_sz =
     map_option (\<lambda>c. w\<lparr>o_types_cap := c\<rparr>)
       (add_mem_cap (ok S_type_mem) (o_types_cap w) (unat (bh_type_len (o_hdr w))) UINT_MAX add_sz)"

definition btf_add_type_offs_mem :: "(site \<Rightarrow> bool) \<Rightarrow> btf_own \<Rightarrow> nat \<Rightarrow> btf_own option" where
  "btf_add_type_offs_mem ok w add_cnt =
     map_option (\<lambda>c. w\<lparr>o_offs_cap := c\<rparr>)
       (add_mem_cap (ok S_offs) (o_offs_cap w) (length (o_types w)) BTF_MAX_NR_TYPES add_cnt)"

definition btf_add_type_idx_entry :: "(site \<Rightarrow> bool) \<Rightarrow> btf_own \<Rightarrow> int \<times> btf_own" where
  "btf_add_type_idx_entry ok w = (case btf_add_type_offs_mem ok w 1 of None \<Rightarrow> (- ENOMEM, w) | Some w' \<Rightarrow> (0, w'))"

section \<open>Making an object modifiable\<close>

definition btf_is_modifiable :: "btf_own \<Rightarrow> bool" where
  "btf_is_modifiable w \<longleftrightarrow> (case o_strs w of In_raw _ \<Rightarrow> False | In_set _ \<Rightarrow> True)"

definition btf_invalidate_raw_data :: "btf_own \<Rightarrow> btf_own" where
  "btf_invalidate_raw_data w = w\<lparr>o_raw := None, o_raw_swapped := None\<rparr>"

definition btf_ensure_modifiable :: "(site \<Rightarrow> bool) \<Rightarrow> bool \<Rightarrow> btf_own \<Rightarrow> (int \<times> btf_own) option" where
  "btf_ensure_modifiable ok has_base w =
     (if btf_is_modifiable w then Some (0, btf_invalidate_raw_data w)
      else if \<not> ok S_hdr \<or> \<not> ok S_types then Some (- ENOMEM, w)
      else case strset__new (ok S_set) (ok S_hash) (ok S_data) (\<lambda>off. (ok (S_index off), ok (S_entry off)))
                  BTF_MAX_STR_OFFSET (Some (str_sec w)) of
        None \<Rightarrow> None
      | Some (Inl err) \<Rightarrow> Some (err, w)
      | Some (Inr s) \<Rightarrow>
          let n = unat (bh_str_len (o_hdr w));
              w = w\<lparr>o_types_cap := unat (bh_type_len (o_hdr w)), o_strs := In_set s,
                    o_strs_deduped := (o_strs_deduped w \<or> n = 0 \<or> \<not> has_base \<and> n = 1)\<rparr>
          in Some (0, btf_invalidate_raw_data w))"

section \<open>Strings\<close>

text \<open>\<open>btf->start_str_off + off\<close>\<close>

definition from_start :: "btf_own \<Rightarrow> int \<Rightarrow> int option" where
  "from_start w off = (if int (o_start_str_off w) + off > S32_MAX then None else Some (int (o_start_str_off w) + off))"

definition find_own_str :: "(site \<Rightarrow> bool) \<Rightarrow> bool \<Rightarrow> btf_own \<Rightarrow> u8 list \<Rightarrow> (int \<times> btf_own) option" where
  "find_own_str ok has_base w s = do {
     (err, w) \<leftarrow> btf_ensure_modifiable ok has_base w;
     if err \<noteq> 0 then Some (- ENOMEM, w)
     else case o_strs w of
       In_raw _ \<Rightarrow> None
     | In_set st \<Rightarrow>
         (case strset__find_str (ok S_str_mem) st s of (off, st) \<Rightarrow>
            let w = w\<lparr>o_strs := In_set st\<rparr>
            in if off < 0 then Some (off, w) else map_option (\<lambda>r. (r, w)) (from_start w off)) }"

fun btf__find_str :: "allocs \<Rightarrow> btf_obj \<Rightarrow> u8 list \<Rightarrow> (int \<times> btf_obj) option" where
  "btf__find_str ok (Obj base w) s =
     (case base of
        None \<Rightarrow> map_option (\<lambda>(r, w). (r, Obj None w)) (find_own_str (ok 0) False w s)
      | Some b \<Rightarrow>
          (case btf__find_str (\<lambda>n. ok (Suc n)) b s of
             None \<Rightarrow> None
           | Some (off, b) \<Rightarrow>
               if off \<noteq> - ENOENT then Some (off, Obj (Some b) w)
               else map_option (\<lambda>(r, w). (r, Obj (Some b) w)) (find_own_str (ok 0) True w s)))"

definition add_own_str :: "(site \<Rightarrow> bool) \<Rightarrow> bool \<Rightarrow> btf_own \<Rightarrow> u8 list \<Rightarrow> (int \<times> btf_own) option" where
  "add_own_str ok has_base w s = do {
     (err, w) \<leftarrow> btf_ensure_modifiable ok has_base w;
     if err \<noteq> 0 then Some (- ENOMEM, w)
     else case o_strs w of
       In_raw _ \<Rightarrow> None
     | In_set st \<Rightarrow>
         (case strset__add_str (ok S_str_mem) (ok S_str_index) (ok S_str_entry) st s of (off, st) \<Rightarrow>
            let w = w\<lparr>o_strs := In_set st\<rparr>
            in if off < 0 then Some (off, w)
               else
                 let w = w\<lparr>o_hdr := (o_hdr w)\<lparr>bh_str_len := of_nat (strset__data_size st)\<rparr>\<rparr>
                 in map_option (\<lambda>r. (r, w)) (from_start w off)) }"

definition btf__add_str :: "allocs \<Rightarrow> btf_obj \<Rightarrow> u8 list \<Rightarrow> (int \<times> btf_obj) option" where
  "btf__add_str ok b s =
     (case obj_base b of
        None \<Rightarrow> map_option (\<lambda>(r, w). (r, Obj None w)) (add_own_str (ok 0) False (own b) s)
      | Some b0 \<Rightarrow>
          (case btf__find_str (\<lambda>n. ok (Suc n)) b0 s of
             None \<Rightarrow> None
           | Some (off, b0) \<Rightarrow>
               if off \<noteq> - ENOENT then Some (off, Obj (Some b0) (own b))
               else map_option (\<lambda>(r, w). (r, Obj (Some b0) w)) (add_own_str (ok 0) True (own b) s)))"

section \<open>Appending types\<close>

definition btf_type_info :: "u32 \<Rightarrow> nat \<Rightarrow> bool \<Rightarrow> u32" where
  "btf_type_info kind vlen kflag = push_bit 31 (of_bool kflag) OR push_bit 24 kind OR of_nat vlen"

definition add_lens :: "nat \<Rightarrow> btf_own \<Rightarrow> btf_own" where
  "add_lens nbytes w = w\<lparr>o_hdr := (o_hdr w)\<lparr>bh_type_len := bh_type_len (o_hdr w) + of_nat nbytes,
     bh_str_off := bh_str_off (o_hdr w) + of_nat nbytes\<rparr>\<rparr>"

text \<open>\<open>t\<close> is what was written to the memory past the section.\<close>

definition btf_commit_type :: "(site \<Rightarrow> bool) \<Rightarrow> btf_own \<Rightarrow> nat \<Rightarrow> btf_type \<Rightarrow> int \<times> btf_own" where
  "btf_commit_type ok w data_sz t =
     (case btf_add_type_idx_entry ok w of (err, w) \<Rightarrow>
        if err \<noteq> 0 then (err, w)
        else
          let w = add_lens data_sz w; w = w\<lparr>o_types := o_types w @ [t]\<rparr>
          in (int (o_start_id w) + int (length (o_types w)) - 1, w))"

text \<open>
  The steps that the functions below share: memory for \<open>nbytes\<close> bytes, then the name if there is one. The offset of
  the name is 0 if it is missing or empty.
\<close>

definition reserve :: "allocs \<Rightarrow> btf_obj \<Rightarrow> nat \<Rightarrow> u8 list option \<Rightarrow> (int \<times> btf_obj) option" where
  "reserve ok b nbytes name = do {
     (err, w) \<leftarrow> btf_ensure_modifiable (ok 0) (obj_base b \<noteq> None) (own b);
     if err \<noteq> 0 then Some (- ENOMEM, Obj (obj_base b) w)
     else case btf_add_type_mem (ok 0) w nbytes of
       None \<Rightarrow> Some (- ENOMEM, Obj (obj_base b) w)
     | Some w \<Rightarrow>
         (case name of
            None \<Rightarrow> Some (0, Obj (obj_base b) w)
          | Some s \<Rightarrow> if s = [] then Some (0, Obj (obj_base b) w) else btf__add_str ok (Obj (obj_base b) w) s) }"

definition append_type :: "allocs \<Rightarrow> btf_obj \<Rightarrow> nat \<Rightarrow> u8 list option \<Rightarrow> (u32 \<Rightarrow> btf_type) \<Rightarrow> (int \<times> btf_obj) option" where
  "append_type ok b nbytes name mk = do {
     (name_off, b) \<leftarrow> reserve ok b nbytes name;
     if name_off < 0 then Some (name_off, b)
     else case btf_commit_type (ok 0) (own b) nbytes (mk (of_int name_off)) of (r, w) \<Rightarrow> Some (r, Obj (obj_base b) w) }"

definition validate_type_id :: "int \<Rightarrow> int" where
  "validate_type_id i = (if i < 0 \<or> i > int BTF_MAX_NR_TYPES then - EINVAL else 0)"

definition btf__add_int :: "allocs \<Rightarrow> btf_obj \<Rightarrow> u8 list option \<Rightarrow> u64 \<Rightarrow> u32 \<Rightarrow> (int \<times> btf_obj) option" where
  "btf__add_int ok b name byte_sz encoding =
     (if str_is_empty name then Some (- EINVAL, b)
      else if byte_sz = 0 \<or> byte_sz AND (byte_sz - 1) \<noteq> 0 \<or> byte_sz > 16 then Some (- EINVAL, b)
      else if encoding AND NOT 7 \<noteq> 0 then Some (- EINVAL, b)
      else append_type ok b 16 name (\<lambda>name_off.
        \<lparr>bt_name_off = name_off, bt_info = btf_type_info BTF_KIND_INT 0 False, bt_size_type = ucast byte_sz,
         bt_rest = [push_bit 24 encoding OR ucast (byte_sz * 8)]\<rparr>))"

definition btf__add_float :: "allocs \<Rightarrow> btf_obj \<Rightarrow> u8 list option \<Rightarrow> u64 \<Rightarrow> (int \<times> btf_obj) option" where
  "btf__add_float ok b name byte_sz =
     (if str_is_empty name then Some (- EINVAL, b)
      else if byte_sz \<noteq> 2 \<and> byte_sz \<noteq> 4 \<and> byte_sz \<noteq> 8 \<and> byte_sz \<noteq> 12 \<and> byte_sz \<noteq> 16 then Some (- EINVAL, b)
      else append_type ok b 12 name (\<lambda>name_off.
        \<lparr>bt_name_off = name_off, bt_info = btf_type_info BTF_KIND_FLOAT 0 False, bt_size_type = ucast byte_sz, bt_rest = []\<rparr>))"

definition btf_add_ref_kind :: "allocs \<Rightarrow> btf_obj \<Rightarrow> u32 \<Rightarrow> u8 list option \<Rightarrow> int \<Rightarrow> bool \<Rightarrow> (int \<times> btf_obj) option" where
  "btf_add_ref_kind ok b kind name ref_type_id kflag =
     (if validate_type_id ref_type_id \<noteq> 0 then Some (- EINVAL, b)
      else append_type ok b 12 name (\<lambda>name_off.
        \<lparr>bt_name_off = name_off, bt_info = btf_type_info kind 0 kflag, bt_size_type = of_int ref_type_id, bt_rest = []\<rparr>))"

definition btf__add_ptr :: "allocs \<Rightarrow> btf_obj \<Rightarrow> int \<Rightarrow> (int \<times> btf_obj) option" where
  "btf__add_ptr ok b ref_type_id = btf_add_ref_kind ok b BTF_KIND_PTR None ref_type_id False"

definition btf__add_array :: "allocs \<Rightarrow> btf_obj \<Rightarrow> int \<Rightarrow> int \<Rightarrow> u32 \<Rightarrow> (int \<times> btf_obj) option" where
  "btf__add_array ok b index_type_id elem_type_id nr_elems =
     (if validate_type_id index_type_id \<noteq> 0 \<or> validate_type_id elem_type_id \<noteq> 0 then Some (- EINVAL, b)
      else append_type ok b 24 None (\<lambda>_.
        \<lparr>bt_name_off = 0, bt_info = btf_type_info BTF_KIND_ARRAY 0 False, bt_size_type = 0,
         bt_rest = [of_int elem_type_id, of_int index_type_id, nr_elems]\<rparr>))"

definition btf_add_composite :: "allocs \<Rightarrow> btf_obj \<Rightarrow> u32 \<Rightarrow> u8 list option \<Rightarrow> u32 \<Rightarrow> (int \<times> btf_obj) option" where
  "btf_add_composite ok b kind name bytes_sz =
     append_type ok b 12 name (\<lambda>name_off.
       \<lparr>bt_name_off = name_off, bt_info = btf_type_info kind 0 False, bt_size_type = bytes_sz, bt_rest = []\<rparr>)"

definition btf__add_struct :: "allocs \<Rightarrow> btf_obj \<Rightarrow> u8 list option \<Rightarrow> u32 \<Rightarrow> (int \<times> btf_obj) option" where
  "btf__add_struct ok b name byte_sz = btf_add_composite ok b BTF_KIND_STRUCT name byte_sz"

definition btf__add_union :: "allocs \<Rightarrow> btf_obj \<Rightarrow> u8 list option \<Rightarrow> u32 \<Rightarrow> (int \<times> btf_obj) option" where
  "btf__add_union ok b name byte_sz = btf_add_composite ok b BTF_KIND_UNION name byte_sz"

definition btf_add_enum_common :: "allocs \<Rightarrow> btf_obj \<Rightarrow> u8 list option \<Rightarrow> u32 \<Rightarrow> bool \<Rightarrow> u32 \<Rightarrow> (int \<times> btf_obj) option" where
  "btf_add_enum_common ok b name byte_sz is_signed kind =
     (if byte_sz = 0 \<or> byte_sz AND (byte_sz - 1) \<noteq> 0 \<or> byte_sz > 8 then Some (- EINVAL, b)
      else append_type ok b 12 name (\<lambda>name_off.
        \<lparr>bt_name_off = name_off, bt_info = btf_type_info kind 0 is_signed, bt_size_type = byte_sz, bt_rest = []\<rparr>))"

definition btf__add_enum :: "allocs \<Rightarrow> btf_obj \<Rightarrow> u8 list option \<Rightarrow> u32 \<Rightarrow> (int \<times> btf_obj) option" where
  "btf__add_enum ok b name byte_sz = btf_add_enum_common ok b name byte_sz False BTF_KIND_ENUM"

definition btf__add_enum64 :: "allocs \<Rightarrow> btf_obj \<Rightarrow> u8 list option \<Rightarrow> u32 \<Rightarrow> bool \<Rightarrow> (int \<times> btf_obj) option" where
  "btf__add_enum64 ok b name byte_sz is_signed = btf_add_enum_common ok b name byte_sz is_signed BTF_KIND_ENUM64"

text \<open>\<open>t->info = info\<close> for the type with the identifier that was just returned, which is the last one.\<close>

definition set_last_info :: "u32 \<Rightarrow> btf_obj \<Rightarrow> btf_obj" where
  "set_last_info info b = Obj (obj_base b)
     ((own b)\<lparr>o_types := butlast (o_types (own b)) @ [(last (o_types (own b)))\<lparr>bt_info := info\<rparr>]\<rparr>)"

datatype btf_fwd_kind = BTF_FWD_STRUCT | BTF_FWD_UNION | BTF_FWD_ENUM | FWD_OTHER

definition btf__add_fwd :: "allocs \<Rightarrow> btf_obj \<Rightarrow> u8 list option \<Rightarrow> btf_fwd_kind \<Rightarrow> (int \<times> btf_obj) option" where
  "btf__add_fwd ok b name fwd_kind =
     (if str_is_empty name then Some (- EINVAL, b)
      else if fwd_kind = BTF_FWD_STRUCT \<or> fwd_kind = BTF_FWD_UNION then do {
        (i, b) \<leftarrow> btf_add_ref_kind ok b BTF_KIND_FWD name 0 False;
        Some (i, if i \<le> 0 then b else set_last_info (btf_type_info BTF_KIND_FWD 0 (fwd_kind = BTF_FWD_UNION)) b) }
      else if fwd_kind = BTF_FWD_ENUM then btf__add_enum ok b name 4
      else Some (- EINVAL, b))"

definition btf__add_typedef :: "allocs \<Rightarrow> btf_obj \<Rightarrow> u8 list option \<Rightarrow> int \<Rightarrow> (int \<times> btf_obj) option" where
  "btf__add_typedef ok b name ref_type_id =
     (if str_is_empty name then Some (- EINVAL, b) else btf_add_ref_kind ok b BTF_KIND_TYPEDEF name ref_type_id False)"

definition btf__add_volatile :: "allocs \<Rightarrow> btf_obj \<Rightarrow> int \<Rightarrow> (int \<times> btf_obj) option" where
  "btf__add_volatile ok b ref_type_id = btf_add_ref_kind ok b BTF_KIND_VOLATILE None ref_type_id False"

definition btf__add_const :: "allocs \<Rightarrow> btf_obj \<Rightarrow> int \<Rightarrow> (int \<times> btf_obj) option" where
  "btf__add_const ok b ref_type_id = btf_add_ref_kind ok b BTF_KIND_CONST None ref_type_id False"

definition btf__add_restrict :: "allocs \<Rightarrow> btf_obj \<Rightarrow> int \<Rightarrow> (int \<times> btf_obj) option" where
  "btf__add_restrict ok b ref_type_id = btf_add_ref_kind ok b BTF_KIND_RESTRICT None ref_type_id False"

definition btf__add_type_tag :: "allocs \<Rightarrow> btf_obj \<Rightarrow> u8 list option \<Rightarrow> int \<Rightarrow> (int \<times> btf_obj) option" where
  "btf__add_type_tag ok b val ref_type_id =
     (if str_is_empty val then Some (- EINVAL, b) else btf_add_ref_kind ok b BTF_KIND_TYPE_TAG val ref_type_id False)"

definition btf__add_type_attr :: "allocs \<Rightarrow> btf_obj \<Rightarrow> u8 list option \<Rightarrow> int \<Rightarrow> (int \<times> btf_obj) option" where
  "btf__add_type_attr ok b val ref_type_id =
     (if str_is_empty val then Some (- EINVAL, b) else btf_add_ref_kind ok b BTF_KIND_TYPE_TAG val ref_type_id True)"

text \<open>\<open>BTF_FUNC_STATIC\<close>, \<open>BTF_FUNC_GLOBAL\<close>, \<open>BTF_FUNC_EXTERN\<close> are 0, 1 and 2, as are the linkages of variables.\<close>

definition btf__add_func :: "allocs \<Rightarrow> btf_obj \<Rightarrow> u8 list option \<Rightarrow> nat \<Rightarrow> int \<Rightarrow> (int \<times> btf_obj) option" where
  "btf__add_func ok b name linkage proto_type_id =
     (if str_is_empty name then Some (- EINVAL, b)
      else if linkage \<noteq> 0 \<and> linkage \<noteq> 1 \<and> linkage \<noteq> 2 then Some (- EINVAL, b)
      else do {
        (i, b) \<leftarrow> btf_add_ref_kind ok b BTF_KIND_FUNC name proto_type_id False;
        Some (i, if i > 0 then set_last_info (btf_type_info BTF_KIND_FUNC linkage False) b else b) })"

definition btf__add_func_proto :: "allocs \<Rightarrow> btf_obj \<Rightarrow> int \<Rightarrow> (int \<times> btf_obj) option" where
  "btf__add_func_proto ok b ret_type_id =
     (if validate_type_id ret_type_id \<noteq> 0 then Some (- EINVAL, b)
      else append_type ok b 12 None (\<lambda>_.
        \<lparr>bt_name_off = 0, bt_info = btf_type_info BTF_KIND_FUNC_PROTO 0 False, bt_size_type = of_int ret_type_id, bt_rest = []\<rparr>))"

definition btf__add_var :: "allocs \<Rightarrow> btf_obj \<Rightarrow> u8 list option \<Rightarrow> u32 \<Rightarrow> int \<Rightarrow> (int \<times> btf_obj) option" where
  "btf__add_var ok b name linkage type_id =
     (if str_is_empty name then Some (- EINVAL, b)
      else if linkage \<noteq> 0 \<and> linkage \<noteq> 1 \<and> linkage \<noteq> 2 then Some (- EINVAL, b)
      else if validate_type_id type_id \<noteq> 0 then Some (- EINVAL, b)
      else append_type ok b 16 name (\<lambda>name_off.
        \<lparr>bt_name_off = name_off, bt_info = btf_type_info BTF_KIND_VAR 0 False, bt_size_type = of_int type_id, bt_rest = [linkage]\<rparr>))"

definition btf__add_datasec :: "allocs \<Rightarrow> btf_obj \<Rightarrow> u8 list option \<Rightarrow> u32 \<Rightarrow> (int \<times> btf_obj) option" where
  "btf__add_datasec ok b name byte_sz =
     (if str_is_empty name then Some (- EINVAL, b)
      else append_type ok b 12 name (\<lambda>name_off.
        \<lparr>bt_name_off = name_off, bt_info = btf_type_info BTF_KIND_DATASEC 0 False, bt_size_type = byte_sz, bt_rest = []\<rparr>))"

definition btf_add_decl_tag :: "allocs \<Rightarrow> btf_obj \<Rightarrow> u8 list option \<Rightarrow> int \<Rightarrow> int \<Rightarrow> bool \<Rightarrow> (int \<times> btf_obj) option" where
  "btf_add_decl_tag ok b val ref_type_id component_idx kflag =
     (if str_is_empty val \<or> component_idx < - 1 then Some (- EINVAL, b)
      else if validate_type_id ref_type_id \<noteq> 0 then Some (- EINVAL, b)
      else append_type ok b 16 val (\<lambda>val_off.
        \<lparr>bt_name_off = val_off, bt_info = btf_type_info BTF_KIND_DECL_TAG 0 kflag, bt_size_type = of_int ref_type_id,
         bt_rest = [of_int component_idx]\<rparr>))"

definition btf__add_decl_tag :: "allocs \<Rightarrow> btf_obj \<Rightarrow> u8 list option \<Rightarrow> int \<Rightarrow> int \<Rightarrow> (int \<times> btf_obj) option" where
  "btf__add_decl_tag ok b val ref_type_id component_idx = btf_add_decl_tag ok b val ref_type_id component_idx False"

definition btf__add_decl_attr :: "allocs \<Rightarrow> btf_obj \<Rightarrow> u8 list option \<Rightarrow> int \<Rightarrow> int \<Rightarrow> (int \<times> btf_obj) option" where
  "btf__add_decl_attr ok b val ref_type_id component_idx = btf_add_decl_tag ok b val ref_type_id component_idx True"

section \<open>Appending items to the last type\<close>

definition btf_last_type :: "btf_obj \<Rightarrow> btf_type" where
  "btf_last_type b = last (o_types (own b))"

definition btf_type_inc_vlen :: "btf_type \<Rightarrow> btf_type" where
  "btf_type_inc_vlen t = t\<lparr>bt_info := btf_type_info (btf_kind t) (btf_vlen t + 1) (btf_kflag t)\<rparr>"

text \<open>The words of the item land behind those of the last type, which ends where the section did.\<close>

definition append_item :: "allocs \<Rightarrow> btf_obj \<Rightarrow> u8 list option \<Rightarrow> nat \<Rightarrow> (u32 \<Rightarrow> u32 list) \<Rightarrow> (btf_type \<Rightarrow> btf_type) \<Rightarrow>
    (int \<times> btf_obj) option" where
  "append_item ok b name nbytes item upd = do {
     (name_off, b) \<leftarrow> reserve ok b nbytes name;
     if name_off < 0 then Some (name_off, b)
     else
       let w = own b; t = btf_last_type b; t = t\<lparr>bt_rest := bt_rest t @ item (of_int name_off)\<rparr>;
           w = w\<lparr>o_types := butlast (o_types w) @ [upd t]\<rparr>
       in Some (0, Obj (obj_base b) (add_lens nbytes w)) }"

definition btf__add_field :: "allocs \<Rightarrow> btf_obj \<Rightarrow> u8 list option \<Rightarrow> int \<Rightarrow> u32 \<Rightarrow> u32 \<Rightarrow> (int \<times> btf_obj) option" where
  "btf__add_field ok b name type_id bit_offset bit_size =
     (let is_bitfield = (bit_size \<noteq> 0 \<or> bit_offset mod 8 \<noteq> 0)
      in if o_types (own b) = [] then Some (- EINVAL, b)
         else if \<not> btf_is_composite (btf_last_type b) then Some (- EINVAL, b)
         else if validate_type_id type_id \<noteq> 0 then Some (- EINVAL, b)
         else if is_bitfield \<and> (bit_size = 0 \<or> bit_size > 255 \<or> bit_offset > 0xffffff) then Some (- EINVAL, b)
         else if btf_kind (btf_last_type b) = BTF_KIND_UNION \<and> bit_offset \<noteq> 0 then Some (- EINVAL, b)
         else append_item ok b name 12 (\<lambda>name_off. [name_off, of_int type_id, bit_offset OR push_bit 24 bit_size])
           (\<lambda>t. t\<lparr>bt_info := btf_type_info (btf_kind t) (btf_vlen t + 1) (is_bitfield \<or> btf_kflag t)\<rparr>))"

definition btf__add_enum_value :: "allocs \<Rightarrow> btf_obj \<Rightarrow> u8 list option \<Rightarrow> int \<Rightarrow> (int \<times> btf_obj) option" where
  "btf__add_enum_value ok b name val =
     (if o_types (own b) = [] then Some (- EINVAL, b)
      else if btf_kind (btf_last_type b) \<noteq> BTF_KIND_ENUM then Some (- EINVAL, b)
      else if str_is_empty name then Some (- EINVAL, b)
      else if val < - S32_MAX - 1 \<or> val > int UINT_MAX then Some (- E2BIG, b)
      else append_item ok b name 8 (\<lambda>name_off. [name_off, of_int val])
        (\<lambda>t. let t = btf_type_inc_vlen t
             in if val < 0 then t\<lparr>bt_info := btf_type_info (btf_kind t) (btf_vlen t) True\<rparr> else t))"

definition btf__add_enum64_value :: "allocs \<Rightarrow> btf_obj \<Rightarrow> u8 list option \<Rightarrow> u64 \<Rightarrow> (int \<times> btf_obj) option" where
  "btf__add_enum64_value ok b name val =
     (if o_types (own b) = [] then Some (- EINVAL, b)
      else if btf_kind (btf_last_type b) \<noteq> BTF_KIND_ENUM64 then Some (- EINVAL, b)
      else if str_is_empty name then Some (- EINVAL, b)
      else append_item ok b name 12 (\<lambda>name_off. [name_off, ucast val, ucast (drop_bit 32 val)]) btf_type_inc_vlen)"

definition btf__add_func_param :: "allocs \<Rightarrow> btf_obj \<Rightarrow> u8 list option \<Rightarrow> int \<Rightarrow> (int \<times> btf_obj) option" where
  "btf__add_func_param ok b name type_id =
     (if validate_type_id type_id \<noteq> 0 then Some (- EINVAL, b)
      else if o_types (own b) = [] then Some (- EINVAL, b)
      else if btf_kind (btf_last_type b) \<noteq> BTF_KIND_FUNC_PROTO then Some (- EINVAL, b)
      else append_item ok b name 8 (\<lambda>name_off. [name_off, of_int type_id]) btf_type_inc_vlen)"

definition btf__add_datasec_var_info :: "allocs \<Rightarrow> btf_obj \<Rightarrow> int \<Rightarrow> u32 \<Rightarrow> u32 \<Rightarrow> (int \<times> btf_obj) option" where
  "btf__add_datasec_var_info ok b var_type_id offset byte_sz =
     (if o_types (own b) = [] then Some (- EINVAL, b)
      else if btf_kind (btf_last_type b) \<noteq> BTF_KIND_DATASEC then Some (- EINVAL, b)
      else if validate_type_id var_type_id \<noteq> 0 then Some (- EINVAL, b)
      else append_item ok b None 12 (\<lambda>_. [of_int var_type_id, offset, byte_sz]) btf_type_inc_vlen)"

section \<open>Writing out\<close>

definition swap_types :: "btf_type list \<Rightarrow> btf_type list option" where
  "swap_types ts =
     (if list_all (\<lambda>t. fst (btf_bswap_type_rest t) = 0) ts
      then Some (map (\<lambda>t. btf_bswap_type_base (snd (btf_bswap_type_rest t))) ts) else None)"

text \<open>\<open>Some None\<close> is a null pointer.\<close>

definition btf_get_raw_data :: "bool \<Rightarrow> bool \<Rightarrow> btf_own \<Rightarrow> bool \<Rightarrow> u8 list option option" where
  "btf_get_raw_data le calloc_ok w swap_endian =
     (let h = o_hdr w; cached = (if swap_endian then o_raw_swapped w else o_raw w) in
      if cached \<noteq> None then Some cached
      else if \<not> calloc_ok then Some None
      else if unat (bh_hdr_len h) + unat (bh_type_len h) + unat (bh_str_len h) > UINT_MAX then None
      else
        let hd = (if swap_endian then hdr_bytes le (bpf_swab16 BTF_MAGIC) (btf_bswap_hdr h) w else hdr_bytes le BTF_MAGIC h w)
        in case (if swap_endian then swap_types (o_types w) else Some (o_types w)) of
             None \<Rightarrow> Some None
           | Some ts \<Rightarrow>
               Some (Some (take (unat (bh_hdr_len h)) hd @ take (unat (bh_type_len h)) (words_bytes le (concat (map type_words ts))) @
                 str_sec w)))"

definition btf__raw_data :: "bool \<Rightarrow> bool \<Rightarrow> btf_obj \<Rightarrow> (u8 list option \<times> btf_obj) option" where
  "btf__raw_data le calloc_ok b = do {
     data \<leftarrow> btf_get_raw_data le calloc_ok (own b) (o_swapped (own b));
     Some (data, Obj (obj_base b)
       (if data = None then own b
        else if o_swapped (own b) then (own b)\<lparr>o_raw_swapped := data\<rparr> else (own b)\<lparr>o_raw := data\<rparr>)) }"

datatype btf_endianness = BTF_LITTLE_ENDIAN | BTF_BIG_ENDIAN | ENDIAN_OTHER

definition btf__endianness :: "bool \<Rightarrow> btf_obj \<Rightarrow> btf_endianness" where
  "btf__endianness le b =
     (if \<not> le then if o_swapped (own b) then BTF_LITTLE_ENDIAN else BTF_BIG_ENDIAN
      else if o_swapped (own b) then BTF_BIG_ENDIAN else BTF_LITTLE_ENDIAN)"

definition btf__set_endianness :: "bool \<Rightarrow> btf_obj \<Rightarrow> btf_endianness \<Rightarrow> int \<times> btf_obj" where
  "btf__set_endianness le b endian =
     (if endian \<noteq> BTF_LITTLE_ENDIAN \<and> endian \<noteq> BTF_BIG_ENDIAN then (- EINVAL, b)
      else
        let w = (own b)\<lparr>o_swapped := ((\<not> le) \<noteq> (endian = BTF_BIG_ENDIAN))\<rparr>
        in (0, Obj (obj_base b) (if o_swapped w then w else w\<lparr>o_raw_swapped := None\<rparr>)))"

end
