(* ===== verification/Btf_Strings.thy ===== *)
theory Btf_Strings
  imports Btf_Build
begin

text \<open>The string section of an object under construction.\<close>

section \<open>Stores of strings\<close>

text \<open>
  What the construction of types relies on: adding a string appends whole strings or nothing and returns
  an offset at which the string can be read; a failed addition and a search change nothing that can be read.
\<close>

lemma c_string_append: "0 \<in> set xs \<Longrightarrow> c_string (xs @ ys) = c_string xs"
  by (simp add: c_string_def takeWhile_append1)

lemma c_string_stable:
  assumes "xs = [] \<or> last xs = 0" "n < length xs"
  shows "c_string (drop n (xs @ ys)) = c_string (drop n xs)"
proof -
  have "0 \<in> set (drop n xs)" using assms last_in_set [of "drop n xs"] by (auto simp: last_drop)
  moreover have "drop n (xs @ ys) = drop n xs @ ys" using assms(2) by simp
  ultimately show ?thesis by (simp add: c_string_append)
qed

locale string_store =
  fixes valid :: "'s \<Rightarrow> bool" and bytes :: "'s \<Rightarrow> u8 list"
    and add :: "'c \<Rightarrow> 's \<Rightarrow> u8 list \<Rightarrow> int \<times> 's" and search :: "'c \<Rightarrow> 's \<Rightarrow> u8 list \<Rightarrow> int \<times> 's"
  assumes add_law: "valid s \<Longrightarrow> 0 \<notin> set str \<Longrightarrow> add c s str = (r, s') \<Longrightarrow>
      valid s' \<and> (\<exists>ext. bytes s' = bytes s @ ext \<and> (ext = [] \<or> last ext = 0)) \<and>
      (if 0 \<le> r then c_string (drop (nat r) (bytes s')) = Some str else bytes s' = bytes s)"
    and search_law: "valid s \<Longrightarrow> 0 \<notin> set str \<Longrightarrow> search c s str = (r, s') \<Longrightarrow>
      valid s' \<and> bytes s' = bytes s \<and> (0 \<le> r \<longrightarrow> c_string (drop (nat r) (bytes s)) = Some str)"
begin

lemma add_read: "valid s \<Longrightarrow> 0 \<notin> set str \<Longrightarrow> add c s str = (r, s') \<Longrightarrow> 0 \<le> r \<Longrightarrow>
    nat r < length (bytes s') \<and> c_string (drop (nat r) (bytes s')) = Some str"
  using add_law [of s str c r s'] by (cases "nat r < length (bytes s')") (auto simp: c_string_def)

lemma search_read: "valid s \<Longrightarrow> 0 \<notin> set str \<Longrightarrow> search c s str = (r, s') \<Longrightarrow> 0 \<le> r \<Longrightarrow>
    nat r < length (bytes s) \<and> c_string (drop (nat r) (bytes s)) = Some str"
  using search_law [of s str c r s'] by (cases "nat r < length (bytes s)") (auto simp: c_string_def)

text \<open>What could be read before can be read after, and the section stays terminated.\<close>

lemma add_keeps:
  assumes "valid s" "0 \<notin> set str" "add c s str = (r, s')" "bytes s = [] \<or> last (bytes s) = 0" "n < length (bytes s)"
  shows "c_string (drop n (bytes s')) = c_string (drop n (bytes s))"
  using add_law [OF assms(1-3)] c_string_stable [OF assms(4,5)] by auto

lemma add_last:
  assumes "valid s" "0 \<notin> set str" "add c s str = (r, s')" "bytes s = [] \<or> last (bytes s) = 0"
  shows "bytes s' = [] \<or> last (bytes s') = 0"
  using add_law [OF assms(1-3)] assms(4) by (auto simp: last_append split: if_splits)

end

section \<open>The string set is one\<close>

definition set_data :: "strset \<Rightarrow> u8 list" where
  "set_data s = take (strs_data_len s) (strs_data s)"

lemma length_live: "strset_inv s \<Longrightarrow> length (set_data s) = strs_data_len s"
  by (simp add: set_data_def strset_inv_def)

lemma cstr_live: "terminated (strs_data s) (strs_data_len s) off \<Longrightarrow> c_string (drop off (set_data s)) = Some (cstr (strs_data s) off)"
  by (simp add: c_string_def set_data_def terminated_def cstr_prefix)

lemma memcpy_live: "n + length xs \<le> length d \<Longrightarrow> take (n + length xs) (memcpy d n xs) = take n d @ xs"
  by (simp add: memcpy_def)

lemma add_str_live:
  assumes "strset_inv s" "0 \<notin> set str" "strset__add_str mem_ok c a s str = (r, s')"
  shows "set_data s' = set_data s @ (if strs_data_len s' = strs_data_len s then [] else str @ [0])"
proof -
  note p = add_str(1) [OF assms]
  have t: "take (strs_data_len s) (strs_data s') = set_data s" using p by (simp add: add_post_def set_data_def)
  show ?thesis
  proof (cases "strs_data_len s' = strs_data_len s")
    case False
    then obtain d where d: "strset_add_str_mem mem_ok s (length str + 1) = Some d"
      using assms(3) by (cases "strset_add_str_mem mem_ok s (length str + 1)") (auto simp: strset__add_str_def)
    note len = scratch(4) [OF assms(1) d assms(2) refl]
    have s': "strs_data s' = memcpy d (strs_data_len s) (str @ [0])" "strs_data_len s' = strs_data_len s + length (str @ [0])"
      using assms(3) False d unfolding strset__add_str_def Let_def d option.case
      by (auto split: prod.splits if_splits)
    have "length (memcpy d (strs_data_len s) (str @ [0])) = length d"
      using add_mem(2) [OF d [unfolded strset_add_str_mem_def]] by (simp add: memcpy_length)
    then have "set_data s' = take (strs_data_len s) d @ str @ [0]"
      using len memcpy_live [of "strs_data_len s" "str @ [0]" d] by (simp add: set_data_def s')
    moreover have "take (strs_data_len s) d = set_data s"
      using t len \<open>length (memcpy d _ _) = length d\<close> by (simp add: s' memcpy_take)
    ultimately show ?thesis using False by simp
  qed (use t in \<open>simp add: set_data_def\<close>)
qed

lemma find_str_live:
  assumes "strset_inv s" "0 \<notin> set str" "strset__find_str mem_ok s str = (r, s')"
  shows "strset_inv s' \<and> set_data s' = set_data s \<and> strs_data_len s' = strs_data_len s \<and> strs_data_max_len s' = strs_data_max_len s \<and>
    (0 \<le> r \<longrightarrow> terminated (strs_data s) (strs_data_len s) (nat r) \<and> cstr (strs_data s) (nat r) = str)"
proof (cases "strset_add_str_mem mem_ok s (length str + 1)")
  case None
  then show ?thesis using assms by (auto simp: strset__find_str_def)
next
  case (Some d)
  let ?n = "strs_data_len s"
  define d' where "d' = memcpy d ?n (str @ [0])"
  define m where "m = with_data d' (strs_hash s)"
  note p = scratch [OF assms(1) Some assms(2) d'_def]
  note v = with_data_valid [OF assms(1) p(1), folded m_def] and f = scratch_find [OF assms(1) p(1,2) m_def]
  have "set (concat (buckets m)) = set (concat (buckets (strs_hash s)))" by (simp add: m_def with_data_def)
  note k = keep_inv [OF assms(1) Some assms(2) d'_def v this]
  have eq: "strset__find_str mem_ok s str = (case hashmap_find m ?n of Some off \<Rightarrow> int_of_long off | None \<Rightarrow> - ENOENT,
      s\<lparr>strs_data := d', strs_hash := m\<rparr>)"
    unfolding strset__find_str_def Let_def Some option.case d'_def [symmetric] m_def [symmetric] by (simp split: option.split)
  show ?thesis
  proof (cases "hashmap_find m ?n")
    case None
    then show ?thesis using eq assms(3) k p(1) by (auto simp: set_data_def)
  next
    case o: (Some off)
    have "off < 2 ^ 31" using f(2) [OF o] terminated_less [of "strs_data s" ?n off] p(5,6) by auto
    then show ?thesis using eq assms(3) k p(1) o f(2) [OF o] by (auto simp: set_data_def int_of_long_small)
  qed
qed

interpretation ss: string_store strset_inv set_data "\<lambda>(m, c, a) s str. strset__add_str m c a s str"
    "\<lambda>(m, c, a) s str. strset__find_str m s str"
proof (unfold_locales, goal_cases)
  case (1 s str c r s')
  obtain m k a where c: "c = (m, k, a)" by (cases c)
  then have i: "strset__add_str m k a s str = (r, s')" using 1(3) by simp
  note p = add_str(1) [OF 1(1,2) i] and l = add_str_live [OF 1(1,2) i]
  have "set_data s' = set_data s" if "r < 0" using p l that by (simp add: add_post_def)
  moreover have "c_string (drop (nat r) (set_data s')) = Some str" if "0 \<le> r"
    using p that by (metis add_post_def cstr_live)
  ultimately show ?case using p l by (auto simp: add_post_def)
next
  case (2 s str c r s')
  obtain m k a where c: "c = (m, k, a)" by (cases c)
  then have i: "strset__find_str m s str = (r, s')" using 2(3) by simp
  show ?case using find_str_live [OF 2(1,2) i] cstr_live [of s "nat r"] by auto
qed

section \<open>Sets made from a section\<close>

lemma index_insert_any:
  assumes "index_ok d m" "0 \<in> set (drop off d)" "hashmap_insert c a m off off HASHMAP_ADD = (err, old, m')"
  shows "err = 0 \<or> err = - EEXIST \<or> err = - ENOMEM" "err = 0 \<or> err = - EEXIST \<Longrightarrow> index_ok d m'"
proof -
  have v: "sk.valid d m" using assms(1) by (simp add: index_ok_def)
  have "(err = 0 \<or> err = - EEXIST \<or> err = - ENOMEM) \<and> (err = 0 \<or> err = - EEXIST \<longrightarrow> index_ok d m')"
  proof (cases "hashmap_find m off")
    case None
    note n = insert_scratch_new [OF v None assms(3)]
    have "index_ok d m'" if "err = 0"
      using assms(1,2) n that unfolding index_ok_def by (simp add: terminated_def del: set_concat)
    then show ?thesis using n by (auto split: if_splits)
  next
    case (Some u)
    obtain e where "hashmap_insert c a m off off HASHMAP_ADD = (- EEXIST, Some e, m)"
      using insert_scratch_old [OF v Some] by blast
    then show ?thesis using assms(1,3) by simp
  qed
  then show "err = 0 \<or> err = - EEXIST \<or> err = - ENOMEM" "err = 0 \<or> err = - EEXIST \<Longrightarrow> index_ok d m'" by blast+
qed

lemma init_loop_any:
  assumes "\<forall>off < length d. 0 \<in> set (drop off d)" "index_ok d m"
  shows "\<exists>r. strset_init_loop alloc d off m = Some r \<and> (case r of Inl err \<Rightarrow> err = - ENOMEM | Inr m' \<Rightarrow> index_ok d m')"
  using assms(2)
proof (induction "length d - off" arbitrary: off m rule: less_induct)
  case less
  show ?case
  proof (cases "off < length d")
    case False
    then show ?thesis using less.prems by (simp add: strset_init_loop.simps [of _ d off])
  next
    case True
    then have z: "0 \<in> set (drop off d)" using assms(1) by simp
    obtain c a where al: "alloc off = (c, a)" by (cases "alloc off")
    obtain err old m' where i: "hashmap_insert c a m off off HASHMAP_ADD = (err, old, m')" by (metis prod.collapse)
    note n = index_insert_any [OF less.prems z i]
    let ?off = "off + length (cstr d off) + 1"
    have "strset_init_loop alloc d off m =
        (if err \<noteq> 0 \<and> err \<noteq> - EEXIST then Some (Inl err) else strset_init_loop alloc d ?off m')"
      using True z al i by (subst strset_init_loop.simps) auto
    then show ?thesis using n less.hyps [of ?off m'] True by auto
  qed
qed

lemma new_set_any:
  assumes "d = [] \<or> last d = 0" "length d \<le> 2 ^ 31" "mx \<le> 2 ^ 31"
  shows "\<exists>r. strset__new set_ok hash_ok data_ok alloc mx (Some d) = Some r \<and>
    (case r of Inl err \<Rightarrow> err = - ENOMEM | Inr s \<Rightarrow> strset_inv s \<and> strs_data s = d \<and> strs_data_len s = length d \<and> strs_data_max_len s = mx)"
proof (cases "set_ok \<and> hash_ok \<and> data_ok")
  case True
  have z: "\<forall>off < length d. 0 \<in> set (drop off d)"
    using assms(1) last_in_set [of "drop _ d"] by (auto simp: last_drop)
  let ?m = "with_data d (hashmap__init (strset_hash_fn []) (strset_equal_fn []))"
  have "index_ok d ?m" using sk.valid_init [of d] by (simp add: index_ok_def with_data_def hashmap__init_def)
  then obtain r where r: "strset_init_loop alloc d 0 ?m = Some r" "case r of Inl err \<Rightarrow> err = - ENOMEM | Inr m' \<Rightarrow> index_ok d m'"
    using init_loop_any [OF z] by blast
  show ?thesis
  proof (cases r)
    case (Inr m')
    let ?s = "\<lparr>strs_data = d, strs_data_len = length d, strs_data_max_len = mx, strs_hash = m'\<rparr>"
    have "strset_inv ?s" using r(2) Inr by (intro inv_intro [OF _ _ _ assms(2,3) refl]) (auto simp: index_ok_def)
    then show ?thesis using True r(1) Inr by (simp add: strset__new_def hashmap__new_def)
  qed (use True r in \<open>simp add: strset__new_def hashmap__new_def\<close>)
qed (auto simp: strset__new_def hashmap__new_def)

section \<open>The string section of an object\<close>

definition buffers_ok :: "btf_own \<Rightarrow> bool" where
  "buffers_ok w \<longleftrightarrow>
     (case o_strs w of
        In_raw d \<Rightarrow> length d = unat (bh_str_len (o_hdr w)) \<and> length d \<le> 2 ^ 31
      | In_set s \<Rightarrow> strset_inv s \<and> strs_data_len s = unat (bh_str_len (o_hdr w)) \<and> strs_data_max_len s = BTF_MAX_STR_OFFSET) \<and>
     (str_sec w = [] \<or> last (str_sec w) = 0) \<and> o_types_cap w \<le> UINT_MAX"

text \<open>Two states of an object that differ in strings, allocated sizes and cached bytes at most.\<close>

definition same_frame :: "btf_own \<Rightarrow> btf_own \<Rightarrow> bool" where
  "same_frame w w' \<longleftrightarrow> o_start_id w' = o_start_id w \<and> o_start_str_off w' = o_start_str_off w \<and>
     bh_hdr_len (o_hdr w') = bh_hdr_len (o_hdr w) \<and> bh_type_off (o_hdr w') = bh_type_off (o_hdr w) \<and>
     bh_type_len (o_hdr w') = bh_type_len (o_hdr w) \<and> bh_str_off (o_hdr w') = bh_str_off (o_hdr w) \<and>
     o_version w' = o_version w \<and> o_flags w' = o_flags w \<and> o_hdr_rest w' = o_hdr_rest w \<and>
     o_types w' = o_types w \<and> o_ptr_sz w' = o_ptr_sz w \<and> o_swapped w' = o_swapped w"

definition grows :: "btf_own \<Rightarrow> btf_own \<Rightarrow> bool" where
  "grows w w' \<longleftrightarrow> same_frame w w' \<and> buffers_ok w' \<and>
     (\<exists>ext. str_sec w' = str_sec w @ ext \<and> (ext = [] \<or> last ext = 0)) \<and>
     (w' = w \<or> o_raw w' = None \<and> o_raw_swapped w' = None)"

lemma str_sec_set: "o_strs w = In_set s \<Longrightarrow> strs_data_len s = unat (bh_str_len (o_hdr w)) \<Longrightarrow> str_sec w = set_data s"
  by (simp add: str_sec_def btf_strs_data_def set_data_def strset__data_def)

lemma length_str_sec: "buffers_ok w \<Longrightarrow> length (str_sec w) = unat (bh_str_len (o_hdr w)) \<and> length (str_sec w) \<le> 2 ^ 31"
  by (auto simp: buffers_ok_def str_sec_set length_live split: btf_strings.splits)
    (auto simp: str_sec_def btf_strs_data_def strset_inv_def)

lemma same_frame_refl [simp]: "same_frame w w"
  by (simp add: same_frame_def)

lemma grows_refl: "buffers_ok w \<Longrightarrow> grows w w"
  by (auto simp: grows_def)

lemma grows_trans: "grows w w' \<Longrightarrow> grows w' w'' \<Longrightarrow> grows w w''"
  unfolding grows_def same_frame_def by (auto simp: last_append split: if_splits)

lemma ensure_modifiable_ok:
  assumes "buffers_ok w"
  obtains err w' where "btf_ensure_modifiable ok hb w = Some (err, w')" "err = 0 \<or> err = - ENOMEM" "grows w w'"
    "str_sec w' = str_sec w" "err = 0 \<longrightarrow> (\<exists>s. o_strs w' = In_set s) \<and> o_raw w' = None \<and> o_raw_swapped w' = None"
    "err \<noteq> 0 \<longrightarrow> w' = w"
proof (cases "o_strs w")
  case (In_set s)
  let ?w = "btf_invalidate_raw_data w"
  have "str_sec ?w = str_sec w" "buffers_ok ?w"
    using assms In_set by (simp_all add: btf_invalidate_raw_data_def str_sec_def btf_strs_data_def buffers_ok_def)
  moreover from this have "grows w ?w" by (simp add: grows_def same_frame_def btf_invalidate_raw_data_def)
  ultimately show ?thesis
    by (intro that [of 0 ?w]) (simp_all add: btf_ensure_modifiable_def btf_is_modifiable_def btf_invalidate_raw_data_def In_set)
next
  case (In_raw d)
  have l: "length (str_sec w) \<le> 2 ^ 31" "length (str_sec w) = unat (bh_str_len (o_hdr w))" "str_sec w = [] \<or> last (str_sec w) = 0"
    using assms length_str_sec [OF assms] by (auto simp: buffers_ok_def)
  let ?new = "strset__new (ok S_set) (ok S_hash) (ok S_data) (\<lambda>off. (ok (S_index off), ok (S_entry off))) BTF_MAX_STR_OFFSET (Some (str_sec w))"
  obtain r where r: "?new = Some r" "case r of Inl err \<Rightarrow> err = - ENOMEM
      | Inr s \<Rightarrow> strset_inv s \<and> strs_data s = str_sec w \<and> strs_data_len s = length (str_sec w) \<and> strs_data_max_len s = BTF_MAX_STR_OFFSET"
    using new_set_any [OF l(3,1), of BTF_MAX_STR_OFFSET] by fastforce
  note unf = btf_ensure_modifiable_def btf_is_modifiable_def In_raw
  show ?thesis
  proof (cases "ok S_hdr \<and> ok S_types \<and> (case r of Inl _ \<Rightarrow> False | Inr _ \<Rightarrow> True)")
    case False
    have "btf_ensure_modifiable ok hb w = Some (- ENOMEM, w)" using False r by (cases r) (auto simp: unf)
    then show ?thesis by (rule that) (simp_all add: grows_refl [OF assms])
  next
    case True
    then obtain s where s: "r = Inr s" by (cases r) auto
    let ?n = "unat (bh_str_len (o_hdr w))"
    let ?w = "btf_invalidate_raw_data (w\<lparr>o_types_cap := unat (bh_type_len (o_hdr w)), o_strs := In_set s,
        o_strs_deduped := (o_strs_deduped w \<or> ?n = 0 \<or> \<not> hb \<and> ?n = 1)\<rparr>)"
    have e: "btf_ensure_modifiable ok hb w = Some (0, ?w)" using True r(1) s by (simp add: unf Let_def)
    have "str_sec ?w = str_sec w" using r(2) s l(2) by (subst str_sec_set [of _ s]) (simp_all add: btf_invalidate_raw_data_def set_data_def)
    moreover from this have "buffers_ok ?w" using r(2) s l(2,3) unat_u32_less [of "bh_type_len (o_hdr w)"]
      by (simp add: buffers_ok_def) (simp add: btf_invalidate_raw_data_def)
    moreover from calculation have "grows w ?w" by (simp add: grows_def) (simp add: same_frame_def btf_invalidate_raw_data_def)
    ultimately show ?thesis by (intro that [OF e]) (simp_all add: btf_invalidate_raw_data_def)
  qed
qed

text \<open>Searching and adding in the object itself.\<close>

lemma from_start_Some: "from_start w off = Some r \<longleftrightarrow> r = int (o_start_str_off w) + off \<and> r \<le> S32_MAX"
  by (auto simp: from_start_def)

lemma with_set_ok:
  assumes "buffers_ok w" "o_strs w = In_set s" "o_raw w = None" "o_raw_swapped w = None" "strset_inv s'"
    "set_data s' = set_data s @ ext" "ext = [] \<or> last ext = 0" "strs_data_max_len s' = strs_data_max_len s"
    "w' = w\<lparr>o_strs := In_set s', o_hdr := (o_hdr w)\<lparr>bh_str_len := of_nat (strs_data_len s')\<rparr>\<rparr>"
  shows "grows w w' \<and> str_sec w' = set_data s'"
proof -
  have "strs_data_len s' \<le> 2 ^ 31" using assms(5) by (simp add: strset_inv_def)
  then have u: "unat (of_nat (strs_data_len s') :: u32) = strs_data_len s'" by (intro unat_of_nat_u32) simp
  have sec: "str_sec w' = set_data s'" "str_sec w = set_data s" "set_data s = [] \<or> last (set_data s) = 0"
    using assms(1,2) by (auto simp: assms(9) u buffers_ok_def str_sec_set)
  moreover have "set_data s' = [] \<or> last (set_data s') = 0" using sec(3) assms(6,7) by (auto simp: last_append)
  ultimately have "buffers_ok w'" using assms(1,2,5,8) u by (auto simp: buffers_ok_def assms(9))
  then show ?thesis using sec assms(3,4,6,7) by (auto simp: grows_def same_frame_def assms(9))
qed

lemma find_own_str_ok:
  assumes "buffers_ok w" "0 \<notin> set str" "find_own_str ok hb w str = Some (r, w')"
  shows "grows w w' \<and> str_sec w' = str_sec w \<and>
    (0 \<le> r \<longrightarrow> (\<exists>n < length (str_sec w). r = int (o_start_str_off w) + int n \<and> r \<le> S32_MAX \<and> c_string (drop n (str_sec w)) = Some str))"
proof -
  obtain err w1 where e: "btf_ensure_modifiable ok hb w = Some (err, w1)" "grows w w1" "str_sec w1 = str_sec w"
      "err = 0 \<longrightarrow> (\<exists>s. o_strs w1 = In_set s) \<and> o_raw w1 = None \<and> o_raw_swapped w1 = None"
    by (rule ensure_modifiable_ok [OF assms(1), of ok hb])
  show ?thesis
  proof (cases "err = 0")
    case False
    then show ?thesis using e(1-3) assms(3) by (auto simp: find_own_str_def)
  next
    case True
    then obtain s where s: "o_strs w1 = In_set s" "o_raw w1 = None" "o_raw_swapped w1 = None" using e(4) by blast
    obtain off s' where f: "strset__find_str (ok S_str_mem) s str = (off, s')" by fastforce
    have ok: "buffers_ok w1" "strset_inv s" "strs_data_len s = unat (bh_str_len (o_hdr w1))"
      using e(2) s(1) by (auto simp: grows_def buffers_ok_def)
    note l = find_str_live [OF ok(2) assms(2) f]
    let ?w = "w1\<lparr>o_strs := In_set s'\<rparr>"
    have "?w = w1\<lparr>o_strs := In_set s', o_hdr := (o_hdr w1)\<lparr>bh_str_len := of_nat (strs_data_len s')\<rparr>\<rparr>"
      using ok(3) l by simp
    from with_set_ok [OF ok(1) s(1) s(2,3) _ _ _ _ this, of "[]"] l have g: "grows w1 ?w" "str_sec ?w = set_data s" by simp_all
    have sec: "set_data s = str_sec w" using str_sec_set [OF s(1) ok(3)] e(3) by simp
    have "c_string (drop (nat off) (set_data s)) = Some str \<and> nat off < length (set_data s)" if "0 \<le> off"
      using ss.search_read [OF ok(2) assms(2), of "(ok S_str_mem, True, True)" off s'] f that by simp
    moreover have "o_start_str_off w1 = o_start_str_off w" using e(2) by (simp add: grows_def same_frame_def)
    ultimately have "0 \<le> r \<longrightarrow> (\<exists>n < length (set_data s). r = int (o_start_str_off w) + int n \<and> r \<le> S32_MAX \<and> c_string (drop n (set_data s)) = Some str)"
      and "w' = ?w"
      using assms(3) e(1) True s(1) f by (auto simp: find_own_str_def Let_def from_start_Some split: if_splits intro!: exI [of _ "nat off"])
    then show ?thesis using grows_trans [OF e(2) g(1)] g(2) sec by simp
  qed
qed

lemma add_own_str_ok:
  assumes "buffers_ok w" "0 \<notin> set str" "add_own_str ok hb w str = Some (r, w')"
  shows "grows w w' \<and>
    (0 \<le> r \<longrightarrow> (\<exists>n < length (str_sec w'). r = int (o_start_str_off w) + int n \<and> r \<le> S32_MAX \<and> c_string (drop n (str_sec w')) = Some str))"
proof -
  obtain err w1 where e: "btf_ensure_modifiable ok hb w = Some (err, w1)" "grows w w1"
      "err = 0 \<longrightarrow> (\<exists>s. o_strs w1 = In_set s) \<and> o_raw w1 = None \<and> o_raw_swapped w1 = None"
    by (rule ensure_modifiable_ok [OF assms(1), of ok hb])
  show ?thesis
  proof (cases "err = 0")
    case False
    then show ?thesis using e(1,2) assms(3) by (auto simp: add_own_str_def)
  next
    case True
    then obtain s where s: "o_strs w1 = In_set s" "o_raw w1 = None" "o_raw_swapped w1 = None" using e(3) by blast
    obtain off s' where f: "strset__add_str (ok S_str_mem) (ok S_str_index) (ok S_str_entry) s str = (off, s')" by fastforce
    have ok: "buffers_ok w1" "strset_inv s" "strs_data_len s = unat (bh_str_len (o_hdr w1))"
      using e(2) s(1) by (auto simp: grows_def buffers_ok_def)
    note p = add_str(1) [OF ok(2) assms(2) f]
    let ?c = "(ok S_str_mem, ok S_str_index, ok S_str_entry)"
    obtain ext where x: "set_data s' = set_data s @ ext" "ext = [] \<or> last ext = 0" "strset_inv s'" "off < 0 \<Longrightarrow> strs_data_len s' = strs_data_len s"
      using ss.add_law [OF ok(2) assms(2), of ?c off s'] f p by (auto simp: add_post_def)
    let ?w = "w1\<lparr>o_strs := In_set s', o_hdr := (o_hdr w1)\<lparr>bh_str_len := of_nat (strs_data_len s')\<rparr>\<rparr>"
    have "strs_data_max_len s' = strs_data_max_len s" using p by (simp add: add_post_def)
    from with_set_ok [OF ok(1) s x(3,1,2) this refl] have g: "grows w1 ?w" "str_sec ?w = set_data s'" by simp_all
    have same: "w1\<lparr>o_strs := In_set s'\<rparr> = ?w" if "off < 0" using x(4) [OF that] ok(3) by simp
    have "c_string (drop (nat off) (set_data s')) = Some str \<and> nat off < length (set_data s')" if "0 \<le> off"
      using ss.add_read [OF ok(2) assms(2), of ?c off s'] f that by simp
    moreover have "o_start_str_off w1 = o_start_str_off w" using e(2) by (simp add: grows_def same_frame_def)
    moreover have "w' = ?w" using assms(3) e(1) True s(1) f same
      by (auto simp: add_own_str_def Let_def strset__data_size_def split: if_splits)
    ultimately have "0 \<le> r \<longrightarrow> (\<exists>n < length (set_data s'). r = int (o_start_str_off w) + int n \<and> r \<le> S32_MAX \<and> c_string (drop n (set_data s')) = Some str)"
      using assms(3) e(1) True s(1) f by (auto simp: add_own_str_def Let_def from_start_Some split: if_splits intro!: exI [of _ "nat off"])
    then show ?thesis using grows_trans [OF e(2) g(1)] g(2) \<open>w' = ?w\<close> by simp
  qed
qed

section \<open>Objects on a base\<close>

text \<open>An object of its own, or one on a base that is not itself split: see \<open>split_on_split_names\<close> for why.\<close>

definition root_ok :: "btf_own \<Rightarrow> bool" where
  "root_ok w \<longleftrightarrow> buffers_ok w \<and> o_start_id w = 1 \<and> o_start_str_off w = 0 \<and> str_sec w \<noteq> [] \<and> hd (str_sec w) = 0"

fun obj_ok :: "btf_obj \<Rightarrow> bool" where
  "obj_ok (Obj base w) \<longleftrightarrow>
     (case base of
        None \<Rightarrow> root_ok w
      | Some b \<Rightarrow> obj_base b = None \<and> root_ok (own b) \<and> buffers_ok w \<and>
          o_start_id w = btf__type_cnt (btf_view b) \<and> o_start_str_off w = length (str_sec (own b)))"

definition obj_grows :: "btf_obj \<Rightarrow> btf_obj \<Rightarrow> bool" where
  "obj_grows b b' \<longleftrightarrow> obj_ok b' \<and> grows (own b) (own b') \<and>
     map_option btf_view (obj_base b') = map_option btf_view (obj_base b)"

lemma view_Obj [simp]: "btf_view b = Btf (map_option btf_view (obj_base b)) (o_start_id (own b)) (o_start_str_off (own b))
    (o_types (own b)) (str_sec (own b)) (o_ptr_sz (own b)) (o_swapped (own b))"
  by (cases b) (simp split: option.split)

declare btf_view.simps [simp del]

lemma obj_ok_strs: "obj_ok b \<Longrightarrow> buffers_ok (own b)"
  by (cases b) (auto simp: root_ok_def split: option.splits)

lemma obj_grows_refl: "obj_ok b \<Longrightarrow> obj_grows b b"
  by (simp add: obj_grows_def grows_refl obj_ok_strs)

lemma obj_grows_trans: "obj_grows b b' \<Longrightarrow> obj_grows b' b'' \<Longrightarrow> obj_grows b b''"
  unfolding obj_grows_def using grows_trans by metis

lemma root_ok_grows: "root_ok w \<Longrightarrow> grows w w' \<Longrightarrow> root_ok w'"
  by (auto simp: root_ok_def grows_def same_frame_def)

lemma own_grows:
  assumes "obj_ok b" "grows (own b) w'"
  shows "obj_grows b (Obj (obj_base b) w')"
proof -
  have "buffers_ok w'" "same_frame (own b) w'" using assms(2) by (auto simp: grows_def)
  then have "obj_ok (Obj (obj_base b) w')"
    using assms root_ok_grows [OF _ assms(2)] by (cases b) (auto simp: same_frame_def split: option.splits)
  then show ?thesis using assms(2) by (simp add: obj_grows_def)
qed

lemma base_grows:
  assumes "obj_ok b" "obj_base b = Some b0" "grows (own b0) w0" "str_sec w0 = str_sec (own b0)"
  shows "obj_grows b (Obj (Some (Obj None w0)) (own b))"
proof -
  have r: "obj_base b0 = None" "root_ok (own b0)" "o_start_id (own b) = btf__type_cnt (btf_view b0)"
      "o_start_str_off (own b) = length (str_sec (own b0))" "buffers_ok (own b)"
    using assms(1,2) by (cases b; auto)+
  have "btf_view (Obj None w0) = btf_view b0"
    using r(1) assms(3,4) by (simp add: grows_def same_frame_def)
  then show ?thesis
    using r assms(2,4) root_ok_grows [OF r(2) assms(3)] grows_refl [OF r(5)] by (simp add: obj_grows_def del: view_Obj)
qed

text \<open>A name that could be read can still be read.\<close>

lemma str_grows:
  assumes "obj_ok b" "obj_grows b b'" "btf__str_by_offset (btf_view b) off = Some (Some s)"
  shows "btf__str_by_offset (btf_view b') off = Some (Some s)"
proof -
  obtain ext where x: "str_sec (own b') = str_sec (own b) @ ext" "o_start_str_off (own b') = o_start_str_off (own b)"
    using assms(2) by (auto simp: obj_grows_def grows_def same_frame_def)
  have t: "str_sec (own b) = [] \<or> last (str_sec (own b)) = 0" using obj_ok_strs [OF assms(1)] by (simp add: buffers_ok_def)
  have base: "map_option btf_view (obj_base b') = map_option btf_view (obj_base b)" using assms(2) by (simp add: obj_grows_def)
  show ?thesis
    using assms(3) c_string_stable [OF t, of "unat off - o_start_str_off (own b)" ext]
    by (auto simp: x base simp del: drop_append split: if_splits option.splits)
qed

lemma of_int_small:
  assumes "0 \<le> r" "r \<le> S32_MAX"
  shows "unat (of_int r :: u32) = nat r"
proof -
  obtain n where n: "r = int n" using assms(1) nonneg_int_cases by blast
  then have "n < 2 ^ 32" using assms(2) by simp
  then show ?thesis by (simp add: n unat_of_nat_u32)
qed

lemma btf__add_str_ok:
  assumes "obj_ok b" "0 \<notin> set s" "btf__add_str ok b s = Some (r, b')"
  shows "obj_grows b b' \<and> (0 \<le> r \<longrightarrow> r \<le> S32_MAX \<and> btf__str_by_offset (btf_view b') (of_int r) = Some (Some s))"
proof -
  have own: ?thesis if g: "obj_grows b (Obj base (own b))" and a: "add_own_str (ok 0) hb (own b) s = Some (r, w)" and b': "b' = Obj base w" for base hb w
  proof -
    have ok1: "obj_ok (Obj base (own b))" using g by (simp add: obj_grows_def)
    note o = add_own_str_ok [OF obj_ok_strs [OF assms(1)] assms(2) a]
    have g': "obj_grows b b'" using obj_grows_trans [OF g own_grows [of "Obj base (own b)" w]] o ok1 b' by simp
    have "o_start_str_off w = o_start_str_off (own b)" using o by (simp add: grows_def same_frame_def)
    then have "btf__str_by_offset (btf_view b') (of_int r) = Some (Some s) \<and> r \<le> S32_MAX" if "0 \<le> r"
      using o of_int_small [of r] that by (auto simp: b' nat_add_distrib)
    with g' show ?thesis by blast
  qed
  show ?thesis
  proof (cases "obj_base b")
    case None
    then have "Obj None (own b) = b" by (cases b) simp
    then have g: "obj_grows b (Obj None (own b))" using obj_grows_refl [OF assms(1)] by simp
    obtain w where "add_own_str (ok 0) False (own b) s = Some (r, w)" "b' = Obj None w"
      using assms(3) None by (auto simp: btf__add_str_def)
    from own [OF g this] show ?thesis .
  next
    case (Some b0)
    obtain base0 w0 where b0: "b0 = Obj base0 w0" by (cases b0)
    have r0: "base0 = None" "root_ok w0" "o_start_str_off (own b) = length (str_sec w0)"
      using assms(1) Some by (cases b; auto simp: b0)+
    obtain off w1 where f: "find_own_str (ok 1) False w0 s = Some (off, w1)"
      "if off \<noteq> - ENOENT then r = off \<and> b' = Obj (Some (Obj None w1)) (own b)
       else \<exists>w. add_own_str (ok 0) True (own b) s = Some (r, w) \<and> b' = Obj (Some (Obj None w1)) w"
      using assms(3) Some by (auto simp: btf__add_str_def b0 r0(1) split: option.splits if_splits)
    have "buffers_ok w0" "o_start_str_off w0 = 0" using r0(2) by (simp_all add: root_ok_def)
    note o = find_own_str_ok [OF \<open>buffers_ok w0\<close> assms(2) f(1)]
    have g: "obj_grows b (Obj (Some (Obj None w1)) (own b))" using base_grows [OF assms(1) Some, of w1] o by (simp add: b0)
    show ?thesis
    proof (cases "off = - ENOENT")
      case True
      then obtain w where "add_own_str (ok 0) True (own b) s = Some (r, w)" "b' = Obj (Some (Obj None w1)) w" using f(2) by auto
      from own [OF g this] show ?thesis .
    next
      case False
      have "o_start_str_off w1 = 0" using o \<open>o_start_str_off w0 = 0\<close> by (simp add: grows_def same_frame_def)
      then have "btf__str_by_offset (btf_view b') (of_int r) = Some (Some s) \<and> r \<le> S32_MAX" if "0 \<le> r"
        using o of_int_small [of r] that f(2) False r0(3) \<open>o_start_str_off w0 = 0\<close> by auto
      then show ?thesis using g f(2) False by auto
    qed
  qed
qed

lemma btf__add_str_total:
  assumes "obj_ok b" "obj_base b = None" "0 \<notin> set s"
  shows "\<exists>r b'. btf__add_str ok b s = Some (r, b')"
proof -
  have root: "buffers_ok (own b)" "o_start_str_off (own b) = 0" using assms(1,2) by (cases b; simp add: root_ok_def)+
  obtain err w where e: "btf_ensure_modifiable (ok 0) False (own b) = Some (err, w)" "grows (own b) w" "err = 0 \<longrightarrow> (\<exists>s. o_strs w = In_set s)"
    by (rule ensure_modifiable_ok [OF root(1), of "ok 0" False]) blast
  show ?thesis
  proof (cases "err = 0")
    case True
    then obtain st where st: "o_strs w = In_set st" using e(3) by blast
    obtain off st' where a: "strset__add_str (ok 0 S_str_mem) (ok 0 S_str_index) (ok 0 S_str_entry) st s = (off, st')" by fastforce
    have inv: "strset_inv st" using e(2) st by (simp add: grows_def buffers_ok_def)
    note p = add_str(1) [OF inv assms(3) a]
    have "off \<le> S32_MAX" if "0 \<le> off"
    proof -
      have "terminated (strs_data st') (strs_data_len st') (nat off)" "length (strs_data st') \<le> 2 ^ 31"
        using p that by (auto simp: add_post_def strset_inv_def)
      then have "nat off < 2 ^ 31" using terminated_less by fastforce
      then show ?thesis by simp
    qed
    moreover have "o_start_str_off w = 0" using e(2) root(2) by (simp add: grows_def same_frame_def)
    ultimately show ?thesis using e(1) True st a assms(2)
      by (auto simp: btf__add_str_def add_own_str_def Let_def from_start_def)
  qed (use e(1) assms(2) in \<open>auto simp: btf__add_str_def add_own_str_def\<close>)
qed

end
