(* ===== verification/Btf_Refine.thy ===== *)
theory Btf_Refine
  imports Btf_Strings
begin

text \<open>
  Construction of types refines appending to a list of types that carry their names as strings instead of offsets.
\<close>

section \<open>The information word\<close>

lemma bit_small_nat: "v < 2 ^ k \<Longrightarrow> k \<le> n \<Longrightarrow> \<not> bit (of_nat v :: u32) n"
proof -
  assume "v < 2 ^ k" "k \<le> n"
  then have "v < 2 ^ n" by (meson less_le_trans one_le_numeral power_increasing)
  then show ?thesis by (simp add: bit_of_nat_iff bit_nat_def)
qed

lemma btf_type_info_fields:
  assumes "v \<le> 65536" "k AND 0x1f = k"
  shows "drop_bit 24 (btf_type_info k v f) AND 0x1f = k" "unat (btf_type_info k v f AND 0xffff) = v mod 65536"
    "drop_bit 31 (btf_type_info k v f) \<noteq> 0 \<longleftrightarrow> f"
proof -
  have v: "\<not> bit (of_nat v :: u32) n" if "17 \<le> n" for n using bit_small_nat [of v 17 n] assms(1) that by simp
  have m: "(0x1f :: u32) = mask 5" "(0xffff :: u32) = mask 16" by (simp_all add: mask_eq_exp_minus_1)
  have k: "\<not> bit k n" if "5 \<le> n" for n
    using arg_cong [OF assms(2) [unfolded m], of "\<lambda>w. bit w n"] that by (auto simp: bit_and_iff bit_mask_iff)
  note unf = btf_type_info_def bit_simps
  show "drop_bit 24 (btf_type_info k v f) AND 0x1f = k"
    unfolding m
  proof (rule bit_word_eqI)
    fix n assume "n < LENGTH(32)"
    then show "bit (drop_bit 24 (btf_type_info k v f) AND mask 5) n \<longleftrightarrow> bit k n"
      using k [of n] v [of "24 + n"] by (cases "n < 5") (auto simp: unf)
  qed
  have "btf_type_info k v f AND mask 16 = take_bit 16 (of_nat v)"
    by (rule bit_word_eqI) (auto simp: unf)
  also have "\<dots> = of_nat (take_bit 16 v)" by (simp add: take_bit_of_nat)
  finally show "unat (btf_type_info k v f AND 0xffff) = v mod 65536"
    unfolding m by (simp add: take_bit_eq_mod unat_of_nat_u32 del: of_nat_mod)
  have "bit (drop_bit 31 (btf_type_info k v f)) 0 \<longleftrightarrow> f" using k v by (auto simp: unf)
  moreover have "\<not> bit (drop_bit 31 (btf_type_info k v f)) n" if "n \<noteq> 0" for n using that by (auto simp: unf)
  ultimately show "drop_bit 31 (btf_type_info k v f) \<noteq> 0 \<longleftrightarrow> f" by (metis bit_0_eq bit_eqI bot_apply bot_bool_def)
qed

lemma kind_info: "v \<le> 65536 \<Longrightarrow> k AND 0x1f = k \<Longrightarrow> btf_kind (t\<lparr>bt_info := btf_type_info k v f\<rparr>) = k"
  and vlen_info: "v \<le> 65536 \<Longrightarrow> k AND 0x1f = k \<Longrightarrow> btf_vlen (t\<lparr>bt_info := btf_type_info k v f\<rparr>) = v mod 65536"
  and kflag_info: "v \<le> 65536 \<Longrightarrow> k AND 0x1f = k \<Longrightarrow> btf_kflag (t\<lparr>bt_info := btf_type_info k v f\<rparr>) = f"
  by (simp_all add: btf_kind_def btf_vlen_def btf_kflag_def btf_type_info_fields)

lemma new_info:
  assumes "v \<le> 65536" "k AND 0x1f = k" "bt_info t = btf_type_info k v f"
  shows "btf_kind t = k" "btf_vlen t = v mod 65536" "btf_kflag t = f"
  using assms by (simp_all add: btf_kind_def btf_vlen_def btf_kflag_def btf_type_info_fields)

lemma kind_and [simp]: "btf_kind t AND 0x1f = btf_kind t"
  by (simp add: btf_kind_def and.assoc)

section \<open>Types with their names\<close>

datatype type_word = W u32 | N "u8 list"

record named_type =
  nt_name :: "u8 list"
  nt_kind :: u32
  nt_vlen :: nat
  nt_kflag :: bool
  nt_size_type :: u32
  nt_rest :: "type_word list"

text \<open>How many words an item takes, and which words are names.\<close>

definition item_words :: "u32 \<Rightarrow> nat" where
  "item_words k = (if k \<in> {BTF_KIND_STRUCT, BTF_KIND_UNION, BTF_KIND_DATASEC, BTF_KIND_ENUM64} then 3
     else if k \<in> {BTF_KIND_ENUM, BTF_KIND_FUNC_PROTO} then 2 else 0)"

definition is_name :: "u32 \<Rightarrow> nat \<Rightarrow> bool" where
  "is_name k i \<longleftrightarrow> k \<in> {BTF_KIND_STRUCT, BTF_KIND_UNION, BTF_KIND_ENUM64, BTF_KIND_ENUM, BTF_KIND_FUNC_PROTO} \<and> i mod item_words k = 0"

definition name_of :: "btf \<Rightarrow> u32 \<Rightarrow> u8 list" where
  "name_of b off = (case btf__str_by_offset b off of Some (Some s) \<Rightarrow> s | _ \<Rightarrow> [])"

definition named_rest :: "btf \<Rightarrow> u32 \<Rightarrow> u32 list \<Rightarrow> type_word list" where
  "named_rest b k ws = map (\<lambda>i. if is_name k i then N (name_of b (ws ! i)) else W (ws ! i)) [0..<length ws]"

definition named :: "btf \<Rightarrow> btf_type \<Rightarrow> named_type" where
  "named b t = \<lparr>nt_name = name_of b (bt_name_off t), nt_kind = btf_kind t, nt_vlen = btf_vlen t, nt_kflag = btf_kflag t,
     nt_size_type = bt_size_type t, nt_rest = named_rest b (btf_kind t) (bt_rest t)\<rparr>"

definition abs_types :: "btf_obj \<Rightarrow> named_type list" where
  "abs_types b = map (named (btf_view b)) (o_types (own b))"

section \<open>The invariant of a construction\<close>

text \<open>The words of a type are those of its kind, with the count of items wrapping around at \<open>2 ^ 16\<close>.\<close>

definition type_built :: "btf_type \<Rightarrow> bool" where
  "type_built t \<longleftrightarrow>
     (let k = item_words (btf_kind t)
      in if k = 0 then sized t else k dvd length (bt_rest t) \<and> btf_vlen t = (length (bt_rest t) div k) mod 65536)"

definition names_ok :: "btf \<Rightarrow> btf_type \<Rightarrow> bool" where
  "names_ok b t \<longleftrightarrow> valid_name b (bt_name_off t) \<and> (\<forall>i < length (bt_rest t). is_name (btf_kind t) i \<longrightarrow> valid_name b (bt_rest t ! i))"

definition types_bytes :: "btf_type list \<Rightarrow> nat" where
  "types_bytes ts = 4 * length (concat (map type_words ts))"

definition layout_ok :: "btf_own \<Rightarrow> bool" where
  "layout_ok w \<longleftrightarrow> bh_hdr_len (o_hdr w) = 24 \<and> bh_type_off (o_hdr w) = 0 \<and> bh_str_off (o_hdr w) = bh_type_len (o_hdr w) \<and>
     o_version w = 1 \<and> o_flags w = 0 \<and> o_hdr_rest w = [] \<and> unat (bh_type_len (o_hdr w)) = types_bytes (o_types w)"

definition cache_ok :: "bool \<Rightarrow> btf_own \<Rightarrow> bool" where
  "cache_ok le w \<longleftrightarrow> (o_raw w = None \<or> o_raw w = Some (btf_bytes le (o_types w) (str_sec w))) \<and>
     (o_raw_swapped w = None \<or> o_raw_swapped w = Some (btf_bytes (\<not> le) (o_types w) (str_sec w)))"

definition build_ok :: "bool \<Rightarrow> btf_obj \<Rightarrow> bool" where
  "build_ok le b \<longleftrightarrow> obj_ok b \<and> layout_ok (own b) \<and> cache_ok le (own b) \<and>
     (\<forall>t \<in> set (o_types (own b)). type_built t \<and> names_ok (btf_view b) t)"

lemma name_grows:
  assumes "obj_ok b" "obj_grows b b'" "valid_name (btf_view b) off"
  shows "valid_name (btf_view b') off \<and> name_of (btf_view b') off = name_of (btf_view b) off"
  using assms str_grows [OF assms(1,2)] by (auto simp: valid_name_def name_of_def simp del: view_Obj)

lemma named_grows:
  assumes "obj_ok b" "obj_grows b b'" "names_ok (btf_view b) t"
  shows "names_ok (btf_view b') t \<and> named (btf_view b') t = named (btf_view b) t"
  using assms name_grows [OF assms(1,2)] by (auto simp: names_ok_def named_def named_rest_def simp del: view_Obj)

lemma abs_types_grows:
  assumes "build_ok le b" "obj_grows b b'"
  shows "abs_types b' = abs_types b"
proof -
  have "o_types (own b') = o_types (own b)" using assms(2) by (simp add: obj_grows_def grows_def same_frame_def)
  moreover have "obj_ok b" "\<forall>t \<in> set (o_types (own b)). names_ok (btf_view b) t" using assms(1) unfolding build_ok_def by blast+
  ultimately show ?thesis unfolding abs_types_def using named_grows [OF \<open>obj_ok b\<close> assms(2)] by (metis map_cong)
qed

lemma build_ok_grows:
  assumes "build_ok le b" "obj_grows b b'"
  shows "build_ok le b'"
proof -
  have f: "same_frame (own b) (own b')" using assms(2) by (simp add: obj_grows_def grows_def)
  have "cache_ok le (own b')" using assms by (auto simp: build_ok_def obj_grows_def grows_def cache_ok_def)
  moreover have "layout_ok (own b')" using assms(1) f by (simp add: build_ok_def layout_ok_def same_frame_def)
  moreover have "o_types (own b') = o_types (own b)" using f by (simp add: same_frame_def)
  moreover have "obj_ok b'" "obj_ok b" using assms by (simp_all add: build_ok_def obj_grows_def)
  ultimately show ?thesis using assms(1) named_grows [OF \<open>obj_ok b\<close> assms(2)] unfolding build_ok_def by metis
qed

lemma obj_root_name:
  assumes "obj_ok b"
  shows "btf__str_by_offset (btf_view b) 0 = Some (Some [])"
proof -
  have root: "c_string (str_sec w) = Some [] \<and> o_start_str_off w = 0 \<and> 0 < length (str_sec w)" if "root_ok w" for w
    using that by (cases "str_sec w") (auto simp: root_ok_def c_string_def)
  obtain base w where b: "b = Obj base w" by (cases b)
  show ?thesis
  proof (cases base)
    case None
    then show ?thesis using assms root [of w] by (simp add: b)
  next
    case (Some b0)
    then show ?thesis using assms root [of "own b0"] by (simp add: b)
  qed
qed

section \<open>Reserving memory and the name\<close>

definition str_of :: "u8 list option \<Rightarrow> u8 list" where
  "str_of name = (case name of None \<Rightarrow> [] | Some s \<Rightarrow> s)"

lemma add_mem_cap_bound: "add_mem_cap ok c cur mx n = Some c' \<Longrightarrow> c \<le> mx \<Longrightarrow> cur + n \<le> c' \<and> c' \<le> mx"
  by (auto simp: add_mem_cap_def Let_def split: if_splits)

lemma add_type_mem_grows:
  assumes "buffers_ok w" "o_raw w = None" "o_raw_swapped w = None" "btf_add_type_mem ok w n = Some w'"
  shows "grows w w' \<and> unat (bh_type_len (o_hdr w)) + n \<le> UINT_MAX"
proof -
  obtain c where c: "add_mem_cap (ok S_type_mem) (o_types_cap w) (unat (bh_type_len (o_hdr w))) UINT_MAX n = Some c"
      "w' = w\<lparr>o_types_cap := c\<rparr>" using assms(4) by (auto simp: btf_add_type_mem_def)
  note le = add_mem_cap_bound [OF c(1)]
  have sec: "str_sec w' = str_sec w" by (simp add: c(2) str_sec_def btf_strs_data_def)
  then have "buffers_ok w'" using assms(1) le by (cases "o_strs w") (auto simp: buffers_ok_def c(2))
  then show ?thesis using sec assms le by (auto simp: grows_def same_frame_def c(2) buffers_ok_def)
qed

lemma reserve_ok:
  assumes "obj_ok b" "0 \<notin> set (str_of name)" "reserve ok b n name = Some (r, b')"
  shows "obj_grows b b' \<and>
    (0 \<le> r \<longrightarrow> o_raw (own b') = None \<and> o_raw_swapped (own b') = None \<and> unat (bh_type_len (o_hdr (own b'))) + n \<le> UINT_MAX \<and>
       btf__str_by_offset (btf_view b') (of_int r) = Some (Some (str_of name)) \<and> (str_is_empty name \<longrightarrow> r = 0))"
proof -
  obtain err w where e: "btf_ensure_modifiable (ok 0) (obj_base b \<noteq> None) (own b) = Some (err, w)" "grows (own b) w"
      "err = 0 \<longrightarrow> (\<exists>s. o_strs w = In_set s) \<and> o_raw w = None \<and> o_raw_swapped w = None"
    by (rule ensure_modifiable_ok [OF obj_ok_strs [OF assms(1)], of "ok 0" "obj_base b \<noteq> None"])
  note g = own_grows [OF assms(1) e(2)]
  show ?thesis
  proof (cases "err = 0 \<and> btf_add_type_mem (ok 0) w n \<noteq> None")
    case False
    then show ?thesis using e(1) assms(3) g by (auto simp: reserve_def simp del: view_Obj split: option.splits)
  next
    case True
    then obtain w' where w': "btf_add_type_mem (ok 0) w n = Some w'" by blast
    let ?b = "Obj (obj_base b) w'"
    have raw: "o_raw w = None" "o_raw_swapped w = None" "buffers_ok w" using e True by (auto simp: grows_def)
    note a = add_type_mem_grows [OF raw(3,1,2) w']
    have "obj_ok (Obj (obj_base b) w)" using g by (simp add: obj_grows_def)
    from obj_grows_trans [OF g own_grows [OF this]] a have g1: "obj_grows b ?b" by simp
    have w'eq: "o_raw w' = None" "o_raw_swapped w' = None" "bh_type_len (o_hdr w') = bh_type_len (o_hdr w)"
      using w' raw by (auto simp: btf_add_type_mem_def)
    show ?thesis
    proof (cases "str_is_empty name")
      case empty: True
      then have "r = 0" "b' = ?b" "str_of name = []"
        using e(1) True w' assms(3) by (auto simp: reserve_def str_is_empty_def str_of_def)
      then show ?thesis using g1 a w'eq obj_root_name [of ?b] by (simp add: obj_grows_def del: view_Obj)
    next
      case False
      then obtain s where s: "name = Some s" "s \<noteq> []" by (cases name) (auto simp: str_is_empty_def)
      have add: "btf__add_str ok ?b s = Some (r, b')" using e(1) True w' assms(3) s by (simp add: reserve_def)
      have "obj_ok ?b" "0 \<notin> set s" using g1 assms(2) s by (auto simp: obj_grows_def str_of_def)
      note p = btf__add_str_ok [OF this add]
      then have "same_frame w' (own b')" "own b' = w' \<or> o_raw (own b') = None \<and> o_raw_swapped (own b') = None"
        by (auto simp: obj_grows_def grows_def)
      then have "o_raw (own b') = None \<and> o_raw_swapped (own b') = None \<and> unat (bh_type_len (o_hdr (own b'))) + n \<le> UINT_MAX"
        using w'eq a by (auto simp: same_frame_def)
      then show ?thesis using obj_grows_trans [OF g1] p s False by (simp add: str_of_def del: view_Obj)
    qed
  qed
qed

lemma reserve_total:
  assumes "obj_ok b" "obj_base b = None" "0 \<notin> set (str_of name)"
  shows "\<exists>r b'. reserve ok b n name = Some (r, b')"
proof -
  obtain err w where e: "btf_ensure_modifiable (ok 0) (obj_base b \<noteq> None) (own b) = Some (err, w)" "grows (own b) w"
      "err = 0 \<longrightarrow> (\<exists>s. o_strs w = In_set s) \<and> o_raw w = None \<and> o_raw_swapped w = None"
    by (rule ensure_modifiable_ok [OF obj_ok_strs [OF assms(1)], of "ok 0" "obj_base b \<noteq> None"])
  have "obj_ok (Obj None w')" if "err = 0" "btf_add_type_mem (ok 0) w n = Some w'" for w'
  proof -
    have raw: "o_raw w = None" "o_raw_swapped w = None" "buffers_ok w" using e that by (auto simp: grows_def)
    have "obj_grows b (Obj None w)" using own_grows [OF assms(1) e(2)] assms(2) by simp
    then show ?thesis using own_grows [of "Obj None w" w'] add_type_mem_grows [OF raw(3,1,2) that(2)]
      by (simp add: obj_grows_def)
  qed
  then show ?thesis using e(1) assms(2,3) btf__add_str_total [of "Obj None _"]
    by (cases "btf_add_type_mem (ok 0) w n") (auto simp: reserve_def str_of_def split: option.split)
qed

section \<open>New and changed types\<close>

text \<open>Strings are read the same whatever the types are.\<close>

lemma str_same:
  assumes "obj_base b' = obj_base b" "o_start_str_off (own b') = o_start_str_off (own b)" "str_sec (own b') = str_sec (own b)"
  shows "btf__str_by_offset (btf_view b') off = btf__str_by_offset (btf_view b) off"
  using assms by (simp split: option.split)

definition retyped :: "btf_own \<Rightarrow> nat \<Rightarrow> btf_type list \<Rightarrow> btf_own \<Rightarrow> bool" where
  "retyped w n ts w' \<longleftrightarrow> (\<exists>c. w' = (add_lens n (w\<lparr>o_offs_cap := c\<rparr>))\<lparr>o_types := ts\<rparr>)"

lemma retype_ok:
  assumes "build_ok le b" "o_raw (own b) = None" "o_raw_swapped (own b) = None" "retyped (own b) n ts w'"
    "unat (bh_type_len (o_hdr (own b))) + n \<le> UINT_MAX" "types_bytes ts = types_bytes (o_types (own b)) + n"
    "\<forall>t \<in> set ts. type_built t \<and> names_ok (btf_view b) t"
  shows "build_ok le (Obj (obj_base b) w') \<and> abs_types (Obj (obj_base b) w') = map (named (btf_view b)) ts"
proof -
  obtain c where w': "w' = (add_lens n ((own b)\<lparr>o_offs_cap := c\<rparr>))\<lparr>o_types := ts\<rparr>" using assms(4) by (auto simp: retyped_def)
  let ?b = "Obj (obj_base b) w'"
  have sec: "str_sec w' = str_sec (own b)" by (simp add: w' add_lens_def str_sec_def btf_strs_data_def)
  have buf: "buffers_ok w' \<longleftrightarrow> buffers_ok (own b)"
    by (cases "o_strs (own b)") (simp_all add: buffers_ok_def sec, simp_all add: w' add_lens_def)
  have root: "root_ok w' \<longleftrightarrow> root_ok (own b)" by (simp add: root_ok_def buf sec) (simp add: w' add_lens_def)
  have "obj_ok b" using assms(1) by (simp add: build_ok_def del: view_Obj)
  then have ok: "obj_ok ?b"
    by (cases b; cases "obj_base b") (use buf root in \<open>auto simp: w' add_lens_def split: option.splits\<close>)
  have st: "btf__str_by_offset (btf_view ?b) off = btf__str_by_offset (btf_view b) off" for off
    by (rule str_same) (simp_all add: sec, simp add: w' add_lens_def)
  then have nm: "names_ok (btf_view ?b) = names_ok (btf_view b)" "named (btf_view ?b) = named (btf_view b)"
    by (simp_all add: fun_eq_iff names_ok_def valid_name_def named_def named_rest_def name_of_def del: view_Obj)
  have lay: "layout_ok (own b)" using assms(1) by (simp add: build_ok_def del: view_Obj)
  then have "unat (bh_type_len (o_hdr (own b)) + of_nat n) = types_bytes ts"
    using assms(5,6) by (simp add: layout_ok_def unat_word_ariths unat_of_nat take_bit_eq_mod)
  then have "layout_ok w'" using lay by (simp add: layout_ok_def w' add_lens_def)
  moreover have "cache_ok le w'" using assms(2,3) by (simp add: cache_ok_def w' add_lens_def)
  ultimately show ?thesis using ok assms(7) nm by (simp add: build_ok_def abs_types_def del: view_Obj) (simp add: w' add_lens_def)
qed

lemma types_bytes_simps [simp]: "types_bytes [] = 0" "types_bytes (ts @ us) = types_bytes ts + types_bytes us"
  "types_bytes (t # ts) = 12 + 4 * length (bt_rest t) + types_bytes ts"
  by (simp_all add: types_bytes_def type_words_def)

lemma name_off_update [simp]: "btf_kind (t\<lparr>bt_name_off := off\<rparr>) = btf_kind t" "btf_vlen (t\<lparr>bt_name_off := off\<rparr>) = btf_vlen t"
  "btf_kflag (t\<lparr>bt_name_off := off\<rparr>) = btf_kflag t" "btf_type_size (t\<lparr>bt_name_off := off\<rparr>) = btf_type_size t"
  "type_built (t\<lparr>bt_name_off := off\<rparr>) = type_built t"
  by (simp_all add: btf_kind_def btf_vlen_def btf_kflag_def btf_type_size_def type_built_def sized_def)

text \<open>A type with a name and no named items, as the specification has it.\<close>

definition spec_type :: "u8 list option \<Rightarrow> btf_type \<Rightarrow> named_type" where
  "spec_type name t = \<lparr>nt_name = str_of name, nt_kind = btf_kind t, nt_vlen = btf_vlen t, nt_kflag = btf_kflag t,
     nt_size_type = bt_size_type t, nt_rest = map W (bt_rest t)\<rparr>"

definition plain :: "btf_type \<Rightarrow> bool" where
  "plain t \<longleftrightarrow> bt_rest t = [] \<or> (\<forall>i. \<not> is_name (btf_kind t) i)"

lemma named_plain: "plain t \<Longrightarrow> name_of b (bt_name_off t) = str_of name \<Longrightarrow> named b t = spec_type name t"
  by (auto simp: plain_def named_def spec_type_def named_rest_def map_nth intro: nth_equalityI)

definition same_base :: "btf_obj \<Rightarrow> btf_obj \<Rightarrow> bool" where
  "same_base b b' \<longleftrightarrow> map_option btf_view (obj_base b') = map_option btf_view (obj_base b)"

lemma same_base_simps [simp]: "same_base b b" "same_base b (Obj (obj_base b) w)" "obj_base b = None \<Longrightarrow> same_base b b' \<longleftrightarrow> obj_base b' = None"
  by (auto simp: same_base_def)

lemma append_type_ok:
  assumes "build_ok le b" "0 \<notin> set (str_of name)" "append_type ok b n name mk = Some (r, b')"
    "\<And>off. (str_is_empty name \<Longrightarrow> off = 0) \<Longrightarrow> mk off = t\<lparr>bt_name_off := off\<rparr>"
    "type_built t" "plain t" "n = 12 + 4 * length (bt_rest t)"
  shows "build_ok le b' \<and> same_base b b' \<and> (if r < 0 then abs_types b' = abs_types b
    else r = int (btf__type_cnt (btf_view b)) \<and> abs_types b' = abs_types b @ [spec_type name t])"
proof -
  obtain r1 b1 where res: "reserve ok b n name = Some (r1, b1)" using assms(3) by (auto simp: append_type_def split: bind_splits)
  have "obj_ok b" using assms(1) by (simp add: build_ok_def del: view_Obj)
  note p = reserve_ok [OF this assms(2) res]
  have ok1: "build_ok le b1" "abs_types b1 = abs_types b" using build_ok_grows [OF assms(1)] abs_types_grows [OF assms(1)] p by blast+
  have base: "same_base b b1" using p by (simp add: obj_grows_def same_base_def)
  then have base': "same_base b (Obj (obj_base b1) w)" for w by (simp add: same_base_def)
  have same: "o_start_id (own b1) = o_start_id (own b)" "o_types (own b1) = o_types (own b)"
    using p by (auto simp: obj_grows_def grows_def same_frame_def)
  show ?thesis
  proof (cases "r1 < 0")
    case True
    then show ?thesis using assms(3) res ok1 base by (simp add: append_type_def)
  next
    case False
    let ?t = "t\<lparr>bt_name_off := of_int r1\<rparr>"
    have mk: "mk (of_int r1) = ?t" using p False by (intro assms(4)) simp
    obtain r' w' where c: "btf_commit_type (ok 0) (own b1) n ?t = (r', w')" by fastforce
    then have b': "r = r'" "b' = Obj (obj_base b1) w'" using assms(3) res False mk by (simp_all add: append_type_def)
    show ?thesis
    proof (cases "btf_add_type_offs_mem (ok 0) (own b1) 1")
      case None
      then have "r' = - ENOMEM" "w' = own b1" using c by (simp_all add: btf_commit_type_def btf_add_type_idx_entry_def)
      then show ?thesis using b' ok1 base by (cases b1) simp
    next
      case (Some w2)
      then obtain cap where "w2 = (own b1)\<lparr>o_offs_cap := cap\<rparr>" by (auto simp: btf_add_type_offs_mem_def)
      then have w': "r' = int (o_start_id (own b1)) + int (length (o_types (own b1)))" "retyped (own b1) n (o_types (own b1) @ [?t]) w'"
        using c Some by (auto simp: btf_commit_type_def btf_add_type_idx_entry_def retyped_def add_lens_def)
      have read: "btf__str_by_offset (btf_view b1) (of_int r1) = Some (Some (str_of name))" using p False by simp
      then have "valid_name (btf_view b1) (of_int r1)" "name_of (btf_view b1) (of_int r1) = str_of name"
        by (simp_all add: valid_name_def name_of_def del: view_Obj)
      then have "names_ok (btf_view b1) ?t" "named (btf_view b1) ?t = spec_type name t"
        using assms(6) named_plain [of ?t "btf_view b1" name] by (auto simp: names_ok_def plain_def spec_type_def simp del: view_Obj)
      moreover have "\<forall>t \<in> set (o_types (own b1)). type_built t \<and> names_ok (btf_view b1) t"
        using ok1(1) by (simp add: build_ok_def del: view_Obj)
      ultimately have "build_ok le b' \<and> abs_types b' = abs_types b1 @ [spec_type name t]"
        using retype_ok [OF ok1(1) _ _ w'(2)] p False assms(5,7) by (simp add: b'(2) abs_types_def del: view_Obj)
      then show ?thesis using b' w'(1) ok1(2) same base' by (simp add: btf__type_cnt_def)
    qed
  qed
qed

text \<open>Setting the information word afterwards is appending the type with it.\<close>

lemma start_id_ok: "obj_ok b \<Longrightarrow> 1 \<le> o_start_id (own b)"
  by (cases b) (auto simp: root_ok_def btf__type_cnt_def split: option.splits)

lemma append_type_set_info:
  assumes "obj_ok b" "0 \<notin> set (str_of name)"
  shows "do { (i, b') \<leftarrow> append_type ok b n name mk; Some (i, if i > 0 then set_last_info info b' else b') } =
    append_type ok b n name (\<lambda>off. (mk off)\<lparr>bt_info := info\<rparr>)"
proof (cases "reserve ok b n name")
  case (Some x)
  obtain r1 b1 where x: "x = (r1, b1)" by (cases x)
  have "obj_ok b1" using reserve_ok [OF assms] Some x by (simp add: obj_grows_def)
  note id = start_id_ok [OF this]
  show ?thesis
  proof (cases "r1 < 0")
    case False
    show ?thesis
    proof (cases "btf_add_type_offs_mem (ok 0) (own b1) 1")
      case None
      then show ?thesis using Some x False by (simp add: append_type_def btf_commit_type_def btf_add_type_idx_entry_def)
    next
      case (Some w2)
      then obtain cap where "w2 = (own b1)\<lparr>o_offs_cap := cap\<rparr>" by (auto simp: btf_add_type_offs_mem_def)
      then show ?thesis using Some \<open>reserve ok b n name = Some x\<close> x False id
        by (simp add: append_type_def btf_commit_type_def btf_add_type_idx_entry_def set_last_info_def add_lens_def)
    qed
  qed (use Some x in \<open>simp add: append_type_def\<close>)
qed (simp add: append_type_def)

section \<open>New items\<close>

lemma item_words_pos_kinds: "item_words k \<noteq> 0 \<longleftrightarrow> k \<in> {4, 5, 15, 19, 6, 13}"
  by (auto simp: item_words_def)

text \<open>What an item is, and what it does to the count and the flag of its type.\<close>

definition spec_item :: "type_word list \<Rightarrow> bool \<Rightarrow> named_type \<Rightarrow> named_type" where
  "spec_item ws flag t = t\<lparr>nt_vlen := (nt_vlen t + 1) mod 65536, nt_kflag := (nt_kflag t \<or> flag), nt_rest := nt_rest t @ ws\<rparr>"

definition spec_last :: "(named_type \<Rightarrow> named_type) \<Rightarrow> named_type list \<Rightarrow> named_type list" where
  "spec_last f ts = butlast ts @ [f (last ts)]"

lemma is_name_add: "item_words k dvd n \<Longrightarrow> is_name k (n + i) = is_name k i"
  unfolding is_name_def mod_eq_0_iff_dvd by (simp add: dvd_add_right_iff)

lemma is_name_sub: "item_words k dvd n \<Longrightarrow> \<not> i < n \<Longrightarrow> is_name k (i - n) = is_name k i"
  using is_name_add [of k n "i - n"] by simp

lemma named_rest_append:
  "item_words k dvd length ws \<Longrightarrow> named_rest b k (ws @ vs) = named_rest b k ws @ named_rest b k vs"
  by (rule nth_equalityI) (auto simp: named_rest_def nth_append is_name_sub)

lemma append_item_ok:
  assumes "build_ok le b" "0 \<notin> set (str_of name)" "append_item ok b name n item upd = Some (r, b')"
    and k: "o_types (own b) \<noteq> []" "item_words (btf_kind (btf_last_type b)) = k" "k \<noteq> 0" "n = 4 * k"
    and item: "\<And>off. length (item off) = k"
      "\<And>off i. i < k \<Longrightarrow> is_name (btf_kind (btf_last_type b)) i \<Longrightarrow> item off ! i = off"
      "\<And>c off. name_of c off = str_of name \<Longrightarrow> named_rest c (btf_kind (btf_last_type b)) (item off) = ws"
    and upd: "\<And>t. btf_kind (upd t) = btf_kind t \<and> btf_vlen (upd t) = (btf_vlen t + 1) mod 65536 \<and>
      btf_kflag (upd t) = (btf_kflag t \<or> flag) \<and> bt_rest (upd t) = bt_rest t \<and> bt_name_off (upd t) = bt_name_off t \<and>
      bt_size_type (upd t) = bt_size_type t"
  shows "build_ok le b' \<and> same_base b b' \<and> (if r < 0 then abs_types b' = abs_types b
    else r = 0 \<and> abs_types b' = spec_last (spec_item ws flag) (abs_types b))"
proof -
  obtain r1 b1 where res: "reserve ok b n name = Some (r1, b1)" using assms(3) by (auto simp: append_item_def split: bind_splits)
  have "obj_ok b" using assms(1) by (simp add: build_ok_def del: view_Obj)
  note p = reserve_ok [OF this assms(2) res]
  have ok1: "build_ok le b1" "abs_types b1 = abs_types b" using build_ok_grows [OF assms(1)] abs_types_grows [OF assms(1)] p by blast+
  have base: "same_base b b1" using p by (simp add: obj_grows_def same_base_def)
  then have base': "same_base b (Obj (obj_base b1) w)" for w by (simp add: same_base_def)
  have ts: "o_types (own b1) = o_types (own b)" using p by (auto simp: obj_grows_def grows_def same_frame_def)
  show ?thesis
  proof (cases "r1 < 0")
    case True
    then show ?thesis using assms(3) res ok1 base by (simp add: append_item_def)
  next
    case False
    let ?v = "btf_view b1" and ?off = "of_int r1 :: u32" and ?us = "butlast (o_types (own b1))" and ?t = "btf_last_type b"
    let ?t1 = "?t\<lparr>bt_rest := bt_rest ?t @ item ?off\<rparr>"
    have split: "o_types (own b1) = ?us @ [?t]" using k(1) ts by (simp add: btf_last_type_def)
    have all: "\<forall>t \<in> set (o_types (own b1)). type_built t \<and> names_ok ?v t" using ok1(1) by (simp add: build_ok_def del: view_Obj)
    then have t: "type_built ?t" "names_ok ?v ?t" by (metis in_set_conv_decomp split)+
    have kind: "btf_kind ?t1 = btf_kind ?t" "btf_vlen ?t1 = btf_vlen ?t" "btf_kflag ?t1 = btf_kflag ?t"
      by (simp_all add: btf_kind_def btf_vlen_def btf_kflag_def)
    have dvd: "k dvd length (bt_rest ?t)" "btf_vlen ?t = (length (bt_rest ?t) div k) mod 65536"
      using t(1) k by (simp_all add: type_built_def Let_def)
    have r0: "r = 0" "b' = Obj (obj_base b1) (add_lens n ((own b1)\<lparr>o_types := ?us @ [upd ?t1]\<rparr>))"
      using assms(3) res False ts by (simp_all add: append_item_def btf_last_type_def Let_def)
    then have re: "retyped (own b1) n (?us @ [upd ?t1]) (own b')"
      unfolding retyped_def by (intro exI [of _ "o_offs_cap (own b1)"]) (simp add: add_lens_def)
    have "(length (bt_rest ?t) + k) div k = length (bt_rest ?t) div k + 1" using k(3) div_add_self2 [of k] by simp
    then have "(btf_vlen ?t + 1) mod 65536 = (length (bt_rest ?t) + k) div k mod 65536" by (simp add: dvd(2) mod_simps)
    then have built: "type_built (upd ?t1)" using dvd(1) k upd [of ?t1] by (simp add: type_built_def Let_def kind item(1))
    have read: "btf__str_by_offset ?v ?off = Some (Some (str_of name))" using p False by simp
    then have nm: "valid_name ?v ?off" "name_of ?v ?off = str_of name" by (simp_all add: valid_name_def name_of_def del: view_Obj)
    have "valid_name ?v (item ?off ! i)" if "i < k" "is_name (btf_kind ?t) i" for i using item(2) [OF that] nm(1) by (simp del: view_Obj)
    moreover have "is_name (btf_kind ?t) i = is_name (btf_kind ?t) (i - length (bt_rest ?t))" if "\<not> i < length (bt_rest ?t)" for i
      using is_name_sub [of "btf_kind ?t"] dvd(1) k(2) that by simp
    ultimately have names: "names_ok ?v (upd ?t1)" using t(2) upd [of ?t1]
      by (auto simp: names_ok_def kind item(1) nth_append simp del: view_Obj)
    have named: "named ?v (upd ?t1) = spec_item ws flag (named ?v ?t)"
      using upd [of ?t1] item(3) [OF nm(2)] dvd(1) k(2)
      by (simp add: named_def spec_item_def kind named_rest_append del: view_Obj)
    have "types_bytes (?us @ [upd ?t1]) = types_bytes (o_types (own b1)) + n"
      using arg_cong [OF split, of types_bytes] upd [of ?t1] k(4) item(1) by simp
    moreover have "\<forall>t \<in> set (?us @ [upd ?t1]). type_built t \<and> names_ok ?v t"
      using all built names by (auto dest: in_set_butlastD)
    ultimately have "build_ok le b' \<and> abs_types b' = map (named ?v) (?us @ [upd ?t1])"
      using retype_ok [OF ok1(1) _ _ re] p False r0(2) by (simp del: view_Obj)
    moreover have "abs_types b1 = map (named ?v) ?us @ [named ?v ?t]" unfolding abs_types_def by (subst split) simp
    ultimately show ?thesis using named r0 ok1(2) base' by (simp add: spec_last_def del: view_Obj)
  qed
qed

end
