(* ===== verification/Btf_Api.thy ===== *)
theory Btf_Api
  imports Btf_Refine
begin

text \<open>Sequences of calls of the interface of \<open>btf.c\<close> that build type information, and what they build.\<close>

section \<open>Calls\<close>

type_synonym c_str = "u8 list option"

datatype btf_call =
    C_int c_str u64 u32 | C_float c_str u64 | C_ptr int | C_array int int u32 | C_struct c_str u32 | C_union c_str u32
  | C_field c_str int u32 u32 | C_enum c_str u32 | C_enum_value c_str int | C_enum64 c_str u32 bool | C_enum64_value c_str u64
  | C_fwd c_str btf_fwd_kind | C_typedef c_str int | C_volatile int | C_const int | C_restrict int | C_type_tag c_str int
  | C_type_attr c_str int | C_func c_str nat int | C_func_proto int | C_func_param c_str int | C_var c_str u32 int
  | C_datasec c_str u32 | C_var_info int u32 u32 | C_decl_tag c_str int int | C_decl_attr c_str int int
  | C_str "u8 list" | C_raw bool | C_endian btf_endianness

fun btf_do :: "bool \<Rightarrow> allocs \<Rightarrow> btf_call \<Rightarrow> btf_obj \<Rightarrow> (int \<times> btf_obj) option" where
  "btf_do le ok (C_int name n enc) b = btf__add_int ok b name n enc"
| "btf_do le ok (C_float name n) b = btf__add_float ok b name n"
| "btf_do le ok (C_ptr i) b = btf__add_ptr ok b i"
| "btf_do le ok (C_array i e n) b = btf__add_array ok b i e n"
| "btf_do le ok (C_struct name n) b = btf__add_struct ok b name n"
| "btf_do le ok (C_union name n) b = btf__add_union ok b name n"
| "btf_do le ok (C_field name i boff bsz) b = btf__add_field ok b name i boff bsz"
| "btf_do le ok (C_enum name n) b = btf__add_enum ok b name n"
| "btf_do le ok (C_enum_value name v) b = btf__add_enum_value ok b name v"
| "btf_do le ok (C_enum64 name n sgned) b = btf__add_enum64 ok b name n sgned"
| "btf_do le ok (C_enum64_value name v) b = btf__add_enum64_value ok b name v"
| "btf_do le ok (C_fwd name k) b = btf__add_fwd ok b name k"
| "btf_do le ok (C_typedef name i) b = btf__add_typedef ok b name i"
| "btf_do le ok (C_volatile i) b = btf__add_volatile ok b i"
| "btf_do le ok (C_const i) b = btf__add_const ok b i"
| "btf_do le ok (C_restrict i) b = btf__add_restrict ok b i"
| "btf_do le ok (C_type_tag name i) b = btf__add_type_tag ok b name i"
| "btf_do le ok (C_type_attr name i) b = btf__add_type_attr ok b name i"
| "btf_do le ok (C_func name linkage i) b = btf__add_func ok b name linkage i"
| "btf_do le ok (C_func_proto i) b = btf__add_func_proto ok b i"
| "btf_do le ok (C_func_param name i) b = btf__add_func_param ok b name i"
| "btf_do le ok (C_var name linkage i) b = btf__add_var ok b name linkage i"
| "btf_do le ok (C_datasec name n) b = btf__add_datasec ok b name n"
| "btf_do le ok (C_var_info i start n) b = btf__add_datasec_var_info ok b i start n"
| "btf_do le ok (C_decl_tag name i c) b = btf__add_decl_tag ok b name i c"
| "btf_do le ok (C_decl_attr name i c) b = btf__add_decl_attr ok b name i c"
| "btf_do le ok (C_str s) b = btf__add_str ok b s"
| "btf_do le ok (C_raw calloc_ok) b = map_option (\<lambda>(data, b). (if data = None then - ENOMEM else 0, b)) (btf__raw_data le calloc_ok b)"
| "btf_do le ok (C_endian e) b = Some (btf__set_endianness le b e)"

fun btf_run :: "bool \<Rightarrow> (allocs \<times> btf_call) list \<Rightarrow> btf_obj \<Rightarrow> (int list \<times> btf_obj) option" where
  "btf_run le [] b = Some ([], b)"
| "btf_run le ((ok, c) # cs) b = do { (r, b) \<leftarrow> btf_do le ok c b; (rs, b) \<leftarrow> btf_run le cs b; Some (r # rs, b) }"

section \<open>Specification\<close>

definition new_type :: "u32 \<Rightarrow> c_str \<Rightarrow> nat \<Rightarrow> bool \<Rightarrow> u32 \<Rightarrow> u32 list \<Rightarrow> named_type list \<Rightarrow> named_type list" where
  "new_type kind name vlen kflag n ws ts = ts @ [\<lparr>nt_name = str_of name, nt_kind = kind, nt_vlen = vlen, nt_kflag = kflag,
     nt_size_type = n, nt_rest = map W ws\<rparr>]"

text \<open>What a successful call does to the list of types.\<close>

fun spec_call :: "btf_call \<Rightarrow> named_type list \<Rightarrow> named_type list" where
  "spec_call (C_int name n enc) = new_type BTF_KIND_INT name 0 False (ucast n) [push_bit 24 enc OR ucast (n * 8)]"
| "spec_call (C_float name n) = new_type BTF_KIND_FLOAT name 0 False (ucast n) []"
| "spec_call (C_ptr i) = new_type BTF_KIND_PTR None 0 False (of_int i) []"
| "spec_call (C_array i e n) = new_type BTF_KIND_ARRAY None 0 False 0 [of_int e, of_int i, n]"
| "spec_call (C_struct name n) = new_type BTF_KIND_STRUCT name 0 False n []"
| "spec_call (C_union name n) = new_type BTF_KIND_UNION name 0 False n []"
| "spec_call (C_field name i boff bsz) =
     spec_last (spec_item [N (str_of name), W (of_int i), W (boff OR push_bit 24 bsz)] (bsz \<noteq> 0 \<or> boff mod 8 \<noteq> 0))"
| "spec_call (C_enum name n) = new_type BTF_KIND_ENUM name 0 False n []"
| "spec_call (C_enum_value name v) = spec_last (spec_item [N (str_of name), W (of_int v)] (v < 0))"
| "spec_call (C_enum64 name n sgned) = new_type BTF_KIND_ENUM64 name 0 sgned n []"
| "spec_call (C_enum64_value name v) = spec_last (spec_item [N (str_of name), W (ucast v), W (ucast (drop_bit 32 v))] False)"
| "spec_call (C_fwd name k) = (if k = BTF_FWD_ENUM then new_type BTF_KIND_ENUM name 0 False 4 []
     else new_type BTF_KIND_FWD name 0 (k = BTF_FWD_UNION) 0 [])"
| "spec_call (C_typedef name i) = new_type BTF_KIND_TYPEDEF name 0 False (of_int i) []"
| "spec_call (C_volatile i) = new_type BTF_KIND_VOLATILE None 0 False (of_int i) []"
| "spec_call (C_const i) = new_type BTF_KIND_CONST None 0 False (of_int i) []"
| "spec_call (C_restrict i) = new_type BTF_KIND_RESTRICT None 0 False (of_int i) []"
| "spec_call (C_type_tag name i) = new_type BTF_KIND_TYPE_TAG name 0 False (of_int i) []"
| "spec_call (C_type_attr name i) = new_type BTF_KIND_TYPE_TAG name 0 True (of_int i) []"
| "spec_call (C_func name linkage i) = new_type BTF_KIND_FUNC name linkage False (of_int i) []"
| "spec_call (C_func_proto i) = new_type BTF_KIND_FUNC_PROTO None 0 False (of_int i) []"
| "spec_call (C_func_param name i) = spec_last (spec_item [N (str_of name), W (of_int i)] False)"
| "spec_call (C_var name linkage i) = new_type BTF_KIND_VAR name 0 False (of_int i) [linkage]"
| "spec_call (C_datasec name n) = new_type BTF_KIND_DATASEC name 0 False n []"
| "spec_call (C_var_info i start n) = spec_last (spec_item [W (of_int i), W start, W n] False)"
| "spec_call (C_decl_tag name i c) = new_type BTF_KIND_DECL_TAG name 0 False (of_int i) [of_int c]"
| "spec_call (C_decl_attr name i c) = new_type BTF_KIND_DECL_TAG name 0 True (of_int i) [of_int c]"
| "spec_call (C_str s) = (\<lambda>ts. ts)"
| "spec_call (C_raw c) = (\<lambda>ts. ts)"
| "spec_call (C_endian e) = (\<lambda>ts. ts)"

text \<open>The string that a call passes.\<close>

fun call_name :: "btf_call \<Rightarrow> u8 list" where
  "call_name (C_int name _ _) = str_of name"
| "call_name (C_float name _) = str_of name"
| "call_name (C_struct name _) = str_of name"
| "call_name (C_union name _) = str_of name"
| "call_name (C_field name _ _ _) = str_of name"
| "call_name (C_enum name _) = str_of name"
| "call_name (C_enum_value name _) = str_of name"
| "call_name (C_enum64 name _ _) = str_of name"
| "call_name (C_enum64_value name _) = str_of name"
| "call_name (C_fwd name _) = str_of name"
| "call_name (C_typedef name _) = str_of name"
| "call_name (C_type_tag name _) = str_of name"
| "call_name (C_type_attr name _) = str_of name"
| "call_name (C_func name _ _) = str_of name"
| "call_name (C_func_param name _) = str_of name"
| "call_name (C_var name _ _) = str_of name"
| "call_name (C_datasec name _) = str_of name"
| "call_name (C_decl_tag name _ _) = str_of name"
| "call_name (C_decl_attr name _ _) = str_of name"
| "call_name (C_str s) = s"
| "call_name _ = []"

text \<open>The calls that return the identifier of a new type; the others return 0 or an offset.\<close>

fun adds_type :: "btf_call \<Rightarrow> bool" where
  "adds_type (C_field _ _ _ _) = False"
| "adds_type (C_enum_value _ _) = False"
| "adds_type (C_enum64_value _ _) = False"
| "adds_type (C_func_param _ _) = False"
| "adds_type (C_var_info _ _ _) = False"
| "adds_type (C_str _) = False"
| "adds_type (C_raw _) = False"
| "adds_type (C_endian _) = False"
| "adds_type _ = True"

definition call_refines :: "bool \<Rightarrow> btf_call \<Rightarrow> btf_obj \<Rightarrow> int \<Rightarrow> btf_obj \<Rightarrow> bool" where
  "call_refines le c b r b' \<longleftrightarrow> build_ok le b' \<and> same_base b b' \<and> abs_types b' = (if r < 0 then abs_types b else spec_call c (abs_types b)) \<and>
     (0 \<le> r \<and> adds_type c \<longrightarrow> r = int (btf__type_cnt (btf_view b)))"

lemma refines_error: "build_ok le b \<Longrightarrow> r < 0 \<Longrightarrow> call_refines le c b r b"
  by (simp add: call_refines_def del: view_Obj)

text \<open>Types as the functions write them.\<close>

lemma refines_new:
  assumes "build_ok le b" "0 \<notin> set (str_of name)" "append_type ok b n name mk = Some (r, b')"
    "\<And>off. (str_is_empty name \<Longrightarrow> off = 0) \<Longrightarrow> mk off = \<lparr>bt_name_off = off, bt_info = btf_type_info k v f, bt_size_type = st, bt_rest = ws\<rparr>"
    "n = 12 + 4 * length ws" "k AND 0x1f = k" "v \<le> 2"
    "(item_words k \<noteq> 0 \<and> ws = [] \<and> v = 0) \<or> k \<in> {1, 14, 17} \<and> length ws = 1 \<or> k = 3 \<and> length ws = 3 \<or> k \<in> {2, 7, 8, 9, 10, 11, 12, 16, 18} \<and> ws = []"
    "spec_call c = new_type k name v f st ws"
  shows "call_refines le c b r b'"
proof -
  let ?t = "\<lparr>bt_name_off = 0, bt_info = btf_type_info k v f, bt_size_type = st, bt_rest = ws\<rparr>"
  have f: "btf_kind ?t = k" "btf_vlen ?t = v" "btf_kflag ?t = f" using new_info [of v k ?t f] assms(6,7) by simp_all
  have "type_built ?t"
  proof (cases "item_words k = 0")
    case True
    then have "btf_type_size ?t = 12 + 4 * int (length ws)"
      unfolding btf_type_size_def f Let_def using assms(8) by (elim disjE conjE) auto
    then show ?thesis using True by (simp add: type_built_def f sized_def)
  next
    case False
    then have "ws = []" "v = 0" using assms(8) by (auto simp: item_words_def)
    then show ?thesis using False unfolding type_built_def f Let_def by simp
  qed
  moreover have "plain ?t" using assms(8) by (auto simp: plain_def is_name_def f)
  ultimately show ?thesis
    using append_type_ok [OF assms(1-3), of ?t] assms(4,5,9)
    by (auto simp: call_refines_def spec_type_def new_type_def f simp del: view_Obj)
qed

lemma ref_kind_new:
  assumes "build_ok le b" "0 \<notin> set (str_of name)" "btf_add_ref_kind ok b k name i f = Some (r, b')"
    "k \<in> {2, 7, 8, 9, 10, 11, 12, 16, 18}" "spec_call c = new_type k name 0 f (of_int i) []"
  shows "call_refines le c b r b'"
proof (cases "validate_type_id i = 0")
  case True
  then have "append_type ok b 12 name (\<lambda>off. \<lparr>bt_name_off = off, bt_info = btf_type_info k 0 f, bt_size_type = of_int i, bt_rest = []\<rparr>) = Some (r, b')"
    using assms(3) by (simp add: btf_add_ref_kind_def)
  then show ?thesis by (rule refines_new [OF assms(1,2)]) (use assms(4,5) in auto)
qed (use assms(1,3) in \<open>auto simp: btf_add_ref_kind_def simp: refines_error split: if_splits\<close>)

lemma ref_kind_info_new:
  assumes "build_ok le b" "0 \<notin> set (str_of name)" "k \<in> {7, 12}" "v \<le> 2" "spec_call c = new_type k name v f (of_int i) []"
    "do { (j, b') \<leftarrow> btf_add_ref_kind ok b k name i False; Some (j, if j > 0 then set_last_info (btf_type_info k v f) b' else b') } = Some (r, b')"
  shows "call_refines le c b r b'"
proof (cases "validate_type_id i = 0")
  case True
  have "obj_ok b" using assms(1) by (simp add: build_ok_def del: view_Obj)
  then have "append_type ok b 12 name (\<lambda>off. \<lparr>bt_name_off = off, bt_info = btf_type_info k v f, bt_size_type = of_int i, bt_rest = []\<rparr>) = Some (r, b')"
    using assms(6) True by (simp add: btf_add_ref_kind_def append_type_set_info assms(2))
  then show ?thesis by (rule refines_new [OF assms(1,2)]) (use assms(3-5) in auto)
qed (use assms(1,6) in \<open>auto simp: btf_add_ref_kind_def simp: refines_error split: if_splits\<close>)

lemma enum_new:
  assumes "build_ok le b" "0 \<notin> set (str_of name)" "btf_add_enum_common ok b name n f k = Some (r, b')" "k \<in> {6, 19}"
    "spec_call c = new_type k name 0 f n []"
  shows "call_refines le c b r b'"
proof (cases "n = 0 \<or> n AND (n - 1) \<noteq> 0 \<or> n > 8")
  case False
  then have "append_type ok b 12 name (\<lambda>off. \<lparr>bt_name_off = off, bt_info = btf_type_info k 0 f, bt_size_type = n, bt_rest = []\<rparr>) = Some (r, b')"
    using assms(3) by (simp add: btf_add_enum_common_def)
  then show ?thesis by (rule refines_new [OF assms(1,2)]) (use assms(4,5) in \<open>auto simp: item_words_def\<close>)
qed (use assms(1,3) in \<open>auto simp: btf_add_enum_common_def simp: refines_error split: if_splits\<close>)

lemma composite_new:
  assumes "build_ok le b" "0 \<notin> set (str_of name)" "btf_add_composite ok b k name n = Some (r, b')" "k \<in> {4, 5}"
    "spec_call c = new_type k name 0 False n []"
  shows "call_refines le c b r b'"
  using assms(3) unfolding btf_add_composite_def
  by (rule refines_new [OF assms(1,2)]) (use assms(4,5) in \<open>auto simp: item_words_def\<close>)

lemma decl_tag_new:
  assumes "build_ok le b" "0 \<notin> set (str_of name)" "btf_add_decl_tag ok b name i j f = Some (r, b')"
    "spec_call c = new_type BTF_KIND_DECL_TAG name 0 f (of_int i) [of_int j]"
  shows "call_refines le c b r b'"
proof (cases "str_is_empty name \<or> j < - 1 \<or> validate_type_id i \<noteq> 0")
  case False
  then have "append_type ok b 16 name (\<lambda>off. \<lparr>bt_name_off = off, bt_info = btf_type_info 17 0 f, bt_size_type = of_int i, bt_rest = [of_int j]\<rparr>) = Some (r, b')"
    using assms(3) by (simp add: btf_add_decl_tag_def)
  then show ?thesis by (rule refines_new [OF assms(1,2)]) (use assms(4) in auto)
qed (use assms(1,3) in \<open>auto simp: btf_add_decl_tag_def simp: refines_error split: if_splits\<close>)

text \<open>Items as the functions write them.\<close>

lemma refines_item:
  assumes "build_ok le b" "0 \<notin> set (str_of name)" "append_item ok b name n item upd = Some (r, b')"
    "o_types (own b) \<noteq> []" "n = 4 * item_words (btf_kind (btf_last_type b))" "\<And>off. length (item off) = item_words (btf_kind (btf_last_type b))"
    "btf_kind (btf_last_type b) \<in> {4, 5, 6, 13, 19} \<and> (\<forall>off. item off = off # us) \<and> ws = N (str_of name) # map W us \<or>
     btf_kind (btf_last_type b) = 15 \<and> (\<forall>off. item off = us) \<and> ws = map W us"
    "\<And>t. upd t = t\<lparr>bt_info := btf_type_info (btf_kind t) ((btf_vlen t + 1) mod 65536) (btf_kflag t \<or> flag)\<rparr> \<or>
      upd t = t\<lparr>bt_info := btf_type_info (btf_kind t) (btf_vlen t + 1) (btf_kflag t \<or> flag)\<rparr>"
    "spec_call c = spec_last (spec_item ws flag)" "\<not> adds_type c"
  shows "call_refines le c b r b'"
proof -
  let ?k = "btf_kind (btf_last_type b)"
  have w: "?k \<in> {4, 5, 15, 19, 6, 13}" using assms(7) by auto
  then have pos: "item_words ?k \<noteq> 0" by (auto simp: item_words_def)
  have len: "length us = item_words ?k - (if ?k = 15 then 0 else 1)" using assms(6) [of 0] assms(7) by auto
  have small: "is_name ?k i \<longleftrightarrow> ?k \<noteq> 15 \<and> i = 0" if "i < item_words ?k" for i
    using w that by (auto simp: is_name_def)
  have "build_ok le b' \<and> same_base b b' \<and> (if r < 0 then abs_types b' = abs_types b else r = 0 \<and> abs_types b' = spec_last (spec_item ws flag) (abs_types b))"
  proof (rule append_item_ok [OF assms(1-4) refl pos assms(5,6)])
    show "item off ! i = off" if "i < item_words ?k" "is_name ?k i" for off i using small [OF that(1)] that(2) assms(7) by auto
    show "named_rest d ?k (item off) = ws" if "name_of d off = str_of name" for d off
      using assms(7) small that assms(6) [of off] by (intro nth_equalityI) (auto simp: named_rest_def nth_Cons split: nat.splits)
    show "btf_kind (upd t) = btf_kind t \<and> btf_vlen (upd t) = (btf_vlen t + 1) mod 65536 \<and> btf_kflag (upd t) = (btf_kflag t \<or> flag) \<and>
      bt_rest (upd t) = bt_rest t \<and> bt_name_off (upd t) = bt_name_off t \<and> bt_size_type (upd t) = bt_size_type t" for t
    proof -
      have "btf_vlen t + 1 \<le> 65536" "(btf_vlen t + 1) mod 65536 \<le> 65536" using vlen_less [of t] by simp_all
      then show ?thesis using assms(8) [of t] by (elim disjE) (simp_all only: kind_info vlen_info kflag_info kind_and, simp_all)
    qed
  qed
  then show ?thesis using assms(9,10) by (auto simp: call_refines_def simp del: view_Obj)
qed

section \<open>Every call\<close>

lemma inc_vlen_upd: "btf_type_inc_vlen t = t\<lparr>bt_info := btf_type_info (btf_kind t) (btf_vlen t + 1) (btf_kflag t \<or> False)\<rparr>"
  by (simp add: btf_type_inc_vlen_def)

lemma enum_value_upd:
  "(let t = btf_type_inc_vlen t in if (v :: int) < 0 then t\<lparr>bt_info := btf_type_info (btf_kind t) (btf_vlen t) True\<rparr> else t) =
     t\<lparr>bt_info := btf_type_info (btf_kind t) (if v < 0 then (btf_vlen t + 1) mod 65536 else btf_vlen t + 1) (btf_kflag t \<or> v < 0)\<rparr>"
proof -
  have "btf_vlen t + 1 \<le> 65536" using vlen_less [of t] by simp
  then show ?thesis by (simp only: btf_type_inc_vlen_def Let_def kind_info vlen_info kind_and) simp
qed

lemma field_refines:
  assumes "build_ok le b" "0 \<notin> set (str_of name)" "btf__add_field ok b name i boff bsz = Some (r, b')"
  shows "call_refines le (C_field name i boff bsz) b r b'"
proof -
  let ?fl = "bsz \<noteq> 0 \<or> boff mod 8 \<noteq> 0" and ?k = "btf_kind (btf_last_type b)"
  have "r = - EINVAL \<and> b' = b \<or> o_types (own b) \<noteq> [] \<and> ?k \<in> {4, 5} \<and>
      append_item ok b name 12 (\<lambda>off. [off, of_int i, boff OR push_bit 24 bsz])
        (\<lambda>t. t\<lparr>bt_info := btf_type_info (btf_kind t) (btf_vlen t + 1) (?fl \<or> btf_kflag t)\<rparr>) = Some (r, b')"
    using assms(3) by (auto simp: btf__add_field_def btf_is_composite_def Let_def split: if_splits)
  then show ?thesis
  proof (elim disjE conjE)
    assume a: "o_types (own b) \<noteq> []" "?k \<in> {4, 5}" "append_item ok b name 12 (\<lambda>off. [off, of_int i, boff OR push_bit 24 bsz])
        (\<lambda>t. t\<lparr>bt_info := btf_type_info (btf_kind t) (btf_vlen t + 1) (?fl \<or> btf_kflag t)\<rparr>) = Some (r, b')"
    then have "item_words ?k = 3" by (auto simp: item_words_def)
    with a(2) show ?thesis
      by (intro refines_item [OF assms(1,2) a(3,1), where us = "[of_int i, boff OR push_bit 24 bsz]" and flag = ?fl])
        (auto simp: disj_commute)
  qed (use assms(1) in \<open>simp_all add: refines_error\<close>)
qed

lemma enum_value_refines:
  assumes "build_ok le b" "0 \<notin> set (str_of name)" "btf__add_enum_value ok b name v = Some (r, b')"
  shows "call_refines le (C_enum_value name v) b r b'"
proof -
  let ?upd = "\<lambda>t. t\<lparr>bt_info := btf_type_info (btf_kind t) (if v < 0 then (btf_vlen t + 1) mod 65536 else btf_vlen t + 1) (btf_kflag t \<or> v < 0)\<rparr>"
  let ?k = "btf_kind (btf_last_type b)"
  have "(r = - EINVAL \<or> r = - E2BIG) \<and> b' = b \<or> o_types (own b) \<noteq> [] \<and> ?k = 6 \<and>
      append_item ok b name 8 (\<lambda>off. [off, of_int v]) ?upd = Some (r, b')"
    using assms(3) by (auto simp: btf__add_enum_value_def enum_value_upd split: if_splits)
  then show ?thesis
  proof (elim disjE conjE)
    assume a: "o_types (own b) \<noteq> []" "?k = 6" "append_item ok b name 8 (\<lambda>off. [off, of_int v]) ?upd = Some (r, b')"
    then have "item_words ?k = 2" by (auto simp: item_words_def)
    with a(2) show ?thesis
      by (intro refines_item [OF assms(1,2) a(3,1), where us = "[of_int v]" and flag = "v < 0"]) auto
  qed (use assms(1) in \<open>simp_all add: refines_error\<close>)
qed

lemma plain_item_refines:
  assumes "build_ok le b" "0 \<notin> set (str_of name)"
    "r = - EINVAL \<and> b' = b \<or> o_types (own b) \<noteq> [] \<and> btf_kind (btf_last_type b) = k \<and> append_item ok b name n item btf_type_inc_vlen = Some (r, b')"
    "n = 4 * item_words k" "\<And>off. length (item off) = item_words k"
    "k \<in> {13, 19} \<and> (\<forall>off. item off = off # us) \<and> ws = N (str_of name) # map W us \<or> k = 15 \<and> (\<forall>off. item off = us) \<and> ws = map W us"
    "spec_call c = spec_last (spec_item ws False)" "\<not> adds_type c"
  shows "call_refines le c b r b'"
  using assms(3)
proof (elim disjE conjE)
  assume a: "o_types (own b) \<noteq> []" "btf_kind (btf_last_type b) = k" "append_item ok b name n item btf_type_inc_vlen = Some (r, b')"
  show ?thesis
    by (rule refines_item [OF assms(1,2) a(3,1), where us = us and flag = False and ws = ws])
      (use assms(4-8) a(2) in \<open>auto simp: inc_vlen_upd\<close>)
qed (use assms(1) in \<open>simp_all add: refines_error\<close>)

lemma str_of_None: "0 \<notin> set (str_of None)"
  by (simp add: str_of_def)

lemma int_refines:
  assumes "build_ok le b" "0 \<notin> set (str_of name)" "btf__add_int ok b name n enc = Some (r, b')"
  shows "call_refines le (C_int name n enc) b r b'"
proof (cases "r = - EINVAL \<and> b' = b")
  case False
  then have "append_type ok b 16 name (\<lambda>off. \<lparr>bt_name_off = off, bt_info = btf_type_info BTF_KIND_INT 0 False,
      bt_size_type = ucast n, bt_rest = [push_bit 24 enc OR ucast (n * 8)]\<rparr>) = Some (r, b')"
    using assms(3) by (auto simp: btf__add_int_def split: if_splits)
  then show ?thesis by (rule refines_new [OF assms(1,2)]) auto
qed (use assms(1) in \<open>simp add: refines_error\<close>)

lemma float_refines:
  assumes "build_ok le b" "0 \<notin> set (str_of name)" "btf__add_float ok b name n = Some (r, b')"
  shows "call_refines le (C_float name n) b r b'"
proof (cases "r = - EINVAL \<and> b' = b")
  case False
  then have "append_type ok b 12 name (\<lambda>off. \<lparr>bt_name_off = off, bt_info = btf_type_info BTF_KIND_FLOAT 0 False,
      bt_size_type = ucast n, bt_rest = []\<rparr>) = Some (r, b')"
    using assms(3) by (auto simp: btf__add_float_def split: if_splits)
  then show ?thesis by (rule refines_new [OF assms(1,2)]) auto
qed (use assms(1) in \<open>simp add: refines_error\<close>)

lemma array_refines:
  assumes "build_ok le b" "btf__add_array ok b i e n = Some (r, b')"
  shows "call_refines le (C_array i e n) b r b'"
proof (cases "r = - EINVAL \<and> b' = b")
  case False
  then have "append_type ok b 24 None (\<lambda>off. \<lparr>bt_name_off = 0, bt_info = btf_type_info BTF_KIND_ARRAY 0 False,
      bt_size_type = 0, bt_rest = [of_int e, of_int i, n]\<rparr>) = Some (r, b')"
    using assms(2) by (auto simp: btf__add_array_def split: if_splits)
  then show ?thesis by (rule refines_new [OF assms(1) str_of_None]) (auto simp: str_is_empty_def)
qed (use assms(1) in \<open>simp add: refines_error\<close>)

lemma func_proto_refines:
  assumes "build_ok le b" "btf__add_func_proto ok b i = Some (r, b')"
  shows "call_refines le (C_func_proto i) b r b'"
proof (cases "r = - EINVAL \<and> b' = b")
  case False
  then have "append_type ok b 12 None (\<lambda>off. \<lparr>bt_name_off = 0, bt_info = btf_type_info BTF_KIND_FUNC_PROTO 0 False,
      bt_size_type = of_int i, bt_rest = []\<rparr>) = Some (r, b')"
    using assms(2) by (auto simp: btf__add_func_proto_def split: if_splits)
  then show ?thesis by (rule refines_new [OF assms(1) str_of_None]) (auto simp: str_is_empty_def item_words_def)
qed (use assms(1) in \<open>simp add: refines_error\<close>)

lemma var_refines:
  assumes "build_ok le b" "0 \<notin> set (str_of name)" "btf__add_var ok b name l i = Some (r, b')"
  shows "call_refines le (C_var name l i) b r b'"
proof (cases "r = - EINVAL \<and> b' = b")
  case False
  then have "append_type ok b 16 name (\<lambda>off. \<lparr>bt_name_off = off, bt_info = btf_type_info BTF_KIND_VAR 0 False,
      bt_size_type = of_int i, bt_rest = [l]\<rparr>) = Some (r, b')"
    using assms(3) by (auto simp: btf__add_var_def split: if_splits)
  then show ?thesis by (rule refines_new [OF assms(1,2)]) auto
qed (use assms(1) in \<open>simp add: refines_error\<close>)

lemma datasec_refines:
  assumes "build_ok le b" "0 \<notin> set (str_of name)" "btf__add_datasec ok b name n = Some (r, b')"
  shows "call_refines le (C_datasec name n) b r b'"
proof (cases "r = - EINVAL \<and> b' = b")
  case False
  then have "append_type ok b 12 name (\<lambda>off. \<lparr>bt_name_off = off, bt_info = btf_type_info BTF_KIND_DATASEC 0 False,
      bt_size_type = n, bt_rest = []\<rparr>) = Some (r, b')"
    using assms(3) by (auto simp: btf__add_datasec_def split: if_splits)
  then show ?thesis by (rule refines_new [OF assms(1,2)]) (auto simp: item_words_def)
qed (use assms(1) in \<open>simp add: refines_error\<close>)

lemma fwd_refines:
  assumes "build_ok le b" "0 \<notin> set (str_of name)" "btf__add_fwd ok b name k = Some (r, b')"
  shows "call_refines le (C_fwd name k) b r b'"
proof -
  have swap: "(if (i :: int) \<le> 0 then x else y) = (if i > 0 then y else x)" for i and x y :: btf_obj by auto
  note add = assms(3) [unfolded btf__add_fwd_def btf__add_enum_def swap]
  consider "str_is_empty name \<or> k = FWD_OTHER" | "\<not> str_is_empty name" "k = BTF_FWD_STRUCT \<or> k = BTF_FWD_UNION" | "\<not> str_is_empty name" "k = BTF_FWD_ENUM"
    by (cases k) auto
  then show ?thesis
  proof cases
    case 1
    then have "r = - EINVAL" "b' = b" using add by (cases "str_is_empty name", simp, simp)+
    then show ?thesis using assms(1) by (simp add: refines_error)
  next
    case 2
    then have "do { (j, b') \<leftarrow> btf_add_ref_kind ok b 7 name 0 False;
        Some (j, if j > 0 then set_last_info (btf_type_info 7 0 (k = BTF_FWD_UNION)) b' else b') } = Some (r, b')"
      using add by (simp only: if_False if_True)
    then show ?thesis by (rule ref_kind_info_new [OF assms(1,2), rotated 3]) (use 2 in auto)
  next
    case 3
    then have "btf_add_enum_common ok b name 4 False 6 = Some (r, b')" using add by simp
    then show ?thesis by (rule enum_new [OF assms(1,2)]) (use 3 in auto)
  qed
qed

lemma func_refines:
  assumes "build_ok le b" "0 \<notin> set (str_of name)" "btf__add_func ok b name l i = Some (r, b')"
  shows "call_refines le (C_func name l i) b r b'"
proof (cases "str_is_empty name \<or> l > 2")
  case True
  then have "r = - EINVAL" "b' = b" using assms(3) by (cases "str_is_empty name", simp add: btf__add_func_def, simp add: btf__add_func_def)+
  then show ?thesis using assms(1) by (simp add: refines_error)
next
  case False
  then have "do { (j, b') \<leftarrow> btf_add_ref_kind ok b 12 name i False;
        Some (j, if j > 0 then set_last_info (btf_type_info 12 l False) b' else b') } = Some (r, b')"
    using assms(3) unfolding btf__add_func_def by (auto split: if_split_asm simp del: bind_eq_Some_conv)
  then show ?thesis by (rule ref_kind_info_new [OF assms(1,2), rotated 3]) (use False in auto)
qed

lemma items_refine:
  assumes "build_ok le b"
  shows "0 \<notin> set (str_of name) \<Longrightarrow> btf__add_enum64_value ok b name v = Some (r, b') \<Longrightarrow> call_refines le (C_enum64_value name v) b r b'"
    "0 \<notin> set (str_of name) \<Longrightarrow> btf__add_func_param ok b name i = Some (r, b') \<Longrightarrow> call_refines le (C_func_param name i) b r b'"
    "btf__add_datasec_var_info ok b i start n = Some (r, b') \<Longrightarrow> call_refines le (C_var_info i start n) b r b'"
proof -
  show "call_refines le (C_enum64_value name v) b r b'" if "0 \<notin> set (str_of name)" "btf__add_enum64_value ok b name v = Some (r, b')"
  proof (rule plain_item_refines [OF assms that(1), where k = 19 and n = 12 and us = "[ucast v, ucast (drop_bit 32 v)]"])
    show "r = - EINVAL \<and> b' = b \<or> o_types (own b) \<noteq> [] \<and> btf_kind (btf_last_type b) = 19 \<and>
        append_item ok b name 12 (\<lambda>off. [off, ucast v, ucast (drop_bit 32 v)]) btf_type_inc_vlen = Some (r, b')"
      using that(2) by (auto simp: btf__add_enum64_value_def split: if_splits)
  qed (auto simp: item_words_def)
  show "call_refines le (C_func_param name i) b r b'" if "0 \<notin> set (str_of name)" "btf__add_func_param ok b name i = Some (r, b')"
  proof (rule plain_item_refines [OF assms that(1), where k = 13 and n = 8 and us = "[of_int i]"])
    show "r = - EINVAL \<and> b' = b \<or> o_types (own b) \<noteq> [] \<and> btf_kind (btf_last_type b) = 13 \<and>
        append_item ok b name 8 (\<lambda>off. [off, of_int i]) btf_type_inc_vlen = Some (r, b')"
      using that(2) by (auto simp: btf__add_func_param_def split: if_splits)
  qed (auto simp: item_words_def)
  show "call_refines le (C_var_info i start n) b r b'" if "btf__add_datasec_var_info ok b i start n = Some (r, b')"
  proof (rule plain_item_refines [OF assms, where name = None and k = 15 and n = 12 and us = "[of_int i, start, n]"])
    show "r = - EINVAL \<and> b' = b \<or> o_types (own b) \<noteq> [] \<and> btf_kind (btf_last_type b) = 15 \<and>
        append_item ok b None 12 (\<lambda>_. [of_int i, start, n]) btf_type_inc_vlen = Some (r, b')"
      using that by (auto simp: btf__add_datasec_var_info_def split: if_splits)
  qed (auto simp: item_words_def str_of_def)
qed

section \<open>Writing out\<close>

lemma bytes32_swab: "bytes32 le (bpf_swab32 w) = bytes32 (\<not> le) w"
proof -
  have "ucast (bpf_swab32 w) = (ucast (drop_bit 24 w) :: u8)" "ucast (drop_bit 8 (bpf_swab32 w)) = (ucast (drop_bit 16 w) :: u8)"
    "ucast (drop_bit 16 (bpf_swab32 w)) = (ucast (drop_bit 8 w) :: u8)" "ucast (drop_bit 24 (bpf_swab32 w)) = (ucast w :: u8)"
    by (rule bit_word_eqI, auto simp: bit_bpf_swab32 bit_simps add.commute)+
  then show ?thesis by (simp add: bytes32_def)
qed

lemma bytes16_swab: "bytes16 le (bpf_swab16 w) = bytes16 (\<not> le) w"
proof -
  have "ucast (bpf_swab16 w) = (ucast (drop_bit 8 w) :: u8)" "ucast (drop_bit 8 (bpf_swab16 w)) = (ucast w :: u8)"
    by (rule bit_word_eqI, auto simp: bpf_swab16_def bit_simps)+
  then show ?thesis by (simp add: bytes16_def)
qed

lemma words_bytes_swab: "words_bytes le (map bpf_swab32 ws) = words_bytes (\<not> le) ws"
  by (induction ws) (simp_all add: bytes32_swab)

lemma built_known: "type_built t \<Longrightarrow> btf_bswap_type_rest t = (0, t\<lparr>bt_rest := map bpf_swab32 (bt_rest t)\<rparr>)"
proof (cases "item_words (btf_kind t) = 0")
  case True
  assume "type_built t"
  then have "sized t" using True by (simp add: type_built_def)
  then have "sized (t\<lparr>bt_rest := map bpf_swab32 (bt_rest t)\<rparr>)" by (simp add: sized_def)
  from bswap_rest_sized [OF this, of "bt_rest t"] show ?thesis by simp
qed (auto simp: btf_bswap_type_rest_def item_words_def Let_def split: if_splits)

lemma swap_types_built:
  "\<forall>t \<in> set ts. type_built t \<Longrightarrow> \<exists>us. swap_types ts = Some us \<and> words_bytes le (concat (map type_words us)) = words_bytes (\<not> le) (concat (map type_words ts))"
  by (induction ts) (auto simp: swap_types_def built_known btf_bswap_type_base_def type_words_def bytes32_swab words_bytes_swab split: if_split_asm)

lemma raw_data_bytes:
  assumes "layout_ok w" "buffers_ok w" "\<forall>t \<in> set (o_types w). type_built t" "cache_ok le w"
    "24 + types_bytes (o_types w) + length (str_sec w) \<le> UINT_MAX"
  shows "btf_get_raw_data le True w sw = Some (Some (btf_bytes (le \<noteq> sw) (o_types w) (str_sec w)))"
proof (cases "(if sw then o_raw_swapped w else o_raw w) = None")
  case True
  let ?n = "bh_type_len (o_hdr w)" and ?m = "bh_str_len (o_hdr w)"
  have n: "unat ?n = types_bytes (o_types w)" "bh_str_off (o_hdr w) = ?n" "bh_hdr_len (o_hdr w) = 24" "bh_type_off (o_hdr w) = 0"
      "o_version w = 1" "o_flags w = 0" "o_hdr_rest w = []" using assms(1) by (simp_all add: layout_ok_def)
  have m: "unat ?m = length (str_sec w)" using length_str_sec [OF assms(2)] by simp
  have ofn: "of_nat (types_bytes (o_types w)) = ?n" "of_nat (length (str_sec w)) = ?m"
    using n(1) m by (metis word_unat_eq_iff unat_of_nat_u32 unat_u32_less)+
  have bytes: "btf_bytes e (o_types w) (str_sec w) = bytes16 e BTF_MAGIC @ [1, 0] @ words_bytes e [24, 0, ?n, ?n, ?m] @
      words_bytes e (concat (map type_words (o_types w))) @ str_sec w" for e
    using ofn by (simp add: btf_bytes_def types_bytes_def Let_def)
  have len: "types_bytes (o_types w) = length (words_bytes e (concat (map type_words (o_types w))))" for e by (simp add: types_bytes_def)
  obtain us where us: "swap_types (o_types w) = Some us"
      "words_bytes le (concat (map type_words us)) = words_bytes (\<not> le) (concat (map type_words (o_types w)))"
    using swap_types_built [OF assms(3), of le] by blast
  show ?thesis
  proof (cases sw)
    case False
    then show ?thesis using True assms(5) len [of le]
      by (simp add: btf_get_raw_data_def n m hdr_bytes_def bytes Let_def del: length_words_bytes)
  next
    case sw: True
    have h: "bpf_swab32 24 = 0x18000000" "bpf_swab32 0 = 0" by (simp_all add: bpf_swab32_def)
    from sw show ?thesis using True assms(5) len [of "\<not> le"] us
      by (simp add: btf_get_raw_data_def n m hdr_bytes_def btf_bswap_hdr_def bytes bytes32_swab bytes16_swab Let_def del: length_words_bytes)
  qed
qed (use assms(4) in \<open>auto simp: btf_get_raw_data_def cache_ok_def Let_def\<close>)

lemma recache_ok:
  assumes "build_ok le b" "w' = (own b)\<lparr>o_raw := x, o_raw_swapped := y, o_swapped := z\<rparr>" "cache_ok le w'"
  shows "build_ok le (Obj (obj_base b) w') \<and> abs_types (Obj (obj_base b) w') = abs_types b"
proof -
  let ?b = "Obj (obj_base b) w'"
  have sec: "str_sec w' = str_sec (own b)" by (simp add: assms(2) str_sec_def btf_strs_data_def)
  have buf: "buffers_ok w' \<longleftrightarrow> buffers_ok (own b)"
    by (cases "o_strs (own b)") (simp_all add: buffers_ok_def sec, simp_all add: assms(2))
  have root: "root_ok w' \<longleftrightarrow> root_ok (own b)" by (simp add: root_ok_def buf sec) (simp add: assms(2))
  have "obj_ok b" "layout_ok (own b)" using assms(1) by (simp_all add: build_ok_def del: view_Obj)
  then have ok: "obj_ok ?b" "layout_ok w'"
    by (cases b; cases "obj_base b", use buf root in \<open>auto simp: assms(2) layout_ok_def split: option.splits\<close>)+
  have st: "btf__str_by_offset (btf_view ?b) off = btf__str_by_offset (btf_view b) off" for off
    by (rule str_same) (simp_all add: sec, simp add: assms(2))
  then have "names_ok (btf_view ?b) = names_ok (btf_view b)" "named (btf_view ?b) = named (btf_view b)"
    by (simp_all add: fun_eq_iff names_ok_def valid_name_def named_def named_rest_def name_of_def del: view_Obj)
  with ok assms(1,3) show ?thesis by (simp add: build_ok_def abs_types_def del: view_Obj) (simp add: assms(2))
qed

lemma get_raw_data_cases:
  assumes "build_ok le b" "btf_get_raw_data le c (own b) sw = Some d"
  shows "d = None \<or> d = Some (btf_bytes (le \<noteq> sw) (o_types (own b)) (str_sec (own b)))"
proof -
  have ok: "layout_ok (own b)" "buffers_ok (own b)" "\<forall>t \<in> set (o_types (own b)). type_built t" "cache_ok le (own b)"
    using assms(1) obj_ok_strs [of b] by (simp_all add: build_ok_def del: view_Obj)
  show ?thesis
  proof (cases "(if sw then o_raw_swapped (own b) else o_raw (own b)) = None \<and> c")
    case True
    then have "24 + types_bytes (o_types (own b)) + length (str_sec (own b)) \<le> UINT_MAX"
      using assms(2) ok(1) length_str_sec [OF ok(2)] by (auto simp: btf_get_raw_data_def layout_ok_def Let_def split: if_splits)
    from raw_data_bytes [OF ok this, of sw] True assms(2) show ?thesis by simp
  qed (use assms(2) ok(4) in \<open>auto simp: btf_get_raw_data_def cache_ok_def Let_def split: if_splits\<close>)
qed

lemma raw_refines:
  assumes "build_ok le b" "btf__raw_data le c b = Some (d, b')"
  shows "build_ok le b' \<and> same_base b b' \<and> abs_types b' = abs_types b"
proof -
  let ?sw = "o_swapped (own b)"
  have g: "btf_get_raw_data le c (own b) ?sw = Some d" and b': "b' = Obj (obj_base b) (if d = None then own b
      else if ?sw then (own b)\<lparr>o_raw_swapped := d\<rparr> else (own b)\<lparr>o_raw := d\<rparr>)"
    using assms(2) by (auto simp: btf__raw_data_def split: bind_splits)
  show ?thesis
  proof (cases "d = None")
    case True
    then show ?thesis using assms(1) b' by (cases b) simp
  next
    case False
    then have d: "d = Some (btf_bytes (le \<noteq> ?sw) (o_types (own b)) (str_sec (own b)))" using get_raw_data_cases [OF assms(1) g] by blast
    let ?w = "(own b)\<lparr>o_raw := if ?sw then o_raw (own b) else d, o_raw_swapped := if ?sw then d else o_raw_swapped (own b), o_swapped := ?sw\<rparr>"
    have "cache_ok le (own b)" using assms(1) by (simp add: build_ok_def del: view_Obj)
    moreover have "str_sec ?w = str_sec (own b)" by (simp add: str_sec_def btf_strs_data_def)
    ultimately have "cache_ok le ?w" using d by (cases "o_swapped (own b)") (auto simp: cache_ok_def)
    note rec = recache_ok [OF assms(1) refl this]
    have "b' = Obj (obj_base b) ?w" using b' False by (cases "own b") auto
    then show ?thesis using rec same_base_simps by (simp only:)
  qed
qed

lemma endian_refines:
  assumes "build_ok le b" "btf__set_endianness le b e = (r, b')"
  shows "build_ok le b' \<and> same_base b b' \<and> abs_types b' = abs_types b"
proof (cases "e = BTF_LITTLE_ENDIAN \<or> e = BTF_BIG_ENDIAN")
  case True
  define z where "z = ((\<not> le) \<noteq> (e = BTF_BIG_ENDIAN))"
  let ?w = "(own b)\<lparr>o_raw := o_raw (own b), o_raw_swapped := if z then o_raw_swapped (own b) else None, o_swapped := z\<rparr>"
  have "cache_ok le (own b)" using assms(1) by (simp add: build_ok_def del: view_Obj)
  moreover have "str_sec ?w = str_sec (own b)" by (simp add: str_sec_def btf_strs_data_def)
  ultimately have "cache_ok le ?w" by (simp add: cache_ok_def)
  note rec = recache_ok [OF assms(1) refl this]
  have "b' = Obj (obj_base b) ?w" using assms(2) True by (auto simp: btf__set_endianness_def z_def Let_def split: if_splits)
  then show ?thesis using rec same_base_simps by (simp only:)
qed (use assms in \<open>auto simp: btf__set_endianness_def\<close>)

lemma do_refines:
  assumes "build_ok le b" "0 \<notin> set (call_name c)" "btf_do le ok c b = Some (r, b')"
  shows "call_refines le c b r b'"
proof (cases c)
  case (C_str s)
  then have s: "btf__add_str ok b s = Some (r, b')" "0 \<notin> set s" using assms(2,3) by simp_all
  have "obj_ok b" using assms(1) by (simp add: build_ok_def del: view_Obj)
  then have "obj_grows b b'" using btf__add_str_ok s by blast
  then show ?thesis using C_str build_ok_grows [OF assms(1)] abs_types_grows [OF assms(1)] by (simp add: call_refines_def obj_grows_def same_base_def)
next
  case (C_raw x)
  then obtain d where "btf__raw_data le x b = Some (d, b')" using assms(3) by auto
  then show ?thesis using C_raw raw_refines [OF assms(1)] by (simp add: call_refines_def)
next
  case (C_endian x)
  then show ?thesis using assms(3) endian_refines [OF assms(1)] by (simp add: call_refines_def)
qed (use assms in \<open>auto simp: btf__add_ptr_def btf__add_struct_def btf__add_union_def btf__add_enum_def btf__add_enum64_def
    btf__add_typedef_def btf__add_volatile_def btf__add_const_def btf__add_restrict_def btf__add_type_tag_def btf__add_type_attr_def
    btf__add_decl_tag_def btf__add_decl_attr_def refines_error str_of_None split: if_splits
    intro: int_refines float_refines array_refines field_refines enum_value_refines fwd_refines func_refines func_proto_refines
      var_refines datasec_refines items_refine ref_kind_new ref_kind_new [OF _ str_of_None] enum_new composite_new decl_tag_new\<close>)

section \<open>Calls return\<close>

lemma append_total:
  assumes "obj_ok b" "obj_base b = None" "0 \<notin> set (str_of name)"
  shows "\<exists>r b'. append_type ok b n name mk = Some (r, b')" "\<exists>r b'. append_item ok b name n item upd = Some (r, b')"
  using reserve_total [OF assms, of ok n] by (auto simp: append_type_def append_item_def Let_def split: prod.splits)

lemma ref_kind_total:
  "obj_ok b \<Longrightarrow> obj_base b = None \<Longrightarrow> 0 \<notin> set (str_of name) \<Longrightarrow> \<exists>r b'. btf_add_ref_kind ok b k name i f = Some (r, b')"
  using append_total(1) [of b name ok 12] by (simp add: btf_add_ref_kind_def)

lemma bind_total: "\<exists>r b'. m = Some (r, b') \<Longrightarrow> \<exists>r b'. do { (i, b) \<leftarrow> m; Some (f i b, g i b) } = Some (r, b')"
  by auto

lemma do_total:
  assumes "obj_ok b" "obj_base b = None" "0 \<notin> set (call_name c)" "\<forall>x. c \<noteq> C_raw x"
  shows "\<exists>r b'. btf_do le ok c b = Some (r, b')"
proof -
  note new = append_total(1) [OF assms(1,2)] and item = append_total(2) [OF assms(1,2)] and ref = ref_kind_total [OF assms(1,2)]
  note none = str_of_None
  show ?thesis
  proof (cases c)
    case (C_str s)
    then show ?thesis using btf__add_str_total [OF assms(1,2)] assms(3) by simp
  next
    case (C_fwd name k)
    then show ?thesis using ref [of name ok 7 0 False] new [of name ok 12] assms(3)
      by (auto simp: btf__add_fwd_def btf__add_enum_def btf_add_enum_common_def)
  next
    case (C_func name l i)
    then show ?thesis using ref [of name ok 12 i False] assms(3) by (auto simp: btf__add_func_def)
  next
    case (C_endian e)
    then show ?thesis by (cases "btf__set_endianness le b e") simp
  next
    case (C_raw x)
    then show ?thesis using assms(4) by simp
  qed (use assms(3) new item ref new [OF none] item [OF none] ref [OF none] in
      \<open>simp_all add: btf__add_int_def btf__add_float_def btf__add_ptr_def btf__add_array_def btf__add_struct_def btf__add_union_def
        btf__add_field_def btf__add_enum_def btf__add_enum_value_def btf__add_enum64_def btf__add_enum64_value_def btf__add_typedef_def
        btf__add_volatile_def btf__add_const_def btf__add_restrict_def btf__add_type_tag_def btf__add_type_attr_def
        btf__add_func_proto_def btf__add_func_param_def btf__add_var_def btf__add_datasec_def btf__add_datasec_var_info_def
        btf__add_decl_tag_def btf__add_decl_attr_def btf_add_composite_def btf_add_enum_common_def btf_add_decl_tag_def Let_def\<close>)
qed

end
