(* ===== verification/Btf_Built.thy ===== *)
theory Btf_Built
  imports Btf_Api
begin

text \<open>What a sequence of calls has built, and that it can be parsed again.\<close>

section \<open>Sequences of calls\<close>

text \<open>The effect of a sequence of calls with the results \<open>rs\<close>: those that failed have none.\<close>

fun spec_build :: "btf_call list \<Rightarrow> int list \<Rightarrow> named_type list \<Rightarrow> named_type list" where
  "spec_build (c # cs) (r # rs) ts = spec_build cs rs (if r < 0 then ts else spec_call c ts)"
| "spec_build _ _ ts = ts"

lemma new_empty_ok:
  assumes "btf__new_empty le c r = Inr b"
  shows "build_ok le b \<and> abs_types b = [] \<and> obj_base b = None \<and> o_swapped (own b) = False \<and> o_types (own b) = []"
proof -
  have "unat (1 :: u32) = 1" by simp
  then show ?thesis using assms
    by (auto simp: btf__new_empty_def btf_new_empty_def build_ok_def abs_types_def layout_ok_def cache_ok_def root_ok_def buffers_ok_def
        str_sec_def btf_strs_data_def Let_def hdr_bytes_def btf_bytes_def types_bytes_def split: if_splits)
qed

lemma run_ok:
  assumes "build_ok le b" "\<forall>(ok, c) \<in> set cs. 0 \<notin> set (call_name c)" "btf_run le cs b = Some (rs, b')"
  shows "build_ok le b' \<and> same_base b b' \<and> abs_types b' = spec_build (map snd cs) rs (abs_types b) \<and> length rs = length cs"
  using assms
proof (induction cs arbitrary: b rs)
  case (Cons x cs)
  obtain ok c where x: "x = (ok, c)" by (cases x)
  obtain r b1 rs' where d: "btf_do le ok c b = Some (r, b1)" "btf_run le cs b1 = Some (rs', b')" "rs = r # rs'"
    using Cons.prems(3) x by (auto split: bind_splits)
  have "0 \<notin> set (call_name c)" using Cons.prems(2) x by simp
  note p = do_refines [OF Cons.prems(1) this d(1)]
  show ?case using Cons.IH [OF _ _ d(2)] p Cons.prems(2) by (simp add: x d(3) call_refines_def same_base_def del: view_Obj)
qed simp

lemma run_total:
  assumes "build_ok le b" "obj_base b = None" "\<forall>(ok, c) \<in> set cs. 0 \<notin> set (call_name c) \<and> (\<forall>x. c \<noteq> C_raw x)"
  shows "\<exists>rs b'. btf_run le cs b = Some (rs, b')"
  using assms
proof (induction cs arbitrary: b)
  case (Cons x cs)
  obtain ok c where x: "x = (ok, c)" by (cases x)
  have c: "0 \<notin> set (call_name c)" "\<forall>x. c \<noteq> C_raw x" using Cons.prems(3) x by auto
  have "obj_ok b" using Cons.prems(1) by (simp add: build_ok_def del: view_Obj)
  then obtain r b1 where d: "btf_do le ok c b = Some (r, b1)" using do_total [OF _ Cons.prems(2) c] by blast
  then have "build_ok le b1" "obj_base b1 = None" using do_refines [OF Cons.prems(1) c(1) d] Cons.prems(2) by (simp_all add: call_refines_def del: view_Obj)
  from Cons.IH [OF this] Cons.prems(3) show ?case using d by (auto simp: x)
qed simp

text \<open>Building type information from scratch, with any calls of the interface in any order and whatever
  allocations fail: every call returns (writing out apart, which has its own size limit), those that fail leave the types as they
  were, and the others do exactly what they say to a list of types that carry their names: an appended type has the next identifier,
  the name, size and words given, an appended item belongs to the last type and counts there, and no name or type
  added before changes.\<close>

theorem btf_build_refines:
  assumes "btf__new_empty le c_ok r_ok = Inr b0" "\<forall>(ok, c) \<in> set cs. 0 \<notin> set (call_name c)"
  shows "((\<forall>(ok, c) \<in> set cs. \<forall>x. c \<noteq> C_raw x) \<longrightarrow> btf_run le cs b0 \<noteq> None) \<and>
    (\<forall>rs b. btf_run le cs b0 = Some (rs, b) \<longrightarrow>
       build_ok le b \<and> length rs = length cs \<and> abs_types b = spec_build (map snd cs) rs [])"
proof -
  note e = new_empty_ok [OF assms(1)]
  have "btf_run le cs b0 \<noteq> None" if "\<forall>(ok, c) \<in> set cs. \<forall>x. c \<noteq> C_raw x"
  proof -
    have "\<forall>(ok, c) \<in> set cs. 0 \<notin> set (call_name c) \<and> (\<forall>x. c \<noteq> C_raw x)" using assms(2) that by fastforce
    then show ?thesis using run_total [of le b0 cs] e by force
  qed
  then show ?thesis using run_ok [OF conjunct1 [OF e] assms(2)] e by simp
qed

section \<open>Validation of what was built\<close>

lemma check_all_good: "\<forall>i \<in> set is. f i = Some 0 \<Longrightarrow> check_all f is = Some 0"
  by (induction "is") auto

lemma validate_str_good: "valid_name b off \<Longrightarrow> btf_validate_str b off = Some 0"
  by (auto simp: btf_validate_str_def valid_name_def)

lemma enum_names:
  "2 * i + 1 < length (bt_rest t) \<Longrightarrow> do { (name, v) \<leftarrow> btf_enum t i; btf_validate_str b name } = btf_validate_str b (bt_rest t ! (2 * i))"
  "3 * i + 2 < length (bt_rest t) \<Longrightarrow> do { (name, v) \<leftarrow> btf_enum64 t i; btf_validate_str b name } = btf_validate_str b (bt_rest t ! (3 * i))"
  by (simp_all add: btf_enum_def btf_enum64_def aget_def)

lemma validate_type_good:
  assumes "stacked b" "sized t" "type_good b t"
    "btf_kind t = BTF_KIND_FUNC \<longrightarrow> (\<exists>ft. btf__type_by_id b (bt_size_type t) = Some ft \<and> btf_kind ft = BTF_KIND_FUNC_PROTO)"
  shows "btf_validate_type b t = Some 0"
proof -
  note id = validate_id_ok [OF assms(1)] and len = sized_lengths [OF assms(2)] and str = validate_str_good [of b]
  have nm: "valid_name b (bt_name_off t)" using assms(3) by (simp add: type_good_def type_names_def Let_def)
  have known: "btf_type_size t \<noteq> - EINVAL" using assms(2) by (simp add: sized_def)
  note good = assms(3) [unfolded type_good_def checked_refs_def type_names_def Let_def list_all_iff]
  consider "btf_kind t \<in> {4, 5}" | "btf_kind t = 6" | "btf_kind t = 19" | "btf_kind t = 13" | "btf_kind t = 15" |
    "btf_kind t = 12" | "btf_kind t = 3" | "btf_kind t \<in> {1, 7, 16}" | "btf_kind t \<in> {2, 8, 9, 10, 11, 14, 17, 18}"
    using known by (auto simp: btf_type_size_def Let_def split: if_splits)
  then show ?thesis
  proof cases
    case 1
    then have "length (bt_rest t) = 3 * btf_vlen t" using len(3) by auto
    then have "check_all (\<lambda>i. do { m \<leftarrow> btf_members t i; err \<leftarrow> btf_validate_str b (bm_name_off m);
        Some (if err \<noteq> 0 then err else btf_validate_id b (bm_type m)) }) [0..<btf_vlen t] = Some 0"
      using good 1 by (intro check_all_good) (auto simp: members_at id str)
    then show ?thesis using 1 str [OF nm] by (auto simp: btf_validate_type_def Let_def)
  next
    case 2
    then have "length (bt_rest t) = 2 * btf_vlen t" using len(4) by auto
    then have "check_all (\<lambda>i. do { (name, v) \<leftarrow> btf_enum t i; btf_validate_str b name }) [0..<btf_vlen t] = Some 0"
      using good 2 by (intro check_all_good) (auto simp: enum_names str)
    then show ?thesis using 2 str [OF nm] by (auto simp: btf_validate_type_def Let_def)
  next
    case 3
    then have "length (bt_rest t) = 3 * btf_vlen t" using len(3) by auto
    then have "check_all (\<lambda>i. do { (name, v) \<leftarrow> btf_enum64 t i; btf_validate_str b name }) [0..<btf_vlen t] = Some 0"
      using good 3 by (intro check_all_good) (auto simp: enum_names str)
    then show ?thesis using 3 str [OF nm] by (auto simp: btf_validate_type_def Let_def)
  next
    case 4
    then have "length (bt_rest t) = 2 * btf_vlen t" using len(4) by auto
    then have "check_all (\<lambda>i. do { (name, ptype) \<leftarrow> btf_params t i; err \<leftarrow> btf_validate_str b name;
        Some (if err \<noteq> 0 then err else btf_validate_id b ptype) }) [0..<btf_vlen t] = Some 0"
      using good 4 by (intro check_all_good) (auto simp: items2_at id str)
    then show ?thesis using 4 str [OF nm] by (auto simp: btf_validate_type_def Let_def)
  next
    case 5
    then have "length (bt_rest t) = 3 * btf_vlen t" using len(3) by auto
    then have "check_all (\<lambda>i. do { vtype \<leftarrow> btf_var_secinfos t i; Some (btf_validate_id b vtype) }) [0..<btf_vlen t] = Some 0"
      using good 5 by (intro check_all_good) (auto simp: items3_at id str)
    then show ?thesis using 5 str [OF nm] by (auto simp: btf_validate_type_def Let_def)
  next
    case 6
    then show ?thesis using good assms(4) str [OF nm] by (auto simp: btf_validate_type_def Let_def id)
  next
    case 7
    then have "length (bt_rest t) = 3" using len(2) by auto
    then show ?thesis using good 7 str [OF nm] by (auto simp: btf_validate_type_def Let_def array_at id)
  next
    case 8
    then show ?thesis using str [OF nm] by (auto simp: btf_validate_type_def Let_def)
  next
    case 9
    then show ?thesis using good str [OF nm] by (auto simp: btf_validate_type_def Let_def id)
  qed
qed

section \<open>Round trip\<close>

text \<open>What the calls do not check: that a type has at most \<open>2 ^ 16 - 1\<close> items, that the identifiers given exist in the
  end, and that functions have a prototype.\<close>

definition fits :: "btf_type \<Rightarrow> bool" where
  "fits t \<longleftrightarrow> item_words (btf_kind t) = 0 \<or> length (bt_rest t) \<le> item_words (btf_kind t) * 0xffff"

definition refs_ok :: "btf \<Rightarrow> bool" where
  "refs_ok b \<longleftrightarrow> list_all (\<lambda>t. list_all (\<lambda>i. unat i < btf__type_cnt b) (checked_refs t) \<and>
     (btf_kind t = BTF_KIND_FUNC \<longrightarrow>
        (case btf__type_by_id b (bt_size_type t) of None \<Rightarrow> False | Some ft \<Rightarrow> btf_kind ft = BTF_KIND_FUNC_PROTO))) (btf_types b)"

lemma built_sized:
  assumes "type_built t" "fits t"
  shows "sized t"
proof (cases "item_words (btf_kind t) = 0")
  case False
  let ?k = "item_words (btf_kind t)"
  have b: "?k dvd length (bt_rest t)" "btf_vlen t = length (bt_rest t) div ?k mod 65536" "length (bt_rest t) \<le> ?k * 0xffff"
    using assms False by (simp_all add: type_built_def fits_def Let_def)
  then have "length (bt_rest t) div ?k \<le> 0xffff" using False by (metis div_le_mono nonzero_mult_div_cancel_left)
  then have "btf_vlen t * ?k = length (bt_rest t)" using b(1,2) by simp
  moreover have "btf_type_size t = 12 + 4 * int (btf_vlen t * ?k)"
    using False unfolding item_words_def btf_type_size_def Let_def by (auto split: if_splits)
  ultimately show ?thesis by (simp add: sized_def)
qed (use assms in \<open>simp add: type_built_def\<close>)

lemma built_good:
  assumes "sized t" "names_ok b t" "list_all (\<lambda>i. unat i < btf__type_cnt b) (checked_refs t)"
  shows "type_good b t"
proof -
  note len = sized_lengths [OF assms(1)]
  have nm: "valid_name b (bt_name_off t)" "\<And>i. i < length (bt_rest t) \<Longrightarrow> is_name (btf_kind t) i \<Longrightarrow> valid_name b (bt_rest t ! i)"
    using assms(2) by (simp_all add: names_ok_def)
  have "list_all (valid_name b) (type_names t)"
  proof (cases "btf_kind t \<in> {4, 5, 19}")
    case True
    then have "item_words (btf_kind t) = 3" "length (bt_rest t) = 3 * btf_vlen t" using len(3) by (auto simp: item_words_def)
    then show ?thesis using True nm(1) nm(2) [of "3 * _"] by (auto simp: type_names_def list_all_iff is_name_def)
  next
    case False
    show ?thesis
    proof (cases "btf_kind t \<in> {6, 13}")
      case True
      then have "item_words (btf_kind t) = 2" "length (bt_rest t) = 2 * btf_vlen t" using len(4) by (auto simp: item_words_def)
      then show ?thesis using True nm(1) nm(2) [of "2 * _"] by (auto simp: type_names_def list_all_iff is_name_def)
    qed (use False nm(1) in \<open>simp add: type_names_def Let_def\<close>)
  qed
  then show ?thesis using assms by (simp add: type_good_def)
qed

lemma types_bytes_length: "12 * length ts \<le> types_bytes ts"
  by (induction ts) simp_all

lemma built_stacked:
  assumes "build_ok le b" "obj_base b = None"
  shows "stacked (Btf None 1 0 (o_types (own b)) (str_sec (own b)) psz sw)"
proof -
  have "obj_ok b" "layout_ok (own b)" using assms(1) by (simp_all add: build_ok_def del: view_Obj)
  then have "root_ok (own b)" "types_bytes (o_types (own b)) < 2 ^ 32"
    using assms(2) unat_u32_less [of "bh_type_len (o_hdr (own b))"] by (cases b; simp add: layout_ok_def)+
  then show ?thesis using types_bytes_length [of "o_types (own b)"] by (auto simp: root_ok_def buffers_ok_def)
qed

lemma built_sane:
  assumes "build_ok le b" "obj_base b = None" "\<forall>t \<in> set (o_types (own b)). fits t" "refs_ok (btf_view b)"
  shows "btf_sanity_check (Btf None 1 0 (o_types (own b)) (str_sec (own b)) psz sw) = Some 0"
proof -
  let ?v = "Btf None 1 0 (o_types (own b)) (str_sec (own b)) psz sw"
  have st: "stacked ?v" by (rule built_stacked [OF assms(1,2)])
  have root: "o_start_id (own b) = 1" "o_start_str_off (own b) = 0" using assms(1,2) by (cases b; simp add: build_ok_def root_ok_def)+
  have same: "btf__str_by_offset ?v = btf__str_by_offset (btf_view b)" "btf__type_by_id ?v = btf__type_by_id (btf_view b)"
      "btf__type_cnt ?v = btf__type_cnt (btf_view b)"
    using assms(2) root by (simp_all add: fun_eq_iff btf__type_by_id_def btf__type_cnt_def)
  have all: "type_built t \<and> names_ok ?v t" if "t \<in> set (o_types (own b))" for t
    using assms(1) that same(1) by (simp add: build_ok_def names_ok_def valid_name_def del: view_Obj btf__str_by_offset.simps)
  have refs: "list_all (\<lambda>i. unat i < btf__type_cnt ?v) (checked_refs t)"
      "btf_kind t = 12 \<longrightarrow> (\<exists>ft. btf__type_by_id ?v (bt_size_type t) = Some ft \<and> btf_kind ft = 13)" if "t \<in> set (o_types (own b))" for t
    using assms(4) that unfolding refs_ok_def same list_all_iff by (auto split: option.splits)
  show ?thesis unfolding btf_sanity_check_def
  proof (rule check_all_good, rule ballI)
    fix i assume "i \<in> set [start_id ?v..<btf__type_cnt ?v]"
    then have i: "1 \<le> i" "i < btf__type_cnt ?v" by simp_all
    let ?t = "o_types (own b) ! (i - 1)"
    have t: "?t \<in> set (o_types (own b))" using i by (simp add: btf__type_cnt_def)
    have "btf_type_by_id ?v (of_nat i) = Some ?t" using own_type [OF st] i by simp
    moreover have "btf_validate_type ?v ?t = Some 0"
      using validate_type_good [OF st built_sized built_good] built_sized all [OF t] refs [OF t] assms(3) t by blast
    ultimately show "do { t \<leftarrow> btf_type_by_id ?v (of_nat i); btf_validate_type ?v t } = Some 0" by simp
  qed
qed

text \<open>Type information built from scratch by any calls, in which in the end no type has more than 65535 items, the
  identifiers exist and functions have prototypes, is written out, in either byte order and on any host, as bytes that a
  host of either byte order parses back into exactly the types and strings that were built.\<close>

theorem btf_built_roundtrip:
  assumes "btf__new_empty le c_ok r_ok = Inr b0" "\<forall>(ok, c) \<in> set cs. 0 \<notin> set (call_name c)" "btf_run le cs b0 = Some (rs, b)"
    "\<forall>t \<in> set (o_types (own b)). fits t" "refs_ok (btf_view b)" "24 + types_bytes (o_types (own b)) + length (str_sec (own b)) < 2 ^ 32"
  shows "\<exists>raw b'. btf__raw_data le True b = Some (Some raw, b') \<and>
    btf_new host True True (\<lambda>n. True) raw None =
      Some (Inr (Btf None 1 0 (o_types (own b)) (str_sec (own b)) 0 ((le \<noteq> o_swapped (own b)) \<noteq> host)))"
proof -
  note e = new_empty_ok [OF assms(1)]
  have b: "build_ok le b" "obj_base b = None" using run_ok [OF conjunct1 [OF e] assms(2,3)] e by simp_all
  have ok: "layout_ok (own b)" "buffers_ok (own b)" "\<forall>t \<in> set (o_types (own b)). type_built t" "cache_ok le (own b)" "root_ok (own b)"
    using b obj_ok_strs [of b] by (cases b; auto simp: build_ok_def simp del: view_Obj)+
  let ?e = "le \<noteq> o_swapped (own b)" and ?ts = "o_types (own b)" and ?strs = "str_sec (own b)"
  have raw: "btf_get_raw_data le True (own b) (o_swapped (own b)) = Some (Some (btf_bytes ?e ?ts ?strs))"
    using raw_data_bytes [OF ok(1-4)] assms(6) by simp
  have "length (btf_bytes ?e ?ts ?strs) = 24 + types_bytes ?ts + length ?strs" by (simp add: btf_bytes_def types_bytes_def Let_def)
  moreover have "list_all sized ?ts" using ok(3) assms(4) built_sized by (simp add: list_all_iff)
  moreover have "?strs \<noteq> []" "hd ?strs = 0" "last ?strs = 0" "length ?strs \<le> 2 ^ 31"
    using ok(2,5) length_str_sec [OF ok(2)] by (auto simp: root_ok_def buffers_ok_def)
  ultimately have "btf_new host True True (\<lambda>n. True) (btf_bytes ?e ?ts ?strs) None = Some (Inr (Btf None 1 0 ?ts ?strs 0 (?e \<noteq> host)))"
    using new_roundtrip [of ?ts ?strs ?e host] built_sane [OF b assms(4,5)] assms(6) by simp
  then show ?thesis using raw by (simp add: btf__raw_data_def)
qed

end
