(* ===== verification/Btf_Fields.thy ===== *)
theory Btf_Fields
  imports Btf_Built
begin

text \<open>Structures built field by field read back as they were given.\<close>

type_synonym field = "c_str \<times> int \<times> u32 \<times> u32"

fun field_call :: "field \<Rightarrow> btf_call" where
  "field_call (name, i, boff, bsz) = C_field name i boff bsz"

fun field_item :: "field \<Rightarrow> type_word list" where
  "field_item (name, i, boff, bsz) = [N (str_of name), W (of_int i), W (boff OR push_bit 24 bsz)]"

fun is_bitfield :: "field \<Rightarrow> bool" where
  "is_bitfield (name, i, boff, bsz) \<longleftrightarrow> bsz \<noteq> 0 \<or> boff mod 8 \<noteq> 0"

text \<open>What \<open>btf__add_field\<close> accepts.\<close>

fun field_ok :: "field \<Rightarrow> bool" where
  "field_ok (name, i, boff, bsz) \<longleftrightarrow> bsz \<le> 255 \<and> (is_bitfield (name, i, boff, bsz) \<longrightarrow> bsz \<noteq> 0 \<and> boff \<le> 0xffffff)"

lemma field_guard: "btf__add_field ok b name i boff bsz = Some (r, b') \<Longrightarrow> 0 \<le> r \<Longrightarrow> field_ok (name, i, boff, bsz)"
proof -
  assume a: "btf__add_field ok b name i boff bsz = Some (r, b')" "0 \<le> r"
  define p where "p \<longleftrightarrow> bsz \<noteq> 0 \<or> boff mod 8 \<noteq> 0"
  have "\<not> (p \<and> (bsz = 0 \<or> bsz > 255 \<or> boff > 0xffffff))"
    using a unfolding btf__add_field_def Let_def p_def [symmetric] by (auto split: if_split_asm)
  then show ?thesis unfolding field_ok.simps is_bitfield.simps p_def [symmetric] by (cases "bsz = 0") (auto simp: p_def not_less)
qed

lemma run_fields_ok:
  "btf_run le (zip oks (map field_call fs)) b = Some (rs, b') \<Longrightarrow> length oks = length fs \<Longrightarrow> \<forall>r \<in> set rs. 0 \<le> r \<Longrightarrow> list_all field_ok fs"
proof (induction fs arbitrary: oks b rs)
  case (Cons f fs)
  obtain name i boff bsz where f: "f = (name, i, boff, bsz)" by (cases f)
  obtain ok oks' where oks: "oks = ok # oks'" "length oks' = length fs" using Cons.prems(2) by (cases oks) auto
  obtain r b1 rs' where d: "btf__add_field ok b name i boff bsz = Some (r, b1)" "btf_run le (zip oks' (map field_call fs)) b1 = Some (rs', b')" "rs = r # rs'"
    using Cons.prems(1) by (auto simp: oks f split: bind_splits)
  show ?case using Cons.IH [OF d(2) oks(2)] field_guard [OF d(1)] Cons.prems(3) by (simp add: d(3) f del: field_ok.simps)
qed simp

lemma spec_build_fields:
  "length rs = length fs \<Longrightarrow> \<forall>r \<in> set rs. 0 \<le> r \<Longrightarrow>
     spec_build (map field_call fs) rs (ts @ [t]) =
       ts @ [t\<lparr>nt_vlen := (nt_vlen t + length fs) mod 65536, nt_kflag := (nt_kflag t \<or> list_ex is_bitfield fs),
               nt_rest := nt_rest t @ concat (map field_item fs)\<rparr>]" if "nt_vlen t < 65536"
  using that
proof (induction fs arbitrary: rs t)
  case (Cons f fs)
  obtain r rs' where rs: "rs = r # rs'" "length rs' = length fs" using Cons.prems(1) by (cases rs) auto
  obtain name i boff bsz where f: "f = (name, i, boff, bsz)" by (cases f)
  let ?t = "spec_item (field_item f) (is_bitfield f) t"
  have "spec_build (map field_call (f # fs)) rs (ts @ [t]) = spec_build (map field_call fs) rs' (ts @ [?t])"
    using Cons.prems(2) by (simp add: rs f spec_last_def)
  also have "\<dots> = ts @ [?t\<lparr>nt_vlen := (nt_vlen ?t + length fs) mod 65536, nt_kflag := (nt_kflag ?t \<or> list_ex is_bitfield fs),
      nt_rest := nt_rest ?t @ concat (map field_item fs)\<rparr>]"
    using Cons.IH [of rs' ?t] rs Cons.prems(2) by (simp add: spec_item_def)
  also have "(nt_vlen ?t + length fs) mod 65536 = (nt_vlen t + length (f # fs)) mod 65536"
    by (simp add: spec_item_def mod_simps)
  finally show ?case by (simp add: spec_item_def disj_assoc)
qed simp

lemma nth_items: "j < length fs \<Longrightarrow> d < 3 \<Longrightarrow> concat (map field_item fs) ! (3 * j + d) = field_item (fs ! j) ! d"
proof (induction fs arbitrary: j)
  case (Cons f fs)
  have len: "length (field_item f) = 3" by (cases f) simp
  show ?case
  proof (cases j)
    case (Suc j')
    then show ?thesis using Cons len by (simp add: nth_append)
  qed (use Cons.prems len in \<open>simp add: nth_append\<close>)
qed simp

lemma member_read:
  assumes "btf_kind t \<in> {4, 5}" "named_rest b (btf_kind t) (bt_rest t) = concat (map field_item fs)" "j < length fs" "fs ! j = (name, i, boff, bsz)"
  shows "\<exists>off. btf_members t j = Some \<lparr>bm_name_off = off, bm_type = of_int i, bm_offset = boff OR push_bit 24 bsz\<rparr> \<and> name_of b off = str_of name"
proof -
  have "length (field_item f) = 3" for f by (cases f) simp
  then have "length (concat (map field_item fs)) = 3 * length fs" by (induction fs) simp_all
  then have len: "length (bt_rest t) = 3 * length fs" using arg_cong [OF assms(2), of length] by (simp add: named_rest_def)
  have w: "item_words (btf_kind t) = 3" using assms(1) by (auto simp: item_words_def)
  have at: "named_rest b (btf_kind t) (bt_rest t) ! (3 * j + d) = field_item (name, i, boff, bsz) ! d" if "d < 3" for d
    using nth_items [OF assms(3) that] assms(2,4) by simp
  have "is_name (btf_kind t) (3 * j) \<and> \<not> is_name (btf_kind t) (3 * j + 1) \<and> \<not> is_name (btf_kind t) (3 * j + 2)"
  proof -
    have "3 * j mod 3 = 0" "(3 * j + 1) mod 3 = 1" "(3 * j + 2) mod 3 = 2" by presburger+
    then show ?thesis using assms(1) unfolding is_name_def w by auto
  qed
  then have "name_of b (bt_rest t ! (3 * j)) = str_of name" "bt_rest t ! (3 * j + 1) = of_int i" "bt_rest t ! (3 * j + 2) = boff OR push_bit 24 bsz"
    using at [of 0] at [of 1] at [of 2] len assms(3) by (simp_all add: named_rest_def)
  then show ?thesis using len assms(3) by (simp add: members_at)
qed

lemma field_offset_bits:
  assumes "bsz \<le> (255 :: u32)" "boff \<le> (0xffffff :: u32)"
  shows "(boff OR push_bit 24 bsz) AND 0xffffff = boff" "drop_bit 24 (boff OR push_bit 24 bsz) = bsz"
proof -
  have "unat boff < 2 ^ 24" "unat bsz < 2 ^ 8" using assms by (auto simp: word_le_nat_alt)
  then have "unat (take_bit 24 boff) = unat boff" "unat (take_bit 8 bsz) = unat bsz"
    unfolding unsigned_take_bit_eq by (simp_all only: take_bit_eq_mod mod_less)
  then have b: "take_bit 24 boff = boff" "take_bit 8 bsz = bsz" by (simp_all only: word_unat_eq_iff)
  have bit: "bit boff n \<Longrightarrow> n < 24" "bit bsz n \<Longrightarrow> n < 8" for n
    using arg_cong [OF b(1), of "\<lambda>w. bit w n"] arg_cong [OF b(2), of "\<lambda>w. bit w n"] by (auto simp: bit_simps)
  have m: "(0xffffff :: u32) = mask 24" by (simp add: mask_eq_exp_minus_1)
  show "(boff OR push_bit 24 bsz) AND 0xffffff = boff" unfolding m by (rule bit_word_eqI) (use bit in \<open>auto simp: bit_simps\<close>)
  show "drop_bit 24 (boff OR push_bit 24 bsz) = bsz"
  proof (rule bit_word_eqI)
    fix n assume "n < LENGTH(32)"
    then show "bit (drop_bit 24 (boff OR push_bit 24 bsz)) n = bit bsz n" using bit(1) [of "24 + n"] bit(2) [of n] by (auto simp: bit_simps)
  qed
qed

text \<open>A structure that is added with its fields one after the other, at most 65535 of them, has in the end the name and the size given
  and as many members, and each member reads back with its name, type, bit offset and bit-field size,
  provided that no offset needs more than 24 bits or that there are no bit fields.\<close>

theorem btf_struct_fields:
  assumes "build_ok le b" "0 \<notin> set (str_of sname)" "\<forall>f \<in> set fs. 0 \<notin> set (str_of (fst f))" "length oks = length fs"
    "btf_run le ((ok, C_struct sname n) # zip oks (map field_call fs)) b = Some (rs, b')" "\<forall>r \<in> set rs. 0 \<le> r"
    "length fs \<le> 65535" "list_all (\<lambda>(name, i, boff, bsz). boff \<le> 0xffffff) fs \<or> \<not> list_ex is_bitfield fs"
  shows "\<exists>t. o_types (own b') \<noteq> [] \<and> last (o_types (own b')) = t \<and> btf_kind t = BTF_KIND_STRUCT \<and>
    name_of (btf_view b') (bt_name_off t) = str_of sname \<and> bt_size_type t = n \<and> btf_vlen t = length fs \<and>
    (\<forall>j < length fs. case fs ! j of (name, i, boff, bsz) \<Rightarrow>
       \<exists>m. btf_members t j = Some m \<and> name_of (btf_view b') (bm_name_off m) = str_of name \<and> bm_type m = of_int i \<and>
         btf_member_bit_offset t j = Some boff \<and> btf_member_bitfield_size t j = Some bsz)"
proof -
  let ?cs = "(ok, C_struct sname n) # zip oks (map field_call fs)"
  have snd: "map snd ?cs = C_struct sname n # map field_call fs" using assms(4) by simp
  have "\<forall>f \<in> set fs. 0 \<notin> set (call_name (field_call f))"
    using assms(3) by (auto split: prod.splits)
  then have "\<forall>(ok, c) \<in> set ?cs. 0 \<notin> set (call_name c)"
    using assms(2) by (fastforce dest: set_zip_rightD)
  note run = run_ok [OF assms(1) this assms(5)]
  obtain r rs' b1 where rs: "rs = r # rs'" "btf_run le (zip oks (map field_call fs)) b1 = Some (rs', b')" using assms(5) by (auto split: bind_splits)
  have len: "length rs' = length fs" using run rs(1) assms(4) by simp
  have ok: "list_all field_ok fs" using run_fields_ok [OF rs(2) assms(4)] assms(6) rs(1) by simp
  let ?nt = "\<lparr>nt_name = str_of sname, nt_kind = 4, nt_vlen = length fs, nt_kflag = list_ex is_bitfield fs, nt_size_type = n,
      nt_rest = concat (map field_item fs)\<rparr>"
  have "abs_types b' = spec_build (C_struct sname n # map field_call fs) (r # rs') (abs_types b)"
    using run snd rs(1) by (simp del: view_Obj)
  then have abs: "abs_types b' = abs_types b @ [?nt]"
    using spec_build_fields [of _ rs' fs] len assms(6,7) rs(1) by (simp add: new_type_def del: view_Obj)
  then have ne: "o_types (own b') \<noteq> []" by (auto simp: abs_types_def)
  let ?t = "last (o_types (own b'))" and ?v = "btf_view b'"
  have "named ?v ?t = ?nt" using arg_cong [OF abs, of last] ne by (simp add: abs_types_def last_map del: view_Obj)
  then have t: "btf_kind ?t = 4" "name_of ?v (bt_name_off ?t) = str_of sname" "bt_size_type ?t = n" "btf_vlen ?t = length fs"
      "btf_kflag ?t = list_ex is_bitfield fs" "named_rest ?v (btf_kind ?t) (bt_rest ?t) = concat (map field_item fs)"
    unfolding named_def named_type.ext_inject by blast+
  have "\<exists>m. btf_members ?t j = Some m \<and> name_of ?v (bm_name_off m) = str_of name \<and> bm_type m = of_int i \<and>
      btf_member_bit_offset ?t j = Some boff \<and> btf_member_bitfield_size ?t j = Some bsz"
    if j: "j < length fs" "fs ! j = (name, i, boff, bsz)" for j name i boff bsz
  proof -
    obtain off where m: "btf_members ?t j = Some \<lparr>bm_name_off = off, bm_type = of_int i, bm_offset = boff OR push_bit 24 bsz\<rparr>"
        "name_of ?v off = str_of name"
      using member_read [OF _ t(6) j] t(1) by auto
    have f: "field_ok (name, i, boff, bsz)" using ok j by (metis list_all_length)
    have bits: "bsz = 0" if "\<not> list_ex is_bitfield fs" using that j by (metis is_bitfield.simps list_ex_length)
    have "boff \<le> 0xffffff" if "list_ex is_bitfield fs" using that assms(8) j by (auto simp: list_all_length)
    then show ?thesis
      using m f t(5) bits field_offset_bits [of bsz boff]
      by (cases "list_ex is_bitfield fs") (auto simp: btf_member_bit_offset_def btf_member_bitfield_size_def simp del: view_Obj)
  qed
  then show ?thesis using ne t by (auto simp del: view_Obj)
qed

end
