(* ===== verification/Btf_Iter.thy ===== *)
theory Btf_Iter
  imports Btf_Props
begin

text \<open>
  The iterator over the fields of a type that hold identifiers or offsets of strings, \<open>libbpf/src/btf_iter.c\<close>. A
  pointer into a type is the offset in bytes from its start.
\<close>

section \<open>The iterator\<close>

datatype btf_field_iter_kind = BTF_FIELD_ITER_IDS | BTF_FIELD_ITER_STRS

record btf_field_desc =
  t_off_cnt :: nat
  t_offs :: "nat list"
  m_sz :: nat
  m_off_cnt :: nat
  m_offs :: "nat list"

record btf_field_iter =
  it_desc :: btf_field_desc
  it_p :: "nat option"
  it_m_idx :: int
  it_off_idx :: nat
  it_vlen :: nat

definition no_fields :: btf_field_desc where
  "no_fields = \<lparr>t_off_cnt = 0, t_offs = [], m_sz = 0, m_off_cnt = 0, m_offs = []\<rparr>"

text \<open>The fields of \<open>struct btf_type\<close> are at 0, 4 and 8; those of what follows it start at 12.\<close>

definition ids_desc :: "u32 \<Rightarrow> btf_field_desc option" where
  "ids_desc k =
     (if k \<in> {BTF_KIND_UNKN, BTF_KIND_INT, BTF_KIND_FLOAT, BTF_KIND_ENUM, BTF_KIND_ENUM64} then Some no_fields
      else if k \<in> {BTF_KIND_FWD, BTF_KIND_CONST, BTF_KIND_VOLATILE, BTF_KIND_RESTRICT, BTF_KIND_PTR, BTF_KIND_TYPEDEF,
                   BTF_KIND_FUNC, BTF_KIND_VAR, BTF_KIND_DECL_TAG, BTF_KIND_TYPE_TAG}
      then Some \<lparr>t_off_cnt = 1, t_offs = [8], m_sz = 0, m_off_cnt = 0, m_offs = []\<rparr>
      else if k = BTF_KIND_ARRAY then Some \<lparr>t_off_cnt = 2, t_offs = [12 + 0, 12 + 4], m_sz = 0, m_off_cnt = 0, m_offs = []\<rparr>
      else if k = BTF_KIND_STRUCT \<or> k = BTF_KIND_UNION
      then Some \<lparr>t_off_cnt = 0, t_offs = [], m_sz = 12, m_off_cnt = 1, m_offs = [4]\<rparr>
      else if k = BTF_KIND_FUNC_PROTO then Some \<lparr>t_off_cnt = 1, t_offs = [8], m_sz = 8, m_off_cnt = 1, m_offs = [4]\<rparr>
      else if k = BTF_KIND_DATASEC then Some \<lparr>t_off_cnt = 0, t_offs = [], m_sz = 12, m_off_cnt = 1, m_offs = [0]\<rparr>
      else None)"

definition strs_desc :: "u32 \<Rightarrow> btf_field_desc option" where
  "strs_desc k =
     (if k = BTF_KIND_UNKN then Some no_fields
      else if k \<in> {BTF_KIND_INT, BTF_KIND_FLOAT, BTF_KIND_FWD, BTF_KIND_ARRAY, BTF_KIND_CONST, BTF_KIND_VOLATILE, BTF_KIND_RESTRICT,
                   BTF_KIND_PTR, BTF_KIND_TYPEDEF, BTF_KIND_FUNC, BTF_KIND_VAR, BTF_KIND_DECL_TAG, BTF_KIND_TYPE_TAG, BTF_KIND_DATASEC}
      then Some \<lparr>t_off_cnt = 1, t_offs = [0], m_sz = 0, m_off_cnt = 0, m_offs = []\<rparr>
      else if k = BTF_KIND_ENUM then Some \<lparr>t_off_cnt = 1, t_offs = [0], m_sz = 8, m_off_cnt = 1, m_offs = [0]\<rparr>
      else if k = BTF_KIND_ENUM64 then Some \<lparr>t_off_cnt = 1, t_offs = [0], m_sz = 12, m_off_cnt = 1, m_offs = [0]\<rparr>
      else if k = BTF_KIND_STRUCT \<or> k = BTF_KIND_UNION
      then Some \<lparr>t_off_cnt = 1, t_offs = [0], m_sz = 12, m_off_cnt = 1, m_offs = [0]\<rparr>
      else if k = BTF_KIND_FUNC_PROTO then Some \<lparr>t_off_cnt = 1, t_offs = [0], m_sz = 8, m_off_cnt = 1, m_offs = [0]\<rparr>
      else None)"

definition btf_field_iter_init :: "btf_type \<Rightarrow> btf_field_iter_kind \<Rightarrow> int + btf_field_iter" where
  "btf_field_iter_init t iter_kind =
     (case (case iter_kind of BTF_FIELD_ITER_IDS \<Rightarrow> ids_desc (btf_kind t) | BTF_FIELD_ITER_STRS \<Rightarrow> strs_desc (btf_kind t)) of
        None \<Rightarrow> Inl (- EINVAL)
      | Some d \<Rightarrow> Inr \<lparr>it_desc = d, it_p = Some 0, it_m_idx = - 1, it_off_idx = 0, it_vlen = (if m_sz d \<noteq> 0 then btf_vlen t else 0)\<rparr>)"

text \<open>The part of a call that moves through the items.\<close>

definition iter_member :: "btf_field_iter \<Rightarrow> nat \<Rightarrow> nat option \<times> btf_field_iter" where
  "iter_member it p =
     (if m_sz (it_desc it) = 0 then (None, it\<lparr>it_p := None\<rparr>)
      else
        let (p, it) = (if it_off_idx it \<ge> m_off_cnt (it_desc it)
              then (p + m_sz (it_desc it), it\<lparr>it_m_idx := it_m_idx it + 1, it_p := Some (p + m_sz (it_desc it)), it_off_idx := 0\<rparr>) else (p, it))
        in if it_m_idx it < int (it_vlen it)
           then (Some (p + m_offs (it_desc it) ! it_off_idx it), it\<lparr>it_off_idx := it_off_idx it + 1\<rparr>)
           else (None, it\<lparr>it_p := None\<rparr>))"

definition btf_field_iter_next :: "btf_field_iter \<Rightarrow> nat option \<times> btf_field_iter" where
  "btf_field_iter_next it =
     (case it_p it of
        None \<Rightarrow> (None, it)
      | Some p \<Rightarrow>
          if it_m_idx it < 0 then
            if it_off_idx it < t_off_cnt (it_desc it)
            then (Some (p + t_offs (it_desc it) ! it_off_idx it), it\<lparr>it_off_idx := it_off_idx it + 1\<rparr>)
            else iter_member (it\<lparr>it_m_idx := 0, it_p := Some (p + sizeof_btf_type), it_off_idx := 0\<rparr>) (p + sizeof_btf_type)
          else iter_member it p)"

section \<open>What it yields\<close>

primrec yields :: "btf_field_iter \<Rightarrow> nat list \<Rightarrow> bool" where
  "yields it [] \<longleftrightarrow> fst (btf_field_iter_next it) = None"
| "yields it (x # xs) \<longleftrightarrow> (case btf_field_iter_next it of (r, it') \<Rightarrow> r = Some x \<and> yields it' xs)"

text \<open>The words of a type, by index, that are identifiers or names.\<close>

definition id_words :: "btf_type \<Rightarrow> nat list" where
  "id_words t =
     (let k = btf_kind t; items = [0..<btf_vlen t]
      in if k \<in> {BTF_KIND_FWD, BTF_KIND_CONST, BTF_KIND_VOLATILE, BTF_KIND_RESTRICT, BTF_KIND_PTR, BTF_KIND_TYPEDEF, BTF_KIND_FUNC,
                 BTF_KIND_VAR, BTF_KIND_DECL_TAG, BTF_KIND_TYPE_TAG} then [2]
         else if k = BTF_KIND_ARRAY then [3, 4]
         else if k = BTF_KIND_STRUCT \<or> k = BTF_KIND_UNION then map (\<lambda>i. 3 + (3 * i + 1)) items
         else if k = BTF_KIND_FUNC_PROTO then 2 # map (\<lambda>i. 3 + (2 * i + 1)) items
         else if k = BTF_KIND_DATASEC then map (\<lambda>i. 3 + 3 * i) items
         else [])"

definition name_words :: "btf_type \<Rightarrow> nat list" where
  "name_words t =
     (let k = btf_kind t; items = [0..<btf_vlen t]
      in if k = BTF_KIND_UNKN then []
         else 0 # (if k \<in> {BTF_KIND_STRUCT, BTF_KIND_UNION, BTF_KIND_ENUM64} then map (\<lambda>i. 3 + 3 * i) items
           else if k \<in> {BTF_KIND_ENUM, BTF_KIND_FUNC_PROTO} then map (\<lambda>i. 3 + 2 * i) items
           else []))"

lemma upt_Suc_shift: "m < n \<Longrightarrow> [m..<n] = m # [Suc m..<n]"
  by (simp add: upt_conv_Cons)

lemma yields_members:
  assumes "m_sz d = n" "n \<noteq> 0" "m_off_cnt d = 1" "m_offs d = [q]"
  shows "yields \<lparr>it_desc = d, it_p = Some (12 + n * i), it_m_idx = int i, it_off_idx = 1, it_vlen = v\<rparr> (map (\<lambda>i. 12 + n * i + q) [Suc i..<v])"
proof (induction "v - i" arbitrary: i)
  case 0
  then show ?case using assms by (simp add: btf_field_iter_next_def iter_member_def)
next
  case (Suc x)
  show ?case
  proof (cases "Suc i < v")
    case True
    then have "[Suc i..<v] = Suc i # [Suc (Suc i)..<v]" by (rule upt_Suc_shift)
    moreover have "yields \<lparr>it_desc = d, it_p = Some (12 + n * Suc i), it_m_idx = int (Suc i), it_off_idx = 1, it_vlen = v\<rparr>
        (map (\<lambda>i. 12 + n * i + q) [Suc (Suc i)..<v])" using Suc by (intro Suc.hyps(1)) linarith
    ultimately show ?thesis using True assms by (simp add: btf_field_iter_next_def iter_member_def algebra_simps)
  qed (use assms in \<open>simp add: btf_field_iter_next_def iter_member_def\<close>)
qed

lemma yields_from_members:
  assumes "m_sz d = n" "n \<noteq> 0" "m_off_cnt d = 1" "m_offs d = [q]" "it_p it = Some 0" "it_m_idx it = - 1" "it_desc it = d" "it_off_idx it = t_off_cnt d"
    "it_vlen it = v"
  shows "yields it (map (\<lambda>i. 12 + n * i + q) [0..<v])"
proof (cases "v = 0")
  case True
  then show ?thesis using assms by (simp add: btf_field_iter_next_def iter_member_def)
next
  case False
  then have "[0..<v] = 0 # [Suc 0..<v]" by (simp add: upt_Suc_shift)
  moreover have "btf_field_iter_next it = (Some (12 + q), \<lparr>it_desc = d, it_p = Some 12, it_m_idx = 0, it_off_idx = 1, it_vlen = v\<rparr>)"
    using assms False by (cases it) (simp add: btf_field_iter_next_def iter_member_def)
  ultimately show ?thesis using yields_members [OF assms(1-4), of 0 v] by simp
qed

text \<open>An iterator yields the fields of the type, then one field of every item.\<close>

definition desc_ok :: "btf_field_desc \<Rightarrow> bool" where
  "desc_ok d \<longleftrightarrow> t_off_cnt d = length (t_offs d) \<and> (m_sz d \<noteq> 0 \<longrightarrow> m_off_cnt d = 1 \<and> length (m_offs d) = 1)"

definition desc_offs :: "btf_field_desc \<Rightarrow> nat \<Rightarrow> nat list" where
  "desc_offs d v = t_offs d @ (if m_sz d = 0 then [] else map (\<lambda>i. 12 + m_sz d * i + hd (m_offs d)) [0..<v])"

lemma yields_fields:
  assumes "desc_ok d" "j \<le> length (t_offs d)"
  shows "yields \<lparr>it_desc = d, it_p = Some 0, it_m_idx = - 1, it_off_idx = j, it_vlen = v\<rparr> (drop j (desc_offs d v))"
  using assms(2)
proof (induction "length (t_offs d) - j" arbitrary: j)
  case 0
  then have j: "j = length (t_offs d)" by simp
  show ?case
  proof (cases "m_sz d = 0")
    case True
    then show ?thesis using assms(1) j by (simp add: desc_ok_def desc_offs_def btf_field_iter_next_def iter_member_def)
  next
    case False
    then have "m_offs d = [hd (m_offs d)]" using assms(1) by (cases "m_offs d") (auto simp: desc_ok_def)
    from yields_from_members [OF refl False _ this] show ?thesis using assms(1) j False by (simp add: desc_ok_def desc_offs_def)
  qed
next
  case (Suc x)
  then have j: "j < length (t_offs d)" by simp
  then have "drop j (desc_offs d v) = t_offs d ! j # drop (Suc j) (desc_offs d v)"
    by (simp add: desc_offs_def Cons_nth_drop_Suc [symmetric])
  then show ?case using Suc.hyps(1) [of "Suc j"] Suc.hyps(2) j assms(1) by (simp add: btf_field_iter_next_def desc_ok_def)
qed

lemma yields_init:
  assumes "btf_field_iter_init t ik = Inr it" "desc_ok (it_desc it)"
  shows "yields it (desc_offs (it_desc it) (btf_vlen t))"
proof -
  have "it = \<lparr>it_desc = it_desc it, it_p = Some 0, it_m_idx = - 1, it_off_idx = 0, it_vlen = (if m_sz (it_desc it) \<noteq> 0 then btf_vlen t else 0)\<rparr>"
    using assms(1) by (auto simp: btf_field_iter_init_def split: option.splits btf_field_iter_kind.splits)
  moreover have "desc_offs (it_desc it) (if m_sz (it_desc it) \<noteq> 0 then btf_vlen t else 0) = desc_offs (it_desc it) (btf_vlen t)"
    by (simp add: desc_offs_def)
  ultimately show ?thesis using yields_fields [OF assms(2), of 0] by (metis drop_0 zero_le)
qed

lemma strs_desc_words:
  assumes "strs_desc (btf_kind t) = Some d"
  shows "desc_ok d \<and> desc_offs d (btf_vlen t) = map (\<lambda>i. 4 * i) (name_words t)"
proof -
  have m: "map (\<lambda>i. 12 + 12 * i) xs = map (\<lambda>i. 4 * i) (map (\<lambda>i. 3 + 3 * i) xs)"
    "map (\<lambda>i. 12 + 8 * i) xs = map (\<lambda>i. 4 * i) (map (\<lambda>i. 3 + 2 * i) xs)" for xs :: "nat list" by simp_all
  consider "btf_kind t = 0" | "btf_kind t \<in> {1, 16, 7, 3, 10, 9, 11, 2, 8, 12, 14, 17, 18, 15}" | "btf_kind t \<in> {4, 5, 19}" | "btf_kind t \<in> {6, 13}"
    using assms by (auto simp: strs_desc_def split: if_split_asm)
  then show ?thesis
  proof cases
    case 1
    then show ?thesis using assms by (auto simp: strs_desc_def no_fields_def desc_ok_def desc_offs_def name_words_def)
  next
    case 2
    then have "d = \<lparr>t_off_cnt = 1, t_offs = [0], m_sz = 0, m_off_cnt = 0, m_offs = []\<rparr>" "name_words t = [0]"
      using assms by (auto simp: strs_desc_def name_words_def)
    then show ?thesis by (simp add: desc_ok_def desc_offs_def)
  next
    case 3
    then have "d = \<lparr>t_off_cnt = 1, t_offs = [0], m_sz = 12, m_off_cnt = 1, m_offs = [0]\<rparr>" "name_words t = 0 # map (\<lambda>i. 3 + 3 * i) [0..<btf_vlen t]"
      using assms by (auto simp: strs_desc_def name_words_def)
    then show ?thesis by (simp add: desc_ok_def desc_offs_def m)
  next
    case 4
    then have "d = \<lparr>t_off_cnt = 1, t_offs = [0], m_sz = 8, m_off_cnt = 1, m_offs = [0]\<rparr>" "name_words t = 0 # map (\<lambda>i. 3 + 2 * i) [0..<btf_vlen t]"
      using assms by (auto simp: strs_desc_def name_words_def)
    then show ?thesis by (simp add: desc_ok_def desc_offs_def m)
  qed
qed

lemma ids_desc_words:
  assumes "ids_desc (btf_kind t) = Some d"
  shows "desc_ok d \<and> desc_offs d (btf_vlen t) = map (\<lambda>i. 4 * i) (id_words t)"
proof -
  consider "btf_kind t \<in> {0, 1, 16, 6, 19}" | "btf_kind t \<in> {7, 10, 9, 11, 2, 8, 12, 14, 17, 18}" | "btf_kind t = 3" | "btf_kind t \<in> {4, 5}" |
    "btf_kind t = 13" | "btf_kind t = 15"
    using assms by (auto simp: ids_desc_def split: if_split_asm)
  then show ?thesis
  proof cases
    case 1
    then have "d = no_fields" "id_words t = []" using assms by (auto simp: ids_desc_def id_words_def)
    then show ?thesis by (simp add: no_fields_def desc_ok_def desc_offs_def)
  next
    case 2
    then have "d = \<lparr>t_off_cnt = 1, t_offs = [8], m_sz = 0, m_off_cnt = 0, m_offs = []\<rparr>" "id_words t = [2]"
      using assms by (auto simp: ids_desc_def id_words_def)
    then show ?thesis by (simp add: desc_ok_def desc_offs_def)
  next
    case 3
    then show ?thesis using assms by (auto simp: ids_desc_def id_words_def desc_ok_def desc_offs_def)
  next
    case 4
    then have "d = \<lparr>t_off_cnt = 0, t_offs = [], m_sz = 12, m_off_cnt = 1, m_offs = [4]\<rparr>" "id_words t = map (\<lambda>i. 3 + (3 * i + 1)) [0..<btf_vlen t]"
      using assms by (auto simp: ids_desc_def id_words_def)
    then show ?thesis by (simp add: desc_ok_def desc_offs_def)
  next
    case 5
    then show ?thesis using assms by (auto simp: ids_desc_def id_words_def desc_ok_def desc_offs_def)
  next
    case 6
    then show ?thesis using assms by (auto simp: ids_desc_def id_words_def desc_ok_def desc_offs_def)
  qed
qed

lemma iter_strs:
  "btf_field_iter_init t BTF_FIELD_ITER_STRS = Inr it \<Longrightarrow> yields it (map (\<lambda>i. 4 * i) (name_words t))"
  using yields_init [of t BTF_FIELD_ITER_STRS it] strs_desc_words [of t "it_desc it"]
  by (auto simp: btf_field_iter_init_def split: option.splits)

lemma iter_ids:
  "btf_field_iter_init t BTF_FIELD_ITER_IDS = Inr it \<Longrightarrow> yields it (map (\<lambda>i. 4 * i) (id_words t))"
  using yields_init [of t BTF_FIELD_ITER_IDS it] ids_desc_words [of t "it_desc it"]
  by (auto simp: btf_field_iter_init_def split: option.splits)

end
