(* ===== verification/Btf_Append.thy ===== *)
theory Btf_Append
  imports Btf_Built Btf_Iter
begin

text \<open>
  Copying types from one object to another, \<open>btf__add_type\<close> and \<open>btf__add_btf\<close> of \<open>btf.c\<close>: strings are added to
  the destination and their offsets rewritten, identifiers are shifted. The source is another object than the destination. A
  copied type is its words; the allocations of the \<open>n\<close>-th string of a type have their own outcomes.
\<close>

section \<open>Rewriting strings\<close>

type_synonym str_map = "(u32, u32) hashmap"

definition btf_dedup_identity_hash_fn :: "u32 \<Rightarrow> u64" where
  "btf_dedup_identity_hash_fn key = ucast key"

definition btf_dedup_equal_fn :: "u32 \<Rightarrow> u32 \<Rightarrow> bool" where
  "btf_dedup_equal_fn k1 k2 \<longleftrightarrow> k1 = k2"

text \<open>The result is the error, what is in \<open>str_off\<close> afterwards, the map and the destination.\<close>

definition btf_rewrite_str :: "allocs \<Rightarrow> btf \<Rightarrow> str_map option \<Rightarrow> btf_obj \<Rightarrow> u32 \<Rightarrow> (int \<times> u32 \<times> str_map option \<times> btf_obj) option" where
  "btf_rewrite_str ok src smap dst str_off =
     (if str_off = 0 then Some (0, str_off, smap, dst)
      else case (case smap of None \<Rightarrow> None | Some h \<Rightarrow> hashmap_find h str_off) of
        Some mapped_off \<Rightarrow> Some (0, mapped_off, smap, dst)
      | None \<Rightarrow> do {
          p \<leftarrow> btf__str_by_offset src str_off;
          s \<leftarrow> p;
          (off, dst) \<leftarrow> btf__add_str ok dst s;
          if off < 0 then Some (off, str_off, smap, dst)
          else case smap of
            None \<Rightarrow> Some (0, of_int off, smap, dst)
          | Some h \<Rightarrow>
              (case hashmap_insert (ok 0 S_map_index) (ok 0 S_map_entry) h str_off (of_int off) HASHMAP_APPEND of (err, _, h) \<Rightarrow>
                 if err \<noteq> 0 then Some (err, str_off, Some h, dst) else Some (0, of_int off, Some h, dst)) })"

fun type_of_words :: "u32 list \<Rightarrow> btf_type" where
  "type_of_words (a # i # s # ws) = \<lparr>bt_name_off = a, bt_info = i, bt_size_type = s, bt_rest = ws\<rparr>"
| "type_of_words _ = btf_void"

partial_function (option) rewrite_strs :: "(nat \<Rightarrow> allocs) \<Rightarrow> btf \<Rightarrow> nat \<Rightarrow> btf_field_iter \<Rightarrow> u32 list \<Rightarrow> str_map option \<Rightarrow> btf_obj \<Rightarrow>
    (int \<times> u32 list \<times> str_map option \<times> btf_obj) option" where
  "rewrite_strs ok src n it ws smap dst =
     (case btf_field_iter_next it of
        (None, _) \<Rightarrow> Some (0, ws, smap, dst)
      | (Some p, it) \<Rightarrow>
          (case aget ws (p div 4) of
             None \<Rightarrow> None
           | Some v \<Rightarrow>
               (case btf_rewrite_str (ok n) src smap dst v of
                  None \<Rightarrow> None
                | Some (err, v, smap, dst) \<Rightarrow>
                    if err \<noteq> 0 then Some (err, ws[p div 4 := v], smap, dst)
                    else rewrite_strs ok src (Suc n) it (ws[p div 4 := v]) smap dst)))"

declare rewrite_strs.simps [code]

section \<open>One type\<close>

definition btf_add_type :: "(nat \<Rightarrow> allocs) \<Rightarrow> btf \<Rightarrow> str_map option \<Rightarrow> btf_obj \<Rightarrow> btf_type \<Rightarrow> (int \<times> str_map option \<times> btf_obj) option" where
  "btf_add_type ok src smap dst src_type =
     (let nbytes = btf_type_size src_type in
      if nbytes < 0 then Some (nbytes, smap, dst)
      else do {
        (err, w) \<leftarrow> btf_ensure_modifiable (ok 0 0) (obj_base dst \<noteq> None) (own dst);
        if err \<noteq> 0 then Some (- ENOMEM, smap, Obj (obj_base dst) w)
        else case btf_add_type_mem (ok 0 0) w (nat nbytes) of
          None \<Rightarrow> Some (- ENOMEM, smap, Obj (obj_base dst) w)
        | Some w \<Rightarrow>
            let dst = Obj (obj_base dst) w; ws = take (nat nbytes div 4) (type_words src_type)
            in if length ws \<noteq> nat nbytes div 4 then None
               else case btf_field_iter_init (type_of_words ws) BTF_FIELD_ITER_STRS of
                 Inl err \<Rightarrow> Some (err, smap, dst)
               | Inr it \<Rightarrow> do {
                   (err, ws, smap, dst) \<leftarrow> rewrite_strs ok src 1 it ws smap dst;
                   if err \<noteq> 0 then Some (err, smap, dst)
                   else case btf_commit_type (ok 0 0) (own dst) (nat nbytes) (type_of_words ws) of (r, w) \<Rightarrow>
                     Some (r, smap, Obj (obj_base dst) w) } })"

definition btf__add_type :: "(nat \<Rightarrow> allocs) \<Rightarrow> btf_obj \<Rightarrow> btf \<Rightarrow> btf_type \<Rightarrow> (int \<times> btf_obj) option" where
  "btf__add_type ok b src_btf src_type = map_option (\<lambda>(r, _, b). (r, b)) (btf_add_type ok src_btf None b src_type)"

section \<open>All types\<close>

partial_function (option) shift_ids :: "u32 \<Rightarrow> btf_field_iter \<Rightarrow> u32 list \<Rightarrow> u32 list option" where
  "shift_ids d it ws =
     (case btf_field_iter_next it of
        (None, _) \<Rightarrow> Some ws
      | (Some p, it) \<Rightarrow>
          (case aget ws (p div 4) of
             None \<Rightarrow> None
           | Some i \<Rightarrow> shift_ids d it (if i = 0 then ws else ws[p div 4 := i + d])))"

declare shift_ids.simps [code]

text \<open>The loop over the copied types \<open>ts\<close>, of which \<open>us\<close> are finished; \<open>d\<close> is what identifiers move by.\<close>

fun add_types :: "(nat \<Rightarrow> nat \<Rightarrow> allocs) \<Rightarrow> btf \<Rightarrow> u32 \<Rightarrow> btf_type list \<Rightarrow> btf_type list \<Rightarrow> str_map option \<Rightarrow> btf_obj \<Rightarrow>
    (int \<times> btf_type list \<times> btf_obj) option" where
  "add_types ok src d [] us smap dst = Some (0, us, dst)"
| "add_types ok src d (t # ts) us smap dst =
     (let nbytes = btf_type_size t in
      if nbytes < 0 then Some (nbytes, us, dst)
      else case btf_field_iter_init t BTF_FIELD_ITER_STRS of
        Inl err \<Rightarrow> Some (err, us, dst)
      | Inr it \<Rightarrow> do {
          (err, ws, smap, dst) \<leftarrow> rewrite_strs (ok (length us)) src 0 it (type_words t) smap dst;
          if err \<noteq> 0 then Some (err, us, dst)
          else case btf_field_iter_init (type_of_words ws) BTF_FIELD_ITER_IDS of
            Inl err \<Rightarrow> Some (err, us, dst)
          | Inr it \<Rightarrow> do {
              ws \<leftarrow> shift_ids d it ws;
              add_types ok src d ts (us @ [type_of_words ws]) smap dst } })"

text \<open>
  On an error, the strings added so far are cleared through \<open>btf->strs_data\<close>, which is a null pointer in a
  modifiable object: with any such string, the result is \<open>None\<close>. So it is when the types of the source do not
  fit the \<open>int\<close> that their size is assigned to.
\<close>

definition btf__add_btf :: "(site \<Rightarrow> bool) \<Rightarrow> (nat \<Rightarrow> nat \<Rightarrow> allocs) \<Rightarrow> btf_obj \<Rightarrow> btf_obj \<Rightarrow> (int \<times> btf_obj) option" where
  "btf__add_btf ok0 ok b src_btf =
     (if obj_base src_btf \<noteq> None then Some (- ENOTSUP, b)
      else do {
        (err, w) \<leftarrow> btf_ensure_modifiable ok0 (obj_base b \<noteq> None) (own b);
        let old_strs_len = bh_str_len (o_hdr w);
        let data_sz = unat (bh_type_len (o_hdr (own src_btf)));
        let cnt = btf__type_cnt (btf_view src_btf) - 1;
        if err \<noteq> 0 then Some (- ENOMEM, Obj (obj_base b) w)
        else if 2 ^ 31 \<le> data_sz then None
        else case btf_add_type_mem ok0 w data_sz of
          None \<Rightarrow> Some (- ENOMEM, Obj (obj_base b) w)
        | Some w \<Rightarrow>
            (case btf_add_type_offs_mem ok0 w cnt of
               None \<Rightarrow> Some (- ENOMEM, Obj (obj_base b) w)
             | Some w \<Rightarrow>
                 (case hashmap__new (ok0 S_map) btf_dedup_identity_hash_fn btf_dedup_equal_fn of
                    Inl err \<Rightarrow> Some (- ENOMEM, Obj (obj_base b) w)
                  | Inr smap \<Rightarrow> do {
                      let d = of_nat (o_start_id w + length (o_types w) - 1);
                      (err, ts, b) \<leftarrow> add_types ok (btf_view src_btf) d (o_types (own src_btf)) [] (Some smap) (Obj (obj_base b) w);
                      let w = own b;
                      if err \<noteq> 0 then
                        if bh_str_len (o_hdr w) \<noteq> old_strs_len then None
                        else Some (err, Obj (obj_base b) (w\<lparr>o_hdr := (o_hdr w)\<lparr>bh_str_len := old_strs_len\<rparr>\<rparr>))
                      else
                        let w = add_lens data_sz w; w = w\<lparr>o_types := o_types w @ ts\<rparr>
                        in Some (int (o_start_id w) + int (length (o_types w)) - int cnt, Obj (obj_base b) w) })) })"

section \<open>Strings stay the same\<close>

definition map_ok :: "btf \<Rightarrow> btf \<Rightarrow> str_map option \<Rightarrow> bool" where
  "map_ok src dst m \<longleftrightarrow> (case m of None \<Rightarrow> True | Some h \<Rightarrow>
     eqk.valid btf_dedup_identity_hash_fn h \<and>
     (\<forall>k v. hashmap_find h k = Some v \<longrightarrow> (\<exists>s. btf__str_by_offset src k = Some (Some s) \<and> btf__str_by_offset dst v = Some (Some s))))"

lemma c_string_no_zero: "c_string x = Some s \<Longrightarrow> 0 \<notin> set s"
  by (auto simp: c_string_def dest: set_takeWhileD split: if_splits)

lemma str_no_zero: "btf__str_by_offset src k = Some (Some s) \<Longrightarrow> 0 \<notin> set s"
  by (induction src k rule: btf__str_by_offset.induct) (auto simp: c_string_no_zero split: if_splits option.splits)

lemma map_ok_grows: "obj_ok b \<Longrightarrow> obj_grows b b' \<Longrightarrow> map_ok src (btf_view b) m \<Longrightarrow> map_ok src (btf_view b') m"
  using str_grows [of b b'] unfolding map_ok_def by (cases m) (simp_all del: view_Obj, blast)

lemma insert_append:
  assumes "eqk.valid hash h" "hashmap_find h k = None" "hashmap_insert c a h k v HASHMAP_APPEND = (err, old, h')"
  shows "eqk.valid hash h'" "err = 0 \<or> err = - ENOMEM" "hashmap_find h' q = (if err = 0 \<and> k = q then Some v else hashmap_find h q)"
proof -
  have "eqk.valid hash h' \<and> (err = 0 \<or> err = - ENOMEM) \<and> hashmap_find h' q = (if err = 0 \<and> k = q then Some v else hashmap_find h q)"
  proof (cases "err = 0")
    case True
    then have "hashmap_insert True True h k v HASHMAP_APPEND = (0, old, h')" using insert_ok_flags [of c a h k v HASHMAP_APPEND] assms(3) by simp
    then show ?thesis using True eqk.insert_absent(2) [OF assms(1,2) _ refl, of HASHMAP_APPEND v] eqk.insert_absent_find [OF assms(1,2), of HASHMAP_APPEND v q]
      by simp
  next
    case False
    have "\<not> (c \<and> a)" using eqk.insert_absent(1) [OF assms(1,2) _ refl, of HASHMAP_APPEND v] assms(3) False by auto
    from eqk.insert_nomem [OF assms(1,2) _ this assms(3) False] False show ?thesis by simp
  qed
  then show "eqk.valid hash h'" "err = 0 \<or> err = - ENOMEM" "hashmap_find h' q = (if err = 0 \<and> k = q then Some v else hashmap_find h q)" by blast+
qed

lemma rewrite_str_ok:
  assumes "obj_ok dst" "map_ok src (btf_view dst) m" "btf__str_by_offset src 0 = Some (Some [])"
    "btf_rewrite_str ok src m dst k = Some (err, v, m', dst')"
  shows "obj_grows dst dst' \<and> map_ok src (btf_view dst') m' \<and>
    (err = 0 \<longrightarrow> (\<exists>s. btf__str_by_offset src k = Some (Some s) \<and> btf__str_by_offset (btf_view dst') v = Some (Some s))) \<and> err \<le> 0"
proof (cases "k = 0")
  case True
  then show ?thesis using assms obj_grows_refl [OF assms(1)] obj_root_name [OF assms(1)] by (simp add: btf_rewrite_str_def del: view_Obj)
next
  case k: False
  show ?thesis
  proof (cases "case m of None \<Rightarrow> None | Some h \<Rightarrow> hashmap_find h k")
    case (Some x)
    then obtain h where h: "m = Some h" "hashmap_find h k = Some x" by (cases m) auto
    then show ?thesis using assms k obj_grows_refl [OF assms(1)] by (auto simp: btf_rewrite_str_def map_ok_def simp del: view_Obj)
  next
    case None
    obtain s off dst1 where s: "btf__str_by_offset src k = Some (Some s)" "btf__add_str ok dst s = Some (off, dst1)"
      and rest: "(if off < 0 then Some (off, k, m, dst1)
          else case m of None \<Rightarrow> Some (0, of_int off, m, dst1)
          | Some h \<Rightarrow> (case hashmap_insert (ok 0 S_map_index) (ok 0 S_map_entry) h k (of_int off) HASHMAP_APPEND of (err, _, h) \<Rightarrow>
                 if err \<noteq> 0 then Some (err, k, Some h, dst1) else Some (0, of_int off, Some h, dst1))) = Some (err, v, m', dst')"
      using assms(4) k None by (auto simp: btf_rewrite_str_def bind_eq_Some_conv simp del: view_Obj)
    note p = btf__add_str_ok [OF assms(1) str_no_zero [OF s(1)] s(2)]
    have m1: "map_ok src (btf_view dst1) m" using map_ok_grows [OF assms(1)] p assms(2) by blast
    show ?thesis
    proof (cases "off < 0")
      case True
      then show ?thesis using rest p m1 by simp
    next
      case off: False
      show ?thesis
      proof (cases m)
        case None
        then show ?thesis using rest p m1 off s(1) by (simp del: view_Obj)
      next
        case (Some h)
        obtain e old h' where i: "hashmap_insert (ok 0 S_map_index) (ok 0 S_map_entry) h k (of_int off) HASHMAP_APPEND = (e, old, h')"
          by (metis prod.collapse)
        have h: "eqk.valid btf_dedup_identity_hash_fn h" "hashmap_find h k = None"
          using Some m1 None by (simp_all add: map_ok_def)
        note ins = insert_append [OF h i]
        have "map_ok src (btf_view dst1) (Some h')"
          using m1 ins(1) ins(3) p off s(1) by (auto simp: map_ok_def Some simp del: view_Obj)
        then show ?thesis using rest p off s(1) i ins(2) by (auto simp: Some simp del: view_Obj split: if_splits)
      qed
    qed
  qed
qed

lemma rewrite_strs_step:
  "btf_field_iter_next it = (Some (4 * x), it') \<Longrightarrow> rewrite_strs ok src n it ws m dst =
     (case aget ws x of None \<Rightarrow> None | Some v \<Rightarrow>
        (case btf_rewrite_str (ok n) src m dst v of None \<Rightarrow> None
         | Some (err, v, m, dst) \<Rightarrow> if err \<noteq> 0 then Some (err, ws[x := v], m, dst)
             else rewrite_strs ok src (Suc n) it' (ws[x := v]) m dst))"
proof -
  have "4 * x div 4 = x" by simp
  then show "btf_field_iter_next it = (Some (4 * x), it') \<Longrightarrow> ?thesis"
    by (subst rewrite_strs.simps) (simp only: prod.case option.case)
qed

lemma rewrite_strs_ok:
  assumes "yields it (map (\<lambda>i. 4 * i) xs)" "distinct xs" "obj_ok dst" "map_ok src (btf_view dst) m" "btf__str_by_offset src 0 = Some (Some [])"
    "rewrite_strs ok src n it ws m dst = Some (err, ws', m', dst')"
  shows "obj_grows dst dst' \<and> map_ok src (btf_view dst') m' \<and> length ws' = length ws \<and> err \<le> 0 \<and>
    (err = 0 \<longrightarrow> (\<forall>i < length ws. if i \<in> set xs
       then \<exists>s. btf__str_by_offset src (ws ! i) = Some (Some s) \<and> btf__str_by_offset (btf_view dst') (ws' ! i) = Some (Some s)
       else ws' ! i = ws ! i))"
  using assms(1-4,6)
proof (induction xs arbitrary: it n ws m dst)
  case Nil
  then have "ws' = ws" "m' = m" "dst' = dst" "err = 0" by (auto simp: rewrite_strs.simps [of _ _ _ it] split: prod.splits)
  then show ?case using Nil.prems(3,4) obj_grows_refl by simp
next
  case (Cons x xs)
  obtain it' where it': "btf_field_iter_next it = (Some (4 * x), it')" "yields it' (map (\<lambda>i. 4 * i) xs)"
    using Cons.prems(1) by (auto split: prod.splits)
  obtain v e v1 m1 dst1 where x: "aget ws x = Some v" "btf_rewrite_str (ok n) src m dst v = Some (e, v1, m1, dst1)"
      "(if e \<noteq> 0 then Some (e, ws[x := v1], m1, dst1) else rewrite_strs ok src (Suc n) it' (ws[x := v1]) m1 dst1) = Some (err, ws', m', dst')"
    using Cons.prems(5) it'(1) unfolding rewrite_strs_step [OF it'(1)]
    by (cases "aget ws x"; cases "btf_rewrite_str (ok n) src m dst (the (aget ws x))") auto
  note r = rewrite_str_ok [OF Cons.prems(3,4) assms(5) x(2)]
  show ?case
  proof (cases "e = 0")
    case False
    then show ?thesis using x(3) r by auto
  next
    case True
    have ok1: "obj_ok dst1" "distinct xs" "x \<notin> set xs" using r Cons.prems(2) by (auto simp: obj_grows_def)
    have run: "rewrite_strs ok src (Suc n) it' (ws[x := v1]) m1 dst1 = Some (err, ws', m', dst')" using x(3) True by simp
    have m1: "map_ok src (btf_view dst1) m1" using r by simp
    note ih = Cons.IH [OF it'(2) ok1(2,1) m1 run]
    have xl: "x < length ws" "v = ws ! x" using x(1) by (auto simp: aget_def split: if_splits)
    obtain s where s: "btf__str_by_offset src v = Some (Some s)" "btf__str_by_offset (btf_view dst1) v1 = Some (Some s)" using r True by blast
    have keep: "btf__str_by_offset (btf_view dst') v1 = Some (Some s)" using str_grows [OF ok1(1) _ s(2)] ih by blast
    have "if i \<in> set (x # xs) then \<exists>s. btf__str_by_offset src (ws ! i) = Some (Some s) \<and> btf__str_by_offset (btf_view dst') (ws' ! i) = Some (Some s)
        else ws' ! i = ws ! i" if "i < length ws" "err = 0" for i
    proof (cases "i = x")
      case True
      then have "ws' ! i = v1" using ih that ok1(3) xl by (auto split: if_splits)
      then show ?thesis using True s(1) keep xl by auto
    next
      case False
      then show ?thesis using ih that by (auto simp del: view_Obj split: if_splits)
    qed
    then show ?thesis using ih obj_grows_trans [of dst dst1 dst'] r by (simp del: view_Obj)
  qed
qed

lemma shift_ids_ok:
  assumes "yields it (map (\<lambda>i. 4 * i) xs)" "distinct xs" "\<forall>i \<in> set xs. i < length ws"
  shows "\<exists>ws'. shift_ids d it ws = Some ws' \<and> length ws' = length ws \<and>
    (\<forall>i < length ws. ws' ! i = (if i \<in> set xs \<and> ws ! i \<noteq> 0 then ws ! i + d else ws ! i))"
  using assms
proof (induction xs arbitrary: it ws)
  case Nil
  then show ?case by (auto simp: shift_ids.simps [of _ it] split: prod.splits)
next
  case (Cons x xs)
  obtain it' where it': "btf_field_iter_next it = (Some (4 * x), it')" "yields it' (map (\<lambda>i. 4 * i) xs)"
    using Cons.prems(1) by (auto split: prod.splits)
  define ws1 where "ws1 = (if ws ! x = 0 then ws else ws[x := ws ! x + d])"
  have l: "length ws1 = length ws" by (simp add: ws1_def)
  have x: "x < length ws" "x \<notin> set xs" "distinct xs" using Cons.prems by auto
  have step: "shift_ids d it ws = shift_ids d it' ws1" using it'(1) x(1) by (subst shift_ids.simps) (simp add: aget_def ws1_def)
  have "\<forall>i \<in> set xs. i < length ws1" using Cons.prems(3) l by simp
  from Cons.IH [OF it'(2) x(3) this] obtain ws' where w: "shift_ids d it' ws1 = Some ws'" "length ws' = length ws1"
      "\<forall>i < length ws1. ws' ! i = (if i \<in> set xs \<and> ws1 ! i \<noteq> 0 then ws1 ! i + d else ws1 ! i)" by blast
  have "ws' ! i = (if i \<in> set (x # xs) \<and> ws ! i \<noteq> 0 then ws ! i + d else ws ! i)" if "i < length ws" for i
    using w(3) that x l by (cases "i = x") (auto simp: ws1_def)
  then show ?case using step w l by simp
qed

section \<open>Copies of types\<close>

lemma type_words_of: "3 \<le> length ws \<Longrightarrow> type_words (type_of_words ws) = ws"
  by (cases ws rule: type_of_words.cases) (simp_all add: type_words_def)

lemma type_of_type_words [simp]: "type_of_words (type_words t) = t"
  by (simp add: type_words_def)

lemma type_of_words_fields:
  assumes "3 \<le> length ws"
  shows "bt_name_off (type_of_words ws) = ws ! 0" "bt_info (type_of_words ws) = ws ! 1" "bt_size_type (type_of_words ws) = ws ! 2"
    "bt_rest (type_of_words ws) = drop 3 ws"
  using assms by (cases ws rule: type_of_words.cases; simp add: numeral_2_eq_2 numeral_3_eq_3)+

lemma type_words_nth: "type_words t ! 0 = bt_name_off t" "type_words t ! 1 = bt_info t" "type_words t ! 2 = bt_size_type t"
  "type_words t ! (3 + j) = bt_rest t ! j" "length (type_words t) = 3 + length (bt_rest t)"
  by (simp_all add: type_words_def numeral_2_eq_2 numeral_3_eq_3)

text \<open>A type with its identifiers moved by \<open>d\<close>, void apart.\<close>

definition shift_type :: "u32 \<Rightarrow> btf_type \<Rightarrow> btf_type" where
  "shift_type d t = type_of_words (map (\<lambda>i. let w = type_words t ! i in if i \<in> set (id_words t) \<and> w \<noteq> 0 then w + d else w) [0..<length (type_words t)])"

lemma known_kind: "sized t \<Longrightarrow> btf_kind t \<in> {1, 2, 3, 4, 5, 6, 7, 8, 9, 10, 11, 12, 13, 14, 15, 16, 17, 18, 19}"
  by (auto simp: sized_def btf_type_size_def Let_def split: if_split_asm)

lemma mult_iff: "j < k * n \<Longrightarrow> 0 < k \<Longrightarrow> (\<exists>i < n. j = k * i) \<longleftrightarrow> j mod k = (0 :: nat)"
  by (metis mod_mult_self1_is_0 mult.commute mult_div_mod_eq add_0_right nat_mult_less_cancel_disj)

lemma name_words_rest:
  assumes "sized t" "j < length (bt_rest t)"
  shows "3 + j \<in> set (name_words t) \<longleftrightarrow> is_name (btf_kind t) j"
proof -
  note len = sized_lengths [OF assms(1)]
  consider "btf_kind t \<in> {4, 5, 19}" | "btf_kind t \<in> {6, 13}" | "btf_kind t \<notin> {4, 5, 19, 6, 13}" by blast
  then show ?thesis
  proof cases
    case 1
    then have "j < 3 * btf_vlen t" "item_words (btf_kind t) = 3" "btf_kind t \<noteq> 0" using len(3) assms(2) by (auto simp: item_words_def)
    moreover have "set (name_words t) = insert 0 ((\<lambda>i. 3 + 3 * i) ` {..<btf_vlen t})" using 1 by (auto simp: name_words_def)
    ultimately show ?thesis using 1 mult_iff [of j 3 "btf_vlen t"] by (auto simp: is_name_def image_iff)
  next
    case 2
    then have "j < 2 * btf_vlen t" "item_words (btf_kind t) = 2" using len(4) assms(2) by (auto simp: item_words_def)
    moreover have "set (name_words t) = insert 0 ((\<lambda>i. 3 + 2 * i) ` {..<btf_vlen t})" using 2 by (auto simp: name_words_def)
    ultimately show ?thesis using 2 mult_iff [of j 2 "btf_vlen t"] by (auto simp: is_name_def image_iff)
  next
    case 3
    then have "set (name_words t) \<subseteq> {0}" by (auto simp: name_words_def Let_def)
    then show ?thesis using 3 by (auto simp: is_name_def)
  qed
qed

lemma words_disjoint: "set (name_words t) \<inter> set (id_words t) = {}"
proof -
  have "3 + 3 * i \<noteq> 3 + (3 * j + (1 :: nat))" "3 + 2 * i \<noteq> 3 + (2 * j + (1 :: nat))" for i j by presburger+
  then show ?thesis by (auto simp: name_words_def id_words_def Let_def split: if_split_asm)
qed

lemma info_word: "1 \<notin> set (name_words t)" "1 \<notin> set (id_words t)" "2 \<notin> set (name_words t)" "0 \<notin> set (id_words t)"
  by (auto simp: name_words_def id_words_def Let_def split: if_split_asm)

lemma words_bounds:
  assumes "sized t"
  shows "\<forall>i \<in> set (id_words t). i < length (type_words t)" "\<forall>i \<in> set (name_words t). i < length (type_words t)"
proof -
  note len = sized_lengths [OF assms]
  consider "btf_kind t = 3" | "btf_kind t \<in> {4, 5, 15, 19}" | "btf_kind t \<in> {6, 13}" | "btf_kind t \<notin> {3, 4, 5, 15, 19, 6, 13}" by blast
  then have "(\<forall>i \<in> set (id_words t). i < length (type_words t)) \<and> (\<forall>i \<in> set (name_words t). i < length (type_words t))"
  proof cases
    case 1
    then show ?thesis using len(2) by (simp add: id_words_def name_words_def type_words_nth)
  next
    case 2
    then have "length (bt_rest t) = 3 * btf_vlen t" using len(3) by auto
    then show ?thesis using 2 by (auto simp: id_words_def name_words_def type_words_nth)
  next
    case 3
    then have "length (bt_rest t) = 2 * btf_vlen t" using len(4) by auto
    then show ?thesis using 3 by (auto simp: id_words_def name_words_def type_words_nth)
  next
    case 4
    then show ?thesis by (auto simp: id_words_def name_words_def type_words_nth Let_def split: if_split_asm)
  qed
  then show "\<forall>i \<in> set (id_words t). i < length (type_words t)" "\<forall>i \<in> set (name_words t). i < length (type_words t)" by blast+
qed

lemma distinct_words: "distinct (name_words t)" "distinct (id_words t)"
  by (auto simp: name_words_def id_words_def Let_def distinct_map inj_on_def)

lemma same_info:
  assumes "bt_info t' = bt_info t"
  shows "btf_kind t' = btf_kind t" "btf_vlen t' = btf_vlen t" "btf_kflag t' = btf_kflag t"
  using assms by (simp_all add: btf_kind_def btf_vlen_def btf_kflag_def)

lemma same_info_words: "bt_info t' = bt_info t \<Longrightarrow> id_words t' = id_words t"
  using same_info [of t' t] by (simp add: id_words_def)

lemma copied_type:
  assumes "sized t" "length ws = length (type_words t)" "length us = length ws"
    and names: "\<forall>i < length ws. if i \<in> set (name_words t)
       then \<exists>s. btf__str_by_offset src (type_words t ! i) = Some (Some s) \<and> btf__str_by_offset dst (ws ! i) = Some (Some s)
       else ws ! i = type_words t ! i"
    and ids: "\<forall>i < length ws. us ! i = (if i \<in> set (id_words t) \<and> ws ! i \<noteq> 0 then ws ! i + d else ws ! i)"
  shows "named dst (type_of_words us) = named src (shift_type d t) \<and> type_built (type_of_words us) \<and> names_ok dst (type_of_words us) \<and>
    length (bt_rest (type_of_words us)) = length (bt_rest t)"
proof -
  let ?u = "type_of_words us" and ?s = "shift_type d t"
  define ss where "ss = map (\<lambda>i. let w = type_words t ! i in if i \<in> set (id_words t) \<and> w \<noteq> 0 then w + d else w) [0..<length (type_words t)]"
  have s: "?s = type_of_words ss" by (simp add: shift_type_def ss_def)
  have len: "length us = 3 + length (bt_rest t)" "length ss = 3 + length (bt_rest t)" using assms(2,3) by (simp_all add: type_words_nth(5) ss_def)
  note uf = type_of_words_fields [of us] and sf = type_of_words_fields [of ss]
  have name_at: "name_of dst (us ! i) = name_of src (ss ! i) \<and> valid_name dst (us ! i)" if i: "i < length ws" "i \<in> set (name_words t)" for i
  proof -
    have "i \<notin> set (id_words t)" using words_disjoint [of t] i(2) by auto
    then have "us ! i = ws ! i" "ss ! i = type_words t ! i" using ids i assms(2) by (auto simp: ss_def)
    moreover obtain x where "btf__str_by_offset src (type_words t ! i) = Some (Some x)" "btf__str_by_offset dst (ws ! i) = Some (Some x)"
      using spec [OF names, of i] i by auto
    ultimately show ?thesis by (simp add: name_of_def valid_name_def)
  qed
  have word_at: "us ! i = ss ! i" if "i < length ws" "i \<notin> set (name_words t)" for i
    using ids names that assms(2) by (auto simp: ss_def)
  have "ss ! 1 = bt_info t" using info_word(2) [of t] type_words_nth(2,5) [of t] by (simp add: ss_def)
  moreover have "us ! 1 = ss ! 1" using word_at [of 1] info_word(1) [of t] len assms(3) by simp
  ultimately have info: "bt_info ?u = bt_info t" "bt_info ?s = bt_info t" using uf(2) sf(2) len by (simp_all add: s)
  have kind: "btf_kind ?u = btf_kind t" "btf_vlen ?u = btf_vlen t" "btf_kflag ?u = btf_kflag t"
      "btf_kind ?s = btf_kind t" "btf_vlen ?s = btf_vlen t" "btf_kflag ?s = btf_kflag t"
    by (simp_all add: same_info [OF info(1)] same_info [OF info(2)])
  have rest: "length (bt_rest ?u) = length (bt_rest t)" "length (bt_rest ?s) = length (bt_rest t)" using uf(4) sf(4) len by (simp_all add: s)
  have zero: "0 \<in> set (name_words t)" using known_kind [OF assms(1)] by (auto simp: name_words_def)
  have at: "is_name (btf_kind t) j \<Longrightarrow> name_of dst (bt_rest ?u ! j) = name_of src (bt_rest ?s ! j) \<and> valid_name dst (bt_rest ?u ! j)"
      "\<not> is_name (btf_kind t) j \<Longrightarrow> bt_rest ?u ! j = bt_rest ?s ! j" if "j < length (bt_rest t)" for j
    using name_at [of "3 + j"] word_at [of "3 + j"] name_words_rest [OF assms(1) that] uf(4) sf(4) len that assms(2,3) by (simp_all add: s)
  have "0 < length ws" using len assms(3) by simp
  then have "name_of dst (bt_name_off ?u) = name_of src (bt_name_off ?s)" "valid_name dst (bt_name_off ?u)" "bt_size_type ?u = bt_size_type ?s"
    using name_at [OF \<open>0 < length ws\<close> zero] word_at [of 2] info_word [of t] uf sf len assms(2,3) by (simp_all add: s)
  moreover have "named_rest dst (btf_kind t) (bt_rest ?u) = named_rest src (btf_kind t) (bt_rest ?s)"
    using at rest by (auto simp: named_rest_def)
  ultimately have "named dst ?u = named src ?s" "names_ok dst ?u" using kind at rest by (simp_all add: named_def names_ok_def)
  moreover have "type_built ?u"
  proof -
    have "sized ?u" using assms(1) rest(1) kind(1,2) by (simp add: sized_def btf_type_size_def)
    moreover have "item_words (btf_kind ?u) \<noteq> 0 \<Longrightarrow> length (bt_rest ?u) = item_words (btf_kind ?u) * btf_vlen ?u"
      using sized_lengths [OF \<open>sized ?u\<close>] by (auto simp: item_words_def split: if_split_asm)
    ultimately show ?thesis using vlen_less [of ?u] by (auto simp: type_built_def Let_def)
  qed
  ultimately show ?thesis using rest by simp
qed

lemma add_types_ok:
  assumes "obj_ok dst" "map_ok src (btf_view dst) m" "btf__str_by_offset src 0 = Some (Some [])" "\<forall>t \<in> set ts. sized t"
    "add_types ok src d ts us m dst = Some (err, us', dst')"
  shows "obj_grows dst dst' \<and> err \<le> 0 \<and>
    (err = 0 \<longrightarrow> (\<exists>vs. us' = us @ vs \<and> length vs = length ts \<and> types_bytes vs = types_bytes ts \<and>
       map (named (btf_view dst')) vs = map (\<lambda>t. named src (shift_type d t)) ts \<and> (\<forall>v \<in> set vs. type_built v \<and> names_ok (btf_view dst') v)))"
  using assms(1,2,4,5)
proof (induction ts arbitrary: us m dst)
  case Nil
  then show ?case using obj_grows_refl by simp
next
  case (Cons t ts)
  have t: "sized t" using Cons.prems(3) by simp
  then have "\<not> btf_type_size t < 0" by (simp add: sized_def)
  moreover obtain it where it: "btf_field_iter_init t BTF_FIELD_ITER_STRS = Inr it"
    using known_kind [OF t] by (auto simp: btf_field_iter_init_def strs_desc_def)
  ultimately obtain e ws m1 dst1 where r: "rewrite_strs (ok (length us)) src 0 it (type_words t) m dst = Some (e, ws, m1, dst1)"
    and rest: "(if e \<noteq> 0 then Some (e, us, dst1)
          else case btf_field_iter_init (type_of_words ws) BTF_FIELD_ITER_IDS of
            Inl err \<Rightarrow> Some (err, us, dst1)
          | Inr it \<Rightarrow> do { ws \<leftarrow> shift_ids d it ws; add_types ok src d ts (us @ [type_of_words ws]) m1 dst1 }) = Some (err, us', dst')"
    using Cons.prems(4) by (auto simp: Let_def bind_eq_Some_conv)
  note rw = rewrite_strs_ok [OF iter_strs [OF it] distinct_words(1) Cons.prems(1,2) assms(3) r]
  show ?case
  proof (cases "e = 0")
    case False
    then show ?thesis using rest rw by simp
  next
    case True
    have len: "length ws = length (type_words t)" "3 \<le> length ws" using rw by (simp_all add: type_words_nth)
    have "bt_info (type_of_words ws) = bt_info t"
      using rw True len info_word [of t] type_of_words_fields(2) [OF len(2)] type_words_nth(2) [of t] by (auto split: if_splits)
    note iw = same_info_words [OF this] and k = same_info(1) [OF this]
    obtain it2 where it2: "btf_field_iter_init (type_of_words ws) BTF_FIELD_ITER_IDS = Inr it2"
      using known_kind [OF t] by (auto simp: btf_field_iter_init_def ids_desc_def k)
    have "\<forall>i \<in> set (id_words t). i < length ws" using words_bounds(1) [OF t] len(1) by simp
    from shift_ids_ok [OF iter_ids [OF it2, unfolded iw] distinct_words(2) this, of d]
    obtain xs where xs: "shift_ids d it2 ws = Some xs" "length xs = length ws"
        "\<forall>i < length ws. xs ! i = (if i \<in> set (id_words t) \<and> ws ! i \<noteq> 0 then ws ! i + d else ws ! i)" by blast
    let ?v = "type_of_words xs"
    have cp: "named (btf_view dst1) ?v = named src (shift_type d t) \<and> type_built ?v \<and> names_ok (btf_view dst1) ?v \<and>
        length (bt_rest ?v) = length (bt_rest t)"
      by (rule copied_type [OF t len(1) xs(2) _ xs(3)]) (use rw True len in \<open>simp del: view_Obj\<close>)
    have run: "add_types ok src d ts (us @ [?v]) m1 dst1 = Some (err, us', dst')" using rest True it2 xs(1) by simp
    have ok1: "obj_ok dst1" "map_ok src (btf_view dst1) m1" "\<forall>t \<in> set ts. sized t" using rw Cons.prems(3) by (auto simp: obj_grows_def)
    note ih = Cons.IH [OF ok1 run]
    have keep: "names_ok (btf_view dst') ?v \<and> named (btf_view dst') ?v = named (btf_view dst1) ?v"
      using named_grows [OF ok1(1)] ih cp by blast
    have "obj_grows dst dst'" using obj_grows_trans rw ih by blast
    moreover have "\<exists>vs. us' = us @ vs \<and> length vs = length (t # ts) \<and> types_bytes vs = types_bytes (t # ts) \<and>
       map (named (btf_view dst')) vs = map (\<lambda>t. named src (shift_type d t)) (t # ts) \<and> (\<forall>v \<in> set vs. type_built v \<and> names_ok (btf_view dst') v)"
      if e0: "err = 0"
    proof -
      obtain vs where "us' = us @ ?v # vs" "length vs = length ts" "types_bytes vs = types_bytes ts"
          "map (named (btf_view dst')) vs = map (\<lambda>t. named src (shift_type d t)) ts" "\<forall>v \<in> set vs. type_built v \<and> names_ok (btf_view dst') v"
        using ih e0 by auto
      then show ?thesis using keep cp by (intro exI [of _ "?v # vs"]) (simp del: view_Obj)
    qed
    ultimately show ?thesis using ih by blast
  qed
qed

lemma identity_map_ok: "map_ok src dst (Some (hashmap__init btf_dedup_identity_hash_fn btf_dedup_equal_fn))"
proof -
  have "btf_dedup_equal_fn = (=)" by (simp add: fun_eq_iff btf_dedup_equal_fn_def)
  moreover have "eqk.valid btf_dedup_identity_hash_fn (hashmap__init btf_dedup_identity_hash_fn (=) :: str_map)" by (rule eqk.valid_init)
  moreover have "hashmap_find (hashmap__init btf_dedup_identity_hash_fn (=) :: str_map) = Map.empty" by (rule find_init)
  ultimately show ?thesis by (simp add: map_ok_def)
qed

lemma offs_mem_grows:
  assumes "buffers_ok w" "o_raw w = None" "o_raw_swapped w = None" "btf_add_type_offs_mem ok w n = Some w'"
  shows "grows w w'"
proof -
  obtain c where c: "w' = w\<lparr>o_offs_cap := c\<rparr>" using assms(4) by (auto simp: btf_add_type_offs_mem_def)
  have sec: "str_sec w' = str_sec w" by (simp add: c str_sec_def btf_strs_data_def)
  then have "buffers_ok w'" using assms(1) by (cases "o_strs w") (auto simp: buffers_ok_def c)
  then show ?thesis using sec assms by (auto simp: grows_def same_frame_def c)
qed

lemma own_grows_trans:
  assumes "obj_grows b (Obj base w)" "grows w w'"
  shows "obj_grows b (Obj base w')"
proof -
  have "obj_ok (Obj base w)" using assms(1) by (simp add: obj_grows_def)
  then have "obj_grows (Obj base w) (Obj base w')" using own_grows [of "Obj base w" w'] assms(2) by simp
  with assms(1) show ?thesis by (rule obj_grows_trans)
qed

text \<open>Both copies make the destination modifiable and reserve memory for the types.\<close>

lemma type_mem_start:
  assumes "obj_ok b"
  obtains err w where "btf_ensure_modifiable ok (obj_base b \<noteq> None) (own b) = Some (err, w)" "err \<noteq> 0 \<or> btf_add_type_mem ok w n = None"
      "obj_grows b (Obj (obj_base b) w)"
  | w w1 where "btf_ensure_modifiable ok (obj_base b \<noteq> None) (own b) = Some (0, w)" "btf_add_type_mem ok w n = Some w1"
      "obj_grows b (Obj (obj_base b) w1)" "o_raw w1 = None" "o_raw_swapped w1 = None" "o_hdr w1 = o_hdr w" "unat (bh_type_len (o_hdr w1)) + n \<le> UINT_MAX"
proof -
  obtain err w where e: "btf_ensure_modifiable ok (obj_base b \<noteq> None) (own b) = Some (err, w)" "grows (own b) w"
      "err = 0 \<longrightarrow> (\<exists>s. o_strs w = In_set s) \<and> o_raw w = None \<and> o_raw_swapped w = None"
    by (rule ensure_modifiable_ok [OF obj_ok_strs [OF assms], of ok "obj_base b \<noteq> None"])
  note g = own_grows [OF assms e(2)]
  show thesis
  proof (cases "err = 0 \<and> btf_add_type_mem ok w n \<noteq> None")
    case False
    with that(1) [OF e(1) _ g] show thesis by blast
  next
    case True
    then obtain w1 where w1: "btf_add_type_mem ok w n = Some w1" by blast
    have raw: "o_raw w = None" "o_raw_swapped w = None" "buffers_ok w" using e True by (auto simp: grows_def)
    note g1 = add_type_mem_grows [OF raw(3,1,2) w1]
    have "obj_grows b (Obj (obj_base b) w1)" using own_grows_trans [OF g] g1 by blast
    moreover have "o_raw w1 = None" "o_raw_swapped w1 = None" "o_hdr w1 = o_hdr w" using w1 raw(1,2) by (auto simp: btf_add_type_mem_def)
    ultimately show thesis using that(2) [of w w1] e(1) True w1 g1 by simp
  qed
qed

text \<open>Before the loop: an error, or an object with memory for the types and an empty map.\<close>

lemma add_btf_start:
  assumes "obj_ok b" "obj_ok src" "obj_base src = None" "unat (bh_type_len (o_hdr (own src))) < 2 ^ 31"
  obtains err b1 where "btf__add_btf ok0 ok b src = Some (err, b1)" "err < 0" "obj_grows b b1"
  | w where "obj_grows b (Obj (obj_base b) w)" "o_raw w = None" "o_raw_swapped w = None"
      "unat (bh_type_len (o_hdr w)) + unat (bh_type_len (o_hdr (own src))) \<le> UINT_MAX"
      "btf__add_btf ok0 ok b src = (case add_types ok (btf_view src) (of_nat (o_start_id w + length (o_types w) - 1)) (o_types (own src)) []
           (Some (hashmap__init btf_dedup_identity_hash_fn btf_dedup_equal_fn)) (Obj (obj_base b) w) of None \<Rightarrow> None
         | Some (err, ts, b1) \<Rightarrow>
             (if err \<noteq> 0 then
                if bh_str_len (o_hdr (own b1)) \<noteq> bh_str_len (o_hdr w) then None else Some (err, b1)
              else Some (int (o_start_id (own b1)) + int (length (o_types (own b1) @ ts)) - int (length (o_types (own src))),
                Obj (obj_base b1) ((add_lens (unat (bh_type_len (o_hdr (own src)))) (own b1))\<lparr>o_types := o_types (own b1) @ ts\<rparr>))))"
proof -
  let ?n = "unat (bh_type_len (o_hdr (own src)))" and ?k = "btf__type_cnt (btf_view src) - 1" and ?o = "Obj (obj_base b)"
  have k: "?k = length (o_types (own src))" using assms(2,3) by (cases src) (simp add: root_ok_def btf__type_cnt_def)
  have n: "\<not> 2 ^ 31 \<le> ?n" using assms(4) by simp
  show thesis
  proof (cases rule: type_mem_start [OF assms(1), of ok0 ?n])
    case (1 err w)
    then have "btf__add_btf ok0 ok b src = Some (- ENOMEM, ?o w)" using assms(3) n by (auto simp: btf__add_btf_def Let_def)
    from that(1) [OF this _ 1(3)] show thesis by simp
  next
    case (2 w w1)
    note e = 2(1) and w1 = 2(2) and ok1 = 2(3) and raw1 = 2(4-6)
    have buf: "buffers_ok w1" using obj_ok_strs [of "?o w1"] ok1 by (simp add: obj_grows_def)
    show thesis
    proof (cases "\<exists>w2. btf_add_type_offs_mem ok0 w1 ?k = Some w2 \<and> ok0 S_map")
      case False
      then obtain w2 where "btf__add_btf ok0 ok b src = Some (- ENOMEM, ?o w2)" "w2 = w1 \<or> btf_add_type_offs_mem ok0 w1 ?k = Some w2"
        using e w1 assms(3) n
        by (cases "btf_add_type_offs_mem ok0 w1 ?k") (auto simp: btf__add_btf_def Let_def hashmap__new_def simp del: view_Obj)
      moreover from this(2) have "obj_grows b (?o w2)"
        using ok1 own_grows_trans [OF ok1] offs_mem_grows [OF buf raw1(1,2)] by blast
      ultimately show thesis using that(1) by fastforce
    next
      case off: True
      then obtain w2 where w2: "btf_add_type_offs_mem ok0 w1 ?k = Some w2" "ok0 S_map" by blast
      have f: "o_raw w2 = None" "o_raw_swapped w2 = None" "o_hdr w2 = o_hdr w" using w2(1) raw1 by (auto simp: btf_add_type_offs_mem_def)
      have same: "bh_str_len (o_hdr (own b1)) = l \<Longrightarrow> Obj (obj_base b1) (own b1\<lparr>o_hdr := o_hdr (own b1)\<lparr>bh_str_len := l\<rparr>\<rparr>) = b1" for b1 l
        by (cases b1) auto
      show thesis
      proof (rule that(2) [of w2])
        show "obj_grows b (?o w2)" by (rule own_grows_trans [OF ok1 offs_mem_grows [OF buf raw1(1,2) w2(1)]])
        show "unat (bh_type_len (o_hdr w2)) + ?n \<le> UINT_MAX" using 2(6,7) f(3) by simp
        show "btf__add_btf ok0 ok b src = (case add_types ok (btf_view src) (of_nat (o_start_id w2 + length (o_types w2) - 1)) (o_types (own src)) []
             (Some (hashmap__init btf_dedup_identity_hash_fn btf_dedup_equal_fn)) (?o w2) of None \<Rightarrow> None
           | Some (err, ts, b1) \<Rightarrow>
               (if err \<noteq> 0 then
                  if bh_str_len (o_hdr (own b1)) \<noteq> bh_str_len (o_hdr w2) then None else Some (err, b1)
                else Some (int (o_start_id (own b1)) + int (length (o_types (own b1) @ ts)) - int (length (o_types (own src))),
                  Obj (obj_base b1) ((add_lens ?n (own b1))\<lparr>o_types := o_types (own b1) @ ts\<rparr>))))"
          using e w1 w2 assms(3) n f(3) k
          by (auto simp: btf__add_btf_def Let_def hashmap__new_def add_lens_def same simp del: view_Obj split: bind_splits option.splits prod.splits)
      qed (use f in simp_all)
    qed
  qed
qed

lemma add_btf_finish:
  assumes "build_ok le b" "build_ok host src" "\<forall>t \<in> set (o_types (own src)). fits t" "obj_grows b (Obj (obj_base b) w)"
    "o_raw w = None" "o_raw_swapped w = None" "unat (bh_type_len (o_hdr w)) + unat (bh_type_len (o_hdr (own src))) \<le> UINT_MAX"
    "add_types ok (btf_view src) (of_nat (o_start_id w + length (o_types w) - 1)) (o_types (own src)) []
       (Some (hashmap__init btf_dedup_identity_hash_fn btf_dedup_equal_fn)) (Obj (obj_base b) w) = Some (err, ts, b1)"
  shows "obj_grows b b1 \<and> err \<le> 0 \<and>
    (err = 0 \<longrightarrow> (let b' = Obj (obj_base b1) ((add_lens (unat (bh_type_len (o_hdr (own src)))) (own b1))\<lparr>o_types := o_types (own b1) @ ts\<rparr>) in
       o_start_id (own b1) + length (o_types (own b1)) = btf__type_cnt (btf_view b) \<and> length ts = length (o_types (own src)) \<and>
       build_ok le b' \<and> same_base b b' \<and>
       abs_types b' = abs_types b @ map (\<lambda>t. named (btf_view src) (shift_type (of_nat (btf__type_cnt (btf_view b) - 1)) t)) (o_types (own src))))"
proof -
  let ?d = "of_nat (o_start_id w + length (o_types w) - 1) :: u32" and ?n = "unat (bh_type_len (o_hdr (own src)))"
  have ok: "obj_ok src" "layout_ok (own src)" "obj_ok (Obj (obj_base b) w)" using assms(2,4) by (simp_all add: build_ok_def obj_grows_def del: view_Obj)
  have sz: "\<forall>t \<in> set (o_types (own src)). sized t" using assms(2,3) built_sized by (simp add: build_ok_def del: view_Obj)
  note at = add_types_ok [OF ok(3) identity_map_ok obj_root_name [OF ok(1)] sz assms(8)]
  have g: "obj_grows b b1" using obj_grows_trans [OF assms(4)] at by blast
  show ?thesis
  proof (cases "err = 0")
    case False
    then show ?thesis using at g by simp
  next
    case True
    obtain vs where vs: "ts = vs" "length vs = length (o_types (own src))" "types_bytes vs = types_bytes (o_types (own src))"
        "map (named (btf_view b1)) vs = map (\<lambda>t. named (btf_view src) (shift_type ?d t)) (o_types (own src))"
        "\<forall>v \<in> set vs. type_built v \<and> names_ok (btf_view b1) v"
      using at True by auto
    have fr: "same_frame (own b) (own b1)" "same_frame w (own b1)" "own b1 = w \<or> o_raw (own b1) = None \<and> o_raw_swapped (own b1) = None"
      using g at by (auto simp: obj_grows_def grows_def)
    have raw: "o_raw (own b1) = None" "o_raw_swapped (own b1) = None" using fr(3) assms(5,6) by auto
    have cnt: "btf__type_cnt (btf_view b) = o_start_id w + length (o_types w)" "o_start_id (own b1) + length (o_types (own b1)) = btf__type_cnt (btf_view b)"
      using fr(1,2) by (simp_all add: same_frame_def btf__type_cnt_def)
    have b1: "build_ok le b1" "abs_types b1 = abs_types b" using build_ok_grows [OF assms(1) g] abs_types_grows [OF assms(1) g] by blast+
    let ?ts = "o_types (own b1) @ vs"
    have re: "retyped (own b1) ?n ?ts ((add_lens ?n (own b1))\<lparr>o_types := ?ts\<rparr>)" by (auto simp: retyped_def intro: exI [of _ "o_offs_cap (own b1)"])
    have fit: "unat (bh_type_len (o_hdr (own b1))) + ?n \<le> UINT_MAX" using assms(7) fr(2) by (simp add: same_frame_def)
    have bytes: "types_bytes ?ts = types_bytes (o_types (own b1)) + ?n" using vs(3) ok(2) by (simp add: layout_ok_def)
    have all: "\<forall>t \<in> set ?ts. type_built t \<and> names_ok (btf_view b1) t" using vs(5) b1(1) unfolding build_ok_def by auto
    note fin = retype_ok [OF b1(1) raw re fit bytes all]
    have "same_base b (Obj (obj_base b1) w')" for w' using g by (simp add: same_base_def obj_grows_def)
    moreover have "map (named (btf_view b1)) ?ts = abs_types b @ map (\<lambda>t. named (btf_view src) (shift_type ?d t)) (o_types (own src))"
      using vs(4) b1(2) by (simp add: abs_types_def [of b1] del: view_Obj)
    ultimately show ?thesis using fin at g True vs(1,2) cnt by (simp add: Let_def del: view_Obj)
  qed
qed

lemma add_btf_ok:
  assumes "build_ok le b" "build_ok host src" "\<forall>t \<in> set (o_types (own src)). fits t" "btf__add_btf ok0 ok b src = Some (r, b')"
  shows "build_ok le b' \<and> same_base b b' \<and>
    (if r < 0 then abs_types b' = abs_types b
     else r = int (btf__type_cnt (btf_view b)) \<and> obj_base src = None \<and>
       abs_types b' = abs_types b @ map (\<lambda>t. named (btf_view src) (shift_type (of_nat (btf__type_cnt (btf_view b) - 1)) t)) (o_types (own src)))"
proof -
  have ok: "obj_ok b" "obj_ok src" "layout_ok (own src)" using assms(1,2) by (simp_all add: build_ok_def del: view_Obj)
  have fail: ?thesis if "r < 0" "obj_grows b b'"
    using that build_ok_grows [OF assms(1)] abs_types_grows [OF assms(1)] by (simp add: same_base_def obj_grows_def del: view_Obj)
  consider "obj_base src \<noteq> None" | "obj_base src = None" "\<not> unat (bh_type_len (o_hdr (own src))) < 2 ^ 31"
    | "obj_base src = None" "unat (bh_type_len (o_hdr (own src))) < 2 ^ 31" by blast
  then show ?thesis
  proof cases
    case 1
    then show ?thesis using fail assms(4) obj_grows_refl [OF ok(1)] by (auto simp: btf__add_btf_def)
  next
    case 2
    obtain err w where "btf_ensure_modifiable ok0 (obj_base b \<noteq> None) (own b) = Some (err, w)" "grows (own b) w"
      by (rule ensure_modifiable_ok [OF obj_ok_strs [OF ok(1)], of ok0 "obj_base b \<noteq> None"])
    moreover from this have "r = - ENOMEM" "b' = Obj (obj_base b) w" using 2 assms(4) by (auto simp: btf__add_btf_def Let_def split: if_splits)
    ultimately show ?thesis using fail own_grows [OF ok(1)] by simp
  next
    case 3
    show ?thesis
    proof (cases rule: add_btf_start [OF ok(1,2) 3, of ok0 ok])
      case (1 err b1)
      then show ?thesis using fail assms(4) by simp
    next
      case (2 w)
      then obtain err ts b1 where run: "add_types ok (btf_view src) (of_nat (o_start_id w + length (o_types w) - 1)) (o_types (own src)) []
          (Some (hashmap__init btf_dedup_identity_hash_fn btf_dedup_equal_fn)) (Obj (obj_base b) w) = Some (err, ts, b1)"
        and res: "if err \<noteq> 0 then r = err \<and> b' = b1
          else r = int (o_start_id (own b1)) + int (length (o_types (own b1) @ ts)) - int (length (o_types (own src))) \<and>
            b' = Obj (obj_base b1) ((add_lens (unat (bh_type_len (o_hdr (own src)))) (own b1))\<lparr>o_types := o_types (own b1) @ ts\<rparr>)"
        using assms(4) by (auto simp del: view_Obj split: option.split_asm if_split_asm)
      note fin = add_btf_finish [OF assms(1-3) 2(1-4) run]
      show ?thesis
      proof (cases "err = 0")
        case True
        then show ?thesis using fin res 3(1) by (simp add: Let_def del: view_Obj)
      qed (use fin res fail in simp)
    qed
  qed
qed

section \<open>One type is copied\<close>

lemma shift_zero [simp]: "shift_type 0 t = t"
proof -
  have "map (\<lambda>i. let w = type_words t ! i in if i \<in> set (id_words t) \<and> w \<noteq> 0 then w + 0 else w) [0..<length (type_words t)] = type_words t"
    by (intro nth_equalityI) (simp_all add: Let_def)
  then show ?thesis by (simp only: shift_type_def type_of_type_words)
qed

lemma commit_ok:
  assumes "build_ok le b" "o_raw (own b) = None" "o_raw_swapped (own b) = None" "btf_commit_type ok (own b) n t = (r, w')"
    "unat (bh_type_len (o_hdr (own b))) + n \<le> UINT_MAX" "type_built t" "names_ok (btf_view b) t" "n = 12 + 4 * length (bt_rest t)"
  shows "build_ok le (Obj (obj_base b) w') \<and>
    (if r < 0 then abs_types (Obj (obj_base b) w') = abs_types b
     else r = int (btf__type_cnt (btf_view b)) \<and> abs_types (Obj (obj_base b) w') = abs_types b @ [named (btf_view b) t])"
proof (cases "btf_add_type_offs_mem ok (own b) 1")
  case None
  then have "r = - ENOMEM" "w' = own b" using assms(4) by (simp_all add: btf_commit_type_def btf_add_type_idx_entry_def)
  then show ?thesis using assms(1) by (cases b) simp
next
  case (Some w2)
  then obtain cap where "w2 = (own b)\<lparr>o_offs_cap := cap\<rparr>" by (auto simp: btf_add_type_offs_mem_def)
  then have w': "r = int (o_start_id (own b)) + int (length (o_types (own b)))" "retyped (own b) n (o_types (own b) @ [t]) w'"
    using assms(4) Some by (auto simp: btf_commit_type_def btf_add_type_idx_entry_def retyped_def add_lens_def)
  have "\<forall>t \<in> set (o_types (own b)). type_built t \<and> names_ok (btf_view b) t" using assms(1) by (simp add: build_ok_def del: view_Obj)
  then show ?thesis using retype_ok [OF assms(1-3) w'(2) assms(5)] assms(6-8) w'(1)
    by (simp add: abs_types_def btf__type_cnt_def del: view_Obj) simp
qed

lemma add_type_ok:
  assumes "build_ok le b" "btf__str_by_offset src 0 = Some (Some [])" "sized t" "btf__add_type ok b src t = Some (r, b')"
  shows "build_ok le b' \<and> same_base b b' \<and>
    (if r < 0 then abs_types b' = abs_types b
     else r = int (btf__type_cnt (btf_view b)) \<and> abs_types b' = abs_types b @ [named src t])"
proof -
  let ?n = "nat (btf_type_size t)" and ?o = "Obj (obj_base b)"
  have ok: "obj_ok b" using assms(1) by (simp add: build_ok_def del: view_Obj)
  have n: "\<not> btf_type_size t < 0" "?n div 4 = length (type_words t)" "?n = 12 + 4 * length (bt_rest t)"
    using assms(3) by (auto simp: sized_def type_words_def)
  have fail: ?thesis if "r < 0" "obj_grows b b'"
    using that build_ok_grows [OF assms(1)] abs_types_grows [OF assms(1)] by (simp add: same_base_def obj_grows_def del: view_Obj)
  obtain it where it: "btf_field_iter_init t BTF_FIELD_ITER_STRS = Inr it"
    using known_kind [OF assms(3)] by (auto simp: btf_field_iter_init_def strs_desc_def)
  show ?thesis
  proof (cases rule: type_mem_start [OF ok, of "ok 0 0" ?n])
    case (1 err w)
    then have "r = - ENOMEM" "b' = ?o w"
      using assms(4) n(1) by (auto simp: btf__add_type_def btf_add_type_def Let_def split: if_split_asm)
    then show ?thesis using fail 1(3) by simp
  next
    case (2 w w1)
    obtain e2 ws m' b2 where rw: "rewrite_strs ok src 1 it (type_words t) None (?o w1) = Some (e2, ws, m', b2)"
      and res: "if e2 \<noteq> 0 then r = e2 \<and> b' = b2
        else \<exists>w'. btf_commit_type (ok 0 0) (own b2) ?n (type_of_words ws) = (r, w') \<and> b' = Obj (obj_base b2) w'"
      using assms(4) 2(1,2) n(1,2) it
      by (auto simp: btf__add_type_def btf_add_type_def Let_def bind_eq_Some_conv split: if_split_asm prod.split_asm)
    have ok1: "obj_ok (?o w1)" "map_ok src (btf_view (?o w1)) None" using 2(3) by (simp_all add: obj_grows_def map_ok_def)
    note rs = rewrite_strs_ok [OF iter_strs [OF it] distinct_words(1) ok1 assms(2) rw]
    have g3: "obj_grows b b2" using obj_grows_trans [OF 2(3)] rs by blast
    show ?thesis
    proof (cases "e2 = 0")
      case False
      then show ?thesis using fail res rs g3 by simp
    next
      case True
      then obtain w' where c: "btf_commit_type (ok 0 0) (own b2) ?n (type_of_words ws) = (r, w')" "b' = Obj (obj_base b2) w'" using res by auto
      have len: "length ws = length (type_words t)" using rs by simp
      have cp: "named (btf_view b2) (type_of_words ws) = named src (shift_type 0 t) \<and> type_built (type_of_words ws) \<and>
          names_ok (btf_view b2) (type_of_words ws) \<and> length (bt_rest (type_of_words ws)) = length (bt_rest t)"
        by (rule copied_type [OF assms(3) len refl]) (use rs True len in \<open>simp_all del: view_Obj\<close>)
      have fr: "same_frame (own b) (own b2)" "same_frame w1 (own b2)" "own b2 = w1 \<or> o_raw (own b2) = None \<and> o_raw_swapped (own b2) = None"
        using g3 rs by (auto simp: obj_grows_def grows_def)
      have raw2: "o_raw (own b2) = None" "o_raw_swapped (own b2) = None" using fr(3) 2(4,5) by auto
      have fit: "unat (bh_type_len (o_hdr (own b2))) + ?n \<le> UINT_MAX" using 2(7) fr(2) by (simp add: same_frame_def)
      have nl: "?n = 12 + 4 * length (bt_rest (type_of_words ws))" using cp n(3) by simp
      note fin = commit_ok [OF build_ok_grows [OF assms(1) g3] raw2 c(1) fit conjunct1 [OF conjunct2 [OF cp]] _ nl]
      have "btf__type_cnt (btf_view b2) = btf__type_cnt (btf_view b)" using fr(1) by (simp add: same_frame_def btf__type_cnt_def)
      moreover have "same_base b b'" using g3 by (simp add: same_base_def obj_grows_def c(2))
      ultimately show ?thesis using fin cp abs_types_grows [OF assms(1) g3] by (simp add: c(2) del: view_Obj split: if_splits)
    qed
  qed
qed

section \<open>Copies end\<close>

lemma root_grows: "obj_base b = None \<Longrightarrow> obj_grows b b' \<Longrightarrow> obj_base b' = None"
  by (simp add: obj_grows_def)

lemma rewrite_str_total:
  assumes "obj_ok dst" "obj_base dst = None" "btf__str_by_offset src k = Some (Some s)"
  shows "\<exists>x. btf_rewrite_str ok src m dst k = Some x"
proof -
  obtain r dst' where "btf__add_str ok dst s = Some (r, dst')" using btf__add_str_total [OF assms(1,2) str_no_zero [OF assms(3)]] by blast
  then show ?thesis using assms(3) by (auto simp: btf_rewrite_str_def split: option.split prod.split)
qed

lemma rewrite_strs_total:
  assumes "yields it (map (\<lambda>i. 4 * i) xs)" "distinct xs" "obj_ok dst" "obj_base dst = None" "map_ok src (btf_view dst) m"
    "btf__str_by_offset src 0 = Some (Some [])" "\<forall>i \<in> set xs. i < length ws \<and> (\<exists>s. btf__str_by_offset src (ws ! i) = Some (Some s))"
  shows "\<exists>x. rewrite_strs ok src n it ws m dst = Some x"
  using assms(1-5,7)
proof (induction xs arbitrary: it n ws m dst)
  case Nil
  then show ?case by (auto simp: rewrite_strs.simps [of _ _ _ it] split: prod.splits)
next
  case (Cons x xs)
  obtain it' where it': "btf_field_iter_next it = (Some (4 * x), it')" "yields it' (map (\<lambda>i. 4 * i) xs)"
    using Cons.prems(1) by (auto split: prod.splits)
  obtain s where x: "x < length ws" "btf__str_by_offset src (ws ! x) = Some (Some s)" using Cons.prems(6) by auto
  obtain e v m1 dst1 where r: "btf_rewrite_str (ok n) src m dst (ws ! x) = Some (e, v, m1, dst1)"
    using rewrite_str_total [OF Cons.prems(3,4) x(2), of "ok n" m] by auto
  have g: "obj_grows dst dst1" "map_ok src (btf_view dst1) m1" using rewrite_str_ok [OF Cons.prems(3,5) assms(6) r] by simp_all
  have ok1: "obj_ok dst1" "obj_base dst1 = None" using root_grows [OF Cons.prems(4) g(1)] g(1) by (simp_all add: obj_grows_def)
  have "\<forall>i \<in> set xs. i < length (ws[x := v]) \<and> (\<exists>s. btf__str_by_offset src (ws[x := v] ! i) = Some (Some s))"
    using Cons.prems(2,6) by (auto simp: nth_list_update)
  from Cons.IH [OF it'(2) _ ok1 g(2) this, of "Suc n"] obtain y where "rewrite_strs ok src (Suc n) it' (ws[x := v]) m1 dst1 = Some y"
    using Cons.prems(2) by auto
  then show ?case using x(1) r unfolding rewrite_strs_step [OF it'(1)] by (cases y) (simp add: aget_def)
qed

lemma name_words_read:
  assumes "sized t" "names_ok src t"
  shows "\<forall>i \<in> set (name_words t). i < length (type_words t) \<and> (\<exists>s. btf__str_by_offset src (type_words t ! i) = Some (Some s))"
proof
  fix i assume i: "i \<in> set (name_words t)"
  then have l: "i < length (type_words t)" using words_bounds(2) [OF assms(1)] by blast
  consider "i = 0" | j where "i = 3 + j" using i info_word [of t] by (metis One_nat_def Suc_1 add.commute add_2_eq_Suc' le_add_diff_inverse not_less_eq_eq numeral_3_eq_3 le_SucE le_zero_eq)
  then show "i < length (type_words t) \<and> (\<exists>s. btf__str_by_offset src (type_words t ! i) = Some (Some s))"
  proof cases
    case 1
    then show ?thesis using l assms(2) type_words_nth(1) [of t] by (simp add: names_ok_def valid_name_def)
  next
    case 2
    then have "j < length (bt_rest t)" using l by (simp add: type_words_nth(5))
    then show ?thesis using name_words_rest [OF assms(1)] i l assms(2) type_words_nth(4) [of t j] 2 by (simp add: names_ok_def valid_name_def)
  qed
qed

lemma add_types_total:
  assumes "obj_ok dst" "obj_base dst = None" "map_ok src (btf_view dst) m" "btf__str_by_offset src 0 = Some (Some [])"
    "\<forall>t \<in> set ts. sized t \<and> names_ok src t"
  shows "\<exists>x. add_types ok src d ts us m dst = Some x"
  using assms(1-3,5)
proof (induction ts arbitrary: us m dst)
  case (Cons t ts)
  have t: "sized t" "names_ok src t" using Cons.prems(4) by simp_all
  obtain it where it: "btf_field_iter_init t BTF_FIELD_ITER_STRS = Inr it"
    using known_kind [OF t(1)] by (auto simp: btf_field_iter_init_def strs_desc_def)
  obtain e ws m1 dst1 where r: "rewrite_strs (ok (length us)) src 0 it (type_words t) m dst = Some (e, ws, m1, dst1)"
    using rewrite_strs_total [OF iter_strs [OF it] distinct_words(1) Cons.prems(1-3) assms(4) name_words_read [OF t], of "ok (length us)" 0] by auto
  note rw = rewrite_strs_ok [OF iter_strs [OF it] distinct_words(1) Cons.prems(1,3) assms(4) r]
  have ok1: "obj_ok dst1" "obj_base dst1 = None" "map_ok src (btf_view dst1) m1" "\<forall>t \<in> set ts. sized t \<and> names_ok src t"
    using rw root_grows [OF Cons.prems(2), of dst1] Cons.prems(4) by (simp_all add: obj_grows_def)
  note ih = Cons.IH [OF ok1]
  show ?case
  proof (cases "e = 0")
    case True
    have len: "length ws = length (type_words t)" "3 \<le> length ws" using rw by (simp_all add: type_words_nth)
    have info: "bt_info (type_of_words ws) = bt_info t"
      using rw True len info_word [of t] type_of_words_fields(2) [OF len(2)] type_words_nth(2) [of t] by (auto split: if_splits)
    obtain it2 where it2: "btf_field_iter_init (type_of_words ws) BTF_FIELD_ITER_IDS = Inr it2"
      using known_kind [OF t(1)] by (auto simp: btf_field_iter_init_def ids_desc_def same_info(1) [OF info])
    have "\<forall>i \<in> set (id_words t). i < length ws" using words_bounds(1) [OF t(1)] len(1) by simp
    from shift_ids_ok [OF iter_ids [OF it2, unfolded same_info_words [OF info]] distinct_words(2) this, of d]
    obtain xs where "shift_ids d it2 ws = Some xs" by blast
    then show ?thesis using t(1) it r True it2 ih [of "us @ [type_of_words xs]"] by (simp add: Let_def sized_def)
  qed (use t(1) it r in \<open>simp add: Let_def sized_def\<close>)
qed simp

section \<open>All types of another object\<close>

text \<open>Appending the types of one built object to another returns the identifier of the first copy, keeps the types that
  were there, and adds every type of the source in its order, with the same names, and with every identifier but that of void moved
  by the number of types before it. A failure leaves the types as they were. The call ends, unless a string cannot be
  copied, when the cleaning up may fail.\<close>

theorem btf_add_btf_copies:
  assumes "build_ok le b" "obj_base b = None" "build_ok host src" "list_all fits (o_types (own src))" "unat (bh_type_len (o_hdr (own src))) < 2 ^ 31"
  shows "case btf__add_btf ok0 ok b src of
     None \<Rightarrow> \<exists>d m dst err us b'. add_types ok (btf_view src) d (o_types (own src)) [] m dst = Some (err, us, b') \<and> err < 0
   | Some (r, b') \<Rightarrow> build_ok le b' \<and> obj_base b' = None \<and>
       (if r < 0 then abs_types b' = abs_types b
        else r = int (btf__type_cnt (btf_view b)) \<and> obj_base src = None \<and>
          abs_types b' = abs_types b @ map (\<lambda>t. named (btf_view src) (shift_type (of_nat (length (o_types (own b)))) t)) (o_types (own src)))"
proof -
  have fit: "\<forall>t \<in> set (o_types (own src)). fits t" using assms(4) by (simp add: list_all_iff)
  have ok: "obj_ok b" "obj_ok src" using assms(1,3) by (simp_all add: build_ok_def del: view_Obj)
  have cnt: "btf__type_cnt (btf_view b) - 1 = length (o_types (own b))" using ok(1) assms(2) by (cases b) (simp add: root_ok_def btf__type_cnt_def)
  show ?thesis
  proof (cases "btf__add_btf ok0 ok b src")
    case (Some x)
    then show ?thesis using add_btf_ok [OF assms(1,3) fit] assms(2) cnt by (cases x) (auto simp del: view_Obj)
  next
    case None
    then have "obj_base src = None" by (auto simp: btf__add_btf_def split: if_splits)
    from ok this assms(5) show ?thesis
    proof (cases rule: add_btf_start [of b src ok0 ok])
      case (1 err b1)
      then show ?thesis using None by simp
    next
      case (2 w)
      have okw: "obj_ok (Obj (obj_base b) w)" using 2(1) by (simp add: obj_grows_def)
      have "\<forall>t \<in> set (o_types (own src)). sized t \<and> names_ok (btf_view src) t"
        using assms(3) fit built_sized by (simp add: build_ok_def del: view_Obj)
      from add_types_total [OF okw _ identity_map_ok obj_root_name [OF ok(2)] this, of ok _ "[]"] assms(2)
      obtain err us b1 where run: "add_types ok (btf_view src) (of_nat (o_start_id w + length (o_types w) - 1)) (o_types (own src)) []
          (Some (hashmap__init btf_dedup_identity_hash_fn btf_dedup_equal_fn)) (Obj (obj_base b) w) = Some (err, us, b1)"
        by (metis btf_obj.sel(1) prod_cases3)
      moreover have "err \<noteq> 0" using None 2(5) run by (auto simp del: view_Obj split: if_splits)
      ultimately have "err < 0" using add_btf_finish [OF assms(1,3) fit 2(1-4) run] by simp
      then show ?thesis using None run unfolding None option.case by blast
    qed
  qed
qed

end
