(* ===== verification/Core_Relo.thy ===== *)
theory Core_Relo
  imports Btf Bpf_Insn
begin

text \<open>
  Field and type relocations of BPF programs, \<open>libbpf/src/relo_core.c\<close>, with the candidate search of \<open>libbpf.c\<close>:
  reading the access string of a relocation into a path, finding the same path in the types of the kernel, computing
  the value and patching the instruction. The two stacks of a specification, \<open>spec[len]\<close> and
  \<open>raw_spec[raw_len]\<close>, are lists (each loop pushes and pops at the end only). Messages, with the text
  \<open>bpf_core_format_spec\<close> makes for them, are left out.
\<close>

abbreviation (input) EUCLEAN :: int where "EUCLEAN \<equiv> 117"
abbreviation (input) BPF_CORE_SPEC_MAX_LEN :: nat where "BPF_CORE_SPEC_MAX_LEN \<equiv> 64"

section \<open>Relocations\<close>

datatype bpf_core_relo_kind =
  BPF_CORE_FIELD_BYTE_OFFSET | BPF_CORE_FIELD_BYTE_SIZE | BPF_CORE_FIELD_EXISTS | BPF_CORE_FIELD_SIGNED
| BPF_CORE_FIELD_LSHIFT_U64 | BPF_CORE_FIELD_RSHIFT_U64 | BPF_CORE_TYPE_ID_LOCAL | BPF_CORE_TYPE_ID_TARGET
| BPF_CORE_TYPE_EXISTS | BPF_CORE_TYPE_SIZE | BPF_CORE_ENUMVAL_EXISTS | BPF_CORE_ENUMVAL_VALUE | BPF_CORE_TYPE_MATCHES
| Other_kind u32

record bpf_core_relo =
  cr_type_id :: u32
  cr_access_str_off :: u32
  cr_kind :: bpf_core_relo_kind

record bpf_core_accessor =
  ac_type_id :: u32
  ac_idx :: u32
  ac_name :: "u8 list option"

record bpf_core_spec =
  sp_btf :: btf
  sp_spec :: "bpf_core_accessor list"
  sp_root_type_id :: u32
  sp_relo_kind :: bpf_core_relo_kind
  sp_raw_spec :: "int list"
  sp_bit_offset :: u32

record bpf_core_relo_res =
  rr_orig_val :: u64
  rr_new_val :: u64
  rr_poison :: bool
  rr_validate :: bool
  rr_fail_memsz_adjust :: bool
  rr_orig_sz :: u32
  rr_orig_type_id :: u32
  rr_new_sz :: u32
  rr_new_type_id :: u32

definition core_relo_is_field_based :: "bpf_core_relo_kind \<Rightarrow> bool" where
  "core_relo_is_field_based k \<longleftrightarrow> k \<in> {BPF_CORE_FIELD_BYTE_OFFSET, BPF_CORE_FIELD_BYTE_SIZE, BPF_CORE_FIELD_EXISTS,
     BPF_CORE_FIELD_SIGNED, BPF_CORE_FIELD_LSHIFT_U64, BPF_CORE_FIELD_RSHIFT_U64}"

definition core_relo_is_type_based :: "bpf_core_relo_kind \<Rightarrow> bool" where
  "core_relo_is_type_based k \<longleftrightarrow> k \<in> {BPF_CORE_TYPE_ID_LOCAL, BPF_CORE_TYPE_ID_TARGET, BPF_CORE_TYPE_EXISTS,
     BPF_CORE_TYPE_MATCHES, BPF_CORE_TYPE_SIZE}"

definition core_relo_is_enumval_based :: "bpf_core_relo_kind \<Rightarrow> bool" where
  "core_relo_is_enumval_based k \<longleftrightarrow> k \<in> {BPF_CORE_ENUMVAL_EXISTS, BPF_CORE_ENUMVAL_VALUE}"

definition is_flex_arr :: "btf \<Rightarrow> bpf_core_accessor \<Rightarrow> btf_array \<Rightarrow> bool option" where
  "is_flex_arr b acc arr =
     (if ac_name acc = None \<or> ba_nelems arr > 0 then Some False
      else do { t \<leftarrow> btf_type_by_id b (ac_type_id acc); Some (ac_idx acc = of_int (int (btf_vlen t) - 1)) })"

section \<open>Names\<close>

abbreviation (input) underscore :: u8 where "underscore \<equiv> 0x5f"

definition bpf_core_is_flavor_sep :: "u8 list \<Rightarrow> bool" where
  "bpf_core_is_flavor_sep s \<longleftrightarrow> s ! 0 \<noteq> underscore \<and> s ! 1 = underscore \<and> s ! 2 = underscore \<and> s ! 3 = underscore \<and>
     s ! 4 \<noteq> underscore"

text \<open>The loop downwards over the positions below \<open>i\<close>; a position has at least five characters from it on.\<close>

primrec essential_loop :: "u8 list \<Rightarrow> nat \<Rightarrow> nat" where
  "essential_loop name 0 = length name"
| "essential_loop name (Suc i) = (if bpf_core_is_flavor_sep (drop i name) then i + 1 else essential_loop name i)"

definition bpf_core_essential_name_len :: "u8 list \<Rightarrow> nat" where
  "bpf_core_essential_name_len name = essential_loop name (length name - 4)"

definition strncmp_eq :: "u8 list \<Rightarrow> u8 list \<Rightarrow> nat \<Rightarrow> bool" where
  "strncmp_eq s t n \<longleftrightarrow> take n s = take n t"

definition bpf_core_names_match :: "btf \<Rightarrow> u32 \<Rightarrow> btf \<Rightarrow> u32 \<Rightarrow> bool option" where
  "bpf_core_names_match local_btf local_name_off targ_btf targ_name_off = do {
     local_n \<leftarrow> btf__name_by_offset local_btf local_name_off;
     targ_n \<leftarrow> btf__name_by_offset targ_btf targ_name_off;
     if str_is_empty targ_n then Some (str_is_empty local_n)
     else do {
       t \<leftarrow> targ_n;
       l \<leftarrow> local_n;
       let targ_len = bpf_core_essential_name_len t;
       let local_len = bpf_core_essential_name_len l;
       Some (targ_len = local_len \<and> strncmp_eq l t local_len) } }"

section \<open>Reading the access string\<close>

text \<open>\<open>sscanf("%d%n")\<close> as the C library does it: blanks, a sign, digits; the number is cut to 32 bits.\<close>

definition blank :: "u8 \<Rightarrow> bool" where
  "blank c \<longleftrightarrow> c \<in> {0x20, 0x09, 0x0a, 0x0b, 0x0c, 0x0d}"

definition digit :: "u8 \<Rightarrow> bool" where
  "digit c \<longleftrightarrow> 0x30 \<le> c \<and> c \<le> 0x39"

definition to_int :: "int \<Rightarrow> int" where
  "to_int v = signed_take_bit 31 (max (- (2 ^ 63)) (min (2 ^ 63 - 1) v))"

definition sscanf_d :: "u8 list \<Rightarrow> (int \<times> u8 list) option" where
  "sscanf_d s =
     (let s = dropWhile blank s;
          neg = (s \<noteq> [] \<and> hd s = 0x2d);
          s = (if s \<noteq> [] \<and> (hd s = 0x2d \<or> hd s = 0x2b) then tl s else s);
          ds = takeWhile digit s;
          v = int (value10 (map (\<lambda>c. unat c - 48) ds))
      in if ds = [] then None else Some (to_int (if neg then - v else v), dropWhile digit s))"

lemma sscanf_d_shorter: "sscanf_d s = Some (v, r) \<Longrightarrow> length r < length s"
proof -
  assume *: "sscanf_d s = Some (v, r)"
  define u where "u = dropWhile blank s"
  define w where "w = (if u \<noteq> [] \<and> (hd u = 0x2d \<or> hd u = 0x2b) then tl u else u)"
  have "takeWhile digit w \<noteq> []" "r = dropWhile digit w"
    using * by (auto simp: sscanf_d_def Let_def u_def w_def split: if_splits)
  moreover have "length w = length (takeWhile digit w) + length (dropWhile digit w)"
    by (metis length_append takeWhile_dropWhile_id)
  ultimately have "length r < length w" by (cases "takeWhile digit w") simp_all
  also have "length w \<le> length u" by (simp add: w_def)
  also have "length u \<le> length s" by (simp add: u_def length_dropWhile_le)
  finally show ?thesis .
qed

function parse_raw :: "u8 list \<Rightarrow> int list \<Rightarrow> int + int list" where
  "parse_raw s raw =
     (if s = [] then Inr raw
      else
        (case sscanf_d (if hd s = 0x3a then tl s else s) of
           None \<Rightarrow> Inl (- EINVAL)
         | Some (access_idx, rest) \<Rightarrow>
             if length raw = BPF_CORE_SPEC_MAX_LEN then Inl (- E2BIG) else parse_raw rest (raw @ [access_idx])))"
  by pat_completeness auto
termination
proof (relation "measure (\<lambda>(s, raw). length s)", goal_cases)
  case (2 s raw x idx rest)
  then have "length rest < length (if hd s = 0x3a then tl s else s)"
    using sscanf_d_shorter [of "if hd s = 0x3a then tl s else s" idx rest] by simp
  then show ?case by (auto split: if_splits)
qed simp

declare parse_raw.simps [simp del]

text \<open>An index into an array of the source: a negative one is outside of it.\<close>

definition index :: "int \<Rightarrow> nat option" where
  "index i = (if 0 \<le> i then Some (nat i) else None)"

definition push_accessor :: "bpf_core_accessor \<Rightarrow> bpf_core_spec \<Rightarrow> bpf_core_spec" where
  "push_accessor a s = s\<lparr>sp_spec := sp_spec s @ [a]\<rparr>"

definition last_accessor :: "bpf_core_spec \<Rightarrow> bpf_core_accessor option" where
  "last_accessor s = (if sp_spec s = [] then None else Some (last (sp_spec s)))"

definition add_offset :: "u32 \<Rightarrow> bpf_core_spec \<Rightarrow> bpf_core_spec" where
  "add_offset delta s = s\<lparr>sp_bit_offset := sp_bit_offset s + delta\<rparr>"

primrec parse_fields :: "btf \<Rightarrow> int list \<Rightarrow> u32 \<Rightarrow> bpf_core_spec \<Rightarrow> (int + bpf_core_spec) option" where
  "parse_fields b [] type_id spec = Some (Inr spec)"
| "parse_fields b (access_idx # rest) type_id spec = do {
     (t, i) \<leftarrow> skip_mods_and_typedefs b type_id;
     if btf_is_composite t then
       if access_idx \<ge> int (btf_vlen t) then Some (Inl (- EINVAL))
       else do {
         n \<leftarrow> index access_idx;
         bit_offset \<leftarrow> btf_member_bit_offset t n;
         m \<leftarrow> btf_members t n;
         let spec = add_offset bit_offset spec;
         if bm_name_off m \<noteq> 0 then do {
           name \<leftarrow> btf__name_by_offset b (bm_name_off m);
           if str_is_empty name then Some (Inl (- EINVAL))
           else parse_fields b rest (bm_type m)
             (push_accessor \<lparr>ac_type_id = i, ac_idx = of_int access_idx, ac_name = name\<rparr> spec) }
         else parse_fields b rest (bm_type m) spec }
     else if btf_kind t = BTF_KIND_ARRAY then do {
       a \<leftarrow> btf_array_of t;
       (et, ei) \<leftarrow> skip_mods_and_typedefs b (ba_type a);
       acc \<leftarrow> last_accessor spec;
       flex \<leftarrow> is_flex_arr b acc a;
       if \<not> flex \<and> of_int access_idx \<ge> ba_nelems a then Some (Inl (- EINVAL))
       else do {
         sz \<leftarrow> btf__resolve_size b ei;
         if sz < 0 then Some (Inl sz)
         else parse_fields b rest ei
           (add_offset (of_int (access_idx * sz * 8))
             (push_accessor \<lparr>ac_type_id = ei, ac_idx = of_int access_idx, ac_name = None\<rparr> spec)) } }
     else Some (Inl (- EINVAL)) }"

definition bpf_core_parse_spec :: "btf \<Rightarrow> bpf_core_relo \<Rightarrow> (int + bpf_core_spec) option" where
  "bpf_core_parse_spec b relo = do {
     spec_str \<leftarrow> btf__name_by_offset b (cr_access_str_off relo);
     let spec = \<lparr>sp_btf = b, sp_spec = [], sp_root_type_id = cr_type_id relo, sp_relo_kind = cr_kind relo,
                 sp_raw_spec = [], sp_bit_offset = 0\<rparr>;
     case spec_str of
       None \<Rightarrow> Some (Inl (- EINVAL))
     | Some str \<Rightarrow>
         if str = [] \<or> hd str = 0x3a then Some (Inl (- EINVAL))
         else if core_relo_is_type_based (cr_kind relo) then
           Some (if str \<noteq> [0x30] then Inl (- EINVAL) else Inr spec)
         else
           (case parse_raw str [] of
              Inl err \<Rightarrow> Some (Inl err)
            | Inr [] \<Rightarrow> Some (Inl (- EINVAL))
            | Inr (access_idx # rest) \<Rightarrow> do {
                (t, i) \<leftarrow> skip_mods_and_typedefs b (cr_type_id relo);
                let spec = spec\<lparr>sp_raw_spec := access_idx # rest\<rparr>;
                let acc = \<lparr>ac_type_id = i, ac_idx = of_int access_idx, ac_name = None\<rparr>;
                if core_relo_is_enumval_based (cr_kind relo) then
                  if \<not> btf_is_any_enum t \<or> rest \<noteq> [] \<or> access_idx \<ge> int (btf_vlen t) then Some (Inl (- EINVAL))
                  else do {
                    n \<leftarrow> index access_idx;
                    (name_off, v) \<leftarrow> (if btf_kind t = BTF_KIND_ENUM then btf_enum t n else btf_enum64 t n);
                    name \<leftarrow> btf__name_by_offset b name_off;
                    Some (Inr (push_accessor (acc\<lparr>ac_name := name\<rparr>) spec)) }
                else if \<not> core_relo_is_field_based (cr_kind relo) then Some (Inl (- EINVAL))
                else do {
                  sz \<leftarrow> btf__resolve_size b i;
                  if sz < 0 then Some (Inl sz)
                  else parse_fields b rest i (add_offset (of_int (access_idx * sz * 8)) (push_accessor acc spec)) } }) }"

section \<open>Compatible types\<close>

text \<open>Nested arrays are followed to their elements, as long as that takes.\<close>

partial_function (option) bpf_core_fields_are_compat :: "btf \<Rightarrow> u32 \<Rightarrow> btf \<Rightarrow> u32 \<Rightarrow> int option" where
  "bpf_core_fields_are_compat local_btf local_id targ_btf targ_id = do {
     (lt, li) \<leftarrow> skip_mods_and_typedefs local_btf local_id;
     (tt, ti) \<leftarrow> skip_mods_and_typedefs targ_btf targ_id;
     if btf_is_composite lt \<and> btf_is_composite tt then Some 1
     else if \<not> btf_kind_core_compat lt tt then Some 0
     else if btf_kind lt \<in> {BTF_KIND_PTR, BTF_KIND_FLOAT} then Some 1
     else if btf_kind lt \<in> {BTF_KIND_FWD, BTF_KIND_ENUM64, BTF_KIND_ENUM} then do {
       local_name \<leftarrow> btf__name_by_offset local_btf (bt_name_off lt);
       targ_name \<leftarrow> btf__name_by_offset targ_btf (bt_name_off tt);
       ln \<leftarrow> local_name;
       tn \<leftarrow> targ_name;
       let local_len = bpf_core_essential_name_len ln;
       let targ_len = bpf_core_essential_name_len tn;
       Some (if local_len = 0 \<or> targ_len = 0 \<or> local_len = targ_len \<and> strncmp_eq ln tn local_len then 1 else 0) }
     else if btf_kind lt = BTF_KIND_INT then do {
       lo \<leftarrow> btf_int_offset lt;
       to \<leftarrow> btf_int_offset tt;
       Some (if lo = 0 \<and> to = 0 then 1 else 0) }
     else if btf_kind lt = BTF_KIND_ARRAY then do {
       la \<leftarrow> btf_array_of lt;
       ta \<leftarrow> btf_array_of tt;
       bpf_core_fields_are_compat local_btf (ba_type la) targ_btf (ba_type ta) }
     else Some 0 }"

declare bpf_core_fields_are_compat.simps [code]

text \<open>
  \<open>__bpf_core_types_are_compat\<close>: \<open>deeper\<close> is the call for a parameter, absent when \<open>level\<close> is used up; the
  jump \<open>goto recur\<close> goes down the first argument, \<open>depth\<close>.
\<close>

primrec compat_params :: "(u32 \<Rightarrow> u32 \<Rightarrow> int option) option \<Rightarrow> btf \<Rightarrow> btf_type \<Rightarrow> btf \<Rightarrow> btf_type \<Rightarrow> nat list \<Rightarrow> int option" where
  "compat_params deeper local_btf lt targ_btf tt [] = Some 1"
| "compat_params deeper local_btf lt targ_btf tt (i # is) =
     (case deeper of
        None \<Rightarrow> Some (- EINVAL)
      | Some f \<Rightarrow> do {
          (ln, lp) \<leftarrow> btf_params lt i;
          (tn, tp) \<leftarrow> btf_params tt i;
          (x, li) \<leftarrow> skip_mods_and_typedefs local_btf lp;
          (y, ti) \<leftarrow> skip_mods_and_typedefs targ_btf tp;
          err \<leftarrow> f li ti;
          if err \<le> 0 then Some err else compat_params deeper local_btf lt targ_btf tt is })"

primrec compat_recur :: "nat \<Rightarrow> (u32 \<Rightarrow> u32 \<Rightarrow> int option) option \<Rightarrow> btf \<Rightarrow> u32 \<Rightarrow> btf \<Rightarrow> u32 \<Rightarrow> int option" where
  "compat_recur 0 deeper local_btf local_id targ_btf targ_id = Some (- EINVAL)"
| "compat_recur (Suc depth) deeper local_btf local_id targ_btf targ_id = do {
     (lt, li) \<leftarrow> skip_mods_and_typedefs local_btf local_id;
     (tt, ti) \<leftarrow> skip_mods_and_typedefs targ_btf targ_id;
     let k = btf_kind lt;
     if \<not> btf_kind_core_compat lt tt then Some 0
     else if k \<in> {BTF_KIND_UNKN, BTF_KIND_STRUCT, BTF_KIND_UNION, BTF_KIND_ENUM, BTF_KIND_FWD, BTF_KIND_ENUM64} then Some 1
     else if k = BTF_KIND_INT then do {
       lo \<leftarrow> btf_int_offset lt;
       to \<leftarrow> btf_int_offset tt;
       Some (if lo = 0 \<and> to = 0 then 1 else 0) }
     else if k = BTF_KIND_PTR then compat_recur depth deeper local_btf (bt_size_type lt) targ_btf (bt_size_type tt)
     else if k = BTF_KIND_ARRAY then do {
       la \<leftarrow> btf_array_of lt;
       ta \<leftarrow> btf_array_of tt;
       compat_recur depth deeper local_btf (ba_type la) targ_btf (ba_type ta) }
     else if k = BTF_KIND_FUNC_PROTO then
       if btf_vlen lt \<noteq> btf_vlen tt then Some 0
       else do {
         err \<leftarrow> compat_params deeper local_btf lt targ_btf tt [0..<btf_vlen lt];
         if err \<le> 0 then Some err
         else do {
           (x, li) \<leftarrow> skip_mods_and_typedefs local_btf (bt_size_type lt);
           (y, ti) \<leftarrow> skip_mods_and_typedefs targ_btf (bt_size_type tt);
           compat_recur depth deeper local_btf li targ_btf ti } }
     else Some 0 }"

definition compat_start :: "(u32 \<Rightarrow> u32 \<Rightarrow> int option) option \<Rightarrow> btf \<Rightarrow> u32 \<Rightarrow> btf \<Rightarrow> u32 \<Rightarrow> int option" where
  "compat_start deeper local_btf local_id targ_btf targ_id = do {
     lt \<leftarrow> btf_type_by_id local_btf local_id;
     tt \<leftarrow> btf_type_by_id targ_btf targ_id;
     if \<not> btf_kind_core_compat lt tt then Some 0 else compat_recur 32 deeper local_btf local_id targ_btf targ_id }"

primrec core_types_are_compat :: "nat \<Rightarrow> btf \<Rightarrow> btf \<Rightarrow> u32 \<Rightarrow> u32 \<Rightarrow> int option" where
  "core_types_are_compat 0 local_btf targ_btf local_id targ_id = compat_start None local_btf local_id targ_btf targ_id"
| "core_types_are_compat (Suc level) local_btf targ_btf local_id targ_id =
     compat_start (Some (core_types_are_compat level local_btf targ_btf)) local_btf local_id targ_btf targ_id"

definition bpf_core_types_are_compat :: "btf \<Rightarrow> u32 \<Rightarrow> btf \<Rightarrow> u32 \<Rightarrow> int option" where
  "bpf_core_types_are_compat local_btf local_id targ_btf targ_id = core_types_are_compat 32 local_btf targ_btf local_id targ_id"

section \<open>Matching types\<close>

definition enumerator_name :: "btf_type \<Rightarrow> nat \<Rightarrow> u32 option" where
  "enumerator_name t i = map_option fst (if btf_kind t = BTF_KIND_ENUM then btf_enum t i else btf_enum64 t i)"

primrec some_enumerator :: "btf \<Rightarrow> u32 \<Rightarrow> btf \<Rightarrow> btf_type \<Rightarrow> nat list \<Rightarrow> bool option" where
  "some_enumerator local_btf name_off targ_btf tt [] = Some False"
| "some_enumerator local_btf name_off targ_btf tt (j # js) = do {
     n \<leftarrow> enumerator_name tt j;
     same \<leftarrow> bpf_core_names_match local_btf name_off targ_btf n;
     if same then Some True else some_enumerator local_btf name_off targ_btf tt js }"

primrec enums_loop :: "btf \<Rightarrow> btf_type \<Rightarrow> btf \<Rightarrow> btf_type \<Rightarrow> nat list \<Rightarrow> int option" where
  "enums_loop local_btf lt targ_btf tt [] = Some 1"
| "enums_loop local_btf lt targ_btf tt (i # is) = do {
     n \<leftarrow> enumerator_name lt i;
     matched \<leftarrow> some_enumerator local_btf n targ_btf tt [0..<btf_vlen tt];
     if \<not> matched then Some 0 else enums_loop local_btf lt targ_btf tt is }"

definition bpf_core_enums_match :: "btf \<Rightarrow> btf_type \<Rightarrow> btf \<Rightarrow> btf_type \<Rightarrow> int option" where
  "bpf_core_enums_match local_btf lt targ_btf tt =
     (if bt_size_type lt \<noteq> bt_size_type tt \<or> btf_vlen lt > btf_vlen tt then Some 0
      else enums_loop local_btf lt targ_btf tt [0..<btf_vlen lt])"

text \<open>The inner loop of \<open>bpf_core_composites_match\<close>: 1 if a member of the target matches, 0 if none, or an error.\<close>

primrec some_member :: "(u32 \<Rightarrow> u32 \<Rightarrow> int option) \<Rightarrow> btf \<Rightarrow> btf_member \<Rightarrow> btf \<Rightarrow> btf_type \<Rightarrow> nat list \<Rightarrow> int option" where
  "some_member deeper local_btf lm targ_btf tt [] = Some 0"
| "some_member deeper local_btf lm targ_btf tt (j # js) = do {
     tm \<leftarrow> btf_members tt j;
     same \<leftarrow> bpf_core_names_match local_btf (bm_name_off lm) targ_btf (bm_name_off tm);
     if \<not> same then some_member deeper local_btf lm targ_btf tt js
     else do {
       err \<leftarrow> deeper (bm_type lm) (bm_type tm);
       if err < 0 then Some err
       else if err > 0 then Some 1
       else some_member deeper local_btf lm targ_btf tt js } }"

primrec composites_loop :: "(u32 \<Rightarrow> u32 \<Rightarrow> int option) \<Rightarrow> btf \<Rightarrow> btf_type \<Rightarrow> btf \<Rightarrow> btf_type \<Rightarrow> nat list \<Rightarrow> int option" where
  "composites_loop deeper local_btf lt targ_btf tt [] = Some 1"
| "composites_loop deeper local_btf lt targ_btf tt (i # is) = do {
     lm \<leftarrow> btf_members lt i;
     r \<leftarrow> some_member deeper local_btf lm targ_btf tt [0..<btf_vlen tt];
     if r \<le> 0 then Some r else composites_loop deeper local_btf lt targ_btf tt is }"

definition bpf_core_composites_match :: "(u32 \<Rightarrow> u32 \<Rightarrow> int option) \<Rightarrow> btf \<Rightarrow> btf_type \<Rightarrow> btf \<Rightarrow> btf_type \<Rightarrow> int option" where
  "bpf_core_composites_match deeper local_btf lt targ_btf tt =
     (if btf_vlen lt > btf_vlen tt then Some 0 else composites_loop deeper local_btf lt targ_btf tt [0..<btf_vlen lt])"

primrec match_params :: "(u32 \<Rightarrow> u32 \<Rightarrow> int option) \<Rightarrow> btf_type \<Rightarrow> btf_type \<Rightarrow> nat list \<Rightarrow> int option" where
  "match_params deeper lt tt [] = Some 1"
| "match_params deeper lt tt (i # is) = do {
     (ln, lp) \<leftarrow> btf_params lt i;
     (tn, tp) \<leftarrow> btf_params tt i;
     err \<leftarrow> deeper lp tp;
     if err \<le> 0 then Some err else match_params deeper lt tt is }"

definition of_bool_int :: "bool \<Rightarrow> int" where
  "of_bool_int p = (if p then 1 else 0)"

text \<open>
  \<open>__bpf_core_types_match\<close>: \<open>deeper behind_ptr\<close> is the call one level down, which keeps \<open>behind_ptr\<close>.
\<close>

primrec match_recur :: "nat \<Rightarrow> (bool \<Rightarrow> u32 \<Rightarrow> u32 \<Rightarrow> int option) \<Rightarrow> btf \<Rightarrow> u32 \<Rightarrow> btf \<Rightarrow> u32 \<Rightarrow> bool \<Rightarrow> int option" where
  "match_recur 0 deeper local_btf local_id targ_btf targ_id behind_ptr = Some (- EINVAL)"
| "match_recur (Suc depth) deeper local_btf local_id targ_btf targ_id behind_ptr = do {
     (lt, li) \<leftarrow> skip_mods_and_typedefs local_btf local_id;
     (tt, ti) \<leftarrow> skip_mods_and_typedefs targ_btf targ_id;
     same \<leftarrow> bpf_core_names_match local_btf (bt_name_off lt) targ_btf (bt_name_off tt);
     let lk = btf_kind lt;
     let tk = btf_kind tt;
     if \<not> same then Some 0
     else if lk = BTF_KIND_UNKN then Some (of_bool_int (lk = tk))
     else if lk = BTF_KIND_FWD then
       (let local_f = btf_kflag lt
        in if behind_ptr then
             if lk = tk then Some (of_bool_int (local_f = btf_kflag tt))
             else Some (of_bool_int (tk = BTF_KIND_STRUCT \<and> \<not> local_f \<or> tk = BTF_KIND_UNION \<and> local_f))
           else if lk \<noteq> tk then Some 0
           else Some (of_bool_int (local_f = btf_kflag tt)))
     else if lk = BTF_KIND_ENUM \<or> lk = BTF_KIND_ENUM64 then
       if \<not> btf_is_any_enum tt then Some 0 else bpf_core_enums_match local_btf lt targ_btf tt
     else if lk = BTF_KIND_STRUCT \<or> lk = BTF_KIND_UNION then
       if behind_ptr then
         if lk = tk then Some 1
         else if tk \<noteq> BTF_KIND_FWD then Some 0
         else Some (of_bool_int ((lk = BTF_KIND_UNION) = btf_kflag tt))
       else if lk \<noteq> tk then Some 0
       else bpf_core_composites_match (deeper behind_ptr) local_btf lt targ_btf tt
     else if lk = BTF_KIND_INT then
       if lk \<noteq> tk then Some 0
       else do {
         le \<leftarrow> btf_int_encoding lt;
         te \<leftarrow> btf_int_encoding tt;
         Some (of_bool_int (bt_size_type lt = bt_size_type tt \<and> le AND 1 = te AND 1)) }
     else if lk = BTF_KIND_PTR then
       if lk \<noteq> tk then Some 0
       else match_recur depth deeper local_btf (bt_size_type lt) targ_btf (bt_size_type tt) True
     else if lk = BTF_KIND_ARRAY then
       if lk \<noteq> tk then Some 0
       else do {
         la \<leftarrow> btf_array_of lt;
         ta \<leftarrow> btf_array_of tt;
         if ba_nelems la \<noteq> ba_nelems ta then Some 0
         else match_recur depth deeper local_btf (ba_type la) targ_btf (ba_type ta) behind_ptr }
     else if lk = BTF_KIND_FUNC_PROTO then
       if lk \<noteq> tk \<or> btf_vlen lt \<noteq> btf_vlen tt then Some 0
       else do {
         err \<leftarrow> match_params (deeper behind_ptr) lt tt [0..<btf_vlen lt];
         if err \<le> 0 then Some err
         else match_recur depth deeper local_btf (bt_size_type lt) targ_btf (bt_size_type tt) behind_ptr }
     else Some 0 }"

primrec core_types_match :: "nat \<Rightarrow> btf \<Rightarrow> btf \<Rightarrow> bool \<Rightarrow> u32 \<Rightarrow> u32 \<Rightarrow> int option" where
  "core_types_match 0 local_btf targ_btf behind_ptr local_id targ_id = Some (- EINVAL)"
| "core_types_match (Suc level) local_btf targ_btf behind_ptr local_id targ_id =
     match_recur 32 (core_types_match level local_btf targ_btf) local_btf local_id targ_btf targ_id behind_ptr"

definition bpf_core_types_match :: "btf \<Rightarrow> u32 \<Rightarrow> btf \<Rightarrow> u32 \<Rightarrow> int option" where
  "bpf_core_types_match local_btf local_id targ_btf targ_id = core_types_match 32 local_btf targ_btf False local_id targ_id"

section \<open>Finding a field in the target\<close>

text \<open>
  The loop of \<open>bpf_core_match_member\<close> over the members of the target type \<open>tt\<close> (whose identifier is \<open>ti\<close>);
  \<open>deeper\<close> is the recursive call for an anonymous member. The result is the return value, the specification and
  \<open>*next_targ_id\<close>.
\<close>

primrec match_members :: "(u32 \<Rightarrow> bpf_core_spec \<Rightarrow> u32 \<Rightarrow> (int \<times> bpf_core_spec \<times> u32) option) \<Rightarrow>
    btf \<Rightarrow> btf_member \<Rightarrow> u8 list option \<Rightarrow> btf \<Rightarrow> btf_type \<Rightarrow> u32 \<Rightarrow> nat list \<Rightarrow> bpf_core_spec \<Rightarrow> u32 \<Rightarrow>
    (int \<times> bpf_core_spec \<times> u32) option" where
  "match_members deeper local_btf lm local_name targ_btf tt ti [] spec next_id = Some (0, spec, next_id)"
| "match_members deeper local_btf lm local_name targ_btf tt ti (i # is) spec next_id = do {
     bit_offset \<leftarrow> btf_member_bit_offset tt i;
     m \<leftarrow> btf_members tt i;
     if length (sp_raw_spec spec) = BPF_CORE_SPEC_MAX_LEN then Some (- E2BIG, spec, next_id)
     else do {
       let spec = (add_offset bit_offset spec)\<lparr>sp_raw_spec := sp_raw_spec spec @ [int i]\<rparr>;
       targ_name \<leftarrow> btf__name_by_offset targ_btf (bm_name_off m);
       if str_is_empty targ_name then do {
         (found, spec, next_id) \<leftarrow> deeper (bm_type m) spec next_id;
         if found \<noteq> 0 then Some (found, spec, next_id)
         else match_members deeper local_btf lm local_name targ_btf tt ti is
           ((add_offset (- bit_offset) spec)\<lparr>sp_raw_spec := butlast (sp_raw_spec spec)\<rparr>) next_id }
       else do {
         name \<leftarrow> local_name;
         if Some name = targ_name then do {
           found \<leftarrow> bpf_core_fields_are_compat local_btf (bm_type lm) targ_btf (bm_type m);
           Some (found,
             if found = 0 then spec
             else push_accessor \<lparr>ac_type_id = ti, ac_idx = of_nat i, ac_name = targ_name\<rparr> spec,
             bm_type m) }
         else match_members deeper local_btf lm local_name targ_btf tt ti is
           ((add_offset (- bit_offset) spec)\<lparr>sp_raw_spec := butlast (sp_raw_spec spec)\<rparr>) next_id } } }"

text \<open>The depth \<open>n\<close> of the recursion: each call is made with one more entry in \<open>raw_spec\<close>, which has at most 64.\<close>

primrec match_member :: "nat \<Rightarrow> btf \<Rightarrow> bpf_core_accessor \<Rightarrow> btf \<Rightarrow> u32 \<Rightarrow> bpf_core_spec \<Rightarrow> u32 \<Rightarrow>
    (int \<times> bpf_core_spec \<times> u32) option" where
  "match_member 0 local_btf local_acc targ_btf targ_id spec next_id = None"
| "match_member (Suc n) local_btf local_acc targ_btf targ_id spec next_id = do {
     (tt, ti) \<leftarrow> skip_mods_and_typedefs targ_btf targ_id;
     if \<not> btf_is_composite tt then Some (0, spec, next_id)
     else do {
       lt \<leftarrow> btf_type_by_id local_btf (ac_type_id local_acc);
       lm \<leftarrow> btf_members lt (unat (ac_idx local_acc));
       local_name \<leftarrow> btf__name_by_offset local_btf (bm_name_off lm);
       match_members (match_member n local_btf local_acc targ_btf) local_btf lm local_name targ_btf tt ti
         [0..<btf_vlen tt] spec next_id } }"

definition bpf_core_match_member :: "btf \<Rightarrow> bpf_core_accessor \<Rightarrow> btf \<Rightarrow> u32 \<Rightarrow> bpf_core_spec \<Rightarrow> u32 \<Rightarrow>
    (int \<times> bpf_core_spec \<times> u32) option" where
  "bpf_core_match_member = match_member (BPF_CORE_SPEC_MAX_LEN + 1)"

primrec match_enumval :: "u8 list \<Rightarrow> btf \<Rightarrow> btf_type \<Rightarrow> u32 \<Rightarrow> nat list \<Rightarrow> bpf_core_spec \<Rightarrow> (int \<times> bpf_core_spec) option" where
  "match_enumval name targ_btf tt ti [] spec = Some (0, spec)"
| "match_enumval name targ_btf tt ti (i # is) spec = do {
     name_off \<leftarrow> enumerator_name tt i;
     tn \<leftarrow> btf__name_by_offset targ_btf name_off;
     targ_name \<leftarrow> tn;
     let len = bpf_core_essential_name_len name;
     if bpf_core_essential_name_len targ_name \<noteq> len \<or> \<not> strncmp_eq name targ_name len
     then match_enumval name targ_btf tt ti is spec
     else Some (1, (push_accessor \<lparr>ac_type_id = ti, ac_idx = of_nat i, ac_name = tn\<rparr> spec)
                     \<lparr>sp_raw_spec := sp_raw_spec spec @ [int i]\<rparr>) }"

text \<open>The loop over the accessors of the local specification; \<open>targ_acc\<close> is where the next one is pushed.\<close>

fun match_accessors :: "btf \<Rightarrow> bpf_core_accessor list \<Rightarrow> bool \<Rightarrow> btf \<Rightarrow> u32 \<Rightarrow> bpf_core_spec \<Rightarrow> (int \<times> bpf_core_spec) option" where
  "match_accessors local_btf [] at_start targ_btf targ_id spec = Some (1, spec)"
| "match_accessors local_btf (acc # accs) at_start targ_btf targ_id spec = do {
     (tt, ti) \<leftarrow> skip_mods_and_typedefs targ_btf targ_id;
     if ac_name acc \<noteq> None then do {
       (matched, spec, next_id) \<leftarrow> bpf_core_match_member local_btf acc targ_btf ti spec ti;
       if matched \<le> 0 then Some (matched, spec) else match_accessors local_btf accs False targ_btf next_id spec }
     else do {
       elem \<leftarrow>
         (if at_start then Some (Some ti)
          else if btf_kind tt \<noteq> BTF_KIND_ARRAY then Some None
          else do {
            a \<leftarrow> btf_array_of tt;
            prev \<leftarrow> last_accessor spec;
            flex \<leftarrow> is_flex_arr targ_btf prev a;
            if \<not> flex \<and> ac_idx acc \<ge> ba_nelems a then Some None
            else do { (et, ei) \<leftarrow> skip_mods_and_typedefs targ_btf (ba_type a); Some (Some ei) } });
       case elem of
         None \<Rightarrow> Some (0, spec)
       | Some ei \<Rightarrow>
           if length (sp_raw_spec spec) = BPF_CORE_SPEC_MAX_LEN then Some (- E2BIG, spec)
           else do {
             let spec = (push_accessor \<lparr>ac_type_id = ei, ac_idx = ac_idx acc, ac_name = None\<rparr> spec)
                          \<lparr>sp_raw_spec := sp_raw_spec spec @ [sint (ac_idx acc)]\<rparr>;
             sz \<leftarrow> btf__resolve_size targ_btf ei;
             let sz = to_int sz;
             if sz < 0 then Some (sz, spec)
             else match_accessors local_btf accs False targ_btf ei (add_offset (ac_idx acc * of_int sz * 8) spec) } } }"

definition bpf_core_spec_match :: "bpf_core_spec \<Rightarrow> btf \<Rightarrow> u32 \<Rightarrow> (int \<times> bpf_core_spec) option" where
  "bpf_core_spec_match local_spec targ_btf targ_id = (
     let k = sp_relo_kind local_spec;
         spec = \<lparr>sp_btf = targ_btf, sp_spec = [], sp_root_type_id = targ_id, sp_relo_kind = k, sp_raw_spec = [],
                 sp_bit_offset = 0\<rparr>
     in if core_relo_is_type_based k then do {
          r \<leftarrow> (if k = BPF_CORE_TYPE_MATCHES
                then bpf_core_types_match (sp_btf local_spec) (sp_root_type_id local_spec) targ_btf targ_id
                else bpf_core_types_are_compat (sp_btf local_spec) (sp_root_type_id local_spec) targ_btf targ_id);
          Some (r, spec) }
        else if core_relo_is_enumval_based k then do {
          (tt, ti) \<leftarrow> skip_mods_and_typedefs targ_btf targ_id;
          if \<not> btf_is_any_enum tt then Some (0, spec)
          else do {
            acc \<leftarrow> aget (sp_spec local_spec) 0;
            name \<leftarrow> ac_name acc;
            match_enumval name targ_btf tt ti [0..<btf_vlen tt] spec } }
        else if \<not> core_relo_is_field_based k then Some (- EINVAL, spec)
        else match_accessors (sp_btf local_spec) (sp_spec local_spec) True targ_btf targ_id spec)"

section \<open>Values\<close>

partial_function (option) skip_arrays :: "btf \<Rightarrow> u32 \<Rightarrow> u32 option" where
  "skip_arrays b type_id = do {
     (t, i) \<leftarrow> skip_mods_and_typedefs b type_id;
     if btf_kind t = BTF_KIND_ARRAY then do { a \<leftarrow> btf_array_of t; skip_arrays b (ba_type a) } else Some i }"

declare skip_arrays.simps [code]

text \<open>The smallest load that covers a bit field; dividing by a size of 0 is \<open>None\<close>.\<close>

function bitfield_load :: "u32 \<Rightarrow> u32 \<Rightarrow> u32 \<Rightarrow> (int + u32 \<times> u32) option" where
  "bitfield_load bit_off bit_sz byte_sz =
     (if byte_sz = 0 then None
      else
        let byte_off = bit_off div 8 div byte_sz * byte_sz
        in if bit_off + bit_sz - byte_off * 8 > byte_sz * 8 then
             if byte_sz \<ge> 8 then Some (Inl (- E2BIG)) else bitfield_load bit_off bit_sz (byte_sz * 2)
           else Some (Inr (byte_sz, byte_off)))"
  by pat_completeness auto
termination
proof (relation "measure (\<lambda>(bit_off, bit_sz, byte_sz :: u32). 8 - unat byte_sz)", goal_cases)
  case (2 bit_off bit_sz byte_sz x)
  then have "unat byte_sz < 8" "0 < unat byte_sz" by (simp_all add: word_le_nat_alt unat_gt_0)
  moreover from this have "unat (byte_sz * 2) = unat byte_sz * 2" by (simp add: unat_word_ariths)
  ultimately show ?case by simp
qed simp

declare bitfield_load.simps [simp del]

text \<open>The outputs are \<open>*val\<close>, \<open>*field_sz\<close>, \<open>*type_id\<close> and \<open>*validate\<close>, from the values the caller gave the last two.\<close>

definition bpf_core_calc_field_relo :: "bool \<Rightarrow> bpf_core_relo_kind \<Rightarrow> bpf_core_spec option \<Rightarrow>
    (int + u64 \<times> u32 \<times> u32 \<times> bool) option" where
  "bpf_core_calc_field_relo le kind spec_opt =
     (if kind = BPF_CORE_FIELD_EXISTS then Some (Inr (if spec_opt = None then 0 else 1, 0, 0, True))
      else
        (case spec_opt of
           None \<Rightarrow> Some (Inl (- EUCLEAN))
         | Some spec \<Rightarrow> do {
             let b = sp_btf spec;
             acc \<leftarrow> last_accessor spec;
             t \<leftarrow> btf_type_by_id b (ac_type_id acc);
             if ac_name acc = None then
               if kind = BPF_CORE_FIELD_BYTE_OFFSET then do {
                 elem_id \<leftarrow> skip_arrays b (ac_type_id acc);
                 sz \<leftarrow> btf__resolve_size b elem_id;
                 Some (if sz < 0 then Inl (- EINVAL)
                       else Inr (ucast (sp_bit_offset spec div 8), of_int sz, ac_type_id acc, True)) }
               else if kind = BPF_CORE_FIELD_BYTE_SIZE then do {
                 sz \<leftarrow> btf__resolve_size b (ac_type_id acc);
                 Some (if sz < 0 then Inl (- EINVAL) else Inr (of_int sz, 0, 0, True)) }
               else Some (Inl (- EINVAL))
             else do {
               m \<leftarrow> btf_members t (unat (ac_idx acc));
               (mt, field_type_id) \<leftarrow> skip_mods_and_typedefs b (bm_type m);
               let bit_off = sp_bit_offset spec;
               bf_sz \<leftarrow> btf_member_bitfield_size t (unat (ac_idx acc));
               let bitfield = (bf_sz > 0);
               sizes \<leftarrow>
                 (if bitfield then do {
                    r \<leftarrow> bitfield_load bit_off bf_sz (bt_size_type mt);
                    Some (case r of Inl e \<Rightarrow> Inl e | Inr (byte_sz, byte_off) \<Rightarrow> Inr (byte_sz, byte_off, bf_sz)) }
                  else do {
                    sz \<leftarrow> btf__resolve_size b field_type_id;
                    Some (if sz < 0 then Inl (- EINVAL)
                          else Inr (of_int sz, bit_off div 8, of_int sz * 8)) });
               case sizes of
                 Inl e \<Rightarrow> Some (Inl e)
               | Inr (byte_sz, byte_off, bit_sz) \<Rightarrow>
                   (case kind of
                      BPF_CORE_FIELD_BYTE_OFFSET \<Rightarrow>
                        if bitfield then Some (Inr (ucast byte_off, 0, 0, False))
                        else do {
                          elem_id \<leftarrow> skip_arrays b field_type_id;
                          sz \<leftarrow> btf__resolve_size b elem_id;
                          Some (if sz < 0 then Inl (- EINVAL) else Inr (ucast byte_off, of_int sz, field_type_id, True)) }
                    | BPF_CORE_FIELD_BYTE_SIZE \<Rightarrow> Some (Inr (ucast byte_sz, 0, 0, \<not> bitfield))
                    | BPF_CORE_FIELD_SIGNED \<Rightarrow> do {
                        sgn \<leftarrow> (if btf_is_any_enum mt then Some (btf_kflag mt)
                                else if btf_kind mt = BTF_KIND_INT
                                then do { e \<leftarrow> btf_int_encoding mt; Some (e AND 1 \<noteq> 0) }
                                else Some False);
                        Some (Inr (if sgn then 1 else 0, 0, 0, True)) }
                    | BPF_CORE_FIELD_LSHIFT_U64 \<Rightarrow>
                        Some (Inr (ucast (if le then 64 - (bit_off + bit_sz - byte_off * 8)
                                          else (8 - byte_sz) * 8 + (bit_off - byte_off * 8)), 0, 0, \<not> bitfield))
                    | BPF_CORE_FIELD_RSHIFT_U64 \<Rightarrow> Some (Inr (ucast (64 - bit_sz), 0, 0, True))
                    | _ \<Rightarrow> Some (Inl (- EOPNOTSUPP))) } }))"

definition bpf_core_calc_type_relo :: "bpf_core_relo_kind \<Rightarrow> bpf_core_spec option \<Rightarrow> (int + u64 \<times> bool) option" where
  "bpf_core_calc_type_relo kind spec_opt =
     (case spec_opt of
        None \<Rightarrow> Some (Inr (0, True))
      | Some spec \<Rightarrow>
          (case kind of
             BPF_CORE_TYPE_ID_TARGET \<Rightarrow> Some (Inr (ucast (sp_root_type_id spec), False))
           | BPF_CORE_TYPE_EXISTS \<Rightarrow> Some (Inr (1, True))
           | BPF_CORE_TYPE_MATCHES \<Rightarrow> Some (Inr (1, True))
           | BPF_CORE_TYPE_SIZE \<Rightarrow> do {
               sz \<leftarrow> btf__resolve_size (sp_btf spec) (sp_root_type_id spec);
               Some (if sz < 0 then Inl (- EINVAL) else Inr (of_int sz, True)) }
           | _ \<Rightarrow> Some (Inl (- EOPNOTSUPP))))"

definition bpf_core_calc_enumval_relo :: "bpf_core_relo_kind \<Rightarrow> bpf_core_spec option \<Rightarrow> (int + u64) option" where
  "bpf_core_calc_enumval_relo kind spec_opt =
     (case kind of
        BPF_CORE_ENUMVAL_EXISTS \<Rightarrow> Some (Inr (if spec_opt = None then 0 else 1))
      | BPF_CORE_ENUMVAL_VALUE \<Rightarrow>
          (case spec_opt of
             None \<Rightarrow> Some (Inl (- EUCLEAN))
           | Some spec \<Rightarrow> do {
               acc \<leftarrow> aget (sp_spec spec) 0;
               t \<leftarrow> btf_type_by_id (sp_btf spec) (ac_type_id acc);
               (name, v) \<leftarrow> (if btf_kind t = BTF_KIND_ENUM then btf_enum t (unat (ac_idx acc)) else btf_enum64 t (unat (ac_idx acc)));
               Some (Inr v) })
      | _ \<Rightarrow> Some (Inl (- EOPNOTSUPP)))"

definition calc_relo_init :: bpf_core_relo_res where
  "calc_relo_init = \<lparr>rr_orig_val = 0, rr_new_val = 0, rr_poison = False, rr_validate = True, rr_fail_memsz_adjust = False,
     rr_orig_sz = 0, rr_orig_type_id = 0, rr_new_sz = 0, rr_new_type_id = 0\<rparr>"

text \<open>The label \<open>done\<close>: a request to poison the instruction is not an error.\<close>

definition calc_relo_done :: "int \<Rightarrow> bpf_core_relo_res \<Rightarrow> int \<times> bpf_core_relo_res" where
  "calc_relo_done err res = (if err = - EUCLEAN then (0, res\<lparr>rr_poison := True\<rparr>) else (err, res))"

text \<open>Whether a load or store of the original size may be turned into one of the new size.\<close>

definition memsz_adjustable :: "btf_type \<Rightarrow> btf_type \<Rightarrow> bool option" where
  "memsz_adjustable orig_t new_t =
     (if btf_kind orig_t = BTF_KIND_PTR \<and> btf_kind new_t = BTF_KIND_PTR then Some True
      else if btf_kind orig_t = BTF_KIND_INT \<and> btf_kind new_t = BTF_KIND_INT then do {
        oe \<leftarrow> btf_int_encoding orig_t;
        ne \<leftarrow> btf_int_encoding new_t;
        Some (oe \<noteq> 1 \<and> ne \<noteq> 1) }
      else Some False)"

definition bpf_core_calc_relo :: "bool \<Rightarrow> bpf_core_relo_kind \<Rightarrow> bpf_core_spec \<Rightarrow> bpf_core_spec option \<Rightarrow>
    (int \<times> bpf_core_relo_res) option" where
  "bpf_core_calc_relo le kind local_spec targ_spec = (
     let res = calc_relo_init
     in if core_relo_is_field_based kind then do {
          l \<leftarrow> bpf_core_calc_field_relo le kind (Some local_spec);
          case l of
            Inl err \<Rightarrow> Some (calc_relo_done err res)
          | Inr (val, fsz, tid, validate) \<Rightarrow> do {
              let res = res\<lparr>rr_orig_val := val, rr_orig_sz := fsz, rr_orig_type_id := tid, rr_validate := validate\<rparr>;
              r \<leftarrow> bpf_core_calc_field_relo le kind targ_spec;
              case r of
                Inl err \<Rightarrow> Some (calc_relo_done err res)
              | Inr (nval, nsz, ntid, v) \<Rightarrow> do {
                  let res = res\<lparr>rr_new_val := nval, rr_new_sz := nsz, rr_new_type_id := ntid\<rparr>;
                  if fsz \<noteq> nsz then do {
                    orig_t \<leftarrow> btf_type_by_id (sp_btf local_spec) tid;
                    ts \<leftarrow> targ_spec;
                    new_t \<leftarrow> btf_type_by_id (sp_btf ts) ntid;
                    safe \<leftarrow> memsz_adjustable orig_t new_t;
                    Some (0, res\<lparr>rr_fail_memsz_adjust := \<not> safe\<rparr>) }
                  else Some (0, res) } } }
        else if core_relo_is_type_based kind then do {
          l \<leftarrow> bpf_core_calc_type_relo kind (Some local_spec);
          case l of
            Inl err \<Rightarrow> Some (calc_relo_done err res)
          | Inr (val, validate) \<Rightarrow> do {
              r \<leftarrow> bpf_core_calc_type_relo kind targ_spec;
              let res = res\<lparr>rr_orig_val := val, rr_validate := validate\<rparr>;
              Some (case r of Inl err \<Rightarrow> calc_relo_done err res | Inr (nval, v) \<Rightarrow> (0, res\<lparr>rr_new_val := nval\<rparr>)) } }
        else if core_relo_is_enumval_based kind then do {
          l \<leftarrow> bpf_core_calc_enumval_relo kind (Some local_spec);
          case l of
            Inl err \<Rightarrow> Some (calc_relo_done err res)
          | Inr val \<Rightarrow> do {
              r \<leftarrow> bpf_core_calc_enumval_relo kind targ_spec;
              let res = res\<lparr>rr_orig_val := val\<rparr>;
              Some (case r of Inl err \<Rightarrow> calc_relo_done err res | Inr nval \<Rightarrow> (0, res\<lparr>rr_new_val := nval\<rparr>)) } }
        else Some (- EOPNOTSUPP, res))"

section \<open>Patching\<close>

definition bpf_core_poison_insn :: "bpf_insn" where
  "bpf_core_poison_insn = \<lparr>code = BPF_JMP OR BPF_CALL, dst_reg = 0, src_reg = 0, off = 0, imm = 195896080\<rparr>"

definition insn_bpf_size_to_bytes :: "bpf_insn \<Rightarrow> int" where
  "insn_bpf_size_to_bytes i =
     (let s = BPF_SIZE (code i)
      in if s = BPF_DW then 8 else if s = BPF_W then 4 else if s = BPF_H then 2 else if s = BPF_B then 1 else - 1)"

definition insn_bytes_to_bpf_size :: "u32 \<Rightarrow> u8 option" where
  "insn_bytes_to_bpf_size sz =
     (if sz = 8 then Some BPF_DW else if sz = 4 then Some BPF_W else if sz = 2 then Some BPF_H
      else if sz = 1 then Some BPF_B else None)"

definition core_poison :: "bpf_insn list \<Rightarrow> nat \<Rightarrow> (int \<times> bpf_insn list) option" where
  "core_poison prog n = do {
     insn \<leftarrow> aget prog n;
     prog \<leftarrow> (if is_ldimm64_insn insn then aput prog (n + 1) bpf_core_poison_insn else Some prog);
     prog \<leftarrow> aput prog n bpf_core_poison_insn;
     Some (0, prog) }"

text \<open>The instruction at index \<open>n\<close> of the program; \<open>insn->imm\<close> and \<open>insn->off\<close> are signed.\<close>

definition bpf_core_patch_insn :: "bpf_insn list \<Rightarrow> nat \<Rightarrow> bpf_core_relo_res \<Rightarrow> (int \<times> bpf_insn list) option" where
  "bpf_core_patch_insn prog n res = do {
     insn \<leftarrow> aget prog n;
     let class = BPF_CLASS (code insn);
     let new_val = rr_new_val res;
     if rr_poison res then core_poison prog n
     else if class = BPF_ALU \<or> class = BPF_ALU64 then
       if BPF_SRC (code insn) \<noteq> BPF_K then Some (- EINVAL, prog)
       else if rr_validate res \<and> scast (imm insn) \<noteq> rr_orig_val res then Some (- EINVAL, prog)
       else do { prog \<leftarrow> aput prog n (insn\<lparr>imm := ucast new_val\<rparr>); Some (0, prog) }
     else if class = BPF_LDX \<or> class = BPF_ST \<or> class = BPF_STX then
       if rr_validate res \<and> scast (off insn) \<noteq> rr_orig_val res then Some (- EINVAL, prog)
       else if new_val > 32767 then Some (- ERANGE, prog)
       else if rr_fail_memsz_adjust res then core_poison prog n
       else do {
         let insn = insn\<lparr>off := ucast new_val\<rparr>;
         prog \<leftarrow> aput prog n insn;
         if rr_new_sz res \<noteq> rr_orig_sz res then
           if of_int (insn_bpf_size_to_bytes insn) \<noteq> rr_orig_sz res then Some (- EINVAL, prog)
           else
             (case insn_bytes_to_bpf_size (rr_new_sz res) of
                None \<Rightarrow> Some (- EINVAL, prog)
              | Some insn_bpf_sz \<Rightarrow> do {
                  prog \<leftarrow> aput prog n (insn\<lparr>code := BPF_MODE (code insn) OR insn_bpf_sz OR BPF_CLASS (code insn)\<rparr>);
                  Some (0, prog) })
         else Some (0, prog) }
     else if class = BPF_LD then
       if \<not> is_ldimm64_insn insn \<or> src_reg insn \<noteq> 0 \<or> off insn \<noteq> 0 then Some (- EINVAL, prog)
       else do {
         insn1 \<leftarrow> aget prog (n + 1);
         if code insn1 \<noteq> 0 \<or> dst_reg insn1 \<noteq> 0 \<or> src_reg insn1 \<noteq> 0 \<or> off insn1 \<noteq> 0 then Some (- EINVAL, prog)
         else if rr_validate res \<and> ucast (imm insn) OR push_bit 32 (scast (imm insn1)) \<noteq> rr_orig_val res
         then Some (- EINVAL, prog)
         else do {
           prog \<leftarrow> aput prog n (insn\<lparr>imm := ucast new_val\<rparr>);
           prog \<leftarrow> aput prog (n + 1) (insn1\<lparr>imm := ucast (drop_bit 32 new_val)\<rparr>);
           Some (0, prog) } }
     else Some (- EINVAL, prog) }"

section \<open>Candidates\<close>

type_synonym bpf_core_cand = "btf \<times> u32"

text \<open>
  The loop over the candidates: the ones kept so far (\<open>cands[0..j)\<close>) with the result and bit offset of the first.
  The result is the error, or what is kept with that result.
\<close>

fun calc_cands :: "bool \<Rightarrow> bpf_core_relo_kind \<Rightarrow> bpf_core_spec \<Rightarrow> bpf_core_cand list \<Rightarrow> bpf_core_cand list \<Rightarrow>
    (bpf_core_relo_res \<times> u32) option \<Rightarrow> (int + bpf_core_cand list \<times> (bpf_core_relo_res \<times> u32) option) option" where
  "calc_cands le kind local_spec [] kept targ = Some (Inr (kept, targ))"
| "calc_cands le kind local_spec ((cb, ci) # cands) kept targ = do {
     (err, cand_spec) \<leftarrow> bpf_core_spec_match local_spec cb ci;
     if err < 0 then Some (Inl err)
     else if err = 0 then calc_cands le kind local_spec cands kept targ
     else do {
       (err, cand_res) \<leftarrow> bpf_core_calc_relo le kind local_spec (Some cand_spec);
       if err \<noteq> 0 then Some (Inl err)
       else
         (case targ of
            None \<Rightarrow> calc_cands le kind local_spec cands (kept @ [(cb, ci)]) (Some (cand_res, sp_bit_offset cand_spec))
          | Some (targ_res, targ_off) \<Rightarrow>
              if sp_bit_offset cand_spec \<noteq> targ_off then Some (Inl (- EINVAL))
              else if rr_poison cand_res \<noteq> rr_poison targ_res \<or> rr_new_val cand_res \<noteq> rr_new_val targ_res
              then Some (Inl (- EINVAL))
              else calc_cands le kind local_spec cands (kept @ [(cb, ci)]) targ) } }"

definition bpf_core_calc_relo_insn :: "bool \<Rightarrow> bpf_core_relo \<Rightarrow> btf \<Rightarrow> bpf_core_cand list \<Rightarrow>
    (int + bpf_core_relo_res \<times> bpf_core_cand list) option" where
  "bpf_core_calc_relo_insn le relo local_btf cands = do {
     local_type \<leftarrow> btf_type_by_id local_btf (cr_type_id relo);
     local_name \<leftarrow> btf__name_by_offset local_btf (bt_name_off local_type);
     if local_name = None then Some (Inl (- EINVAL))
     else do {
       p \<leftarrow> bpf_core_parse_spec local_btf relo;
       case p of
         Inl err \<Rightarrow> Some (Inl (- EINVAL))
       | Inr local_spec \<Rightarrow>
           if cr_kind relo = BPF_CORE_TYPE_ID_LOCAL then
             Some (Inr (calc_relo_init\<lparr>rr_validate := False, rr_orig_val := ucast (sp_root_type_id local_spec),
               rr_new_val := ucast (sp_root_type_id local_spec)\<rparr>, cands))
           else if str_is_empty local_name then Some (Inl (- EOPNOTSUPP))
           else do {
             c \<leftarrow> calc_cands le (cr_kind relo) local_spec cands [] None;
             case c of
               Inl err \<Rightarrow> Some (Inl err)
             | Inr (kept, Some (targ_res, targ_off)) \<Rightarrow> Some (Inr (targ_res, kept))
             | Inr (kept, None) \<Rightarrow> do {
                 (err, targ_res) \<leftarrow> bpf_core_calc_relo le (cr_kind relo) local_spec None;
                 Some (if err \<noteq> 0 then Inl err else Inr (targ_res, cands)) } } } }"

text \<open>\<open>grow n\<close> is whether the list of candidates can take its entry \<open>n\<close>.\<close>

fun add_cands_loop :: "(nat \<Rightarrow> bool) \<Rightarrow> btf_type \<Rightarrow> u8 list option \<Rightarrow> nat \<Rightarrow> btf \<Rightarrow> nat list \<Rightarrow> bpf_core_cand list \<Rightarrow>
    (int \<times> bpf_core_cand list) option" where
  "add_cands_loop grow local_t local_name essent_len targ_btf [] cands = Some (0, cands)"
| "add_cands_loop grow local_t local_name essent_len targ_btf (i # is) cands = do {
     t \<leftarrow> btf__type_by_id targ_btf (of_nat i);
     if \<not> btf_kind_core_compat t local_t then add_cands_loop grow local_t local_name essent_len targ_btf is cands
     else do {
       tn \<leftarrow> btf__name_by_offset targ_btf (bt_name_off t);
       case tn of
         None \<Rightarrow> add_cands_loop grow local_t local_name essent_len targ_btf is cands
       | Some targ_name \<Rightarrow>
           if targ_name = [] \<or> bpf_core_essential_name_len targ_name \<noteq> essent_len
           then add_cands_loop grow local_t local_name essent_len targ_btf is cands
           else do {
             name \<leftarrow> local_name;
             if \<not> strncmp_eq name targ_name essent_len
             then add_cands_loop grow local_t local_name essent_len targ_btf is cands
             else if \<not> grow (length cands) then Some (- ENOMEM, cands)
             else add_cands_loop grow local_t local_name essent_len targ_btf is (cands @ [(targ_btf, of_nat i)]) } } }"

definition bpf_core_add_cands :: "(nat \<Rightarrow> bool) \<Rightarrow> btf \<Rightarrow> u32 \<Rightarrow> nat \<Rightarrow> btf \<Rightarrow> nat \<Rightarrow> bpf_core_cand list \<Rightarrow>
    (int \<times> bpf_core_cand list) option" where
  "bpf_core_add_cands grow local_btf local_id local_essent_len targ_btf targ_start_id cands = do {
     local_t \<leftarrow> btf__type_by_id local_btf local_id;
     local_name \<leftarrow> btf__str_by_offset local_btf (bt_name_off local_t);
     add_cands_loop grow local_t local_name local_essent_len targ_btf [targ_start_id..<btf__type_cnt targ_btf] cands }"

end
