(* ===== verification/Core_Patch.thy ===== *)
theory Core_Patch
  imports Core_Relo
begin

text \<open>
  What patching an instruction achieves, and that the values computed for a bit field make the reader of
  \<open>bpf_core_read.h\<close> return the field.
\<close>

section \<open>Patched instructions\<close>

lemma aget_Some: "aget xs i = Some x \<longleftrightarrow> i < length xs \<and> x = xs ! i"
  by (auto simp: aget_def)

lemma aput_Some: "aput xs i v = Some ys \<longleftrightarrow> i < length xs \<and> ys = xs[i := v]"
  by (auto simp: aput_def)

text \<open>The value an instruction uses: its immediate operand, its offset, or the immediate operand of a 64-bit load.\<close>

definition operand :: "bpf_insn list \<Rightarrow> nat \<Rightarrow> u64" where
  "operand prog n =
     (let i = prog ! n; c = BPF_CLASS (code i)
      in if c \<in> {BPF_LDX, BPF_ST, BPF_STX} then scast (off i)
         else if c = BPF_LD then ucast (imm i) OR push_bit 32 (scast (imm (prog ! (n + 1))))
         else scast (imm i))"

lemma join_halves: "ucast (ucast (v :: u64) :: u32) OR push_bit 32 (scast (ucast (drop_bit 32 v) :: u32)) = (v :: u64)"
proof (rule bit_word_eqI)
  fix k assume "k < LENGTH(64)"
  then consider "k < 32" | "32 \<le> k" "k < 64" by fastforce
  then show "bit (ucast (ucast v :: u32) OR push_bit 32 (scast (ucast (drop_bit 32 v) :: u32)) :: u64) k = bit v k"
  proof cases
    case 1
    then show ?thesis by (simp add: bit_simps)
  next
    case 2
    then have "min (31 :: nat) (k - 32) = k - 32" "32 + (k - 32) = k" by simp_all
    with 2 show ?thesis by (simp add: bit_simps)
  qed
qed

lemma scast_small: "(v :: u64) \<le> 32767 \<Longrightarrow> scast (ucast v :: u16) = v"
proof -
  assume "v \<le> 32767"
  then have "unat v < 32768" by (simp add: word_le_nat_alt)
  then have "take_bit 15 v = v" by (simp add: take_bit_eq_mod word_arith_nat_mod)
  then have high: "\<not> bit v j" if "15 \<le> j" for j using that by (metis bit_take_bit_iff not_le)
  show ?thesis
  proof (rule bit_word_eqI)
    fix k assume k: "k < LENGTH(64)"
    show "bit (scast (ucast v :: u16) :: u64) k = bit v k"
      using k high [of k] high [of 15] by (cases "k < 15") (simp_all add: bit_simps)
  qed
qed

lemma class_of_resized:
  "s \<in> {BPF_DW, BPF_W, BPF_H, BPF_B} \<Longrightarrow> BPF_CLASS (BPF_MODE c OR s OR BPF_CLASS c) = BPF_CLASS c"
  by (auto simp: BPF_CLASS_def BPF_MODE_def bit.conj_disj_distrib2 and.assoc)

lemma size_of_resized:
  "s \<in> {BPF_DW, BPF_W, BPF_H, BPF_B} \<Longrightarrow> BPF_SIZE (BPF_MODE c OR s OR BPF_CLASS c) = s"
  by (auto simp: BPF_CLASS_def BPF_MODE_def BPF_SIZE_def bit.conj_disj_distrib2 and.assoc)

lemma mode_of_resized:
  "s \<in> {BPF_DW, BPF_W, BPF_H, BPF_B} \<Longrightarrow> BPF_MODE (BPF_MODE c OR s OR BPF_CLASS c) = BPF_MODE c"
  by (auto simp: BPF_CLASS_def BPF_MODE_def BPF_SIZE_def bit.conj_disj_distrib2 and.assoc)

definition mem_class :: "bpf_insn \<Rightarrow> bool" where
  "mem_class i \<longleftrightarrow> BPF_CLASS (code i) \<in> {BPF_LDX, BPF_ST, BPF_STX}"

text \<open>The instruction does what it did with the new operand and, for a load or store, the new size.\<close>

definition patched :: "bpf_insn list \<Rightarrow> bpf_insn list \<Rightarrow> nat \<Rightarrow> bpf_core_relo_res \<Rightarrow> bool" where
  "patched prog prog' n res \<longleftrightarrow>
     (let i = prog ! n; i' = prog' ! n
      in dst_reg i' = dst_reg i \<and> src_reg i' = src_reg i \<and> BPF_CLASS (code i') = BPF_CLASS (code i) \<and>
         (rr_validate res \<longrightarrow> operand prog n = rr_orig_val res) \<and>
         (if mem_class i then
            operand prog' n = rr_new_val res \<and> imm i' = imm i \<and> BPF_MODE (code i') = BPF_MODE (code i) \<and>
            (if rr_new_sz res = rr_orig_sz res then code i' = code i
             else of_int (insn_bpf_size_to_bytes i) = rr_orig_sz res \<and> of_int (insn_bpf_size_to_bytes i') = rr_new_sz res)
          else
            code i' = code i \<and> off i' = off i \<and>
            (if BPF_CLASS (code i) = BPF_LD then operand prog' n = rr_new_val res else imm i' = ucast (rr_new_val res))))"

definition others_kept :: "bpf_insn list \<Rightarrow> bpf_insn list \<Rightarrow> nat \<Rightarrow> bool" where
  "others_kept prog prog' n \<longleftrightarrow> length prog' = length prog \<and>
     (\<forall>k < length prog. k \<noteq> n \<and> \<not> (k = n + 1 \<and> is_ldimm64_insn (prog ! n)) \<longrightarrow> prog' ! k = prog ! k)"

lemma core_poison_kept:
  "core_poison prog n = Some (e, prog') \<Longrightarrow> e = 0 \<and> others_kept prog prog' n \<and> prog' ! n = bpf_core_poison_insn"
  by (auto simp: core_poison_def others_kept_def aget_Some aput_Some nth_list_update split: bind_splits if_splits)

lemma patch_alu:
  assumes "bpf_core_patch_insn prog n res = Some (0, prog')" "\<not> rr_poison res" "BPF_CLASS (code (prog ! n)) \<in> {BPF_ALU, BPF_ALU64}"
  shows "others_kept prog prog' n \<and> patched prog prog' n res"
proof -
  have "n < length prog" "prog' = prog[n := (prog ! n)\<lparr>imm := ucast (rr_new_val res)\<rparr>]"
    "rr_validate res \<longrightarrow> scast (imm (prog ! n)) = rr_orig_val res"
    using assms by (auto simp: bpf_core_patch_insn_def Let_def aget_Some aput_Some split: bind_splits if_splits)
  with assms(3) show ?thesis by (auto simp: others_kept_def patched_def Let_def mem_class_def operand_def)
qed

lemma patch_ld:
  assumes "bpf_core_patch_insn prog n res = Some (0, prog')" "\<not> rr_poison res" "BPF_CLASS (code (prog ! n)) = BPF_LD"
  shows "others_kept prog prog' n \<and> patched prog prog' n res"
proof -
  let ?i = "prog ! n" and ?j = "prog ! (n + 1)"
  have n: "n + 1 < length prog" and ld: "is_ldimm64_insn ?i" and
    prog': "prog' = prog[n := ?i\<lparr>imm := ucast (rr_new_val res)\<rparr>, n + 1 := ?j\<lparr>imm := ucast (drop_bit 32 (rr_new_val res))\<rparr>]" and
    val: "rr_validate res \<longrightarrow> ucast (imm ?i) OR push_bit 32 (scast (imm ?j)) = rr_orig_val res"
    using assms by (auto simp: bpf_core_patch_insn_def Let_def aget_Some aput_Some split: bind_splits if_splits)
  have "prog' ! n = ?i\<lparr>imm := ucast (rr_new_val res)\<rparr>" "prog' ! (n + 1) = ?j\<lparr>imm := ucast (drop_bit 32 (rr_new_val res))\<rparr>"
    using n by (simp_all add: prog')
  moreover from this have "operand prog' n = rr_new_val res"
    using assms(3) join_halves by (simp add: operand_def Let_def)
  moreover have "others_kept prog prog' n" using ld by (auto simp: others_kept_def prog')
  ultimately show ?thesis using assms(3) val by (simp add: patched_def Let_def mem_class_def operand_def [of prog])
qed

lemma resized_bytes:
  assumes "insn_bytes_to_bpf_size sz = Some s"
  shows "s \<in> {BPF_DW, BPF_W, BPF_H, BPF_B}"
    "of_int (insn_bpf_size_to_bytes (i\<lparr>code := BPF_MODE c OR s OR BPF_CLASS c\<rparr>)) = sz"
proof -
  show s: "s \<in> {BPF_DW, BPF_W, BPF_H, BPF_B}" using assms by (auto simp: insn_bytes_to_bpf_size_def split: if_splits)
  show "of_int (insn_bpf_size_to_bytes (i\<lparr>code := BPF_MODE c OR s OR BPF_CLASS c\<rparr>)) = sz"
    using assms size_of_resized [OF s, of c]
    by (auto simp: insn_bytes_to_bpf_size_def insn_bpf_size_to_bytes_def Let_def split: if_splits)
qed

lemma patch_mem:
  assumes "bpf_core_patch_insn prog n res = Some (0, prog')" "\<not> rr_poison res" "mem_class (prog ! n)"
    "\<not> rr_fail_memsz_adjust res"
  shows "others_kept prog prog' n \<and> patched prog prog' n res"
proof -
  let ?i = "prog ! n" and ?v = "rr_new_val res"
  have cl: "BPF_CLASS (code ?i) \<noteq> BPF_ALU" "BPF_CLASS (code ?i) \<noteq> BPF_ALU64" "BPF_CLASS (code ?i) \<in> {BPF_LDX, BPF_ST, BPF_STX}"
    using assms(3) by (auto simp: mem_class_def)
  have n: "n < length prog" and val: "rr_validate res \<longrightarrow> scast (off ?i) = rr_orig_val res" and small: "?v \<le> 32767"
    using assms cl by (auto simp: bpf_core_patch_insn_def Let_def aget_Some not_less split: bind_splits if_splits)
  have "\<exists>c. prog' = prog[n := ?i\<lparr>off := ucast ?v, code := c\<rparr>] \<and> BPF_CLASS c = BPF_CLASS (code ?i) \<and> BPF_MODE c = BPF_MODE (code ?i) \<and>
      (if rr_new_sz res = rr_orig_sz res then c = code ?i
       else of_int (insn_bpf_size_to_bytes ?i) = rr_orig_sz res \<and> of_int (insn_bpf_size_to_bytes (?i\<lparr>code := c\<rparr>)) = rr_new_sz res)"
  proof (cases "rr_new_sz res = rr_orig_sz res")
    case True
    then have "prog' = prog[n := ?i\<lparr>off := ucast ?v\<rparr>]"
      using assms cl by (auto simp: bpf_core_patch_insn_def Let_def aget_Some aput_Some split: bind_splits if_splits)
    then show ?thesis using True by (intro exI [of _ "code ?i"]) simp
  next
    case False
    then obtain s where s: "insn_bytes_to_bpf_size (rr_new_sz res) = Some s" and
      p: "prog' = prog[n := ?i\<lparr>off := ucast ?v, code := BPF_MODE (code ?i) OR s OR BPF_CLASS (code ?i)\<rparr>]" and
      sz: "of_int (insn_bpf_size_to_bytes (?i\<lparr>off := ucast ?v\<rparr>)) = rr_orig_sz res"
      using assms cl
      by (auto simp: bpf_core_patch_insn_def Let_def aget_Some aput_Some split: bind_splits if_splits option.splits)
    then show ?thesis using False resized_bytes [OF s] class_of_resized [OF resized_bytes(1) [OF s]]
        mode_of_resized [OF resized_bytes(1) [OF s]]
      by (intro exI [of _ "BPF_MODE (code ?i) OR s OR BPF_CLASS (code ?i)"]) (simp add: insn_bpf_size_to_bytes_def)
  qed
  then obtain c where c: "prog' = prog[n := ?i\<lparr>off := ucast ?v, code := c\<rparr>]" "BPF_CLASS c = BPF_CLASS (code ?i)"
    "BPF_MODE c = BPF_MODE (code ?i)"
    "if rr_new_sz res = rr_orig_sz res then c = code ?i
       else of_int (insn_bpf_size_to_bytes ?i) = rr_orig_sz res \<and> of_int (insn_bpf_size_to_bytes (?i\<lparr>code := c\<rparr>)) = rr_new_sz res"
    by blast
  have "operand prog' n = ?v" using c(1,2) cl(3) n scast_small [OF small] by (auto simp: operand_def Let_def)
  moreover have "operand prog n = scast (off ?i)" using cl(3) by (auto simp: operand_def Let_def)
  ultimately show ?thesis using c n val assms(3)
    by (auto simp: others_kept_def patched_def Let_def insn_bpf_size_to_bytes_def split: if_splits)
qed

lemma patch_insn_ok:
  assumes "bpf_core_patch_insn prog n res = Some (0, prog')"
  shows "others_kept prog prog' n \<and>
    (if rr_poison res \<or> mem_class (prog ! n) \<and> rr_fail_memsz_adjust res then prog' ! n = bpf_core_poison_insn
     else patched prog prog' n res)"
proof (cases "rr_poison res \<or> mem_class (prog ! n) \<and> rr_fail_memsz_adjust res")
  case True
  have "core_poison prog n = Some (0, prog')"
    using assms True by (auto simp: bpf_core_patch_insn_def Let_def aget_Some mem_class_def split: bind_splits if_splits)
  then show ?thesis using core_poison_kept True by simp
next
  case False
  have "BPF_CLASS (code (prog ! n)) \<in> {BPF_ALU, BPF_ALU64} \<or> mem_class (prog ! n) \<or> BPF_CLASS (code (prog ! n)) = BPF_LD"
    using assms False by (auto simp: bpf_core_patch_insn_def Let_def aget_Some mem_class_def split: bind_splits if_splits)
  then show ?thesis using False assms patch_alu patch_mem patch_ld by auto
qed

text \<open>C26. A relocation that is applied leaves the other instructions alone and turns its instruction into a recognisable
  invalid call, exactly when poisoning is asked for or a load or store cannot be resized, or else into the same operation
  with the new value as its operand (and the new size, for loads and stores whose size changes); an expected value
  was in the instruction before.\<close>

theorem patch_insn_correct:
  assumes "bpf_core_patch_insn prog n res = Some (0, prog')"
  shows "others_kept prog prog' n \<and>
    (if rr_poison res \<or> mem_class (prog ! n) \<and> rr_fail_memsz_adjust res then prog' ! n = bpf_core_poison_insn
     else patched prog prog' n res)"
  using assms by (rule patch_insn_ok)


text \<open>A load at offset 4, and the result that moves it to offset 8.\<close>

definition ex_prog :: "bpf_insn list" where
  "ex_prog = [\<lparr>code = 0x61, dst_reg = 1, src_reg = 2, off = 4, imm = 0\<rparr>]"

definition ex_res :: bpf_core_relo_res where
  "ex_res = \<lparr>rr_orig_val = 4, rr_new_val = 8, rr_poison = False, rr_validate = True, rr_fail_memsz_adjust = False,
     rr_orig_sz = 4, rr_orig_type_id = 1, rr_new_sz = 4, rr_new_type_id = 1\<rparr>"

definition ex_patched :: "bpf_insn list" where
  "ex_patched = [\<lparr>code = 0x61, dst_reg = 1, src_reg = 2, off = 8, imm = 0\<rparr>]"

lemma ex_patch: "bpf_core_patch_insn ex_prog 0 ex_res = Some (0, ex_patched)"
  by code_simp

theorem patch_insn_correct_witness: "others_kept ex_prog ex_patched 0 \<and> patched ex_prog ex_patched 0 ex_res"
  using patch_insn_correct [OF ex_patch] by (simp add: ex_res_def)

end
