(* ===== verification/Core_Bitfield.thy ===== *)
theory Core_Bitfield
  imports Core_Patch
begin

text \<open>
  The four values relocated for a bit field and the macro \<open>BPF_CORE_READ_BITFIELD\<close> of \<open>bpf_core_read.h\<close>, which
  reads the field with them.
\<close>

section \<open>Reading a bit field\<close>

text \<open>The number that the bytes \<open>bs\<close>, least significant first, stand for.\<close>

primrec number_of :: "u8 list \<Rightarrow> u64" where
  "number_of [] = 0"
| "number_of (b # bs) = ucast b OR push_bit 8 (number_of bs)"

definition load_number :: "bool \<Rightarrow> u8 list \<Rightarrow> nat \<Rightarrow> nat \<Rightarrow> u64 option" where
  "load_number le mem p n =
     (if p + n \<le> length mem then Some (number_of ((if le then id else rev) (take n (drop p mem)))) else None)"

text \<open>The macro \<open>BPF_CORE_READ_BITFIELD\<close> over the object \<open>mem\<close>, with the five values its relocations stand for.\<close>

definition BPF_CORE_READ_BITFIELD :: "bool \<Rightarrow> u8 list \<Rightarrow> u64 \<Rightarrow> u64 \<Rightarrow> u64 \<Rightarrow> u64 \<Rightarrow> u64 \<Rightarrow> u64 option" where
  "BPF_CORE_READ_BITFIELD le mem byte_offset byte_size lshift rshift sign = do {
     val \<leftarrow> (if byte_size \<in> {1, 2, 4, 8} then load_number le mem (unat byte_offset) (unat byte_size) else Some 0);
     let val = push_bit (unat lshift) val;
     Some (if sign \<noteq> 0 then signed_drop_bit (unat rshift) val else drop_bit (unat rshift) val) }"

text \<open>Bit \<open>k\<close> of a field of \<open>n\<close> bits at bit \<open>pos\<close> of an object, where a big-endian machine counts bits from the most
  significant one.\<close>

definition field_bit :: "bool \<Rightarrow> u8 list \<Rightarrow> nat \<Rightarrow> nat \<Rightarrow> nat \<Rightarrow> bool" where
  "field_bit le mem pos n k =
     (if le then bit (mem ! ((pos + k) div 8)) ((pos + k) mod 8)
      else bit (mem ! ((pos + n - 1 - k) div 8)) (7 - (pos + n - 1 - k) mod 8))"

lemma bit_number_of: "k < 64 \<Longrightarrow> bit (number_of bs) k \<longleftrightarrow> k div 8 < length bs \<and> bit (bs ! (k div 8)) (k mod 8)"
proof (induction bs arbitrary: k)
  case (Cons b bs)
  show ?case
  proof (cases "k < 8")
    case True
    then show ?thesis using Cons.prems by (simp add: bit_simps)
  next
    case False
    then have "k div 8 = Suc ((k - 8) div 8)" "k mod 8 = (k - 8) mod 8" by (simp_all add: div_if mod_if)
    moreover have "\<not> bit b k" using False by (auto dest: bit_imp_le_length)
    ultimately show ?thesis using False Cons by (simp add: bit_simps)
  qed
qed simp

lemma bit_load_number:
  assumes "load_number le mem p n = Some v" "k < 8 * n" "n \<le> 8"
  shows "bit v k = bit (mem ! (if le then p + k div 8 else p + (n - 1 - k div 8))) (k mod 8)"
proof -
  have len: "p + n \<le> length mem" and v: "v = number_of ((if le then id else rev) (take n (drop p mem)))"
    using assms(1) by (auto simp: load_number_def split: if_splits)
  have "k div 8 < n" "k < 64" using assms(2,3) by auto
  then show ?thesis using len by (simp add: v bit_number_of rev_nth add.commute)
qed

lemma load_number_high:
  assumes "load_number le mem p n = Some v" "8 * n \<le> k"
  shows "\<not> bit v k"
proof
  assume "bit v k"
  then have "k < 64" by (auto dest: bit_imp_le_length)
  then show False using \<open>bit v k\<close> assms by (auto simp: load_number_def bit_number_of split: if_splits)
qed

text \<open>Shifting left by \<open>l\<close> and right by \<open>64 - n\<close> leaves the \<open>n\<close> bits from \<open>d\<close> on.\<close>

lemma bit_extract:
  assumes "l + d + n = 64" "0 < n"
  shows "bit (drop_bit (64 - n) (push_bit l (v :: u64))) k \<longleftrightarrow> k < n \<and> bit v (d + k)"
    "bit (signed_drop_bit (64 - n) (push_bit l v)) k \<longleftrightarrow> k < 64 \<and> bit v (d + min k (n - 1))"
proof -
  have *: "bit (push_bit l v) j \<longleftrightarrow> l \<le> j \<and> j < 64 \<and> bit v (j - l)" for j by (auto simp: bit_simps)
  show "bit (drop_bit (64 - n) (push_bit l v)) k \<longleftrightarrow> k < n \<and> bit v (d + k)"
  proof -
    have "64 - n + k - l = d + k" "l \<le> 64 - n + k" using assms by linarith+
    moreover have "64 - n + k < 64 \<longleftrightarrow> k < n" using assms by linarith
    ultimately show ?thesis by (simp add: bit_drop_bit_eq * del: diff_add_assoc2)
  qed
  have "64 - n + (n - Suc 0) = 63" using assms by simp
  then have calc: "bit (signed_drop_bit (64 - n) (push_bit l v)) k \<longleftrightarrow>
      k < 64 \<and> bit (push_bit l v) (if k < n then 64 - n + k else 63)"
    using assms by (cases "k < n") (auto simp: bit_signed_drop_bit_iff *)
  have "63 - l = d + (n - 1)" using assms by simp
  show "bit (signed_drop_bit (64 - n) (push_bit l v)) k \<longleftrightarrow> k < 64 \<and> bit v (d + min k (n - 1))"
  proof (cases "k < n")
    case True
    have "64 - n + k - l = d + k" "l \<le> 64 - n + k" "64 - n + k < 64" "min k (n - 1) = k" using assms True by linarith+
    then show ?thesis using calc True by (simp add: *)
  next
    case False
    have "l \<le> 63" "min k (n - 1) = n - 1" using assms False by linarith+
    then show ?thesis using calc False \<open>63 - l = d + (n - 1)\<close> by (simp add: *)
  qed
qed

lemma div_mod_8: "r = 8 * a + c \<Longrightarrow> c < 8 \<Longrightarrow> r div 8 = a \<and> r mod 8 = (c :: nat)"
  by simp

lemma read_bitfield_bits:
  fixes pos n bo bs :: nat
  assumes "bs \<in> {1, 2, 4, 8}" "8 * bo \<le> pos" "pos + n \<le> 8 * bo + 8 * bs" "0 < n" "bo + bs \<le> length mem"
    "unat byte_offset = bo" "unat byte_size = bs" "unat rshift = 64 - n"
    "unat lshift = (if le then 64 - (pos + n - 8 * bo) else (8 - bs) * 8 + (pos - 8 * bo))"
  shows "\<exists>v. BPF_CORE_READ_BITFIELD le mem byte_offset byte_size lshift rshift sign = Some v \<and>
    (\<forall>k < 64. bit v k \<longleftrightarrow> (if k < n then field_bit le mem pos n k else sign \<noteq> 0 \<and> field_bit le mem pos n (n - 1)))"
proof -
  obtain v where v: "load_number le mem bo bs = Some v" using assms(5) by (simp add: load_number_def)
  have size: "byte_size \<in> {1, 2, 4, 8}" using assms(1,7) by (auto simp: word_unat_eq_iff)
  define d where "d = (if le then pos - 8 * bo else 8 * bo + 8 * bs - pos - n)"
  have bs: "bs \<le> 8" using assms(1) by auto
  have lk: "unat lshift + d + n = 64" using assms(2,3,9) bs by (auto simp: d_def)
  have f: "bit v (d + k) = field_bit le mem pos n k" if "k < n" for k
  proof -
    have k: "d + k < 8 * bs" using that assms(2,3) by (auto simp: d_def)
    note b = bit_load_number [OF v k bs]
    show ?thesis
    proof (cases le)
      case True
      then have "pos + k = 8 * bo + (d + k)" using assms(2) by (simp add: d_def)
      then have "(pos + k) div 8 = bo + (d + k) div 8" "(pos + k) mod 8 = (d + k) mod 8"
        by (simp_all only: mod_mult_self4 div_mult_self4 zero_neq_numeral [symmetric] not_False_eq_True)
      then show ?thesis using b True by (simp add: field_bit_def)
    next
      case False
      define q where "q = d + k"
      define r where "r = pos + n - 1 - k"
      have qr: "r = 8 * bo + (8 * bs - 1 - q)" using False that assms(3) k by (simp add: d_def q_def r_def)
      have q: "q < 8 * bs" using k by (simp add: q_def)
      have "8 * bs - 1 - q = 8 * (bs - 1 - q div 8) + (7 - q mod 8)"
      proof -
        have "q = 8 * (q div 8) + q mod 8" "q mod 8 < 8" "q div 8 < bs" using q by auto
        then show ?thesis by linarith
      qed
      then have "r = 8 * (bo + (bs - 1 - q div 8)) + (7 - q mod 8)" by (simp only: qr distrib_left add.assoc)
      from div_mod_8 [OF this] have "r div 8 = bo + (bs - 1 - q div 8)" "r mod 8 = 7 - q mod 8" by simp_all
      moreover have "7 - (7 - q mod 8) = q mod 8"
      proof -
        have "q mod 8 < 8" by simp
        then show ?thesis by linarith
      qed
      ultimately show ?thesis using b False
        unfolding field_bit_def q_def [symmetric] r_def [symmetric] by simp
    qed
  qed
  have "BPF_CORE_READ_BITFIELD le mem byte_offset byte_size lshift rshift sign =
      Some (if sign \<noteq> 0 then signed_drop_bit (64 - n) (push_bit (unat lshift) v) else drop_bit (64 - n) (push_bit (unat lshift) v))"
    using v size by (simp add: BPF_CORE_READ_BITFIELD_def assms(6,7,8))
  moreover have "\<forall>k < 64. bit (if sign \<noteq> 0 then signed_drop_bit (64 - n) (push_bit (unat lshift) v)
      else drop_bit (64 - n) (push_bit (unat lshift) v)) k \<longleftrightarrow>
      (if k < n then field_bit le mem pos n k else sign \<noteq> 0 \<and> field_bit le mem pos n (n - 1))"
    using bit_extract [OF lk assms(4), of v] f assms(4) by (auto simp: min_def)
  ultimately show ?thesis by blast
qed

text \<open>The load that is chosen covers the field.\<close>

lemma bitfield_load_covers:
  assumes "bitfield_load bit_off bit_sz sz = Some (Inr (byte_sz, byte_off))" "unat sz \<in> {1, 2, 4, 8}"
    "unat bit_off + unat bit_sz < 2 ^ 32"
  shows "unat byte_sz \<in> {1, 2, 4, 8} \<and> 8 * unat byte_off \<le> unat bit_off \<and>
    unat bit_off + unat bit_sz \<le> 8 * unat byte_off + 8 * unat byte_sz"
  using assms
proof (induction bit_off bit_sz sz rule: bitfield_load.induct)
  case (1 bit_off bit_sz sz)
  define bo where "bo = bit_off div 8 div sz * sz"
  have "unat (bit_off div 8 div sz) * unat sz \<le> unat bit_off div 8" by (simp add: unat_div)
  then have le: "unat bo = unat (bit_off div 8 div sz) * unat sz" "8 * unat bo \<le> unat bit_off"
    using unat_mult_small [of "bit_off div 8 div sz" sz] unat_u32_less [of bit_off] by (auto simp: bo_def)
  have "unat bo * unat (8 :: u32) < 2 ^ 32" using le(2) unat_u32_less [of bit_off] by simp
  from unat_mult_small [OF this] have u: "unat (bo * 8) = 8 * unat bo" by simp
  have "unat (bit_off + bit_sz) = unat bit_off + unat bit_sz" using "1.prems"(3) by (simp add: unat_word_ariths)
  moreover from this have "bo * 8 \<le> bit_off + bit_sz" using u le by (simp add: word_le_nat_alt)
  ultimately have d: "unat (bit_off + bit_sz - bo * 8) = unat bit_off + unat bit_sz - 8 * unat bo"
    by (simp add: unat_sub_word u)
  have s: "unat (sz * 8) = 8 * unat sz" using "1.prems"(2) unat_mult_small [of sz 8] by auto
  have nz: "sz \<noteq> 0" using "1.prems"(2) by auto
  show ?case
  proof (cases "bit_off + bit_sz - bo * 8 > sz * 8")
    case True
    then have small: "\<not> sz \<ge> 8" and rec: "bitfield_load bit_off bit_sz (sz * 2) = Some (Inr (byte_sz, byte_off))"
      using "1.prems"(1) nz by (auto simp: bitfield_load.simps [of _ _ sz] Let_def bo_def split: if_splits)
    have "unat sz \<in> {1, 2, 4}" using small "1.prems"(2) by (auto simp: word_le_nat_alt)
    then have "unat (sz * 2) \<in> {1, 2, 4, 8}" using unat_mult_small [of sz 2] by auto
    then show ?thesis using "1.IH" [OF nz bo_def _ _ rec _ "1.prems"(3)] True small by simp
  next
    case False
    then have "byte_sz = sz" "byte_off = bo"
      using "1.prems"(1) nz by (auto simp: bitfield_load.simps [of _ _ sz] Let_def bo_def split: if_splits)
    then show ?thesis using False d s le "1.prems"(2) by (auto simp: word_less_nat_alt)
  qed
qed

text \<open>A specification whose last accessor is a bit field.\<close>

definition bitfield_spec :: "bpf_core_spec \<Rightarrow> btf_type \<Rightarrow> u32 \<Rightarrow> bool" where
  "bitfield_spec spec mt bit_sz \<longleftrightarrow> (\<exists>acc t m i. last_accessor spec = Some acc \<and> ac_name acc \<noteq> None \<and>
     btf_type_by_id (sp_btf spec) (ac_type_id acc) = Some t \<and> btf_members t (unat (ac_idx acc)) = Some m \<and>
     skip_mods_and_typedefs (sp_btf spec) (bm_type m) = Some (mt, i) \<and>
     btf_member_bitfield_size t (unat (ac_idx acc)) = Some bit_sz \<and> 0 < bit_sz)"

lemma calc_bitfield:
  assumes "bitfield_spec spec mt bit_sz" "bitfield_load (sp_bit_offset spec) bit_sz (bt_size_type mt) = Some r"
  shows "bpf_core_calc_field_relo le BPF_CORE_FIELD_BYTE_OFFSET (Some spec) =
      Some (case r of Inl e \<Rightarrow> Inl e | Inr (byte_sz, byte_off) \<Rightarrow> Inr (ucast byte_off, 0, 0, False))"
    "bpf_core_calc_field_relo le BPF_CORE_FIELD_BYTE_SIZE (Some spec) =
      Some (case r of Inl e \<Rightarrow> Inl e | Inr (byte_sz, byte_off) \<Rightarrow> Inr (ucast byte_sz, 0, 0, False))"
    "bpf_core_calc_field_relo le BPF_CORE_FIELD_LSHIFT_U64 (Some spec) =
      Some (case r of Inl e \<Rightarrow> Inl e | Inr (byte_sz, byte_off) \<Rightarrow>
        Inr (ucast (if le then 64 - (sp_bit_offset spec + bit_sz - byte_off * 8)
                    else (8 - byte_sz) * 8 + (sp_bit_offset spec - byte_off * 8)), 0, 0, False))"
    "bpf_core_calc_field_relo le BPF_CORE_FIELD_RSHIFT_U64 (Some spec) =
      Some (case r of Inl e \<Rightarrow> Inl e | Inr (byte_sz, byte_off) \<Rightarrow> Inr (ucast (64 - bit_sz), 0, 0, True))"
  using assms by (auto simp: bitfield_spec_def bpf_core_calc_field_relo_def split: sum.splits)

text \<open>C27. The values computed for a bit field make \<open>BPF_CORE_READ_BITFIELD\<close> return the field, zero-extended or
  sign-extended, on hosts of either byte order, from any object large enough for the load.\<close>

theorem bitfield_relocations_read_field:
  assumes "bitfield_spec spec mt bit_sz" "bt_size_type mt \<in> {1, 2, 4, 8}" "unat (sp_bit_offset spec) + unat bit_sz < 2 ^ 32"
    "bpf_core_calc_field_relo le BPF_CORE_FIELD_BYTE_OFFSET (Some spec) = Some (Inr (bo, x1))"
    "bpf_core_calc_field_relo le BPF_CORE_FIELD_BYTE_SIZE (Some spec) = Some (Inr (bs, x2))"
    "bpf_core_calc_field_relo le BPF_CORE_FIELD_LSHIFT_U64 (Some spec) = Some (Inr (ls, x3))"
    "bpf_core_calc_field_relo le BPF_CORE_FIELD_RSHIFT_U64 (Some spec) = Some (Inr (rs, x4))"
    "unat bo + unat bs \<le> length mem"
  shows "\<exists>v. BPF_CORE_READ_BITFIELD le mem bo bs ls rs sign = Some v \<and>
    (\<forall>k < 64. bit v k \<longleftrightarrow>
      (if k < unat bit_sz then field_bit le mem (unat (sp_bit_offset spec)) (unat bit_sz) k
       else sign \<noteq> 0 \<and> field_bit le mem (unat (sp_bit_offset spec)) (unat bit_sz) (unat bit_sz - 1)))"
proof -
  let ?pos = "sp_bit_offset spec"
  have mt: "unat (bt_size_type mt) \<in> {1, 2, 4, 8}" using assms(2) by auto
  obtain r where r: "bitfield_load ?pos bit_sz (bt_size_type mt) = Some r"
    using assms(1,4) by (auto simp: bitfield_spec_def bpf_core_calc_field_relo_def split: bind_splits)
  note calc = calc_bitfield [OF assms(1) r, of le]
  obtain byte_sz byte_off where [simp]: "r = Inr (byte_sz, byte_off)" using assms(4) calc(1) by (cases r) auto
  have v: "bo = ucast byte_off" "bs = ucast byte_sz" "rs = ucast (64 - bit_sz)"
    "ls = ucast (if le then 64 - (?pos + bit_sz - byte_off * 8) else (8 - byte_sz) * 8 + (?pos - byte_off * 8))"
    using assms(4-7) calc by simp_all
  have c: "unat byte_sz \<in> {1, 2, 4, 8}" "8 * unat byte_off \<le> unat ?pos"
    "unat ?pos + unat bit_sz \<le> 8 * unat byte_off + 8 * unat byte_sz"
    using bitfield_load_covers [of ?pos bit_sz "bt_size_type mt" byte_sz byte_off] r mt assms(3) by auto
  have pos: "0 < unat bit_sz" using assms(1) by (auto simp: bitfield_spec_def unat_gt_0 word_neq_0_conv)
  have bs8: "unat byte_sz \<le> 8" using c(1) by auto
  have b8: "unat (byte_off * 8) = 8 * unat byte_off"
    using unat_mult_small [of byte_off 8] c(2) unat_u32_less [of ?pos] by simp
  have n64: "unat bit_sz \<le> 64" using c bs8 by linarith
  then have rs: "unat (64 - bit_sz) = 64 - unat bit_sz" by (simp add: unat_sub_word word_le_nat_alt)
  have sum: "unat (?pos + bit_sz) = unat ?pos + unat bit_sz" using assms(3) by (simp add: unat_word_ariths)
  then have "unat (?pos + bit_sz - byte_off * 8) = unat ?pos + unat bit_sz - 8 * unat byte_off"
    using c(2) b8 by (simp add: unat_sub_word word_le_nat_alt)
  moreover from this have "unat (64 - (?pos + bit_sz - byte_off * 8)) = 64 - (unat ?pos + unat bit_sz - 8 * unat byte_off)"
    using c(3) bs8 by (simp add: unat_sub_word word_le_nat_alt)
  moreover have "unat ((8 - byte_sz) * 8 + (?pos - byte_off * 8)) = (8 - unat byte_sz) * 8 + (unat ?pos - 8 * unat byte_off)"
  proof -
    have "unat (8 - byte_sz) = 8 - unat byte_sz" using bs8 by (simp add: unat_sub_word word_le_nat_alt)
    moreover from this have "unat ((8 - byte_sz) * 8) = (8 - unat byte_sz) * 8" using unat_mult_small [of "8 - byte_sz" 8] by simp
    moreover have "unat (?pos - byte_off * 8) = unat ?pos - 8 * unat byte_off"
      using c(2) b8 by (simp add: unat_sub_word word_le_nat_alt)
    ultimately show ?thesis using c(3) pos bs8 by (simp add: unat_word_ariths)
  qed
  ultimately show ?thesis
    using read_bitfield_bits [OF c(1,2,3) pos, of mem bo bs rs ls le sign] assms(8) rs by (auto simp: v)
qed


text \<open>Bits 5 to 7 of a structure, and an object of that type.\<close>

definition ex_bits :: bpf_core_spec where
  "ex_bits = \<lparr>sp_btf = Btf None 1 0 [\<lparr>bt_name_off = 1, bt_info = 0x01000000, bt_size_type = 4, bt_rest = [0x00000020]\<rparr>,
       \<lparr>bt_name_off = 5, bt_info = 0x84000001, bt_size_type = 4, bt_rest = [7, 1, 0x03000005]\<rparr>]
       ([0] @ map of_char ''int'' @ [0] @ map of_char ''s'' @ [0] @ map of_char ''x'' @ [0]) 0 False,
     sp_spec = [\<lparr>ac_type_id = 2, ac_idx = 0, ac_name = None\<rparr>, \<lparr>ac_type_id = 2, ac_idx = 0, ac_name = Some [0x78]\<rparr>],
     sp_root_type_id = 2, sp_relo_kind = BPF_CORE_FIELD_BYTE_OFFSET, sp_raw_spec = [0, 0], sp_bit_offset = 5\<rparr>"

lemma ex_bits_spec: "bitfield_spec ex_bits \<lparr>bt_name_off = 1, bt_info = 0x01000000, bt_size_type = 4, bt_rest = [0x00000020]\<rparr> 3"
proof -
  have "last_accessor ex_bits = Some \<lparr>ac_type_id = 2, ac_idx = 0, ac_name = Some [0x78]\<rparr>"
    "btf_type_by_id (sp_btf ex_bits) 2 = Some \<lparr>bt_name_off = 5, bt_info = 0x84000001, bt_size_type = 4, bt_rest = [7, 1, 0x03000005]\<rparr>"
    "skip_mods_and_typedefs (sp_btf ex_bits) 1 =
       Some (\<lparr>bt_name_off = 1, bt_info = 0x01000000, bt_size_type = 4, bt_rest = [0x00000020]\<rparr>, 1)"
    "btf_members \<lparr>bt_name_off = 5, bt_info = 0x84000001, bt_size_type = 4, bt_rest = [7, 1, 0x03000005]\<rparr> 0 =
       Some \<lparr>bm_name_off = 7, bm_type = 1, bm_offset = 0x03000005\<rparr>"
    "btf_member_bitfield_size \<lparr>bt_name_off = 5, bt_info = 0x84000001, bt_size_type = 4, bt_rest = [7, 1, 0x03000005]\<rparr> 0 = Some 3"
    by code_simp+
  then show ?thesis by (simp add: bitfield_spec_def)
qed

theorem bitfield_relocations_read_field_witness:
  "\<exists>v. BPF_CORE_READ_BITFIELD True [0xa0, 0, 0, 0] 0 4 56 61 0 = Some v \<and> bit v 0 \<and> \<not> bit v 1 \<and> bit v 2"
proof -
  have c: "bpf_core_calc_field_relo True BPF_CORE_FIELD_BYTE_OFFSET (Some ex_bits) = Some (Inr (0, 0, 0, False))"
    "bpf_core_calc_field_relo True BPF_CORE_FIELD_BYTE_SIZE (Some ex_bits) = Some (Inr (4, 0, 0, False))"
    "bpf_core_calc_field_relo True BPF_CORE_FIELD_LSHIFT_U64 (Some ex_bits) = Some (Inr (56, 0, 0, False))"
    "bpf_core_calc_field_relo True BPF_CORE_FIELD_RSHIFT_U64 (Some ex_bits) = Some (Inr (61, 0, 0, True))" by code_simp+
  have o: "sp_bit_offset ex_bits = 5" by (simp add: ex_bits_def)
  obtain v where v: "BPF_CORE_READ_BITFIELD True [0xa0, 0, 0, 0] 0 4 56 61 0 = Some v"
    "\<forall>k < 64. bit v k \<longleftrightarrow> k < 3 \<and> field_bit True [0xa0, 0, 0, 0] 5 3 k"
    using bitfield_relocations_read_field [OF ex_bits_spec _ _ c, of "[0xa0, 0, 0, 0]" 0] by (auto simp: o)
  have "field_bit True [0xa0, 0, 0, 0] 5 3 0" "\<not> field_bit True [0xa0, 0, 0, 0] 5 3 1" "field_bit True [0xa0, 0, 0, 0] 5 3 2"
    by code_simp+
  then show ?thesis using v by (intro exI [of _ v]) simp
qed

end
