(* ===== verification/Core_Match.thy ===== *)
theory Core_Match
  imports Core_Relo Btf_Size
begin

text \<open>
  What a relocated field access designates: the path found in the target has the names and indices of the local one and
  the offset computed is the offset of that path.
\<close>

section \<open>Paths\<close>

text \<open>Following a path of member and array indices from a type: the sum of the offsets in bits, and the type reached.\<close>

fun follow :: "btf \<Rightarrow> u32 \<Rightarrow> int list \<Rightarrow> (int \<times> u32) option" where
  "follow b i [] = Some (0, i)"
| "follow b i (x # xs) = do {
     (t, j) \<leftarrow> skip_mods_and_typedefs b i;
     if btf_is_composite t then
       if 0 \<le> x \<and> x < int (btf_vlen t) then do {
         m \<leftarrow> btf_members t (nat x);
         start \<leftarrow> btf_member_bit_offset t (nat x);
         (rest, e) \<leftarrow> follow b (bm_type m) xs;
         Some (uint start + rest, e) }
       else None
     else if btf_kind t = BTF_KIND_ARRAY then do {
       a \<leftarrow> btf_array_of t;
       (et, ei) \<leftarrow> skip_mods_and_typedefs b (ba_type a);
       sz \<leftarrow> btf__resolve_size b ei;
       (rest, e) \<leftarrow> follow b ei xs;
       Some (x * sz * 8 + rest, e) }
     else None }"

text \<open>
  What a path names: the members on it that have a name, and the indices into arrays. Two paths that name the same steps lead
  to the same field of the source program, whatever the layout of the types and the nesting of their anonymous members.
\<close>

datatype path_step = Field "u8 list" | Elem int

definition label :: "btf \<Rightarrow> btf_member \<Rightarrow> path_step list" where
  "label b m =
     (case btf__name_by_offset b (bm_name_off m) of
        Some (Some s) \<Rightarrow> if s = [] then [] else [Field s]
      | _ \<Rightarrow> [])"

fun trail :: "btf \<Rightarrow> u32 \<Rightarrow> int list \<Rightarrow> path_step list" where
  "trail b i [] = []"
| "trail b i (x # xs) =
     (case skip_mods_and_typedefs b i of
        None \<Rightarrow> []
      | Some (t, j) \<Rightarrow>
          if btf_is_composite t then
            (case btf_members t (nat x) of None \<Rightarrow> [] | Some m \<Rightarrow> label b m @ trail b (bm_type m) xs)
          else
            (case btf_array_of t of
               None \<Rightarrow> []
             | Some a \<Rightarrow>
                 (case skip_mods_and_typedefs b (ba_type a) of None \<Rightarrow> [] | Some (et, ei) \<Rightarrow> Elem x # trail b ei xs)))"

text \<open>A path, its offset, the type at its end and its steps.\<close>

definition walked :: "btf \<Rightarrow> u32 \<Rightarrow> int list \<Rightarrow> (int \<times> u32 \<times> path_step list) option" where
  "walked b i path = map_option (\<lambda>(bits, e). (bits, e, trail b i path)) (follow b i path)"

text \<open>The first step of a path in a structure.\<close>

definition follow_member :: "btf \<Rightarrow> btf_type \<Rightarrow> int list \<Rightarrow> (int \<times> u32 \<times> path_step list) option" where
  "follow_member b t path =
     (case path of
        [] \<Rightarrow> None
      | x # xs \<Rightarrow>
          if 0 \<le> x \<and> x < int (btf_vlen t) then do {
            m \<leftarrow> btf_members t (nat x);
            start \<leftarrow> btf_member_bit_offset t (nat x);
            (rest, e, names) \<leftarrow> walked b (bm_type m) xs;
            Some (uint start + rest, e, label b m @ names) }
          else None)"

lemma follow_composite:
  assumes "skip_mods_and_typedefs b i = Some (t, j)" "btf_is_composite t" "follow_member b t path = Some r"
  shows "walked b i path = Some r"
  using assms by (cases path) (auto simp: follow_member_def walked_def bind_eq_Some_conv split: if_splits)

lemma follow_append:
  "follow b i xs = Some (p, j) \<Longrightarrow> follow b j ys = Some (q, e) \<Longrightarrow> follow b i (xs @ ys) = Some (p + q, e)"
proof (induction xs arbitrary: i p)
  case (Cons x xs)
  show ?case
  proof (cases "\<exists>t k. skip_mods_and_typedefs b i = Some (t, k) \<and> btf_is_composite t")
    case True
    with Cons show ?thesis by (auto simp: bind_eq_Some_conv split: if_splits)
  next
    case False
    with Cons show ?thesis by (auto simp: bind_eq_Some_conv split: if_splits)
  qed
qed simp

lemma trail_append:
  "follow b i xs = Some (p, j) \<Longrightarrow> trail b i (xs @ ys) = trail b i xs @ trail b j ys"
proof (induction xs arbitrary: i p)
  case (Cons x xs)
  show ?case
  proof (cases "\<exists>t k. skip_mods_and_typedefs b i = Some (t, k) \<and> btf_is_composite t")
    case True
    with Cons show ?thesis by (auto simp: bind_eq_Some_conv split: if_splits)
  next
    case False
    with Cons show ?thesis by (auto simp: bind_eq_Some_conv split: if_splits)
  qed
qed simp

lemma walked_append:
  "walked b i xs = Some (p, j, ns) \<Longrightarrow> walked b j ys = Some (q, e, ms) \<Longrightarrow> walked b i (xs @ ys) = Some (p + q, e, ns @ ms)"
  using follow_append [of b i xs p j ys q e] trail_append [of b i xs p j ys] by (auto simp: walked_def)

lemma skip_type:
  assumes "skip_mods_and_typedefs b i = Some (t, j)"
  shows "btf__type_by_id b j = Some t \<and> \<not> btf_is_mod t \<and> btf_kind t \<noteq> BTF_KIND_TYPEDEF"
proof -
  have "case r of (t, j) \<Rightarrow> btf__type_by_id b j = Some t \<and> \<not> btf_is_mod t \<and> btf_kind t \<noteq> BTF_KIND_TYPEDEF"
    if "skip_mods_and_typedefs b i = Some r" for b i r
    using _ that
  proof (rule skip_mods_and_typedefs.raw_induct)
    fix f b i r
    assume "\<And>b i r. f b i = Some r \<Longrightarrow> case r of (t, j) \<Rightarrow> btf__type_by_id b j = Some t \<and> \<not> btf_is_mod t \<and> btf_kind t \<noteq> BTF_KIND_TYPEDEF"
      "(case btf__type_by_id b i of None \<Rightarrow> None
        | Some t \<Rightarrow> if btf_is_mod t \<or> btf_kind t = BTF_KIND_TYPEDEF then f b (bt_size_type t) else Some (t, i)) = Some r"
    then show "case r of (t, j) \<Rightarrow> btf__type_by_id b j = Some t \<and> \<not> btf_is_mod t \<and> btf_kind t \<noteq> BTF_KIND_TYPEDEF"
      by (auto split: option.splits if_splits)
  qed
  from this [OF assms] show ?thesis by simp
qed

lemma skip_inside: "skip_mods_and_typedefs b i = Some (t, j) \<Longrightarrow> unat i < btf__type_cnt b"
  by (subst (asm) skip_mods_and_typedefs.simps) (auto simp: btf__type_by_id_def split: if_splits option.splits)

lemma skip_again: "skip_mods_and_typedefs b i = Some (t, j) \<Longrightarrow> skip_mods_and_typedefs b j = Some (t, j)"
  using skip_type [of b i t j] by (subst skip_mods_and_typedefs.simps) simp

lemma walked_skip: "skip_mods_and_typedefs b i = Some (t, j) \<Longrightarrow> walked b j (x # xs) = walked b i (x # xs)"
  using skip_again [of b i t j] by (simp add: walked_def)

section \<open>Finding a member\<close>

text \<open>The names of the members of a structure, those of its anonymous members among them.\<close>

definition item_names :: "(u32 \<Rightarrow> u8 list list) \<Rightarrow> btf \<Rightarrow> btf_type \<Rightarrow> nat \<Rightarrow> u8 list list" where
  "item_names f b t i =
     (case btf_members t i of
        None \<Rightarrow> []
      | Some m \<Rightarrow>
          (case btf__name_by_offset b (bm_name_off m) of
             None \<Rightarrow> []
           | Some s \<Rightarrow> if str_is_empty s then f (bm_type m) else [the s]))"

primrec member_names :: "nat \<Rightarrow> btf \<Rightarrow> u32 \<Rightarrow> u8 list list" where
  "member_names 0 b i = []"
| "member_names (Suc n) b i =
     (case skip_mods_and_typedefs b i of
        None \<Rightarrow> []
      | Some (t, j) \<Rightarrow>
          if btf_is_composite t then concat (map (item_names (member_names n b) b t) [0..<btf_vlen t]) else [])"

text \<open>No structure has two members of one name, as in C.\<close>

definition unambiguous :: "btf \<Rightarrow> bool" where
  "unambiguous b \<longleftrightarrow> list_all (\<lambda>i. distinct (member_names 65 b (of_nat i))) [0..<btf__type_cnt b]"

definition extended :: "bpf_core_spec \<Rightarrow> int list \<Rightarrow> u32 \<Rightarrow> bpf_core_accessor list \<Rightarrow> bpf_core_spec" where
  "extended s path bits accs = s\<lparr>sp_raw_spec := sp_raw_spec s @ path, sp_bit_offset := sp_bit_offset s + bits,
     sp_spec := sp_spec s @ accs\<rparr>"

lemma extended_simps [simp]:
  "extended s [] 0 [] = s"
  "extended (extended s p o1 a) q o2 c = extended s (p @ q) (o1 + o2) (a @ c)"
  "push_accessor x s = extended s [] 0 [x]" "add_offset v s = extended s [] v []"
  "sp_raw_spec (extended s p o1 a) = sp_raw_spec s @ p" "sp_bit_offset (extended s p o1 a) = sp_bit_offset s + o1"
  "sp_spec (extended s p o1 a) = sp_spec s @ a" "sp_btf (extended s p o1 a) = sp_btf s"
  by (simp_all add: extended_def push_accessor_def add_offset_def add.assoc)

text \<open>The accessors of a specification name members of its types, and what an accessor says of the path.\<close>

definition accessor_ok :: "btf \<Rightarrow> bpf_core_accessor \<Rightarrow> bool" where
  "accessor_ok b a \<longleftrightarrow> (\<forall>n. ac_name a = Some n \<longrightarrow> (\<exists>t m. btf_type_by_id b (ac_type_id a) = Some t \<and>
     btf_is_composite t \<and> unat (ac_idx a) < btf_vlen t \<and> btf_members t (unat (ac_idx a)) = Some m \<and> btf__name_by_offset b (bm_name_off m) = Some (Some n)))"

definition step_of :: "bpf_core_accessor \<Rightarrow> path_step" where
  "step_of a = (case ac_name a of None \<Rightarrow> Elem (sint (ac_idx a)) | Some n \<Rightarrow> Field n)"

text \<open>
  What a search does, for the local name \<open>name\<close> among the names \<open>ns\<close>: a member found extends the specification
  by its path, and a search without success leaves it as it was unless the name is there (with an incompatible type).
\<close>

definition search_ok :: "btf \<Rightarrow> u8 list option \<Rightarrow> u8 list list \<Rightarrow> (int list \<Rightarrow> (int \<times> u32 \<times> path_step list) option) \<Rightarrow> bpf_core_spec \<Rightarrow>
    int \<times> bpf_core_spec \<times> u32 \<Rightarrow> bool" where
  "search_ok b name ns w spec r = (case r of (found, spec', next_id) \<Rightarrow>
     (0 < found \<longrightarrow> (\<exists>path bits a n. name = Some n \<and> n \<in> set ns \<and> spec' = extended spec path (of_int bits) [a] \<and>
        path \<noteq> [] \<and> w path = Some (bits, next_id, [Field n]) \<and> ac_name a = Some n \<and> accessor_ok b a)) \<and>
     (found = 0 \<longrightarrow> spec' = spec \<or> (\<exists>n. name = Some n \<and> n \<in> set ns)))"

lemma search_ok_later:
  assumes "search_ok b name ns' w spec r" "set ns' \<subseteq> set ns"
  shows "search_ok b name ns w spec r"
  using assms by (cases r) (fastforce simp: search_ok_def)

lemma search_ok_walk:
  assumes "search_ok b name ns w spec r" "\<And>p x. w p = Some x \<Longrightarrow> w' p = Some x"
  shows "search_ok b name ns w' spec r"
proof -
  obtain f s i where r: "r = (f, s, i)" by (cases r)
  have "\<exists>path bits a n. name = Some n \<and> n \<in> set ns \<and> s = extended spec path (of_int bits) [a] \<and>
      path \<noteq> [] \<and> w' path = Some (bits, i, [Field n]) \<and> ac_name a = Some n \<and> accessor_ok b a" if "0 < f"
    using assms that unfolding search_ok_def r by blast
  then show ?thesis using assms(1) by (simp add: search_ok_def r)
qed

lemma push_member [simp]: "(extended s [] v [])\<lparr>sp_raw_spec := sp_raw_spec s @ [i]\<rparr> = extended s [i] v []"
  by (simp add: extended_def del: extended_simps)

lemma match_members_ok:
  assumes "match_members deeper lb lm name tb tt ti is spec next_id = Some r"
    "distinct (concat (map (item_names f tb tt) is))"
    "\<And>i spec next_id r. deeper i spec next_id = Some r \<Longrightarrow> distinct (f i) \<Longrightarrow> search_ok tb name (f i) (walked tb i) spec r"
    "btf__type_by_id tb ti = Some tt" "btf_is_composite tt" "list_all (\<lambda>i. i < btf_vlen tt) is"
  shows "search_ok tb name (concat (map (item_names f tb tt) is)) (follow_member tb tt) spec r"
  using assms(1,2,6)
proof (induction "is" arbitrary: spec next_id r)
  case Nil
  then show ?case by (auto simp: search_ok_def)
next
  case (Cons i "is")
  let ?w = "follow_member tb tt"
  let ?ns = "concat (map (item_names f tb tt) (i # is))" and ?rest = "concat (map (item_names f tb tt) is)"
  obtain v m where vm: "btf_member_bit_offset tt i = Some v" "btf_members tt i = Some m"
    using Cons.prems(1) by (auto simp: Let_def split: bind_splits)
  show ?case
  proof (cases "length (sp_raw_spec spec) = 64")
    case True
    then have "r = (- E2BIG, spec, next_id)" using Cons.prems(1) vm by simp
    then show ?thesis by (simp add: search_ok_def)
  next
    case False
    then obtain tn where tn: "btf__name_by_offset tb (bm_name_off m) = Some tn"
      using Cons.prems(1) vm by (auto simp: Let_def split: bind_splits)
    let ?spec = "extended spec [int i] v []"
    show ?thesis
    proof (cases "str_is_empty tn")
      case True
      have names: "item_names f tb tt i = f (bm_type m)" using vm tn True by (simp add: item_names_def)
      obtain fd sp nx where d: "deeper (bm_type m) ?spec next_id = Some (fd, sp, nx)"
        using Cons.prems(1) vm tn True False by (auto simp: Let_def split: bind_splits)
      have ok: "search_ok tb name (f (bm_type m)) (walked tb (bm_type m)) ?spec (fd, sp, nx)"
        using assms(3) [OF d] Cons.prems(2) names by simp
      show ?thesis
      proof (cases "fd = 0")
        case nz: False
        then have r: "r = (fd, sp, nx)" using Cons.prems(1) vm tn True False d by (simp add: Let_def)
        have "\<exists>path bits a n. name = Some n \<and> n \<in> set ?ns \<and> sp = extended spec path (of_int bits) [a] \<and>
            path \<noteq> [] \<and> ?w path = Some (bits, nx, [Field n]) \<and> ac_name a = Some n \<and> accessor_ok tb a" if pos: "0 < fd"
        proof -
          obtain path bits a n where p: "name = Some n" "n \<in> set (f (bm_type m))" "sp = extended ?spec path (of_int bits) [a]"
            "walked tb (bm_type m) path = Some (bits, nx, [Field n])" "ac_name a = Some n" "accessor_ok tb a"
            using ok pos by (auto simp: search_ok_def)
          have "sp = extended spec (int i # path) (of_int (uint v + bits)) [a]" using p(3) by simp
          moreover have "label tb m = []" using tn True by (auto simp: label_def str_is_empty_def split: option.splits)
          then have "?w (int i # path) = Some (uint v + bits, nx, [Field n])" using p(4) vm Cons.prems(3) by (simp add: follow_member_def)
          moreover have "n \<in> set ?ns" using p(2) names by simp
          ultimately show ?thesis using p(1,5,6) by blast
        qed
        then show ?thesis using nz by (simp add: r search_ok_def)
      next
        case z: True
        let ?spec' = "(extended sp [] (- v) [])\<lparr>sp_raw_spec := butlast (sp_raw_spec sp)\<rparr>"
        have rec: "match_members deeper lb lm name tb tt ti is ?spec' nx = Some r"
          using Cons.prems(1) vm tn True False d z by (simp add: Let_def)
        have IH: "search_ok tb name ?rest ?w ?spec' r" using Cons.IH [OF rec] Cons.prems(2,3) by simp
        show ?thesis
        proof (cases "sp = ?spec")
          case True
          then have "?spec' = spec" by (simp add: extended_def del: extended_simps)
          then show ?thesis using IH search_ok_later [of tb name ?rest ?w spec r ?ns] by simp
        next
          case False
          then obtain n where n: "name = Some n" "n \<in> set (f (bm_type m))" using ok z by (auto simp: search_ok_def)
          then have "n \<notin> set ?rest" using Cons.prems(2) names by auto
          then show ?thesis using IH n names by (cases r) (auto simp: search_ok_def)
        qed
      qed
    next
      case ne: False
      then obtain s where s: "tn = Some s" "s \<noteq> []" by (auto simp: str_is_empty_def)
      have names: "item_names f tb tt i = [s]" using vm tn ne s by (simp add: item_names_def)
      obtain n where n: "name = Some n" using Cons.prems(1) vm tn False ne by (cases name) (simp_all add: Let_def)
      show ?thesis
      proof (cases "n = s")
        case True
        then obtain fd where fd: "bpf_core_fields_are_compat lb (bm_type lm) tb (bm_type m) = Some fd"
          using Cons.prems(1) vm tn False ne s n by (auto simp: Let_def split: bind_splits)
        let ?a = "\<lparr>ac_type_id = ti, ac_idx = of_nat i, ac_name = Some s\<rparr>"
        have r: "r = (fd, if fd = 0 then ?spec else extended ?spec [] 0 [?a], bm_type m)"
          using Cons.prems(1) vm tn False ne s n True fd by (auto simp: Let_def)
        have "unat (of_nat i :: u32) = i" using Cons.prems(3) vlen_less [of tt] by (intro unat_of_nat_u32) simp
        then have "accessor_ok tb ?a" using vm assms(4,5) Cons.prems(3) tn s
          by (simp add: accessor_ok_def btf__type_by_id_def split: if_splits)
        moreover have "label tb m = [Field s]" using tn s by (simp add: label_def)
        then have "?w [int i] = Some (uint v, bm_type m, [Field s])" using vm Cons.prems(3) by (simp add: follow_member_def walked_def)
        ultimately have "\<exists>path bits a n. name = Some n \<and> n \<in> set ?ns \<and> extended spec [int i] v [?a] = extended spec path (of_int bits) [a] \<and>
            path \<noteq> [] \<and> ?w path = Some (bits, bm_type m, [Field n]) \<and> ac_name a = Some n \<and> accessor_ok tb a"
          using n True names
          by (intro exI [of _ "[int i]"] exI [of _ "uint v"] exI [of _ ?a] exI [of _ s]) simp
        then show ?thesis using n True names by (simp add: r search_ok_def)
      next
        case False
        have rec: "match_members deeper lb lm name tb tt ti is spec next_id = Some r"
          using Cons.prems(1) vm tn \<open>length (sp_raw_spec spec) \<noteq> 64\<close> ne s n False by (simp add: Let_def extended_def del: extended_simps push_member add: push_accessor_def add_offset_def)
        then have "search_ok tb name ?rest ?w spec r" using Cons.IH [OF rec] Cons.prems(2,3) by simp
        then show ?thesis using search_ok_later [of tb name ?rest ?w spec r ?ns] by simp
      qed
    qed
  qed
qed


lemma match_member_ok:
  assumes "match_member n lb acc tb i spec next_id = Some r" "distinct (member_names n tb i)"
    "btf_type_by_id lb (ac_type_id acc) = Some lt" "btf_members lt (unat (ac_idx acc)) = Some lm"
    "btf__name_by_offset lb (bm_name_off lm) = Some name"
  shows "search_ok tb name (member_names n tb i) (walked tb i) spec r"
  using assms(1,2)
proof (induction n arbitrary: i spec next_id r)
  case (Suc n)
  obtain tt ti where s: "skip_mods_and_typedefs tb i = Some (tt, ti)" using Suc.prems(1) by (auto simp: bind_eq_Some_conv)
  show ?case
  proof (cases "btf_is_composite tt")
    case False
    then have "r = (0, spec, next_id)" using Suc.prems(1) s by simp
    then show ?thesis by (simp add: search_ok_def)
  next
    case True
    have names: "member_names (Suc n) tb i = concat (map (item_names (member_names n tb) tb tt) [0..<btf_vlen tt])"
      using s True by simp
    have "match_members (match_member n lb acc tb) lb lm name tb tt ti [0..<btf_vlen tt] spec next_id = Some r"
      using Suc.prems(1) s True assms(3-5) by simp
    then have "search_ok tb name (member_names (Suc n) tb i) (follow_member tb tt) spec r"
      unfolding names
    proof (rule match_members_ok)
      show "distinct (concat (map (item_names (member_names n tb) tb tt) [0..<btf_vlen tt]))" using Suc.prems(2) names by simp
      show "btf__type_by_id tb ti = Some tt" using skip_type [OF s] by simp
      show "search_ok tb name (member_names n tb j) (walked tb j) sp q"
        if "match_member n lb acc tb j sp nx = Some q" "distinct (member_names n tb j)" for j sp nx q
        using Suc.IH that by blast
    qed (use True in \<open>simp_all add: list_all_iff\<close>)
    then show ?thesis using follow_composite [OF s True] by (rule search_ok_walk)
  qed
qed simp

lemma unambiguous_names: "unambiguous b \<Longrightarrow> distinct (member_names 65 b i)"
proof (cases "unat i < btf__type_cnt b")
  case True
  moreover assume "unambiguous b"
  ultimately have "distinct (member_names 65 b (of_nat (unat i)))"
    unfolding unambiguous_def list_all_iff by (metis atLeastLessThan_upt atLeastLessThan_iff zero_le)
  moreover have "(of_nat (unat i) :: u32) = i" by simp
  ultimately show ?thesis by (simp only:)
next
  case False
  then have "skip_mods_and_typedefs b i = None" by (subst skip_mods_and_typedefs.simps) (simp add: btf__type_by_id_def)
  moreover have "(65 :: nat) = Suc 64" by simp
  ultimately show ?thesis by (simp only: member_names.simps option.case distinct.simps)
qed

section \<open>Matching a specification\<close>

lemma of_int_to_int: "\<bar>v\<bar> < 2 ^ 62 \<Longrightarrow> (of_int (to_int v) :: u32) = of_int v"
proof -
  assume "\<bar>v\<bar> < 2 ^ 62"
  then have "- (2 ^ 63) \<le> v" "v \<le> 2 ^ 63 - 1" by simp_all
  then have "to_int v = signed_take_bit 31 v" by (simp only: to_int_def min.absorb2 max.absorb2)
  moreover have "(of_int (signed_take_bit 31 v) :: u32) = of_int v"
  proof (rule bit_word_eqI)
    fix n :: nat
    assume "n < LENGTH(32)"
    then have "min 31 n = n" by simp
    then show "bit (of_int (signed_take_bit 31 v) :: u32) n = bit (of_int v :: u32) n"
      by (simp add: bit_of_int_iff bit_signed_take_bit_iff del: min.absorb2 min.absorb1)
  qed
  ultimately show ?thesis by simp
qed

lemma resolved_size_lower: "- 22 \<le> resolved_size m sz"
proof (cases "sz < 0")
  case False
  then have "0 \<le> uint m * sz" by simp
  then have "- 22 \<le> uint m * sz" by linarith
  then show ?thesis using False by (simp add: resolved_size_def)
qed (simp add: resolved_size_def)

lemma resolve_size_lower: "resolve_size_loop k b m i = Some v \<Longrightarrow> - 22 \<le> v"
proof (induction k arbitrary: m i)
  case (Suc k)
  show ?case
  proof (cases "btf__type_by_id b i")
    case (Some t)
    then show ?thesis using Suc resolved_size_lower by (auto simp: Let_def bind_eq_Some_conv split: if_splits)
  qed (use Suc.prems resolved_size_lower in auto)
qed (use resolved_size_lower in auto)

lemma resolve_size_range: "btf__resolve_size b i = Some v \<Longrightarrow> \<bar>v\<bar> < 2 ^ 62"
  using resolve_size_loop_iff [of v 32 b 1 i] resolve_size_lower [of 32 b 1 i v]
  by (cases "0 < v") (auto simp: btf__resolve_size_def)

lemma resolve_size_least: "btf__resolve_size b i = Some v \<Longrightarrow> - 22 \<le> v"
  using resolve_size_lower [of 32 b 1 i v] by (simp add: btf__resolve_size_def)

lemma to_int_negative: "- 22 \<le> v \<Longrightarrow> v < 0 \<Longrightarrow> to_int v < 0"
proof -
  assume v: "- 22 \<le> v" "v < 0"
  then have "to_int v = signed_take_bit 31 v" unfolding to_int_def by (subst min.absorb2, simp, subst max.absorb2, simp_all)
  also have "\<dots> = v" using v by (intro signed_take_bit_int_eq_self) simp_all
  finally show ?thesis using v by simp
qed

lemma push_index [simp]:
  "(extended s [] 0 [a])\<lparr>sp_raw_spec := sp_raw_spec s @ [i]\<rparr> = extended s [i] 0 [a]"
  by (simp add: extended_def del: extended_simps)

lemma match_accessors_ok:
  assumes "match_accessors lb accs False tb i spec = Some (r, spec')" "0 < r" "unambiguous tb" "list_all (accessor_ok lb) accs"
  shows "\<exists>path bits e accs'. spec' = extended spec path (of_int bits) accs' \<and> walked tb i path = Some (bits, e, map step_of accs) \<and>
    map step_of accs' = map step_of accs \<and> list_all (accessor_ok tb) accs'"
  using assms(1,4)
proof (induction accs arbitrary: i spec)
  case Nil
  then have "spec' = extended spec [] (of_int 0) []" by simp
  then show ?case by (intro exI [of _ "[]"] exI [of _ 0] exI [of _ i]) (simp add: walked_def)
next
  case (Cons acc accs)
  obtain tt ti where s: "skip_mods_and_typedefs tb i = Some (tt, ti)" using Cons.prems(1) by (auto simp: bind_eq_Some_conv)
  show ?case
  proof (cases "ac_name acc")
    case (Some n)
    obtain lt lm where l: "btf_type_by_id lb (ac_type_id acc) = Some lt" "btf_members lt (unat (ac_idx acc)) = Some lm"
      "btf__name_by_offset lb (bm_name_off lm) = Some (Some n)" using Cons.prems(2) Some by (auto simp: accessor_ok_def)
    obtain m sp nx where m: "match_member 65 lb acc tb ti spec ti = Some (m, sp, nx)"
      using Cons.prems(1) s Some by (auto simp: bind_eq_Some_conv bpf_core_match_member_def)
    have "\<not> m \<le> 0"
    proof
      assume "m \<le> 0"
      then show False using Cons.prems(1) s Some m assms(2) by (simp add: bpf_core_match_member_def)
    qed
    then obtain path bits a where p: "sp = extended spec path (of_int bits) [a]" "walked tb ti path = Some (bits, nx, [Field n])"
        "ac_name a = Some n" "accessor_ok tb a" "path \<noteq> []"
      using match_member_ok [OF m unambiguous_names [OF assms(3)] l] by (auto simp: search_ok_def)
    have rec: "match_accessors lb accs False tb nx sp = Some (r, spec')"
      using Cons.prems(1) s Some m \<open>\<not> m \<le> 0\<close> by (simp add: bpf_core_match_member_def)
    then obtain path' bits' e accs' where q: "spec' = extended sp path' (of_int bits') accs'"
      "walked tb nx path' = Some (bits', e, map step_of accs)" "map step_of accs' = map step_of accs" "list_all (accessor_ok tb) accs'"
      using Cons.IH [OF rec] Cons.prems(2) by auto
    have st: "step_of acc = Field n" "step_of a = Field n" using Some p(3) by (simp_all add: step_of_def)
    have "walked tb i path = Some (bits, nx, [Field n])" using p(2,5) walked_skip [OF s] by (metis neq_Nil_conv)
    from walked_append [OF this q(2)]
    have "walked tb i (path @ path') = Some (bits + bits', e, map step_of (acc # accs))" using st by simp
    moreover have "spec' = extended spec (path @ path') (of_int (bits + bits')) (a # accs')" using p(1) q(1) by simp
    moreover have "map step_of (a # accs') = map step_of (acc # accs)" "list_all (accessor_ok tb) (a # accs')"
      using q(3,4) p(4) st by simp_all
    ultimately show ?thesis by blast
  next
    case None
    obtain a et ei where a: "btf_kind tt = 3" "btf_array_of tt = Some a" "skip_mods_and_typedefs tb (ba_type a) = Some (et, ei)"
      using Cons.prems(1) s None assms(2) by (auto simp: bind_eq_Some_conv Let_def split: if_splits)
    obtain sz where sz: "btf__resolve_size tb ei = Some sz"
      using Cons.prems(1) s None assms(2) a by (auto simp: bind_eq_Some_conv Let_def split: if_splits)
    let ?x = "\<lparr>ac_type_id = ei, ac_idx = ac_idx acc, ac_name = None\<rparr>" and ?v = "ac_idx acc * of_int (to_int sz) * 8"
    have rec: "match_accessors lb accs False tb ei (extended spec [sint (ac_idx acc)] ?v [?x]) = Some (r, spec')"
      using Cons.prems(1) s None assms(2) a sz by (auto simp: bind_eq_Some_conv Let_def split: if_splits)
    then obtain path bits e accs' where q: "spec' = extended (extended spec [sint (ac_idx acc)] ?v [?x]) path (of_int bits) accs'"
      "walked tb ei path = Some (bits, e, map step_of accs)" "map step_of accs' = map step_of accs" "list_all (accessor_ok tb) accs'"
      using Cons.IH [OF rec] Cons.prems(2) by auto
    have st: "step_of acc = Elem (sint (ac_idx acc))" "step_of ?x = Elem (sint (ac_idx acc))" using None by (simp_all add: step_of_def)
    have "\<not> btf_is_composite tt" using a(1) by (simp add: btf_is_composite_def)
    then have "walked tb i (sint (ac_idx acc) # path) = Some (sint (ac_idx acc) * sz * 8 + bits, e, map step_of (acc # accs))"
      using s a sz q(2) st by (auto simp: walked_def)
    moreover have "?v + of_int bits = of_int (sint (ac_idx acc) * sz * 8 + bits)"
      using of_int_to_int [OF resolve_size_range [OF sz]] by simp
    then have "spec' = extended spec (sint (ac_idx acc) # path) (of_int (sint (ac_idx acc) * sz * 8 + bits)) (?x # accs')"
      using q(1) by simp
    moreover have "map step_of (?x # accs') = map step_of (acc # accs)" "list_all (accessor_ok tb) (?x # accs')"
      using q(3,4) st by (simp_all add: accessor_ok_def)
    ultimately show ?thesis by blast
  qed
qed


section \<open>The field a specification designates\<close>

text \<open>
  Of a root type, element \<open>x\<close> of an array of it (an index into the pointed-to objects), then a path inside it; the offset
  is kept in 32 bits. The accessors are the steps of the path, and each names the member that has its name.
\<close>

definition designates :: "bpf_core_spec \<Rightarrow> u32 \<Rightarrow> path_step list \<Rightarrow> bool" where
  "designates spec root steps \<longleftrightarrow> (\<exists>x path t i sz bits e. sp_raw_spec spec = x # path \<and>
     skip_mods_and_typedefs (sp_btf spec) root = Some (t, i) \<and> btf__resolve_size (sp_btf spec) i = Some sz \<and> 0 \<le> sz \<and>
     follow (sp_btf spec) i path = Some (bits, e) \<and> sp_bit_offset spec = of_int (x * sz * 8 + bits) \<and>
     steps = Elem x # trail (sp_btf spec) i path) \<and>
   map step_of (sp_spec spec) = steps \<and> list_all (accessor_ok (sp_btf spec)) (sp_spec spec)"

text \<open>The empty name, which type information has at offset 0.\<close>

definition no_name_at_0 :: "btf \<Rightarrow> bool" where
  "no_name_at_0 b \<longleftrightarrow> btf__name_by_offset b 0 = Some (Some [])"

lemma parsed_no_name_at_0:
  assumes "btf_new le calloc_ok malloc_ok grow raw None = Some (Inr b)"
  shows "no_name_at_0 b"
proof -
  obtain sid ts strs sw where b: "b = Btf None sid 0 ts strs 0 sw" "btf_parse_str_sec False strs = 0"
    using assms unfolding btf_new_def Let_def by (auto split: Option.bind_split_asm sum.split_asm prod.split_asm if_split_asm)
  then have "strs \<noteq> []" "hd strs = 0" by (auto simp: btf_parse_str_sec_def split: if_splits)
  then show ?thesis using b(1) by (cases strs) (simp_all add: no_name_at_0_def btf__name_by_offset_def c_string_def)
qed

text \<open>The indices read from a string are those of a C int.\<close>

definition c_int :: "int \<Rightarrow> bool" where
  "c_int x \<longleftrightarrow> sint (of_int x :: u32) = x"

lemma to_int_c_int: "c_int (to_int v)"
  by (simp add: c_int_def to_int_def sint_sbintrunc')

lemma parse_raw_c_int: "parse_raw s raw = Inr raw' \<Longrightarrow> list_all c_int raw \<Longrightarrow> list_all c_int raw'"
proof (induction s raw rule: parse_raw.induct)
  case (1 s raw)
  show ?case
  proof (cases "s = []")
    case False
    let ?s = "if hd s = 0x3a then tl s else s"
    obtain x rest where x: "sscanf_d ?s = Some (x, rest)" "length raw \<noteq> BPF_CORE_SPEC_MAX_LEN" "parse_raw rest (raw @ [x]) = Inr raw'"
      using 1(2) False by (subst (asm) parse_raw.simps) (auto split: option.splits if_splits)
    have "c_int x" using x(1) to_int_c_int by (auto simp: sscanf_d_def Let_def split: if_splits)
    then show ?thesis using 1(1) [OF False x(1) refl x(2,3)] 1(3) by simp
  qed (use 1 in \<open>simp add: parse_raw.simps\<close>)
qed

lemma parse_fields_ok:
  assumes "parse_fields b xs i spec = Some (Inr spec')" "list_all c_int xs"
  shows "\<exists>bits e ns accs. walked b i xs = Some (bits, e, ns) \<and> (no_name_at_0 b \<longrightarrow> ns = map step_of accs) \<and>
    list_all (accessor_ok b) accs \<and> spec' = extended spec [] (of_int bits) accs"
  using assms
proof (induction xs arbitrary: i spec)
  case Nil
  then have "spec' = extended spec [] (of_int 0) []" by simp
  then show ?case by (intro exI [of _ 0] exI [of _ i] exI [of _ "[]"]) (simp add: walked_def)
next
  case (Cons x xs)
  obtain t j where s: "skip_mods_and_typedefs b i = Some (t, j)" using Cons.prems(1) by (auto simp: bind_eq_Some_conv)
  have t: "btf__type_by_id b j = Some t" using skip_type [OF s] by simp
  show ?case
  proof (cases "btf_is_composite t")
    case comp: True
    obtain v m where m: "0 \<le> x" "x < int (btf_vlen t)" "btf_member_bit_offset t (nat x) = Some v" "btf_members t (nat x) = Some m"
      using Cons.prems(1) s comp by (auto simp: bind_eq_Some_conv index_def Let_def split: if_splits)
    have "\<exists>accs. parse_fields b xs (bm_type m) (extended spec [] v accs) = Some (Inr spec') \<and> list_all (accessor_ok b) accs \<and>
      (no_name_at_0 b \<longrightarrow> label b m = map step_of accs)"
    proof (cases "bm_name_off m = 0")
      case True
      then have "no_name_at_0 b \<longrightarrow> label b m = []" by (simp add: label_def no_name_at_0_def)
      then show ?thesis using Cons.prems(1) s comp m True
        by (intro exI [of _ "[]"]) (simp add: index_def Let_def)
    next
      case False
      then obtain n where n: "btf__name_by_offset b (bm_name_off m) = Some (Some n)" "n \<noteq> []"
        using Cons.prems(1) s comp m
        by (auto simp: bind_eq_Some_conv index_def Let_def str_is_empty_def split: if_splits option.splits)
      let ?a = "\<lparr>ac_type_id = j, ac_idx = of_int x, ac_name = Some n\<rparr>"
      have "parse_fields b xs (bm_type m) (extended spec [] v [?a]) = Some (Inr spec')"
        using Cons.prems(1) s comp m n False by (simp add: index_def Let_def split: if_splits)
      moreover have "unat (of_int x :: u32) = nat x" using m(1,2) vlen_less [of t] by (simp add: unat_eq_nat_uint uint_word_of_int)
      then have "accessor_ok b ?a" using t m n comp by (simp add: accessor_ok_def btf__type_by_id_def split: if_splits)
      moreover have "label b m = map step_of [?a]" using n by (simp add: label_def step_of_def)
      ultimately show ?thesis by (intro exI [of _ "[?a]"]) simp
    qed
    then obtain accs where a: "parse_fields b xs (bm_type m) (extended spec [] v accs) = Some (Inr spec')" "list_all (accessor_ok b) accs"
      "no_name_at_0 b \<longrightarrow> label b m = map step_of accs" by blast
    obtain bits e ns accs' where q: "walked b (bm_type m) xs = Some (bits, e, ns)" "list_all (accessor_ok b) accs'"
      "no_name_at_0 b \<longrightarrow> ns = map step_of accs'"
      "spec' = extended (extended spec [] v accs) [] (of_int bits) accs'"
      using Cons.IH [OF a(1)] Cons.prems(2) by auto
    have "walked b i (x # xs) = Some (uint v + bits, e, label b m @ ns)" using s comp m q(1) by (auto simp: walked_def)
    moreover have "no_name_at_0 b \<longrightarrow> label b m @ ns = map step_of (accs @ accs')" using a(3) q(3) by simp
    moreover have "spec' = extended spec [] (of_int (uint v + bits)) (accs @ accs')" using q(4) by simp
    moreover have "list_all (accessor_ok b) (accs @ accs')" using q(2) a(2) by simp
    ultimately show ?thesis by blast
  next
    case False
    obtain a et ei sz where a: "btf_kind t = 3" "btf_array_of t = Some a" "skip_mods_and_typedefs b (ba_type a) = Some (et, ei)"
      "btf__resolve_size b ei = Some sz"
      using Cons.prems(1) s False by (auto simp: bind_eq_Some_conv Let_def split: if_splits)
    let ?a = "\<lparr>ac_type_id = ei, ac_idx = of_int x, ac_name = None\<rparr>"
    have "parse_fields b xs ei (extended spec [] (of_int (x * sz * 8)) [?a]) = Some (Inr spec')"
      using Cons.prems(1) s False a by (auto simp: bind_eq_Some_conv Let_def split: if_splits)
    then obtain bits e ns accs where q: "walked b ei xs = Some (bits, e, ns)" "list_all (accessor_ok b) accs"
      "no_name_at_0 b \<longrightarrow> ns = map step_of accs"
      "spec' = extended (extended spec [] (of_int (x * sz * 8)) [?a]) [] (of_int bits) accs"
      using Cons.IH Cons.prems(2) by fastforce
    have "step_of ?a = Elem x" using Cons.prems(2) by (simp add: step_of_def c_int_def)
    then have "no_name_at_0 b \<longrightarrow> Elem x # ns = map step_of (?a # accs)" using q(3) by simp
    moreover have "walked b i (x # xs) = Some (x * sz * 8 + bits, e, Elem x # ns)" using s False a q(1) by (auto simp: walked_def)
    moreover have "spec' = extended spec [] (of_int (x * sz * 8 + bits)) (?a # accs)" using q(4) by simp
    moreover have "list_all (accessor_ok b) (?a # accs)" using q(2) by (simp add: accessor_ok_def)
    ultimately show ?thesis
      by (intro exI [of _ "x * sz * 8 + bits"] exI [of _ e] exI [of _ "Elem x # ns"] exI [of _ "?a # accs"]) blast
  qed
qed

lemma parse_spec_ok:
  assumes "bpf_core_parse_spec b relo = Some (Inr spec)" "core_relo_is_field_based (cr_kind relo)"
  shows "(no_name_at_0 b \<longrightarrow> designates spec (cr_type_id relo) (map step_of (sp_spec spec))) \<and>
    sp_btf spec = b \<and> sp_relo_kind spec = cr_kind relo \<and>
    (\<exists>a accs. sp_spec spec = a # accs \<and> ac_name a = None \<and> list_all (accessor_ok b) accs)"
proof -
  have k: "\<not> core_relo_is_type_based (cr_kind relo)" "\<not> core_relo_is_enumval_based (cr_kind relo)"
    using assms(2) by (auto simp: core_relo_is_field_based_def core_relo_is_type_based_def core_relo_is_enumval_based_def)
  obtain str where str: "btf__name_by_offset b (cr_access_str_off relo) = Some (Some str)" "\<not> (str = [] \<or> hd str = 0x3a)"
    using assms(1) by (auto simp: bpf_core_parse_spec_def bind_eq_Some_conv Let_def split: option.splits if_splits)
  obtain raw where "parse_raw str [] = Inr raw" using assms(1) str k
    by (auto simp: bpf_core_parse_spec_def split: sum.splits)
  moreover from this have "raw \<noteq> []" using assms(1) str k by (auto simp: bpf_core_parse_spec_def)
  ultimately obtain x xs where raw: "parse_raw str [] = Inr (x # xs)" by (metis neq_Nil_conv)
  obtain t i where s: "skip_mods_and_typedefs b (cr_type_id relo) = Some (t, i)"
    using assms(1) str k raw by (auto simp: bpf_core_parse_spec_def bind_eq_Some_conv)
  obtain sz where sz: "btf__resolve_size b i = Some sz" "0 \<le> sz"
    using assms str k raw s by (auto simp: bpf_core_parse_spec_def bind_eq_Some_conv Let_def split: if_splits)
  let ?s = "\<lparr>sp_btf = b, sp_spec = [], sp_root_type_id = cr_type_id relo, sp_relo_kind = cr_kind relo,
    sp_raw_spec = x # xs, sp_bit_offset = 0\<rparr>" and ?a = "\<lparr>ac_type_id = i, ac_idx = of_int x, ac_name = None\<rparr>"
  have "parse_fields b xs i (extended ?s [] (of_int (x * sz * 8)) [?a]) = Some (Inr spec)"
    using assms str k raw s sz by (simp add: bpf_core_parse_spec_def Let_def)
  moreover have c: "list_all c_int (x # xs)" using parse_raw_c_int [OF raw] by simp
  ultimately obtain bits e ns accs where q: "list_all (accessor_ok b) accs" "walked b i xs = Some (bits, e, ns)"
    "no_name_at_0 b \<longrightarrow> ns = map step_of accs"
    "spec = extended (extended ?s [] (of_int (x * sz * 8)) [?a]) [] (of_int bits) accs"
    using parse_fields_ok by fastforce
  have "spec = extended ?s [] (of_int (x * sz * 8 + bits)) (?a # accs)" using q(4) by simp
  then have f: "sp_raw_spec spec = x # xs" "sp_btf spec = b" "sp_bit_offset spec = of_int (x * sz * 8 + bits)"
    "sp_relo_kind spec = cr_kind relo" "sp_spec spec = ?a # accs" by (simp_all add: extended_def del: extended_simps)
  have "step_of ?a = Elem x" "accessor_ok b ?a" using c by (simp_all add: step_of_def c_int_def accessor_ok_def)
  moreover have "follow b i xs = Some (bits, e)" "ns = trail b i xs" using q(2) by (auto simp: walked_def)
  ultimately have "designates spec (cr_type_id relo) (map step_of (sp_spec spec))" if "no_name_at_0 b"
    unfolding designates_def f using s sz q(1,3) that by auto
  then show ?thesis using f q(1) by simp
qed

lemma spec_match_ok:
  assumes "bpf_core_spec_match ls tb root = Some (r, ts)" "0 < r" "unambiguous tb" "core_relo_is_field_based (sp_relo_kind ls)"
    "sp_spec ls = a # accs" "ac_name a = None" "list_all (accessor_ok (sp_btf ls)) accs"
  shows "designates ts root (map step_of (sp_spec ls))"
proof -
  have k: "\<not> core_relo_is_type_based (sp_relo_kind ls)" "\<not> core_relo_is_enumval_based (sp_relo_kind ls)"
    using assms(4) by (auto simp: core_relo_is_field_based_def core_relo_is_type_based_def core_relo_is_enumval_based_def)
  let ?s = "\<lparr>sp_btf = tb, sp_spec = [], sp_root_type_id = root, sp_relo_kind = sp_relo_kind ls,
    sp_raw_spec = [], sp_bit_offset = 0\<rparr>"
  have m: "match_accessors (sp_btf ls) (a # accs) True tb root ?s = Some (r, ts)"
    using assms(1,4,5) k by (simp add: bpf_core_spec_match_def Let_def)
  obtain t i where s: "skip_mods_and_typedefs tb root = Some (t, i)" using m by (auto simp: bind_eq_Some_conv)
  obtain sz where sz: "btf__resolve_size tb i = Some sz" using m assms(6) s by (auto simp: bind_eq_Some_conv Let_def)
  let ?x = "\<lparr>ac_type_id = i, ac_idx = ac_idx a, ac_name = None\<rparr>" and ?v = "ac_idx a * of_int (to_int sz) * 8"
  have nn: "\<not> to_int sz < 0" using m assms(2,6) s sz by (auto simp: Let_def)
  have rec: "match_accessors (sp_btf ls) accs False tb i (extended ?s [sint (ac_idx a)] ?v [?x]) = Some (r, ts)"
    using m assms(6) s sz nn by (simp add: Let_def) (simp add: extended_def del: extended_simps)
  obtain path bits e accs' where q: "ts = extended (extended ?s [sint (ac_idx a)] ?v [?x]) path (of_int bits) accs'"
    "walked tb i path = Some (bits, e, map step_of accs)" "map step_of accs' = map step_of accs" "list_all (accessor_ok tb) accs'"
    using match_accessors_ok [OF rec assms(2,3,7)] by blast
  have "?v + of_int bits = of_int (sint (ac_idx a) * sz * 8 + bits)"
    using of_int_to_int [OF resolve_size_range [OF sz]] by simp
  then have f: "sp_raw_spec ts = sint (ac_idx a) # path" "sp_btf ts = tb" "sp_spec ts = ?x # accs'"
    "sp_bit_offset ts = of_int (sint (ac_idx a) * sz * 8 + bits)" using q(1) by simp_all
  have "0 \<le> sz" using nn to_int_negative [OF resolve_size_least [OF sz]] by linarith
  moreover have "step_of a = Elem (sint (ac_idx a))" "step_of ?x = Elem (sint (ac_idx a))" "accessor_ok tb ?x"
    using assms(6) by (simp_all add: step_of_def accessor_ok_def)
  moreover have "follow tb i path = Some (bits, e)" "map step_of accs = trail tb i path" using q(2) by (auto simp: walked_def)
  ultimately show ?thesis unfolding designates_def f assms(5) using s sz q(3,4) by auto
qed

end
