(* ===== verification/Core_Total.thy ===== *)
theory Core_Total
  imports Core_Match
begin

text \<open>
  On type information that passed validation, and in which no chain of modifiers, typedefs and arrays is cyclic, a field
  relocation is read and matched without leaving a table and the loops end.
\<close>

section \<open>Chains that end\<close>

definition ranked :: "(u32 \<Rightarrow> nat) \<Rightarrow> btf \<Rightarrow> bool" where
  "ranked rank b \<longleftrightarrow> list_all (\<lambda>n.
     case btf__type_by_id b (of_nat n) of
       None \<Rightarrow> True
     | Some t \<Rightarrow> (btf_is_mod t \<or> btf_kind t = BTF_KIND_TYPEDEF \<longrightarrow> rank (bt_size_type t) < rank (of_nat n)) \<and>
         (btf_kind t = BTF_KIND_ARRAY \<longrightarrow>
            (case btf_array_of t of None \<Rightarrow> True | Some a \<Rightarrow> rank (ba_type a) < rank (of_nat n)))) [0..<btf__type_cnt b]"

lemma ranked_step:
  assumes "ranked rank b" "btf__type_by_id b i = Some t"
  shows "btf_is_mod t \<or> btf_kind t = BTF_KIND_TYPEDEF \<Longrightarrow> rank (bt_size_type t) < rank i"
    "btf_kind t = BTF_KIND_ARRAY \<Longrightarrow> btf_array_of t = Some a \<Longrightarrow> rank (ba_type a) < rank i"
proof -
  have "unat i < btf__type_cnt b" using assms(2) by (simp add: btf__type_by_id_def split: if_splits)
  moreover have "(of_nat (unat i) :: u32) = i" by simp
  ultimately have *: "(btf_is_mod t \<or> btf_kind t = BTF_KIND_TYPEDEF \<longrightarrow> rank (bt_size_type t) < rank i) \<and>
         (btf_kind t = BTF_KIND_ARRAY \<longrightarrow>
            (case btf_array_of t of None \<Rightarrow> True | Some a \<Rightarrow> rank (ba_type a) < rank i))"
    using assms(1) [unfolded ranked_def list_all_iff, THEN bspec, of "unat i"] assms(2) by (simp split: option.splits)
  show "btf_is_mod t \<or> btf_kind t = BTF_KIND_TYPEDEF \<Longrightarrow> rank (bt_size_type t) < rank i" using * by blast
  show "btf_kind t = BTF_KIND_ARRAY \<Longrightarrow> btf_array_of t = Some a \<Longrightarrow> rank (ba_type a) < rank i" using * by simp
qed

lemma good_ref:
  assumes "type_good b t"
  shows "btf_is_mod t \<or> btf_kind t = BTF_KIND_TYPEDEF \<Longrightarrow> unat (bt_size_type t) < btf__type_cnt b"
    "\<exists>s. btf__name_by_offset b (bt_name_off t) = Some (Some s)"
  using assms by (auto simp: type_good_def checked_refs_def type_names_def btf_is_mod_def valid_name_def btf__name_by_offset_def Let_def)

lemma good_array:
  assumes "type_good b t" "btf_kind t = BTF_KIND_ARRAY"
  shows "\<exists>a. btf_array_of t = Some a \<and> unat (ba_type a) < btf__type_cnt b"
  using assms array_at [of t] sized_lengths(2) [of t] by (auto simp: type_good_def checked_refs_def Let_def)

lemma good_member:
  assumes "type_good b t" "btf_is_composite t" "n < btf_vlen t"
  shows "\<exists>m v s. btf_members t n = Some m \<and> btf_member_bit_offset t n = Some v \<and>
    btf__name_by_offset b (bm_name_off m) = Some (Some s) \<and> unat (bm_type m) < btf__type_cnt b"
proof -
  have k: "btf_kind t = 4 \<or> btf_kind t = 5" using assms(2) by (auto simp: btf_is_composite_def)
  then have "length (bt_rest t) = 3 * btf_vlen t" using assms(1) sized_lengths(3) [of t] by (auto simp: type_good_def)
  then have m: "btf_members t n = Some \<lparr>bm_name_off = bt_rest t ! (3 * n), bm_type = bt_rest t ! (3 * n + 1), bm_offset = bt_rest t ! (3 * n + 2)\<rparr>"
    using assms(3) by (intro members_at) simp
  have "unat (bt_rest t ! (3 * n + 1)) < btf__type_cnt b" "valid_name b (bt_rest t ! (3 * n))"
    using assms k by (auto simp: type_good_def checked_refs_def type_names_def Let_def list_all_iff)
  then show ?thesis using m by (auto simp: btf_member_bit_offset_def btf__name_by_offset_def valid_name_def)
qed

lemma skip_total:
  assumes "btf_good b" "ranked rank b" "unat i < btf__type_cnt b"
  shows "\<exists>t j. skip_mods_and_typedefs b i = Some (t, j) \<and> rank j \<le> rank i \<and> unat j < btf__type_cnt b \<and> type_good b t"
  using assms(3)
proof (induction "rank i" arbitrary: i rule: less_induct)
  case less
  obtain t where t: "btf__type_by_id b i = Some t" "type_good b t" using good_type [OF assms(1) less.prems] by blast
  show ?case
  proof (cases "btf_is_mod t \<or> btf_kind t = BTF_KIND_TYPEDEF")
    case True
    have r: "rank (bt_size_type t) < rank i" using ranked_step(1) [OF assms(2) t(1) True] .
    obtain u j where "skip_mods_and_typedefs b (bt_size_type t) = Some (u, j)" "rank j \<le> rank (bt_size_type t)"
      "unat j < btf__type_cnt b" "type_good b u" using less.hyps [OF r good_ref(1) [OF t(2) True]] by blast
    then show ?thesis using t True r by (subst skip_mods_and_typedefs.simps) auto
  next
    case False
    then show ?thesis using t less.prems by (subst skip_mods_and_typedefs.simps) auto
  qed
qed

lemma int_at: "type_good b t \<Longrightarrow> btf_kind t = BTF_KIND_INT \<Longrightarrow> \<exists>v. btf_int_offset t = Some v"
  using sized_lengths(1) [of t] by (auto simp: type_good_def btf_int_offset_def aget_def)

lemma fields_compat_total:
  assumes "btf_good lb" "ranked lrank lb" "btf_good tb" "ranked trank tb" "unat li < btf__type_cnt lb" "unat ti < btf__type_cnt tb"
  shows "\<exists>r. bpf_core_fields_are_compat lb li tb ti = Some r"
  using assms(5,6)
proof (induction "lrank li" arbitrary: li ti rule: less_induct)
  case less
  obtain lt lj where l: "skip_mods_and_typedefs lb li = Some (lt, lj)" "lrank lj \<le> lrank li" "type_good lb lt"
    using skip_total [OF assms(1,2) less.prems(1)] by blast
  obtain tt tj where t: "skip_mods_and_typedefs tb ti = Some (tt, tj)" "type_good tb tt"
    using skip_total [OF assms(3,4) less.prems(2)] by blast
  obtain ls ts where names: "btf__name_by_offset lb (bt_name_off lt) = Some (Some ls)"
    "btf__name_by_offset tb (bt_name_off tt) = Some (Some ts)" using good_ref(2) l(3) t(2) by metis
  show ?case
  proof (cases "btf_kind_core_compat lt tt \<and> btf_kind lt = BTF_KIND_ARRAY")
    case True
    then have k: "btf_kind lt = 3" "btf_kind tt = 3" by (auto simp: btf_kind_core_compat_def btf_is_any_enum_def)
    obtain la ta where a: "btf_array_of lt = Some la" "unat (ba_type la) < btf__type_cnt lb"
      "btf_array_of tt = Some ta" "unat (ba_type ta) < btf__type_cnt tb" using good_array l(3) t(2) k by metis
    have "btf__type_by_id lb lj = Some lt" using skip_type [OF l(1)] by simp
    then have "lrank (ba_type la) < lrank li" using ranked_step(2) [OF assms(2) _ k(1) a(1)] l(2) by fastforce
    then obtain r where "bpf_core_fields_are_compat lb (ba_type la) tb (ba_type ta) = Some r"
      using less.hyps a by blast
    then show ?thesis using l t a k True by (subst bpf_core_fields_are_compat.simps) (simp add: btf_is_composite_def)
  next
    case False
    have "\<exists>v w. btf_int_offset lt = Some v \<and> btf_int_offset tt = Some w" if "btf_kind_core_compat lt tt" "btf_kind lt = 1"
      using that int_at [OF l(3)] int_at [OF t(2)] by (auto simp: btf_kind_core_compat_def btf_is_any_enum_def)
    then show ?thesis using l t names False
      by (subst bpf_core_fields_are_compat.simps) (auto simp: Let_def)
  qed
qed


section \<open>Searching\<close>

definition spec_ok :: "btf \<Rightarrow> bpf_core_spec \<Rightarrow> bool" where
  "spec_ok b spec \<longleftrightarrow> length (sp_raw_spec spec) \<le> BPF_CORE_SPEC_MAX_LEN \<and>
     list_all (\<lambda>a. unat (ac_type_id a) < btf__type_cnt b) (sp_spec spec)"

definition searched :: "btf \<Rightarrow> bpf_core_spec \<Rightarrow> int \<times> bpf_core_spec \<times> u32 \<Rightarrow> bool" where
  "searched b spec r \<longleftrightarrow> (case r of (found, spec', next_id) \<Rightarrow>
     spec_ok b spec' \<and> length (sp_raw_spec spec) \<le> length (sp_raw_spec spec') \<and>
     (0 < found \<longrightarrow> unat next_id < btf__type_cnt b \<and> sp_spec spec' \<noteq> []))"

lemma searched_le: "searched b spec r \<Longrightarrow> length (sp_raw_spec spec0) \<le> length (sp_raw_spec spec) \<Longrightarrow> searched b spec0 r"
  by (auto simp: searched_def)

lemma match_members_total:
  assumes "\<And>i spec next_id. unat i < btf__type_cnt tb \<Longrightarrow> spec_ok tb spec \<Longrightarrow> k < length (sp_raw_spec spec) \<Longrightarrow>
      \<exists>r. deeper i spec next_id = Some r \<and> searched tb spec r"
    "\<And>i. unat i < btf__type_cnt tb \<Longrightarrow> \<exists>r. bpf_core_fields_are_compat lb (bm_type lm) tb i = Some r"
    "type_good tb tt" "btf_is_composite tt" "unat ti < btf__type_cnt tb" "list_all (\<lambda>i. i < btf_vlen tt) is"
    "spec_ok tb spec" "k \<le> length (sp_raw_spec spec)"
  shows "\<exists>r. match_members deeper lb lm (Some n) tb tt ti is spec next_id = Some r \<and> searched tb spec r"
  using assms(6-8)
proof (induction "is" arbitrary: spec next_id)
  case Nil
  then show ?case by (simp add: searched_def)
next
  case (Cons i "is")
  obtain m v s where m: "btf_members tt i = Some m" "btf_member_bit_offset tt i = Some v"
    "btf__name_by_offset tb (bm_name_off m) = Some (Some s)" "unat (bm_type m) < btf__type_cnt tb"
    using good_member [OF assms(3,4), of i] Cons.prems(1) by auto
  let ?spec = "extended spec [int i] v []"
  show ?case
  proof (cases "length (sp_raw_spec spec) = 64")
    case True
    then show ?thesis using m Cons.prems by (simp add: searched_def)
  next
    case False
    then have ok: "spec_ok tb ?spec" "k < length (sp_raw_spec ?spec)" using Cons.prems by (simp_all add: spec_ok_def)
    show ?thesis
    proof (cases "s = []")
      case True
      obtain fd sp nx where d: "deeper (bm_type m) ?spec next_id = Some (fd, sp, nx)" "searched tb ?spec (fd, sp, nx)"
        using assms(1) [OF m(4) ok, of next_id] by (metis prod_cases3)
      show ?thesis
      proof (cases "fd = 0")
        case z: True
        let ?sp = "(extended sp [] (- v) [])\<lparr>sp_raw_spec := butlast (sp_raw_spec sp)\<rparr>"
        have sp: "spec_ok tb ?sp" "length (sp_raw_spec spec) \<le> length (sp_raw_spec ?sp)"
          using d(2) by (auto simp: searched_def spec_ok_def)
        then obtain r where r: "match_members deeper lb lm (Some n) tb tt ti is ?sp nx = Some r" "searched tb ?sp r"
          using Cons.IH [of ?sp nx] Cons.prems(1,3) by auto
        then have "searched tb spec r" using searched_le sp(2) by blast
        then show ?thesis using m False True d(1) z r(1) by (simp add: str_is_empty_def Let_def)
      next
        case nz: False
        then have "match_members deeper lb lm (Some n) tb tt ti (i # is) spec next_id = Some (fd, sp, nx)"
          using m False True d(1) by (simp add: str_is_empty_def Let_def)
        moreover have "searched tb spec (fd, sp, nx)" using d(2) by (rule searched_le) simp
        ultimately show ?thesis by blast
      qed
    next
      case ne: False
      obtain fd where fd: "bpf_core_fields_are_compat lb (bm_type lm) tb (bm_type m) = Some fd" using assms(2) [OF m(4)] by blast
      show ?thesis
      proof (cases "n = s")
        case True
        let ?a = "\<lparr>ac_type_id = ti, ac_idx = of_nat i, ac_name = Some s\<rparr>"
        have "match_members deeper lb lm (Some n) tb tt ti (i # is) spec next_id =
            Some (fd, if fd = 0 then ?spec else extended ?spec [] 0 [?a], bm_type m)"
          using m False ne fd True by (simp add: str_is_empty_def Let_def)
        moreover have "searched tb spec (fd, if fd = 0 then ?spec else extended ?spec [] 0 [?a], bm_type m)"
          using ok m(4) assms(5) by (simp add: searched_def spec_ok_def)
        ultimately show ?thesis by blast
      next
        case other: False
        have "match_members deeper lb lm (Some n) tb tt ti (i # is) spec next_id =
            match_members deeper lb lm (Some n) tb tt ti is spec next_id"
          using m False ne other by (simp add: str_is_empty_def Let_def) (simp add: extended_def del: extended_simps)
        then show ?thesis using Cons.IH [of spec next_id] Cons.prems by simp
      qed
    qed
  qed
qed

lemma match_member_total:
  assumes "btf_good lb" "ranked lrank lb" "btf_good tb" "ranked trank tb" "unat i < btf__type_cnt tb"
    "btf_type_by_id lb (ac_type_id acc) = Some lt" "btf_members lt (unat (ac_idx acc)) = Some lm"
    "btf__name_by_offset lb (bm_name_off lm) = Some (Some name)" "unat (bm_type lm) < btf__type_cnt lb"
    "spec_ok tb spec" "65 \<le> n + length (sp_raw_spec spec)"
  shows "\<exists>r. match_member n lb acc tb i spec next_id = Some r \<and> searched tb spec r"
  using assms(5,10,11)
proof (induction n arbitrary: i spec next_id)
  case 0
  then show ?case by (simp add: spec_ok_def)
next
  case (Suc n)
  obtain t j where s: "skip_mods_and_typedefs tb i = Some (t, j)" "unat j < btf__type_cnt tb" "type_good tb t"
    using skip_total [OF assms(3,4) Suc.prems(1)] by blast
  show ?case
  proof (cases "btf_is_composite t")
    case False
    then show ?thesis using s Suc.prems by (simp add: searched_def)
  next
    case True
    have "\<exists>r. match_members (match_member n lb acc tb) lb lm (Some name) tb t j [0..<btf_vlen t] spec next_id = Some r \<and> searched tb spec r"
    proof (rule match_members_total [of tb "length (sp_raw_spec spec)"])
      show "\<exists>r. match_member n lb acc tb i sp nx = Some r \<and> searched tb sp r"
        if "unat i < btf__type_cnt tb" "spec_ok tb sp" "length (sp_raw_spec spec) < length (sp_raw_spec sp)" for i sp nx
        using that Suc.IH Suc.prems(3) by simp
      show "\<exists>r. bpf_core_fields_are_compat lb (bm_type lm) tb i = Some r" if "unat i < btf__type_cnt tb" for i
        using fields_compat_total assms(1-4,9) that by blast
    qed (use s True Suc.prems in \<open>auto simp: list_all_iff\<close>)
    then show ?thesis using s True assms(6-8) by simp
  qed
qed


section \<open>Matching and reading\<close>

lemma accessor_good:
  assumes "btf_good b" "accessor_ok b a" "unat (ac_type_id a) < btf__type_cnt b" "ac_name a = Some n"
  shows "\<exists>t m. btf_type_by_id b (ac_type_id a) = Some t \<and> btf_members t (unat (ac_idx a)) = Some m \<and>
    btf__name_by_offset b (bm_name_off m) = Some (Some n) \<and> unat (bm_type m) < btf__type_cnt b"
proof -
  obtain t m where t: "btf_type_by_id b (ac_type_id a) = Some t" "btf_is_composite t" "unat (ac_idx a) < btf_vlen t"
    "btf_members t (unat (ac_idx a)) = Some m" "btf__name_by_offset b (bm_name_off m) = Some (Some n)"
    using assms(2,4) by (auto simp: accessor_ok_def)
  have "type_good b t" using good_type [OF assms(1,3)] t(1) assms(3) by (auto simp: btf__type_by_id_def)
  then show ?thesis using good_member [of b t "unat (ac_idx a)"] t by auto
qed

lemma flex_total:
  assumes "btf_good b" "list_all (\<lambda>a. unat (ac_type_id a) < btf__type_cnt b) (sp_spec spec)" "sp_spec spec \<noteq> []"
  shows "\<exists>a f. last_accessor spec = Some a \<and> is_flex_arr b a arr = Some f"
proof -
  have "unat (ac_type_id (last (sp_spec spec))) < btf__type_cnt b" using assms(2,3) by (simp add: list_all_iff)
  then obtain t where "btf_type_by_id b (ac_type_id (last (sp_spec spec))) = Some t"
    using type_by_id_total assms(1) unfolding btf_good_def by blast
  then show ?thesis using assms(3) by (auto simp: last_accessor_def is_flex_arr_def)
qed

lemma size_total: "btf_good b \<Longrightarrow> \<exists>v. btf__resolve_size b i = Some v"
  by (simp add: btf__resolve_size_def resolve_size_loop_total)

lemma match_accessors_total:
  assumes "btf_good lb" "ranked lrank lb" "btf_good tb" "ranked trank tb" "unat i < btf__type_cnt tb"
    "list_all (accessor_ok lb) accs" "list_all (\<lambda>a. unat (ac_type_id a) < btf__type_cnt lb) accs"
    "spec_ok tb spec" "at_start \<or> sp_spec spec \<noteq> []"
  shows "\<exists>r. match_accessors lb accs at_start tb i spec = Some r"
  using assms(5-)
proof (induction accs arbitrary: i spec at_start)
  case (Cons acc accs)
  obtain t j where s: "skip_mods_and_typedefs tb i = Some (t, j)" "unat j < btf__type_cnt tb" "type_good tb t"
    using skip_total [OF assms(3,4) Cons.prems(1)] by blast
  show ?case
  proof (cases "ac_name acc")
    case (Some n)
    obtain lt lm where "btf_type_by_id lb (ac_type_id acc) = Some lt" "btf_members lt (unat (ac_idx acc)) = Some lm"
      "btf__name_by_offset lb (bm_name_off lm) = Some (Some n)" "unat (bm_type lm) < btf__type_cnt lb"
      using accessor_good [OF assms(1) _ _ Some] Cons.prems(2,3) by auto
    from match_member_total [OF assms(1-4) s(2) this Cons.prems(4), of 65 j]
    obtain r where r: "match_member 65 lb acc tb j spec j = Some r" "searched tb spec r" by auto
    obtain m sp nx where mr: "r = (m, sp, nx)" by (cases r)
    show ?thesis
    proof (cases "m \<le> 0")
      case True
      then show ?thesis using s(1) Some r mr by (simp add: bpf_core_match_member_def)
    next
      case False
      then have "unat nx < btf__type_cnt tb" "spec_ok tb sp" "sp_spec sp \<noteq> []" using r(2) mr by (auto simp: searched_def)
      then show ?thesis using Cons.IH [of nx sp False] Cons.prems s(1) Some r(1) mr False
        by (simp add: bpf_core_match_member_def)
    qed
  next
    case None
    have elem: "(\<exists>a et ei f p. btf_array_of t = Some a \<and> skip_mods_and_typedefs tb (ba_type a) = Some (et, ei) \<and>
        unat ei < btf__type_cnt tb \<and> last_accessor spec = Some p \<and> is_flex_arr tb p a = Some f)"
      if "\<not> at_start" "btf_kind t = BTF_KIND_ARRAY"
      using good_array [OF s(3) that(2)] skip_total [OF assms(3,4)] flex_total [OF assms(3)] Cons.prems(4,5) that(1)
      by (metis spec_ok_def)
    have go: "\<exists>r. match_accessors lb accs False tb ei (add_offset v (push_accessor \<lparr>ac_type_id = ei, ac_idx = ac_idx acc, ac_name = None\<rparr> spec
        \<lparr>sp_raw_spec := sp_raw_spec spec @ [sint (ac_idx acc)]\<rparr>)) = Some r"
      if "unat ei < btf__type_cnt tb" "length (sp_raw_spec spec) \<noteq> 64" for ei v
      using that Cons.prems by (intro Cons.IH) (auto simp: spec_ok_def)
    obtain szof where szof: "\<And>i. btf__resolve_size tb i = Some (szof i)" using size_total [OF assms(3)] by metis
    show ?thesis
    proof (cases at_start)
      case True
      then show ?thesis using s None szof go [OF s(2)] by (simp add: Let_def)
    next
      case False
      show ?thesis
      proof (cases "btf_kind t = 3")
        case True
        then obtain a et ei f p where e: "btf_array_of t = Some a" "skip_mods_and_typedefs tb (ba_type a) = Some (et, ei)"
          "unat ei < btf__type_cnt tb" "last_accessor spec = Some p" "is_flex_arr tb p a = Some f" using elem False by auto
        then show ?thesis using s None szof go [OF e(3)] False True by (simp add: Let_def)
      next
        case nk: False
        then show ?thesis using s(1) None False by simp
      qed
    qed
  qed
qed simp


definition ids_ok :: "btf \<Rightarrow> bpf_core_spec \<Rightarrow> bool" where
  "ids_ok b spec \<longleftrightarrow> list_all (\<lambda>a. unat (ac_type_id a) < btf__type_cnt b) (sp_spec spec) \<and> sp_spec spec \<noteq> []"

lemma ids_ok_extended [simp]:
  "ids_ok b (extended s p v accs) \<longleftrightarrow> list_all (\<lambda>a. unat (ac_type_id a) < btf__type_cnt b) (sp_spec s @ accs) \<and> sp_spec s @ accs \<noteq> []"
  by (simp add: ids_ok_def)

lemma parse_fields_total:
  assumes "btf_good b" "ranked rank b" "list_all (\<lambda>x. 0 \<le> x) xs" "unat i < btf__type_cnt b" "ids_ok b spec"
  shows "\<exists>r. parse_fields b xs i spec = Some r \<and> (\<forall>spec'. r = Inr spec' \<longrightarrow> ids_ok b spec')"
  using assms(3-)
proof (induction xs arbitrary: i spec)
  case (Cons x xs)
  obtain t j where s: "skip_mods_and_typedefs b i = Some (t, j)" "unat j < btf__type_cnt b" "type_good b t"
    using skip_total [OF assms(1,2) Cons.prems(2)] by blast
  show ?case
  proof (cases "btf_is_composite t")
    case True
    show ?thesis
    proof (cases "x < int (btf_vlen t)")
      case lt: True
      then have "nat x < btf_vlen t" using Cons.prems(1) by (simp add: nat_less_iff)
      then obtain m v n where m: "btf_members t (nat x) = Some m" "btf_member_bit_offset t (nat x) = Some v"
        "btf__name_by_offset b (bm_name_off m) = Some (Some n)" "unat (bm_type m) < btf__type_cnt b"
        using good_member [OF s(3) True, of "nat x"] Cons.prems(1) by auto
      let ?a = "\<lparr>ac_type_id = j, ac_idx = of_int x, ac_name = Some n\<rparr>"
      have "ids_ok b (extended spec [] v [])" "ids_ok b (extended spec [] v [?a])" using Cons.prems(3) s(2) by (auto simp: ids_ok_def)
      note IH = this [THEN Cons.IH [OF _ m(4), rotated 1]]
      show ?thesis using s True lt m IH Cons.prems(1) by (simp add: index_def Let_def str_is_empty_def)
    qed (use s True in simp)
  next
    case False
    show ?thesis
    proof (cases "btf_kind t = 3")
      case True
      obtain a where a: "btf_array_of t = Some a" "unat (ba_type a) < btf__type_cnt b" using good_array [OF s(3) True] by blast
      obtain et ei where e: "skip_mods_and_typedefs b (ba_type a) = Some (et, ei)" "unat ei < btf__type_cnt b"
        using skip_total [OF assms(1,2) a(2)] by blast
      obtain p f where f: "last_accessor spec = Some p" "is_flex_arr b p a = Some f"
        using flex_total [OF assms(1)] Cons.prems(3) by (metis ids_ok_def)
      obtain sz where sz: "btf__resolve_size b ei = Some sz" using size_total [OF assms(1)] by blast
      let ?a = "\<lparr>ac_type_id = ei, ac_idx = of_int x, ac_name = None\<rparr>"
      have "ids_ok b (extended spec [] (of_int (x * sz * 8)) [?a])" using Cons.prems(3) e(2) by (auto simp: ids_ok_def)
      note IH = this [THEN Cons.IH [OF _ e(2), rotated 1]]
      show ?thesis using s False True a e f sz IH Cons.prems(1) by simp
    qed (use s False in simp)
  qed
qed simp

text \<open>The indices of an access string, read as C reads them, are not negative.\<close>

definition indices_ok :: "btf \<Rightarrow> bpf_core_relo \<Rightarrow> bool" where
  "indices_ok b relo \<longleftrightarrow>
     (case btf__name_by_offset b (cr_access_str_off relo) of
        Some (Some str) \<Rightarrow> (case parse_raw str [] of Inr raw \<Rightarrow> list_all (\<lambda>x. 0 \<le> x) raw | Inl err \<Rightarrow> True)
      | _ \<Rightarrow> True)"

lemma parse_spec_total:
  assumes "btf_good b" "ranked rank b" "indices_ok b relo" "unat (cr_type_id relo) < btf__type_cnt b"
    "core_relo_is_field_based (cr_kind relo)"
  shows "\<exists>r. bpf_core_parse_spec b relo = Some r \<and> (\<forall>spec. r = Inr spec \<longrightarrow> ids_ok b spec)"
proof -
  have k: "\<not> core_relo_is_type_based (cr_kind relo)" "\<not> core_relo_is_enumval_based (cr_kind relo)"
    using assms(5) by (auto simp: core_relo_is_field_based_def core_relo_is_type_based_def core_relo_is_enumval_based_def)
  obtain so where so: "btf__name_by_offset b (cr_access_str_off relo) = Some so"
    using str_by_offset_total assms(1) unfolding btf_good_def btf__name_by_offset_def by blast
  show ?thesis
  proof (cases "\<exists>str x xs. so = Some str \<and> str \<noteq> [] \<and> hd str \<noteq> 0x3a \<and> parse_raw str [] = Inr (x # xs)")
    case True
    then obtain str x xs where str: "so = Some str" "str \<noteq> []" "hd str \<noteq> 0x3a" "parse_raw str [] = Inr (x # xs)" by blast
    obtain t j where s: "skip_mods_and_typedefs b (cr_type_id relo) = Some (t, j)" "unat j < btf__type_cnt b"
      using skip_total [OF assms(1,2,4)] by blast
    obtain sz where sz: "btf__resolve_size b j = Some sz" using size_total [OF assms(1)] by blast
    let ?s = "\<lparr>sp_btf = b, sp_spec = [], sp_root_type_id = cr_type_id relo, sp_relo_kind = cr_kind relo,
      sp_raw_spec = x # xs, sp_bit_offset = 0\<rparr>" and ?a = "\<lparr>ac_type_id = j, ac_idx = of_int x, ac_name = None\<rparr>"
    have "list_all (\<lambda>x. 0 \<le> x) xs" using assms(3) so str by (simp add: indices_ok_def)
    from parse_fields_total [OF assms(1,2) this s(2), of "extended ?s [] (of_int (x * sz * 8)) [?a]"]
    obtain r where "parse_fields b xs j (extended ?s [] (of_int (x * sz * 8)) [?a]) = Some r \<and> (\<forall>spec'. r = Inr spec' \<longrightarrow> ids_ok b spec')"
      using s(2) by auto
    then show ?thesis using so str k s sz assms(5) by (simp add: bpf_core_parse_spec_def Let_def)
  next
    case False
    have "parse_raw str [] = Inr [] \<or> (\<exists>e. parse_raw str [] = Inl e)" if "so = Some str" "str \<noteq> []" "hd str \<noteq> 0x3a" for str
      using False that by (metis neq_Nil_conv obj_sumE)
    then show ?thesis using so k by (auto simp: bpf_core_parse_spec_def Let_def split: option.splits)
  qed
qed

text \<open>C23. A field relocation that is matched designates the same field in both programs: the offset of either side is that
  of a path of member and array indices from the root type, and the two paths pass through members of the same names and
  through the same array indices, in the same order, anonymous members passed over. The accessors of either side are these steps, and each
  points at a member of that name. It is assumed that the name at offset 0 of the local type information is empty, as parsing checks, and
  that no structure of the target has two members of one name.\<close>

theorem field_match_same_field:
  assumes "bpf_core_parse_spec lb relo = Some (Inr ls)" "core_relo_is_field_based (cr_kind relo)"
    "bpf_core_spec_match ls tb root = Some (r, ts)" "0 < r" "no_name_at_0 lb" "unambiguous tb"
  shows "\<exists>steps. designates ls (cr_type_id relo) steps \<and> designates ts root steps"
  using parse_spec_ok [OF assms(1,2)] spec_match_ok [OF assms(3,4,6)] assms(2,5) by auto

text \<open>C24. Reading and matching a field relocation ends and stays inside the tables, on parsed type information whose
  chains of typedefs, modifiers and arrays end and for an access string without a negative index.\<close>

theorem field_match_returns:
  assumes "btf_good lb" "ranked lrank lb" "btf_good tb" "ranked trank tb"
    "unat (cr_type_id relo) < btf__type_cnt lb" "unat root < btf__type_cnt tb" "indices_ok lb relo"
    "core_relo_is_field_based (cr_kind relo)"
  shows "\<exists>p. bpf_core_parse_spec lb relo = Some p \<and>
    (case p of Inl err \<Rightarrow> True | Inr ls \<Rightarrow> \<exists>r. bpf_core_spec_match ls tb root = Some r)"
proof -
  obtain p where p: "bpf_core_parse_spec lb relo = Some p" "\<And>spec. p = Inr spec \<Longrightarrow> ids_ok lb spec"
    using parse_spec_total [OF assms(1,2,7,5,8)] by blast
  have "\<exists>r. bpf_core_spec_match ls tb root = Some r" if ls: "p = Inr ls" for ls
  proof -
    obtain a accs where a: "sp_btf ls = lb" "sp_relo_kind ls = cr_kind relo" "sp_spec ls = a # accs" "ac_name a = None"
      "list_all (accessor_ok lb) accs" using parse_spec_ok p(1) assms(8) ls by blast
    have k: "\<not> core_relo_is_type_based (cr_kind relo)" "\<not> core_relo_is_enumval_based (cr_kind relo)"
      using assms(8) by (auto simp: core_relo_is_field_based_def core_relo_is_type_based_def core_relo_is_enumval_based_def)
    have "list_all (accessor_ok lb) (sp_spec ls)" using a by (simp add: accessor_ok_def)
    then show ?thesis using match_accessors_total [OF assms(1-4,6)] p(2) [OF ls] a(1,2) k assms(8)
      by (auto simp: bpf_core_spec_match_def spec_ok_def ids_ok_def)
  qed
  then show ?thesis using p(1) by (auto split: sum.splits)
qed


text \<open>Member \<open>y\<close> of the first example, looked for in the second, where it is in an anonymous structure.\<close>

definition ex_relo :: bpf_core_relo where
  "ex_relo = \<lparr>cr_type_id = 2, cr_access_str_off = 11, cr_kind = BPF_CORE_FIELD_BYTE_OFFSET\<rparr>"

definition ex_local_spec :: bpf_core_spec where
  "ex_local_spec = \<lparr>sp_btf = ex_local,
     sp_spec = [\<lparr>ac_type_id = 2, ac_idx = 0, ac_name = None\<rparr>, \<lparr>ac_type_id = 2, ac_idx = 1, ac_name = Some [0x79]\<rparr>],
     sp_root_type_id = 2, sp_relo_kind = BPF_CORE_FIELD_BYTE_OFFSET, sp_raw_spec = [0, 1], sp_bit_offset = 32\<rparr>"

definition ex_kernel_spec :: bpf_core_spec where
  "ex_kernel_spec = \<lparr>sp_btf = ex_kernel,
     sp_spec = [\<lparr>ac_type_id = 3, ac_idx = 0, ac_name = None\<rparr>, \<lparr>ac_type_id = 2, ac_idx = 1, ac_name = Some [0x79]\<rparr>],
     sp_root_type_id = 3, sp_relo_kind = BPF_CORE_FIELD_BYTE_OFFSET, sp_raw_spec = [0, 1, 1], sp_bit_offset = 64\<rparr>"

lemma ex_match:
  "bpf_core_parse_spec ex_local ex_relo = Some (Inr ex_local_spec)"
  "bpf_core_spec_match ex_local_spec ex_kernel 3 = Some (1, ex_kernel_spec)"
  "unambiguous ex_kernel" "no_name_at_0 ex_local" "ranked unat ex_local" "ranked unat ex_kernel" "core_relo_is_field_based (cr_kind ex_relo)"
  by code_simp+

theorem field_match_same_field_witness:
  "designates ex_local_spec 2 [Elem 0, Field [0x79]] \<and> designates ex_kernel_spec 3 [Elem 0, Field [0x79]]"
proof -
  obtain steps where d: "designates ex_local_spec 2 steps" "designates ex_kernel_spec 3 steps"
    using field_match_same_field [OF ex_match(1,7,2) _ ex_match(4,3)] by (auto simp: ex_relo_def)
  then have "steps = map step_of (sp_spec ex_local_spec)" by (simp add: designates_def)
  then show ?thesis using d by (simp add: ex_local_spec_def step_of_def)
qed

theorem field_match_returns_witness:
  "\<exists>p. bpf_core_parse_spec ex_local ex_relo = Some p \<and>
    (case p of Inl err \<Rightarrow> True | Inr ls \<Rightarrow> \<exists>r. bpf_core_spec_match ls ex_kernel 3 = Some r)"
proof -
  have "indices_ok ex_local ex_relo" "unat (cr_type_id ex_relo) < btf__type_cnt ex_local" "unat (3 :: u32) < btf__type_cnt ex_kernel"
    by code_simp+
  then show ?thesis using field_match_returns [OF ex_local_good ex_match(5) ex_kernel_good ex_match(6) _ _ _ ex_match(7)] by blast
qed

end
