(* ===== verification/Core_Cands.thy ===== *)
theory Core_Cands
  imports Core_Total Core_Patch Core_Bitfield
begin

text \<open>
  Candidates: which types of the kernel are tried, that all of them that match agree, and what a relocated load or
  store reads.
\<close>

section \<open>Agreement\<close>

text \<open>A candidate that matches, with its result.\<close>

definition cand_result :: "bool \<Rightarrow> bpf_core_relo_kind \<Rightarrow> bpf_core_spec \<Rightarrow> bpf_core_cand \<Rightarrow> bpf_core_spec \<Rightarrow> bpf_core_relo_res \<Rightarrow> bool" where
  "cand_result le kind ls c ts res \<longleftrightarrow>
     (\<exists>r. bpf_core_spec_match ls (fst c) (snd c) = Some (r, ts) \<and> 0 < r) \<and> bpf_core_calc_relo le kind ls (Some ts) = Some (0, res)"

definition rejected :: "bpf_core_spec \<Rightarrow> bpf_core_cand \<Rightarrow> bool" where
  "rejected ls c \<longleftrightarrow> (\<exists>ts. bpf_core_spec_match ls (fst c) (snd c) = Some (0, ts))"

text \<open>A result says of the instruction what another one says.\<close>

definition agrees :: "bpf_core_relo_res \<Rightarrow> u32 \<Rightarrow> bpf_core_relo_res \<Rightarrow> bpf_core_spec \<Rightarrow> bool" where
  "agrees res at res' ts' \<longleftrightarrow> rr_poison res' = rr_poison res \<and> rr_new_val res' = rr_new_val res \<and> sp_bit_offset ts' = at"

definition decided :: "bool \<Rightarrow> bpf_core_relo_kind \<Rightarrow> bpf_core_spec \<Rightarrow> (bpf_core_relo_res \<times> u32) option \<Rightarrow> bpf_core_cand \<Rightarrow> bool" where
  "decided le kind ls targ c \<longleftrightarrow> rejected ls c \<or>
     (\<exists>ts res' res at. targ = Some (res, at) \<and> cand_result le kind ls c ts res' \<and> agrees res at res' ts)"

lemma rejected_not_matched: "rejected ls c \<Longrightarrow> \<not> cand_result le kind ls c ts res"
  by (auto simp: rejected_def cand_result_def)

lemma calc_cands_ok:
  assumes "calc_cands le kind ls cands kept targ = Some (Inr (kept', targ'))"
  shows "kept' = kept @ filter (\<lambda>c. \<not> rejected ls c) cands \<and> (targ \<noteq> None \<longrightarrow> targ' = targ) \<and>
    list_all (decided le kind ls targ') cands \<and>
    (targ = None \<and> targ' \<noteq> None \<longrightarrow> (\<exists>c \<in> set cands. \<exists>ts res. cand_result le kind ls c ts res \<and> targ' = Some (res, sp_bit_offset ts)))"
  using assms
proof (induction cands arbitrary: kept targ)
  case (Cons c cands)
  obtain cb ci where c: "c = (cb, ci)" by (cases c)
  obtain err ts where m: "bpf_core_spec_match ls cb ci = Some (err, ts)"
    using Cons.prems c by (auto simp: bind_eq_Some_conv)
  have "\<not> err < 0" using Cons.prems c m by auto
  then consider "err = 0" | "0 < err" by linarith
  then show ?case
  proof cases
    case 1
    then have "rejected ls c" using c m by (auto simp: rejected_def)
    moreover have "calc_cands le kind ls cands kept targ = Some (Inr (kept', targ'))" using Cons.prems c m 1 by simp
    ultimately show ?thesis using Cons.IH by (auto simp: decided_def)
  next
    case 2
    obtain res where r: "bpf_core_calc_relo le kind ls (Some ts) = Some (0, res)"
      using Cons.prems c m 2 by (auto simp: bind_eq_Some_conv split: if_splits)
    have res: "cand_result le kind ls c ts res" using c m r 2 by (auto simp: cand_result_def)
    then have nr: "\<not> rejected ls c" using rejected_not_matched by blast
    show ?thesis
    proof (cases targ)
      case None
      then have "calc_cands le kind ls cands (kept @ [c]) (Some (res, sp_bit_offset ts)) = Some (Inr (kept', targ'))"
        using Cons.prems c m r 2 by simp
      note IH = Cons.IH [OF this]
      then have "decided le kind ls targ' c" using res by (auto simp: decided_def agrees_def)
      then show ?thesis using IH nr res None by auto
    next
      case (Some p)
      obtain tr at where p: "p = (tr, at)" by (cases p)
      have "calc_cands le kind ls cands (kept @ [c]) (Some (tr, at)) = Some (Inr (kept', targ'))" and "agrees tr at res ts"
        using Cons.prems c m r 2 Some p by (simp_all add: agrees_def split: if_splits)
      note IH = Cons.IH [OF this(1)] and this(2)
      then have "decided le kind ls targ' c" using res unfolding decided_def by blast
      then show ?thesis using IH nr Some p by auto
    qed
  qed
qed (auto split: option.splits)

lemma calc_relo_insn_ok:
  assumes "bpf_core_calc_relo_insn le relo lb cands = Some (Inr (res, kept))" "cr_kind relo \<noteq> BPF_CORE_TYPE_ID_LOCAL"
  shows "\<exists>ls. bpf_core_parse_spec lb relo = Some (Inr ls) \<and>
    (if list_all (rejected ls) cands then kept = cands \<and> bpf_core_calc_relo le (cr_kind relo) ls None = Some (0, res)
     else kept = filter (\<lambda>c. \<not> rejected ls c) cands \<and>
       (\<exists>at. list_all (\<lambda>c. \<exists>ts res'. cand_result le (cr_kind relo) ls c ts res' \<and> agrees res at res' ts) kept))"
proof -
  obtain t s p where t: "btf_type_by_id lb (cr_type_id relo) = Some t" "btf__name_by_offset lb (bt_name_off t) = Some (Some s)"
    "bpf_core_parse_spec lb relo = Some p"
    using assms by (auto simp: bpf_core_calc_relo_insn_def bind_eq_Some_conv split: if_splits)
  then obtain ls where ls: "bpf_core_parse_spec lb relo = Some (Inr ls)"
    using assms by (cases p) (auto simp: bpf_core_calc_relo_insn_def)
  obtain q where q: "calc_cands le (cr_kind relo) ls cands [] None = Some q"
    using assms ls t(1,2) by (auto simp: bpf_core_calc_relo_insn_def bind_eq_Some_conv split: if_splits)
  then obtain kept' targ where c: "calc_cands le (cr_kind relo) ls cands [] None = Some (Inr (kept', targ))"
    using assms ls t(1,2) by (cases q) (auto simp: bpf_core_calc_relo_insn_def split: if_splits)
  note ok = calc_cands_ok [OF c]
  show ?thesis
  proof (cases targ)
    case None
    then have "list_all (rejected ls) cands" using ok by (simp add: decided_def list_all_iff)
    moreover have "kept = cands \<and> bpf_core_calc_relo le (cr_kind relo) ls None = Some (0, res)"
      using assms ls t(1,2) c None by (auto simp: bpf_core_calc_relo_insn_def bind_eq_Some_conv split: if_splits)
    ultimately show ?thesis using ls by simp
  next
    case (Some p)
    obtain tr at where p: "p = (tr, at)" by (cases p)
    have "res = tr" "kept = kept'"
      using assms ls t(1,2) c Some p by (auto simp: bpf_core_calc_relo_insn_def bind_eq_Some_conv split: if_splits)
    moreover have "\<not> list_all (rejected ls) cands"
      using ok Some rejected_not_matched by (fastforce simp: list_all_iff)
    moreover have "list_all (\<lambda>c. \<exists>ts res'. cand_result le (cr_kind relo) ls c ts res' \<and> agrees tr at res' ts)
        (filter (\<lambda>c. \<not> rejected ls c) cands)"
      using ok Some p by (auto simp: list_all_iff decided_def)
    ultimately show ?thesis using ls ok by (intro exI [of _ ls]) auto
  qed
qed

text \<open>C25. When a relocation against a list of candidates succeeds, every candidate either does not match or matches with
  the same outcome, bit offset included: two candidates that would patch the instruction differently make it fail.
  If none matches, the result is the one for an absent target and the list is left as it was.\<close>

theorem candidates_agree:
  assumes "bpf_core_calc_relo_insn le relo lb cands = Some (Inr (res, kept))" "cr_kind relo \<noteq> BPF_CORE_TYPE_ID_LOCAL"
  shows "\<exists>ls. bpf_core_parse_spec lb relo = Some (Inr ls) \<and>
    (if list_all (rejected ls) cands then kept = cands \<and> bpf_core_calc_relo le (cr_kind relo) ls None = Some (0, res)
     else kept = filter (\<lambda>c. \<not> rejected ls c) cands \<and>
       (\<exists>at. list_all (\<lambda>c. \<exists>ts res'. cand_result le (cr_kind relo) ls c ts res' \<and> agrees res at res' ts) kept))"
  using assms by (rule calc_relo_insn_ok)

section \<open>What a relocated instruction accesses\<close>

lemma calc_byte_offset:
  assumes "bpf_core_calc_field_relo le BPF_CORE_FIELD_BYTE_OFFSET (Some ts) = Some (Inr (v, fsz, tid, validate))"
    "\<nexists>mt n. bitfield_spec ts mt n"
  shows "v = ucast (sp_bit_offset ts div 8)"
proof -
  obtain acc t where a: "last_accessor ts = Some acc" "btf_type_by_id (sp_btf ts) (ac_type_id acc) = Some t"
    using assms(1) by (auto simp: bpf_core_calc_field_relo_def bind_eq_Some_conv Let_def)
  show ?thesis
  proof (cases "ac_name acc")
    case None
    then show ?thesis using assms(1) a by (auto simp: bpf_core_calc_field_relo_def bind_eq_Some_conv Let_def split: if_splits)
  next
    case (Some nm)
    obtain m mt j bz where m: "btf_members t (unat (ac_idx acc)) = Some m" "skip_mods_and_typedefs (sp_btf ts) (bm_type m) = Some (mt, j)"
      "btf_member_bitfield_size t (unat (ac_idx acc)) = Some bz"
      using assms(1) a Some by (auto simp: bpf_core_calc_field_relo_def bind_eq_Some_conv Let_def)
    have "\<not> 0 < bz" using assms(2) a m Some by (auto simp: bitfield_spec_def)
    then show ?thesis using assms(1) a m Some
      by (auto simp: bpf_core_calc_field_relo_def bind_eq_Some_conv Let_def split: if_splits)
  qed
qed

lemma bitfield_load_error: "bitfield_load bit_off bit_sz byte_sz = Some (Inl e) \<Longrightarrow> e = - E2BIG"
  by (induction bit_off bit_sz byte_sz rule: bitfield_load.induct)
    (subst (asm) bitfield_load.simps, auto simp: Let_def split: if_splits)

lemma calc_field_error:
  assumes "bpf_core_calc_field_relo le BPF_CORE_FIELD_BYTE_OFFSET (Some s) = Some (Inl e)"
  shows "e \<in> {- EINVAL, - E2BIG}"
proof -
  obtain acc t where a: "last_accessor s = Some acc" "btf_type_by_id (sp_btf s) (ac_type_id acc) = Some t"
    using assms by (auto simp: bpf_core_calc_field_relo_def bind_eq_Some_conv Let_def)
  show ?thesis
  proof (cases "ac_name acc")
    case None
    then show ?thesis using assms a by (auto simp: bpf_core_calc_field_relo_def bind_eq_Some_conv Let_def split: if_splits)
  next
    case (Some nm)
    obtain m mt j bz where m: "btf_members t (unat (ac_idx acc)) = Some m" "skip_mods_and_typedefs (sp_btf s) (bm_type m) = Some (mt, j)"
      "btf_member_bitfield_size t (unat (ac_idx acc)) = Some bz"
      using assms a Some by (auto simp: bpf_core_calc_field_relo_def bind_eq_Some_conv Let_def)
    show ?thesis
    proof (cases "0 < bz")
      case True
      then obtain r where r: "bitfield_load (sp_bit_offset s) bz (bt_size_type mt) = Some r"
        using assms a m Some by (auto simp: bpf_core_calc_field_relo_def bind_eq_Some_conv Let_def)
      then show ?thesis using assms a m Some True bitfield_load_error
        by (cases r) (auto simp: bpf_core_calc_field_relo_def Let_def)
    next
      case False
      then obtain sz where "btf__resolve_size (sp_btf s) j = Some sz"
        using assms a m Some by (auto simp: bpf_core_calc_field_relo_def bind_eq_Some_conv Let_def)
      then show ?thesis using assms a m Some False
        by (cases "sz < 0") (auto simp: bpf_core_calc_field_relo_def bind_eq_Some_conv Let_def split: if_splits)
    qed
  qed
qed

lemma calc_relo_byte_offset:
  assumes "bpf_core_calc_relo le BPF_CORE_FIELD_BYTE_OFFSET ls (Some ts) = Some (0, res)" "\<nexists>mt n. bitfield_spec ts mt n"
  shows "rr_new_val res = ucast (sp_bit_offset ts div 8)"
proof -
  have k: "core_relo_is_field_based BPF_CORE_FIELD_BYTE_OFFSET" by (simp add: core_relo_is_field_based_def)
  obtain l where l: "bpf_core_calc_field_relo le BPF_CORE_FIELD_BYTE_OFFSET (Some ls) = Some l"
    using assms(1) k by (auto simp: bpf_core_calc_relo_def Let_def bind_eq_Some_conv)
  then obtain v fsz tid va where v: "l = Inr (v, fsz, tid, va)"
    using assms(1) k calc_field_error [of le ls] by (cases l) (auto simp: bpf_core_calc_relo_def Let_def calc_relo_done_def)
  obtain r where r: "bpf_core_calc_field_relo le BPF_CORE_FIELD_BYTE_OFFSET (Some ts) = Some r"
    using assms(1) k l v by (auto simp: bpf_core_calc_relo_def Let_def bind_eq_Some_conv)
  then obtain v' fsz' tid' va' where v': "r = Inr (v', fsz', tid', va')"
    using assms(1) k l v calc_field_error [of le ts] by (cases r) (auto simp: bpf_core_calc_relo_def Let_def calc_relo_done_def)
  have "rr_new_val res = v'"
    using assms(1) k l v r v' by (auto simp: bpf_core_calc_relo_def Let_def bind_eq_Some_conv split: if_splits)
  then show ?thesis using calc_byte_offset [of le ts] r v' assms(2) by auto
qed

lemma calc_relo_absent:
  assumes "bpf_core_calc_relo le BPF_CORE_FIELD_BYTE_OFFSET ls None = Some (0, res)"
  shows "rr_poison res"
proof -
  have k: "core_relo_is_field_based BPF_CORE_FIELD_BYTE_OFFSET" by (simp add: core_relo_is_field_based_def)
  obtain l where l: "bpf_core_calc_field_relo le BPF_CORE_FIELD_BYTE_OFFSET (Some ls) = Some l"
    using assms k by (auto simp: bpf_core_calc_relo_def Let_def bind_eq_Some_conv)
  have "bpf_core_calc_field_relo le BPF_CORE_FIELD_BYTE_OFFSET None = Some (Inl (- EUCLEAN))"
    by (simp add: bpf_core_calc_field_relo_def)
  then show ?thesis using assms k l calc_field_error [of le ls]
    by (cases l) (auto simp: bpf_core_calc_relo_def Let_def calc_relo_done_def)
qed

text \<open>C22. A load or store relocated by byte offset, and not poisoned, accesses in every kernel type that was kept the field
  that the program names: its offset is the byte offset of a path through members of the same names and the same array indices,
  anonymous members passed over (for a field that is not a bitfield).\<close>

theorem relocated_access_is_field:
  assumes "bpf_core_calc_relo_insn le relo lb cands = Some (Inr (res, kept))" "cr_kind relo = BPF_CORE_FIELD_BYTE_OFFSET"
    "bpf_core_patch_insn prog n res = Some (0, prog')" "mem_class (prog ! n)" "prog' ! n \<noteq> bpf_core_poison_insn"
    "(tb, root) \<in> set kept" "no_name_at_0 lb" "unambiguous tb"
  shows "\<exists>ls r ts. bpf_core_parse_spec lb relo = Some (Inr ls) \<and> bpf_core_spec_match ls tb root = Some (r, ts) \<and> 0 < r \<and>
    (\<exists>steps. designates ls (cr_type_id relo) steps \<and> designates ts root steps) \<and>
    ((\<nexists>mt bits. bitfield_spec ts mt bits) \<longrightarrow> operand prog' n = ucast (sp_bit_offset ts div 8))"
proof -
  have k: "core_relo_is_field_based (cr_kind relo)" using assms(2) by (simp add: core_relo_is_field_based_def)
  have np: "\<not> (rr_poison res \<or> mem_class (prog ! n) \<and> rr_fail_memsz_adjust res)"
    using patch_insn_ok [OF assms(3)] assms(5) by auto
  then have p: "operand prog' n = rr_new_val res" using patch_insn_ok [OF assms(3)] assms(4) by (auto simp: patched_def Let_def)
  obtain ls where ls: "bpf_core_parse_spec lb relo = Some (Inr ls)"
    "if list_all (rejected ls) cands then kept = cands \<and> bpf_core_calc_relo le (cr_kind relo) ls None = Some (0, res)
     else kept = filter (\<lambda>c. \<not> rejected ls c) cands \<and>
       (\<exists>at. list_all (\<lambda>c. \<exists>ts res'. cand_result le (cr_kind relo) ls c ts res' \<and> agrees res at res' ts) kept)"
    using calc_relo_insn_ok [OF assms(1)] assms(2) by auto
  then obtain r ts res' where ts: "bpf_core_spec_match ls tb root = Some (r, ts)" "0 < r"
    "bpf_core_calc_relo le (cr_kind relo) ls (Some ts) = Some (0, res')" "rr_poison res' = rr_poison res" "rr_new_val res' = rr_new_val res"
    using calc_relo_absent assms(2,6) np by (fastforce simp: list_all_iff cand_result_def agrees_def split: if_splits)
  note l = parse_spec_ok [OF ls(1) k]
  then have "designates ls (cr_type_id relo) (map step_of (sp_spec ls)) \<and> designates ts root (map step_of (sp_spec ls))"
    using spec_match_ok [OF ts(1,2) assms(8)] assms(7) k by auto
  moreover have "rr_new_val res = ucast (sp_bit_offset ts div 8)" if "\<nexists>mt bits. bitfield_spec ts mt bits"
    using calc_relo_byte_offset [of le ls ts res'] ts assms(2) that by simp
  ultimately show ?thesis using ls(1) ts(1,2) l p by auto
qed


lemma ex_calc: "bpf_core_calc_relo_insn True ex_relo ex_local [(ex_kernel, 3)] = Some (Inr (ex_res, [(ex_kernel, 3)]))"
  by code_simp

theorem candidates_agree_witness:
  "\<exists>at. \<exists>ts res'. cand_result True BPF_CORE_FIELD_BYTE_OFFSET ex_local_spec (ex_kernel, 3) ts res' \<and> agrees ex_res at res' ts"
proof -
  have "\<not> rejected ex_local_spec (ex_kernel, 3)" using ex_match(2) by (simp add: rejected_def)
  then show ?thesis
    using candidates_agree [OF ex_calc] ex_match(1) by (simp add: ex_relo_def)
qed

theorem relocated_access_is_field_witness:
  "designates ex_kernel_spec 3 [Elem 0, Field [0x79]] \<and> operand ex_patched 0 = 8"
proof -
  have m: "mem_class (ex_prog ! 0)" "ex_patched ! 0 \<noteq> bpf_core_poison_insn" by code_simp+
  have nb: "\<nexists>mt bits. bitfield_spec ex_kernel_spec mt bits"
    by (simp add: bitfield_spec_def ex_kernel_spec_def ex_kernel_def last_accessor_def aget_def btf_member_bitfield_size_def
        btf_members_def btf_kflag_def)
  have "cr_kind ex_relo = BPF_CORE_FIELD_BYTE_OFFSET" "(ex_kernel, 3) \<in> set [(ex_kernel, 3 :: u32)]" by (simp_all add: ex_relo_def)
  from relocated_access_is_field [OF ex_calc this(1) ex_patch m this(2) ex_match(4,3)] ex_match(1,2) nb
  obtain steps where d: "designates ex_kernel_spec 3 steps" "operand ex_patched 0 = ucast (sp_bit_offset ex_kernel_spec div 8)"
    by auto
  then have "steps = map step_of (sp_spec ex_kernel_spec)" by (simp add: designates_def)
  then show ?thesis using d by (simp add: ex_kernel_spec_def step_of_def)
qed

end
