(* ===== verification/Core_Limits.thy ===== *)
theory Core_Limits
  imports Core_Cands
begin

text \<open>
  Type information that passes validation and is nevertheless outside of what the matching code takes: one example for each
  hypothesis of the theorems on relocations, and one for splits on splits.
\<close>

section \<open>Validation accepts too much\<close>

text \<open>A typedef of itself is accepted; skipping typedefs then never returns.\<close>

definition typedef_cycle :: btf where
  "typedef_cycle = Btf None 1 0 [\<lparr>bt_name_off = 1, bt_info = 0x08000000, bt_size_type = 1, bt_rest = []\<rparr>] [0, 0x74, 0] 0 False"

lemma typedef_cycle_loops: "skip_mods_and_typedefs typedef_cycle 1 = None"
proof (rule ccontr)
  assume "skip_mods_and_typedefs typedef_cycle 1 \<noteq> None"
  then obtain r where "skip_mods_and_typedefs typedef_cycle 1 = Some r" by blast
  moreover have "i \<noteq> 1 \<or> b \<noteq> typedef_cycle" if "skip_mods_and_typedefs b i = Some r" for b i r
    using _ that
  proof (rule skip_mods_and_typedefs.raw_induct)
    fix f b i r
    assume IH: "\<And>b i r. f b i = Some r \<Longrightarrow> i \<noteq> 1 \<or> b \<noteq> typedef_cycle"
      and s: "(case btf__type_by_id b i of None \<Rightarrow> None
        | Some t \<Rightarrow> if btf_is_mod t \<or> btf_kind t = BTF_KIND_TYPEDEF then f b (bt_size_type t) else Some (t, i)) = Some r"
    have t: "btf__type_by_id typedef_cycle 1 = Some \<lparr>bt_name_off = 1, bt_info = 0x08000000, bt_size_type = 1, bt_rest = []\<rparr>"
      "btf_kind \<lparr>bt_name_off = 1, bt_info = 0x08000000, bt_size_type = 1, bt_rest = []\<rparr> = BTF_KIND_TYPEDEF" by code_simp+
    show "i \<noteq> 1 \<or> b \<noteq> typedef_cycle" using s t IH [of typedef_cycle 1 r] by auto
  qed
  ultimately show False by blast
qed

lemma typedef_cycle_accepted: "btf_sanity_check typedef_cycle = Some 0 \<and> skip_mods_and_typedefs typedef_cycle 1 = None"
proof -
  have "btf_sanity_check typedef_cycle = Some 0" by code_simp
  then show ?thesis using typedef_cycle_loops by blast
qed

text \<open>The return type of a prototype is not looked at; the compatibility check follows it.\<close>

definition proto_no_return :: btf where
  "proto_no_return = Btf None 1 0 [\<lparr>bt_name_off = 0, bt_info = 0x0d000000, bt_size_type = 99, bt_rest = []\<rparr>] [0] 0 False"

lemma proto_return_unchecked:
  "btf_sanity_check proto_no_return = Some 0 \<and> bpf_core_types_are_compat proto_no_return 1 proto_no_return 1 = None"
proof -
  have "btf_sanity_check proto_no_return = Some 0" by code_simp
  moreover have "bpf_core_types_are_compat proto_no_return 1 proto_no_return 1 = None" by code_simp
  ultimately show ?thesis by blast
qed

section \<open>Access strings\<close>

text \<open>The index in \<open>"0:-1"\<close> is below the number of members, and is used.\<close>

lemma negative_index_outside:
  "bpf_core_parse_spec (Btf None 1 0 (btf_types ex_local) (ex_strs @ map of_char ''0:-1'' @ [0]) 0 False)
     \<lparr>cr_type_id = 2, cr_access_str_off = 15, cr_kind = BPF_CORE_FIELD_BYTE_OFFSET\<rparr> = None"
  by code_simp

section \<open>Bit fields\<close>

text \<open>A bit field whose type is \<open>void *\<close>, taken to have \<open>size\<close> 0 because the word is the type pointed to.\<close>

definition pointer_bits :: bpf_core_spec where
  "pointer_bits = ex_bits\<lparr>sp_btf := Btf None 1 0 [\<lparr>bt_name_off = 0, bt_info = 0x02000000, bt_size_type = 0, bt_rest = []\<rparr>,
     \<lparr>bt_name_off = 1, bt_info = 0x84000001, bt_size_type = 8, bt_rest = [3, 1, 0x03000005]\<rparr>] [0, 0x73, 0, 0x78, 0] 0 False\<rparr>"

lemma pointer_bits_divide_by_zero:
  "btf_sanity_check (sp_btf pointer_bits) = Some 0 \<and>
   bpf_core_calc_field_relo True BPF_CORE_FIELD_BYTE_OFFSET (Some pointer_bits) = None"
proof -
  have "btf_sanity_check (sp_btf pointer_bits) = Some 0" by code_simp
  moreover have "bpf_core_calc_field_relo True BPF_CORE_FIELD_BYTE_OFFSET (Some pointer_bits) = None" by code_simp
  ultimately show ?thesis by blast
qed

section \<open>A split on a split\<close>

text \<open>
  The strings of an object on top of a split one start after the strings of the split part alone, without those of the
  base below it: the name at offset 3 of the second object here is another string for the third.
\<close>

definition split_base :: btf where
  "split_base = Btf None 1 0 [] [0, 0x61, 0] 0 False"

definition split_once :: btf where
  "split_once = Btf (Some split_base) 1 3 [] [0x62, 0] 0 False"

lemma split_string_offset:
  "btf_new le c m grow raw (Some b) = Some (Inr b') \<Longrightarrow> start_str_off b' = length (btf_strs b)"
  by (auto simp: btf_new_def Let_def split: bind_splits if_splits sum.splits)

lemma split_on_split_names:
  assumes "btf_new le c m grow raw (Some split_once) = Some (Inr b)"
  shows "btf__str_by_offset split_once 3 = Some (Some [0x62]) \<and>
    btf__str_by_offset b 3 = (if 1 < length (btf_strs b) then map_option Some (c_string (drop 1 (btf_strs b))) else Some None)"
proof -
  have "length (btf_strs split_once) = 2" "btf__str_by_offset split_once 3 = Some (Some [0x62])" by code_simp+
  then show ?thesis using split_string_offset [OF assms] by (cases b) simp
qed

end
