(* ===== verification/Access_Log.thy ===== *)
theory Access_Log
  imports Ringbuf Config
begin

text \<open>
  The access log, \<open>src/logger/AccessLogWriter.cpp\<close> with its header and \<open>LogManager.h\<close>: a thread polls the ring buffer
  that the filter fills, collects the records in a buffer and writes them as lines of text when the buffer is full or
  old. The logging library is the record \<open>spdlog\<close> over an abstract state of a logger; the readings of the two clocks,
  the outcomes of allocations, and what each poll finds (the events, the positions and record headers, and the bytes of
  the data area, which is mapped twice in a row) are arguments. Messages to the console are left out.
\<close>

section \<open>Buffer\<close>

abbreviation DEFAULT_LOG_ACCESS :: string where "DEFAULT_LOG_ACCESS \<equiv> ''/var/log/ebpf/access.log''"
definition DEFAULT_LOG_ACCESS_BUFFER_SIZE :: nat where "DEFAULT_LOG_ACCESS_BUFFER_SIZE = 100"
definition DEFAULT_LOG_ACCESS_TIMEOUT_MS :: int where "DEFAULT_LOG_ACCESS_TIMEOUT_MS = 1000"

record 'g spdlog =
  log_info :: "'g \<Rightarrow> string \<Rightarrow> 'g"
  log_error :: "'g \<Rightarrow> string \<Rightarrow> 'g"
  strerror :: "int \<Rightarrow> string"

text \<open>Reading \<open>k\<close> of the system clock or of the steady clock, in nanoseconds.\<close>

record clocks =
  system_now :: "nat \<Rightarrow> int"
  steady_now :: "nat \<Rightarrow> int"

record LogEntry =
  le_timestamp :: int
  le_ip :: u32
  le_bytes :: u32
  le_is_passed :: u32

text \<open>\<open>bc_capacity\<close> is the space the vector has reserved, \<open>bc_ticks\<close> the number of clock readings so far, \<open>bc_data\<close> the
  data area of the ring buffer as the current poll sees it.\<close>

record 'g BufferContext =
  bc_buffer :: "LogEntry list"
  bc_capacity :: nat
  bc_buffer_size :: nat
  bc_timeout :: int
  bc_lastWrite :: int
  bc_logger :: 'g
  bc_ticks :: nat
  bc_data :: "u64 \<Rightarrow> u8"

definition new_BufferContext :: "clocks \<Rightarrow> nat \<Rightarrow> int \<Rightarrow> 'g \<Rightarrow> nat \<Rightarrow> 'g BufferContext" where
  "new_BufferContext clk sz timeout_ms g k =
     \<lparr>bc_buffer = [], bc_capacity = sz, bc_buffer_size = sz, bc_timeout = timeout_ms * 1000000,
      bc_lastWrite = steady_now clk k, bc_logger = g, bc_ticks = Suc k, bc_data = (\<lambda>a. 0)\<rparr>"

text \<open>\<open>inet_ntop\<close> of an address as it is in memory, and a signed number in decimal.\<close>

definition inet_ntop :: "bool \<Rightarrow> u32 \<Rightarrow> string" where
  "inet_ntop le ip = (let b = bytes32 le ip in ip_text (b ! 0, b ! 1, b ! 2, b ! 3))"

definition dec_int :: "int \<Rightarrow> string" where
  "dec_int v = (if v < 0 then CHR ''-'' # dec (nat (- v)) else dec (nat v))"

definition entry_line :: "bool \<Rightarrow> LogEntry \<Rightarrow> string" where
  "entry_line le e = dec_int (le_timestamp e) @ '' '' @ inet_ntop le (le_ip e) @ '' '' @ dec (unat (le_bytes e)) @ '' '' @
     (if le_is_passed e \<noteq> 0 then ''PASS'' else ''DROP'')"

definition flush :: "'g spdlog \<Rightarrow> bool \<Rightarrow> clocks \<Rightarrow> 'g BufferContext \<Rightarrow> 'g BufferContext" where
  "flush lib le clk c =
     (if bc_buffer c = [] then c
      else c\<lparr>bc_logger := fold (\<lambda>e g. log_info lib g (entry_line le e)) (bc_buffer c) (bc_logger c), bc_buffer := [],
             bc_lastWrite := steady_now clk (bc_ticks c), bc_ticks := Suc (bc_ticks c)\<rparr>)"

section \<open>Records\<close>

text \<open>The record at an offset of the data area; the size that the callback is given is not looked at.\<close>

definition log_at :: "bool \<Rightarrow> (u64 \<Rightarrow> u8) \<Rightarrow> u64 \<Rightarrow> packet_logs" where
  "log_at le d a = \<lparr>log_ip = join32 le (d a) (d (a + 1)) (d (a + 2)) (d (a + 3)),
     log_bytes = join32 le (d (a + 4)) (d (a + 5)) (d (a + 6)) (d (a + 7)),
     log_is_passed = join32 le (d (a + 8)) (d (a + 9)) (d (a + 10)) (d (a + 11))\<rparr>"

definition entry_of :: "int \<Rightarrow> packet_logs \<Rightarrow> LogEntry" where
  "entry_of ns l = \<lparr>le_timestamp = ns, le_ip = log_ip l, le_bytes = log_bytes l, le_is_passed = log_is_passed l\<rparr>"

text \<open>\<open>alloc n\<close> is whether the vector can grow beyond \<open>n\<close> elements; the exception of a failure is caught.\<close>

definition handle_log_event :: "'g spdlog \<Rightarrow> bool \<Rightarrow> clocks \<Rightarrow> (nat \<Rightarrow> bool) \<Rightarrow> 'g BufferContext \<Rightarrow> u64 \<Rightarrow> u64 \<Rightarrow>
    int \<times> 'g BufferContext" where
  "handle_log_event lib le clk alloc c data len =
     (let log = log_at le (bc_data c) data;
          ns = system_now clk (bc_ticks c);
          c = c\<lparr>bc_ticks := Suc (bc_ticks c)\<rparr>
      in if bc_capacity c \<le> length (bc_buffer c) \<and> \<not> alloc (length (bc_buffer c)) then (0, c)
         else
           let c = c\<lparr>bc_buffer := bc_buffer c @ [entry_of ns log],
                     bc_capacity := max (bc_capacity c) (Suc (length (bc_buffer c)))\<rparr>;
               full = (bc_buffer_size c \<le> length (bc_buffer c));
               timeout = (bc_timeout c < steady_now clk (bc_ticks c) - bc_lastWrite c);
               c = c\<lparr>bc_ticks := Suc (bc_ticks c)\<rparr>
           in (0, if full \<or> timeout then flush lib le clk c else c))"

section \<open>The thread\<close>

record poll_round =
  pr_ready :: "int + nat list"
  pr_envs :: "nat \<Rightarrow> ring_env"
  pr_data :: "u64 \<Rightarrow> u8"

text \<open>All rings have a pointer to the one context.\<close>

definition with_ctx :: "('c \<Rightarrow> 'c) \<Rightarrow> 'c ring_buffer \<Rightarrow> 'c ring_buffer" where
  "with_ctx f rb = rb\<lparr>rb_rings := map (\<lambda>r. r\<lparr>r_ctx := f (r_ctx r)\<rparr>) (rb_rings rb)\<rparr>"

definition flush_if_old :: "'g spdlog \<Rightarrow> bool \<Rightarrow> clocks \<Rightarrow> 'g BufferContext \<Rightarrow> 'g BufferContext" where
  "flush_if_old lib le clk c =
     (let old = (bc_timeout c < steady_now clk (bc_ticks c) - bc_lastWrite c);
          c = c\<lparr>bc_ticks := Suc (bc_ticks c)\<rparr>
      in if old \<and> bc_buffer c \<noteq> [] then flush lib le clk c else c)"

text \<open>The loop: it is told to exit when the rounds are used up.\<close>

fun process_loop :: "nat \<Rightarrow> 'g spdlog \<Rightarrow> bool \<Rightarrow> clocks \<Rightarrow> poll_round list \<Rightarrow> 'g BufferContext ring_buffer \<Rightarrow>
    'g BufferContext ring_buffer option" where
  "process_loop fuel lib le clk [] rb = Some rb"
| "process_loop fuel lib le clk (p # ps) rb =
     (case ring_buffer__poll fuel (pr_envs p) (pr_ready p) (with_ctx (\<lambda>c. c\<lparr>bc_data := pr_data p\<rparr>) rb) of
        None \<Rightarrow> None
      | Some (err, rb) \<Rightarrow>
          if err < 0 \<and> err \<noteq> - EINTR
          then Some (with_ctx (\<lambda>c. c\<lparr>bc_logger := log_error lib (bc_logger c) (''ring_buffer poll error '' @ strerror lib (- err))\<rparr>) rb)
          else process_loop fuel lib le clk ps (with_ctx (flush_if_old lib le clk) rb))"

text \<open>\<open>LogManager::getLogger\<close>: the logger of a name, made when it is first asked for; \<open>None\<close> is the exception of the library.\<close>

definition getLogger :: "(string \<Rightarrow> 'g option) \<Rightarrow> (string \<rightharpoonup> 'g) \<Rightarrow> string \<Rightarrow> ('g \<times> (string \<rightharpoonup> 'g)) option" where
  "getLogger create m_loggers name =
     (case m_loggers name of
        Some g \<Rightarrow> Some (g, m_loggers)
      | None \<Rightarrow> map_option (\<lambda>g. (g, m_loggers(name \<mapsto> g))) (create name))"

text \<open>The result is the table of loggers and what the thread still holds; \<open>reserve_ok\<close> is whether the buffer could be
  reserved.\<close>

definition process :: "nat \<Rightarrow> 'g spdlog \<Rightarrow> bool \<Rightarrow> clocks \<Rightarrow> (nat \<Rightarrow> bool) \<Rightarrow> (string \<Rightarrow> 'g option) \<Rightarrow> bool \<Rightarrow> rb_os \<Rightarrow> bool \<Rightarrow>
    u64 \<Rightarrow> int \<Rightarrow> (string \<rightharpoonup> 'g) \<Rightarrow> poll_round list \<Rightarrow> resources \<Rightarrow> ((string \<rightharpoonup> 'g) \<times> resources) option" where
  "process fuel lib le clk alloc create reserve_ok os calloc_ok cons0 map_fd m_loggers ps rs =
     (case getLogger create m_loggers DEFAULT_LOG_ACCESS of
        None \<Rightarrow> Some (m_loggers, rs)
      | Some (g, m_loggers) \<Rightarrow>
          if \<not> reserve_ok then Some (m_loggers, rs)
          else
            let ctx = new_BufferContext clk DEFAULT_LOG_ACCESS_BUFFER_SIZE DEFAULT_LOG_ACCESS_TIMEOUT_MS g 0
            in case ring_buffer__new os True calloc_ok map_fd (handle_log_event lib le clk alloc) ctx cons0 rs of
                 (Inl e, rs) \<Rightarrow> Some (m_loggers(DEFAULT_LOG_ACCESS \<mapsto> log_error lib g ''Could not create ring buffer''), rs)
               | (Inr rb, rs) \<Rightarrow>
                   (case process_loop fuel lib le clk ps rb of
                      None \<Rightarrow> None
                    | Some rb \<Rightarrow>
                        Some (m_loggers(DEFAULT_LOG_ACCESS \<mapsto> bc_logger (flush lib le clk (r_ctx (rb_rings rb ! 0)))),
                              ring_buffer__free (Some rb) rs)))"

section \<open>The writer\<close>

record AccessLogWriter =
  exiting :: bool
  worker :: bool
  map_fd_packet_ringbuf :: int

definition new_AccessLogWriter :: AccessLogWriter where
  "new_AccessLogWriter = \<lparr>exiting = False, worker = False, map_fd_packet_ringbuf = - 1\<rparr>"

text \<open>\<open>worker\<close> is whether the thread can be joined; assigning to a thread that can be ends the program, \<open>None\<close>.\<close>

definition startLogListener :: "(string \<rightharpoonup> int) \<Rightarrow> AccessLogWriter \<Rightarrow> AccessLogWriter option" where
  "startLogListener tbl w =
     (let w = w\<lparr>map_fd_packet_ringbuf := get_map_fd_by_name tbl ''packet_ringbuf''\<rparr>
      in if map_fd_packet_ringbuf w < 0 then Some w
         else if worker w then None
         else Some (w\<lparr>worker := True\<rparr>))"

definition stopLogListener :: "AccessLogWriter \<Rightarrow> AccessLogWriter" where
  "stopLogListener w = w\<lparr>exiting := True, worker := False\<rparr>"

section \<open>Every record is written\<close>

text \<open>The entries \<open>xs\<close> received so far are those written to the logger, which was \<open>g0\<close>, and then those in the buffer, which
  has room for one more without an allocation.\<close>

definition written :: "'g spdlog \<Rightarrow> bool \<Rightarrow> 'g \<Rightarrow> LogEntry list \<Rightarrow> 'g" where
  "written lib le g0 xs = fold (\<lambda>e g. log_info lib g (entry_line le e)) xs g0"

definition ctx_ok :: "'g spdlog \<Rightarrow> bool \<Rightarrow> 'g \<Rightarrow> 'g BufferContext \<Rightarrow> LogEntry list \<Rightarrow> bool" where
  "ctx_ok lib le g0 c xs \<longleftrightarrow> length (bc_buffer c) < bc_buffer_size c \<and> bc_buffer_size c \<le> bc_capacity c \<and>
     (\<exists>ys. xs = ys @ bc_buffer c \<and> bc_logger c = written lib le g0 ys)"

lemma written_append [simp]: "written lib le g0 (xs @ ys) = written lib le (written lib le g0 xs) ys"
  by (simp add: written_def)

lemma flush_ok:
  assumes "xs = ys @ bc_buffer c" "bc_logger c = written lib le g0 ys" "0 < bc_buffer_size c" "bc_buffer_size c \<le> bc_capacity c"
  shows "ctx_ok lib le g0 (flush lib le clk c) xs \<and> bc_buffer (flush lib le clk c) = [] \<and>
    bc_logger (flush lib le clk c) = written lib le g0 xs \<and> bc_data (flush lib le clk c) = bc_data c"
  using assms by (auto simp: flush_def ctx_ok_def written_def)

lemma flush_if_old_ok:
  assumes "ctx_ok lib le g0 c xs"
  shows "ctx_ok lib le g0 (flush_if_old lib le clk c) xs"
proof -
  obtain ys where ys: "xs = ys @ bc_buffer c" "bc_logger c = written lib le g0 ys" using assms by (auto simp: ctx_ok_def)
  let ?c = "c\<lparr>bc_ticks := Suc (bc_ticks c)\<rparr>"
  have "ctx_ok lib le g0 ?c xs" using assms by (simp add: ctx_ok_def)
  moreover have "ctx_ok lib le g0 (flush lib le clk ?c) xs"
    using flush_ok [of xs ys ?c lib le g0 clk] ys assms by (simp add: ctx_ok_def)
  ultimately show ?thesis by (simp add: flush_if_old_def Let_def)
qed

lemma handle_ok:
  assumes "ctx_ok lib le g0 c xs"
  shows "\<exists>c' k. handle_log_event lib le clk alloc c a len = (0, c') \<and> bc_data c' = bc_data c \<and>
    ctx_ok lib le g0 c' (xs @ [entry_of (system_now clk k) (log_at le (bc_data c) a)])"
proof -
  let ?e = "entry_of (system_now clk (bc_ticks c)) (log_at le (bc_data c) a)"
  let ?c = "c\<lparr>bc_buffer := bc_buffer c @ [?e], bc_capacity := max (bc_capacity c) (Suc (length (bc_buffer c))),
    bc_ticks := Suc (Suc (bc_ticks c))\<rparr>"
  obtain ys where ys: "xs = ys @ bc_buffer c" "bc_logger c = written lib le g0 ys"
    and len: "length (bc_buffer c) < bc_buffer_size c" "bc_buffer_size c \<le> bc_capacity c" using assms by (auto simp: ctx_ok_def)
  have f: "ctx_ok lib le g0 (flush lib le clk ?c) (xs @ [?e])" "bc_data (flush lib le clk ?c) = bc_data c"
    using flush_ok [of "xs @ [?e]" ys ?c lib le g0 clk] ys len by auto
  have k: "ctx_ok lib le g0 ?c (xs @ [?e])" if "\<not> bc_buffer_size c \<le> length (bc_buffer c @ [?e])"
    using that ys len by (auto simp: ctx_ok_def)
  have h: "handle_log_event lib le clk alloc c a len =
      (0, if bc_buffer_size c \<le> length (bc_buffer c @ [?e]) \<or> bc_timeout c < steady_now clk (Suc (bc_ticks c)) - bc_lastWrite c
          then flush lib le clk ?c else ?c)"
    using len by (simp add: handle_log_event_def Let_def)
  show ?thesis unfolding h using f k by auto
qed

lemma deliver_ok:
  assumes "ctx_ok lib le g0 c xs"
  shows "\<exists>ts. length ts = length ss \<and> set ts \<subseteq> range (system_now clk) \<and>
    bc_data (deliver (handle_log_event lib le clk alloc) c ss) = bc_data c \<and>
    ctx_ok lib le g0 (deliver (handle_log_event lib le clk alloc) c ss)
      (xs @ map2 entry_of ts (map (\<lambda>(a, len). log_at le (bc_data c) a) ss))"
  using assms
proof (induction ss arbitrary: c xs)
  case Nil
  then show ?case by (simp add: deliver_def)
next
  case (Cons s ss)
  obtain a len where s: "s = (a, len)" by (cases s)
  obtain c' k where h: "handle_log_event lib le clk alloc c a len = (0, c')" "bc_data c' = bc_data c"
    "ctx_ok lib le g0 c' (xs @ [entry_of (system_now clk k) (log_at le (bc_data c) a)])" using handle_ok [OF Cons.prems] by blast
  have d: "deliver (handle_log_event lib le clk alloc) c (s # ss) = deliver (handle_log_event lib le clk alloc) c' ss"
    by (simp add: deliver_def s h(1))
  obtain ts where ts: "length ts = length ss" "set ts \<subseteq> range (system_now clk)"
    "bc_data (deliver (handle_log_event lib le clk alloc) c' ss) = bc_data c'"
    "ctx_ok lib le g0 (deliver (handle_log_event lib le clk alloc) c' ss)
      ((xs @ [entry_of (system_now clk k) (log_at le (bc_data c) a)]) @ map2 entry_of ts (map (\<lambda>(a, len). log_at le (bc_data c') a) ss))"
    using Cons.IH [OF h(3)] by blast
  then show ?case unfolding d using h(2) by (intro exI [of _ "system_now clk k # ts"]) (auto simp: s)
qed


text \<open>
  What the rounds of the thread find in a ring: a poll that was interrupted or found nothing, or one that found the committed
  records with the headers \<open>hs\<close>. The records that arrive are read from the data area of their round.
\<close>

fun feeds :: "'c ring \<Rightarrow> (poll_round \<times> u32 list) list \<Rightarrow> bool" where
  "feeds r [] = True"
| "feeds r ((p, hs) # ps) =
     (if pr_ready p = Inl EINTR \<or> pr_ready p = Inr [] then hs = [] \<and> feeds r ps
      else pr_ready p = Inr [0] \<and> published (pr_envs p 0) r hs \<and> list_all (\<lambda>h. \<not> is_busy h) hs \<and>
        feeds (r\<lparr>r_consumer_pos := ring_end hs (r_consumer_pos r)\<rparr>) ps)"

fun arrived :: "bool \<Rightarrow> u64 \<Rightarrow> u64 \<Rightarrow> (poll_round \<times> u32 list) list \<Rightarrow> packet_logs list" where
  "arrived le msk pos [] = []"
| "arrived le msk pos ((p, hs) # ps) =
     map (\<lambda>(a, len). log_at le (pr_data p) a) (samples msk pos hs) @ arrived le msk (ring_end hs pos) ps"

lemma feeds_cong: "r_mask r' = r_mask r \<Longrightarrow> r_consumer_pos r' = r_consumer_pos r \<Longrightarrow> feeds r' ps = feeds r ps"
proof (induction ps arbitrary: r r')
  case (Cons q ps)
  obtain p hs where q: "q = (p, hs)" by (cases q)
  have "feeds (r'\<lparr>r_consumer_pos := v\<rparr>) ps = feeds (r\<lparr>r_consumer_pos := v\<rparr>) ps" for v
    using Cons.IH [of "r'\<lparr>r_consumer_pos := v\<rparr>" "r\<lparr>r_consumer_pos := v\<rparr>"] Cons.prems by simp
  then show ?case using Cons.IH [of r' r] Cons.prems by (simp add: q published_def)
qed simp

lemma handle_not_negative: "0 \<le> fst (handle_log_event lib le clk alloc c a len)"
  by (simp add: handle_log_event_def Let_def)

lemma poll_delivers:
  assumes "published (envs 0) r hs" "list_all (\<lambda>h. \<not> is_busy h) hs" "\<forall>c a len. 0 \<le> fst (r_sample_cb r c a len)"
    "length hs + 2 < fuel" "length hs < 2147483647" "rb_rings rb = [r]"
  shows "ring_buffer__poll fuel envs (Inr [0]) rb =
    Some (int (length (samples (r_mask r) (r_consumer_pos r) hs)),
      rb\<lparr>rb_rings := [r\<lparr>r_ctx := deliver (r_sample_cb r) (r_ctx r) (samples (r_mask r) (r_consumer_pos r) hs),
        r_consumer_pos := ring_end hs (r_consumer_pos r)\<rparr>]\<rparr>)"
proof -
  let ?n = "of_int INT_MAX :: u64" and ?ss = "samples (r_mask r) (r_consumer_pos r) hs"
  have n: "unat ?n = 2147483647" by (simp add: INT_MAX_def)
  have "length ?ss \<le> length hs" by (rule samples_length)
  then have "unat (0 :: u64) + length ?ss < unat ?n" "length ?ss < 2147483647" using assms(5) n by simp_all
  then have "drain (r_sample_cb r) (r_mask r) ?n hs (r_consumer_pos r) 0 (r_ctx r) =
      (True, int (length ?ss), ring_end hs (r_consumer_pos r), deliver (r_sample_cb r) (r_ctx r) ?ss)"
    using drain_delivers [of hs "r_sample_cb r" 0 "r_mask r" "r_consumer_pos r" ?n "r_ctx r"] assms(2,3) by (simp add: list_all_iff)
  then have "ringbuf_process_ring fuel (envs 0) r ?n = Some (int (length ?ss),
      r\<lparr>r_ctx := deliver (r_sample_cb r) (r_ctx r) ?ss, r_consumer_pos := ring_end hs (r_consumer_pos r)\<rparr>)"
    using process_ring_drain [OF assms(1,4), of ?n] by simp
  then show ?thesis using assms(6) \<open>length ?ss < 2147483647\<close> by (simp add: ring_buffer__poll_def INT_MAX_def)
qed

lemma with_ctx_ring [simp]: "rb_rings (with_ctx f rb) = map (\<lambda>r. r\<lparr>r_ctx := f (r_ctx r)\<rparr>) (rb_rings rb)"
  by (simp add: with_ctx_def)

lemma process_loop_ok:
  assumes "rb_rings rb = [r]" "feeds r ps" "r_sample_cb r = handle_log_event lib le clk alloc" "ctx_ok lib le g0 (r_ctx r) xs"
    "list_all (\<lambda>(p, hs). length hs + 2 < fuel \<and> length hs < 2147483647) ps"
  shows "\<exists>rb' r' ts. process_loop fuel lib le clk (map fst ps) rb = Some rb' \<and> rb_rings rb' = [r'] \<and>
    set ts \<subseteq> range (system_now clk) \<and> length ts = length (arrived le (r_mask r) (r_consumer_pos r) ps) \<and>
    ctx_ok lib le g0 (r_ctx r') (xs @ map2 entry_of ts (arrived le (r_mask r) (r_consumer_pos r) ps)) \<and>
    ring_buffer__free (Some rb') = ring_buffer__free (Some rb)"
  using assms
proof (induction ps arbitrary: rb r xs)
  case Nil
  then show ?case by (intro exI [of _ rb] exI [of _ r] exI [of _ "[]"]) simp
next
  case (Cons q ps)
  obtain p hs where q: "q = (p, hs)" by (cases q)
  let ?d = "\<lambda>c. c\<lparr>bc_data := pr_data p\<rparr>" and ?cb = "handle_log_event lib le clk alloc"
  let ?r = "r\<lparr>r_ctx := ?d (r_ctx r)\<rparr>" and ?rb = "with_ctx ?d rb" and ?ss = "samples (r_mask r) (r_consumer_pos r) hs"
  let ?recs = "map (\<lambda>(a, len). log_at le (pr_data p) a) ?ss"
  have c: "ctx_ok lib le g0 (?d (r_ctx r)) xs" using Cons.prems(4) by (simp add: ctx_ok_def)
  have rb: "rb_rings ?rb = [?r]" using Cons.prems(1) by simp
  have poll: "\<exists>err c' ts. ring_buffer__poll fuel (pr_envs p) (pr_ready p) ?rb =
      Some (err, ?rb\<lparr>rb_rings := [?r\<lparr>r_ctx := c', r_consumer_pos := ring_end hs (r_consumer_pos r)\<rparr>]\<rparr>) \<and> \<not> (err < 0 \<and> err \<noteq> - EINTR) \<and>
      length ts = length ?recs \<and> set ts \<subseteq> range (system_now clk) \<and> ctx_ok lib le g0 c' (xs @ map2 entry_of ts ?recs) \<and>
      feeds (r\<lparr>r_consumer_pos := ring_end hs (r_consumer_pos r)\<rparr>) ps"
  proof (cases "pr_ready p = Inl EINTR \<or> pr_ready p = Inr []")
    case True
    then have hs: "hs = []" "feeds r ps" using Cons.prems(2) q by auto
    have "?rb\<lparr>rb_rings := [?r]\<rparr> = ?rb" using rb by simp
    then show ?thesis using True hs c rb
      by (intro exI [of _ "if pr_ready p = Inr [] then 0 else - EINTR"] exI [of _ "?d (r_ctx r)"] exI [of _ "[]"])
        (auto simp: ring_buffer__poll_def INT_MAX_def)
  next
    case False
    then have f: "pr_ready p = Inr [0]" "published (pr_envs p 0) r hs" "list_all (\<lambda>h. \<not> is_busy h) hs"
      "feeds (r\<lparr>r_consumer_pos := ring_end hs (r_consumer_pos r)\<rparr>) ps" using Cons.prems(2) q by auto
    have "published (pr_envs p 0) ?r hs" using f(2) by (simp add: published_def)
    then have *: "ring_buffer__poll fuel (pr_envs p) (pr_ready p) ?rb = Some (int (length ?ss),
        ?rb\<lparr>rb_rings := [?r\<lparr>r_ctx := deliver ?cb (?d (r_ctx r)) ?ss, r_consumer_pos := ring_end hs (r_consumer_pos r)\<rparr>]\<rparr>)"
      using poll_delivers [of "pr_envs p" ?r hs fuel ?rb] f(1,3) rb Cons.prems(3,5) q by (simp add: handle_not_negative)
    obtain ts where "length ts = length ?ss" "set ts \<subseteq> range (system_now clk)"
      "ctx_ok lib le g0 (deliver ?cb (?d (r_ctx r)) ?ss) (xs @ map2 entry_of ts ?recs)" using deliver_ok [OF c, of ?ss clk alloc] by auto
    then show ?thesis using * f(4) by (intro exI conjI) auto
  qed
  then obtain err c' ts where p: "ring_buffer__poll fuel (pr_envs p) (pr_ready p) ?rb =
      Some (err, ?rb\<lparr>rb_rings := [?r\<lparr>r_ctx := c', r_consumer_pos := ring_end hs (r_consumer_pos r)\<rparr>]\<rparr>)" "\<not> (err < 0 \<and> err \<noteq> - EINTR)"
    "length ts = length ?recs" "set ts \<subseteq> range (system_now clk)" "ctx_ok lib le g0 c' (xs @ map2 entry_of ts ?recs)"
    "feeds (r\<lparr>r_consumer_pos := ring_end hs (r_consumer_pos r)\<rparr>) ps" by (elim exE conjE) (rule that, assumption+)
  let ?r' = "?r\<lparr>r_ctx := flush_if_old lib le clk c', r_consumer_pos := ring_end hs (r_consumer_pos r)\<rparr>"
  let ?rb' = "with_ctx (flush_if_old lib le clk) (?rb\<lparr>rb_rings := [?r\<lparr>r_ctx := c', r_consumer_pos := ring_end hs (r_consumer_pos r)\<rparr>]\<rparr>)"
  have "feeds ?r' ps" using p(6) feeds_cong [of ?r' "r\<lparr>r_consumer_pos := ring_end hs (r_consumer_pos r)\<rparr>"] by simp
  from Cons.IH [of ?rb' ?r', OF _ this, of "xs @ map2 entry_of ts ?recs"]
  obtain rb'' r'' ts' where IH: "process_loop fuel lib le clk (map fst ps) ?rb' = Some rb''" "rb_rings rb'' = [r'']"
    "set ts' \<subseteq> range (system_now clk)" "length ts' = length (arrived le (r_mask r) (ring_end hs (r_consumer_pos r)) ps)"
    "ctx_ok lib le g0 (r_ctx r'') ((xs @ map2 entry_of ts ?recs) @ map2 entry_of ts' (arrived le (r_mask r) (ring_end hs (r_consumer_pos r)) ps))"
    "ring_buffer__free (Some rb'') = ring_buffer__free (Some ?rb')"
    using Cons.prems(3,5) flush_if_old_ok [OF p(5)] by auto
  have "ring_buffer__free (Some ?rb') = ring_buffer__free (Some rb)"
    using Cons.prems(1) by (intro ext) (simp add: ring_buffer__free_def with_ctx_def ringbuf_free_ring_def Let_def split: option.split)
  moreover have "process_loop fuel lib le clk (map fst (q # ps)) rb = Some rb''" using p(1,2) IH(1) by (auto simp: q)
  moreover have "map2 entry_of (ts @ ts') (arrived le (r_mask r) (r_consumer_pos r) (q # ps)) =
      map2 entry_of ts ?recs @ map2 entry_of ts' (arrived le (r_mask r) (ring_end hs (r_consumer_pos r)) ps)"
    using p(3) by (simp add: q)
  ultimately show ?case using IH p(3,4)
    by (intro exI [of _ rb''] exI [of _ r''] exI [of _ "ts @ ts'"]) (simp add: q)
qed


lemma new_ring:
  assumes "ring_buffer__new os opts_valid calloc_ok map_fd cb ctx cons0 rs = (Inr rb, rs')" "rb_rings rb = [r]"
  shows "r_sample_cb r = cb \<and> r_ctx r = ctx \<and> r_consumer_pos r = cons0"
  using assms
  by (auto simp: ring_buffer__new_def ring_buffer__add_def Let_def split: if_splits sum.splits prod.splits)

lemma process_writes:
  assumes "getLogger create m DEFAULT_LOG_ACCESS = Some (g, m')"
    "ring_buffer__new os True calloc_ok map_fd (handle_log_event lib le clk alloc)
       (new_BufferContext clk DEFAULT_LOG_ACCESS_BUFFER_SIZE DEFAULT_LOG_ACCESS_TIMEOUT_MS g 0) cons0 rs = (Inr rb, rs')"
    "os_sane os map_fd" "rb_rings rb = [r]" "feeds r ps"
    "list_all (\<lambda>(p, hs). length hs + 2 < fuel \<and> length hs < 2147483647) ps"
  shows "\<exists>ts. set ts \<subseteq> range (system_now clk) \<and> length ts = length (arrived le (r_mask r) cons0 ps) \<and>
    process fuel lib le clk alloc create True os calloc_ok cons0 map_fd m (map fst ps) rs =
      Some (m'(DEFAULT_LOG_ACCESS \<mapsto> written lib le g (map2 entry_of ts (arrived le (r_mask r) cons0 ps))), rs)"
proof -
  let ?c = "new_BufferContext clk DEFAULT_LOG_ACCESS_BUFFER_SIZE DEFAULT_LOG_ACCESS_TIMEOUT_MS g 0"
  have r: "r_sample_cb r = handle_log_event lib le clk alloc" "r_ctx r = ?c" "r_consumer_pos r = cons0"
    using new_ring [OF assms(2,4)] by auto
  have "ctx_ok lib le g ?c []" by (simp add: ctx_ok_def new_BufferContext_def DEFAULT_LOG_ACCESS_BUFFER_SIZE_def written_def)
  then obtain rb' r' ts where p: "process_loop fuel lib le clk (map fst ps) rb = Some rb'" "rb_rings rb' = [r']"
    "set ts \<subseteq> range (system_now clk)" "length ts = length (arrived le (r_mask r) cons0 ps)"
    "ctx_ok lib le g (r_ctx r') (map2 entry_of ts (arrived le (r_mask r) cons0 ps))"
    "ring_buffer__free (Some rb') = ring_buffer__free (Some rb)"
    using process_loop_ok [OF assms(4,5) r(1) _ assms(6), of g "[]"] r(2,3) by auto
  obtain ys where "map2 entry_of ts (arrived le (r_mask r) cons0 ps) = ys @ bc_buffer (r_ctx r')" "bc_logger (r_ctx r') = written lib le g ys"
    "0 < bc_buffer_size (r_ctx r')" "bc_buffer_size (r_ctx r') \<le> bc_capacity (r_ctx r')" using p(5) by (auto simp: ctx_ok_def)
  from flush_ok [OF this, of clk]
  have "bc_logger (flush lib le clk (r_ctx r')) = written lib le g (map2 entry_of ts (arrived le (r_mask r) cons0 ps))" by simp
  moreover have "ring_buffer__free (Some rb) rs' = rs" using ring_buffer_new_resources [OF assms(2,3)] by simp
  ultimately show ?thesis using p assms(1,2) by (intro exI [of _ ts]) (simp add: process_def Let_def)
qed

text \<open>C5. Every record of the ring buffer becomes one line of the access log, in order: while the thread runs, over any
  sequence of polls (some interrupted or empty) that find committed records, with any readings of the clocks and whichever
  allocations fail, it writes each record that was not discarded exactly once, whether the buffer fills up or grows old, and
  what is left when it is told to exit; then it has released the ring buffer. The buffer never needs an allocation.\<close>

theorem access_log_complete:
  assumes "getLogger create m DEFAULT_LOG_ACCESS = Some (g, m')"
    "ring_buffer__new os True calloc_ok map_fd (handle_log_event lib le clk alloc)
       (new_BufferContext clk DEFAULT_LOG_ACCESS_BUFFER_SIZE DEFAULT_LOG_ACCESS_TIMEOUT_MS g 0) cons0 rs = (Inr rb, rs')"
    "os_sane os map_fd" "rb_rings rb = [r]" "feeds r ps"
    "list_all (\<lambda>(p, hs). length hs + 2 < fuel \<and> length hs < 2147483647) ps"
  shows "\<exists>ts. set ts \<subseteq> range (system_now clk) \<and> length ts = length (arrived le (r_mask r) cons0 ps) \<and>
    process fuel lib le clk alloc create True os calloc_ok cons0 map_fd m (map fst ps) rs =
      Some (m'(DEFAULT_LOG_ACCESS \<mapsto> written lib le g (map2 entry_of ts (arrived le (r_mask r) cons0 ps))), rs)"
  using assms by (rule process_writes)


text \<open>One record, of a packet of 34 bytes from 10.1.2.3 that was passed, found by the second poll.\<close>

definition ex_bytes12 :: "u8 list" where
  "ex_bytes12 = [10, 1, 2, 3, 34, 0, 0, 0, 1, 0, 0, 0]"

definition ex_log_rounds :: "(poll_round \<times> u32 list) list" where
  "ex_log_rounds =
     [(\<lparr>pr_ready = Inl EINTR, pr_envs = (\<lambda>i. \<lparr>env_producer_pos = (\<lambda>k. 0), env_len = (\<lambda>k a. 0)\<rparr>), pr_data = (\<lambda>a. 0)\<rparr>, []),
      (\<lparr>pr_ready = Inr [0], pr_envs = (\<lambda>i. \<lparr>env_producer_pos = (\<lambda>k. 24), env_len = (\<lambda>k a. 12)\<rparr>),
        pr_data = (\<lambda>a. if 8 \<le> a \<and> a < 20 then ex_bytes12 ! unat (a - 8) else 0)\<rparr>, [12])]"

definition ex_log_os :: rb_os where
  "ex_log_os = \<lparr>os_map_info = (\<lambda>fd. Inr \<lparr>info_type = 27, info_max_entries = 4096\<rparr>),
     os_alloc = (\<lambda>_. True), os_mmap = (\<lambda>fd sz off. if off = 0 then Inr 65536 else Inr 131072),
     os_epoll_ctl_add = (\<lambda>_ _. 0), os_epoll_create1 = Inr 7, os_pagesize = 4096\<rparr>"

definition ex_spdlog :: "string list spdlog" where
  "ex_spdlog = \<lparr>log_info = (\<lambda>g s. g @ [s]), log_error = (\<lambda>g s. g @ [s]), strerror = (\<lambda>e. [])\<rparr>"

definition ex_clocks :: clocks where
  "ex_clocks = \<lparr>system_now = (\<lambda>k. 7), steady_now = (\<lambda>k. 0)\<rparr>"

lemma ex_arrived: "arrived True 4095 0 ex_log_rounds = [\<lparr>log_ip = join32 True 10 1 2 3, log_bytes = 34, log_is_passed = 1\<rparr>]"
  by (simp add: ex_log_rounds_def is_discarded_def BPF_RINGBUF_DISCARD_BIT_def log_at_def ex_bytes12_def join32_def)

lemma ex_line: "entry_line True (entry_of 7 \<lparr>log_ip = join32 True 10 1 2 3, log_bytes = 34, log_is_passed = 1\<rparr>) = ''7 10.1.2.3 34 PASS''"
  by code_simp

definition ex_log_cb :: "string list BufferContext \<Rightarrow> u64 \<Rightarrow> u64 \<Rightarrow> int \<times> string list BufferContext" where
  "ex_log_cb = handle_log_event ex_spdlog True ex_clocks (\<lambda>n. False)"

definition ex_log_ctx :: "string list BufferContext" where
  "ex_log_ctx = new_BufferContext ex_clocks DEFAULT_LOG_ACCESS_BUFFER_SIZE DEFAULT_LOG_ACCESS_TIMEOUT_MS [] 0"

definition ex_log_ring :: "string list BufferContext ring" where
  "ex_log_ring = \<lparr>r_sample_cb = ex_log_cb, r_ctx = ex_log_ctx, r_data = 131072 + 4096, r_consumer_page = Some 65536,
     r_producer_page = Some 131072, r_consumer_pos = 0, r_mask = 4095, r_map_fd = 3\<rparr>"

definition ex_log_resources :: resources where
  "ex_log_resources = \<lparr>res_maps = [], res_fds = [5]\<rparr>"

lemma ex_log_new: "\<exists>rb rs'. ring_buffer__new ex_log_os True True 3 ex_log_cb ex_log_ctx 0 ex_log_resources = (Inr rb, rs') \<and>
    rb_rings rb = [ex_log_ring]"
  by (simp add: ring_buffer__new_def ring_buffer__add_def ex_log_os_def Let_def BPF_MAP_TYPE_RINGBUF_def ex_log_ring_def)

lemma ex_log_feeds: "feeds ex_log_ring ex_log_rounds"
  by (simp add: ex_log_ring_def ex_log_rounds_def published_def roundup_len_def ring_bytes_def BPF_RINGBUF_HDR_SZ_def is_busy_def
      BPF_RINGBUF_BUSY_BIT_def)

lemma ex_log_ready:
  "os_sane ex_log_os 3" "list_all (\<lambda>(p, hs). length hs + 2 < 10 \<and> length hs < 2147483647) ex_log_rounds"
  "getLogger (\<lambda>name. Some []) Map.empty DEFAULT_LOG_ACCESS = Some ([], [DEFAULT_LOG_ACCESS \<mapsto> []])" "r_mask ex_log_ring = 4095"
  by (auto simp: os_sane_def ex_log_os_def ex_log_rounds_def getLogger_def ex_log_ring_def)

theorem access_log_complete_witness:
  "process 10 ex_spdlog True ex_clocks (\<lambda>n. False) (\<lambda>name. Some []) True ex_log_os True 0 3 Map.empty (map fst ex_log_rounds)
     ex_log_resources = Some ([DEFAULT_LOG_ACCESS \<mapsto> [''7 10.1.2.3 34 PASS'']], ex_log_resources)"
proof -
  obtain rb rs' where new: "ring_buffer__new ex_log_os True True 3 ex_log_cb ex_log_ctx 0 ex_log_resources = (Inr rb, rs')"
    "rb_rings rb = [ex_log_ring]" using ex_log_new by blast
  obtain ts where ts: "set ts \<subseteq> range (system_now ex_clocks)" "length ts = length (arrived True 4095 0 ex_log_rounds)"
    "process 10 ex_spdlog True ex_clocks (\<lambda>n. False) (\<lambda>name. Some []) True ex_log_os True 0 3 Map.empty (map fst ex_log_rounds)
       ex_log_resources =
      Some ([DEFAULT_LOG_ACCESS \<mapsto> written ex_spdlog True [] (map2 entry_of ts (arrived True 4095 0 ex_log_rounds))], ex_log_resources)"
    using access_log_complete [OF ex_log_ready(3) new(1) [unfolded ex_log_cb_def ex_log_ctx_def] ex_log_ready(1) new(2) ex_log_feeds
        ex_log_ready(2)] ex_log_ready(4) by auto
  then have "ts = [7]" by (cases ts) (auto simp: ex_arrived ex_clocks_def)
  then show ?thesis using ts(3) by (simp add: ex_arrived written_def ex_spdlog_def ex_line)
qed

end
