(* ===== verification/Spec2Isabelle.thy ===== *)
theory Spec2Isabelle
  imports Prelude Xdp_Filter Rate_Limit Config Event_Source Ringbuf User_Ringbuf Hashmap Strset
    Nlattr Netlink Netlink_Tc Netlink_Props Json_Writer Zip Linfo Cfg
    Btf Btf_Props Btf_Size Btf_Build Btf_Strings Btf_Refine Btf_Api Btf_Built Btf_Fields Btf_Iter Btf_Append
    Bpf_Insn Core_Relo Core_Patch Core_Bitfield Core_Match Core_Total Core_Cands Core_Limits
    Access_Log
begin

text \<open>
  A verification library for PacketFilter, an XDP packet filter with a C++ control plane, and for the parts of
  libbpf and bpftool it is built with. Paths below are relative to the repository.

  \<^bold>\<open>The program.\<close> The XDP program \<open>xdp_filter\<close> (\<open>src/packetfilter.bpf.c\<close>) runs in the kernel on every
  packet of an interface. It reads the switches, the whitelist, the blacklist and the rate limits from BPF maps,
  drops or passes the packet, keeps statistics and sends a record of every decision through a ring buffer, which
  \<open>AccessLogWriter\<close> turns into a log file. The control plane writes the maps: \<open>ConfigManager\<close> loads the configuration files and then listens, through
  \<open>FileEventSource\<close>, for lines appended to an event file; each line is an update that \<open>Blacklist\<close>,
  \<open>Whitelist\<close> or \<open>RateLimit\<close> parses and applies with the descriptors of \<open>MapFdManager\<close>. libbpf attaches
  the program to its interface with netlink messages and consumes the ring buffer; it uses the hash map, the
  string set, the archive reader and the line tables on the way, and adapts the program to the running kernel by
  relocating its field accesses against the kernel's type information. bpftool, which generates the skeleton of the
  program, prints what it inspects as JSON and as control-flow graphs.

  \<^bold>\<open>Theories.\<close>

  \<^item> \<open>Prelude\<close>: machine types, error numbers, loads and stores of either byte order, shared facts on words,
    lists and options.
  \<^item> \<open>Xdp_Filter\<close>: the records of the maps (\<open>bpf_maps\<close> is their joint state) and the whole program,
    \<open>is_config_enabled\<close>, \<open>log_drop\<close>, \<open>log_pass\<close>, \<open>xdp_filter\<close>. The kernel's map and ring-buffer helpers are the
    record \<open>bpf_kernel\<close>; the locale \<open>bpf_kernel_spec\<close> states the documented laws (longest-prefix match, array and
    hash update, reservations) and is interpreted on \<open>list_kernel\<close>, tries as lists of prefixes. Shown: the
    verdict on every packet (C1), the exact records, counters and slots after any run (\<open>records\<close>, C7), and the
    statistics of an address, counted from the first record for which the map has room (\<open>stat_events\<close>, C8).
  \<^item> \<open>Rate_Limit\<close>: runs of the filter under a monotone clock: passing packets of a limited address keep their
    distance (C6), and how many fit in a window (C9). A packet for which the ring has no slot, or
    whose first timestamp the map does not take, escapes the limiter; the statements name these (\<open>escapes\<close>) instead of excluding
    full rings and maps.
  \<^item> \<open>Config\<close>: \<open>config/type/*.cpp\<close>, \<open>ConfigManager.cpp\<close> and \<open>MapFdManager.cpp\<close>, from the text of an event to
    the update of a map, with the library functions they parse with. The abstract control state (three switches,
    two sets of prefixes, the limits) and its commands are refined by the events (C3); an update that fails
    changes nothing (C38); what subnets parse to (C39); limits too large to have an effect (\<open>ratelimit_huge_unlimited\<close>).
  \<^item> \<open>Event_Source\<close>: \<open>FileEventSource.cpp\<close>, its descriptors, its thread and its teardown (C40).
  \<^item> \<open>Access_Log\<close>: \<open>logger/AccessLogWriter.cpp\<close>, the thread that turns the records of the ring buffer into lines of
    the log, on top of \<open>Ringbuf\<close>: every record is written once and in order (C5).
  \<^item> \<open>Spec2Isabelle\<close>: the parts together: what the filter decides after any sequence of commands
    (C2), and that the log holds exactly the lines of its verdicts (C4).
  \<^item> \<open>Ringbuf\<close>, \<open>User_Ringbuf\<close>: \<open>libbpf/src/ringbuf.c\<close>. The consumer delivers exactly the published samples up to the
    first busy record (\<open>committed\<close>, C10; with a limit, \<open>ringbuf_process_ring_limit\<close> and \<open>ring__consume_n_zero\<close>) and its
    set-up and teardown balance (C11); the producer reserves, commits and never overtakes the
    consumer (C12, C13), and its blocking reserve gives up when it should wait
    (\<open>reserve_blocking_forever_gives_up\<close>).
  \<^item> \<open>Hashmap\<close>, \<open>Strset\<close>: \<open>hashmap.c\<close> and \<open>strset.c\<close>. The locale \<open>hashmap_contract\<close> is what the map promises
    a client; \<open>hash_keys\<close>, a hash that respects the equality, gives it by a \<open>sublocale\<close>, and is interpreted for
    plain keys, for strings and, in \<open>Strset\<close>, for offsets into the buffer. Shown: refinement of a partial function
    (C14), the shape of the table (C15), the order of a multimap (\<open>hashmap_append_order\<close>), interning (C16, \<open>strset_new_find\<close>).
  \<^item> \<open>Nlattr\<close>, \<open>Netlink\<close>, \<open>Netlink_Tc\<close>, \<open>Netlink_Props\<close>: \<open>nlattr.c\<close> and \<open>netlink.c\<close> over the bytes of the
    messages. Shown: the parser stays inside any message (C17), reads back what was built (C18, C19), attaching and
    detaching a program returns with no socket left open (C20; the lemmas ending in \<open>_closes\<close> say of the other exchanges
    that they close their socket when they return), and a dump is delivered whole (C21).
  \<^item> \<open>Json_Writer\<close>: \<open>bpftool/src/json_writer.c\<close> writes the reference printing of a value (C31) and strings that
    read back (\<open>json_string_roundtrip\<close>).
  \<^item> \<open>Zip\<close>: \<open>zip.c\<close> reads no byte outside the file (C32), finds the members of an archive (C33) and releases what
    it took (C34).
  \<^item> \<open>Linfo\<close>: \<open>bpf_prog_linfo.c\<close>, the partition of the table (C35), the lookups (\<open>linfo_lfind_addr_finds\<close>, \<open>linfo_lfind_finds\<close>) and what is not
    checked for a single function (\<open>dissect_single_unchecked\<close>).
  \<^item> \<open>Cfg\<close>: \<open>bpftool/src/cfg.c\<close>. \<open>runs_to\<close> says where execution may go after an instruction, and \<open>flow_graph\<close>
    that blocks and edges agree with it (C36); the drawing (C37), the program that makes it follow
    a null pointer (\<open>dump_xlated_cfg_call_crash\<close>) and the wrong edge of a \<open>gotol\<close> (\<open>gotol_wrong_edge\<close>). The graphs are
    described for unlimited memory first (\<open>cfg_build_ok\<close>); a run in which allocations fail gives up or does the same (\<open>same_run\<close>).
  \<^item> \<open>Btf\<close>, \<open>Btf_Props\<close>, \<open>Btf_Size\<close>: the type information of \<open>btf.c\<close> and \<open>btf.h\<close>: raw bytes of either byte
    order to a table of types and strings (\<open>btf_new\<close>), possibly on top of a base, the lookups, sizes and searches. A
    type is its three words and the words that follow. Shown: what parsing guarantees for arbitrary bytes
    (C28; the return type of a prototype is not checked), that it reads back what was written (C29), and that sizes are those of C, given by
    the inductive \<open>type_size\<close> (C30).
  \<^item> \<open>Btf_Build\<close>: the writing half of \<open>btf.c\<close>, from an empty object over every \<open>btf__add_*\<close> call to \<open>btf__raw_data\<close>;
    \<open>Btf_Iter\<close>: \<open>btf_iter.c\<close>; \<open>Btf_Append\<close>: the copying of types between objects, on top of \<open>Hashmap\<close>.
    \<open>Btf_Strings\<close>: the string section, a client of the locale \<open>string_store\<close>, which is interpreted on the string set
    of \<open>Strset\<close>. \<open>Btf_Refine\<close>, \<open>Btf_Api\<close>, \<open>Btf_Built\<close>, \<open>Btf_Fields\<close>: any sequence of calls, whichever allocations fail, does to
    the object what the calls say to a list of types that carry their names as strings (\<open>btf_build_refines\<close>); what was built is
    written out as bytes that parse back (\<open>btf_built_roundtrip\<close>); the fields of a structure read back
    (\<open>btf_struct_fields\<close>); the types of another object are appended with their identifiers moved (\<open>btf_add_btf_copies\<close>).
  \<^item> \<open>Bpf_Insn\<close>: instructions and opcodes, for \<open>Cfg\<close> and the relocations.
  \<^item> \<open>Core_Relo\<close>: \<open>relo_core.c\<close> and the candidate search of \<open>libbpf.c\<close>, from the access string of a relocation to
    the patched instruction. \<open>Core_Patch\<close>: what patching does to the program (C26).
    \<open>Core_Bitfield\<close>: the four relocations of a bit field and the macro that uses them
    (C27). \<open>Core_Match\<close>, \<open>Core_Total\<close>: a specification designates a path through the
    types (\<open>follow\<close>, \<open>trail\<close>, \<open>designates\<close>), matching preserves the names and indices of the steps (C23), ends and
    stays inside the tables (C24). \<open>Core_Cands\<close>: candidates must agree (C25), and a
    relocated load or store accesses the field that the program names (C22). \<open>Core_Limits\<close>:
    type information that passes validation and breaks one of the hypotheses of these theorems.

  \<^bold>\<open>Conventions.\<close> Unsigned and signed C integers are words of their width, so arithmetic wraps; sizes bounded by
  the address space are natural numbers where the theory says so. A memory access the code may not make has the
  result \<open>None\<close>; a theorem that a result is \<open>Some\<close> is memory safety. Error codes are the values the code returns.
  The outcome of every allocation is an argument, and a counter or a list of what is held shows leaks. The byte
  order of the host is the argument \<open>le\<close>. Code outside the repository (the kernel, sockets, \<open>epoll\<close>, \<open>mmap\<close>,
  \<open>inotify\<close>) is a record of functions or a list of its answers. Console messages are left out, and with them the calls of
  \<open>bpf_core_format_spec\<close> that only compose their text. Runs of the filter (\<open>xdp_run\<close>) take packets one after the other, as a
  single processor does; interleaved runs on several processors over the same maps are not modelled. The alignment macros of netlink
  are computed on natural numbers: at the lengths a message can have they do not wrap around. That the constructor of a
  \<open>std::thread\<close> throws is not modelled.

  \<^bold>\<open>Fuel.\<close> Where a loop is bounded by its data (attributes, archive records, table entries, instructions) the
  recursion is structural or has a termination proof. The ring-buffer consumer and the blocking reserve may run as
  long as the other side feeds them; they take fuel, and C10 states how much is enough to return. The netlink receive
  loop and the listener thread run over the finite list of what they receive; a run that needs more has no result, and C20
  excludes it by an answer that ends the exchange (\<open>answers\<close>).

  Chains of typedefs and nested arrays are followed by \<open>partial_function (option)\<close>, whose result \<open>None\<close> stands for a
  null pointer and for a loop that does not end; C24 excludes both. The recursion of the member search
  has depth 65: every call is made with one more of at most 64 entries. The two recursions of the type comparison have
  the depth limits of the code, 32.

  \<^bold>\<open>Not modelled.\<close> \<open>main.cpp\<close>, which is process set-up, and the rotation of the log files, which the logging library does; \<open>packetfilter.cpp\<close> and \<open>packet_filter.cpp\<close>, older programs that the build leaves out; the ELF loader,
  the linker and the USDT support of libbpf, and the parts of \<open>btf.c\<close> that deduplicate, distill and dump types; the
  system-call wrappers of \<open>bpf.c\<close>; bpftool's commands; blazesym, a Rust library; the generated \<open>vmlinux.h\<close> headers.

  \<^bold>\<open>Plan.\<close> Next are the system-call wrappers of \<open>bpf.c\<close>, the deduplication of types in \<open>btf.c\<close>, and
  the argument specifications of \<open>usdt.c\<close>.
\<close>

section \<open>Control plane and filter together\<close>

text \<open>C2. After any sequence of well-formed control commands sent as events, on top of whatever the maps held, the
  filter has a verdict on every mapped packet, and it drops the packet exactly when it is an IPv4 packet, a log slot
  can be reserved and its source is refused by the policy of the abstract control state that the accepted commands
  lead to: the commands that failed changed nothing, and nothing else in the maps has a say.\<close>
theorem control_plane_verdict:
  assumes "bpf_kernel_spec le K entries" "descriptors_ok b" "descriptors_ok w" "descriptors_ok l"
    "list_all valid_command cmds" "run_commands le K [Blacklist b, Whitelist w, RateLimit l] cmds s = (acc, s')"
    "packet_mapped ctx mem"
  shows "\<exists>a s2. xdp_filter le K now ctx mem s' = Some (a, s2) \<and>
    (a = XDP_DROP \<longleftrightarrow>
      (\<exists>src. packet_source le ctx mem = Some src \<and> ringbuf_reserve K (packet_ringbuf s) 12 \<noteq> None \<and>
         \<not> policy_allows (policy_from (fold (step le) acc (control_of entries s))) (bpf_ntohl le src) src now (last_pass s src)))"
proof -
  have "control_of entries s' = fold (step le) acc (control_of entries s)" "untouched s s'"
    using run_commands_refined [OF assms(1-6)] by simp_all
  then show ?thesis
    using filter_verdict [OF assms(1,7), of now s'] by (simp add: policy_of_control untouched_def last_pass_def)
qed

definition block_ten :: "command list" where
  "block_ten = [Switch FBlacklist True, Add_black (10, 0, 0, 0) 8]"

lemma block_ten_done:
  "fst (run_commands True (list_kernel True 1) [Blacklist sample_object, Whitelist sample_object, RateLimit sample_object]
     block_ten empty_maps) = block_ten"
  using list_texts(1) [of 8 True "list_kernel True 1" sample_object "(10, 0, 0, 0)"]
  by (simp add: block_ten_def dispatch object_for_def switch_texts Blacklist_add_ip_subnets_def enable_blacklist_def
      set_config_state_def via_fd_def sample_object_def list_kernel_def array_update_def list_lpm_update_def empty_maps_def
      CONFIG_KEY_BLACKLIST_def)

theorem control_plane_verdict_witness:
  "\<exists>a s2. xdp_filter True (list_kernel True 1) 5 example_ctx (example_mem 10 1 2 3)
      (snd (run_commands True (list_kernel True 1) [Blacklist sample_object, Whitelist sample_object, RateLimit sample_object]
        block_ten empty_maps)) = Some (a, s2) \<and> a = XDP_DROP"
proof -
  let ?r = "run_commands True (list_kernel True 1) [Blacklist sample_object, Whitelist sample_object, RateLimit sample_object]
    block_ten empty_maps"
  let ?src = "join32 True 10 1 2 3"
  have "?r = (block_ten, snd ?r)" using block_ten_done by (metis surjective_pairing)
  moreover have ntohl: "bpf_ntohl True ?src = join32 False 10 1 2 3" by (rule bpf_ntohl_join32)
  have net: "drop_bit 24 (join32 False 10 1 2 3) = drop_bit 24 (join32 False 10 0 0 0)" by (simp add: join32_def)
  have "\<not> policy_allows (policy_from (fold (step True) block_ten (control_of list_entries empty_maps)))
      (bpf_ntohl True ?src) ?src 5 (last_pass empty_maps ?src)"
    unfolding ntohl by (simp add: policy_allows_def policy_from_def block_ten_def prefix_ip_def ip_word_def in_prefix_def net)
  moreover have "ringbuf_reserve (list_kernel True 1) (packet_ringbuf empty_maps) 12 \<noteq> None"
    by (simp add: list_kernel_def empty_maps_def)
  moreover have "list_all valid_command block_ten" by (simp add: block_ten_def)
  ultimately show ?thesis
    using control_plane_verdict [OF lk.bpf_kernel_spec_axioms [of True 1] sample_object_ok sample_object_ok sample_object_ok,
        where now = 5, OF _ _ example_mapped [of 10 1 2 3]] example_source [of True 10 1 2 3] by fastforce
qed

section \<open>From the packet to the log\<close>

text \<open>C4. The verdicts of the filter reach the access log. When the polls of the log thread find the records that the filter
  submitted while it handled a sequence of mapped packets, starting with an empty ring buffer, the thread writes exactly these
  lines, in the order of the packets: one for each IPv4 packet for which a slot could be reserved, with its source address, its length, the
  verdict that the filter returned for it and a reading of the clock, and no others.\<close>

theorem verdicts_logged:
  assumes "xdp_run le K packets s = Some (acts, s')" "\<forall>(now, ctx, mem) \<in> set packets. packet_mapped ctx mem" "packet_ringbuf s = []"
    "getLogger create m DEFAULT_LOG_ACCESS = Some (g, m')"
    "ring_buffer__new os True calloc_ok map_fd (handle_log_event lib le clk alloc)
       (new_BufferContext clk DEFAULT_LOG_ACCESS_BUFFER_SIZE DEFAULT_LOG_ACCESS_TIMEOUT_MS g 0) cons0 rs = (Inr rb, rs')"
    "os_sane os map_fd" "rb_rings rb = [r]" "feeds r ps"
    "list_all (\<lambda>(p, hs). length hs + 2 < fuel \<and> length hs < 2147483647) ps"
    "arrived le (r_mask r) cons0 ps = packet_ringbuf s'"
  shows "\<exists>ts. set ts \<subseteq> range (system_now clk) \<and> length ts = length (records le K packets acts []) \<and>
    process fuel lib le clk alloc create True os calloc_ok cons0 map_fd m (map fst ps) rs =
      Some (m'(DEFAULT_LOG_ACCESS \<mapsto> written lib le g (map2 entry_of ts (records le K packets acts []))), rs)"
proof -
  have "packet_ringbuf s' = records le K packets acts []" using xdp_run_records [OF assms(1,2)] assms(3) by simp
  then show ?thesis using process_writes [OF assms(4-9)] assms(10) by simp
qed

text \<open>The second of two packets finds no room; the first one is logged.\<close>

theorem verdicts_logged_witness:
  "process 10 ex_spdlog True ex_clocks (\<lambda>n. False) (\<lambda>name. Some []) True ex_log_os True 0 3 Map.empty (map fst ex_log_rounds)
     ex_log_resources = Some ([DEFAULT_LOG_ACCESS \<mapsto> [''7 10.1.2.3 34 PASS'']], ex_log_resources)"
proof -
  obtain rb rs' where new: "ring_buffer__new ex_log_os True True 3 ex_log_cb ex_log_ctx 0 ex_log_resources = (Inr rb, rs')"
    "rb_rings rb = [ex_log_ring]" using ex_log_new by blast
  have "packet_ringbuf empty_maps = []" by (simp add: empty_maps_def)
  from verdicts_logged [OF example_run two_packets_mapped this ex_log_ready(3) new(1) [unfolded ex_log_cb_def ex_log_ctx_def]
      ex_log_ready(1) new(2) ex_log_feeds ex_log_ready(2)]
  obtain ts where ts: "set ts \<subseteq> range (system_now ex_clocks)" "length ts = 1"
    "process 10 ex_spdlog True ex_clocks (\<lambda>n. False) (\<lambda>name. Some []) True ex_log_os True 0 3 Map.empty (map fst ex_log_rounds) ex_log_resources =
      Some ([DEFAULT_LOG_ACCESS \<mapsto> written ex_spdlog True [] (map2 entry_of ts
        [\<lparr>log_ip = join32 True 10 1 2 3, log_bytes = 34, log_is_passed = 1\<rparr>])], ex_log_resources)"
    using ex_log_ready(4) ex_arrived example_records by auto
  then have "ts = [7]" by (cases ts) (auto simp: ex_clocks_def)
  then show ?thesis using ts(3) by (simp add: written_def ex_spdlog_def ex_line)
qed

end
